(* ===== verification/Prelude.thy ===== *)
theory Prelude
  imports Complex_Main "HOL-Library.Word"
begin

unbundle bit_operations_syntax

text \<open>
  Shared vocabulary of the development: bytes and Rust strings, big-endian integers,
  slices, UTF-8, the string operations of the Rust standard library that the sources
  use, and the lemma collections the component theories draw on.

  \<^item> A \<open>u8\<close> is an \<open>8 word\<close>; \<open>&[u8]\<close> and \<open>Vec<u8>\<close> are lists of them.
  \<^item> A Rust \<open>str\<close> is the list of its UTF-8 bytes, so \<open>len\<close> is \<open>length\<close> and
    \<open>as_bytes\<close> is the identity; \<open>is_utf8\<close> is the type's validity invariant.
  \<^item> \<open>usize\<close> values are \<open>nat\<close>; the places where they could wrap say so.
  \<^item> \<open>Result<T, E>\<close> is \<open>'e + 'a\<close> with \<open>Inl\<close> for \<open>Err\<close>.
\<close>

section \<open>Bytes, strings and results\<close>

type_synonym byte = "8 word"
type_synonym bytes = "byte list"
type_synonym rstr = "byte list"
type_synonym u16 = "16 word"
type_synonym u32 = "32 word"
type_synonym u64 = "64 word"

named_theorems len_simps "lengths of the fixed-width encodings"
named_theorems codec_simps "rewrite rules of the byte codecs"
named_theorems const_defs "definitions of the numeric and string constants"

definition ch :: "char \<Rightarrow> byte" where
  "ch c = of_char c"

definition ascii :: "string \<Rightarrow> bytes" where
  "ascii s = map ch s"

lemma length_ascii [simp]: "length (ascii s) = length s"
  by (simp add: ascii_def)

definition isOk :: "'e + 'a \<Rightarrow> bool" where
  "isOk r = (case r of Inl _ \<Rightarrow> False | Inr _ \<Rightarrow> True)"

lemma isOk_simps [simp]: "isOk (Inr x)" "\<not> isOk (Inl e)"
  by (simp_all add: isOk_def)

definition ok :: "'e + 'a \<Rightarrow> 'a option" where
  "ok r = (case r of Inl _ \<Rightarrow> None | Inr x \<Rightarrow> Some x)"

lemma ok_simps [simp]: "ok (Inr x) = Some x" "ok (Inl e) = None"
  by (simp_all add: ok_def)

lemma ok_Some [simp]: "ok r = Some x \<longleftrightarrow> r = Inr x"
  by (cases r) simp_all

text \<open>The \<open>?\<close> operator: return the error, or go on with the value.\<close>

definition andThen :: "'e + 'a \<Rightarrow> ('a \<Rightarrow> 'e + 'b) \<Rightarrow> 'e + 'b" where
  "andThen r f = (case r of Inl e \<Rightarrow> Inl e | Inr x \<Rightarrow> f x)"

lemma andThen_simps [simp]: "andThen (Inl e) f = Inl e" "andThen (Inr x) f = f x"
  by (simp_all add: andThen_def)

lemma andThen_Inr: "andThen r f = Inr y \<longleftrightarrow> (\<exists>x. r = Inr x \<and> f x = Inr y)"
  by (cases r) simp_all

definition mapErr :: "('e \<Rightarrow> 'f) \<Rightarrow> 'e + 'a \<Rightarrow> 'f + 'a" where
  "mapErr f r = (case r of Inl e \<Rightarrow> Inl (f e) | Inr x \<Rightarrow> Inr x)"

lemma mapErr_simps [simp]: "mapErr f (Inl e) = Inl (f e)" "mapErr f (Inr x) = Inr x"
  by (simp_all add: mapErr_def)

lemma mapErr_Inr [simp]: "mapErr f r = Inr x \<longleftrightarrow> r = Inr x"
  by (cases r) simp_all

lemma mapErr_Inl: "mapErr f r = Inl e \<longleftrightarrow> (\<exists>d. r = Inl d \<and> e = f d)"
  by (cases r) auto

lemma if_Inl_Inr [simp]:
  "(if c then Inl e else r) = Inr x \<longleftrightarrow> \<not> c \<and> r = Inr x"
  by simp

lemma if_None_Some [simp]:
  "(if c then None else r) = Some x \<longleftrightarrow> \<not> c \<and> r = Some x"
  by simp

lemma case_option_Some [simp]:
  "(case x of None \<Rightarrow> None | Some y \<Rightarrow> f y) = Some z \<longleftrightarrow> (\<exists>y. x = Some y \<and> f y = Some z)"
  by (cases x) simp_all

section \<open>Slices\<close>

text \<open>\<open>xs[a..b]\<close>; every use in the models is guarded by the length check of the source.\<close>

definition segment :: "nat \<Rightarrow> nat \<Rightarrow> 'a list \<Rightarrow> 'a list" where
  "segment a b xs = take (b - a) (drop a xs)"

lemma length_segment [simp]: "b \<le> length xs \<Longrightarrow> length (segment a b xs) = b - a"
  by (simp add: segment_def)

lemma segment_split: "a \<le> b \<Longrightarrow> b \<le> c \<Longrightarrow> segment a b xs @ segment b c xs = segment a c xs"
proof -
  assume ab: "a \<le> b" and bc: "b \<le> c"
  have d: "drop b xs = drop (b - a) (drop a xs)" using ab by simp
  have "c - a = (b - a) + (c - b)" using ab bc by simp
  then show ?thesis unfolding segment_def d
    by (simp only: take_add)
qed

lemma segment_all: "segment 0 (length xs) xs = xs"
  by (simp add: segment_def)

lemma segment_nth: "i < length xs \<Longrightarrow> segment i (Suc i) xs = [xs ! i]"
  by (simp add: segment_def take_Suc_conv_app_nth)

lemma segment_append:
  "segment a b (xs @ ys) = segment a b xs @ segment (a - length xs) (b - length xs) ys"
proof (cases "a \<le> length xs")
  case True
  then have e: "b - a - (length xs - a) = b - length xs" by simp
  from True show ?thesis by (simp add: segment_def e)
next
  case False
  then have e: "b - length xs - (a - length xs) = b - a" by simp
  from False show ?thesis by (simp add: segment_def e)
qed

lemma segment_Cons:
  "segment a b (x # xs) = (if a = 0 \<and> 0 < b then [x] else []) @ segment (a - 1) (b - 1) xs"
  using segment_append [of a b "[x]" xs] by (simp add: segment_def split: nat_diff_split)

lemma segment_out [simp]: "length xs \<le> a \<Longrightarrow> segment a b xs = []"
  by (simp add: segment_def)

lemma segment_none [simp]: "b \<le> a \<Longrightarrow> segment a b xs = []"
  by (simp add: segment_def)

lemma segment_full: "length xs \<le> b \<Longrightarrow> segment 0 b xs = xs"
  by (simp add: segment_def)

text \<open>\<open>Vec::resize\<close>.\<close>

definition resize :: "nat \<Rightarrow> 'a \<Rightarrow> 'a list \<Rightarrow> 'a list" where
  "resize n v xs = take n xs @ replicate (n - length xs) v"

lemma length_resize [simp]: "length (resize n v xs) = n"
  by (simp add: resize_def)

lemma nth_resize: "i < n \<Longrightarrow> i < length xs \<Longrightarrow> resize n v xs ! i = xs ! i"
  by (simp add: resize_def nth_append)

section \<open>Counted loops\<close>

text \<open>
  A loop \<open>for i in a..b\<close> is a \<open>fold\<close> over \<open>[a..<b]\<close>. The loops below write one
  entry per iteration, or keep an invariant that grows with the counter.
\<close>

lemma fold_upt_invariant:
  assumes "a \<le> b" "I a s" "\<And>i s. a \<le> i \<Longrightarrow> i < b \<Longrightarrow> I i s \<Longrightarrow> I (Suc i) (f i s)"
  shows "I b (fold f [a..<b] s)"
  using assms
proof (induction b)
  case (Suc b)
  show ?case
  proof (cases "a = Suc b")
    case False
    with Suc.prems have le: "a \<le> b" by simp
    then have "I b (fold f [a..<b] s)"
      using Suc by (intro Suc.IH) auto
    with Suc.prems le show ?thesis by (simp add: upt_Suc_append)
  qed (use Suc.prems in simp)
qed simp

lemma length_fold_update:
  "length (fold (\<lambda>i xs. xs[g i := f i]) is xs) = length xs"
  by (induction "is" arbitrary: xs) simp_all

lemma nth_fold_update:
  "fold (\<lambda>i xs. xs[i := f i]) [a..<b] xs ! j =
     (if a \<le> j \<and> j < b \<and> j < length xs then f j else xs ! j)"
proof (cases "a \<le> b")
  case True
  define I where "I n ys \<longleftrightarrow> length ys = length xs \<and>
     ys ! j = (if a \<le> j \<and> j < n \<and> j < length xs then f j else xs ! j)" for n ys
  have "I b (fold (\<lambda>i xs. xs[i := f i]) [a..<b] xs)"
    using True
  proof (rule fold_upt_invariant)
    fix i ys
    assume "a \<le> i" "i < b" "I i ys"
    then show "I (Suc i) (ys[i := f i])"
      by (cases "i = j"; cases "j < length xs") (auto simp: I_def less_Suc_eq not_less list_update_beyond)
  qed (auto simp: I_def)
  then show ?thesis by (simp add: I_def)
qed auto

text \<open>A loop whose body may return early with an error.\<close>

primrec foldE :: "('i \<Rightarrow> 's \<Rightarrow> 'e + 's) \<Rightarrow> 'i list \<Rightarrow> 's \<Rightarrow> 'e + 's" where
  "foldE f [] s = Inr s"
| "foldE f (i # is) s = andThen (f i s) (foldE f is)"

lemma foldE_append: "foldE f (xs @ ys) s = andThen (foldE f xs s) (foldE f ys)"
proof (induction xs arbitrary: s)
  case (Cons x xs)
  then show ?case by (cases "f x s") simp_all
qed simp

lemma foldE_upt_invariant:
  assumes "foldE f [a..<b] s = Inr t" "a \<le> b" "I a s"
    "\<And>i s s'. a \<le> i \<Longrightarrow> i < b \<Longrightarrow> I i s \<Longrightarrow> f i s = Inr s' \<Longrightarrow> I (Suc i) s'"
  shows "I b t"
  using assms
proof (induction b arbitrary: t)
  case (Suc b)
  show ?case
  proof (cases "a = Suc b")
    case False
    with Suc.prems have le: "a \<le> b" by simp
    with Suc.prems(1) obtain u where u: "foldE f [a..<b] s = Inr u" "f b u = Inr t"
      by (auto simp: foldE_append andThen_Inr)
    then have "I b u" using Suc.IH [OF u(1) le] Suc.prems by simp
    then show ?thesis using Suc.prems(4) u le by simp
  qed (use Suc.prems in simp)
qed simp

lemma foldE_upt_total:
  assumes "a \<le> b" "I a s"
    "\<And>i s. a \<le> i \<Longrightarrow> i < b \<Longrightarrow> I i s \<Longrightarrow> \<exists>s'. f i s = Inr s' \<and> I (Suc i) s'"
  shows "\<exists>t. foldE f [a..<b] s = Inr t \<and> I b t"
  using assms
proof (induction b)
  case (Suc b)
  show ?case
  proof (cases "a = Suc b")
    case False
    with Suc.prems have le: "a \<le> b" by simp
    then obtain u where u: "foldE f [a..<b] s = Inr u" "I b u"
      using Suc.IH Suc.prems by (metis less_SucI)
    then obtain t where "f b u = Inr t" "I (Suc b) t" using Suc.prems(3) le by blast
    with u le show ?thesis by (simp add: foldE_append)
  qed (use Suc.prems in simp)
qed simp

lemma distinct_remdups_adj_sorted: "sorted xs \<Longrightarrow> distinct (remdups_adj xs)"
proof (induction xs rule: remdups_adj.induct)
  case (3 x y xs)
  show ?case
  proof (cases "x = y")
    case False
    with 3(3) have "\<forall>z \<in> set (y # xs). x < z" by fastforce
    then have "x \<notin> set (remdups_adj (y # xs))" by (simp only: remdups_adj_set) blast
    with 3 False show ?thesis by simp
  qed (use 3 in simp)
qed simp_all

lemma find_SomeD: "find P xs = Some x \<Longrightarrow> x \<in> set xs \<and> P x"
  by (induction xs) (auto split: if_splits)

lemma unat_byte_less [simp]: "unat (a :: byte) < 256"
  using unsigned_less [of a] by simp

lemma unat_byte_eq_0 [simp]: "unat (a :: byte) = 0 \<longleftrightarrow> a = 0"
  by (simp add: unat_eq_zero)

section \<open>Big-endian integers\<close>

text \<open>\<open>be_of_nat n x\<close> is the \<open>n\<close>-byte \<open>to_be_bytes\<close>, \<open>nat_of_be\<close> is \<open>from_be_bytes\<close>.\<close>

primrec be_of_nat :: "nat \<Rightarrow> nat \<Rightarrow> bytes" where
  "be_of_nat 0 x = []"
| "be_of_nat (Suc n) x = of_nat (x div 256 ^ n) # be_of_nat n x"

primrec nat_of_be :: "bytes \<Rightarrow> nat" where
  "nat_of_be [] = 0"
| "nat_of_be (b # bs) = unat b * 256 ^ length bs + nat_of_be bs"

lemma length_be_of_nat [simp, len_simps]: "length (be_of_nat n x) = n"
  by (induction n) simp_all

lemma nat_of_be_less: "nat_of_be bs < 256 ^ length bs"
proof (induction bs)
  case (Cons b bs)
  have "Suc (unat b) \<le> 256" using unat_byte_less [of b] by linarith
  then have "Suc (unat b) * 256 ^ length bs \<le> 256 * 256 ^ length bs" by (rule mult_le_mono1)
  with Cons show ?case by (simp only: nat_of_be.simps list.size power_Suc add_Suc_right mult_Suc add_0_right)
qed simp

lemma nat_of_be_of_nat_mod: "nat_of_be (be_of_nat n x) = x mod 256 ^ n"
proof (induction n)
  case (Suc n)
  have "unat (of_nat (x div 256 ^ n) :: byte) = x div 256 ^ n mod 256"
    by (simp add: unsigned_of_nat take_bit_eq_mod)
  moreover have "x mod (256 ^ n * 256) = 256 ^ n * (x div 256 ^ n mod 256) + x mod 256 ^ n"
    by (rule mod_mult2_eq)
  ultimately show ?case using Suc by (simp add: ac_simps)
qed simp

lemma nat_of_be_of_nat [simp, codec_simps]: "x < 256 ^ n \<Longrightarrow> nat_of_be (be_of_nat n x) = x"
  by (simp add: nat_of_be_of_nat_mod)

lemma be_of_nat_mod: "be_of_nat n (a * 256 ^ n + x) = be_of_nat n x"
proof -
  have "be_of_nat k (a * 256 ^ (k + j) + x) = be_of_nat k x" for k j
  proof (induction k arbitrary: j)
    case (Suc k)
    have "a * 256 ^ (Suc k + j) + x = x + (a * 256 ^ j * 256) * 256 ^ k"
      by (simp add: power_add)
    then have "(a * 256 ^ (Suc k + j) + x) div 256 ^ k = a * 256 ^ j * 256 + x div 256 ^ k"
      by (simp only: div_mult_self1 power_not_zero) simp
    moreover have "of_nat (n * 256 + m) = (of_nat m :: byte)" for n m
    proof -
      have "(256 :: byte) = 0" by (simp add: word_unat_eq_iff)
      then show ?thesis by (simp only: of_nat_add of_nat_mult of_nat_numeral mult_zero_right add_0_left)
    qed
    ultimately have "of_nat ((a * 256 ^ (Suc k + j) + x) div 256 ^ k) = (of_nat (x div 256 ^ k) :: byte)"
      by (simp only:)
    then show ?case
      using Suc [of "Suc j"] by (simp only: be_of_nat.simps add_Suc_right add_Suc)
  qed simp
  from this [of n 0] show ?thesis by simp
qed

lemma be_of_nat_of_be [simp, codec_simps]: "be_of_nat (length bs) (nat_of_be bs) = bs"
proof (induction bs)
  case (Cons b bs)
  have "(unat b * 256 ^ length bs + nat_of_be bs) div 256 ^ length bs = unat b"
    using nat_of_be_less [of bs] by simp
  with Cons show ?case by (simp add: be_of_nat_mod)
qed simp

lemma be_of_nat_inj: "be_of_nat n x = be_of_nat n y \<Longrightarrow> x < 256 ^ n \<Longrightarrow> y < 256 ^ n \<Longrightarrow> x = y"
  by (metis nat_of_be_of_nat)

text \<open>\<open>u32\<close> and \<open>u64\<close> fields: \<open>to_be_bytes\<close> and \<open>from_be_bytes\<close>.\<close>

definition be16 :: "u16 \<Rightarrow> bytes" where
  "be16 w = be_of_nat 2 (unat w)"

definition be32 :: "u32 \<Rightarrow> bytes" where
  "be32 w = be_of_nat 4 (unat w)"

definition be64 :: "u64 \<Rightarrow> bytes" where
  "be64 w = be_of_nat 8 (unat w)"

definition read16 :: "bytes \<Rightarrow> u16" where
  "read16 bs = of_nat (nat_of_be bs)"

definition read32 :: "bytes \<Rightarrow> u32" where
  "read32 bs = of_nat (nat_of_be bs)"

definition read64 :: "bytes \<Rightarrow> u64" where
  "read64 bs = of_nat (nat_of_be bs)"

lemma length_be [simp, len_simps]: "length (be16 v) = 2" "length (be32 w) = 4" "length (be64 x) = 8"
  by (simp_all add: be16_def be32_def be64_def)

lemma unat_less [simp]: "unat (v :: u16) < 65536" "unat (w :: u32) < 4294967296"
  "unat (x :: u64) < 18446744073709551616"
  using unsigned_less [of v, where 'a = nat] unsigned_less [of w, where 'a = nat]
    unsigned_less [of x, where 'a = nat] by simp_all

lemma read_be [simp, codec_simps]: "read16 (be16 v) = v" "read32 (be32 w) = w" "read64 (be64 x) = x"
  by (simp_all add: read16_def be16_def read32_def be32_def read64_def be64_def)

lemma be_read [codec_simps]:
  "length bs = 2 \<Longrightarrow> be16 (read16 bs) = bs"
  "length bs = 4 \<Longrightarrow> be32 (read32 bs) = bs"
  "length bs = 8 \<Longrightarrow> be64 (read64 bs) = bs"
  using nat_of_be_less [of bs] be_of_nat_of_be [of bs]
  by (simp_all add: read16_def be16_def read32_def be32_def read64_def be64_def unsigned_of_nat take_bit_nat_eq_self)

lemma segment_join: "a \<le> b \<Longrightarrow> b \<le> c \<Longrightarrow> segment a b xs @ segment b c xs @ ys = segment a c xs @ ys"
  using segment_split [of a b c xs] by simp

lemma segment_tail: "a \<le> length xs \<Longrightarrow> length xs \<le> b \<Longrightarrow> segment a b xs = drop a xs"
  by (simp add: segment_def)

lemma segment_one: "i < length xs \<Longrightarrow> j = Suc i \<Longrightarrow> [xs ! i] = segment i j xs"
  by (simp add: segment_nth)

lemma take_segment: "take n xs = segment 0 n xs"
  by (simp add: segment_def)

lemma unat_of_nat_byte: "n < 256 \<Longrightarrow> unat (of_nat n :: byte) = n"
  by (simp add: unsigned_of_nat take_bit_nat_eq_self)

lemma byte_of_unat [simp]: "[of_nat (unat (b :: byte))] = [b]"
  by simp

end
