(* ===== verification/Crypto.thy ===== *)
theory Crypto
  imports Prelude
begin

text \<open>
  \<open>crypto.rs\<close> and \<open>ed25519_points.rs\<close>. The primitives of the crates (SHA-256, HKDF,
  Argon2id, X25519, Ed25519, ChaCha20-Poly1305, base64, hex) are the fields of the record
  \<open>prims\<close>, an argument of every definition that uses them; random bytes are arguments too.
  The predicates \<open>b64_codec\<close>, \<open>ed25519\<close>, \<open>x25519_aead\<close> and \<open>digest\<close> name the
  documented behaviour that a theorem relies on.
\<close>

section \<open>The primitives of the crates\<close>

record prims =
  sha256 :: "bytes \<Rightarrow> bytes"
  hkdf_sha256 :: "bytes \<Rightarrow> bytes \<Rightarrow> bytes \<Rightarrow> bytes"
  argon2id :: "bytes \<Rightarrow> bytes \<Rightarrow> string + bytes"
  x25519_public :: "bytes \<Rightarrow> bytes"
  x25519_dh :: "bytes \<Rightarrow> bytes \<Rightarrow> bytes"
  aead_encrypt :: "bytes \<Rightarrow> bytes \<Rightarrow> bytes \<Rightarrow> bytes \<Rightarrow> bytes option"
  aead_decrypt :: "bytes \<Rightarrow> bytes \<Rightarrow> bytes \<Rightarrow> bytes \<Rightarrow> bytes option"
  ed25519_public :: "bytes \<Rightarrow> bytes"
  ed25519_sign :: "bytes \<Rightarrow> bytes \<Rightarrow> bytes"
  ed25519_valid_key :: "bytes \<Rightarrow> bool"
  ed25519_verify_strict :: "bytes \<Rightarrow> bytes \<Rightarrow> bytes \<Rightarrow> bool"
  b64_encode :: "bytes \<Rightarrow> rstr"
  b64_decode :: "rstr \<Rightarrow> bytes option"
  hex_encode :: "bytes \<Rightarrow> rstr"

definition b64_codec :: "prims \<Rightarrow> bool" where
  "b64_codec P \<longleftrightarrow> (\<forall>x. b64_decode P (b64_encode P x) = Some x) \<and>
     (\<forall>s x. b64_decode P s = Some x \<longrightarrow> s = b64_encode P x)"

text \<open>The length of padded base64.\<close>

definition b64_length :: "prims \<Rightarrow> bool" where
  "b64_length P \<longleftrightarrow> (\<forall>x. length (b64_encode P x) = 4 * ((length x + 2) div 3))"

definition digest :: "prims \<Rightarrow> bool" where
  "digest P \<longleftrightarrow> (\<forall>x. length (sha256 P x) = 32)"

section \<open>Low-order public keys\<close>

definition hex_nibble :: "byte \<Rightarrow> byte" where
  "hex_nibble c =
     (if ch CHR ''0'' \<le> c \<and> c \<le> ch CHR ''9'' then c - ch CHR ''0''
      else if ch CHR ''a'' \<le> c \<and> c \<le> ch CHR ''f'' then c - ch CHR ''a'' + 10
      else if ch CHR ''A'' \<le> c \<and> c \<le> ch CHR ''F'' then c - ch CHR ''A'' + 10
      else 0)"

fun parse_hex :: "bytes \<Rightarrow> bytes" where
  "parse_hex (h # l # xs) = (push_bit 4 (hex_nibble h) OR hex_nibble l) # parse_hex xs"
| "parse_hex _ = []"

definition LOW_ORDER_ED25519_PUBKEYS :: "bytes list" where
  "LOW_ORDER_ED25519_PUBKEYS = map (\<lambda>s. parse_hex (ascii s))
    [''0100000000000000000000000000000000000000000000000000000000000000'',
     ''c7176a703d4dd84fba3c0b760d10670f2a2053fa2c39ccc64ec7fd7792ac037a'',
     ''0000000000000000000000000000000000000000000000000000000000000080'',
     ''26e8958fc2b227b045c3f489f2ef98f0d5dfac05d3c63339b13802886d53fc05'',
     ''ecffffffffffffffffffffffffffffffffffffffffffffffffffffffffffff7f'',
     ''26e8958fc2b227b045c3f489f2ef98f0d5dfac05d3c63339b13802886d53fc85'',
     ''0000000000000000000000000000000000000000000000000000000000000000'',
     ''c7176a703d4dd84fba3c0b760d10670f2a2053fa2c39ccc64ec7fd7792ac03fa'',
     ''0100000000000000000000000000000000000000000000000000000000000080'',
     ''eeffffffffffffffffffffffffffffffffffffffffffffffffffffffffffff7f'',
     ''eeffffffffffffffffffffffffffffffffffffffffffffffffffffffffffffff'',
     ''edffffffffffffffffffffffffffffffffffffffffffffffffffffffffffff7f'',
     ''edffffffffffffffffffffffffffffffffffffffffffffffffffffffffffffff'',
     ''ecffffffffffffffffffffffffffffffffffffffffffffffffffffffffffffff'']"

definition is_low_order :: "bytes \<Rightarrow> bool" where
  "is_low_order pubkey =
     (if length pubkey \<noteq> 32 then True
      else list_ex (\<lambda>candidate. candidate = pubkey) LOW_ORDER_ED25519_PUBKEYS)"

lemma length_parse_hex: "length (parse_hex xs) = length xs div 2"
  by (induction xs rule: parse_hex.induct) auto

section \<open>Constants, errors and data\<close>

definition ED25519_DOMAIN :: bytes where
  "ED25519_DOMAIN = ascii ''DMP-v1-Ed25519-signing-key''"

definition DEFAULT_ARGON2_SALT :: bytes where
  "DEFAULT_ARGON2_SALT = ascii ''DMP-default-v2-argon2id''"

definition HKDF_SALT :: bytes where
  "HKDF_SALT = ascii ''DMP-v1''"

definition HKDF_INFO :: bytes where
  "HKDF_INFO = ascii ''DMP-Message-Encryption''"

definition STORAGE_HKDF_INFO :: bytes where
  "STORAGE_HKDF_INFO = ascii ''DMP-Storage-At-Rest''"

definition X25519_KEY_LEN :: nat where
  "X25519_KEY_LEN = 32"

definition ED25519_KEY_LEN :: nat where
  "ED25519_KEY_LEN = 32"

definition ED25519_SIG_LEN :: nat where
  "ED25519_SIG_LEN = 64"

definition NONCE_LEN :: nat where
  "NONCE_LEN = 12"

definition MIN_ENCRYPTED_LEN :: nat where
  "MIN_ENCRYPTED_LEN = X25519_KEY_LEN + NONCE_LEN"

lemmas [const_defs] = X25519_KEY_LEN_def ED25519_KEY_LEN_def ED25519_SIG_LEN_def NONCE_LEN_def
  MIN_ENCRYPTED_LEN_def

datatype crypto_error =
    InvalidKeyLength nat nat
  | EncryptedMessageTooShort nat nat
  | AeadFailure
  | NonContributoryEcdh
  | Argon2 string
  | SaltTooShort

record encrypted_message =
  ephemeral_public_key :: bytes
  em_nonce :: bytes
  ciphertext :: bytes

definition em_to_bytes :: "encrypted_message \<Rightarrow> bytes" where
  "em_to_bytes em = ephemeral_public_key em @ em_nonce em @ ciphertext em"

definition em_from_bytes :: "bytes \<Rightarrow> crypto_error + encrypted_message" where
  "em_from_bytes data =
     (if length data < MIN_ENCRYPTED_LEN
      then Inl (EncryptedMessageTooShort (length data) MIN_ENCRYPTED_LEN)
      else Inr \<lparr> ephemeral_public_key = segment 0 X25519_KEY_LEN data,
                 em_nonce = segment X25519_KEY_LEN MIN_ENCRYPTED_LEN data,
                 ciphertext = drop MIN_ENCRYPTED_LEN data \<rparr>)"

record dmp_crypto =
  private_seed :: bytes
  x25519_pub :: bytes
  signing_key :: bytes
  verifying_key :: bytes

section \<open>Identities and signatures\<close>

definition from_private_bytes :: "prims \<Rightarrow> bytes \<Rightarrow> crypto_error + dmp_crypto" where
  "from_private_bytes P bs =
     (if length bs \<noteq> X25519_KEY_LEN then Inl (InvalidKeyLength X25519_KEY_LEN (length bs))
      else let ed_seed = sha256 P (bs @ ED25519_DOMAIN)
        in Inr \<lparr> private_seed = bs, x25519_pub = x25519_public P bs,
                 signing_key = ed_seed, verifying_key = ed25519_public P ed_seed \<rparr>)"

definition from_passphrase :: "prims \<Rightarrow> rstr \<Rightarrow> bytes option \<Rightarrow> crypto_error + dmp_crypto" where
  "from_passphrase P passphrase salt =
     (let salt = (case salt of None \<Rightarrow> DEFAULT_ARGON2_SALT | Some s \<Rightarrow> s) in
      if length salt < 8 then Inl SaltTooShort
      else andThen (mapErr Argon2 (argon2id P passphrase salt)) (from_private_bytes P))"

definition derive_storage_key :: "prims \<Rightarrow> dmp_crypto \<Rightarrow> bytes" where
  "derive_storage_key P self = hkdf_sha256 P HKDF_SALT (private_seed self) STORAGE_HKDF_INFO"

definition sign_data :: "prims \<Rightarrow> dmp_crypto \<Rightarrow> bytes \<Rightarrow> bytes" where
  "sign_data P self data = ed25519_sign P (signing_key self) data"

definition verify_signature :: "prims \<Rightarrow> bytes \<Rightarrow> bytes \<Rightarrow> bytes \<Rightarrow> bool" where
  "verify_signature P data signature signing_public_key =
     (if length signature \<noteq> ED25519_SIG_LEN \<or> length signing_public_key \<noteq> ED25519_KEY_LEN then False
      else if is_low_order signing_public_key then False
      else if \<not> ed25519_valid_key P signing_public_key then False
      else ed25519_verify_strict P signing_public_key data signature)"

definition deterministic_nonce :: "prims \<Rightarrow> bytes \<Rightarrow> u32 \<Rightarrow> u64 \<Rightarrow> bytes" where
  "deterministic_nonce P message_id chunk_number timestamp =
     take NONCE_LEN (sha256 P (message_id @ be_of_nat 4 (unat chunk_number) @ be_of_nat 8 (unat timestamp)))"

definition derive_user_id :: "prims \<Rightarrow> bytes \<Rightarrow> bytes" where
  "derive_user_id P public_key = sha256 P public_key"

section \<open>Encryption\<close>

text \<open>\<open>SharedSecret::was_contributory\<close>: the shared secret is not all zero.\<close>

definition was_contributory :: "bytes \<Rightarrow> bool" where
  "was_contributory shared \<longleftrightarrow> list_ex (\<lambda>b. b \<noteq> 0) shared"

definition encrypt_for_recipient :: "prims \<Rightarrow> bytes \<Rightarrow> bytes \<Rightarrow> bytes \<Rightarrow> bytes \<Rightarrow> bytes option \<Rightarrow>
    crypto_error + encrypted_message" where
  "encrypt_for_recipient P ephemeral_seed nonce_bytes plaintext recipient_public_key aad =
     (let shared = x25519_dh P ephemeral_seed recipient_public_key in
      if \<not> was_contributory shared then Inl NonContributoryEcdh
      else
        let key = hkdf_sha256 P HKDF_SALT shared HKDF_INFO in
        (case aead_encrypt P key nonce_bytes plaintext (case aad of None \<Rightarrow> [] | Some a \<Rightarrow> a) of
           None \<Rightarrow> Inl AeadFailure
         | Some ct \<Rightarrow> Inr \<lparr> ephemeral_public_key = x25519_public P ephemeral_seed,
                            em_nonce = nonce_bytes, ciphertext = ct \<rparr>))"

definition decrypt_with_secret :: "prims \<Rightarrow> bytes \<Rightarrow> encrypted_message \<Rightarrow> bytes option \<Rightarrow>
    crypto_error + bytes" where
  "decrypt_with_secret P secret msg aad =
     (let shared = x25519_dh P secret (ephemeral_public_key msg) in
      if \<not> was_contributory shared then Inl NonContributoryEcdh
      else
        let key = hkdf_sha256 P HKDF_SALT shared HKDF_INFO in
        (case aead_decrypt P key (em_nonce msg) (ciphertext msg) (case aad of None \<Rightarrow> [] | Some a \<Rightarrow> a) of
           None \<Rightarrow> Inl AeadFailure
         | Some pt \<Rightarrow> Inr pt))"

definition decrypt_message :: "prims \<Rightarrow> dmp_crypto \<Rightarrow> encrypted_message \<Rightarrow> bytes option \<Rightarrow> crypto_error + bytes" where
  "decrypt_message P self msg aad = decrypt_with_secret P (private_seed self) msg aad"

section \<open>What the crates promise\<close>

text \<open>
  Ed25519: keys of 32 and signatures of 64 bytes, a signature made with a seed verifies strictly
  under the public key of that seed, and that key (a multiple of the base point by a clamped
  scalar) is never of low order.
\<close>

definition ed25519 :: "prims \<Rightarrow> bool" where
  "ed25519 P \<longleftrightarrow> (\<forall>seed d. length seed = 32 \<longrightarrow>
     length (ed25519_public P seed) = 32 \<and> length (ed25519_sign P seed d) = 64 \<and>
     ed25519_valid_key P (ed25519_public P seed) \<and> \<not> is_low_order (ed25519_public P seed) \<and>
     ed25519_verify_strict P (ed25519_public P seed) d (ed25519_sign P seed d))"

text \<open>X25519 agreement, and the AEAD opens what it sealed.\<close>

definition x25519_aead :: "prims \<Rightarrow> bool" where
  "x25519_aead P \<longleftrightarrow> (\<forall>a b. x25519_dh P a (x25519_public P b) = x25519_dh P b (x25519_public P a)) \<and>
     (\<forall>a. length (x25519_public P a) = 32) \<and>
     (\<forall>k n m a c. aead_encrypt P k n m a = Some c \<longrightarrow> aead_decrypt P k n c a = Some m)"

definition wf_em :: "encrypted_message \<Rightarrow> bool" where
  "wf_em em \<longleftrightarrow> length (ephemeral_public_key em) = X25519_KEY_LEN \<and> length (em_nonce em) = NONCE_LEN"

text \<open>An identity as \<open>from_private_bytes\<close> builds it.\<close>

definition wf_crypto :: "prims \<Rightarrow> dmp_crypto \<Rightarrow> bool" where
  "wf_crypto P me \<longleftrightarrow> from_private_bytes P (private_seed me) = Inr me"

lemma from_private_bytes_ok:
  "from_private_bytes P bs = Inr me \<longleftrightarrow> length bs = 32 \<and> me = \<lparr> private_seed = bs,
     x25519_pub = x25519_public P bs, signing_key = sha256 P (bs @ ED25519_DOMAIN),
     verifying_key = ed25519_public P (sha256 P (bs @ ED25519_DOMAIN)) \<rparr>"
  by (auto simp: from_private_bytes_def Let_def X25519_KEY_LEN_def)

lemma from_private_bytes_wf: "from_private_bytes P bs = Inr me \<Longrightarrow> wf_crypto P me"
  by (auto simp: wf_crypto_def from_private_bytes_ok)

lemma sign_verifies:
  assumes "ed25519 P" "digest P" "wf_crypto P me"
  shows "verify_signature P d (sign_data P me d) (verifying_key me)"
    and "length (sign_data P me d) = 64" "length (verifying_key me) = 32"
proof -
  obtain bs where "from_private_bytes P bs = Inr me" using assms(3) by (auto simp: wf_crypto_def)
  then obtain seed where me: "signing_key me = seed" "verifying_key me = ed25519_public P seed" "length seed = 32"
    using assms(2) by (auto simp: from_private_bytes_ok digest_def)
  then show "length (sign_data P me d) = 64" "length (verifying_key me) = 32"
    and "verify_signature P d (sign_data P me d) (verifying_key me)"
    using assms(1) by (simp_all add: ed25519_def sign_data_def verify_signature_def const_defs)
qed

lemma verify_signature_lengths:
  "verify_signature P d s pk \<Longrightarrow> length s = 64 \<and> length pk = 32 \<and> \<not> is_low_order pk"
  by (auto simp: verify_signature_def const_defs split: if_splits)

section \<open>A concrete instance of the primitives\<close>

text \<open>
  Simple functions with the promised laws, for the witnesses: they are not secure, they only
  show that the hypotheses can hold together.
\<close>

definition demo_hash :: "bytes \<Rightarrow> bytes" where
  "demo_hash x = resize 32 0 (of_nat (length x) # x)"

definition demo_encode :: "bytes \<Rightarrow> rstr" where
  "demo_encode x = (if x = [] then [] else x @ 1 # replicate (4 * ((length x + 2) div 3) - length x - 1) 0)"

definition demo_decode :: "rstr \<Rightarrow> bytes option" where
  "demo_decode s = (case dropWhile (\<lambda>b. b = 0) (rev s) of
     [] \<Rightarrow> if s = [] then Some [] else None
   | _ # r \<Rightarrow> if demo_encode (rev r) = s then Some (rev r) else None)"

definition hex_digit :: "byte \<Rightarrow> byte" where
  "hex_digit b = (if b < 10 then 48 + b else 87 + b)"

definition demo_hex :: "bytes \<Rightarrow> rstr" where
  "demo_hex x = concat (map (\<lambda>b. [hex_digit (drop_bit 4 b), hex_digit (take_bit 4 b)]) x)"

definition demo_prims :: prims where
  "demo_prims = \<lparr> sha256 = demo_hash, hkdf_sha256 = (\<lambda>s k i. demo_hash k),
     argon2id = (\<lambda>p s. Inr (demo_hash (p @ s))), x25519_public = (\<lambda>a. resize 32 0 a),
     x25519_dh = (\<lambda>a b. map2 (\<lambda>x y. 1 + x * y) (resize 32 0 a) (resize 32 0 b)),
     aead_encrypt = (\<lambda>k n m a. Some (m @ resize 16 0 a)),
     aead_decrypt = (\<lambda>k n c a. if drop (length c - 16) c = resize 16 0 a then Some (take (length c - 16) c) else None),
     ed25519_public = (\<lambda>s. 170 # resize 31 0 s), ed25519_sign = (\<lambda>s d. 170 # resize 31 0 s @ demo_hash d),
     ed25519_valid_key = (\<lambda>k. True),
     ed25519_verify_strict = (\<lambda>k d s. s = k @ demo_hash d),
     b64_encode = demo_encode, b64_decode = demo_decode,
     hex_encode = demo_hex \<rparr>"

lemma hd_parse_hex:
  "hd (parse_hex (ascii (c # d # s))) = push_bit 4 (hex_nibble (ch c)) OR hex_nibble (ch d)"
  by (simp add: ascii_def)

lemma low_order_heads: "list_all (\<lambda>k. hd k \<noteq> 170) LOW_ORDER_ED25519_PUBKEYS"
  by (simp only: LOW_ORDER_ED25519_PUBKEYS_def list.map list.pred_inject hd_parse_hex simp_thms)
    (simp add: hex_nibble_def ch_def)

lemma demo_ed25519: "ed25519 demo_prims"
proof -
  have "\<not> is_low_order (170 # k)" if "length k = 31" for k
    using low_order_heads that by (fastforce simp: is_low_order_def list_ex_iff list_all_iff)
  then show ?thesis by (simp add: ed25519_def demo_prims_def demo_hash_def)
qed

lemma demo_decode_encode: "demo_decode (demo_encode x) = Some x"
proof (cases "x = []")
  case False
  then have "dropWhile (\<lambda>b. b = 0) (rev (demo_encode x)) = 1 # rev x"
    by (simp add: demo_encode_def dropWhile_append)
  then show ?thesis by (simp add: demo_decode_def)
qed (simp add: demo_decode_def demo_encode_def)

lemma demo_b64: "b64_codec demo_prims"
proof -
  have "demo_decode s = Some x \<Longrightarrow> s = demo_encode x" for s x
    by (auto simp: demo_decode_def split: list.splits if_splits) (simp add: demo_encode_def)
  then show ?thesis by (simp add: b64_codec_def demo_prims_def demo_decode_encode)
qed

lemma demo_b64_length: "b64_length demo_prims"
proof -
  have pad: "0 < n \<Longrightarrow> n < 4 * ((n + 2) div 3)" for n :: nat by linarith
  have "length (demo_encode x) = 4 * ((length x + 2) div 3)" for x
    using pad [of "length x"] by (cases "x = []") (auto simp: demo_encode_def Suc_le_eq)
  then show ?thesis by (simp add: b64_length_def demo_prims_def)
qed

lemma demo_digest: "digest demo_prims"
  by (simp add: digest_def demo_prims_def demo_hash_def)

lemma resize_resize [simp]: "resize n v (resize n v xs) = resize n v xs"
  by (simp add: resize_def)

lemma demo_x25519: "x25519_aead demo_prims"
proof -
  have "map2 (\<lambda>x y. 1 + x * y) u v = map2 (\<lambda>x y. 1 + x * y) v (u :: bytes)" for u v
    by (induction u v rule: list_induct2') (simp_all add: mult.commute)
  then show ?thesis by (simp add: x25519_aead_def demo_prims_def)
qed

section \<open>Properties\<close>

lemma em_round_trip: "wf_em em \<Longrightarrow> em_from_bytes (em_to_bytes em) = Inr em"
  by (simp add: wf_em_def em_from_bytes_def em_to_bytes_def segment_def const_defs)

lemma em_canonical: "em_from_bytes d = Inr em \<Longrightarrow> wf_em em \<and> em_to_bytes em = d"
proof -
  assume "em_from_bytes d = Inr em"
  then have l: "44 \<le> length d" and em: "em = \<lparr> ephemeral_public_key = segment 0 32 d,
      em_nonce = segment 32 44 d, ciphertext = drop 44 d \<rparr>"
    by (auto simp: em_from_bytes_def const_defs)
  have "segment 0 32 d @ segment 32 44 d = take 44 d"
    using segment_split [of 0 32 44 d] by (simp add: segment_def)
  then have "(segment 0 32 d @ segment 32 44 d) @ drop 44 d = d" by simp
  then show ?thesis using l by (simp add: em em_to_bytes_def wf_em_def const_defs)
qed

lemma encrypted_opens:
  assumes "x25519_aead P" "from_private_bytes P seed = Inr me" "length nonce = 12"
    and "encrypt_for_recipient P eph nonce pt (x25519_pub me) aad = Inr em"
  shows "em_from_bytes (em_to_bytes em) = Inr em \<and> decrypt_message P me em aad = Inr pt"
proof -
  have me: "private_seed me = seed" "x25519_pub me = x25519_public P seed"
    using assms(2) by (auto simp: from_private_bytes_ok)
  from assms(4) obtain ct where c: "was_contributory (x25519_dh P eph (x25519_pub me))"
    and ct: "aead_encrypt P (hkdf_sha256 P HKDF_SALT (x25519_dh P eph (x25519_pub me)) HKDF_INFO) nonce pt
        (case aad of None \<Rightarrow> [] | Some a \<Rightarrow> a) = Some ct"
    and em: "em = \<lparr> ephemeral_public_key = x25519_public P eph, em_nonce = nonce, ciphertext = ct \<rparr>"
    by (auto simp: encrypt_for_recipient_def Let_def split: if_splits option.splits)
  have dh: "x25519_dh P seed (x25519_public P eph) = x25519_dh P eph (x25519_pub me)"
    using assms(1) me by (simp add: x25519_aead_def)
  have "aead_decrypt P (hkdf_sha256 P HKDF_SALT (x25519_dh P eph (x25519_pub me)) HKDF_INFO) nonce ct
      (case aad of None \<Rightarrow> [] | Some a \<Rightarrow> a) = Some pt"
    using ct assms(1) by (simp add: x25519_aead_def)
  then have "decrypt_message P me em aad = Inr pt"
    using c dh me(1) by (simp add: decrypt_message_def decrypt_with_secret_def em Let_def)
  moreover have "wf_em em" using assms(1,3) by (simp add: wf_em_def em const_defs x25519_aead_def)
  ultimately show ?thesis using em_round_trip by blast
qed

text \<open>What is encrypted to a recipient's key decrypts under the recipient's seed. If
  \<open>encrypt_for_recipient\<close> succeeds for the public key of an identity, with any ephemeral seed,
  12-byte nonce and associated data, then the message survives \<open>to_bytes\<close> and \<open>from_bytes\<close>, and
  \<open>decrypt_message\<close> of that identity with the same associated data returns the plaintext.\<close>

theorem encrypt_decrypt:
  assumes "x25519_aead P" "from_private_bytes P seed = Inr me" "length nonce = 12"
    and "encrypt_for_recipient P eph nonce pt (x25519_pub me) aad = Inr em"
  shows "em_from_bytes (em_to_bytes em) = Inr em \<and> decrypt_message P me em aad = Inr pt"
  using assms by (rule encrypted_opens)

theorem encrypt_decrypt_witness:
  "\<exists>me em. from_private_bytes demo_prims (replicate 32 7) = Inr me \<and>
     encrypt_for_recipient demo_prims (replicate 32 3) (replicate 12 1) [4, 5, 6] (x25519_pub me) (Some [9]) = Inr em \<and>
     decrypt_message demo_prims me em (Some [9]) = Inr [4, 5, 6]"
proof -
  obtain me where me: "from_private_bytes demo_prims (replicate 32 7) = Inr me" by (simp add: from_private_bytes_ok)
  then have pub: "x25519_pub me = replicate 32 7"
    by (auto simp: from_private_bytes_ok demo_prims_def resize_def)
  have "was_contributory (x25519_dh demo_prims (replicate 32 3) (x25519_pub me))"
    by (simp add: demo_prims_def pub resize_def was_contributory_def list_ex_iff zip_replicate)
  then obtain em where em: "encrypt_for_recipient demo_prims (replicate 32 3) (replicate 12 1) [4, 5, 6] (x25519_pub me) (Some [9]) = Inr em"
    by (simp add: encrypt_for_recipient_def Let_def) (simp add: demo_prims_def)
  show ?thesis using encrypt_decrypt [OF demo_x25519 me _ em] me em by auto
qed

text \<open>\<open>EncryptedMessage::from_bytes\<close> is exactly the inverse of \<open>to_bytes\<close> on messages with a
  32-byte key and a 12-byte nonce: it accepts a buffer if and only if the buffer is the encoding
  of such a message, which it returns, and it refuses with the actual length and the minimum 44
  if and only if the buffer is shorter.\<close>

theorem encrypted_message_codec:
  "(em_from_bytes d = Inr em) = (length (ephemeral_public_key em) = 32 \<and> length (em_nonce em) = 12 \<and> em_to_bytes em = d) \<and>
   (em_from_bytes d = Inl e) = (length d < 44 \<and> e = EncryptedMessageTooShort (length d) 44)"
proof
  show "(em_from_bytes d = Inr em) = (length (ephemeral_public_key em) = 32 \<and> length (em_nonce em) = 12 \<and> em_to_bytes em = d)"
    using em_canonical [of d em] em_round_trip [of em] by (auto simp: wf_em_def const_defs)
  show "(em_from_bytes d = Inl e) = (length d < 44 \<and> e = EncryptedMessageTooShort (length d) 44)"
    by (auto simp: em_from_bytes_def const_defs)
qed

text \<open>\<open>verify_signature\<close> accepts only signatures of 64 bytes under keys of 32 bytes that the
  strict verification of the crate accepts, and it fails closed on each of the fourteen
  low-order encodings of the block list, whatever the primitives do.\<close>

theorem verify_signature_guards:
  "verify_signature P d s pk =
     (length s = 64 \<and> length pk = 32 \<and> pk \<notin> set LOW_ORDER_ED25519_PUBKEYS \<and>
      ed25519_valid_key P pk \<and> ed25519_verify_strict P pk d s) \<and>
   length LOW_ORDER_ED25519_PUBKEYS = 14 \<and> list_all (\<lambda>k. length k = 32) LOW_ORDER_ED25519_PUBKEYS"
proof (intro conjI)
  show "verify_signature P d s pk = (length s = 64 \<and> length pk = 32 \<and> pk \<notin> set LOW_ORDER_ED25519_PUBKEYS \<and>
      ed25519_valid_key P pk \<and> ed25519_verify_strict P pk d s)"
    by (auto simp: verify_signature_def is_low_order_def list_ex_iff const_defs)
  show "length LOW_ORDER_ED25519_PUBKEYS = 14" by (simp add: LOW_ORDER_ED25519_PUBKEYS_def)
  show "list_all (\<lambda>k. length k = 32) LOW_ORDER_ED25519_PUBKEYS"
    by (simp add: LOW_ORDER_ED25519_PUBKEYS_def length_parse_hex)
qed

end
