(* ===== verification/Strings.thy ===== *)
theory Strings
  imports Prelude
begin

text \<open>
  The operations of Rust's \<open>str\<close> that the sources use, on the UTF-8 bytes of the string:
  validation and splitting into characters, \<open>trim\<close>, \<open>split_once\<close>, \<open>split\<close>,
  \<open>strip_prefix\<close>, \<open>strip_suffix\<close>, \<open>trim_end_matches\<close> and the ASCII operations.
\<close>

section \<open>UTF-8\<close>

definition cont :: "byte \<Rightarrow> byte \<Rightarrow> byte \<Rightarrow> bool" where
  "cont lo hi b \<longleftrightarrow> lo \<le> b \<and> b \<le> hi"

definition utf8_2 :: "byte \<Rightarrow> byte \<Rightarrow> bool" where
  "utf8_2 a b \<longleftrightarrow> 0xC2 \<le> a \<and> a \<le> 0xDF \<and> cont 0x80 0xBF b"

definition utf8_3 :: "byte \<Rightarrow> byte \<Rightarrow> byte \<Rightarrow> bool" where
  "utf8_3 a b c \<longleftrightarrow> cont 0x80 0xBF c \<and>
     (a = 0xE0 \<and> cont 0xA0 0xBF b \<or> 0xE1 \<le> a \<and> a \<le> 0xEC \<and> cont 0x80 0xBF b \<or>
      a = 0xED \<and> cont 0x80 0x9F b \<or> 0xEE \<le> a \<and> a \<le> 0xEF \<and> cont 0x80 0xBF b)"

definition utf8_4 :: "byte \<Rightarrow> byte \<Rightarrow> byte \<Rightarrow> byte \<Rightarrow> bool" where
  "utf8_4 a b c d \<longleftrightarrow> cont 0x80 0xBF c \<and> cont 0x80 0xBF d \<and>
     (a = 0xF0 \<and> cont 0x90 0xBF b \<or> 0xF1 \<le> a \<and> a \<le> 0xF3 \<and> cont 0x80 0xBF b \<or>
      a = 0xF4 \<and> cont 0x80 0x8F b)"

definition low6 :: "byte \<Rightarrow> nat" where
  "low6 b = unat b mod 64"

text \<open>The characters of a byte string, each with its code point and its bytes.\<close>

fun split_chars :: "bytes \<Rightarrow> (nat \<times> bytes) list option" where
  "split_chars [] = Some []"
| "split_chars (a # s) =
     (if a < 0x80 then map_option (Cons (unat a, [a])) (split_chars s)
      else (case s of
        [] \<Rightarrow> None
      | b # t \<Rightarrow>
          if utf8_2 a b then map_option (Cons (unat a mod 32 * 64 + low6 b, [a, b])) (split_chars t)
          else (case t of
            [] \<Rightarrow> None
          | c # u \<Rightarrow>
              if utf8_3 a b c
              then map_option (Cons (unat a mod 16 * 4096 + low6 b * 64 + low6 c, [a, b, c])) (split_chars u)
              else (case u of
                [] \<Rightarrow> None
              | d # v \<Rightarrow>
                  if utf8_4 a b c d
                  then map_option (Cons (unat a mod 8 * 262144 + low6 b * 4096 + low6 c * 64 + low6 d, [a, b, c, d]))
                         (split_chars v)
                  else None))))"

text \<open>\<open>str::from_utf8\<close> succeeds; the invariant of the type \<open>str\<close>.\<close>

definition is_utf8 :: "bytes \<Rightarrow> bool" where
  "is_utf8 s \<longleftrightarrow> split_chars s \<noteq> None"

definition char_list :: "rstr \<Rightarrow> (nat \<times> bytes) list" where
  "char_list s = (case split_chars s of None \<Rightarrow> [] | Some cs \<Rightarrow> cs)"

definition chars :: "rstr \<Rightarrow> nat list" where
  "chars s = map fst (char_list s)"

lemma split_chars_concat: "split_chars s = Some cs \<Longrightarrow> concat (map snd cs) = s"
proof (induction s arbitrary: cs rule: split_chars.induct)
  case (2 a s)
  show ?case
  proof (cases "a < 0x80")
    case True
    with 2 show ?thesis by auto
  next
    case a: False
    with 2(5) obtain b t where s: "s = b # t" by (cases s) auto
    show ?thesis
    proof (cases "utf8_2 a b")
      case True
      with 2(2,5) a s show ?thesis by auto
    next
      case b: False
      with 2(5) a s obtain c u where t: "t = c # u" by (cases t) auto
      show ?thesis
      proof (cases "utf8_3 a b c")
        case True
        with 2(3,5) a s b t show ?thesis by auto
      next
        case c: False
        with 2(5) a s b t obtain d v where u: "u = d # v" by (cases u) auto
        with 2(4,5) a s b t c show ?thesis by (cases "utf8_4 a b c d") auto
      qed
    qed
  qed
qed simp

lemma char_list_concat: "is_utf8 s \<Longrightarrow> concat (map snd (char_list s)) = s"
  by (auto simp: is_utf8_def char_list_def split_chars_concat)

lemma is_utf8_ascii: "list_all (\<lambda>b. b < 0x80) s \<Longrightarrow> is_utf8 s"
  by (induction s) (auto simp: is_utf8_def)

lemma chars_ascii: "list_all (\<lambda>b. b < 0x80) s \<Longrightarrow> chars s = map unat s"
proof -
  assume "list_all (\<lambda>b. b < 0x80) s"
  then have "split_chars s = Some (map (\<lambda>b. (unat b, [b])) s)" by (induction s) auto
  then show ?thesis by (simp add: chars_def char_list_def comp_def)
qed

section \<open>Trimming and splitting\<close>

text \<open>\<open>char::is_whitespace\<close>: the Unicode property White_Space.\<close>

definition is_whitespace :: "nat \<Rightarrow> bool" where
  "is_whitespace c \<longleftrightarrow> 9 \<le> c \<and> c \<le> 13 \<or> c = 32 \<or> c = 0x85 \<or> c = 0xA0 \<or> c = 0x1680 \<or>
     0x2000 \<le> c \<and> c \<le> 0x200A \<or> c = 0x2028 \<or> c = 0x2029 \<or> c = 0x202F \<or> c = 0x205F \<or> c = 0x3000"

definition trim :: "rstr \<Rightarrow> rstr" where
  "trim s = concat (map snd (rev (dropWhile (is_whitespace \<circ> fst)
     (rev (dropWhile (is_whitespace \<circ> fst) (char_list s))))))"

definition trim_end_matches :: "byte \<Rightarrow> rstr \<Rightarrow> rstr" where
  "trim_end_matches c s = rev (dropWhile (\<lambda>b. b = c) (rev s))"

definition strip_prefix :: "rstr \<Rightarrow> rstr \<Rightarrow> rstr option" where
  "strip_prefix p s = (if take (length p) s = p then Some (drop (length p) s) else None)"

definition starts_with :: "rstr \<Rightarrow> rstr \<Rightarrow> bool" where
  "starts_with p s \<longleftrightarrow> take (length p) s = p"

definition strip_suffix_char :: "byte \<Rightarrow> rstr \<Rightarrow> rstr option" where
  "strip_suffix_char c s = (if s \<noteq> [] \<and> last s = c then Some (butlast s) else None)"

definition unwrap_or :: "'a option \<Rightarrow> 'a \<Rightarrow> 'a" where
  "unwrap_or x d = (case x of None \<Rightarrow> d | Some y \<Rightarrow> y)"

definition split_once :: "byte \<Rightarrow> rstr \<Rightarrow> (rstr \<times> rstr) option" where
  "split_once c s =
     (case dropWhile (\<lambda>b. b \<noteq> c) s of
        [] \<Rightarrow> None
      | _ # r \<Rightarrow> Some (takeWhile (\<lambda>b. b \<noteq> c) s, r))"

fun split_on :: "byte \<Rightarrow> rstr \<Rightarrow> rstr list" where
  "split_on c [] = [[]]"
| "split_on c (b # s) =
     (if b = c then [] # split_on c s
      else (case split_on c s of [] \<Rightarrow> [[b]] | w # ws \<Rightarrow> (b # w) # ws))"

lemma strip_prefix_Some [simp]: "strip_prefix p s = Some r \<longleftrightarrow> s = p @ r"
  unfolding strip_prefix_def by (metis append_eq_conv_conj append_take_drop_id option.inject option.distinct(1))

lemma starts_with_append [simp]: "starts_with p (p @ r)"
  by (simp add: starts_with_def)

lemma starts_with_iff: "starts_with p s \<longleftrightarrow> (\<exists>r. s = p @ r)"
  unfolding starts_with_def by (metis append_eq_conv_conj append_take_drop_id)

lemma split_once_Some: "split_once c s = Some (u, r) \<longleftrightarrow> s = u @ c # r \<and> c \<notin> set u"
proof
  assume "split_once c s = Some (u, r)"
  then obtain x where d: "dropWhile (\<lambda>b. b \<noteq> c) s = x # r" and u: "u = takeWhile (\<lambda>b. b \<noteq> c) s"
    by (auto simp: split_once_def split: list.splits)
  then have "x = c" using hd_dropWhile [of "\<lambda>b. b \<noteq> c" s] by simp
  with d u show "s = u @ c # r \<and> c \<notin> set u"
    by (metis set_takeWhileD takeWhile_dropWhile_id)
next
  assume "s = u @ c # r \<and> c \<notin> set u"
  then have s: "s = u @ c # r" and u: "\<And>x. x \<in> set u \<Longrightarrow> x \<noteq> c" by auto
  have "dropWhile (\<lambda>b. b \<noteq> c) (u @ c # r) = c # r" "takeWhile (\<lambda>b. b \<noteq> c) (u @ c # r) = u"
    using u by (simp_all add: dropWhile_append2 takeWhile_append2)
  then show "split_once c s = Some (u, r)" by (simp add: split_once_def s)
qed

lemma trim_end_matches_idem: "trim_end_matches c (trim_end_matches c s) = trim_end_matches c s"
  by (simp add: trim_end_matches_def dropWhile_idem)

lemma trim_end_matches_last: "trim_end_matches c s \<noteq> [] \<Longrightarrow> last (trim_end_matches c s) \<noteq> c"
  using hd_dropWhile [of "\<lambda>b. b = c" "rev s"] by (simp add: trim_end_matches_def last_rev)

section \<open>ASCII\<close>

definition is_ascii :: "rstr \<Rightarrow> bool" where
  "is_ascii s \<longleftrightarrow> list_all (\<lambda>b. b < 0x80) s"

definition is_digit :: "byte \<Rightarrow> bool" where
  "is_digit b \<longleftrightarrow> ch CHR ''0'' \<le> b \<and> b \<le> ch CHR ''9''"

definition is_alpha :: "byte \<Rightarrow> bool" where
  "is_alpha b \<longleftrightarrow> ch CHR ''a'' \<le> b \<and> b \<le> ch CHR ''z'' \<or> ch CHR ''A'' \<le> b \<and> b \<le> ch CHR ''Z''"

definition is_alnum :: "byte \<Rightarrow> bool" where
  "is_alnum b \<longleftrightarrow> is_digit b \<or> is_alpha b"

definition lower :: "byte \<Rightarrow> byte" where
  "lower b = (if ch CHR ''A'' \<le> b \<and> b \<le> ch CHR ''Z'' then b + 32 else b)"

definition to_ascii_lowercase :: "rstr \<Rightarrow> rstr" where
  "to_ascii_lowercase s = map lower s"

lemma lower_idem [simp]: "lower (lower b) = lower b"
  by (auto simp: lower_def ch_def word_le_nat_alt unat_word_ariths)

lemma to_ascii_lowercase_idem [simp]: "to_ascii_lowercase (to_ascii_lowercase s) = to_ascii_lowercase s"
  by (simp add: to_ascii_lowercase_def)

lemma split_chars_ascii: "list_all (\<lambda>b. b < 0x80) s \<Longrightarrow> char_list s = map (\<lambda>b. (unat b, [b])) s"
proof -
  have "list_all (\<lambda>b. b < 0x80) s \<Longrightarrow> split_chars s = Some (map (\<lambda>b. (unat b, [b])) s)"
    by (induction s) simp_all
  then show "list_all (\<lambda>b. b < 0x80) s \<Longrightarrow> ?thesis" by (simp add: char_list_def)
qed

lemma trim_id:
  assumes "is_ascii s" "\<forall>b \<in> set s. \<not> is_whitespace (unat b)"
  shows "trim s = s"
proof -
  let ?m = "map (\<lambda>b. (unat b, [b])) s"
  have keep: "dropWhile (is_whitespace \<circ> fst) xs = xs" if "\<forall>x \<in> set xs. \<not> is_whitespace (fst x)" for xs :: "(nat \<times> rstr) list"
    using that by (cases xs) simp_all
  then have "dropWhile (is_whitespace \<circ> fst) ?m = ?m" "dropWhile (is_whitespace \<circ> fst) (rev ?m) = rev ?m"
    using assms(2) by (auto intro!: keep)
  moreover have "concat (map snd ?m) = s" by (induction s) simp_all
  ultimately show ?thesis
    using assms(1) unfolding is_ascii_def trim_def by (simp add: split_chars_ascii)
qed

lemma trim_end_id: "s = [] \<or> last s \<noteq> c \<Longrightarrow> trim_end_matches c s = s"
  by (cases s rule: rev_cases) (simp_all add: trim_end_matches_def)

lemma split_once_None: "split_once c s = None \<longleftrightarrow> c \<notin> set s"
proof
  show "split_once c s = None \<Longrightarrow> c \<notin> set s"
    using split_list_first [of c s] split_once_Some [of c s] by fastforce
  show "c \<notin> set s \<Longrightarrow> split_once c s = None"
    using in_set_conv_decomp [of c s] by (cases "split_once c s") (auto simp: split_once_Some)
qed

end
