(* ===== verification/Wire.thy ===== *)
theory Wire
  imports Crypto Strings
begin

text \<open>
  The interface of the wire records. Every record type has a binary body, written by
  \<open>to_body_bytes\<close> and read by \<open>from_body_bytes\<close>, and a TXT form: a type prefix and the
  base64 of the body and its signature. The locales state what the record types promise;
  each record theory interprets them with its own definitions.

  \<^item> \<open>body_codec\<close>: reading is a left inverse of writing, and read records are well formed.
  \<^item> \<open>canonical_codec\<close>: moreover every accepted body is the one that writing gives.
  \<^item> \<open>signed_record\<close>: a TXT form is accepted exactly when it is the prefix and the base64 of a
    body and a signature that verifies under the record's signer.
\<close>

section \<open>TXT forms\<close>

definition seal :: "prims \<Rightarrow> rstr \<Rightarrow> bytes \<Rightarrow> rstr" where
  "seal P prefix wire = prefix @ b64_encode P wire"

definition unseal :: "prims \<Rightarrow> rstr \<Rightarrow> rstr \<Rightarrow> bytes option" where
  "unseal P prefix r =
     (case strip_prefix prefix r of None \<Rightarrow> None | Some payload \<Rightarrow> b64_decode P payload)"

lemma unseal_Some: "b64_codec P \<Longrightarrow> unseal P prefix r = Some w \<longleftrightarrow> r = seal P prefix w"
  by (auto simp: unseal_def seal_def b64_codec_def)

lemma seal_inj: "b64_codec P \<Longrightarrow> seal P prefix v = seal P prefix w \<longleftrightarrow> v = w"
  by (metis unseal_Some option.inject)

text \<open>Splitting a wire into its body and the trailing signature.\<close>

definition split_sig :: "bytes \<Rightarrow> bytes \<times> bytes" where
  "split_sig wire = (take (length wire - 64) wire, drop (length wire - 64) wire)"

lemma split_sig_append [simp]: "length sig = 64 \<Longrightarrow> split_sig (body @ sig) = (body, sig)"
  by (simp add: split_sig_def)

lemma split_sig_eq: "64 \<le> length wire \<Longrightarrow> split_sig wire = (body, sig) \<longleftrightarrow> wire = body @ sig \<and> length sig = 64"
  by (auto simp: split_sig_def)

text \<open>Cutting a blob 64 bytes before its end enumerates the bodies with a signature.\<close>

lemma signed_blob:
  "(\<exists>w. Q w \<and> m + 64 \<le> length w \<and> R (take (length w - 64) w) (drop (length w - 64) w)) \<longleftrightarrow>
   (\<exists>body sig. Q (body @ sig) \<and> length sig = 64 \<and> m \<le> length body \<and> R body sig)" (is "?l \<longleftrightarrow> ?r")
proof
  assume ?l
  then obtain w where w: "Q w" "m + 64 \<le> length w" "R (take (length w - 64) w) (drop (length w - 64) w)" by blast
  then show ?r
    by (intro exI [of _ "take (length w - 64) w"] exI [of _ "drop (length w - 64) w"]) simp
next
  assume ?r
  then obtain body sig where b: "Q (body @ sig)" "length sig = 64" "m \<le> length body" "R body sig" by blast
  then show ?l by (intro exI [of _ "body @ sig"]) simp
qed

section \<open>The interfaces\<close>

locale body_codec =
  fixes wf :: "'a \<Rightarrow> bool"
    and to_body :: "'a \<Rightarrow> 'e + bytes"
    and from_body :: "bytes \<Rightarrow> 'f + 'a"
  assumes from_wf: "from_body b = Inr x \<Longrightarrow> wf x"
    and to_from: "wf x \<Longrightarrow> to_body x = Inr b \<Longrightarrow> from_body b = Inr x"
begin

lemma body_injective: "wf x \<Longrightarrow> wf y \<Longrightarrow> to_body x = Inr b \<Longrightarrow> to_body y = Inr b \<Longrightarrow> x = y"
  using to_from [of x b] to_from [of y b] by simp

end

locale canonical_codec = body_codec wf to_body from_body
  for wf :: "'a \<Rightarrow> bool" and to_body :: "'a \<Rightarrow> 'e + bytes" and from_body :: "bytes \<Rightarrow> 'f + 'a" +
  assumes from_to: "from_body b = Inr x \<Longrightarrow> to_body x = Inr b"
begin

lemma body_iff: "from_body b = Inr x \<longleftrightarrow> wf x \<and> to_body x = Inr b"
  using from_wf to_from from_to by blast

lemma from_body_injective: "from_body b = Inr x \<Longrightarrow> from_body c = Inr x \<Longrightarrow> b = c"
  using from_to [of b x] from_to [of c x] by simp

end

locale signed_record = body_codec wf to_body from_body
  for wf :: "'a \<Rightarrow> bool" and to_body :: "'a \<Rightarrow> 'e + bytes" and from_body :: "bytes \<Rightarrow> 'f + 'a" +
  fixes prefix :: rstr
    and fits :: "rstr \<Rightarrow> bool"
    and signer :: "'k \<Rightarrow> 'a \<Rightarrow> bytes"
    and fresh :: "'k \<Rightarrow> 'a \<Rightarrow> bool"
    and sign :: "prims \<Rightarrow> 'a \<Rightarrow> dmp_crypto \<Rightarrow> 'e + rstr"
    and accept :: "prims \<Rightarrow> 'k \<Rightarrow> rstr \<Rightarrow> 'a option"
  assumes sign_ok: "sign P x me = Inr r \<Longrightarrow>
      \<exists>body. to_body x = Inr body \<and> r = seal P prefix (body @ sign_data P me body) \<and> fits r"
    and accept_iff: "b64_codec P \<Longrightarrow> accept P k r = Some x \<longleftrightarrow> fits r \<and> fresh k x \<and>
      (\<exists>body sig. r = seal P prefix (body @ sig) \<and> length sig = 64 \<and> from_body body = Inr x \<and>
         verify_signature P body sig (signer k x))"
begin

text \<open>What the owner of the signing key signs is accepted, as the record that was signed.\<close>

lemma sign_accept:
  assumes "ed25519 P" "digest P" "b64_codec P" "wf_crypto P me"
    and "wf x" "verifying_key me = signer k x" "fresh k x" "sign P x me = Inr r"
  shows "accept P k r = Some x"
proof -
  obtain body where b: "to_body x = Inr body" "r = seal P prefix (body @ sign_data P me body)" "fits r"
    using sign_ok [OF assms(8)] by blast
  have "from_body body = Inr x" using to_from assms(5) b(1) .
  with b(2,3) sign_verifies(1,2) [OF assms(1,2,4), of body] assms(6,7) show ?thesis
    unfolding accept_iff [OF assms(3)] by auto
qed

text \<open>Whatever is accepted carries a valid signature of the signer over the record's body.\<close>

lemma accept_signed:
  assumes "b64_codec P" "accept P k r = Some x"
  obtains body sig where "r = seal P prefix (body @ sig)" "from_body body = Inr x" "wf x" "fresh k x"
    "verify_signature P body sig (signer k x)" "\<not> is_low_order (signer k x)" "fits r"
proof -
  obtain body sig where b: "r = seal P prefix (body @ sig)" "from_body body = Inr x" "fresh k x"
    "verify_signature P body sig (signer k x)" "fits r"
    using assms(2) unfolding accept_iff [OF assms(1)] by blast
  then show thesis using that from_wf verify_signature_lengths [OF b(4)] by blast
qed

text \<open>A TXT form denotes one record, whatever the verifier's parameters.\<close>

lemma accept_unique:
  assumes "b64_codec P" "accept P k r = Some x" "accept P k' r = Some y"
  shows "x = y"
  using assms(2,3) unfolding accept_iff [OF assms(1)] by (auto simp: seal_inj [OF assms(1)])

end

locale canonical_record =
  signed_record wf to_body from_body prefix fits signer fresh sign accept +
  canonical_codec wf to_body from_body
  for wf :: "'a \<Rightarrow> bool" and to_body :: "'a \<Rightarrow> 'e + bytes" and from_body :: "bytes \<Rightarrow> 'f + 'a"
    and prefix fits and signer :: "'k \<Rightarrow> 'a \<Rightarrow> bytes" and fresh sign accept
begin

text \<open>Two accepted forms of one record carry signatures of the same body.\<close>

lemma accept_body:
  assumes "b64_codec P" "accept P k r = Some x"
  shows "\<exists>body sig. to_body x = Inr body \<and> r = seal P prefix (body @ sig) \<and> wf x \<and> fresh k x \<and>
    verify_signature P body sig (signer k x) \<and> fits r"
  by (rule accept_signed [OF assms]) (blast dest: from_to)

end

end
