(* ===== verification/Manifest.thy ===== *)
theory Manifest
  imports Wire
begin

text \<open>
  Signed slot manifests, \<open>manifest.rs\<close>. Byte arrays are lists whose lengths are the
  invariant \<open>wf_manifest\<close>.
\<close>

section \<open>The code\<close>

definition MANIFEST_PREFIX :: rstr where
  "MANIFEST_PREFIX = ascii ''v=dmp1;t=manifest;d=''"

definition MANIFEST_BODY_LEN :: nat where
  "MANIFEST_BODY_LEN = 16 + 32 + 32 + 4 + 4 + 4 + 8 + 8"

definition MANIFEST_WIRE_LEN :: nat where
  "MANIFEST_WIRE_LEN = MANIFEST_BODY_LEN + ED25519_SIG_LEN"

definition NO_PREKEY :: u32 where
  "NO_PREKEY = 0"

definition MAX_TOTAL_CHUNKS :: u32 where
  "MAX_TOTAL_CHUNKS = 1024"

lemmas [const_defs] = MANIFEST_BODY_LEN_def MANIFEST_WIRE_LEN_def MAX_TOTAL_CHUNKS_def

datatype manifest_error =
    TotalChunksOutOfRange u32 u32
  | DataChunksOutOfRange
  | BodyLengthMismatch nat nat

record slot_manifest =
  m_msg_id :: bytes
  m_sender_spk :: bytes
  m_recipient_id :: bytes
  m_total_chunks :: u32
  m_data_chunks :: u32
  m_prekey_id :: u32
  m_ts :: u64
  m_exp :: u64

definition manifest_validate :: "slot_manifest \<Rightarrow> manifest_error + unit" where
  "manifest_validate self =
     (if m_total_chunks self = 0 \<or> MAX_TOTAL_CHUNKS < m_total_chunks self
      then Inl (TotalChunksOutOfRange (m_total_chunks self) MAX_TOTAL_CHUNKS)
      else if m_data_chunks self = 0 \<or> m_total_chunks self < m_data_chunks self
      then Inl DataChunksOutOfRange
      else Inr ())"

definition manifest_to_body :: "slot_manifest \<Rightarrow> manifest_error + bytes" where
  "manifest_to_body self = andThen (manifest_validate self) (\<lambda>_.
     Inr (m_msg_id self @ m_sender_spk self @ m_recipient_id self @
          be32 (m_total_chunks self) @ be32 (m_data_chunks self) @ be32 (m_prekey_id self) @
          be64 (m_ts self) @ be64 (m_exp self)))"

definition manifest_from_body :: "bytes \<Rightarrow> manifest_error + slot_manifest" where
  "manifest_from_body body =
     (if length body \<noteq> MANIFEST_BODY_LEN
      then Inl (BodyLengthMismatch MANIFEST_BODY_LEN (length body))
      else
        let msg_id = segment 0 16 body;
            sender_spk = segment 16 48 body;
            recipient_id = segment 48 80 body;
            total_chunks = read32 (segment 80 84 body);
            data_chunks = read32 (segment 84 88 body);
            prekey_id = read32 (segment 88 92 body);
            ts = read64 (segment 92 100 body);
            exp' = read64 (segment 100 108 body)
        in
        if total_chunks = 0 \<or> MAX_TOTAL_CHUNKS < total_chunks
        then Inl (TotalChunksOutOfRange total_chunks MAX_TOTAL_CHUNKS)
        else if data_chunks = 0 \<or> total_chunks < data_chunks then Inl DataChunksOutOfRange
        else Inr \<lparr> m_msg_id = msg_id, m_sender_spk = sender_spk, m_recipient_id = recipient_id,
                   m_total_chunks = total_chunks, m_data_chunks = data_chunks, m_prekey_id = prekey_id,
                   m_ts = ts, m_exp = exp' \<rparr>)"

definition manifest_sign :: "prims \<Rightarrow> slot_manifest \<Rightarrow> dmp_crypto \<Rightarrow> manifest_error + rstr" where
  "manifest_sign P self sender_crypto = andThen (manifest_to_body self) (\<lambda>body.
     Inr (seal P MANIFEST_PREFIX (body @ sign_data P sender_crypto body)))"

definition manifest_parse_and_verify :: "prims \<Rightarrow> rstr \<Rightarrow> (slot_manifest \<times> bytes) option" where
  "manifest_parse_and_verify P record =
     (case unseal P MANIFEST_PREFIX record of
        None \<Rightarrow> None
      | Some wire \<Rightarrow>
          if length wire \<noteq> MANIFEST_WIRE_LEN then None
          else
            let body = take MANIFEST_BODY_LEN wire; signature = drop MANIFEST_BODY_LEN wire in
            (case ok (manifest_from_body body) of
               None \<Rightarrow> None
             | Some manifest \<Rightarrow>
                 if \<not> verify_signature P body signature (m_sender_spk manifest) then None
                 else Some (manifest, signature)))"

definition manifest_is_expired :: "u64 \<Rightarrow> slot_manifest \<Rightarrow> u64 option \<Rightarrow> bool" where
  "manifest_is_expired clock self now \<longleftrightarrow> m_exp self < unwrap_or now clock"

section \<open>The codec\<close>

definition wf_manifest :: "slot_manifest \<Rightarrow> bool" where
  "wf_manifest m \<longleftrightarrow> length (m_msg_id m) = 16 \<and> length (m_sender_spk m) = 32 \<and>
     length (m_recipient_id m) = 32"

definition manifest_accept :: "prims \<Rightarrow> unit \<Rightarrow> rstr \<Rightarrow> slot_manifest option" where
  "manifest_accept P k r = map_option fst (manifest_parse_and_verify P r)"

lemma manifest_to_body_ok:
  "manifest_to_body m = Inr b \<longleftrightarrow> manifest_validate m = Inr () \<and>
     b = m_msg_id m @ m_sender_spk m @ m_recipient_id m @ be32 (m_total_chunks m) @
       be32 (m_data_chunks m) @ be32 (m_prekey_id m) @ be64 (m_ts m) @ be64 (m_exp m)"
  by (auto simp: manifest_to_body_def andThen_Inr)

lemma manifest_from_body_ok:
  "manifest_from_body b = Inr m \<longleftrightarrow> length b = 108 \<and> manifest_validate m = Inr () \<and>
     m = \<lparr> m_msg_id = segment 0 16 b, m_sender_spk = segment 16 48 b, m_recipient_id = segment 48 80 b,
       m_total_chunks = read32 (segment 80 84 b), m_data_chunks = read32 (segment 84 88 b),
       m_prekey_id = read32 (segment 88 92 b), m_ts = read64 (segment 92 100 b),
       m_exp = read64 (segment 100 108 b) \<rparr>"
  by (auto simp: manifest_from_body_def manifest_validate_def Let_def MANIFEST_BODY_LEN_def)

lemma manifest_parse:
  assumes P: "b64_codec P"
  shows "manifest_parse_and_verify P r = Some (m, sig) \<longleftrightarrow>
    (\<exists>body. manifest_from_body body = Inr m \<and> length sig = 64 \<and>
       r = seal P MANIFEST_PREFIX (body @ sig) \<and> verify_signature P body sig (m_sender_spk m))"
proof
  assume "manifest_parse_and_verify P r = Some (m, sig)"
  then obtain wire where "r = seal P MANIFEST_PREFIX wire" "length wire = 172"
    "manifest_from_body (take 108 wire) = Inr m" "sig = drop 108 wire"
    "verify_signature P (take 108 wire) (drop 108 wire) (m_sender_spk m)"
    by (auto simp: manifest_parse_and_verify_def Let_def unseal_Some [OF P] const_defs)
  then show "\<exists>body. manifest_from_body body = Inr m \<and> length sig = 64 \<and>
      r = seal P MANIFEST_PREFIX (body @ sig) \<and> verify_signature P body sig (m_sender_spk m)"
    by (intro exI [of _ "take 108 wire"]) simp
next
  assume "\<exists>body. manifest_from_body body = Inr m \<and> length sig = 64 \<and>
      r = seal P MANIFEST_PREFIX (body @ sig) \<and> verify_signature P body sig (m_sender_spk m)"
  then obtain body where b: "manifest_from_body body = Inr m" "length sig = 64"
    "r = seal P MANIFEST_PREFIX (body @ sig)" "verify_signature P body sig (m_sender_spk m)" by blast
  then have "length body = 108" by (simp add: manifest_from_body_ok)
  moreover have "unseal P MANIFEST_PREFIX r = Some (body @ sig)" using b(3) by (simp add: unseal_Some [OF P])
  ultimately show "manifest_parse_and_verify P r = Some (m, sig)"
    using b by (simp add: manifest_parse_and_verify_def const_defs)
qed

interpretation manifest: canonical_record wf_manifest manifest_to_body manifest_from_body
  MANIFEST_PREFIX "\<lambda>_. True" "\<lambda>_. m_sender_spk" "\<lambda>_ _. True" manifest_sign manifest_accept
proof unfold_locales
  fix b m
  assume f: "manifest_from_body b = Inr m"
  then show "wf_manifest m" by (auto simp: manifest_from_body_ok wf_manifest_def)
  have "b = segment 0 16 b @ segment 16 48 b @ segment 48 80 b @ segment 80 84 b @ segment 84 88 b @
      segment 88 92 b @ segment 92 100 b @ segment 100 108 b"
    using f by (simp add: manifest_from_body_ok segment_join segment_split segment_full)
  with f show "manifest_to_body m = Inr b"
    by (auto simp: manifest_from_body_ok manifest_to_body_ok be_read)
next
  fix m b
  assume "wf_manifest m" "manifest_to_body m = Inr b"
  then show "manifest_from_body b = Inr m"
    by (auto simp: manifest_from_body_ok manifest_to_body_ok wf_manifest_def segment_append segment_full)
next
  fix P x me r
  assume "manifest_sign P x me = Inr r"
  then show "\<exists>body. manifest_to_body x = Inr body \<and>
      r = seal P MANIFEST_PREFIX (body @ sign_data P me body) \<and> True"
    by (auto simp: manifest_sign_def andThen_Inr)
next
  fix P and k :: unit and r x
  assume P: "b64_codec P"
  show "(manifest_accept P k r = Some x) = (True \<and> True \<and> (\<exists>body sig. r = seal P MANIFEST_PREFIX (body @ sig) \<and>
      length sig = 64 \<and> manifest_from_body body = Inr x \<and> verify_signature P body sig (m_sender_spk x)))"
    unfolding manifest_accept_def by (auto simp: manifest_parse [OF P])
qed

section \<open>Properties\<close>

text \<open>A manifest and a key for the witnesses.\<close>

definition demo_key :: dmp_crypto where
  "demo_key = projr (from_private_bytes demo_prims (replicate 32 7))"

lemma demo_key: "wf_crypto demo_prims demo_key" "length (verifying_key demo_key) = 32"
proof -
  have "from_private_bytes demo_prims (replicate 32 7) = Inr demo_key"
    by (simp add: demo_key_def from_private_bytes_ok from_private_bytes_def X25519_KEY_LEN_def Let_def)
  then show w: "wf_crypto demo_prims demo_key" by (rule from_private_bytes_wf)
  show "length (verifying_key demo_key) = 32"
    by (rule sign_verifies(3) [OF demo_ed25519 demo_digest w])
qed

definition demo_manifest :: slot_manifest where
  "demo_manifest = \<lparr> m_msg_id = replicate 16 1, m_sender_spk = verifying_key demo_key,
     m_recipient_id = replicate 32 2, m_total_chunks = 3, m_data_chunks = 2, m_prekey_id = 9,
     m_ts = 100, m_exp = 400 \<rparr>"

lemma demo_manifest: "wf_manifest demo_manifest" "manifest_validate demo_manifest = Inr ()"
  by (simp_all add: demo_manifest_def wf_manifest_def demo_key manifest_validate_def MAX_TOTAL_CHUNKS_def)

text \<open>The manifest body codec is exact. A body is parsed to a manifest if and only if the manifest has
  arrays of the right lengths and serialises to that very body, so no two bodies denote
  one manifest; and a parsed body has 108 bytes and satisfies 1 <= data_chunks <= total_chunks <= 1024.\<close>

theorem manifest_body_exact:
  "(manifest_from_body b = Inr m) = (wf_manifest m \<and> manifest_to_body m = Inr b) \<and>
   (manifest_from_body b = Inr m \<longrightarrow> length b = 108 \<and> 1 \<le> m_data_chunks m \<and>
      m_data_chunks m \<le> m_total_chunks m \<and> m_total_chunks m \<le> 1024)"
proof (intro conjI impI)
  show "(manifest_from_body b = Inr m) = (wf_manifest m \<and> manifest_to_body m = Inr b)"
    by (rule manifest.body_iff)
  assume f: "manifest_from_body b = Inr m"
  then show "length b = 108" by (simp add: manifest_from_body_ok)
  have "manifest_validate m = Inr ()" using f unfolding manifest_from_body_ok by blast
  then have v: "m_total_chunks m \<le> 1024" "m_data_chunks m \<le> m_total_chunks m" "m_data_chunks m \<noteq> 0"
    by (auto simp: manifest_validate_def MAX_TOTAL_CHUNKS_def not_less split: if_splits)
  then show "m_data_chunks m \<le> m_total_chunks m" "m_total_chunks m \<le> 1024" by simp_all
  show "1 \<le> m_data_chunks m" using v(3) by (simp add: word_le_nat_alt unat_gt_0 Suc_le_eq)
qed

theorem manifest_body_exact_witness:
  "\<exists>b. manifest_to_body demo_manifest = Inr b \<and> manifest_from_body b = Inr demo_manifest \<and> length b = 108"
proof -
  obtain b where b: "manifest_to_body demo_manifest = Inr b"
    using demo_manifest(2) by (simp add: manifest_to_body_ok)
  then show ?thesis using manifest_body_exact [of b demo_manifest] demo_manifest(1) by simp
qed

lemma signed_accepted:
  assumes "b64_codec P" "ed25519 P" "digest P" "wf_crypto P me" "wf_manifest m" "m_sender_spk m = verifying_key me"
    "manifest_sign P m me = Inr w"
  shows "\<exists>sig. manifest_parse_and_verify P w = Some (m, sig)"
proof -
  have "manifest_accept P () w = Some m"
    using manifest.sign_accept [OF assms(2,3,1,4,5) _ _ assms(7)] assms(6) by simp
  then show ?thesis by (auto simp: manifest_accept_def)
qed

text \<open>C24: A manifest is accepted exactly when it is authentic. \<open>parse_and_verify\<close> returns a manifest and a
  signature if and only if the record is the prefix and the base64 of the manifest's own body
  followed by that 64-byte signature, and the signature verifies under the manifest's sender key; in
  particular what the sender's identity signs is accepted as signed.\<close>

theorem manifest_authentic:
  assumes "b64_codec P"
  shows "(manifest_parse_and_verify P r = Some (m, sig) \<longleftrightarrow>
      (\<exists>body. wf_manifest m \<and> manifest_to_body m = Inr body \<and> length sig = 64 \<and>
        r = seal P MANIFEST_PREFIX (body @ sig) \<and> verify_signature P body sig (m_sender_spk m))) \<and>
    (ed25519 P \<and> digest P \<and> wf_crypto P me \<and> wf_manifest m \<and> m_sender_spk m = verifying_key me \<and>
      manifest_sign P m me = Inr w \<longrightarrow> (\<exists>sig. manifest_parse_and_verify P w = Some (m, sig)))"
proof (intro conjI impI)
  show "manifest_parse_and_verify P r = Some (m, sig) \<longleftrightarrow>
      (\<exists>body. wf_manifest m \<and> manifest_to_body m = Inr body \<and> length sig = 64 \<and>
        r = seal P MANIFEST_PREFIX (body @ sig) \<and> verify_signature P body sig (m_sender_spk m))"
    unfolding manifest_parse [OF assms] manifest.body_iff by blast
  assume "ed25519 P \<and> digest P \<and> wf_crypto P me \<and> wf_manifest m \<and> m_sender_spk m = verifying_key me \<and>
      manifest_sign P m me = Inr w"
  then show "\<exists>sig. manifest_parse_and_verify P w = Some (m, sig)" using signed_accepted [OF assms] by blast
qed

theorem manifest_authentic_witness:
  "\<exists>w sig. manifest_sign demo_prims demo_manifest demo_key = Inr w \<and>
     manifest_parse_and_verify demo_prims w = Some (demo_manifest, sig)"
proof -
  obtain w where w: "manifest_sign demo_prims demo_manifest demo_key = Inr w"
    using demo_manifest(2) by (simp add: manifest_sign_def manifest_to_body_def)
  have "m_sender_spk demo_manifest = verifying_key demo_key" by (simp add: demo_manifest_def)
  then show ?thesis
    using manifest_authentic [OF demo_b64, of w demo_manifest _ demo_key w] w demo_ed25519 demo_digest demo_key(1)
      demo_manifest(1) by blast
qed

end
