(* ===== verification/Rotation.thy ===== *)
theory Rotation
  imports Manifest
begin

text \<open>
  Co-signed key rotation records, \<open>rotation.rs\<close>, with the validation of subjects that
  revocation records share. The reasons that the code formats into error strings are the
  constructors of \<open>dns_reason\<close> and \<open>user_reason\<close>.
\<close>

section \<open>The code\<close>

definition ROTATION_PREFIX :: rstr where
  "ROTATION_PREFIX = ascii ''v=dmp1;t=rotation;''"

definition ROTATION_MAGIC :: bytes where
  "ROTATION_MAGIC = ascii ''DMPROT1''"

definition MAX_SUBJECT_LEN :: nat where
  "MAX_SUBJECT_LEN = 64"

definition MAX_USER_IDENTITY_SUBJECT_LEN :: nat where
  "MAX_USER_IDENTITY_SUBJECT_LEN = 255"

definition MAX_WIRE_LEN :: nat where
  "MAX_WIRE_LEN = 1200"

definition SUBJECT_TYPE_USER_IDENTITY :: byte where
  "SUBJECT_TYPE_USER_IDENTITY = 1"

definition SUBJECT_TYPE_CLUSTER_OPERATOR :: byte where
  "SUBJECT_TYPE_CLUSTER_OPERATOR = 2"

definition SUBJECT_TYPE_BOOTSTRAP_SIGNER :: byte where
  "SUBJECT_TYPE_BOOTSTRAP_SIGNER = 3"

definition MAX_DNS_LABEL_LEN :: nat where
  "MAX_DNS_LABEL_LEN = 63"

lemmas [const_defs] = MAX_SUBJECT_LEN_def MAX_USER_IDENTITY_SUBJECT_LEN_def MAX_WIRE_LEN_def
  SUBJECT_TYPE_USER_IDENTITY_def SUBJECT_TYPE_CLUSTER_OPERATOR_def SUBJECT_TYPE_BOOTSTRAP_SIGNER_def
  MAX_DNS_LABEL_LEN_def

datatype dns_reason =
    NoLabel
  | NameEmpty
  | TrailingDot
  | NotAscii
  | EmptyLabel
  | LabelTooLong rstr
  | LabelHyphen rstr
  | LabelChar rstr byte

datatype user_reason = NoAt | EmptyHalf | EmptyHost

datatype rotation_error =
    SubjectEmpty
  | InvalidSubjectType byte
  | SubjectTooLong nat nat
  | InvalidUserSubject user_reason
  | InvalidDnsName dns_reason
  | SameKey
  | RotBodyTooShort
  | RotBadMagic
  | InvalidSubjectLength
  | TruncatedSubject
  | TrailingOrTruncatedTail
  | RotInvalidUtf8
  | KeyMismatch
  | RotWireTooLong nat nat

text \<open>The body of the loop over the labels; the name is ASCII there, so its characters are its bytes.\<close>

definition validate_label :: "rstr \<Rightarrow> rotation_error + unit" where
  "validate_label label =
     (if label = [] then Inl (InvalidDnsName EmptyLabel)
      else if MAX_DNS_LABEL_LEN < length label then Inl (InvalidDnsName (LabelTooLong label))
      else if hd label = ch CHR ''-'' \<or> last label = ch CHR ''-'' then Inl (InvalidDnsName (LabelHyphen label))
      else (case find (\<lambda>c. \<not> (c < 0x80 \<and> (is_alnum c \<or> c = ch CHR ''-''))) label of
          Some c \<Rightarrow> Inl (InvalidDnsName (LabelChar label c))
        | None \<Rightarrow> Inr ()))"

fun validate_labels :: "rstr list \<Rightarrow> rotation_error + unit" where
  "validate_labels [] = Inr ()"
| "validate_labels (l # ls) = andThen (validate_label l) (\<lambda>_. validate_labels ls)"

definition validate_dns_name :: "rstr \<Rightarrow> rotation_error + unit" where
  "validate_dns_name name =
     (if name = [] then Inl (InvalidDnsName NameEmpty)
      else if last name = ch CHR ''.'' then Inl (InvalidDnsName TrailingDot)
      else if \<not> is_ascii name then Inl (InvalidDnsName NotAscii)
      else validate_labels (split_on (ch CHR ''.'') name))"

definition validate_user_subject :: "rstr \<Rightarrow> rotation_error + unit" where
  "validate_user_subject subject =
     (case split_once (ch CHR ''@'') subject of
        None \<Rightarrow> Inl (InvalidUserSubject NoAt)
      | Some (user, host) \<Rightarrow>
          let user = trim user; host = trim host in
          if user = [] \<or> host = [] then Inl (InvalidUserSubject EmptyHalf)
          else
            let normalized_host = unwrap_or (strip_suffix_char (ch CHR ''.'') host) host in
            if normalized_host = [] then Inl (InvalidUserSubject EmptyHost)
            else validate_dns_name normalized_host)"

definition validate_subject :: "byte \<Rightarrow> rstr \<Rightarrow> rotation_error + unit" where
  "validate_subject subject_type subject =
     (if subject = [] then Inl SubjectEmpty
      else if subject_type \<noteq> SUBJECT_TYPE_USER_IDENTITY \<and> subject_type \<noteq> SUBJECT_TYPE_CLUSTER_OPERATOR \<and>
        subject_type \<noteq> SUBJECT_TYPE_BOOTSTRAP_SIGNER then Inl (InvalidSubjectType subject_type)
      else
        let cap = (if subject_type = SUBJECT_TYPE_USER_IDENTITY then MAX_USER_IDENTITY_SUBJECT_LEN else MAX_SUBJECT_LEN);
            byte_len = length subject
        in
        if byte_len = 0 \<or> cap < byte_len then Inl (SubjectTooLong byte_len cap)
        else if subject_type = SUBJECT_TYPE_USER_IDENTITY then validate_user_subject subject
        else
          let normalized = unwrap_or (strip_suffix_char (ch CHR ''.'') subject) subject in
          if normalized = [] then Inl (InvalidDnsName NoLabel) else validate_dns_name normalized)"

definition normalize_subject :: "byte \<Rightarrow> rstr \<Rightarrow> rstr" where
  "normalize_subject subject_type subject =
     (if subject_type = SUBJECT_TYPE_USER_IDENTITY then
        (case split_once (ch CHR ''@'') subject of
           None \<Rightarrow> subject
         | Some (user, host) \<Rightarrow>
             let host = trim host; host = unwrap_or (strip_suffix_char (ch CHR ''.'') host) host
             in trim user @ ascii ''@'' @ to_ascii_lowercase host)
      else to_ascii_lowercase (unwrap_or (strip_suffix_char (ch CHR ''.'') subject) subject))"

record rotation_record =
  r_subject_type :: byte
  r_subject :: rstr
  r_old_spk :: bytes
  r_new_spk :: bytes
  r_seq :: u64
  r_ts :: u64
  r_exp :: u64

definition rotation_validate :: "rotation_record \<Rightarrow> rotation_error + unit" where
  "rotation_validate self = andThen (validate_subject (r_subject_type self) (r_subject self)) (\<lambda>_.
     if r_old_spk self = r_new_spk self then Inl SameKey else Inr ())"

definition rotation_to_body :: "rotation_record \<Rightarrow> rotation_error + bytes" where
  "rotation_to_body self = andThen (rotation_validate self) (\<lambda>_.
     Inr (ROTATION_MAGIC @ [r_subject_type self] @ [of_nat (length (r_subject self))] @ r_subject self @
          r_old_spk self @ r_new_spk self @ be64 (r_seq self) @ be64 (r_ts self) @ be64 (r_exp self)))"

definition rotation_from_body :: "bytes \<Rightarrow> rotation_error + rotation_record" where
  "rotation_from_body body =
     (let min_len = 7 + 1 + 1 + 32 + 32 + 8 + 8 + 8 in
      if length body < min_len then Inl RotBodyTooShort
      else if segment 0 7 body \<noteq> ROTATION_MAGIC then Inl RotBadMagic
      else
        let subject_type = body ! 7 in
        if subject_type \<noteq> SUBJECT_TYPE_USER_IDENTITY \<and> subject_type \<noteq> SUBJECT_TYPE_CLUSTER_OPERATOR \<and>
          subject_type \<noteq> SUBJECT_TYPE_BOOTSTRAP_SIGNER then Inl (InvalidSubjectType subject_type)
        else
          let subject_len = unat (body ! 8);
              parse_cap = (if subject_type = SUBJECT_TYPE_USER_IDENTITY then MAX_USER_IDENTITY_SUBJECT_LEN
                           else MAX_SUBJECT_LEN);
              off = 9
          in
          if subject_len = 0 \<or> parse_cap < subject_len then Inl InvalidSubjectLength
          else if length body < off + subject_len then Inl TruncatedSubject
          else
            let subject = segment off (off + subject_len) body; off = off + subject_len in
            if \<not> is_utf8 subject then Inl RotInvalidUtf8
            else if off + 32 + 32 + 8 + 8 + 8 \<noteq> length body then Inl TrailingOrTruncatedTail
            else
              let old_spk = segment off (off + 32) body;
                  new_spk = segment (off + 32) (off + 64) body;
                  seq = read64 (segment (off + 64) (off + 72) body);
                  ts = read64 (segment (off + 72) (off + 80) body);
                  exp' = read64 (segment (off + 80) (off + 88) body)
              in
              andThen (validate_subject subject_type subject) (\<lambda>_.
                if old_spk = new_spk then Inl SameKey
                else Inr \<lparr> r_subject_type = subject_type, r_subject = subject, r_old_spk = old_spk,
                           r_new_spk = new_spk, r_seq = seq, r_ts = ts, r_exp = exp' \<rparr>))"

definition rotation_sign :: "prims \<Rightarrow> rotation_record \<Rightarrow> dmp_crypto \<Rightarrow> dmp_crypto \<Rightarrow> rotation_error + rstr" where
  "rotation_sign P self old_crypto new_crypto =
     (if verifying_key old_crypto \<noteq> r_old_spk self then Inl KeyMismatch
      else if verifying_key new_crypto \<noteq> r_new_spk self then Inl KeyMismatch
      else andThen (rotation_to_body self) (\<lambda>body.
        let sig_old = sign_data P old_crypto body;
            sig_new = sign_data P new_crypto body;
            wire = seal P ROTATION_PREFIX (body @ sig_old @ sig_new)
        in if MAX_WIRE_LEN < length wire then Inl (RotWireTooLong (length wire) MAX_WIRE_LEN) else Inr wire))"

definition rotation_parse_and_verify :: "prims \<Rightarrow> u64 \<Rightarrow> rstr \<Rightarrow> bytes option \<Rightarrow> rstr option \<Rightarrow> u64 option \<Rightarrow>
    rotation_record option" where
  "rotation_parse_and_verify P clock wire expected_old_spk expected_subject now =
     (if \<not> starts_with ROTATION_PREFIX wire then None
      else if MAX_WIRE_LEN < length wire then None
      else (case unseal P ROTATION_PREFIX wire of
         None \<Rightarrow> None
       | Some blob \<Rightarrow>
           if length blob < 7 + 2 * 64 then None
           else
             let split = length blob - 2 * 64;
                 body = take split blob;
                 sig_old = segment split (split + 64) blob;
                 sig_new = drop (split + 64) blob
             in
             (case ok (rotation_from_body body) of
                None \<Rightarrow> None
              | Some rec \<Rightarrow>
                  if \<not> verify_signature P body sig_old (r_old_spk rec) then None
                  else if \<not> verify_signature P body sig_new (r_new_spk rec) then None
                  else if (case expected_old_spk of None \<Rightarrow> False
                    | Some expected \<Rightarrow> length expected \<noteq> 32 \<or> expected \<noteq> r_old_spk rec) then None
                  else if (case expected_subject of None \<Rightarrow> False
                    | Some expected \<Rightarrow> normalize_subject (r_subject_type rec) (r_subject rec) \<noteq>
                        normalize_subject (r_subject_type rec) expected) then None
                  else if r_exp rec < unwrap_or now clock then None
                  else Some rec)))"

definition rotation_is_expired :: "u64 \<Rightarrow> rotation_record \<Rightarrow> u64 option \<Rightarrow> bool" where
  "rotation_is_expired clock self now \<longleftrightarrow> r_exp self < unwrap_or now clock"

section \<open>DNS names of the rotation records\<close>

definition rotation_rrset_name_user_identity :: "prims \<Rightarrow> rstr \<Rightarrow> rstr \<Rightarrow> rstr" where
  "rotation_rrset_name_user_identity P username user_domain =
     (let hash_hex = hex_encode P (sha256 P username);
          base = trim_end_matches (ch CHR ''.'') user_domain
      in ascii ''rotate.id-'' @ take 16 hash_hex @ ascii ''.'' @ base)"

definition rotation_rrset_name_zone_anchored :: "rstr \<Rightarrow> rstr" where
  "rotation_rrset_name_zone_anchored identity_domain_str =
     ascii ''rotate.dmp.'' @ trim_end_matches (ch CHR ''.'') identity_domain_str"

definition rotation_rrset_name_cluster :: "rstr \<Rightarrow> rotation_error + rstr" where
  "rotation_rrset_name_cluster cluster_base_domain =
     (let normalized = unwrap_or (strip_suffix_char (ch CHR ''.'') cluster_base_domain) cluster_base_domain
      in andThen (validate_dns_name normalized) (\<lambda>_. Inr (ascii ''rotate.cluster.'' @ normalized)))"

definition rotation_rrset_name_bootstrap :: "rstr \<Rightarrow> rotation_error + rstr" where
  "rotation_rrset_name_bootstrap user_domain =
     (let normalized = unwrap_or (strip_suffix_char (ch CHR ''.'') user_domain) user_domain
      in andThen (validate_dns_name normalized) (\<lambda>_. Inr (ascii ''rotate._dmp.'' @ normalized)))"

section \<open>The codec\<close>

definition wf_rotation :: "rotation_record \<Rightarrow> bool" where
  "wf_rotation r \<longleftrightarrow> is_utf8 (r_subject r) \<and> length (r_old_spk r) = 32 \<and> length (r_new_spk r) = 32"

definition subject_cap :: "byte \<Rightarrow> nat" where
  "subject_cap t = (if t = 1 then 255 else 64)"

lemma validate_subject_ok:
  "validate_subject t s = Inr () \<Longrightarrow> t \<in> {1, 2, 3} \<and> 0 < length s \<and> length s \<le> subject_cap t"
  by (auto simp: validate_subject_def Let_def const_defs subject_cap_def split: if_splits)

lemma subject_cap_le: "subject_cap t \<le> 255"
  by (simp add: subject_cap_def)

lemma length_ROTATION_MAGIC [simp]: "length ROTATION_MAGIC = 7"
  by (simp add: ROTATION_MAGIC_def)

lemma rotation_to_body_ok:
  "rotation_to_body r = Inr b \<longleftrightarrow> rotation_validate r = Inr () \<and>
     b = ROTATION_MAGIC @ [r_subject_type r] @ [of_nat (length (r_subject r))] @ r_subject r @
       r_old_spk r @ r_new_spk r @ be64 (r_seq r) @ be64 (r_ts r) @ be64 (r_exp r)"
  by (auto simp: rotation_to_body_def andThen_Inr)

lemma rotation_validate_ok:
  "rotation_validate r = Inr () \<longleftrightarrow> validate_subject (r_subject_type r) (r_subject r) = Inr () \<and>
     r_old_spk r \<noteq> r_new_spk r"
  by (auto simp: rotation_validate_def andThen_Inr)

lemma rotation_from_body_ok:
  assumes n: "n = unat (b ! 8)"
  defines "r \<equiv> \<lparr> r_subject_type = b ! 7, r_subject = segment 9 (9 + n) b,
    r_old_spk = segment (9 + n) (41 + n) b, r_new_spk = segment (41 + n) (73 + n) b,
    r_seq = read64 (segment (73 + n) (81 + n) b), r_ts = read64 (segment (81 + n) (89 + n) b),
    r_exp = read64 (segment (89 + n) (97 + n) b) \<rparr>"
  shows "rotation_from_body b = Inr x \<longleftrightarrow> length b = 97 + n \<and> ROTATION_MAGIC = segment 0 7 b \<and>
    is_utf8 (r_subject r) \<and> rotation_validate r = Inr () \<and> x = r"
proof -
  have off: "41 + n + 32 + 8 + 8 + 8 = 97 + n" "9 + n + 32 = 41 + n" "9 + n + 64 = 73 + n"
    "9 + n + 72 = 81 + n" "9 + n + 80 = 89 + n" "9 + n + 88 = 97 + n"
    "(7 :: nat) + 1 + 1 + 32 + 32 + 8 + 8 + 8 = 97" by simp_all
  have ex: "(\<exists>u. validate_subject t s = Inr u \<and> Q) \<longleftrightarrow> validate_subject t s = Inr () \<and> Q" for t s Q by auto
  have "rotation_from_body b = Inr x \<longleftrightarrow> \<not> length b < 97 \<and> segment 0 7 b = ROTATION_MAGIC \<and>
      \<not> (b ! 7 \<noteq> 1 \<and> b ! 7 \<noteq> 2 \<and> b ! 7 \<noteq> 3) \<and> \<not> (n = 0 \<or> subject_cap (b ! 7) < n) \<and> \<not> length b < 9 + n \<and>
      is_utf8 (segment 9 (9 + n) b) \<and> 97 + n = length b \<and> validate_subject (b ! 7) (segment 9 (9 + n) b) = Inr () \<and>
      segment (9 + n) (41 + n) b \<noteq> segment (41 + n) (73 + n) b \<and> r = x"
    unfolding rotation_from_body_def Let_def const_defs n [symmetric] off subject_cap_def r_def
    by (simp only: if_Inl_Inr andThen_Inr not_not sum.inject ex)
  moreover have "length (segment 9 (9 + n) b) = n" if "97 + n = length b"
    using that [symmetric] by simp
  ultimately show ?thesis
    using validate_subject_ok [of "b ! 7" "segment 9 (9 + n) b"] unfolding rotation_validate_ok
    by (auto simp: r_def)
qed

interpretation rotation: canonical_codec wf_rotation rotation_to_body rotation_from_body
proof unfold_locales
  fix b r
  assume f: "rotation_from_body b = Inr r"
  let ?n = "unat (b ! 8)"
  note r = f [unfolded rotation_from_body_ok [OF refl]]
  then have len: "length b = 97 + ?n" and magic: "ROTATION_MAGIC = segment 0 7 b" by blast+
  show "wf_rotation r" using r by (auto simp: wf_rotation_def)
  have "b = ROTATION_MAGIC @ segment 7 8 b @ segment 8 9 b @ segment 9 (9 + ?n) b @
      segment (9 + ?n) (41 + ?n) b @ segment (41 + ?n) (73 + ?n) b @ segment (73 + ?n) (81 + ?n) b @
      segment (81 + ?n) (89 + ?n) b @ segment (89 + ?n) (97 + ?n) b"
    unfolding magic by (simp add: len segment_join segment_split segment_full)
  moreover have "[b ! 7] = segment 7 8 b" "[b ! 8] = segment 8 9 b"
    using len by (auto intro: segment_one)
  ultimately show "rotation_to_body r = Inr b"
    using r len by (auto simp: rotation_to_body_ok be_read)
next
  fix r b
  assume r: "wf_rotation r" "rotation_to_body r = Inr b"
  then have v: "length (r_subject r) \<le> 255"
    using validate_subject_ok [of "r_subject_type r" "r_subject r"] subject_cap_le [of "r_subject_type r"]
    by (auto simp: rotation_to_body_ok rotation_validate_ok)
  then have "unat (of_nat (length (r_subject r)) :: byte) = length (r_subject r)"
    by (intro unat_of_nat_byte) simp
  then show "rotation_from_body b = Inr r"
    using r by (auto simp: rotation_from_body_ok [OF refl] rotation_to_body_ok rotation_validate_ok
        wf_rotation_def segment_append segment_full nth_append segment_Cons)
qed

section \<open>Verification\<close>

definition rotation_pins :: "bytes option \<Rightarrow> rstr option \<Rightarrow> rotation_record \<Rightarrow> bool" where
  "rotation_pins eo es r \<longleftrightarrow> (\<forall>k. eo = Some k \<longrightarrow> k = r_old_spk r) \<and>
     (\<forall>s. es = Some s \<longrightarrow> normalize_subject (r_subject_type r) (r_subject r) = normalize_subject (r_subject_type r) s)"

lemma rotation_parse:
  assumes P: "b64_codec P"
  shows "rotation_parse_and_verify P clock w eo es now = Some r \<longleftrightarrow> length w \<le> 1200 \<and>
    (\<exists>body so sn. rotation_from_body body = Inr r \<and> length so = 64 \<and> length sn = 64 \<and>
       w = seal P ROTATION_PREFIX (body @ so @ sn) \<and> verify_signature P body so (r_old_spk r) \<and>
       verify_signature P body sn (r_new_spk r)) \<and>
    rotation_pins eo es r \<and> \<not> r_exp r < unwrap_or now clock" (is "?l \<longleftrightarrow> ?r")
proof
  assume ?l
  then obtain blob where b: "w = seal P ROTATION_PREFIX blob" "135 \<le> length blob" "length w \<le> 1200"
    "rotation_from_body (take (length blob - 128) blob) = Inr r"
    "verify_signature P (take (length blob - 128) blob) (segment (length blob - 128) (length blob - 128 + 64) blob) (r_old_spk r)"
    "verify_signature P (take (length blob - 128) blob) (drop (length blob - 128 + 64) blob) (r_new_spk r)"
    "rotation_pins eo es r" "\<not> r_exp r < unwrap_or now clock"
    by (auto simp: rotation_parse_and_verify_def Let_def unseal_Some [OF P] const_defs rotation_pins_def
        split: option.splits if_splits)
  let ?i = "length blob - 128"
  have "blob = take ?i blob @ segment ?i (?i + 64) blob @ drop (?i + 64) blob"
    by (simp add: segment_def drop_drop [symmetric] add.commute del: drop_drop)
  with b show ?r
    by (intro conjI exI [of _ "take ?i blob"] exI [of _ "segment ?i (?i + 64) blob"]
        exI [of _ "drop (?i + 64) blob"]) simp_all
next
  assume ?r
  then obtain body so sn where b: "rotation_from_body body = Inr r" "length so = 64" "length sn = 64"
    "w = seal P ROTATION_PREFIX (body @ so @ sn)" "verify_signature P body so (r_old_spk r)"
    "verify_signature P body sn (r_new_spk r)" "length w \<le> 1200" and pins: "rotation_pins eo es r"
    and time: "\<not> r_exp r < unwrap_or now clock" by blast
  have "97 \<le> length body" using b(1) by (auto simp: rotation_from_body_ok [OF refl])
  moreover have "starts_with ROTATION_PREFIX w" using b(4) by (simp add: seal_def)
  moreover have "unseal P ROTATION_PREFIX w = Some (body @ so @ sn)" using b(4) by (simp add: unseal_Some [OF P])
  moreover have "length (r_old_spk r) = 32" using verify_signature_lengths [OF b(5)] by simp
  ultimately show ?l
    using b pins time by (auto simp: rotation_parse_and_verify_def const_defs Let_def rotation_pins_def
        segment_append segment_full split: option.splits)
qed

section \<open>Properties\<close>

text \<open>The rotation body codec is exact. A body parses to a rotation record if and only if the record
  is well formed and serialises to that body; so the parser accepts no truncated and no trailing
  bytes, no subject that validation refuses and no rotation of a key to itself.\<close>

theorem rotation_body_exact:
  "(rotation_from_body b = Inr r) = (wf_rotation r \<and> rotation_to_body r = Inr b)"
  by (rule rotation.body_iff)

text \<open>C22: A rotation takes effect only if both keys signed it. \<open>parse_and_verify\<close> returns a record if and
  only if the wire is at most 1200 bytes, is the prefix and the base64 of the record's body and two
  64-byte signatures of it, the first valid under the old key and the second under the new key,
  the record matches the pinned old key and, up to case and trailing dot, the pinned subject, and
  it has not expired.\<close>

theorem rotation_authentic:
  assumes "b64_codec P"
  shows "rotation_parse_and_verify P clock w eo es now = Some r \<longleftrightarrow> length w \<le> 1200 \<and>
    (\<exists>body so sn. wf_rotation r \<and> rotation_to_body r = Inr body \<and> length so = 64 \<and> length sn = 64 \<and>
       w = seal P ROTATION_PREFIX (body @ so @ sn) \<and> verify_signature P body so (r_old_spk r) \<and>
       verify_signature P body sn (r_new_spk r)) \<and>
    (\<forall>k. eo = Some k \<longrightarrow> k = r_old_spk r) \<and>
    (\<forall>s. es = Some s \<longrightarrow> normalize_subject (r_subject_type r) (r_subject r) = normalize_subject (r_subject_type r) s) \<and>
    unat (unwrap_or now clock) \<le> unat (r_exp r)"
  unfolding rotation_parse [OF assms] rotation.body_iff rotation_pins_def not_less word_le_nat_alt
  by blast

lemma rotation_wire_length:
  assumes "b64_length P" "rotation_to_body r = Inr body" "wf_rotation r" "length so = 64" "length sn = 64"
  shows "length (seal P ROTATION_PREFIX (body @ so @ sn)) \<le> 1200"
proof -
  have "length body \<le> 352"
    using assms(2,3) validate_subject_ok [of "r_subject_type r" "r_subject r"] subject_cap_le [of "r_subject_type r"]
    by (auto simp: rotation_to_body_ok rotation_validate_ok wf_rotation_def)
  then have "(length (body @ so @ sn) + 2) div 3 \<le> (480 + 2) div 3"
    using assms(4,5) by (intro div_le_mono) simp
  then show ?thesis
    using assms(1) by (simp add: seal_def b64_length_def ROTATION_PREFIX_def)
qed

text \<open>Co-signing a valid rotation always succeeds and is accepted until it expires. For two identities
  with the declared keys and a valid body, \<open>sign\<close> returns a wire within the 1200-byte cap, and
  \<open>parse_and_verify\<close> with the old key and the subject pinned returns the record at
  every time up to and including \<open>exp\<close>. With the identities swapped \<open>sign\<close> refuses.\<close>

theorem rotation_sign_accept:
  assumes "b64_codec P" "b64_length P" "ed25519 P" "digest P" "wf_crypto P old" "wf_crypto P new"
    and "wf_rotation r" "r_old_spk r = verifying_key old" "r_new_spk r = verifying_key new"
    and "rotation_to_body r = Inr body"
  shows "rotation_sign P r new old = Inl KeyMismatch \<and>
    (\<exists>w. rotation_sign P r old new = Inr w \<and> length w \<le> 1200 \<and>
      (\<forall>now clock. unat now \<le> unat (r_exp r) \<longrightarrow>
        rotation_parse_and_verify P clock w (Some (verifying_key old)) (Some (r_subject r)) (Some now) = Some r))"
proof
  have ne: "r_old_spk r \<noteq> r_new_spk r" using assms(10) by (simp add: rotation_to_body_ok rotation_validate_ok)
  then show "rotation_sign P r new old = Inl KeyMismatch"
    using assms(8,9) by (simp add: rotation_sign_def)
  let ?so = "sign_data P old body" and ?sn = "sign_data P new body"
  let ?w = "seal P ROTATION_PREFIX (body @ ?so @ ?sn)"
  note so = sign_verifies(1,2) [OF assms(3,4,5), of body] and sn = sign_verifies(1,2) [OF assms(3,4,6), of body]
  have len: "length ?w \<le> 1200" by (rule rotation_wire_length [OF assms(2,10,7) so(2) sn(2)])
  have "rotation_sign P r old new = Inr ?w"
    using assms(8-10) len by (simp add: rotation_sign_def Let_def const_defs)
  moreover have "rotation_from_body body = Inr r" by (rule rotation.to_from [OF assms(7,10)])
  then have "rotation_parse_and_verify P clock ?w (Some (verifying_key old)) (Some (r_subject r)) (Some now) = Some r"
    if "unat now \<le> unat (r_exp r)" for now clock
    unfolding rotation_parse [OF assms(1)] using len so sn that assms(8,9)
    by (auto simp: rotation_pins_def unwrap_or_def word_less_nat_alt)
  ultimately show "\<exists>w. rotation_sign P r old new = Inr w \<and> length w \<le> 1200 \<and>
      (\<forall>now clock. unat now \<le> unat (r_exp r) \<longrightarrow>
        rotation_parse_and_verify P clock w (Some (verifying_key old)) (Some (r_subject r)) (Some now) = Some r)"
    using len by blast
qed

text \<open>A second identity and a rotation between the two, for the witnesses.\<close>

definition demo_key2 :: dmp_crypto where
  "demo_key2 = projr (from_private_bytes demo_prims (replicate 32 8))"

lemma demo_key2: "wf_crypto demo_prims demo_key2" "length (verifying_key demo_key2) = 32"
proof -
  have "from_private_bytes demo_prims (replicate 32 8) = Inr demo_key2"
    by (simp add: demo_key2_def from_private_bytes_ok from_private_bytes_def X25519_KEY_LEN_def Let_def)
  then show w: "wf_crypto demo_prims demo_key2" by (rule from_private_bytes_wf)
  show "length (verifying_key demo_key2) = 32"
    by (rule sign_verifies(3) [OF demo_ed25519 demo_digest w])
qed

lemma demo_keys_differ: "verifying_key demo_key \<noteq> verifying_key demo_key2"
proof -
  have "ed25519_public demo_prims (sha256 demo_prims (b # bs)) ! 2 = b" for b bs
    by (simp add: demo_prims_def demo_hash_def nth_resize numeral_2_eq_2)
  then have "verifying_key (projr (from_private_bytes demo_prims (b # replicate 31 b))) ! 2 = b" for b
    by (simp add: from_private_bytes_def X25519_KEY_LEN_def Let_def)
  moreover have "(32 :: nat) = Suc 31" by simp
  then have "replicate 32 b = b # replicate 31 b" for b :: byte by (simp only: replicate_Suc)
  ultimately have "verifying_key demo_key ! 2 = 7" "verifying_key demo_key2 ! 2 = 8"
    by (simp_all add: demo_key_def demo_key2_def)
  then show ?thesis by auto
qed

definition demo_rotation :: rotation_record where
  "demo_rotation = \<lparr> r_subject_type = 1, r_subject = ascii ''b@m'',
     r_old_spk = verifying_key demo_key, r_new_spk = verifying_key demo_key2, r_seq = 1, r_ts = 10, r_exp = 90 \<rparr>"

lemma demo_subject: "is_utf8 (ascii ''b@m'')"
  "validate_subject 1 (ascii ''b@m'') = Inr ()"
  by (simp_all add: is_utf8_def validate_subject_def validate_user_subject_def validate_dns_name_def
      validate_label_def split_once_def trim_def char_list_def is_whitespace_def strip_suffix_char_def
      unwrap_or_def is_ascii_def is_alnum_def is_alpha_def is_digit_def ascii_def ch_def const_defs)

lemma demo_rotation: "wf_rotation demo_rotation" "\<exists>b. rotation_to_body demo_rotation = Inr b"
  "r_old_spk demo_rotation = verifying_key demo_key" "r_new_spk demo_rotation = verifying_key demo_key2"
  by (simp_all add: demo_rotation_def wf_rotation_def demo_key demo_key2 demo_subject rotation_to_body_ok
      rotation_validate_ok demo_keys_differ)

theorem rotation_sign_accept_witness:
  "\<exists>w. rotation_sign demo_prims demo_rotation demo_key demo_key2 = Inr w \<and>
     rotation_parse_and_verify demo_prims 0 w (Some (verifying_key demo_key)) (Some (ascii ''b@m'')) (Some 90)
       = Some demo_rotation"
proof -
  obtain b where b: "rotation_to_body demo_rotation = Inr b" using demo_rotation(2) by blast
  have "unat (90 :: u64) \<le> unat (r_exp demo_rotation)" "r_subject demo_rotation = ascii ''b@m''"
    by (simp_all add: demo_rotation_def)
  then show ?thesis
    using rotation_sign_accept [OF demo_b64 demo_b64_length demo_ed25519 demo_digest demo_key(1) demo_key2(1)
      demo_rotation(1,3,4) b] by metis
qed

theorem rotation_authentic_witness:
  "\<exists>b w. rotation_to_body demo_rotation = Inr b \<and>
     w = seal demo_prims ROTATION_PREFIX (b @ sign_data demo_prims demo_key b @ sign_data demo_prims demo_key2 b) \<and>
     rotation_parse_and_verify demo_prims 0 w None None (Some 90) = Some demo_rotation \<and>
     rotation_parse_and_verify demo_prims 0 w None None (Some 91) \<noteq> Some demo_rotation"
proof -
  obtain b where b: "rotation_to_body demo_rotation = Inr b" using demo_rotation(2) by blast
  let ?so = "sign_data demo_prims demo_key b" and ?sn = "sign_data demo_prims demo_key2 b"
  let ?w = "seal demo_prims ROTATION_PREFIX (b @ ?so @ ?sn)"
  note so = sign_verifies(1,2) [OF demo_ed25519 demo_digest demo_key(1), of b]
    and sn = sign_verifies(1,2) [OF demo_ed25519 demo_digest demo_key2(1), of b]
  have len: "length ?w \<le> 1200" by (rule rotation_wire_length [OF demo_b64_length b demo_rotation(1) so(2) sn(2)])
  have e: "unat (r_exp demo_rotation) = 90" by (simp add: demo_rotation_def)
  have "\<exists>body so sn. wf_rotation demo_rotation \<and> rotation_to_body demo_rotation = Inr body \<and> length so = 64 \<and>
      length sn = 64 \<and> ?w = seal demo_prims ROTATION_PREFIX (body @ so @ sn) \<and>
      verify_signature demo_prims body so (r_old_spk demo_rotation) \<and>
      verify_signature demo_prims body sn (r_new_spk demo_rotation)"
    using b so sn demo_rotation by metis
  then show ?thesis
    using rotation_authentic [OF demo_b64, of 0 ?w None None "Some 90" demo_rotation]
      rotation_authentic [OF demo_b64, of 0 ?w None None "Some 91" demo_rotation] len b e
    by (simp add: unwrap_or_def)
qed

end
