(* ===== verification/DnsNames.thy ===== *)
theory DnsNames
  imports Rotation
begin

text \<open>
  Publishable DNS names. \<open>cluster.rs\<close> and \<open>rotation.rs\<close> hold two versions of
  \<open>validate_dns_name\<close>, which differ in their error types and in the treatment of a trailing dot; the
  first is shared with \<open>bootstrap.rs\<close>. Both are related here to one specification, \<open>publishable\<close>.
\<close>

section \<open>The code\<close>

datatype cluster_error =
    ClusterNameEmpty
  | ClEmptyLabel
  | ClusterNameTooLong nat nat
  | InvalidLabel dns_reason
  | ClInvalidKeyLength nat nat
  | InvalidNodeId string
  | InvalidHttpEndpoint string
  | InvalidDnsEndpoint string
  | InvalidNodeCount string
  | DuplicateNodeId rstr
  | ClMalformedBody string
  | ClSigningKeyMismatch
  | ClWireTooLong nat nat

definition cluster_validate_label :: "rstr \<Rightarrow> cluster_error + unit" where
  "cluster_validate_label label =
     (if label = [] then Inl ClEmptyLabel
      else if MAX_DNS_LABEL_LEN < length label then Inl (InvalidLabel (LabelTooLong label))
      else if hd label = ch CHR ''-'' \<or> last label = ch CHR ''-'' then Inl (InvalidLabel (LabelHyphen label))
      else (case find (\<lambda>c. \<not> (is_alnum c \<or> c = ch CHR ''-'')) label of
          Some c \<Rightarrow> Inl (InvalidLabel (LabelChar label c))
        | None \<Rightarrow> Inr ()))"

fun cluster_validate_labels :: "rstr list \<Rightarrow> cluster_error + unit" where
  "cluster_validate_labels [] = Inr ()"
| "cluster_validate_labels (l # ls) = andThen (cluster_validate_label l) (\<lambda>_. cluster_validate_labels ls)"

definition ends_with_dots :: "rstr \<Rightarrow> bool" where
  "ends_with_dots name \<longleftrightarrow> 2 \<le> length name \<and> drop (length name - 2) name = ascii ''..''"

definition cluster_validate_dns_name :: "rstr \<Rightarrow> cluster_error + unit" where
  "cluster_validate_dns_name name =
     (if name = [] then Inl ClusterNameEmpty
      else if ends_with_dots name then Inl ClEmptyLabel
      else
        let normalized = unwrap_or (strip_suffix_char (ch CHR ''.'') name) name in
        if normalized = [] then Inl ClusterNameEmpty
        else if \<not> is_ascii normalized then Inl (InvalidLabel NotAscii)
        else cluster_validate_labels (split_on (ch CHR ''.'') normalized))"

section \<open>The specification\<close>

text \<open>A label of letters, digits and inner hyphens, and a name of such labels.\<close>

definition ldh_label :: "rstr \<Rightarrow> bool" where
  "ldh_label l \<longleftrightarrow> l \<noteq> [] \<and> length l \<le> 63 \<and> hd l \<noteq> ch CHR ''-'' \<and> last l \<noteq> ch CHR ''-'' \<and>
     list_all (\<lambda>c. is_alnum c \<or> c = ch CHR ''-'') l"

definition publishable :: "rstr \<Rightarrow> bool" where
  "publishable name \<longleftrightarrow> list_all ldh_label (split_on (ch CHR ''.'') name)"

lemma split_on_nonempty [simp]: "split_on c s \<noteq> []"
  by (cases s) (auto split: list.splits)

lemma split_on_snoc: "split_on c (s @ [c]) = split_on c s @ [[]]"
proof (induction s)
  case (Cons b s)
  then show ?case by (cases "split_on c s") auto
qed simp

lemma split_on_join: "b \<in> set s \<Longrightarrow> b = c \<or> (\<exists>l \<in> set (split_on c s). b \<in> set l)"
  by (induction s) (auto split: list.splits)

lemma alnum_ascii: "is_alnum c \<Longrightarrow> c < 0x80"
proof -
  assume "is_alnum c"
  then have "c \<le> 0x7A"
    by (auto simp: is_alnum_def is_digit_def is_alpha_def ch_def intro: order_trans)
  then show ?thesis by (simp add: word_le_nat_alt word_less_nat_alt)
qed

lemma publishable_nonempty: "publishable s \<Longrightarrow> s \<noteq> []"
  by (auto simp: publishable_def ldh_label_def)

lemma publishable_no_dot: "publishable s \<Longrightarrow> last s \<noteq> ch CHR ''.''"
proof
  assume p: "publishable s" and "last s = ch CHR ''.''"
  moreover have "s \<noteq> []" using p by (rule publishable_nonempty)
  ultimately have "last (split_on (ch CHR ''.'') s) = []"
    by (metis append_butlast_last_id split_on_snoc last_snoc)
  moreover have "last (split_on (ch CHR ''.'') s) \<in> set (split_on (ch CHR ''.'') s)" by simp
  ultimately show False using p by (auto simp: publishable_def ldh_label_def list_all_iff)
qed

lemma publishable_ascii: "publishable s \<Longrightarrow> is_ascii s"
proof -
  assume p: "publishable s"
  have dots: "ch CHR ''.'' < 0x80" "ch CHR ''-'' < 0x80" by (simp_all add: ch_def)
  have "b < 0x80" if "b \<in> set s" for b
    using split_on_join [OF that, of "ch CHR ''.''"] p dots alnum_ascii [of b]
    by (auto simp: publishable_def ldh_label_def list_all_iff)
  then show ?thesis by (simp add: is_ascii_def list_all_iff)
qed

lemma find_None_all: "find P xs = None \<longleftrightarrow> list_all (\<lambda>x. \<not> P x) xs"
  by (auto simp: find_None_iff list_all_iff)

lemma find_case_Inr: "(case find P xs of None \<Rightarrow> Inr () | Some c \<Rightarrow> Inl (f c)) = Inr () \<longleftrightarrow> find P xs = None"
  by (auto split: option.splits)

lemma cluster_validate_label_ok: "cluster_validate_label l = Inr () \<longleftrightarrow> ldh_label l"
  by (auto simp: cluster_validate_label_def ldh_label_def const_defs find_case_Inr find_None_all)

lemma cluster_validate_labels_ok: "cluster_validate_labels ls = Inr () \<longleftrightarrow> list_all ldh_label ls"
  by (induction ls) (auto simp: andThen_Inr cluster_validate_label_ok)

lemma validate_label_ok: "validate_label l = Inr () \<longleftrightarrow> ldh_label l"
  using alnum_ascii
  by (auto simp: validate_label_def ldh_label_def const_defs find_case_Inr find_None_all list_all_iff ch_def)

lemma validate_labels_ok: "validate_labels ls = Inr () \<longleftrightarrow> list_all ldh_label ls"
  by (induction ls) (auto simp: andThen_Inr validate_label_ok)

lemma validate_dns_name_ok: "validate_dns_name s = Inr () \<longleftrightarrow> publishable s"
  using publishable_nonempty publishable_no_dot publishable_ascii
  by (auto simp: validate_dns_name_def validate_labels_ok publishable_def)

lemma strip_dot: "strip_suffix_char c (s @ [c]) = Some s"
  by (simp add: strip_suffix_char_def)

lemma strip_no_dot: "s = [] \<or> last s \<noteq> c \<Longrightarrow> strip_suffix_char c s = None"
  by (auto simp: strip_suffix_char_def)

lemma ends_with_dots_iff: "ends_with_dots (s @ [c]) \<longleftrightarrow> c = ch CHR ''.'' \<and> s \<noteq> [] \<and> last s = ch CHR ''.''"
  by (cases s rule: rev_cases) (auto simp: ends_with_dots_def ascii_def)

lemma cluster_validate_dns_name_ok:
  "cluster_validate_dns_name s = Inr () \<longleftrightarrow> publishable s \<or> (\<exists>t. s = t @ ascii ''.'' \<and> publishable t)"
proof (cases "s \<noteq> [] \<and> last s = ch CHR ''.''")
  case True
  then obtain t where s: "s = t @ [ch CHR ''.'']" by (metis append_butlast_last_id)
  have "\<not> publishable s" using s publishable_no_dot by force
  moreover have "cluster_validate_dns_name s = Inr () \<longleftrightarrow> publishable t"
    using publishable_nonempty publishable_no_dot publishable_ascii
    by (auto simp: s cluster_validate_dns_name_def ends_with_dots_iff strip_dot unwrap_or_def
        cluster_validate_labels_ok publishable_def)
  ultimately show ?thesis by (auto simp: s ascii_def)
next
  case False
  then have "\<not> ends_with_dots s"
    by (cases s rule: rev_cases) (auto simp: ends_with_dots_iff, auto simp: ends_with_dots_def)
  moreover have "s \<noteq> t @ ascii ''.''" for t using False by (auto simp: ascii_def)
  ultimately show ?thesis
    using False publishable_nonempty publishable_ascii
    by (auto simp: cluster_validate_dns_name_def strip_no_dot unwrap_or_def cluster_validate_labels_ok publishable_def)
qed

section \<open>Properties\<close>

text \<open>The two name validators agree. A name passes the validator of the cluster and bootstrap records
  if and only if it passes the one of the rotation records as it is, or ends in exactly one dot
  and passes without it; and what passes is exactly a non-empty sequence of labels of 1 to 63
  letters, digits and hyphens that neither start nor end with a hyphen, which is ASCII.\<close>

theorem dns_validators_agree:
  "(cluster_validate_dns_name s = Inr ()) =
     (validate_dns_name s = Inr () \<or> (\<exists>t. s = t @ ascii ''.'' \<and> validate_dns_name t = Inr ())) \<and>
   (validate_dns_name s = Inr ()) = (s \<noteq> [] \<and> is_ascii s \<and> list_all ldh_label (split_on (ch CHR ''.'') s))"
  unfolding cluster_validate_dns_name_ok validate_dns_name_ok
  using publishable_nonempty publishable_ascii by (auto simp: publishable_def)

end
