(* ===== verification/Reader.thy ===== *)
theory Reader
  imports Strings
begin

text \<open>
  Reading a body with a cursor. The parsers of the variable-length records check before every
  read that the field ends inside the buffer, copy the slice and advance the offset; \<open>read_at\<close> is
  this step, with the error of the failing check. The lemmas relate a read to the
  rest of the buffer, \<open>drop off body\<close>, so that a parser is inverted field by field. The section on
  time holds the saturating operations that the freshness checks use.
\<close>

section \<open>The cursor\<close>

definition read_at :: "'e \<Rightarrow> nat \<Rightarrow> bytes \<Rightarrow> nat \<Rightarrow> 'e + bytes \<times> nat" where
  "read_at err n body off =
     (if length body < off + n then Inl err else Inr (segment off (off + n) body, off + n))"

text \<open>\<open>from_at body off rest\<close>: the buffer has \<open>rest\<close> from the offset on.\<close>

definition from_at :: "bytes \<Rightarrow> nat \<Rightarrow> bytes \<Rightarrow> bool" where
  "from_at body off rest \<longleftrightarrow> off \<le> length body \<and> drop off body = rest"

lemma from_at_0 [simp]: "from_at body 0 rest \<longleftrightarrow> rest = body"
  by (auto simp: from_at_def)

lemma from_at_end: "from_at body off rest \<Longrightarrow> off = length body \<longleftrightarrow> rest = []"
  by (auto simp: from_at_def)

lemma from_at_fun: "from_at body off r \<Longrightarrow> from_at body off s \<Longrightarrow> r = s"
  by (simp add: from_at_def)

text \<open>A read succeeds exactly on a prefix of the rest, and what follows it is the new rest.\<close>

lemma read_at_ok:
  assumes "from_at body off (x @ rest)" "length x = n"
  shows "read_at e n body off = Inr (x, off + n)" "from_at body (off + n) rest"
proof -
  have d: "drop off body = x @ rest" and le: "off \<le> length body" using assms(1) by (auto simp: from_at_def)
  then have "length (drop off body) = n + length rest" using assms(2) by simp
  then have len: "off + n \<le> length body" using le by simp
  moreover have "drop (off + n) body = rest"
    using d assms(2) by (simp add: drop_drop [symmetric] add.commute del: drop_drop)
  ultimately show "read_at e n body off = Inr (x, off + n)" "from_at body (off + n) rest"
    using d assms(2) by (simp_all add: read_at_def segment_def from_at_def)
qed

lemma read_at_Inr:
  assumes "read_at e n body off = Inr (x, off')"
  shows "off' = off + n" "length x = n" "from_at body off (x @ drop off' body)" "from_at body off' (drop off' body)"
  using assms
  by (auto simp: read_at_def from_at_def segment_def split: if_splits)
     (metis add.commute append_take_drop_id drop_drop)

lemma read_at_Inl [simp]: "read_at e n body off = Inl e' \<longleftrightarrow> length body < off + n \<and> e' = e"
  by (auto simp: read_at_def)

lemma be16_length: "n < 65536 \<Longrightarrow> unat (read16 (be16 (of_nat n))) = n"
  by (simp add: unsigned_of_nat take_bit_nat_eq_self)

lemma one_byte: "length x = 1 \<Longrightarrow> x = [of_nat (unat (x ! 0))]"
  by (cases x) auto

lemma two_bytes: "length x = 2 \<Longrightarrow> x = be16 (of_nat (unat (read16 x)))"
  by (simp add: be_read)

lemma is_ascii_utf8: "is_ascii s \<Longrightarrow> is_utf8 s"
  by (simp add: is_ascii_def is_utf8_ascii)

lemma from_at_append: "length x = off \<Longrightarrow> from_at (x @ rest) off rest"
  by (simp add: from_at_def)

section \<open>Time\<close>

definition sat_add :: "u64 \<Rightarrow> u64 \<Rightarrow> u64" where
  "sat_add a b = (if unat a + unat b < 2 ^ 64 then a + b else of_nat (2 ^ 64 - 1))"

definition sat_sub :: "u64 \<Rightarrow> u64 \<Rightarrow> u64" where
  "sat_sub a b = (if b \<le> a then a - b else 0)"

definition abs_diff :: "u64 \<Rightarrow> u64 \<Rightarrow> u64" where
  "abs_diff a b = (if a < b then b - a else a - b)"

lemma unat_sat_add: "unat (sat_add a b) = min (unat a + unat b) (2 ^ 64 - 1)"
proof -
  have "unat (of_nat (2 ^ 64 - 1) :: u64) = 2 ^ 64 - 1"
    by (simp add: unsigned_of_nat take_bit_nat_eq_self)
  moreover have "unat (a + b) = unat a + unat b" if "unat a + unat b < 2 ^ 64"
    using that by (simp add: unat_word_ariths)
  ultimately show ?thesis by (auto simp: sat_add_def)
qed

lemma unat_sat_sub: "unat (sat_sub a b) = unat a - unat b"
  by (auto simp: sat_sub_def unat_sub word_le_nat_alt)

lemma sat_add_less: "sat_add a b < c \<longleftrightarrow> unat a + unat b < unat c"
proof -
  have "unat c < 2 ^ 64" by simp
  then show ?thesis unfolding word_less_nat_alt unat_sat_add by linarith
qed

lemma sat_add_not_less: "\<not> sat_add a b < c \<longleftrightarrow> unat c \<le> unat a + unat b"
  by (auto simp: sat_add_less)

lemma unat_abs_diff: "unat (abs_diff a b) = (if unat a < unat b then unat b - unat a else unat a - unat b)"
  by (auto simp: abs_diff_def word_less_nat_alt unat_sub word_le_nat_alt)

end
