(* ===== verification/Cluster.thy ===== *)
theory Cluster
  imports DnsNames Reader
begin

text \<open>
  Cluster manifests, \<open>cluster.rs\<close>: the node entries, the manifest, its body with a list of
  variable-length entries, signing and verification with an optional pinned operator key.
  The operations that take \<open>&mut self\<close> to strip the trailing dot of the cluster name return the
  updated record with their result.
\<close>

section \<open>The code\<close>

definition CLUSTER_PREFIX :: rstr where
  "CLUSTER_PREFIX = ascii ''v=dmp1;t=cluster;''"

definition CLUSTER_MAGIC :: bytes where
  "CLUSTER_MAGIC = ascii ''DMPCL01''"

definition MAX_NODE_ID_LEN :: nat where
  "MAX_NODE_ID_LEN = 16"

definition MAX_HTTP_ENDPOINT_LEN :: nat where
  "MAX_HTTP_ENDPOINT_LEN = 128"

definition MAX_DNS_ENDPOINT_LEN :: nat where
  "MAX_DNS_ENDPOINT_LEN = 64"

definition MAX_CLUSTER_NAME_LEN :: nat where
  "MAX_CLUSTER_NAME_LEN = 64"

definition MAX_NODE_COUNT :: nat where
  "MAX_NODE_COUNT = 32"

definition CLUSTER_MAX_WIRE_LEN :: nat where
  "CLUSTER_MAX_WIRE_LEN = 1200"

lemmas [const_defs] = MAX_NODE_ID_LEN_def MAX_HTTP_ENDPOINT_LEN_def MAX_DNS_ENDPOINT_LEN_def
  MAX_CLUSTER_NAME_LEN_def MAX_NODE_COUNT_def CLUSTER_MAX_WIRE_LEN_def

definition cluster_rrset_name :: "rstr \<Rightarrow> cluster_error + rstr" where
  "cluster_rrset_name cluster_name =
     andThen (cluster_validate_dns_name cluster_name) (\<lambda>_.
       let normalized = unwrap_or (strip_suffix_char (ch CHR ''.'') cluster_name) cluster_name
       in Inr (ascii ''cluster.'' @ normalized))"

record cluster_node =
  node_id :: rstr
  http_endpoint :: rstr
  dns_endpoint :: "rstr option"

definition cluster_node_validate :: "cluster_node \<Rightarrow> cluster_error + unit" where
  "cluster_node_validate self =
     (if node_id self = [] then Inl (InvalidNodeId ''must be a non-empty string'')
      else if \<not> is_ascii (node_id self) then Inl (InvalidNodeId ''must be ASCII'')
      else if MAX_NODE_ID_LEN < length (node_id self) then Inl (InvalidNodeId ''too long (max 16 ascii bytes)'')
      else if http_endpoint self = [] then Inl (InvalidHttpEndpoint ''must be a non-empty string'')
      else if MAX_HTTP_ENDPOINT_LEN < length (http_endpoint self)
      then Inl (InvalidHttpEndpoint ''too long (max 128 utf-8 bytes)'')
      else (case dns_endpoint self of
          None \<Rightarrow> Inr ()
        | Some dns \<Rightarrow>
            if dns = [] then Inl (InvalidDnsEndpoint ''must be a non-empty string when provided'')
            else if MAX_DNS_ENDPOINT_LEN < length dns then Inl (InvalidDnsEndpoint ''too long (max 64 utf-8 bytes)'')
            else Inr ()))"

definition cluster_node_to_body :: "cluster_node \<Rightarrow> cluster_error + bytes" where
  "cluster_node_to_body self = andThen (cluster_node_validate self) (\<lambda>_.
     let dns_bytes = unwrap_or (dns_endpoint self) [] in
     Inr ([of_nat (length (node_id self))] @ node_id self @
          be16 (of_nat (length (http_endpoint self))) @ http_endpoint self @
          be16 (of_nat (length dns_bytes)) @ dns_bytes))"

definition cluster_node_from_body :: "bytes \<Rightarrow> nat \<Rightarrow> cluster_error + cluster_node \<times> nat" where
  "cluster_node_from_body body offset =
     andThen (read_at (ClMalformedBody ''truncated node: missing node_id length'') 1 body offset) (\<lambda>(b, off).
       let id_len = unat (b ! 0) in
       if id_len = 0 \<or> MAX_NODE_ID_LEN < id_len then Inl (InvalidNodeId ''invalid length'')
       else andThen (read_at (ClMalformedBody ''truncated node: node_id'') id_len body off) (\<lambda>(id_slice, off).
         if \<not> is_ascii id_slice then Inl (InvalidNodeId ''not ASCII'')
         else andThen (read_at (ClMalformedBody ''truncated node: missing http_endpoint length'') 2 body off) (\<lambda>(h, off).
           let http_len = unat (read16 h) in
           if http_len = 0 \<or> MAX_HTTP_ENDPOINT_LEN < http_len then Inl (InvalidHttpEndpoint ''invalid length'')
           else andThen (read_at (ClMalformedBody ''truncated node: http_endpoint'') http_len body off) (\<lambda>(http, off).
             if \<not> is_utf8 http then Inl (InvalidHttpEndpoint ''not utf-8'')
             else andThen (read_at (ClMalformedBody ''truncated node: missing dns_endpoint length'') 2 body off) (\<lambda>(d, off).
               let dns_len = unat (read16 d) in
               if MAX_DNS_ENDPOINT_LEN < dns_len then Inl (InvalidDnsEndpoint ''invalid length'')
               else if 0 < dns_len then
                 andThen (read_at (ClMalformedBody ''truncated node: dns_endpoint'') dns_len body off) (\<lambda>(dns, off).
                   if \<not> is_utf8 dns then Inl (InvalidDnsEndpoint ''not utf-8'')
                   else Inr (\<lparr> node_id = id_slice, http_endpoint = http, dns_endpoint = Some dns \<rparr>, off))
               else Inr (\<lparr> node_id = id_slice, http_endpoint = http, dns_endpoint = None \<rparr>, off))))))"

record cluster_manifest =
  cluster_name :: rstr
  operator_spk :: bytes
  nodes :: "cluster_node list"
  cl_seq :: u64
  cl_exp :: u64

text \<open>The loop of \<open>validate\<close> over the nodes, with the set of the ids seen so far.\<close>

fun validate_nodes :: "cluster_node list \<Rightarrow> rstr list \<Rightarrow> cluster_error + unit" where
  "validate_nodes [] seen = Inr ()"
| "validate_nodes (node # rest) seen =
     andThen (cluster_node_validate node) (\<lambda>_.
       if node_id node \<in> set seen then Inl (DuplicateNodeId (node_id node))
       else validate_nodes rest (node_id node # seen))"

definition cluster_validate :: "cluster_manifest \<Rightarrow> cluster_error + cluster_manifest" where
  "cluster_validate self =
     (if cluster_name self = [] then Inl ClusterNameEmpty
      else if ends_with_dots (cluster_name self) then Inl ClEmptyLabel
      else
        let self = (if last (cluster_name self) = ch CHR ''.'' then self\<lparr>cluster_name := butlast (cluster_name self)\<rparr> else self) in
        if cluster_name self = [] then Inl ClusterNameEmpty
        else if MAX_CLUSTER_NAME_LEN < length (cluster_name self)
        then Inl (ClusterNameTooLong (length (cluster_name self)) MAX_CLUSTER_NAME_LEN)
        else andThen (cluster_validate_dns_name (cluster_name self)) (\<lambda>_.
          if nodes self = [] then Inl (InvalidNodeCount ''must contain at least one node'')
          else if MAX_NODE_COUNT < length (nodes self) then Inl (InvalidNodeCount ''too many nodes (max 32)'')
          else andThen (validate_nodes (nodes self) []) (\<lambda>_. Inr self)))"

fun nodes_to_body :: "cluster_node list \<Rightarrow> cluster_error + bytes" where
  "nodes_to_body [] = Inr []"
| "nodes_to_body (node # rest) =
     andThen (cluster_node_to_body node) (\<lambda>b. andThen (nodes_to_body rest) (\<lambda>bs. Inr (b @ bs)))"

definition cluster_to_body :: "cluster_manifest \<Rightarrow> cluster_error + cluster_manifest \<times> bytes" where
  "cluster_to_body self = andThen (cluster_validate self) (\<lambda>self.
     andThen (nodes_to_body (nodes self)) (\<lambda>node_bytes.
       Inr (self, CLUSTER_MAGIC @ be64 (cl_seq self) @ be64 (cl_exp self) @ operator_spk self @
         [of_nat (length (cluster_name self))] @ cluster_name self @ [of_nat (length (nodes self))] @ node_bytes)))"

text \<open>The loop of \<open>from_body_bytes\<close> over the announced number of nodes.\<close>

fun nodes_from_body :: "nat \<Rightarrow> bytes \<Rightarrow> nat \<Rightarrow> rstr list \<Rightarrow> cluster_error + cluster_node list \<times> nat" where
  "nodes_from_body 0 body off seen = Inr ([], off)"
| "nodes_from_body (Suc n) body off seen =
     andThen (cluster_node_from_body body off) (\<lambda>(node, off).
       if node_id node \<in> set seen then Inl (DuplicateNodeId (node_id node))
       else andThen (nodes_from_body n body off (node_id node # seen)) (\<lambda>(rest, off). Inr (node # rest, off)))"

text \<open>The length that counts against the cap, without the dot that a canonical name may end in, and
  the \<open>pop\<close> of that dot; the bootstrap records share both.\<close>

definition effective_len :: "rstr \<Rightarrow> nat" where
  "effective_len name = length name - (if 0 < length name \<and> last name = ch CHR ''.'' then 1 else 0)"

definition undotted :: "rstr \<Rightarrow> rstr" where
  "undotted name = (if last name = ch CHR ''.'' then butlast name else name)"

definition cluster_from_body :: "bytes \<Rightarrow> cluster_error + cluster_manifest" where
  "cluster_from_body body =
     (let min_header = 7 + 8 + 8 + 32 + 1 in
      if length body < min_header then Inl (ClMalformedBody ''body too short for header'')
      else if segment 0 7 body \<noteq> CLUSTER_MAGIC then Inl (ClMalformedBody ''bad magic'')
      else
        let seq = read64 (segment 7 15 body); exp' = read64 (segment 15 23 body);
            spk = segment 23 55 body; name_len = unat (body ! 55); off = 56
        in
        andThen (read_at (ClMalformedBody ''truncated cluster_name'') name_len body off) (\<lambda>(name, off).
          if effective_len name = 0 \<or> MAX_CLUSTER_NAME_LEN < effective_len name
          then Inl (ClusterNameTooLong (effective_len name) MAX_CLUSTER_NAME_LEN)
          else if \<not> is_utf8 name then Inl (ClMalformedBody ''cluster_name not utf-8'')
          else andThen (cluster_validate_dns_name name) (\<lambda>_.
            let name = undotted name in
            andThen (read_at (ClMalformedBody ''truncated: missing node_count'') 1 body off) (\<lambda>(c, off).
              let node_count = unat (c ! 0) in
              if MAX_NODE_COUNT < node_count then Inl (InvalidNodeCount ''node_count exceeds protocol max'')
              else andThen (nodes_from_body node_count body off []) (\<lambda>(ns, off).
                if off \<noteq> length body then Inl (ClMalformedBody ''trailing bytes after last node'')
                else Inr \<lparr> cluster_name = name, operator_spk = spk, nodes = ns, cl_seq = seq, cl_exp = exp' \<rparr>)))))"

definition cluster_sign :: "prims \<Rightarrow> cluster_manifest \<Rightarrow> dmp_crypto \<Rightarrow> cluster_error + cluster_manifest \<times> rstr" where
  "cluster_sign P self operator_crypto =
     (if verifying_key operator_crypto \<noteq> operator_spk self then Inl ClSigningKeyMismatch
      else andThen (cluster_to_body self) (\<lambda>(self, body).
        let signature = sign_data P operator_crypto body;
            encoded = seal P CLUSTER_PREFIX (body @ signature)
        in if CLUSTER_MAX_WIRE_LEN < length encoded then Inl (ClWireTooLong (length encoded) CLUSTER_MAX_WIRE_LEN)
           else Inr (self, encoded)))"

definition normalize_name :: "rstr \<Rightarrow> rstr" where
  "normalize_name s = to_ascii_lowercase (unwrap_or (strip_suffix_char (ch CHR ''.'') s) s)"

definition cluster_parse_and_verify :: "prims \<Rightarrow> u64 \<Rightarrow> rstr \<Rightarrow> bytes option \<Rightarrow> rstr option \<Rightarrow> u64 option \<Rightarrow>
    cluster_manifest option" where
  "cluster_parse_and_verify P clock wire operator_spk_pinned expected_cluster_name now =
     (if \<not> starts_with CLUSTER_PREFIX wire then None
      else if CLUSTER_MAX_WIRE_LEN < length wire then None
      else (case unseal P CLUSTER_PREFIX wire of
         None \<Rightarrow> None
       | Some blob \<Rightarrow>
           if length blob < 64 + 7 then None
           else
             let split = length blob - 64; body = take split blob; signature = drop split blob in
             if (case operator_spk_pinned of None \<Rightarrow> False
               | Some pinned \<Rightarrow> length pinned \<noteq> 32 \<or> \<not> verify_signature P body signature pinned) then None
             else (case ok (cluster_from_body body) of
                None \<Rightarrow> None
              | Some manifest \<Rightarrow>
                  if (case operator_spk_pinned of
                        Some pinned \<Rightarrow> operator_spk manifest \<noteq> pinned
                      | None \<Rightarrow> \<not> verify_signature P body signature (operator_spk manifest)) then None
                  else if cl_exp manifest < unwrap_or now clock then None
                  else if (case expected_cluster_name of None \<Rightarrow> False
                    | Some expected \<Rightarrow> normalize_name (cluster_name manifest) \<noteq> normalize_name expected) then None
                  else Some manifest)))"

definition cluster_is_expired :: "u64 \<Rightarrow> cluster_manifest \<Rightarrow> u64 option \<Rightarrow> bool" where
  "cluster_is_expired clock self now \<longleftrightarrow> cl_exp self < unwrap_or now clock"

section \<open>The node entries\<close>

definition wf_node :: "cluster_node \<Rightarrow> bool" where
  "wf_node n \<longleftrightarrow> is_utf8 (http_endpoint n) \<and> (\<forall>d. dns_endpoint n = Some d \<longrightarrow> is_utf8 d)"

definition node_wire :: "cluster_node \<Rightarrow> bytes" where
  "node_wire n = [of_nat (length (node_id n))] @ node_id n @
     be16 (of_nat (length (http_endpoint n))) @ http_endpoint n @
     be16 (of_nat (length (unwrap_or (dns_endpoint n) []))) @ unwrap_or (dns_endpoint n) []"

lemma cluster_node_validate_ok:
  "cluster_node_validate n = Inr () \<longleftrightarrow> 0 < length (node_id n) \<and> length (node_id n) \<le> 16 \<and> is_ascii (node_id n) \<and>
     0 < length (http_endpoint n) \<and> length (http_endpoint n) \<le> 128 \<and>
     (\<forall>d. dns_endpoint n = Some d \<longrightarrow> 0 < length d \<and> length d \<le> 64)"
  by (auto simp: cluster_node_validate_def const_defs split: option.splits)

lemma cluster_node_to_body_ok:
  "cluster_node_to_body n = Inr b \<longleftrightarrow> cluster_node_validate n = Inr () \<and> b = node_wire n"
  by (auto simp: cluster_node_to_body_def andThen_Inr node_wire_def Let_def)

lemma node_from_complete:
  assumes "from_at body off (node_wire n @ rest)" "cluster_node_validate n = Inr ()" "wf_node n"
  shows "cluster_node_from_body body off = Inr (n, off + length (node_wire n)) \<and>
    from_at body (off + length (node_wire n)) rest"
proof -
  let ?d = "unwrap_or (dns_endpoint n) []"
  let ?i = "length (node_id n)" and ?h = "length (http_endpoint n)" and ?dl = "length ?d"
  note v = assms(2) [unfolded cluster_node_validate_ok]
  have lens: "?i \<le> 16" "?h \<le> 128" "?dl \<le> 64" using v by (auto simp: unwrap_or_def split: option.splits)
  have b1: "unat (of_nat ?i :: byte) = ?i" using lens by (intro unat_of_nat_byte) simp
  have b2: "unat (read16 (be16 (of_nat ?h))) = ?h" "unat (read16 (be16 (of_nat ?dl))) = ?dl"
    using lens by (intro be16_length; simp)+
  have a1: "from_at body off ([of_nat ?i] @ node_id n @ be16 (of_nat ?h) @ http_endpoint n @ be16 (of_nat ?dl) @ ?d @ rest)"
    using assms(1) by (simp add: node_wire_def)
  have "length [of_nat ?i :: byte] = 1" by simp
  note r1 = read_at_ok [OF a1 this]
  note r2 = read_at_ok [OF r1(2) refl]
  note r3 = read_at_ok [OF r2(2) length_be(1)]
  note r4 = read_at_ok [OF r3(2) refl]
  note r5 = read_at_ok [OF r4(2) length_be(1)]
  note r6 = read_at_ok [OF r5(2) refl]
  have e: "off + length (node_wire n) = off + 1 + ?i + 2 + ?h + 2 + ?dl" by (simp add: node_wire_def)
  have c: "(?i = 0 \<or> 16 < ?i) = False" "is_ascii (node_id n) = True" "(?h = 0 \<or> 128 < ?h) = False"
    "is_utf8 (http_endpoint n) = True" "(64 < ?dl) = False"
    using v assms(3) lens by (auto simp: wf_node_def)
  have d: "dns_endpoint n = (if 0 < ?dl then Some ?d else None)" "0 < ?dl \<Longrightarrow> is_utf8 ?d"
    using v assms(3) by (auto simp: unwrap_or_def wf_node_def split: option.splits)
  have "cluster_node_from_body body off = Inr (n, off + 1 + ?i + 2 + ?h + 2 + ?dl)"
    unfolding cluster_node_from_body_def Let_def const_defs
    by (simp only: r1(1) r2(1) r3(1) r4(1) r5(1) r6(1) andThen_simps prod.case nth_Cons_0 b1 b2 c if_False
        not_True_eq_False) (use d in \<open>auto split: if_splits\<close>)
  then show ?thesis using r6(2) unfolding e by simp
qed

lemma node_from_sound:
  assumes "cluster_node_from_body body off = Inr (n, off')"
  shows "cluster_node_validate n = Inr () \<and> wf_node n \<and> off' \<le> length body \<and> from_at body off (node_wire n @ drop off' body)"
proof -
  obtain b o1 i o2 h o3 http o4 d o5 where
    r: "read_at (ClMalformedBody ''truncated node: missing node_id length'') 1 body off = Inr (b, o1)"
      "read_at (ClMalformedBody ''truncated node: node_id'') (unat (b ! 0)) body o1 = Inr (i, o2)"
      "read_at (ClMalformedBody ''truncated node: missing http_endpoint length'') 2 body o2 = Inr (h, o3)"
      "read_at (ClMalformedBody ''truncated node: http_endpoint'') (unat (read16 h)) body o3 = Inr (http, o4)"
      "read_at (ClMalformedBody ''truncated node: missing dns_endpoint length'') 2 body o4 = Inr (d, o5)"
    and c: "unat (b ! 0) \<noteq> 0" "unat (b ! 0) \<le> 16" "is_ascii i" "unat (read16 h) \<noteq> 0" "unat (read16 h) \<le> 128"
      "is_utf8 http" "unat (read16 d) \<le> 64"
    and rest: "(if 0 < unat (read16 d) then
       andThen (read_at (ClMalformedBody ''truncated node: dns_endpoint'') (unat (read16 d)) body o5) (\<lambda>(dns, off).
                   if \<not> is_utf8 dns then Inl (InvalidDnsEndpoint ''not utf-8'')
                   else Inr (\<lparr> node_id = i, http_endpoint = http, dns_endpoint = Some dns \<rparr>, off))
       else Inr (\<lparr> node_id = i, http_endpoint = http, dns_endpoint = None \<rparr>, o5)) = Inr (n, off')"
    using assms unfolding cluster_node_from_body_def Let_def const_defs andThen_Inr
    by (simp only: split_paired_Ex prod.case if_Inl_Inr de_Morgan_disj not_less andThen_Inr not_not)
       (elim exE conjE, rule that; assumption)
  note a = r [THEN read_at_Inr(3), unfolded from_at_def] and l = r [THEN read_at_Inr(2)]
  have pos: "0 < length i" using c(1) l(2) by linarith
  show ?thesis
  proof (cases "0 < unat (read16 d)")
    case True
    then obtain dns where r6: "read_at (ClMalformedBody ''truncated node: dns_endpoint'') (unat (read16 d)) body o5 = Inr (dns, off')"
      and u: "is_utf8 dns" and n: "n = \<lparr> node_id = i, http_endpoint = http, dns_endpoint = Some dns \<rparr>"
      using rest by (auto simp: andThen_Inr split: if_splits)
    note a6 = read_at_Inr(3) [OF r6, unfolded from_at_def] and l6 = read_at_Inr(2) [OF r6]
    have "drop off body = b @ i @ h @ http @ d @ dns @ drop off' body"
      using a a6 by simp
    moreover have "b = [of_nat (length i)]" "h = be16 (of_nat (length http))" "d = be16 (of_nat (length dns))"
      using one_byte [OF l(1)] two_bytes [OF l(3)] two_bytes [OF l(5)] l(2,4) l6 by simp_all
    ultimately have "drop off body = node_wire n @ drop off' body" by (simp add: n node_wire_def unwrap_or_def)
    moreover have "off' \<le> length body" using read_at_Inr(4) [OF r6] by (simp add: from_at_def)
    ultimately show ?thesis
      using a(1) c(2-) pos u n l l6 True by (auto simp: cluster_node_validate_ok wf_node_def from_at_def)
  next
    case False
    then have n: "n = \<lparr> node_id = i, http_endpoint = http, dns_endpoint = None \<rparr>" "off' = o5"
      using rest by simp_all
    have "drop off body = b @ i @ h @ http @ d @ drop off' body"
      using a n by simp
    moreover have "b = [of_nat (length i)]" "h = be16 (of_nat (length http))"
      using one_byte [OF l(1)] two_bytes [OF l(3)] l(2,4) by simp_all
    moreover have "d = be16 (of_nat 0)" using two_bytes [OF l(5)] False by (metis gr0I)
    ultimately have "drop off body = node_wire n @ drop off' body" by (simp add: n node_wire_def unwrap_or_def)
    moreover have "off' \<le> length body" using read_at_Inr(4) [OF r(5)] n by (simp add: from_at_def)
    ultimately show ?thesis
      using a(1) c(2-) pos n l by (auto simp: cluster_node_validate_ok wf_node_def from_at_def)
  qed
qed

section \<open>The manifest\<close>

lemma nodes_to_body_ok:
  "nodes_to_body ns = Inr b \<longleftrightarrow> list_all (\<lambda>n. cluster_node_validate n = Inr ()) ns \<and> b = concat (map node_wire ns)"
  by (induction ns arbitrary: b) (auto simp: andThen_Inr cluster_node_to_body_ok)

lemma validate_nodes_ok:
  "validate_nodes ns seen = Inr () \<longleftrightarrow> list_all (\<lambda>n. cluster_node_validate n = Inr ()) ns \<and>
     distinct (map node_id ns) \<and> node_id ` set ns \<inter> set seen = {}"
  by (induction ns arbitrary: seen) (auto simp: andThen_Inr)

lemma nodes_from_complete:
  assumes "from_at body off (concat (map node_wire ns) @ rest)"
    and "list_all (\<lambda>n. cluster_node_validate n = Inr () \<and> wf_node n) ns"
    and "distinct (map node_id ns)" "node_id ` set ns \<inter> set seen = {}"
  shows "nodes_from_body (length ns) body off seen = Inr (ns, off + length (concat (map node_wire ns)))"
  using assms
proof (induction ns arbitrary: off seen)
  case (Cons n ns)
  have "from_at body off (node_wire n @ concat (map node_wire ns) @ rest)" using Cons.prems(1) by simp
  with Cons.prems(2) have n: "cluster_node_from_body body off = Inr (n, off + length (node_wire n))"
    "from_at body (off + length (node_wire n)) (concat (map node_wire ns) @ rest)"
    using node_from_complete [of body off n "concat (map node_wire ns) @ rest"] by simp_all
  have "nodes_from_body (length ns) body (off + length (node_wire n)) (node_id n # seen) =
      Inr (ns, off + length (node_wire n) + length (concat (map node_wire ns)))"
    using Cons.prems n(2) by (intro Cons.IH) auto
  with n(1) Cons.prems(4) show ?case by (simp add: add.assoc)
qed simp

lemma nodes_from_sound:
  assumes "nodes_from_body k body off seen = Inr (ns, off')" "off \<le> length body"
  shows "length ns = k \<and> list_all (\<lambda>n. cluster_node_validate n = Inr () \<and> wf_node n) ns \<and>
    distinct (map node_id ns) \<and> node_id ` set ns \<inter> set seen = {} \<and> off' \<le> length body \<and>
    from_at body off (concat (map node_wire ns) @ drop off' body)"
  using assms
proof (induction k arbitrary: off seen ns)
  case 0
  then show ?case by (simp add: from_at_def)
next
  case (Suc k)
  then obtain n o1 ms where n: "cluster_node_from_body body off = Inr (n, o1)" "node_id n \<notin> set seen"
    and ms: "nodes_from_body k body o1 (node_id n # seen) = Inr (ms, off')" and ns: "ns = n # ms"
    by (auto simp: andThen_Inr split: if_splits)
  note s = node_from_sound [OF n(1)]
  note h = Suc.IH [OF ms] s
  then show ?case using n(2) by (auto simp: ns from_at_def)
qed

definition cluster_wire :: "rstr \<Rightarrow> cluster_manifest \<Rightarrow> bytes" where
  "cluster_wire name m = CLUSTER_MAGIC @ be64 (cl_seq m) @ be64 (cl_exp m) @ operator_spk m @
     [of_nat (length name)] @ name @ [of_nat (length (nodes m))] @ concat (map node_wire (nodes m))"

definition wf_cluster :: "cluster_manifest \<Rightarrow> bool" where
  "wf_cluster m \<longleftrightarrow> publishable (cluster_name m) \<and> length (cluster_name m) \<le> 64 \<and> length (operator_spk m) = 32 \<and>
     length (nodes m) \<le> 32 \<and> list_all (\<lambda>n. cluster_node_validate n = Inr () \<and> wf_node n) (nodes m) \<and>
     distinct (map node_id (nodes m))"

lemma length_CLUSTER_MAGIC [simp]: "length CLUSTER_MAGIC = 7"
  by (simp add: CLUSTER_MAGIC_def)

lemma cluster_to_body_ok:
  assumes "wf_cluster m"
  shows "cluster_to_body m = (if nodes m = [] then Inl (InvalidNodeCount ''must contain at least one node'')
    else Inr (m, cluster_wire (cluster_name m) m))"
proof -
  note w = assms [unfolded wf_cluster_def]
  have p: "publishable (cluster_name m)" using w by blast
  note name = publishable_nonempty [OF p] publishable_no_dot [OF p]
  have dots: "\<not> ends_with_dots (cluster_name m)"
    using name by (metis append_butlast_last_id ends_with_dots_iff)
  have ns: "validate_nodes (nodes m) [] = Inr ()" "nodes_to_body (nodes m) = Inr (concat (map node_wire (nodes m)))"
    using w by (auto simp: validate_nodes_ok nodes_to_body_ok list_all_iff)
  have "cluster_validate_dns_name (cluster_name m) = Inr ()" using p by (simp add: cluster_validate_dns_name_ok)
  then show ?thesis
    using w name dots ns by (auto simp: cluster_to_body_def cluster_validate_def Let_def const_defs cluster_wire_def)
qed

text \<open>The two spellings of a name on the wire.\<close>

definition spelling :: "rstr \<Rightarrow> rstr \<Rightarrow> bool" where
  "spelling name n \<longleftrightarrow> name = n \<or> name = n @ ascii ''.''"

lemma spelling_parse:
  "(effective_len name \<noteq> 0 \<and> effective_len name \<le> 64 \<and> is_utf8 name \<and> cluster_validate_dns_name name = Inr () \<and>
     undotted name = n) \<longleftrightarrow> spelling name n \<and> publishable n \<and> length n \<le> 64"
proof -
  have dot: "ascii ''.'' = [ch CHR ''.'']" "is_ascii (ascii ''.'')" by (simp_all add: ascii_def is_ascii_def ch_def)
  have "is_utf8 name" if "spelling name n" "publishable n"
    using that publishable_ascii [of n] dot(2)
    by (auto simp: spelling_def is_ascii_def intro!: is_utf8_ascii)
  then show ?thesis
    using publishable_no_dot [of n] publishable_nonempty [of n] publishable_no_dot [of name] publishable_nonempty [of name]
    by (auto simp: spelling_def effective_len_def undotted_def cluster_validate_dns_name_ok dot(1))
qed

lemma cluster_from_complete:
  assumes "wf_cluster m" "spelling name (cluster_name m)"
  shows "cluster_from_body (cluster_wire name m) = Inr m"
proof -
  let ?b = "cluster_wire name m" and ?ns = "concat (map node_wire (nodes m))"
  note w = assms(1) [unfolded wf_cluster_def]
  then have sp: "effective_len name \<noteq> 0" "effective_len name \<le> 64" "is_utf8 name"
    "cluster_validate_dns_name name = Inr ()" "undotted name = cluster_name m"
    using spelling_parse [of name "cluster_name m"] assms(2) by blast+
  have "length name \<le> 65" using sp(2) by (auto simp: effective_len_def split: if_splits)
  then have lb: "unat (of_nat (length name) :: byte) = length name" by (intro unat_of_nat_byte) simp
  have nb: "unat (of_nat (length (nodes m)) :: byte) = length (nodes m)" using w by (intro unat_of_nat_byte) simp
  have hd: "length (CLUSTER_MAGIC @ be64 (cl_seq m) @ be64 (cl_exp m) @ operator_spk m @ [of_nat (length name)]) = 56"
    using w by simp
  have a: "from_at ?b 56 (name @ [of_nat (length (nodes m))] @ ?ns)"
    using from_at_append [OF hd] by (simp add: cluster_wire_def)
  note r1 = read_at_ok [OF a refl]
  have "length [of_nat (length (nodes m)) :: byte] = 1" by simp
  note r2 = read_at_ok [OF r1(2) this]
  have ns: "nodes_from_body (length (nodes m)) ?b (56 + length name + 1) [] =
      Inr (nodes m, 56 + length name + 1 + length ?ns)"
    using nodes_from_complete [of ?b "56 + length name + 1" "nodes m" "[]"] r2(2) w by simp
  have len: "length ?b = 56 + length name + 1 + length ?ns" using w by (simp add: cluster_wire_def)
  have seg: "segment 0 7 ?b = CLUSTER_MAGIC" "read64 (segment 7 15 ?b) = cl_seq m" "read64 (segment 15 23 ?b) = cl_exp m"
    "segment 23 55 ?b = operator_spk m" "?b ! 55 = of_nat (length name)"
    using w by (simp_all add: cluster_wire_def segment_append segment_full nth_append)
  have c: "(length ?b < 7 + 8 + 8 + 32 + 1) = False" "(effective_len name = 0 \<or> 64 < effective_len name) = False"
    "(32 < length (nodes m)) = False"
    using len sp w by auto
  show ?thesis
    unfolding cluster_from_body_def Let_def const_defs seg lb
    by (simp only: c r1(1) r2(1) sp nb ns len andThen_simps prod.case nth_Cons_0 if_False not_True_eq_False
        simp_thms) (use sp(2) in simp)
qed

lemma cluster_from_sound:
  assumes "cluster_from_body b = Inr m"
  shows "\<exists>name. wf_cluster m \<and> spelling name (cluster_name m) \<and> b = cluster_wire name m"
proof -
  obtain name o1 c o2 ns where long: "56 \<le> length b" and magic: "segment 0 7 b = CLUSTER_MAGIC"
    and r1: "read_at (ClMalformedBody ''truncated cluster_name'') (unat (b ! 55)) b 56 = Inr (name, o1)"
    and r2: "read_at (ClMalformedBody ''truncated: missing node_count'') 1 b o1 = Inr (c, o2)"
    and e: "effective_len name \<noteq> 0" "effective_len name \<le> 64"
    and v: "is_utf8 name" "cluster_validate_dns_name name = Inr ()" and n: "unat (c ! 0) \<le> 32"
    and ns: "nodes_from_body (unat (c ! 0)) b o2 [] = Inr (ns, length b)"
    and m: "m = \<lparr> cluster_name = undotted name,
      operator_spk = segment 23 55 b, nodes = ns, cl_seq = read64 (segment 7 15 b), cl_exp = read64 (segment 15 23 b) \<rparr>"
    using assms unfolding cluster_from_body_def Let_def const_defs
    by (auto simp: andThen_Inr split: if_splits)
  note l = read_at_Inr(2) [OF r1] read_at_Inr(2) [OF r2]
  have um: "undotted name = cluster_name m" by (simp add: m)
  have sp: "spelling name (cluster_name m)" "publishable (cluster_name m)" "length (cluster_name m) \<le> 64"
    using spelling_parse [of name "cluster_name m"] e v um by blast+
  note nss = nodes_from_sound [OF ns] read_at_Inr(4) [OF r2]
  have d: "drop 56 b = name @ drop o1 b" "drop o1 b = c @ drop o2 b"
    using read_at_Inr(3) [OF r1] read_at_Inr(3) [OF r2] by (simp_all add: from_at_def)
  have "o2 \<le> length b" using read_at_Inr(4) [OF r2] by (simp add: from_at_def)
  then have nsf: "length ns = unat (c ! 0)" "list_all (\<lambda>n. cluster_node_validate n = Inr () \<and> wf_node n) ns"
    "distinct (map node_id ns)" "drop o2 b = concat (map node_wire ns)"
    using nodes_from_sound [OF ns] by (simp_all add: from_at_def)
  have "c = [of_nat (length ns)]" unfolding nsf(1) by (rule one_byte [OF l(2)])
  then have tail: "drop 56 b = name @ [of_nat (length ns)] @ concat (map node_wire ns)"
    using d nsf(4) by metis
  have "b = segment 0 7 b @ segment 7 15 b @ segment 15 23 b @ segment 23 55 b @ segment 55 56 b @ drop 56 b"
    by (simp add: segment_join) (simp add: take_segment [symmetric])
  moreover have "segment 55 56 b = [of_nat (length name)]" using long l(1) by (simp add: segment_one [symmetric])
  ultimately have "b = cluster_wire name m"
    using long tail by (simp add: cluster_wire_def m magic be_read)
  moreover have "length (operator_spk m) = 32" "nodes m = ns" using long by (simp_all add: m)
  then have "wf_cluster m" using sp nsf n by (simp add: wf_cluster_def)
  ultimately show ?thesis using sp by blast
qed

section \<open>Signing and verification\<close>

definition cluster_body :: "cluster_manifest \<Rightarrow> cluster_error + bytes" where
  "cluster_body m = andThen (cluster_to_body m) (\<lambda>(_, b). Inr b)"

definition cluster_signed :: "prims \<Rightarrow> cluster_manifest \<Rightarrow> dmp_crypto \<Rightarrow> cluster_error + rstr" where
  "cluster_signed P m me = andThen (cluster_sign P m me) (\<lambda>(_, w). Inr w)"

definition cluster_fresh :: "u64 \<times> bytes option \<times> rstr option \<Rightarrow> cluster_manifest \<Rightarrow> bool" where
  "cluster_fresh k m = (case k of (now, pinned, name) \<Rightarrow> (\<forall>p. pinned = Some p \<longrightarrow> p = operator_spk m) \<and>
     now \<le> cl_exp m \<and> (\<forall>n. name = Some n \<longrightarrow> normalize_name (cluster_name m) = normalize_name n))"

definition cluster_accept :: "prims \<Rightarrow> u64 \<times> bytes option \<times> rstr option \<Rightarrow> rstr \<Rightarrow> cluster_manifest option" where
  "cluster_accept P k w = (case k of (now, pinned, name) \<Rightarrow> cluster_parse_and_verify P now w pinned name (Some now))"

lemma cluster_parse:
  assumes P: "b64_codec P"
  shows "cluster_parse_and_verify P clock w pinned name now = Some m \<longleftrightarrow> length w \<le> 1200 \<and>
    cluster_fresh (unwrap_or now clock, pinned, name) m \<and>
    (\<exists>body sig. w = seal P CLUSTER_PREFIX (body @ sig) \<and> length sig = 64 \<and>
       cluster_from_body body = Inr m \<and> verify_signature P body sig (operator_spk m))"
proof -
  let ?R = "\<lambda>body sig. cluster_from_body body = Inr m \<and> verify_signature P body sig (operator_spk m)"
  have long: "7 \<le> length body" if "cluster_from_body body = Inr m" for body
    using cluster_from_sound [OF that] by (auto simp: cluster_wire_def)
  have key: "length (operator_spk m) = 32" if "?R body sig" for body sig
    using that verify_signature_lengths by blast
  have "cluster_parse_and_verify P clock w pinned name now = Some m \<longleftrightarrow>
      length w \<le> 1200 \<and> cluster_fresh (unwrap_or now clock, pinned, name) m \<and>
      (\<exists>blob. w = seal P CLUSTER_PREFIX blob \<and> 7 + 64 \<le> length blob \<and>
        ?R (take (length blob - 64) blob) (drop (length blob - 64) blob))" (is "?l \<longleftrightarrow> ?r")
  proof
    assume ?l
    then show ?r
      by (auto simp: cluster_parse_and_verify_def Let_def unseal_Some [OF P] const_defs cluster_fresh_def
          split: option.splits if_splits)
  next
    assume ?r
    then obtain blob where b: "w = seal P CLUSTER_PREFIX blob" "71 \<le> length blob"
      "?R (take (length blob - 64) blob) (drop (length blob - 64) blob)" "length w \<le> 1200"
      and fresh: "cluster_fresh (unwrap_or now clock, pinned, name) m" by auto
    have "starts_with CLUSTER_PREFIX w" using b(1) by (simp add: seal_def)
    moreover have "unseal P CLUSTER_PREFIX w = Some blob" using b(1) by (simp add: unseal_Some [OF P])
    ultimately show ?l
      using b fresh key [OF b(3)]
      by (auto simp: cluster_parse_and_verify_def const_defs Let_def cluster_fresh_def split: option.splits)
  qed
  then show ?thesis
    unfolding signed_blob [of "\<lambda>blob. w = seal P CLUSTER_PREFIX blob" 7 ?R] using long by blast
qed

interpretation cluster: signed_record wf_cluster cluster_body cluster_from_body
  CLUSTER_PREFIX "\<lambda>r. length r \<le> 1200" "\<lambda>_. operator_spk" cluster_fresh cluster_signed cluster_accept
proof unfold_locales
  fix b m
  assume "cluster_from_body b = Inr m"
  then show "wf_cluster m" using cluster_from_sound by blast
next
  fix m b
  assume m: "wf_cluster m" "cluster_body m = Inr b"
  then have "b = cluster_wire (cluster_name m) m"
    by (auto simp: cluster_body_def cluster_to_body_ok split: if_splits)
  then show "cluster_from_body b = Inr m"
    using cluster_from_complete [OF m(1)] by (simp add: spelling_def)
next
  fix P x me r
  assume "cluster_signed P x me = Inr r"
  then show "\<exists>body. cluster_body x = Inr body \<and>
      r = seal P CLUSTER_PREFIX (body @ sign_data P me body) \<and> length r \<le> 1200"
    by (auto simp: cluster_signed_def cluster_sign_def cluster_body_def Let_def andThen_Inr const_defs split: if_splits)
next
  fix P and k :: "u64 \<times> bytes option \<times> rstr option" and r x
  assume P: "b64_codec P"
  obtain now pinned name where k: "k = (now, pinned, name)" by (cases k)
  show "(cluster_accept P k r = Some x) = (length r \<le> 1200 \<and> cluster_fresh k x \<and>
      (\<exists>body sig. r = seal P CLUSTER_PREFIX (body @ sig) \<and> length sig = 64 \<and>
        cluster_from_body body = Inr x \<and> verify_signature P body sig (operator_spk x)))"
    unfolding cluster_accept_def k prod.case cluster_parse [OF P] by (simp add: unwrap_or_def)
qed

lemma undotted_spelling:
  assumes "s \<noteq> []" "\<not> ends_with_dots s" "cluster_validate_dns_name (undotted s) = Inr ()"
  shows "spelling s (undotted s) \<and> publishable (undotted s)"
proof -
  let ?u = "undotted s"
  have sp: "spelling s ?u"
  proof (cases "last s = ch CHR ''.''")
    case True
    then show ?thesis using assms(1) by (simp add: spelling_def undotted_def ascii_def) (metis append_butlast_last_id)
  qed (simp add: spelling_def undotted_def)
  have "\<not> (\<exists>t. ?u = t @ ascii ''.'')"
  proof
    assume "\<exists>t. ?u = t @ ascii ''.''"
    then obtain t where t: "?u = t @ [ch CHR ''.'']" by (auto simp: ascii_def)
    with sp have "s = t @ [ch CHR ''.''] \<or> s = (t @ [ch CHR ''.'']) @ [ch CHR ''.'']"
      by (simp add: spelling_def ascii_def)
    moreover have "s \<noteq> t @ [ch CHR ''.'']" using t by (auto simp: undotted_def)
    ultimately show False using assms(2) ends_with_dots_iff [of "t @ [ch CHR ''.'']"] by auto
  qed
  then show ?thesis using sp assms(3) by (simp add: cluster_validate_dns_name_ok)
qed

lemma cluster_validate_undotted:
  assumes "cluster_validate m = Inr m'"
  shows "m' = m\<lparr>cluster_name := undotted (cluster_name m)\<rparr> \<and> spelling (cluster_name m) (cluster_name m') \<and>
    publishable (cluster_name m') \<and> length (cluster_name m') \<le> 64 \<and> nodes m \<noteq> [] \<and> length (nodes m) \<le> 32 \<and>
    list_all (\<lambda>n. cluster_node_validate n = Inr ()) (nodes m) \<and> distinct (map node_id (nodes m))"
proof -
  let ?n = "cluster_name m" and ?u = "undotted (cluster_name m)"
  have ne: "?n \<noteq> []" and v: "?u \<noteq> []" "length ?u \<le> 64" "cluster_validate_dns_name ?u = Inr ()"
    "\<not> ends_with_dots ?n" and rest: "nodes m \<noteq> []" "length (nodes m) \<le> 32" "validate_nodes (nodes m) [] = Inr ()"
    "m' = m\<lparr>cluster_name := ?u\<rparr>"
    using assms by (auto simp: cluster_validate_def Let_def const_defs andThen_Inr undotted_def split: if_splits)
  have "spelling ?n ?u \<and> publishable ?u" by (rule undotted_spelling [OF ne v(4,3)])
  with v rest show ?thesis by (simp add: validate_nodes_ok)
qed

text \<open>The values that the types of the code admit: 32-byte keys and UTF-8 strings.\<close>

definition typed_cluster :: "cluster_manifest \<Rightarrow> bool" where
  "typed_cluster m \<longleftrightarrow> length (operator_spk m) = 32 \<and> list_all wf_node (nodes m)"

lemma cluster_to_body_Inr:
  assumes "cluster_to_body m = Inr (m', b)" "typed_cluster m"
  shows "m' = m\<lparr>cluster_name := undotted (cluster_name m)\<rparr> \<and> spelling (cluster_name m) (cluster_name m') \<and>
    wf_cluster m' \<and> b = cluster_wire (cluster_name m') m'"
proof -
  obtain nb where v: "cluster_validate m = Inr m'" and nb: "nodes_to_body (nodes m') = Inr nb"
    and b: "b = CLUSTER_MAGIC @ be64 (cl_seq m') @ be64 (cl_exp m') @ operator_spk m' @
         [of_nat (length (cluster_name m'))] @ cluster_name m' @ [of_nat (length (nodes m'))] @ nb"
    using assms(1) by (auto simp: cluster_to_body_def andThen_Inr)
  note u = cluster_validate_undotted [OF v]
  then have "nodes m' = nodes m" "operator_spk m' = operator_spk m" by simp_all
  then show ?thesis
    using u nb b assms(2) by (auto simp: nodes_to_body_ok wf_cluster_def typed_cluster_def cluster_wire_def list_all_iff)
qed

lemma normalize_spelling: "spelling s n \<Longrightarrow> publishable n \<Longrightarrow> normalize_name s = normalize_name n"
  using publishable_no_dot [of n]
  by (auto simp: spelling_def normalize_name_def ascii_def strip_dot strip_no_dot unwrap_or_def)

section \<open>Properties\<close>

text \<open>The body of a cluster manifest has exactly two forms. A body parses to a manifest if and only if the
  manifest is well formed (a publishable name of at most 64 bytes, at most 32 nodes with distinct ids and
  fields within their caps) and the body is its serialisation with the name written either as it is or
  with one trailing dot; the serialiser writes the first form, except for a manifest without
  nodes, which the parser accepts and the serialiser refuses.\<close>

theorem cluster_body_exact:
  "(cluster_from_body b = Inr m) =
     (wf_cluster m \<and> (b = cluster_wire (cluster_name m) m \<or> b = cluster_wire (cluster_name m @ ascii ''.'') m)) \<and>
   (cluster_from_body b = Inr m \<longrightarrow> cluster_to_body m =
     (if nodes m = [] then Inl (InvalidNodeCount ''must contain at least one node'')
      else Inr (m, cluster_wire (cluster_name m) m)))"
  using cluster_from_complete [of m] cluster_from_sound [of b m] cluster_to_body_ok [of m]
  by (auto simp: spelling_def)

text \<open>A cluster manifest is accepted exactly when its operator signed it. \<open>parse_and_verify\<close> returns a
  manifest if and only if the wire has at most 1200 bytes and is the prefix and the base64 of a body that
  parses to the manifest and a 64-byte signature of that body valid under the operator key in
  it, this key is the pinned one if a key is pinned, the cluster name is the expected one up to
  case and a trailing dot, and the manifest has not expired.\<close>

theorem cluster_authentic:
  assumes "b64_codec P"
  shows "cluster_parse_and_verify P clock w pinned name now = Some m \<longleftrightarrow> length w \<le> 1200 \<and>
    (\<exists>body sig. wf_cluster m \<and> (body = cluster_wire (cluster_name m) m \<or> body = cluster_wire (cluster_name m @ ascii ''.'') m) \<and>
       length sig = 64 \<and> w = seal P CLUSTER_PREFIX (body @ sig) \<and> verify_signature P body sig (operator_spk m)) \<and>
    (\<forall>p. pinned = Some p \<longrightarrow> p = operator_spk m) \<and>
    (\<forall>n. name = Some n \<longrightarrow> normalize_name (cluster_name m) = normalize_name n) \<and>
    unat (unwrap_or now clock) \<le> unat (cl_exp m)"
proof -
  have "cluster_from_body body = Inr m \<longleftrightarrow> wf_cluster m \<and>
      (body = cluster_wire (cluster_name m) m \<or> body = cluster_wire (cluster_name m @ ascii ''.'') m)" for body
    using cluster_from_complete [of m] cluster_from_sound [of body m] by (auto simp: spelling_def)
  then show ?thesis
    unfolding cluster_parse [OF assms] cluster_fresh_def prod.case word_le_nat_alt by blast
qed

text \<open>What a cluster operator signs is what its clients see. If \<open>sign\<close> succeeds for a manifest, it returns
  the manifest with a trailing dot of the name removed, and \<open>parse_and_verify\<close> of the wire with the
  operator key pinned and the name given in either form returns exactly that manifest, with
  every node, at every time up to its expiry, and nothing after that.\<close>

theorem cluster_publish:
  assumes "b64_codec P" "ed25519 P" "digest P" "wf_crypto P me" "typed_cluster m"
    and "cluster_sign P m me = Inr (m', w)"
  shows "m' = m\<lparr>cluster_name := undotted (cluster_name m)\<rparr> \<and>
    cluster_parse_and_verify P clock w (Some (verifying_key me)) (Some (cluster_name m)) (Some now) =
      (if unat now \<le> unat (cl_exp m) then Some m' else None)"
proof -
  obtain body where b: "cluster_to_body m = Inr (m', body)" and key: "verifying_key me = operator_spk m"
    and w: "w = seal P CLUSTER_PREFIX (body @ sign_data P me body)" "length w \<le> 1200"
    using assms(6) by (auto simp: cluster_sign_def andThen_Inr Let_def const_defs split: if_splits)
  note c = cluster_to_body_Inr [OF b assms(5)]
  note s = sign_verifies(1,2) [OF assms(2,3,4), of body]
  have key': "operator_spk m' = verifying_key me" and exp: "cl_exp m' = cl_exp m" using c key by simp_all
  have from': "cluster_from_body body = Inr m'" using c cluster_from_complete [of m'] by (auto simp: spelling_def)
  have "normalize_name (cluster_name m') = normalize_name (cluster_name m)"
    using c normalize_spelling [of "cluster_name m" "cluster_name m'"] unfolding wf_cluster_def by metis
  then have fresh: "cluster_fresh (unwrap_or (Some now) clock, Some (verifying_key me), Some (cluster_name m)) m' \<longleftrightarrow>
      unat now \<le> unat (cl_exp m)"
    using key' exp by (simp add: cluster_fresh_def unwrap_or_def word_le_nat_alt)
  have accept: "cluster_parse_and_verify P clock w (Some (verifying_key me)) (Some (cluster_name m)) (Some now) = Some x \<longleftrightarrow>
      x = m' \<and> unat now \<le> unat (cl_exp m)" for x
  proof
    assume h: "cluster_parse_and_verify P clock w (Some (verifying_key me)) (Some (cluster_name m)) (Some now) = Some x"
    then obtain body' sig where "w = seal P CLUSTER_PREFIX (body' @ sig)" "length sig = 64" "cluster_from_body body' = Inr x"
      and f: "cluster_fresh (unwrap_or (Some now) clock, Some (verifying_key me), Some (cluster_name m)) x"
      unfolding cluster_parse [OF assms(1)] by blast
    then have "x = m'" using w(1) s(2) from' by (auto simp: seal_inj [OF assms(1)])
    with f fresh show "x = m' \<and> unat now \<le> unat (cl_exp m)" by simp
  next
    assume "x = m' \<and> unat now \<le> unat (cl_exp m)"
    then show "cluster_parse_and_verify P clock w (Some (verifying_key me)) (Some (cluster_name m)) (Some now) = Some x"
      unfolding cluster_parse [OF assms(1)] using w s from' fresh key' by auto
  qed
  then have "cluster_parse_and_verify P clock w (Some (verifying_key me)) (Some (cluster_name m)) (Some now) =
      (if unat now \<le> unat (cl_exp m) then Some m' else None)"
    by (metis not_None_eq)
  with c show ?thesis by blast
qed

definition demo_cluster :: cluster_manifest where
  "demo_cluster = \<lparr> cluster_name = ascii ''m.'', operator_spk = verifying_key demo_key,
     nodes = [\<lparr> node_id = ascii ''n'', http_endpoint = ascii ''h'', dns_endpoint = Some (ascii ''d'') \<rparr>],
     cl_seq = 1, cl_exp = 90 \<rparr>"

lemma demo_cluster: "typed_cluster demo_cluster" "unat (cl_exp demo_cluster) = 90"
  by (simp_all add: demo_cluster_def typed_cluster_def demo_key wf_node_def is_utf8_def ascii_def ch_def)

lemma demo_cluster_sign:
  "\<exists>w. cluster_sign demo_prims demo_cluster demo_key = Inr (demo_cluster\<lparr>cluster_name := ascii ''m''\<rparr>, w)"
proof -
  let ?m = "demo_cluster\<lparr>cluster_name := ascii ''m''\<rparr>"
  have p: "publishable (ascii ''m'')"
    by (simp add: publishable_def ldh_label_def ascii_def ch_def is_alnum_def is_alpha_def)
  then have dn: "cluster_validate_dns_name (ascii ''m'') = Inr ()" by (simp add: cluster_validate_dns_name_ok)
  have node: "list_all (\<lambda>n. cluster_node_validate n = Inr ()) (nodes demo_cluster)" "length (nodes demo_cluster) = 1"
    by (simp_all add: demo_cluster_def cluster_node_validate_ok is_ascii_def ascii_def ch_def)
  have nb: "nodes_to_body (nodes demo_cluster) = Inr (concat (map node_wire (nodes demo_cluster)))"
    using node by (simp add: nodes_to_body_ok)
  have "cluster_validate demo_cluster = Inr ?m"
    using dn node
    by (simp add: cluster_validate_def Let_def const_defs validate_nodes_ok)
       (simp add: demo_cluster_def ends_with_dots_def ascii_def ch_def)
  then have b: "cluster_to_body demo_cluster = Inr (?m, cluster_wire (ascii ''m'') ?m)"
    using nb by (simp add: cluster_to_body_def cluster_wire_def)
  have "length (cluster_wire (ascii ''m'') ?m) = 66"
    by (simp add: cluster_wire_def demo_cluster_def demo_key node_wire_def unwrap_or_def)
  moreover have "length (sign_data demo_prims demo_key x) = 64" for x
    by (rule sign_verifies(2) [OF demo_ed25519 demo_digest demo_key(1)])
  ultimately have "length (seal demo_prims CLUSTER_PREFIX (cluster_wire (ascii ''m'') ?m @ sign_data demo_prims demo_key x)) \<le> 1200" for x
    using demo_b64_length by (simp add: seal_def b64_length_def CLUSTER_PREFIX_def)
  moreover have "verifying_key demo_key = operator_spk demo_cluster" by (simp add: demo_cluster_def)
  ultimately show ?thesis
    using b by (simp add: cluster_sign_def Let_def const_defs not_less)
qed

theorem cluster_publish_witness:
  "\<exists>m w. cluster_sign demo_prims demo_cluster demo_key = Inr (m, w) \<and> cluster_name m = ascii ''m'' \<and>
     cluster_parse_and_verify demo_prims 0 w (Some (verifying_key demo_key)) (Some (ascii ''m.'')) (Some 90) = Some m \<and>
     cluster_parse_and_verify demo_prims 0 w (Some (verifying_key demo_key)) (Some (ascii ''m.'')) (Some 91) = None"
proof -
  obtain w where w: "cluster_sign demo_prims demo_cluster demo_key = Inr (demo_cluster\<lparr>cluster_name := ascii ''m''\<rparr>, w)"
    using demo_cluster_sign by blast
  have n: "cluster_name demo_cluster = ascii ''m.''" by (simp add: demo_cluster_def)
  have "cluster_parse_and_verify demo_prims 0 w (Some (verifying_key demo_key)) (Some (ascii ''m.'')) (Some now) =
      (if unat now \<le> 90 then Some (demo_cluster\<lparr>cluster_name := ascii ''m''\<rparr>) else None)" for now
    using cluster_publish [OF demo_b64 demo_ed25519 demo_digest demo_key(1) demo_cluster(1) w, of 0 now]
    by (simp add: n demo_cluster(2))
  with w show ?thesis by simp
qed

theorem cluster_authentic_witness:
  "\<exists>m w. cluster_sign demo_prims demo_cluster demo_key = Inr (m, w) \<and>
     cluster_parse_and_verify demo_prims 0 w None None (Some 90) = Some m \<and>
     cluster_parse_and_verify demo_prims 0 w None (Some (ascii ''other'')) (Some 90) \<noteq> Some m"
proof -
  let ?m = "demo_cluster\<lparr>cluster_name := ascii ''m''\<rparr>"
  obtain w where w: "cluster_sign demo_prims demo_cluster demo_key = Inr (?m, w)"
    using demo_cluster_sign by blast
  then obtain body where b: "cluster_to_body demo_cluster = Inr (?m, body)"
    and e: "w = seal demo_prims CLUSTER_PREFIX (body @ sign_data demo_prims demo_key body)" "length w \<le> 1200"
    by (auto simp: cluster_sign_def andThen_Inr Let_def const_defs split: if_splits)
  note c = cluster_to_body_Inr [OF b demo_cluster(1)]
  note s = sign_verifies(1,2) [OF demo_ed25519 demo_digest demo_key(1), of body]
  have k: "operator_spk ?m = verifying_key demo_key" "unat (cl_exp ?m) = 90" by (simp_all add: demo_cluster_def)
  have "normalize_name (cluster_name ?m) \<noteq> normalize_name (ascii ''other'')"
    by (simp add: normalize_name_def strip_suffix_char_def unwrap_or_def to_ascii_lowercase_def ascii_def ch_def)
  moreover have "\<exists>body sig. wf_cluster ?m \<and> (body = cluster_wire (cluster_name ?m) ?m \<or> body = cluster_wire (cluster_name ?m @ ascii ''.'') ?m) \<and>
       length sig = 64 \<and> w = seal demo_prims CLUSTER_PREFIX (body @ sig) \<and> verify_signature demo_prims body sig (operator_spk ?m)"
    using c e s k by metis
  ultimately show ?thesis
    using w e(2) k cluster_authentic [OF demo_b64, of 0 w None None "Some 90" ?m]
      cluster_authentic [OF demo_b64, of 0 w None "Some (ascii ''other'')" "Some 90" ?m]
    by (simp add: unwrap_or_def)
qed

theorem cluster_body_exact_witness:
  "\<exists>m b. cluster_from_body b = Inr m \<and> cluster_to_body m = Inr (m, cluster_wire (cluster_name m) m) \<and>
     b = cluster_wire (ascii ''m.'') m"
proof -
  let ?m = "demo_cluster\<lparr>cluster_name := ascii ''m''\<rparr>"
  obtain w where "cluster_sign demo_prims demo_cluster demo_key = Inr (?m, w)" using demo_cluster_sign by blast
  then obtain body where b: "cluster_to_body demo_cluster = Inr (?m, body)"
    by (auto simp: cluster_sign_def andThen_Inr Let_def split: if_splits)
  then have wf: "wf_cluster ?m" using cluster_to_body_Inr [OF b demo_cluster(1)] by blast
  have "cluster_name ?m @ ascii ''.'' = ascii ''m.''" "nodes ?m \<noteq> []" by (simp_all add: ascii_def demo_cluster_def)
  with wf show ?thesis
    using cluster_body_exact [of "cluster_wire (ascii ''m.'') ?m" ?m] by metis
qed

end
