(* ===== verification/Bootstrap.thy ===== *)
theory Bootstrap
  imports Cluster
begin

text \<open>
  Bootstrap records, \<open>bootstrap.rs\<close>: the pointer from a user domain to its clusters in the order
  of preference. Entries are validated with the rules of the cluster names, sorted by priority
  when a record is serialised and when it is parsed, and refused when two of them agree
  on the priority and, up to case, on the domain.
\<close>

section \<open>The code\<close>

definition BOOTSTRAP_PREFIX :: rstr where
  "BOOTSTRAP_PREFIX = ascii ''v=dmp1;t=bootstrap;''"

definition BOOTSTRAP_MAGIC :: bytes where
  "BOOTSTRAP_MAGIC = ascii ''DMPBS01''"

definition MAX_USER_DOMAIN_LEN :: nat where
  "MAX_USER_DOMAIN_LEN = 64"

definition MAX_BASE_DOMAIN_LEN :: nat where
  "MAX_BASE_DOMAIN_LEN = 64"

definition MAX_ENTRY_COUNT :: nat where
  "MAX_ENTRY_COUNT = 16"

definition BOOTSTRAP_MAX_WIRE_LEN :: nat where
  "BOOTSTRAP_MAX_WIRE_LEN = 1200"

lemmas [const_defs] = MAX_USER_DOMAIN_LEN_def MAX_BASE_DOMAIN_LEN_def MAX_ENTRY_COUNT_def BOOTSTRAP_MAX_WIRE_LEN_def

datatype bootstrap_error =
    UserDomainEmpty
  | BsEmptyLabel
  | UserDomainTooLong nat nat
  | InvalidBaseDomain string
  | BsInvalidLabel dns_reason
  | BsInvalidKeyLength nat nat
  | InvalidEntryCount string
  | DuplicateEntry u16 rstr
  | BsMalformedBody string
  | BsSigningKeyMismatch
  | BsWireTooLong nat nat

fun from_cluster_error :: "cluster_error \<Rightarrow> bootstrap_error" where
  "from_cluster_error ClusterNameEmpty = UserDomainEmpty"
| "from_cluster_error ClEmptyLabel = BsEmptyLabel"
| "from_cluster_error (ClusterNameTooLong actual cap) = UserDomainTooLong actual cap"
| "from_cluster_error (InvalidLabel s) = BsInvalidLabel s"
| "from_cluster_error (ClMalformedBody s) = BsMalformedBody s"
| "from_cluster_error _ = BsMalformedBody ''validation error''"

definition bootstrap_rrset_name :: "rstr \<Rightarrow> bootstrap_error + rstr" where
  "bootstrap_rrset_name user_domain =
     andThen (mapErr from_cluster_error (cluster_validate_dns_name user_domain)) (\<lambda>_.
       let normalized = unwrap_or (strip_suffix_char (ch CHR ''.'') user_domain) user_domain
       in Inr (ascii ''_dmp.'' @ normalized))"

record bootstrap_entry =
  e_priority :: u16
  e_base_domain :: rstr
  e_operator_spk :: bytes

definition entry_validate :: "bootstrap_entry \<Rightarrow> bootstrap_error + bootstrap_entry" where
  "entry_validate self =
     (if e_base_domain self = [] then Inl (InvalidBaseDomain ''must be a non-empty string'')
      else andThen (mapErr from_cluster_error (cluster_validate_dns_name (e_base_domain self))) (\<lambda>_.
        let self = self\<lparr>e_base_domain := undotted (e_base_domain self)\<rparr> in
        if e_base_domain self = [] then Inl (InvalidBaseDomain ''must be a non-empty string'')
        else if MAX_BASE_DOMAIN_LEN < length (e_base_domain self)
        then Inl (InvalidBaseDomain ''too long (max 64 utf-8 bytes)'')
        else Inr self))"

definition entry_to_body :: "bootstrap_entry \<Rightarrow> bootstrap_error + bytes" where
  "entry_to_body self = andThen (entry_validate self) (\<lambda>self.
     Inr (be16 (e_priority self) @ [of_nat (length (e_base_domain self))] @ e_base_domain self @ e_operator_spk self))"

definition entry_from_body :: "bytes \<Rightarrow> nat \<Rightarrow> bootstrap_error + bootstrap_entry \<times> nat" where
  "entry_from_body body offset =
     andThen (read_at (BsMalformedBody ''truncated entry: missing priority/base_domain_len'') 3 body offset) (\<lambda>(h, off).
       let priority = read16 (take 2 h); base_len = unat (h ! 2) in
       andThen (read_at (BsMalformedBody ''truncated entry: cluster_base_domain'') base_len body off) (\<lambda>(base, off).
         if effective_len base = 0 \<or> MAX_BASE_DOMAIN_LEN < effective_len base then Inl (InvalidBaseDomain ''invalid length'')
         else if \<not> is_utf8 base then Inl (InvalidBaseDomain ''not utf-8'')
         else andThen (read_at (BsMalformedBody ''truncated entry: operator_spk'') 32 body off) (\<lambda>(spk, off).
           andThen (mapErr from_cluster_error (cluster_validate_dns_name base)) (\<lambda>_.
             Inr (\<lparr> e_priority = priority, e_base_domain = undotted base, e_operator_spk = spk \<rparr>, off)))))"

record bootstrap_record =
  user_domain :: rstr
  signer_spk :: bytes
  entries :: "bootstrap_entry list"
  bs_seq :: u64
  bs_exp :: u64

definition entry_key :: "bootstrap_entry \<Rightarrow> u16 \<times> rstr" where
  "entry_key e = (e_priority e, to_ascii_lowercase (e_base_domain e))"

fun validate_entries :: "bootstrap_entry list \<Rightarrow> (u16 \<times> rstr) list \<Rightarrow> bootstrap_error + bootstrap_entry list" where
  "validate_entries [] seen = Inr []"
| "validate_entries (entry # rest) seen =
     andThen (entry_validate entry) (\<lambda>entry.
       if entry_key entry \<in> set seen then Inl (DuplicateEntry (e_priority entry) (e_base_domain entry))
       else andThen (validate_entries rest (entry_key entry # seen)) (\<lambda>rest. Inr (entry # rest)))"

definition bootstrap_validate :: "bootstrap_record \<Rightarrow> bootstrap_error + bootstrap_record" where
  "bootstrap_validate self =
     (if user_domain self = [] then Inl UserDomainEmpty
      else if ends_with_dots (user_domain self) then Inl BsEmptyLabel
      else
        let self = self\<lparr>user_domain := undotted (user_domain self)\<rparr> in
        if user_domain self = [] then Inl UserDomainEmpty
        else if MAX_USER_DOMAIN_LEN < length (user_domain self)
        then Inl (UserDomainTooLong (length (user_domain self)) MAX_USER_DOMAIN_LEN)
        else andThen (mapErr from_cluster_error (cluster_validate_dns_name (user_domain self))) (\<lambda>_.
          if entries self = [] then Inl (InvalidEntryCount ''must contain at least one entry'')
          else if MAX_ENTRY_COUNT < length (entries self) then Inl (InvalidEntryCount ''too many entries (max 16)'')
          else andThen (validate_entries (entries self) []) (\<lambda>es.
            Inr (self\<lparr>entries := sort_key e_priority es\<rparr>))))"

fun entries_to_body :: "bootstrap_entry list \<Rightarrow> bootstrap_error + bytes" where
  "entries_to_body [] = Inr []"
| "entries_to_body (entry # rest) =
     andThen (entry_to_body entry) (\<lambda>b. andThen (entries_to_body rest) (\<lambda>bs. Inr (b @ bs)))"

definition bootstrap_to_body :: "bootstrap_record \<Rightarrow> bootstrap_error + bootstrap_record \<times> bytes" where
  "bootstrap_to_body self = andThen (bootstrap_validate self) (\<lambda>self.
     andThen (entries_to_body (entries self)) (\<lambda>entry_bytes.
       Inr (self, BOOTSTRAP_MAGIC @ be64 (bs_seq self) @ be64 (bs_exp self) @ signer_spk self @
         [of_nat (length (user_domain self))] @ user_domain self @ [of_nat (length (entries self))] @ entry_bytes)))"

fun entries_from_body :: "nat \<Rightarrow> bytes \<Rightarrow> nat \<Rightarrow> (u16 \<times> rstr) list \<Rightarrow> bootstrap_error + bootstrap_entry list \<times> nat" where
  "entries_from_body 0 body off seen = Inr ([], off)"
| "entries_from_body (Suc n) body off seen =
     andThen (entry_from_body body off) (\<lambda>(entry, off).
       if entry_key entry \<in> set seen then Inl (DuplicateEntry (e_priority entry) (e_base_domain entry))
       else andThen (entries_from_body n body off (entry_key entry # seen)) (\<lambda>(rest, off). Inr (entry # rest, off)))"

definition bootstrap_from_body :: "bytes \<Rightarrow> bootstrap_error + bootstrap_record" where
  "bootstrap_from_body body =
     (let min_header = 7 + 8 + 8 + 32 + 1 in
      if length body < min_header then Inl (BsMalformedBody ''body too short for header'')
      else if segment 0 7 body \<noteq> BOOTSTRAP_MAGIC then Inl (BsMalformedBody ''bad magic'')
      else
        let seq = read64 (segment 7 15 body); exp' = read64 (segment 15 23 body);
            spk = segment 23 55 body; name_len = unat (body ! 55); off = 56
        in
        andThen (read_at (BsMalformedBody ''truncated user_domain'') name_len body off) (\<lambda>(name, off).
          if effective_len name = 0 \<or> MAX_USER_DOMAIN_LEN < effective_len name
          then Inl (UserDomainTooLong (effective_len name) MAX_USER_DOMAIN_LEN)
          else if \<not> is_utf8 name then Inl (BsMalformedBody ''user_domain not utf-8'')
          else andThen (mapErr from_cluster_error (cluster_validate_dns_name name)) (\<lambda>_.
            let name = undotted name in
            andThen (read_at (BsMalformedBody ''truncated: missing entry_count'') 1 body off) (\<lambda>(c, off).
              let entry_count = unat (c ! 0) in
              if entry_count = 0 then Inl (InvalidEntryCount ''must contain at least one entry'')
              else if MAX_ENTRY_COUNT < entry_count then Inl (InvalidEntryCount ''entry_count exceeds protocol max'')
              else andThen (entries_from_body entry_count body off []) (\<lambda>(es, off).
                if off \<noteq> length body then Inl (BsMalformedBody ''trailing bytes after last entry'')
                else Inr \<lparr> user_domain = name, signer_spk = spk, entries = sort_key e_priority es,
                           bs_seq = seq, bs_exp = exp' \<rparr>)))))"

definition bootstrap_sign :: "prims \<Rightarrow> bootstrap_record \<Rightarrow> dmp_crypto \<Rightarrow> bootstrap_error + bootstrap_record \<times> rstr" where
  "bootstrap_sign P self crypto =
     (if verifying_key crypto \<noteq> signer_spk self then Inl BsSigningKeyMismatch
      else andThen (bootstrap_to_body self) (\<lambda>(self, body).
        let signature = sign_data P crypto body;
            encoded = seal P BOOTSTRAP_PREFIX (body @ signature)
        in if BOOTSTRAP_MAX_WIRE_LEN < length encoded then Inl (BsWireTooLong (length encoded) BOOTSTRAP_MAX_WIRE_LEN)
           else Inr (self, encoded)))"

definition bootstrap_parse_and_verify :: "prims \<Rightarrow> u64 \<Rightarrow> rstr \<Rightarrow> bytes option \<Rightarrow> rstr option \<Rightarrow> u64 option \<Rightarrow>
    bootstrap_record option" where
  "bootstrap_parse_and_verify P clock wire signer_spk_pinned expected_user_domain now =
     (if \<not> starts_with BOOTSTRAP_PREFIX wire then None
      else if BOOTSTRAP_MAX_WIRE_LEN < length wire then None
      else (case unseal P BOOTSTRAP_PREFIX wire of
         None \<Rightarrow> None
       | Some blob \<Rightarrow>
           if length blob < 64 + 7 then None
           else
             let split = length blob - 64; body = take split blob; signature = drop split blob in
             if (case signer_spk_pinned of None \<Rightarrow> False
               | Some pinned \<Rightarrow> length pinned \<noteq> 32 \<or> \<not> verify_signature P body signature pinned) then None
             else (case ok (bootstrap_from_body body) of
                None \<Rightarrow> None
              | Some rec \<Rightarrow>
                  if (case signer_spk_pinned of
                        Some pinned \<Rightarrow> signer_spk rec \<noteq> pinned
                      | None \<Rightarrow> \<not> verify_signature P body signature (signer_spk rec)) then None
                  else if bs_exp rec < unwrap_or now clock then None
                  else if (case expected_user_domain of None \<Rightarrow> False
                    | Some expected \<Rightarrow> normalize_name (user_domain rec) \<noteq> normalize_name expected) then None
                  else Some rec)))"

definition best_entry :: "bootstrap_record \<Rightarrow> bootstrap_entry" where
  "best_entry self = entries self ! 0"

definition bootstrap_is_expired :: "u64 \<Rightarrow> bootstrap_record \<Rightarrow> u64 option \<Rightarrow> bool" where
  "bootstrap_is_expired clock self now \<longleftrightarrow> bs_exp self < unwrap_or now clock"

section \<open>The entries\<close>

definition wf_entry :: "bootstrap_entry \<Rightarrow> bool" where
  "wf_entry e \<longleftrightarrow> publishable (e_base_domain e) \<and> length (e_base_domain e) \<le> 64 \<and> length (e_operator_spk e) = 32"

definition entry_wire :: "rstr \<Rightarrow> bootstrap_entry \<Rightarrow> bytes" where
  "entry_wire name e = be16 (e_priority e) @ [of_nat (length name)] @ name @ e_operator_spk e"

lemma mapErr_unit: "mapErr f x = Inr () \<longleftrightarrow> x = Inr ()"
  by (cases x) auto

lemma spelling_undotted:
  "s \<noteq> [] \<Longrightarrow> cluster_validate_dns_name s = Inr () \<Longrightarrow> spelling s (undotted s) \<and> publishable (undotted s)"
  using publishable_no_dot [of s]
  by (auto simp: cluster_validate_dns_name_ok undotted_def spelling_def ascii_def)

lemma spelling_length: "spelling s n \<Longrightarrow> length s \<le> length n + 1"
  by (auto simp: spelling_def ascii_def)

lemma undotted_publishable [simp]: "publishable n \<Longrightarrow> undotted n = n"
  using publishable_no_dot [of n] by (simp add: undotted_def)

lemma entry_validate_ok:
  assumes "entry_validate e = Inr e'"
  shows "e' = e\<lparr>e_base_domain := undotted (e_base_domain e)\<rparr> \<and> spelling (e_base_domain e) (e_base_domain e') \<and>
    publishable (e_base_domain e') \<and> length (e_base_domain e') \<le> 64"
  using assms spelling_undotted [of "e_base_domain e"]
  by (auto simp: entry_validate_def andThen_Inr mapErr_unit Let_def const_defs split: if_splits)

lemma entry_to_body_wf: "wf_entry e \<Longrightarrow> entry_validate e = Inr e \<and> entry_to_body e = Inr (entry_wire (e_base_domain e) e)"
proof -
  assume w: "wf_entry e"
  then have "cluster_validate_dns_name (e_base_domain e) = Inr ()" "e_base_domain e \<noteq> []"
    using publishable_nonempty by (auto simp: wf_entry_def cluster_validate_dns_name_ok)
  with w show ?thesis
    by (simp add: entry_validate_def entry_to_body_def wf_entry_def Let_def const_defs entry_wire_def)
qed

lemma entry_from_complete:
  assumes "from_at body off (entry_wire name e @ rest)" "wf_entry e" "spelling name (e_base_domain e)"
  shows "entry_from_body body off = Inr (e, off + length (entry_wire name e)) \<and>
    from_at body (off + length (entry_wire name e)) rest"
proof -
  note w = assms(2) [unfolded wf_entry_def]
  then have sp: "(effective_len name = 0 \<or> 64 < effective_len name) = False" "is_utf8 name"
    "mapErr from_cluster_error (cluster_validate_dns_name name) = Inr ()" "undotted name = e_base_domain e"
    using spelling_parse [of name "e_base_domain e"] assms(3) by (auto simp: mapErr_unit)
  have "length name < 256" using w spelling_length [OF assms(3)] by simp
  then have lb: "unat (of_nat (length name) :: byte) = length name" by (rule unat_of_nat_byte)
  have "from_at body off ((be16 (e_priority e) @ [of_nat (length name)]) @ name @ e_operator_spk e @ rest)"
    using assms(1) by (simp add: entry_wire_def)
  moreover have "length (be16 (e_priority e) @ [of_nat (length name)]) = 3" by simp
  ultimately have r1: "read_at err 3 body off = Inr (be16 (e_priority e) @ [of_nat (length name)], off + 3)"
    "from_at body (off + 3) (name @ e_operator_spk e @ rest)" for err :: bootstrap_error
    by (rule read_at_ok)+
  note r2 = read_at_ok [OF r1(2) refl]
  have "length (e_operator_spk e) = 32" using w by blast
  note r3 = read_at_ok [OF r2(2) this]
  have h: "take 2 (be16 (e_priority e) @ [of_nat (length name)]) = be16 (e_priority e)"
    "(be16 (e_priority e) @ [of_nat (length name)]) ! 2 = of_nat (length name)" by (simp_all add: nth_append)
  have len: "off + length (entry_wire name e) = off + 3 + length name + 32" using w by (simp add: entry_wire_def)
  have "entry_from_body body off = Inr (e, off + 3 + length name + 32)"
    unfolding entry_from_body_def Let_def const_defs
    by (simp only: r1(1) prod.case andThen_simps h lb r2(1) r3(1) sp not_True_eq_False if_False read_be) simp
  then show ?thesis using r3(2) unfolding len by blast
qed

lemma entry_from_sound:
  assumes "entry_from_body body off = Inr (e, off')"
  shows "\<exists>name. wf_entry e \<and> spelling name (e_base_domain e) \<and> off' \<le> length body \<and>
    from_at body off (entry_wire name e @ drop off' body)"
proof -
  obtain h o1 base o2 spk where
    r: "read_at (BsMalformedBody ''truncated entry: missing priority/base_domain_len'') 3 body off = Inr (h, o1)"
      "read_at (BsMalformedBody ''truncated entry: cluster_base_domain'') (unat (h ! 2)) body o1 = Inr (base, o2)"
      "read_at (BsMalformedBody ''truncated entry: operator_spk'') 32 body o2 = Inr (spk, off')"
    and c: "effective_len base \<noteq> 0" "effective_len base \<le> 64" "is_utf8 base" "cluster_validate_dns_name base = Inr ()"
    and e: "e = \<lparr> e_priority = read16 (take 2 h), e_base_domain = undotted base, e_operator_spk = spk \<rparr>"
    using assms unfolding entry_from_body_def Let_def const_defs
    by (auto simp: andThen_Inr mapErr_unit split: if_splits)
  have sp: "spelling base (e_base_domain e)" "publishable (e_base_domain e)" "length (e_base_domain e) \<le> 64"
    using spelling_parse [of base "e_base_domain e"] c e by auto
  note l = r [THEN read_at_Inr(2)] and a = r [THEN read_at_Inr(3), unfolded from_at_def]
  have "h = take 2 h @ [h ! 2]"
    using l(1) by (metis Suc_1 eval_nat_numeral(3) lessI order_refl take_Suc_conv_app_nth take_all)
  then have "h = be16 (e_priority e) @ [of_nat (length base)]"
    using l(1,2) by (simp add: e be_read)
  then have "from_at body off (entry_wire base e @ drop off' body)"
    using a by (simp add: entry_wire_def e from_at_def)
  moreover have "wf_entry e" using sp l(3) by (simp add: wf_entry_def e)
  moreover have "off' \<le> length body" using read_at_Inr(4) [OF r(3)] by (simp add: from_at_def)
  ultimately show ?thesis using sp(1) by blast
qed

definition spelled :: "rstr list \<Rightarrow> bootstrap_entry list \<Rightarrow> bool" where
  "spelled names es \<longleftrightarrow> list_all2 (\<lambda>n e. spelling n (e_base_domain e)) names es"

definition entries_wire :: "rstr list \<Rightarrow> bootstrap_entry list \<Rightarrow> bytes" where
  "entries_wire names es = concat (map2 entry_wire names es)"

lemma spelled_simps [simp]: "spelled [] []" "spelled (n # ns) (e # es) \<longleftrightarrow> spelling n (e_base_domain e) \<and> spelled ns es"
  "spelled [] (e # es) = False" "spelled ns [] \<longleftrightarrow> ns = []"
  by (simp_all add: spelled_def)

lemma spelled_Cons: "spelled names (e # es) \<longleftrightarrow> (\<exists>n ns. names = n # ns \<and> spelling n (e_base_domain e) \<and> spelled ns es)"
  by (simp add: spelled_def list_all2_Cons2)

lemma entries_wire_simps [simp]: "entries_wire ns [] = []" "entries_wire (n # ns) (e # es) = entry_wire n e @ entries_wire ns es"
  by (simp_all add: entries_wire_def)

lemma spelled_self: "spelled (map e_base_domain es) es"
  by (induction es) (simp_all add: spelling_def)

lemma entries_from_complete:
  assumes "from_at body off (entries_wire names es @ rest)" "spelled names es" "list_all wf_entry es"
    and "distinct (map entry_key es)" "entry_key ` set es \<inter> set seen = {}"
  shows "entries_from_body (length es) body off seen = Inr (es, off + length (entries_wire names es))"
  using assms
proof (induction es arbitrary: names off seen)
  case (Cons e es)
  obtain n ns where names: "names = n # ns" and sp: "spelling n (e_base_domain e)" "spelled ns es"
    using Cons.prems(2) by (auto simp: spelled_Cons)
  have a: "from_at body off (entry_wire n e @ entries_wire ns es @ rest)" using Cons.prems(1) by (simp add: names)
  have e: "entry_from_body body off = Inr (e, off + length (entry_wire n e))"
    "from_at body (off + length (entry_wire n e)) (entries_wire ns es @ rest)"
    using entry_from_complete [OF a _ sp(1)] Cons.prems(3) by simp_all
  have "entries_from_body (length es) body (off + length (entry_wire n e)) (entry_key e # seen) =
      Inr (es, off + length (entry_wire n e) + length (entries_wire ns es))"
    using Cons.prems e(2) sp(2) by (intro Cons.IH) auto
  with e(1) Cons.prems(5) show ?case by (simp add: names add.assoc)
qed simp

lemma entries_from_sound:
  assumes "entries_from_body k body off seen = Inr (es, off')" "off \<le> length body"
  shows "\<exists>names. length es = k \<and> spelled names es \<and> list_all wf_entry es \<and> distinct (map entry_key es) \<and>
    entry_key ` set es \<inter> set seen = {} \<and> off' \<le> length body \<and>
    from_at body off (entries_wire names es @ drop off' body)"
  using assms
proof (induction k arbitrary: off seen es)
  case 0
  then show ?case by (simp add: from_at_def)
next
  case (Suc k)
  then obtain e o1 fs where e: "entry_from_body body off = Inr (e, o1)" "entry_key e \<notin> set seen"
    and fs: "entries_from_body k body o1 (entry_key e # seen) = Inr (fs, off')" and es: "es = e # fs"
    by (auto simp: andThen_Inr split: if_splits)
  obtain n where n: "wf_entry e" "spelling n (e_base_domain e)" "o1 \<le> length body"
    "from_at body off (entry_wire n e @ drop o1 body)" using entry_from_sound [OF e(1)] by blast
  obtain ns where "length fs = k" "spelled ns fs" "list_all wf_entry fs" "distinct (map entry_key fs)"
    "entry_key ` set fs \<inter> set (entry_key e # seen) = {}" "off' \<le> length body"
    "from_at body o1 (entries_wire ns fs @ drop off' body)" using Suc.IH [OF fs n(3)] by blast
  with n e(2) show ?case by (intro exI [of _ "n # ns"]) (auto simp: es from_at_def)
qed

lemma validate_entries_wf:
  "list_all wf_entry es \<Longrightarrow> distinct (map entry_key es) \<Longrightarrow> entry_key ` set es \<inter> set seen = {} \<Longrightarrow>
     validate_entries es seen = Inr es"
  by (induction es arbitrary: seen) (auto simp: entry_to_body_wf)

lemma entries_to_body_wf:
  "list_all wf_entry es \<Longrightarrow> entries_to_body es = Inr (entries_wire (map e_base_domain es) es)"
  by (induction es) (auto simp: entry_to_body_wf)

definition undotted_entry :: "bootstrap_entry \<Rightarrow> bootstrap_entry" where
  "undotted_entry e = e\<lparr>e_base_domain := undotted (e_base_domain e)\<rparr>"

lemma validate_entries_ok:
  "validate_entries es seen = Inr es' \<Longrightarrow> list_all (\<lambda>e. length (e_operator_spk e) = 32) es \<Longrightarrow>
     es' = map undotted_entry es \<and> list_all wf_entry es' \<and> distinct (map entry_key es') \<and>
     entry_key ` set es' \<inter> set seen = {}"
proof (induction es arbitrary: seen es')
  case (Cons e es)
  then obtain e' fs where e: "entry_validate e = Inr e'" "entry_key e' \<notin> set seen"
    and fs: "validate_entries es (entry_key e' # seen) = Inr fs" "es' = e' # fs"
    by (auto simp: andThen_Inr split: if_splits)
  have e': "e' = undotted_entry e" using entry_validate_ok [OF e(1)] by (simp add: undotted_entry_def)
  have "e_operator_spk e' = e_operator_spk e" by (simp add: e' undotted_entry_def)
  moreover have "publishable (e_base_domain e')" "length (e_base_domain e') \<le> 64" "length (e_operator_spk e) = 32"
    using entry_validate_ok [OF e(1)] Cons.prems(2) by (blast, blast, simp)
  ultimately have "wf_entry e'" by (simp only: wf_entry_def)
  have h: "fs = map undotted_entry es \<and> list_all wf_entry fs \<and> distinct (map entry_key fs) \<and>
      entry_key ` set fs \<inter> set (entry_key e' # seen) = {}"
    using Cons.prems(2) by (intro Cons.IH [OF fs(1)]) simp
  then have "es' = map undotted_entry (e # es)" using e' fs(2) by simp
  moreover have "list_all wf_entry es' \<and> distinct (map entry_key es') \<and> entry_key ` set es' \<inter> set seen = {}"
    using conjunct2 [OF h] e(2) \<open>wf_entry e'\<close> unfolding fs(2) by auto
  ultimately show ?case by blast
qed simp

section \<open>The record\<close>

definition bootstrap_wire :: "rstr \<Rightarrow> rstr list \<Rightarrow> bootstrap_entry list \<Rightarrow> bootstrap_record \<Rightarrow> bytes" where
  "bootstrap_wire name names es r = BOOTSTRAP_MAGIC @ be64 (bs_seq r) @ be64 (bs_exp r) @ signer_spk r @
     [of_nat (length name)] @ name @ [of_nat (length es)] @ entries_wire names es"

text \<open>The entries in the order of the wire, and the record that parsing returns for them.\<close>

definition wf_entries :: "bootstrap_entry list \<Rightarrow> bool" where
  "wf_entries es \<longleftrightarrow> es \<noteq> [] \<and> length es \<le> 16 \<and> list_all wf_entry es \<and> distinct (map entry_key es)"

definition wf_bootstrap :: "bootstrap_record \<Rightarrow> bool" where
  "wf_bootstrap r \<longleftrightarrow> publishable (user_domain r) \<and> length (user_domain r) \<le> 64 \<and> length (signer_spk r) = 32 \<and>
     wf_entries (entries r) \<and> sorted (map e_priority (entries r))"

lemma length_BOOTSTRAP_MAGIC [simp]: "length BOOTSTRAP_MAGIC = 7"
  by (simp add: BOOTSTRAP_MAGIC_def)

lemma wf_entries_sort: "wf_entries (sort_key e_priority es) = wf_entries es"
proof -
  have "distinct (map entry_key (sort_key e_priority es)) = distinct (map entry_key es)"
    by (simp add: distinct_map)
  moreover have "sort_key e_priority es = [] \<longleftrightarrow> es = []" by (metis length_0_conv length_sort)
  ultimately show ?thesis by (simp add: wf_entries_def list_all_iff)
qed

lemma bootstrap_from_complete:
  assumes "publishable (user_domain r)" "length (user_domain r) \<le> 64" "length (signer_spk r) = 32"
    and "wf_entries es" "spelling name (user_domain r)" "spelled names es"
  shows "bootstrap_from_body (bootstrap_wire name names es r) = Inr (r\<lparr>entries := sort_key e_priority es\<rparr>)"
proof -
  let ?b = "bootstrap_wire name names es r" and ?es = "entries_wire names es"
  note w = assms(4) [unfolded wf_entries_def]
  have sp: "(effective_len name = 0 \<or> 64 < effective_len name) = False" "is_utf8 name"
    "mapErr from_cluster_error (cluster_validate_dns_name name) = Inr ()" "undotted name = user_domain r"
    using spelling_parse [of name "user_domain r"] assms by (auto simp: mapErr_unit)
  have "length name < 256" using assms(2) spelling_length [OF assms(5)] by simp
  then have lb: "unat (of_nat (length name) :: byte) = length name" by (rule unat_of_nat_byte)
  have nb: "unat (of_nat (length es) :: byte) = length es" using w by (intro unat_of_nat_byte) simp
  have hd: "length (BOOTSTRAP_MAGIC @ be64 (bs_seq r) @ be64 (bs_exp r) @ signer_spk r @ [of_nat (length name)]) = 56"
    using assms(3) by simp
  have a: "from_at ?b 56 (name @ [of_nat (length es)] @ ?es)"
    using from_at_append [OF hd] by (simp add: bootstrap_wire_def)
  note r1 = read_at_ok [OF a refl]
  have "length [of_nat (length es) :: byte] = 1" by simp
  note r2 = read_at_ok [OF r1(2) this]
  have es: "entries_from_body (length es) ?b (56 + length name + 1) [] = Inr (es, 56 + length name + 1 + length ?es)"
    using entries_from_complete [of ?b "56 + length name + 1" names es "[]" "[]"] r2(2) w assms(6) by simp
  have len: "length ?b = 56 + length name + 1 + length ?es" using assms(3) by (simp add: bootstrap_wire_def)
  have seg: "segment 0 7 ?b = BOOTSTRAP_MAGIC" "read64 (segment 7 15 ?b) = bs_seq r" "read64 (segment 15 23 ?b) = bs_exp r"
    "segment 23 55 ?b = signer_spk r" "?b ! 55 = of_nat (length name)"
    using assms(3) by (simp_all add: bootstrap_wire_def segment_append segment_full nth_append)
  have c: "(length ?b < 7 + 8 + 8 + 32 + 1) = False" "(length es = 0) = False" "(16 < length es) = False"
    using len w by auto
  show ?thesis
    unfolding bootstrap_from_body_def Let_def const_defs seg lb
    by (simp only: c r1(1) r2(1) sp nb es len andThen_simps prod.case nth_Cons_0 if_False not_True_eq_False simp_thms) simp
qed

lemma bootstrap_from_sound:
  assumes "bootstrap_from_body b = Inr r"
  shows "\<exists>name names es. wf_bootstrap r \<and> wf_entries es \<and> entries r = sort_key e_priority es \<and>
    spelling name (user_domain r) \<and> spelled names es \<and> b = bootstrap_wire name names es r"
proof -
  obtain name o1 c o2 es where long: "56 \<le> length b" and magic: "segment 0 7 b = BOOTSTRAP_MAGIC"
    and r1: "read_at (BsMalformedBody ''truncated user_domain'') (unat (b ! 55)) b 56 = Inr (name, o1)"
    and r2: "read_at (BsMalformedBody ''truncated: missing entry_count'') 1 b o1 = Inr (c, o2)"
    and v: "effective_len name \<noteq> 0" "effective_len name \<le> 64" "is_utf8 name" "cluster_validate_dns_name name = Inr ()"
    and n: "unat (c ! 0) \<noteq> 0" "unat (c ! 0) \<le> 16"
    and es: "entries_from_body (unat (c ! 0)) b o2 [] = Inr (es, length b)"
    and r: "r = \<lparr> user_domain = undotted name, signer_spk = segment 23 55 b, entries = sort_key e_priority es,
      bs_seq = read64 (segment 7 15 b), bs_exp = read64 (segment 15 23 b) \<rparr>"
    using assms unfolding bootstrap_from_body_def Let_def const_defs
    by (auto simp: andThen_Inr mapErr_unit split: if_splits)
  note l = read_at_Inr(2) [OF r1] read_at_Inr(2) [OF r2]
  have "undotted name = user_domain r" by (simp add: r)
  then have sp: "spelling name (user_domain r)" "publishable (user_domain r)" "length (user_domain r) \<le> 64"
    using spelling_parse [of name "user_domain r"] v by blast+
  have d: "drop 56 b = name @ drop o1 b" "drop o1 b = c @ drop o2 b"
    using read_at_Inr(3) [OF r1] read_at_Inr(3) [OF r2] by (simp_all add: from_at_def)
  have "o2 \<le> length b" using read_at_Inr(4) [OF r2] by (simp add: from_at_def)
  then obtain names where e: "length es = unat (c ! 0)" "spelled names es" "list_all wf_entry es"
    "distinct (map entry_key es)" "drop o2 b = entries_wire names es"
    using entries_from_sound [OF es] by (auto simp: from_at_def)
  then have wf: "wf_entries es" using n by (auto simp: wf_entries_def)
  have "c = [of_nat (length es)]" unfolding e(1) by (rule one_byte [OF l(2)])
  then have tail: "drop 56 b = name @ [of_nat (length es)] @ entries_wire names es"
    using d e(5) by metis
  have "b = segment 0 7 b @ segment 7 15 b @ segment 15 23 b @ segment 23 55 b @ segment 55 56 b @ drop 56 b"
    by (simp add: segment_join) (simp add: take_segment [symmetric])
  moreover have "segment 55 56 b = [of_nat (length name)]" using long l(1) by (simp add: segment_one [symmetric])
  ultimately have "b = bootstrap_wire name names es r"
    using long tail by (simp add: bootstrap_wire_def r magic be_read)
  moreover have "wf_bootstrap r"
    using sp wf long unfolding wf_bootstrap_def by (simp add: r wf_entries_sort)
  ultimately show ?thesis using sp(1) wf e(2) by (auto simp: r)
qed

lemma bootstrap_to_body_wf:
  assumes "wf_bootstrap r"
  shows "bootstrap_to_body r = Inr (r, bootstrap_wire (user_domain r) (map e_base_domain (entries r)) (entries r) r)"
proof -
  note w = assms [unfolded wf_bootstrap_def wf_entries_def]
  have p: "publishable (user_domain r)" using w by blast
  note name = publishable_nonempty [OF p] publishable_no_dot [OF p]
  have "\<not> ends_with_dots (user_domain r)"
    using name by (metis append_butlast_last_id ends_with_dots_iff)
  moreover have "cluster_validate_dns_name (user_domain r) = Inr ()" using p by (simp add: cluster_validate_dns_name_ok)
  moreover have "validate_entries (entries r) [] = Inr (entries r)" using w by (intro validate_entries_wf) auto
  moreover have "sort_key e_priority (entries r) = entries r" using w by (intro sort_key_id_if_sorted) blast
  ultimately have "bootstrap_validate r = Inr r"
    using w name p by (simp add: bootstrap_validate_def Let_def const_defs)
  then show ?thesis
    using w by (simp add: bootstrap_to_body_def entries_to_body_wf bootstrap_wire_def)
qed

text \<open>The values that the types of the code admit: 32-byte keys.\<close>

definition typed_bootstrap :: "bootstrap_record \<Rightarrow> bool" where
  "typed_bootstrap r \<longleftrightarrow> length (signer_spk r) = 32 \<and> list_all (\<lambda>e. length (e_operator_spk e) = 32) (entries r)"

definition canonical_bootstrap :: "bootstrap_record \<Rightarrow> bootstrap_record" where
  "canonical_bootstrap r = r\<lparr>user_domain := undotted (user_domain r),
     entries := sort_key e_priority (map undotted_entry (entries r))\<rparr>"

lemma bootstrap_validate_ok:
  assumes "bootstrap_validate r = Inr r'" "typed_bootstrap r"
  shows "r' = canonical_bootstrap r \<and> spelling (user_domain r) (user_domain r') \<and> wf_bootstrap r'"
proof -
  let ?u = "undotted (user_domain r)"
  obtain es where ne: "user_domain r \<noteq> []" and u: "?u \<noteq> []" "length ?u \<le> 64" "cluster_validate_dns_name ?u = Inr ()"
    "\<not> ends_with_dots (user_domain r)" and n: "entries r \<noteq> []" "length (entries r) \<le> 16"
    and es: "validate_entries (entries r) [] = Inr es"
    and r': "r' = r\<lparr>user_domain := ?u, entries := sort_key e_priority es\<rparr>"
    using assms(1) by (auto simp: bootstrap_validate_def Let_def const_defs andThen_Inr mapErr_unit split: if_splits)
  have v: "es = map undotted_entry (entries r)" "list_all wf_entry es" "distinct (map entry_key es)"
    using validate_entries_ok [OF es] assms(2) by (auto simp: typed_bootstrap_def)
  then have wf: "wf_entries es" using n by (auto simp: wf_entries_def)
  have sp: "spelling (user_domain r) ?u \<and> publishable ?u" by (rule undotted_spelling [OF ne u(4,3)])
  have "wf_bootstrap r'"
    using sp u wf assms(2) by (simp add: wf_bootstrap_def wf_entries_sort typed_bootstrap_def r')
  with sp v(1) show ?thesis by (simp add: r' canonical_bootstrap_def)
qed

lemma bootstrap_to_body_Inr:
  assumes "bootstrap_to_body r = Inr (r', b)" "typed_bootstrap r"
  shows "r' = canonical_bootstrap r \<and> spelling (user_domain r) (user_domain r') \<and> wf_bootstrap r' \<and>
    b = bootstrap_wire (user_domain r') (map e_base_domain (entries r')) (entries r') r'"
proof -
  obtain eb where v: "bootstrap_validate r = Inr r'" and eb: "entries_to_body (entries r') = Inr eb"
    and b: "b = BOOTSTRAP_MAGIC @ be64 (bs_seq r') @ be64 (bs_exp r') @ signer_spk r' @
         [of_nat (length (user_domain r'))] @ user_domain r' @ [of_nat (length (entries r'))] @ eb"
    using assms(1) by (auto simp: bootstrap_to_body_def andThen_Inr)
  note u = bootstrap_validate_ok [OF v assms(2)]
  then have "list_all wf_entry (entries r')" unfolding wf_bootstrap_def wf_entries_def by blast
  then have "b = bootstrap_wire (user_domain r') (map e_base_domain (entries r')) (entries r') r'"
    using eb entries_to_body_wf [of "entries r'"] unfolding b by (simp add: bootstrap_wire_def)
  with u show ?thesis by blast
qed

lemma bootstrap_round_trip:
  "wf_bootstrap r \<Longrightarrow>
     bootstrap_from_body (bootstrap_wire (user_domain r) (map e_base_domain (entries r)) (entries r) r) = Inr r"
  using bootstrap_from_complete [of r "entries r" "user_domain r" "map e_base_domain (entries r)"]
  by (simp add: wf_bootstrap_def spelling_def spelled_self sort_key_id_if_sorted)

section \<open>Signing and verification\<close>

definition bootstrap_body :: "bootstrap_record \<Rightarrow> bootstrap_error + bytes" where
  "bootstrap_body r = andThen (bootstrap_to_body r) (\<lambda>(_, b). Inr b)"

definition bootstrap_signed :: "prims \<Rightarrow> bootstrap_record \<Rightarrow> dmp_crypto \<Rightarrow> bootstrap_error + rstr" where
  "bootstrap_signed P r me = andThen (bootstrap_sign P r me) (\<lambda>(_, w). Inr w)"

definition bootstrap_fresh :: "u64 \<times> bytes option \<times> rstr option \<Rightarrow> bootstrap_record \<Rightarrow> bool" where
  "bootstrap_fresh k r = (case k of (now, pinned, name) \<Rightarrow> (\<forall>p. pinned = Some p \<longrightarrow> p = signer_spk r) \<and>
     now \<le> bs_exp r \<and> (\<forall>n. name = Some n \<longrightarrow> normalize_name (user_domain r) = normalize_name n))"

definition bootstrap_accept :: "prims \<Rightarrow> u64 \<times> bytes option \<times> rstr option \<Rightarrow> rstr \<Rightarrow> bootstrap_record option" where
  "bootstrap_accept P k w = (case k of (now, pinned, name) \<Rightarrow> bootstrap_parse_and_verify P now w pinned name (Some now))"

lemma bootstrap_parse:
  assumes P: "b64_codec P"
  shows "bootstrap_parse_and_verify P clock w pinned name now = Some r \<longleftrightarrow> length w \<le> 1200 \<and>
    bootstrap_fresh (unwrap_or now clock, pinned, name) r \<and>
    (\<exists>body sig. w = seal P BOOTSTRAP_PREFIX (body @ sig) \<and> length sig = 64 \<and>
       bootstrap_from_body body = Inr r \<and> verify_signature P body sig (signer_spk r))"
proof -
  let ?R = "\<lambda>body sig. bootstrap_from_body body = Inr r \<and> verify_signature P body sig (signer_spk r)"
  have long: "7 \<le> length body" if "bootstrap_from_body body = Inr r" for body
    using bootstrap_from_sound [OF that] by (auto simp: bootstrap_wire_def)
  have key: "length (signer_spk r) = 32" if "?R body sig" for body sig
    using that verify_signature_lengths by blast
  have "bootstrap_parse_and_verify P clock w pinned name now = Some r \<longleftrightarrow>
      length w \<le> 1200 \<and> bootstrap_fresh (unwrap_or now clock, pinned, name) r \<and>
      (\<exists>blob. w = seal P BOOTSTRAP_PREFIX blob \<and> 7 + 64 \<le> length blob \<and>
        ?R (take (length blob - 64) blob) (drop (length blob - 64) blob))" (is "?l \<longleftrightarrow> ?r")
  proof
    assume ?l
    then show ?r
      by (auto simp: bootstrap_parse_and_verify_def Let_def unseal_Some [OF P] const_defs bootstrap_fresh_def
          split: option.splits if_splits)
  next
    assume ?r
    then obtain blob where b: "w = seal P BOOTSTRAP_PREFIX blob" "71 \<le> length blob"
      "?R (take (length blob - 64) blob) (drop (length blob - 64) blob)" "length w \<le> 1200"
      and fresh: "bootstrap_fresh (unwrap_or now clock, pinned, name) r" by auto
    have "starts_with BOOTSTRAP_PREFIX w" using b(1) by (simp add: seal_def)
    moreover have "unseal P BOOTSTRAP_PREFIX w = Some blob" using b(1) by (simp add: unseal_Some [OF P])
    ultimately show ?l
      using b fresh key [OF b(3)]
      by (auto simp: bootstrap_parse_and_verify_def const_defs Let_def bootstrap_fresh_def split: option.splits)
  qed
  then show ?thesis
    unfolding signed_blob [of "\<lambda>blob. w = seal P BOOTSTRAP_PREFIX blob" 7 ?R] using long by blast
qed

interpretation bootstrap: signed_record wf_bootstrap bootstrap_body bootstrap_from_body
  BOOTSTRAP_PREFIX "\<lambda>r. length r \<le> 1200" "\<lambda>_. signer_spk" bootstrap_fresh bootstrap_signed bootstrap_accept
proof unfold_locales
  fix b r
  assume "bootstrap_from_body b = Inr r"
  then show "wf_bootstrap r" using bootstrap_from_sound by blast
next
  fix r b
  assume "wf_bootstrap r" "bootstrap_body r = Inr b"
  then show "bootstrap_from_body b = Inr r"
    using bootstrap_round_trip by (auto simp: bootstrap_body_def bootstrap_to_body_wf)
next
  fix P x me r
  assume "bootstrap_signed P x me = Inr r"
  then show "\<exists>body. bootstrap_body x = Inr body \<and>
      r = seal P BOOTSTRAP_PREFIX (body @ sign_data P me body) \<and> length r \<le> 1200"
    by (auto simp: bootstrap_signed_def bootstrap_sign_def bootstrap_body_def Let_def andThen_Inr const_defs
        split: if_splits)
next
  fix P and k :: "u64 \<times> bytes option \<times> rstr option" and r x
  assume P: "b64_codec P"
  obtain now pinned name where k: "k = (now, pinned, name)" by (cases k)
  show "(bootstrap_accept P k r = Some x) = (length r \<le> 1200 \<and> bootstrap_fresh k x \<and>
      (\<exists>body sig. r = seal P BOOTSTRAP_PREFIX (body @ sig) \<and> length sig = 64 \<and>
        bootstrap_from_body body = Inr x \<and> verify_signature P body sig (signer_spk x)))"
    unfolding bootstrap_accept_def k prod.case bootstrap_parse [OF P] by (simp add: unwrap_or_def)
qed

section \<open>Properties\<close>

lemma best_entry_least:
  assumes "wf_bootstrap r" "e \<in> set (entries r)"
  shows "best_entry r \<in> set (entries r) \<and> e_priority (best_entry r) \<le> e_priority e"
proof -
  obtain x xs where x: "entries r = x # xs"
    using assms(1) by (auto simp: wf_bootstrap_def wf_entries_def neq_Nil_conv)
  then have "\<forall>y \<in> set xs. e_priority x \<le> e_priority y" using assms(1) by (simp add: wf_bootstrap_def)
  then show ?thesis using assms(2) by (auto simp: best_entry_def x)
qed

text \<open>Every accepted bootstrap record is authentic and in normal form. What \<open>parse_and_verify\<close> returns was
  signed under the key in it, which is the pinned one if a key is pinned, matches the expected domain and has not
  expired; its 1 to 16 entries are sorted by priority, no two agree on the priority and the domain up
  to case, \<open>best_entry\<close> is one of least priority, and serialising the record gives it back unchanged
  with a body that parses to the same record, whatever order and spelling the accepted body had.\<close>

theorem bootstrap_accepted:
  assumes "b64_codec P" "bootstrap_parse_and_verify P clock w pinned name now = Some r"
  shows "(\<exists>body sig. w = seal P BOOTSTRAP_PREFIX (body @ sig) \<and> bootstrap_from_body body = Inr r \<and>
      verify_signature P body sig (signer_spk r)) \<and>
    (\<forall>p. pinned = Some p \<longrightarrow> p = signer_spk r) \<and> unat (unwrap_or now clock) \<le> unat (bs_exp r) \<and>
    (\<forall>n. name = Some n \<longrightarrow> normalize_name (user_domain r) = normalize_name n) \<and>
    1 \<le> length (entries r) \<and> length (entries r) \<le> 16 \<and> sorted (map e_priority (entries r)) \<and>
    distinct (map (\<lambda>e. (e_priority e, to_ascii_lowercase (e_base_domain e))) (entries r)) \<and>
    (\<forall>e \<in> set (entries r). e_priority (best_entry r) \<le> e_priority e) \<and>
    (\<exists>c. bootstrap_to_body r = Inr (r, c) \<and> bootstrap_from_body c = Inr r)"
proof -
  obtain body sig where b: "w = seal P BOOTSTRAP_PREFIX (body @ sig)" "bootstrap_from_body body = Inr r"
      "verify_signature P body sig (signer_spk r)" and f: "bootstrap_fresh (unwrap_or now clock, pinned, name) r"
    using assms(2) unfolding bootstrap_parse [OF assms(1)] by blast
  have wf: "wf_bootstrap r" using b(2) bootstrap_from_sound by blast
  have "entry_key = (\<lambda>e. (e_priority e, to_ascii_lowercase (e_base_domain e)))" by (simp add: fun_eq_iff entry_key_def)
  then have shape: "1 \<le> length (entries r)" "length (entries r) \<le> 16" "sorted (map e_priority (entries r))"
    "distinct (map (\<lambda>e. (e_priority e, to_ascii_lowercase (e_base_domain e))) (entries r))"
    using wf by (auto simp: wf_bootstrap_def wf_entries_def Suc_le_eq)
  have norm: "\<exists>c. bootstrap_to_body r = Inr (r, c) \<and> bootstrap_from_body c = Inr r"
    using bootstrap_to_body_wf [OF wf] bootstrap_round_trip [OF wf] by blast
  have best: "\<forall>e \<in> set (entries r). e_priority (best_entry r) \<le> e_priority e"
    using best_entry_least [OF wf] by blast
  have "(\<forall>p. pinned = Some p \<longrightarrow> p = signer_spk r) \<and> unat (unwrap_or now clock) \<le> unat (bs_exp r) \<and>
    (\<forall>n. name = Some n \<longrightarrow> normalize_name (user_domain r) = normalize_name n)"
    using f unfolding bootstrap_fresh_def prod.case word_le_nat_alt .
  with b shape norm best show ?thesis by blast
qed

text \<open>A published bootstrap record reaches its readers in the order of preference. If \<open>sign\<close> succeeds, it
  returns the record with the trailing dots removed and the entries stably sorted by priority, and
  \<open>parse_and_verify\<close> with the signer pinned and the domain given as it was written returns exactly this
  record until it expires.\<close>

theorem bootstrap_publish:
  assumes "b64_codec P" "ed25519 P" "digest P" "wf_crypto P me" "typed_bootstrap r"
    and "bootstrap_sign P r me = Inr (r', w)" "unat now \<le> unat (bs_exp r)"
  shows "r' = r\<lparr>user_domain := undotted (user_domain r),
      entries := sort_key e_priority (map (\<lambda>e. e\<lparr>e_base_domain := undotted (e_base_domain e)\<rparr>) (entries r))\<rparr> \<and>
    bootstrap_parse_and_verify P clock w (Some (verifying_key me)) (Some (user_domain r)) (Some now) = Some r'"
proof -
  obtain body where b: "bootstrap_to_body r = Inr (r', body)" and key: "verifying_key me = signer_spk r"
    and w: "w = seal P BOOTSTRAP_PREFIX (body @ sign_data P me body)" "length w \<le> 1200"
    using assms(6) by (auto simp: bootstrap_sign_def andThen_Inr Let_def const_defs split: if_splits)
  note c = bootstrap_to_body_Inr [OF b assms(5)]
  note s = sign_verifies(1,2) [OF assms(2,3,4), of body]
  have r': "r' = r\<lparr>user_domain := undotted (user_domain r),
      entries := sort_key e_priority (map (\<lambda>e. e\<lparr>e_base_domain := undotted (e_base_domain e)\<rparr>) (entries r))\<rparr>"
    using c by (simp add: canonical_bootstrap_def undotted_entry_def [abs_def])
  then have k: "signer_spk r' = verifying_key me" "bs_exp r' = bs_exp r" using key by simp_all
  have "bootstrap_from_body body = Inr r'" using c bootstrap_round_trip by blast
  moreover have "normalize_name (user_domain r') = normalize_name (user_domain r)"
    using c normalize_spelling [of "user_domain r" "user_domain r'"] unfolding wf_bootstrap_def by metis
  then have "bootstrap_fresh (unwrap_or (Some now) clock, Some (verifying_key me), Some (user_domain r)) r'"
    using k assms(7) by (simp add: bootstrap_fresh_def unwrap_or_def word_le_nat_alt)
  ultimately have "bootstrap_parse_and_verify P clock w (Some (verifying_key me)) (Some (user_domain r)) (Some now) = Some r'"
    unfolding bootstrap_parse [OF assms(1)] using w s k(1) by metis
  with r' show ?thesis by blast
qed

definition demo_entry :: "u16 \<Rightarrow> string \<Rightarrow> bootstrap_entry" where
  "demo_entry p d = \<lparr> e_priority = p, e_base_domain = ascii d, e_operator_spk = verifying_key demo_key \<rparr>"

definition demo_bootstrap :: bootstrap_record where
  "demo_bootstrap = \<lparr> user_domain = ascii ''u.'', signer_spk = verifying_key demo_key,
     entries = [demo_entry 20 ''b'', demo_entry 10 ''a''], bs_seq = 1, bs_exp = 90 \<rparr>"

lemma demo_bootstrap: "typed_bootstrap demo_bootstrap" "unat (bs_exp demo_bootstrap) = 90"
  by (simp_all add: demo_bootstrap_def typed_bootstrap_def demo_key demo_entry_def)

lemma demo_bootstrap_sign:
  "\<exists>r w. bootstrap_sign demo_prims demo_bootstrap demo_key = Inr (r, w)"
proof -
  let ?e = "[demo_entry 10 ''a'', demo_entry 20 ''b'']"
  let ?r = "demo_bootstrap\<lparr>user_domain := ascii ''u'', entries := ?e\<rparr>"
  have p: "publishable (ascii ''a'')" "publishable (ascii ''b'')" "publishable (ascii ''u'')"
    by (simp_all add: publishable_def ldh_label_def ascii_def ch_def is_alnum_def is_alpha_def)
  then have u: "cluster_validate_dns_name (ascii ''u'') = Inr ()" by (simp add: cluster_validate_dns_name_ok)
  have wf: "list_all wf_entry ?e" "list_all wf_entry (entries demo_bootstrap)"
    using p by (simp_all add: wf_entry_def demo_bootstrap_def demo_entry_def demo_key)
  have "distinct (map entry_key (entries demo_bootstrap))"
    by (simp add: demo_bootstrap_def entry_key_def demo_entry_def)
  then have es: "validate_entries (entries demo_bootstrap) [] = Inr (entries demo_bootstrap)"
    using wf(2) by (intro validate_entries_wf) simp_all
  have sort: "sort_key e_priority (entries demo_bootstrap) = ?e"
    by (simp add: demo_bootstrap_def demo_entry_def)
  have n: "length (entries demo_bootstrap) = 2" by (simp add: demo_bootstrap_def)
  have d: "user_domain demo_bootstrap = ascii ''u.''" by (simp add: demo_bootstrap_def)
  have und: "undotted (ascii ''u.'') = ascii ''u''" "\<not> ends_with_dots (ascii ''u.'')"
    by (simp_all add: undotted_def ends_with_dots_def ascii_def ch_def)
  have "entries demo_bootstrap \<noteq> []" "ascii ''u.'' \<noteq> []" "ascii ''u'' \<noteq> []" using n by (auto simp: ascii_def)
  then have v: "bootstrap_validate demo_bootstrap = Inr ?r"
    by (simp add: bootstrap_validate_def d und Let_def const_defs u es sort n)
  note eb = entries_to_body_wf [OF wf(1)]
  have "length (entries_wire (map e_base_domain ?e) ?e) = 72"
    by (simp add: entry_wire_def demo_entry_def demo_key)
  moreover define body where "body = BOOTSTRAP_MAGIC @ be64 (bs_seq ?r) @ be64 (bs_exp ?r) @ signer_spk ?r @
      [of_nat (length (user_domain ?r))] @ user_domain ?r @ [of_nat (length (entries ?r))] @
      entries_wire (map e_base_domain ?e) ?e"
  ultimately have "length body = 130" by (simp add: demo_bootstrap_def demo_key)
  moreover have "bootstrap_to_body demo_bootstrap = Inr (?r, body)"
    using v eb by (simp add: bootstrap_to_body_def body_def)
  moreover have "length (sign_data demo_prims demo_key body) = 64"
    by (rule sign_verifies(2) [OF demo_ed25519 demo_digest demo_key(1)])
  moreover have "verifying_key demo_key = signer_spk demo_bootstrap" by (simp add: demo_bootstrap_def)
  ultimately show ?thesis
    using demo_b64_length
    by (simp add: bootstrap_sign_def Let_def const_defs not_less seal_def b64_length_def BOOTSTRAP_PREFIX_def)
qed

theorem bootstrap_publish_witness:
  "\<exists>r w. bootstrap_sign demo_prims demo_bootstrap demo_key = Inr (r, w) \<and>
     entries r = [demo_entry 10 ''a'', demo_entry 20 ''b''] \<and>
     bootstrap_parse_and_verify demo_prims 0 w (Some (verifying_key demo_key)) (Some (ascii ''u.'')) (Some 90) = Some r"
proof -
  obtain r w where w: "bootstrap_sign demo_prims demo_bootstrap demo_key = Inr (r, w)"
    using demo_bootstrap_sign by blast
  have now: "unat (90 :: u64) \<le> unat (bs_exp demo_bootstrap)" by (simp add: demo_bootstrap(2))
  note p = bootstrap_publish [OF demo_b64 demo_ed25519 demo_digest demo_key(1) demo_bootstrap(1) w now, of 0]
  have "user_domain demo_bootstrap = ascii ''u.''" by (simp add: demo_bootstrap_def)
  moreover have "undotted (ascii ''a'') = ascii ''a''" "undotted (ascii ''b'') = ascii ''b''"
    by (simp_all add: undotted_def ascii_def ch_def)
  then have "entries r = [demo_entry 10 ''a'', demo_entry 20 ''b'']"
    using p by (simp add: demo_bootstrap_def demo_entry_def)
  ultimately show ?thesis using w p by auto
qed

theorem bootstrap_accepted_witness:
  "\<exists>r w. bootstrap_parse_and_verify demo_prims 0 w None None (Some 90) = Some r \<and>
     (\<forall>e \<in> set (entries r). e_priority (best_entry r) \<le> e_priority e)"
proof -
  obtain r w where w: "bootstrap_sign demo_prims demo_bootstrap demo_key = Inr (r, w)"
    using demo_bootstrap_sign by blast
  then obtain body where b: "bootstrap_to_body demo_bootstrap = Inr (r, body)"
    and e: "w = seal demo_prims BOOTSTRAP_PREFIX (body @ sign_data demo_prims demo_key body)" "length w \<le> 1200"
    by (auto simp: bootstrap_sign_def andThen_Inr Let_def const_defs split: if_splits)
  note c = bootstrap_to_body_Inr [OF b demo_bootstrap(1)]
  note s = sign_verifies(1,2) [OF demo_ed25519 demo_digest demo_key(1), of body]
  have "signer_spk r = verifying_key demo_key" "bs_exp r = 90"
    using c by (simp_all add: canonical_bootstrap_def demo_bootstrap_def)
  moreover have "bootstrap_from_body body = Inr r" using c bootstrap_round_trip by blast
  ultimately have "bootstrap_parse_and_verify demo_prims 0 w None None (Some 90) = Some r"
    unfolding bootstrap_parse [OF demo_b64] using e s by (auto simp: bootstrap_fresh_def unwrap_or_def)
  with bootstrap_accepted [OF demo_b64 this] show ?thesis by blast
qed

end
