(* ===== verification/Endpoint.thy ===== *)
theory Endpoint
  imports Strings
begin

text \<open>
  Endpoint validation of the heartbeat records, \<open>heartbeat.rs\<close>: the minimal URL split, the parser of IP
  literals of the standard library, and the ranges of addresses that are refused.
\<close>

section \<open>IP literals\<close>

text \<open>
  \<open>str::parse::<IpAddr>\<close>. A parser takes the input and returns a value with the input left.
  \<open>read_number\<close> reads at most \<open>max_digits\<close> digits; \<open>read_separator\<close> expects the separator before every
  element but the first; an address is read completely or not at all.
\<close>

datatype ip_addr = V4 byte byte byte byte | V6 "u16 list"

definition digit_val :: "nat \<Rightarrow> byte \<Rightarrow> nat option" where
  "digit_val radix c =
     (let d = (if is_digit c then Some (unat c - 48)
               else if ch CHR ''a'' \<le> c \<and> c \<le> ch CHR ''z'' then Some (unat c - 97 + 10)
               else if ch CHR ''A'' \<le> c \<and> c \<le> ch CHR ''Z'' then Some (unat c - 65 + 10)
               else None)
      in case d of None \<Rightarrow> None | Some d \<Rightarrow> if d < radix then Some d else None)"

fun read_digits :: "nat \<Rightarrow> nat \<Rightarrow> bytes \<Rightarrow> nat list \<times> bytes" where
  "read_digits radix 0 s = ([], s)"
| "read_digits radix (Suc n) [] = ([], [])"
| "read_digits radix (Suc n) (c # s) =
     (case digit_val radix c of
        None \<Rightarrow> ([], c # s)
      | Some d \<Rightarrow> (case read_digits radix n s of (ds, r) \<Rightarrow> (d # ds, r)))"

definition digits_val :: "nat \<Rightarrow> nat list \<Rightarrow> nat" where
  "digits_val radix ds = foldl (\<lambda>acc d. acc * radix + d) 0 ds"

definition read_number :: "nat \<Rightarrow> nat \<Rightarrow> bool \<Rightarrow> nat \<Rightarrow> bytes \<Rightarrow> (nat \<times> bytes) option" where
  "read_number radix max_digits allow_zero_prefix cap s =
     (case read_digits radix max_digits s of (ds, r) \<Rightarrow>
        if ds = [] then None
        else if \<not> allow_zero_prefix \<and> hd ds = 0 \<and> 1 < length ds then None
        else if cap < digits_val radix ds then None
        else Some (digits_val radix ds, r))"

definition read_separator :: "byte \<Rightarrow> nat \<Rightarrow> (bytes \<Rightarrow> ('a \<times> bytes) option) \<Rightarrow> bytes \<Rightarrow> ('a \<times> bytes) option" where
  "read_separator sep i p s =
     (if i = 0 then p s
      else (case s of [] \<Rightarrow> None | c # r \<Rightarrow> if c = sep then p r else None))"

definition read_octet :: "nat \<Rightarrow> bytes \<Rightarrow> (nat \<times> bytes) option" where
  "read_octet i s = read_separator (ch CHR ''.'') i (read_number 10 3 False 255) s"

definition read_ipv4 :: "bytes \<Rightarrow> ((byte \<times> byte \<times> byte \<times> byte) \<times> bytes) option" where
  "read_ipv4 s =
     (case read_octet 0 s of None \<Rightarrow> None | Some (a, s) \<Rightarrow>
     (case read_octet 1 s of None \<Rightarrow> None | Some (b, s) \<Rightarrow>
     (case read_octet 2 s of None \<Rightarrow> None | Some (c, s) \<Rightarrow>
     (case read_octet 3 s of None \<Rightarrow> None | Some (d, s) \<Rightarrow>
        Some ((of_nat a, of_nat b, of_nat c, of_nat d), s)))))"

text \<open>
  The loop \<open>read_groups\<close> from group \<open>i\<close> on, with \<open>n\<close> groups left: the groups read, whether an embedded
  IPv4 address ended them, and the input left.
\<close>

fun read_groups :: "nat \<Rightarrow> nat \<Rightarrow> bytes \<Rightarrow> u16 list \<times> bool \<times> bytes" where
  "read_groups 0 i s = ([], False, s)"
| "read_groups (Suc n) i s =
     (case (if 0 < n then read_separator (ch CHR '':'') i read_ipv4 s else None) of
        Some ((a, b, c, d), r) \<Rightarrow> ([read16 [a, b], read16 [c, d]], True, r)
      | None \<Rightarrow>
          (case read_separator (ch CHR '':'') i (read_number 16 4 True 65535) s of
             None \<Rightarrow> ([], False, s)
           | Some (g, r) \<Rightarrow> (case read_groups n (Suc i) r of (gs, v4, r) \<Rightarrow> (of_nat g # gs, v4, r))))"

definition read_ipv6 :: "bytes \<Rightarrow> (u16 list \<times> bytes) option" where
  "read_ipv6 s =
     (case read_groups 8 0 s of (head, head_ipv4, r) \<Rightarrow>
        if length head = 8 then Some (head, r)
        else if head_ipv4 then None
        else if take 2 r \<noteq> ascii ''::'' then None
        else (case read_groups (8 - (length head + 1)) 0 (drop 2 r) of (tail, _, r) \<Rightarrow>
          Some (head @ replicate (8 - length head - length tail) 0 @ tail, r)))"

definition parse_ip :: "bytes \<Rightarrow> ip_addr option" where
  "parse_ip s =
     (case read_ipv4 s of
        Some ((a, b, c, d), r) \<Rightarrow> if r = [] then Some (V4 a b c d) else None
      | None \<Rightarrow> (case read_ipv6 s of Some (gs, []) \<Rightarrow> Some (V6 gs) | _ \<Rightarrow> None))"

section \<open>Public addresses\<close>

definition is_v4_reserved :: "byte \<Rightarrow> bool" where
  "is_v4_reserved o0 \<longleftrightarrow> 240 \<le> o0"

definition is_v4_shared_or_benchmarking :: "byte \<Rightarrow> byte \<Rightarrow> bool" where
  "is_v4_shared_or_benchmarking o0 o1 \<longleftrightarrow> o0 = 100 \<and> and o1 0xC0 = 0x40 \<or> o0 = 198 \<and> (o1 = 18 \<or> o1 = 19)"

definition is_v4_documentation :: "byte \<Rightarrow> byte \<Rightarrow> byte \<Rightarrow> bool" where
  "is_v4_documentation o0 o1 o2 \<longleftrightarrow> o0 = 192 \<and> o1 = 0 \<and> o2 = 2 \<or> o0 = 198 \<and> o1 = 51 \<and> o2 = 100 \<or>
     o0 = 203 \<and> o1 = 0 \<and> o2 = 113"

text \<open>The octets of an IPv6 address, and the classifications of the standard library.\<close>

definition v6_octets :: "u16 list \<Rightarrow> bytes" where
  "v6_octets gs = concat (map be16 gs)"

definition is_v6_unique_local :: "u16 list \<Rightarrow> bool" where
  "is_v6_unique_local gs \<longleftrightarrow> and (v6_octets gs ! 0) 0xFE = 0xFC"

definition is_v6_link_local :: "u16 list \<Rightarrow> bool" where
  "is_v6_link_local gs \<longleftrightarrow> v6_octets gs ! 0 = 0xFE \<and> and (v6_octets gs ! 1) 0xC0 = 0x80"

definition is_v6_reserved :: "u16 list \<Rightarrow> bool" where
  "is_v6_reserved gs \<longleftrightarrow> (let oc = v6_octets gs in
     if oc ! 0 = 0x01 then True else oc ! 0 = 0x20 \<and> oc ! 1 = 0x01 \<and> oc ! 2 = 0x0D \<and> oc ! 3 = 0xB8)"

definition v4_std_special :: "byte \<Rightarrow> byte \<Rightarrow> byte \<Rightarrow> byte \<Rightarrow> bool" where
  "v4_std_special a b c d \<longleftrightarrow>
     (a = 0 \<and> b = 0 \<and> c = 0 \<and> d = 0) \<comment> \<open>\<open>is_unspecified\<close>\<close> \<or>
     a = 127 \<comment> \<open>\<open>is_loopback\<close>\<close> \<or>
     (a = 10 \<or> a = 172 \<and> 16 \<le> b \<and> b \<le> 31 \<or> a = 192 \<and> b = 168) \<comment> \<open>\<open>is_private\<close>\<close> \<or>
     (a = 169 \<and> b = 254) \<comment> \<open>\<open>is_link_local\<close>\<close> \<or>
     (224 \<le> a \<and> a \<le> 239) \<comment> \<open>\<open>is_multicast\<close>\<close>"

fun ip_is_public :: "ip_addr \<Rightarrow> bool" where
  "ip_is_public (V4 a b c d) \<longleftrightarrow> \<not> (v4_std_special a b c d \<or> is_v4_reserved a \<or>
     is_v4_shared_or_benchmarking a b \<or> is_v4_documentation a b c)"
| "ip_is_public (V6 gs) \<longleftrightarrow> \<not> (gs = replicate 8 0 \<comment> \<open>\<open>is_unspecified\<close>\<close> \<or> gs = replicate 7 0 @ [1] \<comment> \<open>\<open>is_loopback\<close>\<close> \<or>
     v6_octets gs ! 0 = 0xFF \<comment> \<open>\<open>is_multicast\<close>\<close> \<or>
     is_v6_unique_local gs \<or> is_v6_link_local gs \<or> is_v6_reserved gs)"

definition ip_literal_is_non_public :: "rstr \<Rightarrow> bool" where
  "ip_literal_is_non_public host \<longleftrightarrow> (case parse_ip host of None \<Rightarrow> False | Some addr \<Rightarrow> \<not> ip_is_public addr)"

section \<open>The URL split\<close>

text \<open>\<open>str::find\<close> of a string, giving what precedes and what follows it, and \<open>str::rfind\<close> of a character.\<close>

fun find_str :: "rstr \<Rightarrow> rstr \<Rightarrow> (rstr \<times> rstr) option" where
  "find_str p [] = (if p = [] then Some ([], []) else None)"
| "find_str p (c # s) =
     (if take (length p) (c # s) = p then Some ([], drop (length p) (c # s))
      else map_option (\<lambda>(u, v). (c # u, v)) (find_str p s))"

definition rfind_char :: "byte \<Rightarrow> rstr \<Rightarrow> (rstr \<times> rstr) option" where
  "rfind_char c s =
     (case dropWhile (\<lambda>b. b \<noteq> c) (rev s) of
        [] \<Rightarrow> None
      | _ # r \<Rightarrow> Some (rev r, rev (takeWhile (\<lambda>b. b \<noteq> c) (rev s))))"

record parsed_url =
  u_scheme :: rstr
  u_host :: rstr
  u_has_userinfo :: bool
  u_has_extras :: bool

definition scheme_ok :: "rstr \<Rightarrow> bool" where
  "scheme_ok scheme \<longleftrightarrow> scheme \<noteq> [] \<and> is_alpha (hd scheme) \<and>
     list_all (\<lambda>b. is_alnum b \<or> b = ch CHR ''+'' \<or> b = ch CHR ''-'' \<or> b = ch CHR ''.'') (tl scheme)"

definition is_extra :: "byte \<Rightarrow> bool" where
  "is_extra c \<longleftrightarrow> c = ch CHR ''/'' \<or> c = ch CHR ''?'' \<or> c = ch CHR ''#''"

definition host_of :: "rstr \<Rightarrow> rstr option" where
  "host_of hostport =
     (case strip_prefix (ascii ''['') hostport of
        Some stripped \<Rightarrow>
          (case split_once (ch CHR '']'') stripped of
             None \<Rightarrow> None
           | Some (host, after_bracket) \<Rightarrow>
               if after_bracket \<noteq> [] \<and> hd after_bracket \<noteq> ch CHR '':'' then None else Some host)
      | None \<Rightarrow>
          (case rfind_char (ch CHR '':'') hostport of
             Some (h, port_suffix) \<Rightarrow> if list_all is_digit port_suffix then Some h else Some hostport
           | None \<Rightarrow> Some hostport))"

definition parse_url :: "rstr \<Rightarrow> parsed_url option" where
  "parse_url s =
     (case find_str (ascii ''://'') s of
        None \<Rightarrow> None
      | Some (scheme, after_scheme) \<Rightarrow>
          if \<not> scheme_ok scheme then None
          else
            let authority = takeWhile (\<lambda>c. \<not> is_extra c) after_scheme;
                has_extras = list_ex is_extra after_scheme;
                (has_userinfo, hostport) =
                  (case rfind_char (ch CHR ''@'') authority of Some (_, r) \<Rightarrow> (True, r) | None \<Rightarrow> (False, authority))
            in map_option (\<lambda>host. \<lparr> u_scheme = scheme, u_host = host, u_has_userinfo = has_userinfo,
                 u_has_extras = has_extras \<rparr>) (host_of hostport))"

section \<open>The endpoint\<close>

definition MAX_ENDPOINT_LEN :: nat where
  "MAX_ENDPOINT_LEN = 255"

lemmas [const_defs] = MAX_ENDPOINT_LEN_def

datatype heartbeat_error =
    EndpointEmpty
  | EndpointTooLong nat nat
  | EndpointNotAscii
  | EndpointInvalidChars
  | EndpointMalformed
  | EndpointBadScheme
  | EndpointHasUserinfo
  | EndpointMissingHost
  | EndpointHasExtras
  | EndpointLocalhost
  | EndpointPrivateIp
  | VersionTooLong nat nat
  | VersionNotAscii
  | ZoneTooLong nat nat
  | ZoneNotAscii
  | ZoneInvalidChars
  | HbExpNotAfterTs
  | OperatorKeyMismatch
  | HbWireTooLong nat nat
  | HbBodyTooShort
  | HbBadMagic
  | InvalidEndpointLen u16
  | InvalidVersionLen byte
  | InvalidZoneLen byte
  | HbBodyTruncated
  | HbTrailingBytes
  | HbInvalidUtf8

definition LOCALHOST_ALIASES :: "rstr list" where
  "LOCALHOST_ALIASES = [ascii ''localhost'', ascii ''localhost.localdomain'', ascii ''ip6-localhost'']"

definition bad_char :: "byte \<Rightarrow> bool" where
  "bad_char c \<longleftrightarrow> c < 0x21 \<or> c = 0x7F"

definition validate_endpoint :: "rstr \<Rightarrow> heartbeat_error + unit" where
  "validate_endpoint endpoint =
     (if endpoint = [] then Inl EndpointEmpty
      else if MAX_ENDPOINT_LEN < length endpoint then Inl (EndpointTooLong (length endpoint) MAX_ENDPOINT_LEN)
      else if \<not> is_ascii endpoint then Inl EndpointNotAscii
      else if list_ex bad_char endpoint then Inl EndpointInvalidChars
      else (case parse_url endpoint of
         None \<Rightarrow> Inl EndpointMalformed
       | Some parsed \<Rightarrow>
           let scheme_lower = to_ascii_lowercase (u_scheme parsed) in
           if scheme_lower \<noteq> ascii ''https'' \<and> scheme_lower \<noteq> ascii ''http'' then Inl EndpointBadScheme
           else if u_has_userinfo parsed then Inl EndpointHasUserinfo
           else if u_host parsed = [] then Inl EndpointMissingHost
           else if u_has_extras parsed then Inl EndpointHasExtras
           else if list_ex (\<lambda>alias. alias = to_ascii_lowercase (u_host parsed)) LOCALHOST_ALIASES then Inl EndpointLocalhost
           else if ip_literal_is_non_public (u_host parsed) then Inl EndpointPrivateIp
           else Inr ()))"

section \<open>Address blocks\<close>

text \<open>The specification: the IPv4 address as a number, outside a list of blocks given as in RFC 6890.\<close>

definition v4_number :: "byte \<Rightarrow> byte \<Rightarrow> byte \<Rightarrow> byte \<Rightarrow> nat" where
  "v4_number a b c d = nat_of_be [a, b, c, d]"

definition in_block :: "nat \<Rightarrow> (byte \<times> byte \<times> byte \<times> byte) \<times> nat \<Rightarrow> bool" where
  "in_block n blk = (case blk of ((a, b, c, d), len) \<Rightarrow> n div 2 ^ (32 - len) = v4_number a b c d div 2 ^ (32 - len))"

definition special_blocks :: "((byte \<times> byte \<times> byte \<times> byte) \<times> nat) list" where
  "special_blocks = [((0, 0, 0, 0), 32), ((10, 0, 0, 0), 8), ((100, 64, 0, 0), 10), ((127, 0, 0, 0), 8),
     ((169, 254, 0, 0), 16), ((172, 16, 0, 0), 12), ((192, 0, 2, 0), 24), ((192, 168, 0, 0), 16),
     ((198, 18, 0, 0), 15), ((198, 51, 100, 0), 24), ((203, 0, 113, 0), 24), ((224, 0, 0, 0), 4), ((240, 0, 0, 0), 4)]"

lemma byte_enum: "\<forall>n \<in> set [0..<256]. P (of_nat n) \<Longrightarrow> P (b :: byte)"
proof -
  assume a: "\<forall>n \<in> set [0..<256]. P (of_nat n)"
  have "unat b \<in> set [0..<256]" using unat_byte_less [of b] by simp
  from bspec [OF a this] show "P b" by simp
qed

lemma mask_C0: "and b 0xC0 = 0x40 \<longleftrightarrow> unat (b :: byte) div 64 = 1"
  by (rule byte_enum [of "\<lambda>b. and b 0xC0 = 0x40 \<longleftrightarrow> unat b div 64 = 1"]) code_simp

lemma octets_inj: "nat_of_be [a, b, c, d] = nat_of_be [x, y, z, w] \<longleftrightarrow> a = x \<and> b = y \<and> c = z \<and> d = w"
proof -
  have "be_of_nat (length [a, b, c, d]) (nat_of_be [a, b, c, d]) = [a, b, c, d]" for a b c d
    by (rule be_of_nat_of_be)
  then have "be_of_nat (Suc (Suc (Suc (Suc 0)))) (nat_of_be [a, b, c, d]) = [a, b, c, d]" for a b c d
    by (simp only: list.size add_0_right add_Suc_right)
  then show ?thesis by (metis list.inject)
qed

lemma place_value: "p * k + r = q * k + s \<longleftrightarrow> p = q \<and> r = s" if "r < k" "s < k" for p q r s k :: nat
proof
  assume e: "p * k + r = q * k + s"
  have "(p * k + r) div k = p" "(q * k + s) div k = q" "(p * k + r) mod k = r" "(q * k + s) mod k = s"
    using that by auto
  then show "p = q \<and> r = s" by (metis e)
qed simp

lemma octets_div:
  fixes a b c d :: nat
  assumes "a < 256" "b < 256" "c < 256" "d < 256"
  defines "n \<equiv> a * 16777216 + b * 65536 + c * 256 + d"
  shows "n div 256 = (a * 256 + b) * 256 + c" "n div 65536 = a * 256 + b" "n div 16777216 = a"
    "n div 131072 = a * 128 + b div 2" "n div 1048576 = a * 16 + b div 16" "n div 4194304 = a * 4 + b div 64"
    "n div 268435456 = a div 16"
proof -
  have "n = ((a * 256 + b) * 256 + c) * 256 + d" by (simp add: n_def)
  then show 1: "n div 256 = (a * 256 + b) * 256 + c" using assms(4) by simp
  have "n div 65536 = n div 256 div 256" by (simp add: div_mult2_eq [symmetric])
  then show 2: "n div 65536 = a * 256 + b" using 1 assms(3) by simp
  have "n div 16777216 = n div 65536 div 256" by (simp add: div_mult2_eq [symmetric])
  then show 3: "n div 16777216 = a" using 2 assms(2) by simp
  have "n div 131072 = n div 65536 div 2" "n div 1048576 = n div 65536 div 16" "n div 4194304 = n div 65536 div 64"
    "n div 268435456 = n div 16777216 div 16"
    by (simp_all add: div_mult2_eq [symmetric])
  moreover have "(a * 256 + b) div 2 = a * 128 + b div 2" "(a * 256 + b) div 16 = a * 16 + b div 16"
    "(a * 256 + b) div 64 = a * 4 + b div 64" by linarith+
  ultimately show "n div 131072 = a * 128 + b div 2" "n div 1048576 = a * 16 + b div 16"
    "n div 4194304 = a * 4 + b div 64" "n div 268435456 = a div 16"
    using 2 3 by simp_all
qed

text \<open>The blocks by the length of their mask, read off the octets.\<close>

lemma in_block_octets:
  "in_block (v4_number a b c d) ((x, y, z, w), 32) \<longleftrightarrow> a = x \<and> b = y \<and> c = z \<and> d = w"
  "in_block (v4_number a b c d) ((x, y, z, w), 24) \<longleftrightarrow> a = x \<and> b = y \<and> c = z"
  "in_block (v4_number a b c d) ((x, y, z, w), 16) \<longleftrightarrow> a = x \<and> b = y"
  "in_block (v4_number a b c d) ((x, y, z, w), 15) \<longleftrightarrow> a = x \<and> unat b div 2 = unat y div 2"
  "in_block (v4_number a b c d) ((x, y, z, w), 12) \<longleftrightarrow> a = x \<and> unat b div 16 = unat y div 16"
  "in_block (v4_number a b c d) ((x, y, z, w), 10) \<longleftrightarrow> a = x \<and> unat b div 64 = unat y div 64"
  "in_block (v4_number a b c d) ((x, y, z, w), 8) \<longleftrightarrow> a = x"
  "in_block (v4_number a b c d) ((x, y, z, w), 4) \<longleftrightarrow> unat a div 16 = unat x div 16"
proof -
  have lt: "unat v < 256" "unat v div 2 < 128" "unat v div 16 < 16" "unat v div 64 < 4" for v :: byte
    using unat_byte_less [of v] by (simp_all add: less_mult_imp_div_less)
  have n: "v4_number a b c d = unat a * 16777216 + unat b * 65536 + unat c * 256 + unat d" for a b c d
    by (simp add: v4_number_def)
  note d = octets_div [OF lt(1) lt(1) lt(1) lt(1)]
  note pv = place_value [OF lt(1) lt(1)] place_value [OF lt(2) lt(2)] place_value [OF lt(3) lt(3)]
    place_value [OF lt(4) lt(4)]
  have pow: "2 ^ (32 - 24) = (256 :: nat)" "2 ^ (32 - 16) = (65536 :: nat)" "2 ^ (32 - 15) = (131072 :: nat)"
    "2 ^ (32 - 12) = (1048576 :: nat)" "2 ^ (32 - 10) = (4194304 :: nat)" "2 ^ (32 - 8) = (16777216 :: nat)"
    "2 ^ (32 - 4) = (268435456 :: nat)" by simp_all
  have eq: "a = x \<longleftrightarrow> unat a = unat x" for a x :: byte by (simp add: word_unat_eq_iff)
  show "in_block (v4_number a b c d) ((x, y, z, w), 32) \<longleftrightarrow> a = x \<and> b = y \<and> c = z \<and> d = w"
    unfolding in_block_def v4_number_def prod.case by (simp add: octets_inj del: nat_of_be.simps)
  show "in_block (v4_number a b c d) ((x, y, z, w), 24) \<longleftrightarrow> a = x \<and> b = y \<and> c = z"
    "in_block (v4_number a b c d) ((x, y, z, w), 16) \<longleftrightarrow> a = x \<and> b = y"
    "in_block (v4_number a b c d) ((x, y, z, w), 15) \<longleftrightarrow> a = x \<and> unat b div 2 = unat y div 2"
    "in_block (v4_number a b c d) ((x, y, z, w), 12) \<longleftrightarrow> a = x \<and> unat b div 16 = unat y div 16"
    "in_block (v4_number a b c d) ((x, y, z, w), 10) \<longleftrightarrow> a = x \<and> unat b div 64 = unat y div 64"
    "in_block (v4_number a b c d) ((x, y, z, w), 8) \<longleftrightarrow> a = x"
    "in_block (v4_number a b c d) ((x, y, z, w), 4) \<longleftrightarrow> unat a div 16 = unat x div 16"
    unfolding in_block_def prod.case n pow d by (simp_all only: pv eq conj_assoc)
qed

lemma ip_is_public_blocks:
  "ip_is_public (V4 a b c d) \<longleftrightarrow> (\<forall>blk \<in> set special_blocks. \<not> in_block (v4_number a b c d) blk)"
proof -
  have "unat b div 16 = 1 \<longleftrightarrow> 16 \<le> b \<and> b \<le> 31" unfolding word_le_nat_alt by simp linarith
  moreover have "unat b div 2 = 9 \<longleftrightarrow> b = 18 \<or> b = 19" unfolding word_unat_eq_iff by simp linarith
  moreover have "unat a div 16 = 14 \<longleftrightarrow> 224 \<le> a \<and> a \<le> 239" unfolding word_le_nat_alt by simp linarith
  moreover have "unat a div 16 = 15 \<longleftrightarrow> 240 \<le> a"
  proof -
    have "n div 16 = 15 \<longleftrightarrow> 240 \<le> n" if "n < 256" for n :: nat using that by (intro iffI) linarith+
    then show ?thesis using unat_byte_less [of a] by (simp add: word_le_nat_alt)
  qed
  moreover have "unat (172 :: byte) = 172" by simp
  ultimately have "(\<forall>blk \<in> set special_blocks. \<not> in_block (v4_number a b c d) blk) \<longleftrightarrow>
      \<not> (a = 0 \<and> b = 0 \<and> c = 0 \<and> d = 0) \<and> a \<noteq> 10 \<and> \<not> (a = 100 \<and> and b 0xC0 = 0x40) \<and> a \<noteq> 127 \<and>
      \<not> (a = 169 \<and> b = 254) \<and> \<not> (a = 172 \<and> 16 \<le> b \<and> b \<le> 31) \<and> \<not> (a = 192 \<and> b = 0 \<and> c = 2) \<and>
      \<not> (a = 192 \<and> b = 168) \<and> \<not> (a = 198 \<and> (b = 18 \<or> b = 19)) \<and> \<not> (a = 198 \<and> b = 51 \<and> c = 100) \<and>
      \<not> (a = 203 \<and> b = 0 \<and> c = 113) \<and> \<not> (224 \<le> a \<and> a \<le> 239) \<and> \<not> 240 \<le> a"
    by (simp add: special_blocks_def in_block_octets mask_C0)
  then show ?thesis
    unfolding ip_is_public.simps v4_std_special_def is_v4_reserved_def is_v4_shared_or_benchmarking_def
      is_v4_documentation_def by satx
qed

section \<open>Accepted endpoints\<close>

lemma find_str_Some: "find_str p s = Some (u, v) \<Longrightarrow> s = u @ p @ v"
proof (induction s arbitrary: u)
  case (Cons c s)
  show ?case
  proof (cases "take (length p) (c # s) = p")
    case True
    then show ?thesis using Cons.prems append_take_drop_id [of "length p" "c # s"] by simp
  next
    case False
    then obtain u' where "u = c # u'" "find_str p s = Some (u', v)" using Cons.prems by auto
    then show ?thesis using Cons.IH by simp
  qed
qed (simp split: if_splits)

lemma sep: "ascii ''://'' = [58, 47, 47]"
  by (simp add: ascii_def ch_def)

lemma find_str_first: "58 \<notin> set u \<Longrightarrow> find_str [58, 47, 47] (u @ [58, 47, 47] @ v) = Some (u, v)"
proof (induction u)
  case (Cons c u)
  then have "take 3 (c # u @ [58, 47, 47] @ v) \<noteq> [58, 47, 47]" by (simp add: numeral_3_eq_3)
  with Cons show ?case by simp
qed simp

lemma rfind_char_None: "rfind_char c s = None \<longleftrightarrow> c \<notin> set s"
proof -
  have "dropWhile (\<lambda>b. b \<noteq> c) (rev s) = [] \<longleftrightarrow> c \<notin> set s" by auto
  then show ?thesis unfolding rfind_char_def
    by (cases "dropWhile (\<lambda>b. b \<noteq> c) (rev s)") (simp_all only: list.case option.distinct list.distinct simp_thms)
qed

lemma lower_alpha: "lower b = x \<Longrightarrow> 97 \<le> x \<Longrightarrow> x \<le> 122 \<Longrightarrow> is_alpha b"
  by (auto simp: lower_def is_alpha_def ch_def split: if_splits)

definition web_schemes :: "rstr set" where
  "web_schemes = {ascii ''http'', ascii ''https''}"

lemma web_scheme: "to_ascii_lowercase s \<in> web_schemes \<Longrightarrow> scheme_ok s \<and> 58 \<notin> set s"
proof -
  assume w: "to_ascii_lowercase s \<in> web_schemes"
  then have "\<forall>x \<in> set (map lower s). 97 \<le> x \<and> x \<le> 122"
    by (auto simp: web_schemes_def to_ascii_lowercase_def ascii_def ch_def)
  then have a: "\<forall>b \<in> set s. is_alpha b" using lower_alpha by auto
  moreover have "s \<noteq> []" using w by (auto simp: web_schemes_def to_ascii_lowercase_def ascii_def)
  moreover have "\<not> is_alpha 58" by (simp add: is_alpha_def ch_def)
  ultimately show ?thesis
    by (cases s) (auto simp: scheme_ok_def list_all_iff is_alnum_def)
qed

definition authority_ok :: "rstr \<Rightarrow> bool" where
  "authority_ok a \<longleftrightarrow> set a \<inter> set (ascii ''@/?#'') = {}"

lemma parse_url_shape:
  "parse_url e = Some u \<and> \<not> u_has_userinfo u \<and> \<not> u_has_extras u \<and> to_ascii_lowercase (u_scheme u) \<in> web_schemes \<longleftrightarrow>
   (\<exists>scheme authority host. e = scheme @ ascii ''://'' @ authority \<and> to_ascii_lowercase scheme \<in> web_schemes \<and>
      authority_ok authority \<and> host_of authority = Some host \<and>
      u = \<lparr> u_scheme = scheme, u_host = host, u_has_userinfo = False, u_has_extras = False \<rparr>)" (is "?l \<longleftrightarrow> ?r")
proof -
  have ok: "authority_ok a \<longleftrightarrow> \<not> list_ex is_extra a \<and> rfind_char (ch CHR ''@'') a = None" for a
    by (auto simp: authority_ok_def list_ex_iff is_extra_def ascii_def rfind_char_None)
  have all: "takeWhile (\<lambda>c. \<not> is_extra c) a = a" if "\<not> list_ex is_extra a" for a
    using that by (simp add: list_ex_iff takeWhile_eq_all_conv)
  show ?thesis
  proof
    assume l: ?l
    then obtain scheme a where f: "find_str (ascii ''://'') e = Some (scheme, a)" and s: "scheme_ok scheme"
      by (auto simp: parse_url_def split: option.splits if_splits)
    have ext: "\<not> list_ex is_extra a" using l f s by (auto simp: parse_url_def Let_def split: option.splits)
    have "rfind_char (ch CHR ''@'') a = None"
      using l f s by (auto simp: parse_url_def Let_def all [OF ext] split: option.splits)
    with l f s ext show ?r
      using find_str_Some [OF f] by (auto simp: parse_url_def Let_def all [OF ext] ok)
  next
    assume ?r
    then obtain scheme a host where e: "e = scheme @ ascii ''://'' @ a" and w: "to_ascii_lowercase scheme \<in> web_schemes"
      and a: "authority_ok a" and h: "host_of a = Some host"
      and u: "u = \<lparr> u_scheme = scheme, u_host = host, u_has_userinfo = False, u_has_extras = False \<rparr>" by blast
    have "find_str (ascii ''://'') e = Some (scheme, a)"
      using web_scheme [OF w] find_str_first [of scheme a] by (simp add: e sep)
    then show ?l
      using web_scheme [OF w] w h u all [of a] a [unfolded ok] by (simp add: parse_url_def Let_def del: takeWhile_eq_all_conv)
  qed
qed

lemma not_ip_literal_is_non_public:
  "\<not> ip_literal_is_non_public host \<longleftrightarrow> (\<forall>addr. parse_ip host = Some addr \<longrightarrow> ip_is_public addr)"
  by (simp add: ip_literal_is_non_public_def split: option.split)

lemma printable: "b < 0x80 \<and> \<not> bad_char b \<longleftrightarrow> 0x21 \<le> b \<and> b \<le> 0x7E"
  by (auto simp: bad_char_def word_le_nat_alt word_less_nat_alt word_unat_eq_iff)

section \<open>Properties\<close>

text \<open>C31: Exactly which endpoints a heartbeat may advertise. \<open>validate_endpoint\<close> accepts a string if and
  only if it has at most 255 printable ASCII characters and is the scheme http or https in any
  case, \<open>://\<close> and an authority without \<open>@\<close>, \<open>/\<close>, \<open>?\<close> and \<open>#\<close> whose host is not empty, no alias of localhost,
  and, if it is an IP literal, a public address.\<close>

theorem endpoint_exact:
  "validate_endpoint e = Inr () \<longleftrightarrow> length e \<le> 255 \<and> (\<forall>b \<in> set e. 0x21 \<le> b \<and> b \<le> 0x7E) \<and>
   (\<exists>scheme authority host. e = scheme @ ascii ''://'' @ authority \<and>
      to_ascii_lowercase scheme \<in> {ascii ''http'', ascii ''https''} \<and>
      set authority \<inter> set (ascii ''@/?#'') = {} \<and> host_of authority = Some host \<and> host \<noteq> [] \<and>
      to_ascii_lowercase host \<notin> set LOCALHOST_ALIASES \<and>
      (\<forall>addr. parse_ip host = Some addr \<longrightarrow> ip_is_public addr))"
proof -
  have chars: "is_ascii e \<and> \<not> list_ex bad_char e \<longleftrightarrow> (\<forall>b \<in> set e. 0x21 \<le> b \<and> b \<le> 0x7E)"
    using printable by (auto simp: is_ascii_def list_all_iff list_ex_iff)
  have "validate_endpoint e = Inr () \<longleftrightarrow> e \<noteq> [] \<and> length e \<le> 255 \<and> is_ascii e \<and> \<not> list_ex bad_char e \<and>
      (\<exists>u. (parse_url e = Some u \<and> \<not> u_has_userinfo u \<and> \<not> u_has_extras u \<and> to_ascii_lowercase (u_scheme u) \<in> web_schemes) \<and>
        u_host u \<noteq> [] \<and> to_ascii_lowercase (u_host u) \<notin> set LOCALHOST_ALIASES \<and> \<not> ip_literal_is_non_public (u_host u))"
    by (auto simp: validate_endpoint_def Let_def const_defs web_schemes_def list_ex_iff split: option.splits)
  also have "\<dots> \<longleftrightarrow> length e \<le> 255 \<and> (\<forall>b \<in> set e. 0x21 \<le> b \<and> b \<le> 0x7E) \<and>
     (\<exists>scheme authority host. e = scheme @ ascii ''://'' @ authority \<and> to_ascii_lowercase scheme \<in> web_schemes \<and>
       authority_ok authority \<and> host_of authority = Some host \<and> host \<noteq> [] \<and>
       to_ascii_lowercase host \<notin> set LOCALHOST_ALIASES \<and> \<not> ip_literal_is_non_public host)"
    (is "_ \<longleftrightarrow> _ \<and> _ \<and> (\<exists>scheme authority host. ?shape scheme authority host)")
  proof -
    have "e \<noteq> []" if "?shape s a h" for s a h using that by (auto simp: sep)
    then show ?thesis unfolding chars [symmetric] parse_url_shape by fastforce
  qed
  finally show ?thesis
    by (simp only: web_schemes_def authority_ok_def not_ip_literal_is_non_public)
qed

lemma parse_ip_g: "parse_ip (ascii ''g'') = None"
proof -
  have n4: "4 = Suc 3" by simp
  have r: "read_digits radix 3 [103] = ([], [103])" "read_digits radix 4 [103] = ([], [103])" if "radix \<le> 16" for radix
    using that by (simp_all only: numeral_3_eq_3 n4 read_digits.simps) (simp_all add: digit_val_def is_digit_def ch_def)
  have v4: "read_ipv4 [103] = None" by (simp add: read_ipv4_def read_octet_def read_separator_def read_number_def r)
  then have "read_groups 8 0 [103] = ([], False, [103])"
    using read_groups.simps(2) [of 7 0 "[103]"] by (simp add: read_separator_def read_number_def r)
  with v4 show ?thesis by (simp add: parse_ip_def read_ipv6_def ascii_def ch_def)
qed

lemma demo_endpoint: "validate_endpoint (ascii ''HTTP://g:8'') = Inr ()"
proof -
  have h: "host_of (ascii ''g:8'') = Some (ascii ''g'')"
    by (simp add: host_of_def strip_prefix_def split_once_def rfind_char_def ascii_def ch_def is_digit_def)
  have s: "ascii ''HTTP://g:8'' = ascii ''HTTP'' @ ascii ''://'' @ ascii ''g:8''" by (simp add: ascii_def)
  have w: "to_ascii_lowercase (ascii ''HTTP'') \<in> web_schemes" "authority_ok (ascii ''g:8'')"
    by (simp_all add: web_schemes_def authority_ok_def ascii_def ch_def to_ascii_lowercase_def lower_def)
  have "\<exists>u. parse_url (ascii ''HTTP://g:8'') = Some u \<and> \<not> u_has_userinfo u \<and> \<not> u_has_extras u \<and>
      to_ascii_lowercase (u_scheme u) \<in> web_schemes \<and> u_host u = ascii ''g''"
    using parse_url_shape [of "ascii ''HTTP://g:8''" "\<lparr> u_scheme = ascii ''HTTP'', u_host = ascii ''g'', u_has_userinfo = False, u_has_extras = False \<rparr>"]
      h s w by auto
  moreover have "length (ascii ''HTTP://g:8'') = 10" "ascii ''HTTP://g:8'' \<noteq> []" "is_ascii (ascii ''HTTP://g:8'')" "\<not> list_ex bad_char (ascii ''HTTP://g:8'')"
    "ascii ''g'' \<noteq> []" "\<not> list_ex (\<lambda>alias. alias = to_ascii_lowercase (ascii ''g'')) LOCALHOST_ALIASES"
    by (simp_all add: is_ascii_def bad_char_def ascii_def ch_def to_ascii_lowercase_def lower_def LOCALHOST_ALIASES_def)
  ultimately show ?thesis
    using parse_ip_g by (auto simp: validate_endpoint_def Let_def const_defs web_schemes_def ip_literal_is_non_public_def)
qed

theorem endpoint_exact_witness:
  "validate_endpoint (ascii ''HTTP://g:8'') = Inr () \<and> host_of (ascii ''g:8'') = Some (ascii ''g'')"
proof -
  have h: "host_of (ascii ''g:8'') = Some (ascii ''g'')"
    by (simp add: host_of_def strip_prefix_def split_once_def rfind_char_def ascii_def ch_def is_digit_def)
  have "ascii ''HTTP://g:8'' = ascii ''HTTP'' @ ascii ''://'' @ ascii ''g:8''" by (simp add: ascii_def)
  moreover have "length (ascii ''HTTP://g:8'') \<le> 255" "\<forall>b \<in> set (ascii ''HTTP://g:8''). 0x21 \<le> b \<and> b \<le> 0x7E"
    "to_ascii_lowercase (ascii ''HTTP'') \<in> {ascii ''http'', ascii ''https''}" "set (ascii ''g:8'') \<inter> set (ascii ''@/?#'') = {}"
    "ascii ''g'' \<noteq> []" "to_ascii_lowercase (ascii ''g'') \<notin> set LOCALHOST_ALIASES"
    by (simp_all add: ascii_def ch_def to_ascii_lowercase_def lower_def LOCALHOST_ALIASES_def)
  ultimately show ?thesis using h parse_ip_g endpoint_exact [of "ascii ''HTTP://g:8''"] by (metis option.distinct(1))
qed

text \<open>C32: Which addresses count as public. An IPv4 address is public exactly outside the special-purpose
  blocks of the table \<open>special_blocks\<close>; but every IPv4-mapped IPv6 address \<open>::ffff:a.b.c.d\<close> is public, so
  a loopback or private IPv4 address is accepted in that spelling.\<close>

theorem ip_public_exact:
  "(ip_is_public (V4 a b c d) \<longleftrightarrow> (\<forall>blk \<in> set special_blocks. \<not> in_block (v4_number a b c d) blk)) \<and>
   ip_is_public (V6 [0, 0, 0, 0, 0, 0xFFFF, read16 [a, b], read16 [c, d]])"
proof -
  have "ip_is_public (V6 [0, 0, 0, 0, 0, 0xFFFF, x, y])" for x y
  proof -
    let ?gs = "[0, 0, 0, 0, 0, 0xFFFF, x, y] :: u16 list"
    have "be16 0 = [0, 0]" by (simp add: be16_def numeral_2_eq_2)
    then obtain r where o: "v6_octets ?gs = 0 # 0 # 0 # 0 # r" by (auto simp: v6_octets_def)
    have "?gs ! 5 = 0xFFFF" "replicate 8 (0 :: u16) ! 5 = 0" "(replicate 7 (0 :: u16) @ [1]) ! 5 = 0"
      by (simp_all add: nth_append)
    then have "?gs \<noteq> replicate 8 0" "?gs \<noteq> replicate 7 0 @ [1]" by fastforce+
    with o show ?thesis
      by (simp add: is_v6_unique_local_def is_v6_link_local_def is_v6_reserved_def)
  qed
  then show ?thesis using ip_is_public_blocks by blast
qed

theorem ip_public_exact_witness:
  "\<not> ip_is_public (V4 127 0 0 1) \<and> ip_is_public (V6 [0, 0, 0, 0, 0, 0xFFFF, read16 [127, 0], read16 [0, 1]])"
proof -
  have "((127, 0, 0, 0), 8) \<in> set special_blocks" by (simp add: special_blocks_def)
  moreover have "in_block (v4_number 127 0 0 1) ((127, 0, 0, 0), 8)" by (simp only: in_block_octets)
  ultimately show ?thesis using ip_public_exact [of 127 0 0 1] by blast
qed

end
