(* ===== verification/Heartbeat.thy ===== *)
theory Heartbeat
  imports Endpoint Reader Rotation
begin

text \<open>
  Node heartbeats, the records of \<open>heartbeat.rs\<close>: the body codec with its legacy form \<open>DMPHB02\<close>,
  which has no zone, the signature of the operator, and the check that the timestamp is
  within the given skew of the verifier's clock. \<open>Endpoint\<close> holds the endpoint rules.
\<close>

section \<open>The code\<close>

definition HEARTBEAT_PREFIX :: rstr where
  "HEARTBEAT_PREFIX = ascii ''v=dmp1;t=heartbeat;''"

definition HEARTBEAT_MAGIC :: bytes where
  "HEARTBEAT_MAGIC = ascii ''DMPHB03''"

definition LEGACY_MAGIC :: bytes where
  "LEGACY_MAGIC = ascii ''DMPHB02''"

definition MAX_VERSION_LEN :: nat where
  "MAX_VERSION_LEN = 32"

definition MAX_CLAIM_PROVIDER_ZONE_LEN :: nat where
  "MAX_CLAIM_PROVIDER_ZONE_LEN = 64"

definition HEARTBEAT_MAX_WIRE_LEN :: nat where
  "HEARTBEAT_MAX_WIRE_LEN = 1200"

definition DEFAULT_TS_SKEW_SECONDS :: u64 where
  "DEFAULT_TS_SKEW_SECONDS = 300"

lemmas [const_defs] = MAX_VERSION_LEN_def MAX_CLAIM_PROVIDER_ZONE_LEN_def HEARTBEAT_MAX_WIRE_LEN_def

record heartbeat_record =
  hb_endpoint :: rstr
  hb_operator_spk :: bytes
  hb_version :: rstr
  hb_ts :: u64
  hb_exp :: u64
  hb_capabilities :: u16
  hb_zone :: rstr

definition validate_version :: "rstr \<Rightarrow> heartbeat_error + unit" where
  "validate_version version =
     (if MAX_VERSION_LEN < length version then Inl (VersionTooLong (length version) MAX_VERSION_LEN)
      else if \<not> is_ascii version then Inl VersionNotAscii
      else Inr ())"

definition validate_zone :: "rstr \<Rightarrow> heartbeat_error + unit" where
  "validate_zone zone =
     (if MAX_CLAIM_PROVIDER_ZONE_LEN < length zone then Inl (ZoneTooLong (length zone) MAX_CLAIM_PROVIDER_ZONE_LEN)
      else if zone = [] then Inr ()
      else if \<not> is_ascii zone then Inl ZoneNotAscii
      else if list_ex bad_char zone then Inl ZoneInvalidChars
      else Inr ())"

definition heartbeat_to_body :: "heartbeat_record \<Rightarrow> heartbeat_error + bytes" where
  "heartbeat_to_body self =
     andThen (validate_endpoint (hb_endpoint self)) (\<lambda>_.
     andThen (validate_version (hb_version self)) (\<lambda>_.
     andThen (validate_zone (hb_zone self)) (\<lambda>_.
       if hb_exp self \<le> hb_ts self then Inl HbExpNotAfterTs
       else Inr (HEARTBEAT_MAGIC @ be16 (of_nat (length (hb_endpoint self))) @ hb_endpoint self @ hb_operator_spk self @
         [of_nat (length (hb_version self))] @ hb_version self @ be16 (hb_capabilities self) @
         [of_nat (length (hb_zone self))] @ hb_zone self @ be64 (hb_ts self) @ be64 (hb_exp self)))))"

definition zone_from_body :: "bool \<Rightarrow> bytes \<Rightarrow> nat \<Rightarrow> heartbeat_error + rstr \<times> nat" where
  "zone_from_body is_legacy body off =
     (if is_legacy then Inr ([], off)
      else andThen (read_at HbBodyTruncated 1 body off) (\<lambda>(z, off).
        let zone_len = z ! 0 in
        if MAX_CLAIM_PROVIDER_ZONE_LEN < unat zone_len then Inl (InvalidZoneLen zone_len)
        else andThen (read_at HbBodyTruncated (unat zone_len) body off) (\<lambda>(zone, off).
          if \<not> is_utf8 zone then Inl HbInvalidUtf8 else Inr (zone, off))))"

definition heartbeat_from_body :: "bytes \<Rightarrow> heartbeat_error + heartbeat_record" where
  "heartbeat_from_body body =
     (if length body < 7 + 2 then Inl HbBodyTooShort
      else if take 7 body \<noteq> HEARTBEAT_MAGIC \<and> take 7 body \<noteq> LEGACY_MAGIC then Inl HbBadMagic
      else
        let is_legacy = (take 7 body \<noteq> HEARTBEAT_MAGIC); endpoint_len = read16 (segment 7 9 body) in
        if endpoint_len = 0 \<or> MAX_ENDPOINT_LEN < unat endpoint_len then Inl (InvalidEndpointLen endpoint_len)
        else andThen (read_at HbBodyTruncated (unat endpoint_len) body 9) (\<lambda>(endpoint, off).
          if \<not> is_utf8 endpoint then Inl HbInvalidUtf8
          else andThen (read_at HbBodyTruncated 32 body off) (\<lambda>(operator_spk, off).
            andThen (read_at HbBodyTruncated 1 body off) (\<lambda>(v, off).
              let version_len = v ! 0 in
              if MAX_VERSION_LEN < unat version_len then Inl (InvalidVersionLen version_len)
              else andThen (read_at HbBodyTruncated (unat version_len) body off) (\<lambda>(version, off).
                if \<not> is_utf8 version then Inl HbInvalidUtf8
                else andThen (read_at HbBodyTruncated 2 body off) (\<lambda>(caps, off).
                  andThen (zone_from_body is_legacy body off) (\<lambda>(zone, off).
                    andThen (read_at HbBodyTruncated 16 body off) (\<lambda>(t, off).
                      let ts = read64 (take 8 t); exp' = read64 (drop 8 t) in
                      if off \<noteq> length body then Inl HbTrailingBytes
                      else andThen (validate_endpoint endpoint) (\<lambda>_. andThen (validate_version version) (\<lambda>_.
                        if exp' \<le> ts then Inl HbExpNotAfterTs
                        else Inr \<lparr> hb_endpoint = endpoint, hb_operator_spk = operator_spk, hb_version = version,
                          hb_ts = ts, hb_exp = exp', hb_capabilities = read16 caps, hb_zone = zone \<rparr>))))))))))"

definition heartbeat_sign :: "prims \<Rightarrow> heartbeat_record \<Rightarrow> dmp_crypto \<Rightarrow> heartbeat_error + rstr" where
  "heartbeat_sign P self operator_crypto =
     (if verifying_key operator_crypto \<noteq> hb_operator_spk self then Inl OperatorKeyMismatch
      else andThen (heartbeat_to_body self) (\<lambda>body.
        let signature = sign_data P operator_crypto body;
            wire = seal P HEARTBEAT_PREFIX (body @ signature)
        in if HEARTBEAT_MAX_WIRE_LEN < length wire then Inl (HbWireTooLong (length wire) HEARTBEAT_MAX_WIRE_LEN)
           else Inr wire))"

definition heartbeat_parse_and_verify :: "prims \<Rightarrow> u64 \<Rightarrow> rstr \<Rightarrow> u64 option \<Rightarrow> u64 \<Rightarrow> heartbeat_record option" where
  "heartbeat_parse_and_verify P clock wire now ts_skew_seconds =
     (if \<not> starts_with HEARTBEAT_PREFIX wire then None
      else if HEARTBEAT_MAX_WIRE_LEN < length wire then None
      else (case unseal P HEARTBEAT_PREFIX wire of
         None \<Rightarrow> None
       | Some blob \<Rightarrow>
           let min_blob_len = 7 + 2 + 1 + 32 + 1 + 2 + 16 + 64 in
           if length blob < min_blob_len then None
           else
             let split = length blob - 64; body = take split blob; sig = drop split blob in
             (case ok (heartbeat_from_body body) of
                None \<Rightarrow> None
              | Some record \<Rightarrow>
                  if is_low_order (hb_operator_spk record) then None
                  else if \<not> verify_signature P body sig (hb_operator_spk record) then None
                  else
                    let now = unwrap_or now clock in
                    if ts_skew_seconds < abs_diff (hb_ts record) now then None
                    else if hb_exp record \<le> now then None
                    else Some record)))"

section \<open>The body\<close>

text \<open>The two forms of a body: with the zone, and without.\<close>

definition heartbeat_wire :: "bytes \<Rightarrow> bytes \<Rightarrow> heartbeat_record \<Rightarrow> bytes" where
  "heartbeat_wire magic zone r = magic @ be16 (of_nat (length (hb_endpoint r))) @ hb_endpoint r @ hb_operator_spk r @
     [of_nat (length (hb_version r))] @ hb_version r @ be16 (hb_capabilities r) @ zone @ be64 (hb_ts r) @ be64 (hb_exp r)"

definition heartbeat_current :: "heartbeat_record \<Rightarrow> bytes" where
  "heartbeat_current r = heartbeat_wire HEARTBEAT_MAGIC ([of_nat (length (hb_zone r))] @ hb_zone r) r"

definition heartbeat_legacy :: "heartbeat_record \<Rightarrow> bytes" where
  "heartbeat_legacy r = heartbeat_wire LEGACY_MAGIC [] r"

definition wf_heartbeat :: "heartbeat_record \<Rightarrow> bool" where
  "wf_heartbeat r \<longleftrightarrow> validate_endpoint (hb_endpoint r) = Inr () \<and> length (hb_operator_spk r) = 32 \<and>
     length (hb_version r) \<le> 32 \<and> is_ascii (hb_version r) \<and> length (hb_zone r) \<le> 64 \<and> is_utf8 (hb_zone r) \<and>
     hb_ts r < hb_exp r"

lemma magic_lengths [simp]: "length HEARTBEAT_MAGIC = 7" "length LEGACY_MAGIC = 7" "LEGACY_MAGIC \<noteq> HEARTBEAT_MAGIC"
  by (simp_all add: HEARTBEAT_MAGIC_def LEGACY_MAGIC_def ascii_def ch_def)

lemma validate_version_ok: "validate_version v = Inr () \<longleftrightarrow> length v \<le> 32 \<and> is_ascii v"
  by (auto simp: validate_version_def const_defs)

lemma validate_zone_ok: "validate_zone z = Inr () \<longleftrightarrow> length z \<le> 64 \<and> is_ascii z \<and> \<not> list_ex bad_char z"
  by (auto simp: validate_zone_def const_defs is_ascii_def)

lemma validate_endpoint_len: "validate_endpoint e = Inr () \<Longrightarrow> 0 < length e \<and> length e \<le> 255 \<and> is_utf8 e"
  by (auto simp: validate_endpoint_def const_defs is_ascii_utf8 split: if_splits)

lemma heartbeat_to_body_ok:
  assumes "length (hb_operator_spk r) = 32"
  shows "heartbeat_to_body r = Inr b \<longleftrightarrow> wf_heartbeat r \<and> validate_zone (hb_zone r) = Inr () \<and> b = heartbeat_current r"
  using assms
  by (auto simp: heartbeat_to_body_def andThen_Inr wf_heartbeat_def heartbeat_current_def heartbeat_wire_def
      validate_version_ok validate_zone_ok is_ascii_utf8 not_le)

lemma zone_from_complete:
  assumes "from_at body off (z @ rest)" "if legacy then z = [] \<and> zone = [] else z = [of_nat (length zone)] @ zone"
    "length zone \<le> 64" "is_utf8 zone"
  shows "zone_from_body legacy body off = Inr (zone, off + length z) \<and> from_at body (off + length z) rest"
proof (cases legacy)
  case True
  then show ?thesis using assms by (simp add: zone_from_body_def)
next
  case False
  then have z: "from_at body off ([of_nat (length zone)] @ zone @ rest)" "length z = 1 + length zone"
    using assms(1,2) by simp_all
  have l: "unat (of_nat (length zone) :: byte) = length zone" using assms(3) by (intro unat_of_nat_byte) simp
  have "length [of_nat (length zone) :: byte] = 1" by simp
  note r1 = read_at_ok [OF z(1) this]
  note r2 = read_at_ok [OF r1(2) refl]
  show ?thesis using False assms(3,4) r2(2) l z(2) by (simp add: zone_from_body_def const_defs Let_def r1(1) [simplified] r2(1) [simplified])
qed

lemma zone_from_sound:
  assumes "zone_from_body legacy body off = Inr (zone, off')" "off \<le> length body"
  shows "\<exists>z. (if legacy then z = [] \<and> zone = [] else z = [of_nat (length zone)] @ zone) \<and>
    length zone \<le> 64 \<and> is_utf8 zone \<and> drop off body = z @ drop off' body \<and> off' \<le> length body"
proof (cases legacy)
  case True
  then show ?thesis using assms by (auto simp: zone_from_body_def is_utf8_def)
next
  case False
  then obtain c o1 where r1: "read_at HbBodyTruncated 1 body off = Inr (c, o1)"
    and r2: "read_at HbBodyTruncated (unat (c ! 0)) body o1 = Inr (zone, off')"
    and u: "unat (c ! 0) \<le> 64" "is_utf8 zone"
    using assms by (auto simp: zone_from_body_def andThen_Inr Let_def const_defs split: if_splits)
  have "c = [of_nat (length zone)]" using one_byte [OF read_at_Inr(2) [OF r1]] read_at_Inr(2) [OF r2] by metis
  moreover have "drop off body = c @ zone @ drop off' body" "off' \<le> length body"
    using read_at_Inr(3) [OF r1] read_at_Inr(3,4) [OF r2] by (simp_all add: from_at_def)
  ultimately show ?thesis using False u read_at_Inr(2) [OF r2] by simp
qed

lemma heartbeat_from_complete:
  assumes wf: "wf_heartbeat r" and b: "(magic = HEARTBEAT_MAGIC \<and> z = [of_nat (length (hb_zone r))] @ hb_zone r) \<or>
    (magic = LEGACY_MAGIC \<and> z = [] \<and> hb_zone r = [])"
  shows "heartbeat_from_body (heartbeat_wire magic z r) = Inr r"
proof -
  let ?b = "heartbeat_wire magic z r" and ?e = "hb_endpoint r" and ?v = "hb_version r"
  let ?legacy = "magic \<noteq> HEARTBEAT_MAGIC" and ?t = "be64 (hb_ts r) @ be64 (hb_exp r)"
  note w = wf [unfolded wf_heartbeat_def]
  have e: "0 < length ?e" "length ?e \<le> 255" "is_utf8 ?e" using w validate_endpoint_len by blast+
  have m: "length magic = 7" "magic = HEARTBEAT_MAGIC \<or> magic = LEGACY_MAGIC" using b by auto
  have a0: "from_at ?b 9 (?e @ hb_operator_spk r @ [of_nat (length ?v)] @ ?v @ be16 (hb_capabilities r) @ z @ ?t)"
    using from_at_append [of "magic @ be16 (of_nat (length ?e))" 9] m by (simp add: heartbeat_wire_def)
  note r1 = read_at_ok [OF a0 refl]
  have "length (hb_operator_spk r) = 32" using w by blast
  note r2 = read_at_ok [OF r1(2) this]
  have "length [of_nat (length ?v) :: byte] = 1" by simp
  note r3 = read_at_ok [OF r2(2) this]
  note r4 = read_at_ok [OF r3(2) refl]
  note r5 = read_at_ok [OF r4(2) length_be(1)]
  have "if ?legacy then z = [] \<and> hb_zone r = [] else z = [of_nat (length (hb_zone r))] @ hb_zone r"
    using b by auto
  with zone_from_complete [OF r5(2)] w
  have r6: "zone_from_body ?legacy ?b (9 + length ?e + 32 + 1 + length ?v + 2) =
      Inr (hb_zone r, 9 + length ?e + 32 + 1 + length ?v + 2 + length z)"
    and a6: "from_at ?b (9 + length ?e + 32 + 1 + length ?v + 2 + length z) ?t"
    by blast+
  have a6': "from_at ?b (9 + length ?e + 32 + 1 + length ?v + 2 + length z) (?t @ [])" using a6 by simp
  have "length ?t = 16" by simp
  note r7 = read_at_ok [OF a6' this]
  have len: "length ?b = 9 + length ?e + 32 + 1 + length ?v + 2 + length z + 16"
    using w m(1) by (simp add: heartbeat_wire_def)
  have hd: "take 7 ?b = magic" "segment 7 9 ?b = be16 (of_nat (length ?e))"
    using m(1) by (simp_all add: heartbeat_wire_def segment_append segment_full)
  have ver: "unat (of_nat (length ?v) :: byte) = length ?v" "(32 < length ?v) = False" "is_utf8 ?v"
    "validate_version ?v = Inr ()" "validate_endpoint ?e = Inr ()" "(hb_exp r \<le> hb_ts r) = False"
    using w unat_of_nat_byte [of "length ?v"] by (auto simp: is_ascii_utf8 validate_version_ok)
  have el: "unat (read16 (be16 (of_nat (length ?e)))) = length ?e" using e by (intro be16_length) simp
  then have nz: "read16 (be16 (of_nat (length ?e))) \<noteq> 0" using e(1) by (metis less_irrefl unat_0)
  have c: "(length ?b < 7 + 2) = False" "(magic \<noteq> HEARTBEAT_MAGIC \<and> magic \<noteq> LEGACY_MAGIC) = False"
    "(read16 (be16 (of_nat (length ?e))) = 0 \<or> 255 < length ?e) = False"
    using len m(2) e(2) nz by auto
  have t: "read64 (take 8 ?t) = hb_ts r" "read64 (drop 8 ?t) = hb_exp r" "read16 (be16 (hb_capabilities r)) = hb_capabilities r"
    by simp_all
  have end_at: "(9 + length ?e + 32 + 1 + length ?v + 2 + length z + 16 \<noteq> length ?b) = False" using len by simp
  show ?thesis
    unfolding heartbeat_from_body_def Let_def const_defs hd
    by (simp only: c el r1(1) r2(1) r3(1) r4(1) r5(1) r6 r7(1) andThen_simps prod.case nth_Cons_0 ver e(3) end_at t
        if_False not_True_eq_False) simp
qed

lemma heartbeat_from_sound:
  assumes "heartbeat_from_body b = Inr r"
  shows "wf_heartbeat r \<and> (b = heartbeat_current r \<or> hb_zone r = [] \<and> b = heartbeat_legacy r)"
proof -
  let ?legacy = "take 7 b \<noteq> HEARTBEAT_MAGIC"
  obtain e o1 k o2 v o3 ver o4 caps o5 zone o6 t where
    r: "read_at HbBodyTruncated (unat (read16 (segment 7 9 b))) b 9 = Inr (e, o1)"
      "read_at HbBodyTruncated 32 b o1 = Inr (k, o2)"
      "read_at HbBodyTruncated 1 b o2 = Inr (v, o3)"
      "read_at HbBodyTruncated (unat (v ! 0)) b o3 = Inr (ver, o4)"
      "read_at HbBodyTruncated 2 b o4 = Inr (caps, o5)"
    and z: "zone_from_body ?legacy b o5 = Inr (zone, o6)"
    and r7: "read_at HbBodyTruncated 16 b o6 = Inr (t, length b)"
    and long: "9 \<le> length b" and magic: "take 7 b = HEARTBEAT_MAGIC \<or> take 7 b = LEGACY_MAGIC"
    and c: "validate_endpoint e = Inr ()" "validate_version ver = Inr ()" "read64 (take 8 t) < read64 (drop 8 t)"
    and rec: "r = \<lparr> hb_endpoint = e, hb_operator_spk = k, hb_version = ver, hb_ts = read64 (take 8 t),
       hb_exp = read64 (drop 8 t), hb_capabilities = read16 caps, hb_zone = zone \<rparr>"
    using assms unfolding heartbeat_from_body_def Let_def const_defs
    by (auto simp: andThen_Inr not_le split: if_splits)
  note a = r [THEN read_at_Inr(3), unfolded from_at_def, THEN conjunct2]
    and l = r [THEN read_at_Inr(2)] read_at_Inr(2) [OF r7]
  have "o5 \<le> length b" using read_at_Inr(4) [OF r(5)] by (simp add: from_at_def)
  from zone_from_sound [OF z this] obtain zb where
    zb: "if ?legacy then zb = [] \<and> zone = [] else zb = [of_nat (length zone)] @ zone" "length zone \<le> 64" "is_utf8 zone"
    "drop o5 b = zb @ drop o6 b" by blast
  have t: "drop o6 b = t" using read_at_Inr(3) [OF r7] by (simp add: from_at_def)
  have "t = take 8 t @ drop 8 t" by simp
  moreover have "length (take 8 t) = 8" "length (drop 8 t) = 8" using l(6) by simp_all
  ultimately have tt: "t = be64 (hb_ts r) @ be64 (hb_exp r)" by (simp add: rec be_read)
  have v: "v = [of_nat (length ver)]" using one_byte [OF l(3)] l(4) by metis
  have cp: "caps = be16 (hb_capabilities r)" using l(5) by (simp add: rec be_read)
  have "length (segment 7 9 b) = 2" using long by simp
  then have el: "segment 7 9 b = be16 (of_nat (length e))" using two_bytes l(1) by metis
  have d: "drop 9 b = e @ k @ v @ ver @ caps @ zb @ t" by (simp only: a zb(4) t)
  have "b = take 7 b @ segment 7 9 b @ drop 9 b"
    unfolding take_segment using long by (simp add: segment_join) (simp add: take_segment [symmetric])
  then have "b = take 7 b @ be16 (of_nat (length e)) @ e @ k @ [of_nat (length ver)] @ ver @ be16 (hb_capabilities r) @
      zb @ be64 (hb_ts r) @ be64 (hb_exp r)"
    unfolding d el tt [symmetric] v [symmetric] cp [symmetric] .
  then have "b = heartbeat_wire (take 7 b) zb r"
    unfolding heartbeat_wire_def by (simp only: rec heartbeat_record.simps)
  moreover have "wf_heartbeat r" using c zb l(2) by (simp add: wf_heartbeat_def rec validate_version_ok)
  ultimately show ?thesis
    using magic zb(1) by (cases ?legacy) (auto simp: heartbeat_current_def heartbeat_legacy_def rec)
qed

section \<open>Signing and verification\<close>

definition heartbeat_fresh :: "u64 \<times> u64 \<Rightarrow> heartbeat_record \<Rightarrow> bool" where
  "heartbeat_fresh k r = (case k of (now, skew) \<Rightarrow>
     unat (hb_ts r) \<le> unat now + unat skew \<and> unat now \<le> unat (hb_ts r) + unat skew \<and> unat now < unat (hb_exp r))"

definition heartbeat_accept :: "prims \<Rightarrow> u64 \<times> u64 \<Rightarrow> rstr \<Rightarrow> heartbeat_record option" where
  "heartbeat_accept P k w = (case k of (now, skew) \<Rightarrow> heartbeat_parse_and_verify P now w (Some now) skew)"

lemma heartbeat_fresh_iff:
  "heartbeat_fresh (now, skew) r \<longleftrightarrow> \<not> skew < abs_diff (hb_ts r) now \<and> \<not> hb_exp r \<le> now"
  by (auto simp: heartbeat_fresh_def word_less_nat_alt word_le_nat_alt unat_abs_diff)

lemma heartbeat_parse:
  assumes P: "b64_codec P"
  shows "heartbeat_parse_and_verify P clock w now skew = Some r \<longleftrightarrow> length w \<le> 1200 \<and>
    heartbeat_fresh (unwrap_or now clock, skew) r \<and>
    (\<exists>body sig. w = seal P HEARTBEAT_PREFIX (body @ sig) \<and> length sig = 64 \<and>
       heartbeat_from_body body = Inr r \<and> verify_signature P body sig (hb_operator_spk r))"
proof -
  let ?R = "\<lambda>body sig. heartbeat_from_body body = Inr r \<and> verify_signature P body sig (hb_operator_spk r)"
  have long: "61 \<le> length body" if "heartbeat_from_body body = Inr r" for body
    using heartbeat_from_sound [OF that] validate_endpoint_len [of "hb_endpoint r"]
    by (auto simp: wf_heartbeat_def heartbeat_current_def heartbeat_legacy_def heartbeat_wire_def Suc_le_eq)
  have "heartbeat_parse_and_verify P clock w now skew = Some r \<longleftrightarrow>
      length w \<le> 1200 \<and> heartbeat_fresh (unwrap_or now clock, skew) r \<and>
      (\<exists>blob. w = seal P HEARTBEAT_PREFIX blob \<and> 61 + 64 \<le> length blob \<and>
        ?R (take (length blob - 64) blob) (drop (length blob - 64) blob))" (is "?l \<longleftrightarrow> ?r")
  proof
    assume ?l
    then show ?r
      by (auto simp: heartbeat_parse_and_verify_def Let_def unseal_Some [OF P] const_defs heartbeat_fresh_iff
          split: option.splits if_splits)
  next
    assume ?r
    then obtain blob where b: "w = seal P HEARTBEAT_PREFIX blob" "125 \<le> length blob"
      "?R (take (length blob - 64) blob) (drop (length blob - 64) blob)" "length w \<le> 1200"
      and fresh: "heartbeat_fresh (unwrap_or now clock, skew) r" by auto
    have "starts_with HEARTBEAT_PREFIX w" using b(1) by (simp add: seal_def)
    moreover have "unseal P HEARTBEAT_PREFIX w = Some blob" using b(1) by (simp add: unseal_Some [OF P])
    moreover have "\<not> is_low_order (hb_operator_spk r)" using b(3) verify_signature_lengths by blast
    ultimately show ?l
      using b fresh by (auto simp: heartbeat_parse_and_verify_def const_defs Let_def heartbeat_fresh_iff)
  qed
  then show ?thesis
    unfolding signed_blob [of "\<lambda>blob. w = seal P HEARTBEAT_PREFIX blob" 61 ?R] using long by blast
qed

interpretation heartbeat: signed_record wf_heartbeat heartbeat_to_body heartbeat_from_body
  HEARTBEAT_PREFIX "\<lambda>r. length r \<le> 1200" "\<lambda>_. hb_operator_spk" heartbeat_fresh heartbeat_sign heartbeat_accept
proof unfold_locales
  fix b r
  assume "heartbeat_from_body b = Inr r"
  then show "wf_heartbeat r" using heartbeat_from_sound by blast
next
  fix r b
  assume r: "wf_heartbeat r" "heartbeat_to_body r = Inr b"
  then have "b = heartbeat_current r" using heartbeat_to_body_ok [of r b] by (simp add: wf_heartbeat_def)
  then show "heartbeat_from_body b = Inr r"
    using heartbeat_from_complete [OF r(1)] by (simp add: heartbeat_current_def)
next
  fix P x me r
  assume "heartbeat_sign P x me = Inr r"
  then show "\<exists>body. heartbeat_to_body x = Inr body \<and>
      r = seal P HEARTBEAT_PREFIX (body @ sign_data P me body) \<and> length r \<le> 1200"
    by (auto simp: heartbeat_sign_def Let_def andThen_Inr const_defs split: if_splits)
next
  fix P and k :: "u64 \<times> u64" and r x
  assume P: "b64_codec P"
  obtain now skew where k: "k = (now, skew)" by (cases k)
  show "(heartbeat_accept P k r = Some x) = (length r \<le> 1200 \<and> heartbeat_fresh k x \<and>
      (\<exists>body sig. r = seal P HEARTBEAT_PREFIX (body @ sig) \<and> length sig = 64 \<and>
        heartbeat_from_body body = Inr x \<and> verify_signature P body sig (hb_operator_spk x)))"
    unfolding heartbeat_accept_def k prod.case heartbeat_parse [OF P] by (simp add: unwrap_or_def)
qed

section \<open>Properties\<close>

text \<open>The two forms of a heartbeat body. A body parses to a record if and only if the record is well formed and
  the body is its current form, with the zone, or, when the zone is empty, its legacy form;
  the serialiser writes the current form of every parsed record, unless the zone is one
  that it refuses, which the parser does not check.\<close>

theorem heartbeat_body_exact:
  "(heartbeat_from_body b = Inr r) =
     (wf_heartbeat r \<and> (b = heartbeat_current r \<or> hb_zone r = [] \<and> b = heartbeat_legacy r)) \<and>
   (heartbeat_from_body b = Inr r \<longrightarrow> heartbeat_to_body r = andThen (validate_zone (hb_zone r)) (\<lambda>_. Inr (heartbeat_current r)))"
proof -
  have "heartbeat_from_body b = Inr r \<longleftrightarrow> wf_heartbeat r \<and> (b = heartbeat_current r \<or> hb_zone r = [] \<and> b = heartbeat_legacy r)"
    using heartbeat_from_sound [of b r] heartbeat_from_complete [of r HEARTBEAT_MAGIC]
      heartbeat_from_complete [of r LEGACY_MAGIC "[]"]
    by (auto simp: heartbeat_current_def heartbeat_legacy_def)
  moreover have "heartbeat_to_body r = andThen (validate_zone (hb_zone r)) (\<lambda>_. Inr (heartbeat_current r))" if "wf_heartbeat r"
  proof -
    have "validate_version (hb_version r) = Inr ()" "validate_endpoint (hb_endpoint r) = Inr ()" "\<not> hb_exp r \<le> hb_ts r"
      using that by (auto simp: wf_heartbeat_def validate_version_ok)
    then show ?thesis by (simp add: heartbeat_to_body_def heartbeat_current_def heartbeat_wire_def)
  qed
  ultimately show ?thesis by blast
qed

text \<open>C33: A heartbeat is accepted exactly when it is authentic and fresh. \<open>parse_and_verify\<close> returns a record if
  and only if the wire has at most 1200 bytes and is the prefix and the base64 of one of the two forms of
  the record's body and a 64-byte signature valid under the operator key in the record, its
  timestamp is at most the skew away from the clock in either direction (as numbers, without
  wrap-around), and it has not expired.\<close>

theorem heartbeat_authentic:
  assumes "b64_codec P"
  shows "heartbeat_parse_and_verify P clock w now skew = Some r \<longleftrightarrow> length w \<le> 1200 \<and> wf_heartbeat r \<and>
    (\<exists>body sig. (body = heartbeat_current r \<or> hb_zone r = [] \<and> body = heartbeat_legacy r) \<and> length sig = 64 \<and>
       w = seal P HEARTBEAT_PREFIX (body @ sig) \<and> verify_signature P body sig (hb_operator_spk r)) \<and>
    unat (hb_ts r) \<le> unat (unwrap_or now clock) + unat skew \<and> unat (unwrap_or now clock) \<le> unat (hb_ts r) + unat skew \<and>
    unat (unwrap_or now clock) < unat (hb_exp r)"
proof -
  have "heartbeat_from_body b = Inr r \<longleftrightarrow> wf_heartbeat r \<and> (b = heartbeat_current r \<or> hb_zone r = [] \<and> b = heartbeat_legacy r)" for b
    using heartbeat_from_sound [of b r] heartbeat_from_complete [of r HEARTBEAT_MAGIC]
      heartbeat_from_complete [of r LEGACY_MAGIC "[]"]
    by (auto simp: heartbeat_current_def heartbeat_legacy_def)
  then show ?thesis unfolding heartbeat_parse [OF assms] heartbeat_fresh_def prod.case by blast
qed

definition demo_heartbeat :: heartbeat_record where
  "demo_heartbeat = \<lparr> hb_endpoint = ascii ''HTTP://g:8'', hb_operator_spk = verifying_key demo_key, hb_version = ascii ''1'',
     hb_ts = 50, hb_exp = 90, hb_capabilities = 1, hb_zone = [] \<rparr>"

lemma demo_heartbeat: "wf_heartbeat demo_heartbeat" "heartbeat_to_body demo_heartbeat = Inr (heartbeat_current demo_heartbeat)"
  "length (heartbeat_current demo_heartbeat) = 72"
proof -
  show wf: "wf_heartbeat demo_heartbeat"
    using demo_endpoint demo_key(2) by (simp add: wf_heartbeat_def demo_heartbeat_def is_ascii_def is_utf8_def ascii_def ch_def)
  have "validate_zone (hb_zone demo_heartbeat) = Inr ()" by (simp add: demo_heartbeat_def validate_zone_ok is_ascii_def)
  with wf show "heartbeat_to_body demo_heartbeat = Inr (heartbeat_current demo_heartbeat)"
    using heartbeat_to_body_ok [of demo_heartbeat] by (simp add: wf_heartbeat_def)
  show "length (heartbeat_current demo_heartbeat) = 72"
    using demo_key(2) by (simp add: heartbeat_current_def heartbeat_wire_def demo_heartbeat_def ascii_def)
qed

lemma demo_heartbeat_sign: "\<exists>w. heartbeat_sign demo_prims demo_heartbeat demo_key = Inr w"
proof -
  have "length (sign_data demo_prims demo_key x) = 64" for x
    by (rule sign_verifies(2) [OF demo_ed25519 demo_digest demo_key(1)])
  then have "length (seal demo_prims HEARTBEAT_PREFIX (heartbeat_current demo_heartbeat @ sign_data demo_prims demo_key x)) \<le> 1200" for x
    using demo_b64_length demo_heartbeat(3) by (simp add: seal_def b64_length_def HEARTBEAT_PREFIX_def ascii_def)
  moreover have "verifying_key demo_key = hb_operator_spk demo_heartbeat" by (simp add: demo_heartbeat_def)
  ultimately show ?thesis
    using demo_heartbeat(2) by (simp add: heartbeat_sign_def Let_def const_defs not_less)
qed

theorem heartbeat_authentic_witness:
  "\<exists>w. heartbeat_sign demo_prims demo_heartbeat demo_key = Inr w \<and>
     heartbeat_parse_and_verify demo_prims 0 w (Some 60) 300 = Some demo_heartbeat \<and>
     heartbeat_parse_and_verify demo_prims 0 w (Some 60) 9 \<noteq> Some demo_heartbeat"
proof -
  obtain w where w: "heartbeat_sign demo_prims demo_heartbeat demo_key = Inr w" using demo_heartbeat_sign by blast
  then have e: "w = seal demo_prims HEARTBEAT_PREFIX (heartbeat_current demo_heartbeat @
      sign_data demo_prims demo_key (heartbeat_current demo_heartbeat))" "length w \<le> 1200"
    by (auto simp: heartbeat_sign_def andThen_Inr Let_def const_defs demo_heartbeat(2) split: if_splits)
  note s = sign_verifies(1,2) [OF demo_ed25519 demo_digest demo_key(1), of "heartbeat_current demo_heartbeat"]
  have k: "hb_operator_spk demo_heartbeat = verifying_key demo_key" "unat (hb_ts demo_heartbeat) = 50" "unat (hb_exp demo_heartbeat) = 90"
    by (simp_all add: demo_heartbeat_def)
  show ?thesis
    using w e s k demo_heartbeat(1) heartbeat_authentic [OF demo_b64, of 0 w "Some 60" 300 demo_heartbeat]
      heartbeat_authentic [OF demo_b64, of 0 w "Some 60" 9 demo_heartbeat]
    by (auto simp: unwrap_or_def)
qed

theorem heartbeat_body_exact_witness:
  "heartbeat_from_body (heartbeat_legacy demo_heartbeat) = Inr demo_heartbeat \<and>
   heartbeat_to_body demo_heartbeat = Inr (heartbeat_current demo_heartbeat)"
  using heartbeat_body_exact [of "heartbeat_legacy demo_heartbeat" demo_heartbeat] demo_heartbeat(1,2)
  by (simp add: demo_heartbeat_def)

end
