(* ===== verification/RecordStore.thy ===== *)
theory RecordStore
  imports Reader "HOL-Library.AList" "HOL-Library.List_Lexorder"
begin

text \<open>
  The in-memory TXT record store of \<open>memory.rs\<close>. A \<open>HashMap\<close> of record sets is an association list
  with distinct names, whose order the code never observes; the system clock is an argument. The
  abstract state of a store is the map from a name and a value to the expiry of the value; the
  locale \<open>txt_store\<close> says what a store promises in these terms, and \<open>InMemoryDnsStore\<close> is
  its interpretation.
\<close>

section \<open>The code\<close>

text \<open>The errors of the backends, \<open>error.rs\<close>; messages written for people are strings.\<close>

datatype tsig_error =
    EmptyName
  | EmptySecret
  | InvalidKeyName rstr string
  | UnsupportedAlgorithm rstr
  | SignerInit string

datatype net_error =
    InvalidConfig string
  | InvalidHost rstr string
  | InvalidPort int string
  | InvalidName rstr string
  | NoUsableAnswer
  | UpdateRejected rstr string string
  | WriteFailed string
  | Transport string
  | Tsig tsig_error

record entry =
  e_value :: rstr
  e_expires :: u64

type_synonym mem_store = "(rstr \<times> entry list) list"

definition mem_new :: mem_store where
  "mem_new = []"

definition entries_at :: "mem_store \<Rightarrow> rstr \<Rightarrow> entry list" where
  "entries_at s name = unwrap_or (map_of s name) []"

fun put_entry :: "rstr \<Rightarrow> u64 \<Rightarrow> entry list \<Rightarrow> entry list" where
  "put_entry value expires [] = [\<lparr> e_value = value, e_expires = expires \<rparr>]"
| "put_entry value expires (e # es) =
     (if e_value e = value then e\<lparr>e_expires := expires\<rparr> # es else e # put_entry value expires es)"

definition mem_publish :: "u64 \<Rightarrow> rstr \<Rightarrow> rstr \<Rightarrow> u32 \<Rightarrow> mem_store \<Rightarrow> (net_error + bool) \<times> mem_store" where
  "mem_publish now name value ttl_seconds s =
     (let expires = sat_add now (ucast ttl_seconds)
      in (Inr True, AList.update name (put_entry value expires (entries_at s name)) s))"

definition mem_delete :: "rstr \<Rightarrow> rstr option \<Rightarrow> mem_store \<Rightarrow> (net_error + bool) \<times> mem_store" where
  "mem_delete name value s =
     (case map_of s name of
        None \<Rightarrow> (Inr False, s)
      | Some entries \<Rightarrow>
          (case value of
             None \<Rightarrow> (Inr True, AList.delete name s)
           | Some v \<Rightarrow>
               let before = length entries; entries = filter (\<lambda>e. e_value e \<noteq> v) entries;
                   removed = (length entries \<noteq> before)
               in (Inr removed, if entries = [] then AList.delete name s else AList.update name entries s)))"

definition mem_query :: "u64 \<Rightarrow> rstr \<Rightarrow> mem_store \<Rightarrow> net_error + rstr list option" where
  "mem_query now name s =
     (case map_of s name of
        None \<Rightarrow> Inr None
      | Some entries \<Rightarrow>
          let live = map e_value (filter (\<lambda>e. now < e_expires e) entries)
          in if live = [] then Inr None else Inr (Some live))"

definition mem_list_names :: "u64 \<Rightarrow> mem_store \<Rightarrow> rstr list" where
  "mem_list_names now s = sort (map fst (filter (\<lambda>(_, es). list_ex (\<lambda>e. now < e_expires e) es) s))"

definition mem_clear :: "mem_store \<Rightarrow> mem_store" where
  "mem_clear s = []"

section \<open>What a store promises\<close>

lemma len64: "LENGTH(64) = 64"
  by simp

lemma unat_ucast_u32: "unat (ucast (ttl :: u32) :: u64) = unat ttl"
proof -
  have "unat ttl < 2 ^ 32" using unsigned_less [of ttl] by simp
  also have "\<dots> < 2 ^ 64" by simp
  finally show ?thesis by (simp only: unsigned_ucast_eq len64 take_bit_nat_eq_self)
qed

type_synonym live_map = "rstr \<times> rstr \<rightharpoonup> u64"

definition live_at :: "u64 \<Rightarrow> live_map \<Rightarrow> rstr \<Rightarrow> rstr set" where
  "live_at now m name = {v. \<exists>x. m (name, v) = Some x \<and> now < x}"

text \<open>The keys that a deletion covers.\<close>

definition covers :: "rstr \<Rightarrow> rstr option \<Rightarrow> rstr \<times> rstr \<Rightarrow> bool" where
  "covers name value k \<longleftrightarrow> fst k = name \<and> (\<forall>v. value = Some v \<longrightarrow> snd k = v)"

text \<open>What an answer says about a set of values.\<close>

definition answers :: "'e + rstr list option \<Rightarrow> rstr set \<Rightarrow> bool" where
  "answers r vs \<longleftrightarrow> (if vs = {} then r = Inr None else (\<exists>l. r = Inr (Some l) \<and> distinct l \<and> set l = vs))"

lemma answers_member: "answers r vs \<Longrightarrow> v \<in> vs \<Longrightarrow> \<exists>l. r = Inr (Some l) \<and> v \<in> set l"
  by (auto simp: answers_def split: if_splits)

datatype store_op = Publish rstr rstr u32 | Delete rstr "rstr option"

locale txt_store =
  fixes inv :: "'s \<Rightarrow> bool"
    and abs :: "'s \<Rightarrow> live_map"
    and publish :: "u64 \<Rightarrow> rstr \<Rightarrow> rstr \<Rightarrow> u32 \<Rightarrow> 's \<Rightarrow> ('e + bool) \<times> 's"
    and delete :: "rstr \<Rightarrow> rstr option \<Rightarrow> 's \<Rightarrow> ('e + bool) \<times> 's"
    and query :: "u64 \<Rightarrow> rstr \<Rightarrow> 's \<Rightarrow> 'e + rstr list option"
  assumes publish_abs: "inv s \<Longrightarrow> inv (snd (publish now n v ttl s)) \<and>
      abs (snd (publish now n v ttl s)) = (abs s)((n, v) \<mapsto> sat_add now (ucast ttl))"
    and delete_abs: "inv s \<Longrightarrow> inv (snd (delete n w s)) \<and>
      abs (snd (delete n w s)) = (\<lambda>k. if covers n w k then None else abs s k)"
    and query_abs: "inv s \<Longrightarrow> answers (query now n s) (live_at now (abs s) n)"
begin

fun step :: "u64 \<times> store_op \<Rightarrow> 's \<Rightarrow> 's" where
  "step (now, Publish n v ttl) s = snd (publish now n v ttl s)"
| "step (now, Delete n w) s = snd (delete n w s)"

text \<open>An operation that leaves a key alone.\<close>

fun spares :: "rstr \<times> rstr \<Rightarrow> u64 \<times> store_op \<Rightarrow> bool" where
  "spares k (now, Publish n v ttl) \<longleftrightarrow> k \<noteq> (n, v)"
| "spares k (now, Delete n w) \<longleftrightarrow> \<not> covers n w k"

lemma step_spares: "inv s \<Longrightarrow> inv (step o1 s) \<and> (spares k o1 \<longrightarrow> abs (step o1 s) k = abs s k)"
  by (cases o1; cases "snd o1") (use publish_abs delete_abs in auto)

lemma run_spares:
  "inv s \<Longrightarrow> inv (fold step ops s) \<and> (list_all (spares k) ops \<longrightarrow> abs (fold step ops s) k = abs s k)"
proof (induction ops arbitrary: s)
  case (Cons o1 ops)
  show ?case using Cons.IH [of "step o1 s"] step_spares [OF Cons.prems, of o1 k] by simp
qed simp

text \<open>A published value is in every answer until it expires, whatever else happens to the store.\<close>

lemma published_stays:
  assumes "inv s" "list_all (spares (n, v)) ops" "unat t < unat now + unat ttl" "unat t < 2 ^ 64 - 1"
  shows "\<exists>l. query t n (fold step ops (snd (publish now n v ttl s))) = Inr (Some l) \<and> v \<in> set l"
proof -
  let ?s = "fold step ops (snd (publish now n v ttl s))"
  note p = publish_abs [OF assms(1), of now n v ttl]
  have r: "inv ?s" "abs ?s (n, v) = Some (sat_add now (ucast ttl))"
    using run_spares [of "snd (publish now n v ttl s)" ops "(n, v)"] p assms(2) by simp_all
  note u = unat_ucast_u32 [of ttl]
  have "unat t < unat (sat_add now (ucast ttl))" using assms(3,4) by (simp only: unat_sat_add u min_less_iff_conj)
  then have "t < sat_add now (ucast ttl)" by (simp add: word_less_nat_alt)
  with r(2) have "v \<in> live_at t (abs ?s) n" by (simp add: live_at_def)
  with query_abs [OF r(1), of t n] show ?thesis by (rule answers_member)
qed

end

section \<open>The in-memory store keeps the promise\<close>

definition mem_inv :: "mem_store \<Rightarrow> bool" where
  "mem_inv s \<longleftrightarrow> distinct (map fst s) \<and>
     (\<forall>n es. map_of s n = Some es \<longrightarrow> es \<noteq> [] \<and> distinct (map e_value es))"

definition expiry_of :: "entry list \<Rightarrow> rstr \<rightharpoonup> u64" where
  "expiry_of es = map_of (map (\<lambda>e. (e_value e, e_expires e)) es)"

definition mem_abs :: "mem_store \<Rightarrow> live_map" where
  "mem_abs s = (\<lambda>(n, v). expiry_of (entries_at s n) v)"

lemma expiry_put: "expiry_of (put_entry v x es) = (expiry_of es)(v \<mapsto> x)"
  by (induction es) (auto simp: expiry_of_def)

lemma put_entry_inv:
  "put_entry v x es \<noteq> [] \<and> set (map e_value (put_entry v x es)) = insert v (set (map e_value es)) \<and>
   (distinct (map e_value es) \<longrightarrow> distinct (map e_value (put_entry v x es)))"
  by (induction es) auto

lemma expiry_filter: "expiry_of (filter (\<lambda>e. e_value e \<noteq> v) es) = (expiry_of es)(v := None)"
  by (induction es) (auto simp: expiry_of_def)

lemma expiry_dom: "expiry_of es v = Some x \<Longrightarrow> v \<in> e_value ` set es"
  by (auto simp: expiry_of_def dest!: map_of_SomeD)

lemma entries_update: "entries_at (AList.update n es s) m = (if m = n then es else entries_at s m)"
  by (simp add: entries_at_def update_conv' unwrap_or_def)

lemma entries_delete: "entries_at (AList.delete n s) m = (if m = n then [] else entries_at s m)"
  by (simp add: entries_at_def delete_conv' unwrap_or_def)

lemma mem_inv_entries: "mem_inv s \<Longrightarrow> distinct (map e_value (entries_at s n))"
  by (auto simp: mem_inv_def entries_at_def unwrap_or_def split: option.splits)

lemma mem_inv_update: "mem_inv s \<Longrightarrow> es \<noteq> [] \<Longrightarrow> distinct (map e_value es) \<Longrightarrow> mem_inv (AList.update n es s)"
  by (auto simp: mem_inv_def distinct_update update_conv' simp del: map_of_eq_Some_iff split: if_splits)

lemma mem_inv_delete: "mem_inv s \<Longrightarrow> mem_inv (AList.delete n s)"
  by (auto simp: mem_inv_def distinct_delete delete_conv' simp del: map_of_eq_Some_iff split: if_splits)

lemma mem_publish_refines:
  assumes "mem_inv s"
  shows "mem_inv (snd (mem_publish now n v ttl s)) \<and>
    mem_abs (snd (mem_publish now n v ttl s)) = (mem_abs s)((n, v) \<mapsto> sat_add now (ucast ttl))"
  using assms put_entry_inv [of v] mem_inv_entries [OF assms]
  by (auto simp: mem_publish_def Let_def mem_abs_def entries_update expiry_put fun_eq_iff intro!: mem_inv_update)

lemma mem_delete_refines:
  assumes "mem_inv s"
  shows "mem_inv (snd (mem_delete n w s)) \<and>
    mem_abs (snd (mem_delete n w s)) = (\<lambda>k. if covers n w k then None else mem_abs s k) \<and>
    fst (mem_delete n w s) = Inr (\<exists>k. covers n w k \<and> mem_abs s k \<noteq> None)"
proof (cases "map_of s n")
  case None
  then show ?thesis using assms by (auto simp: mem_delete_def mem_abs_def covers_def entries_at_def unwrap_or_def expiry_of_def)
next
  case (Some es)
  note es = assms [unfolded mem_inv_def, THEN conjunct2, rule_format, OF Some]
  have at: "entries_at s n = es" using Some by (simp add: entries_at_def unwrap_or_def)
  have dom: "expiry_of es v \<noteq> None \<longleftrightarrow> v \<in> e_value ` set es" for v
    by (auto simp: expiry_of_def map_of_eq_None_iff image_image)
  show ?thesis
  proof (cases w)
    case None
    obtain e es' where "es = e # es'" using es by (cases es) auto
    then have "e_value e \<in> e_value ` set es" by simp
    then have "expiry_of es (e_value e) \<noteq> None" by (simp only: dom)
    then show ?thesis using Some None at assms
      by (auto simp: mem_delete_def covers_def mem_abs_def entries_delete mem_inv_delete expiry_of_def fun_eq_iff)
  next
    case w: (Some v)
    let ?es = "filter (\<lambda>e. e_value e \<noteq> v) es"
    have d: "distinct (map e_value ?es)" using es by (simp add: distinct_map_filter)
    have ch: "length ?es \<noteq> length es \<longleftrightarrow> v \<in> e_value ` set es"
      by (metis (mono_tags, lifting) filter_True filter_id_conv image_iff length_filter_less less_irrefl)
    let ?s = "if ?es = [] then AList.delete n s else AList.update n ?es s"
    have del: "mem_delete n w s = (Inr (length ?es \<noteq> length es), ?s)" using Some w by (simp add: mem_delete_def Let_def)
    have "mem_inv ?s" using assms d by (simp add: mem_inv_delete mem_inv_update)
    moreover have "entries_at ?s m = (if m = n then ?es else entries_at s m)" for m
      by (simp add: entries_delete entries_update)
    then have "mem_abs ?s = (\<lambda>k. if covers n w k then None else mem_abs s k)"
      using w at expiry_filter [of v es] by (auto simp: mem_abs_def covers_def fun_eq_iff)
    moreover have "(\<exists>k. covers n w k \<and> mem_abs s k \<noteq> None) \<longleftrightarrow> length ?es \<noteq> length es"
      unfolding ch dom [of v, symmetric] using w at by (auto simp: covers_def mem_abs_def)
    ultimately show ?thesis unfolding del by simp
  qed
qed

lemma mem_query_answers:
  assumes "mem_inv s"
  shows "answers (mem_query now n s) (live_at now (mem_abs s) n)"
proof -
  let ?es = "entries_at s n"
  have d: "distinct (map e_value ?es)" by (rule mem_inv_entries [OF assms])
  have "expiry_of es v = Some x \<longleftrightarrow> (\<exists>e \<in> set es. e_value e = v \<and> e_expires e = x)"
    if "distinct (map e_value es)" for es v x
    using that by (force simp: expiry_of_def map_of_eq_Some_iff comp_def)
  then have set: "live_at now (mem_abs s) n = set (map e_value (filter (\<lambda>e. now < e_expires e) ?es))"
    using d by (auto simp: live_at_def mem_abs_def)
  have q: "mem_query now n s = (let live = map e_value (filter (\<lambda>e. now < e_expires e) ?es)
      in if live = [] then Inr None else Inr (Some live))"
    by (simp add: mem_query_def entries_at_def unwrap_or_def split: option.split)
  show ?thesis using d unfolding set q by (auto simp: answers_def Let_def distinct_map_filter filter_empty_conv)
qed

interpretation mem: txt_store mem_inv mem_abs mem_publish mem_delete mem_query
  by unfold_locales (simp_all add: mem_publish_refines mem_delete_refines mem_query_answers)

section \<open>Properties\<close>

text \<open>C34: The in-memory store implements a map from a name and a value to an expiry. From every state with distinct
  names and, per name, distinct values, publishing sets one entry to the time plus the
  TTL (capped at the largest \<open>u64\<close>), deleting removes exactly the entries that match and reports whether
  there were any, and a query returns, each once, exactly the values that have not
  expired, and no answer when there is none; the invariant is kept.\<close>

theorem memory_store_refines:
  assumes "mem_inv s"
  shows "mem_inv mem_new \<and> mem_abs mem_new = Map.empty \<and>
    (case mem_publish now n v ttl s of (r, s') \<Rightarrow> r = Inr True \<and> mem_inv s' \<and>
       mem_abs s' = (mem_abs s)((n, v) \<mapsto> of_nat (min (unat now + unat ttl) (2 ^ 64 - 1)))) \<and>
    (case mem_delete n w s of (r, s') \<Rightarrow> r = Inr (\<exists>k. covers n w k \<and> mem_abs s k \<noteq> None) \<and> mem_inv s' \<and>
       mem_abs s' = (\<lambda>k. if covers n w k then None else mem_abs s k)) \<and>
    answers (mem_query now n s) {u. \<exists>x. mem_abs s (n, u) = Some x \<and> now < x}"
proof -
  have "sat_add now (ucast ttl) = of_nat (min (unat now + unat ttl) (2 ^ 64 - 1))"
    using unat_sat_add [of now "ucast ttl"] unfolding unat_ucast_u32 by (metis of_nat_unat ucast_id)
  then show ?thesis
    using mem_publish_refines [OF assms, of now n v ttl] mem_delete_refines [OF assms, of n w]
      mem_query_answers [OF assms, of now n]
    by (simp add: mem_publish_def Let_def live_at_def case_prod_beta mem_new_def mem_inv_def mem_abs_def
        entries_at_def unwrap_or_def expiry_of_def fun_eq_iff)
qed

theorem memory_store_refines_witness:
  "mem_inv (snd (mem_publish 0 [1] [2] 10 (snd (mem_publish 0 [1] [3] 4 mem_new)))) \<and>
   mem_query 5 [1] (snd (mem_publish 0 [1] [2] 10 (snd (mem_publish 0 [1] [3] 4 mem_new)))) = Inr (Some [[2]])"
proof -
  have e: "mem_inv mem_new" by (simp add: mem_new_def mem_inv_def)
  have i: "mem_inv (snd (mem_publish 0 [1] [3] 4 mem_new))"
    using memory_store_refines [OF e, where now = 0 and n = "[1]" and v = "[3]" and ttl = 4] by (simp add: case_prod_beta)
  then have "mem_inv (snd (mem_publish 0 [1] [2] 10 (snd (mem_publish 0 [1] [3] 4 mem_new))))"
    using memory_store_refines [where now = 0 and n = "[1]" and v = "[2]" and ttl = 10] by (simp add: case_prod_beta)
  then show ?thesis
    by (simp add: mem_publish_def mem_query_def mem_new_def Let_def entries_at_def unwrap_or_def sat_add_def)
qed

text \<open>Whoever publishes cannot evict the values of others, but anyone can cut the life of a value short. A
  published value is in every answer until its TTL is over, after any sequence of publications of
  other values and of deletions that do not match it; but publishing the same value again with TTL
  0 takes it out of all later answers.\<close>

theorem memory_publish_stays:
  assumes "mem_inv s" "list_all (\<lambda>(_, op). case op of Publish n' v' _ \<Rightarrow> (n', v') \<noteq> (n, v) | Delete n' w \<Rightarrow> \<not> covers n' w (n, v)) ops"
    and "unat t < unat now + unat ttl" "unat t < 2 ^ 64 - 1" "t' \<le> t"
  shows "(\<exists>l. mem_query t n (fold mem.step ops (snd (mem_publish now n v ttl s))) = Inr (Some l) \<and> v \<in> set l) \<and>
    (\<forall>l. mem_query t n (snd (mem_publish t' n v 0 s)) = Inr (Some l) \<longrightarrow> v \<notin> set l)"
proof -
  have "mem.spares (n, v) = (\<lambda>(_, op). case op of Publish n' v' _ \<Rightarrow> (n', v') \<noteq> (n, v) | Delete n' w \<Rightarrow> \<not> covers n' w (n, v))"
    by (auto simp: fun_eq_iff split: store_op.splits)
  then have "list_all (mem.spares (n, v)) ops" using assms(2) by simp
  then have a: "\<exists>l. mem_query t n (fold mem.step ops (snd (mem_publish now n v ttl s))) = Inr (Some l) \<and> v \<in> set l"
    using mem.published_stays [OF assms(1), of n v ops t now ttl] assms(3,4) by simp
  let ?s = "snd (mem_publish t' n v 0 s)"
  have "mem_inv ?s" "mem_abs ?s (n, v) = Some t'"
    using mem_publish_refines [OF assms(1), of t' n v 0] by (simp_all add: sat_add_def)
  then have "v \<notin> live_at t (mem_abs ?s) n" and "answers (mem_query t n ?s) (live_at t (mem_abs ?s) n)"
    using assms(5) mem_query_answers by (auto simp: live_at_def)
  then have "\<forall>l. mem_query t n ?s = Inr (Some l) \<longrightarrow> v \<notin> set l" by (auto simp: answers_def split: if_splits)
  with a show ?thesis by blast
qed

theorem memory_publish_stays_witness:
  "\<exists>l. mem_query 5 [1] (fold mem.step [(0, Publish [1] [3] 0), (2, Delete [1] (Some [4]))]
     (snd (mem_publish 0 [1] [2] 10 mem_new))) = Inr (Some l) \<and> [2] \<in> set l"
proof -
  have "mem_inv mem_new" by (simp add: mem_new_def mem_inv_def)
  then show ?thesis
    using memory_publish_stays [of mem_new "[1]" "[2]" "[(0, Publish [1] [3] 0), (2, Delete [1] (Some [4]))]" 5 0 10 0]
    by (simp add: covers_def)
qed

lemma mem_query_entries:
  "mem_query now n s = (let live = map e_value (filter (\<lambda>e. now < e_expires e) (entries_at s n)) in if live = [] then Inr None else Inr (Some live))"
  by (simp add: mem_query_def entries_at_def unwrap_or_def split: option.split)

end
