(* ===== verification/Fanout.thy ===== *)
theory Fanout
  imports RecordStore
begin

text \<open>
  The combinators over several backends: \<open>composite_reader.rs\<close>, which asks the backends in order,
  \<open>union_reader.rs\<close>, which asks all of them and merges the answers, and \<open>fanout_writer.rs\<close>, which
  writes to all of them and reports whether enough accepted. A backend is a function; the
  futures of \<open>join_all\<close> run on separate backends, and their results come in the order of submission.
\<close>

section \<open>The code\<close>

type_synonym reader = "rstr \<Rightarrow> net_error + rstr list option"

record composite_reader =
  primary :: reader
  fallbacks :: "reader list"

definition fallback_count :: "composite_reader \<Rightarrow> nat" where
  "fallback_count self = length (fallbacks self)"

fun query_fallbacks :: "reader list \<Rightarrow> rstr \<Rightarrow> net_error + rstr list option" where
  "query_fallbacks [] name = Inr None"
| "query_fallbacks (r # rs) name =
     (case r name of
        Inr (Some values) \<Rightarrow> Inr (Some values)
      | Inr None \<Rightarrow> query_fallbacks rs name
      | Inl _ \<Rightarrow> query_fallbacks rs name)"

definition composite_query :: "composite_reader \<Rightarrow> rstr \<Rightarrow> net_error + rstr list option" where
  "composite_query self name =
     (case primary self name of
        Inr (Some values) \<Rightarrow> Inr (Some values)
      | Inr None \<Rightarrow> query_fallbacks (fallbacks self) name
      | Inl _ \<Rightarrow> query_fallbacks (fallbacks self) name)"

definition push_new :: "rstr \<Rightarrow> rstr list \<Rightarrow> rstr list" where
  "push_new value acc = (if value \<in> set acc then acc else acc @ [value])"

fun merge_results :: "(net_error + rstr list option) list \<Rightarrow> rstr list \<Rightarrow> rstr list" where
  "merge_results [] acc = acc"
| "merge_results (r # rs) acc =
     merge_results rs (case r of Inr (Some values) \<Rightarrow> fold push_new values acc | _ \<Rightarrow> acc)"

definition union_query :: "reader list \<Rightarrow> rstr \<Rightarrow> net_error + rstr list option" where
  "union_query readers name =
     (if readers = [] then Inr None
      else
        let results = map (\<lambda>r. r name) readers; acc = merge_results results []
        in if acc = [] then Inr None else Inr (Some acc))"

datatype quorum = All | Any | AtLeast nat

fun satisfied :: "quorum \<Rightarrow> nat \<Rightarrow> nat \<Rightarrow> bool" where
  "satisfied All n acks \<longleftrightarrow> acks = n"
| "satisfied Any n acks \<longleftrightarrow> 1 \<le> acks"
| "satisfied (AtLeast k) n acks \<longleftrightarrow> k \<le> acks"

fun count_acks :: "(net_error + bool) list \<Rightarrow> nat" where
  "count_acks [] = 0"
| "count_acks (Inr True # rs) = Suc (count_acks rs)"
| "count_acks (_ # rs) = count_acks rs"

definition tally :: "quorum \<Rightarrow> (net_error + bool) list \<Rightarrow> bool" where
  "tally q results = satisfied q (length results) (count_acks results)"

text \<open>A write target: what one of the writers does with the backend behind it.\<close>

type_synonym 's target = "'s \<Rightarrow> (net_error + bool) \<times> 's"

definition run_targets :: "'s target list \<Rightarrow> 's list \<Rightarrow> ((net_error + bool) \<times> 's) list" where
  "run_targets ws ss = map2 (\<lambda>w s. w s) ws ss"

definition fanout_publish :: "quorum \<Rightarrow> (rstr \<Rightarrow> rstr \<Rightarrow> u32 \<Rightarrow> 's target) list \<Rightarrow> rstr \<Rightarrow> rstr \<Rightarrow> u32 \<Rightarrow> 's list \<Rightarrow>
    (net_error + bool) \<times> 's list" where
  "fanout_publish q ws name value ttl_seconds ss =
     (let results = run_targets (map (\<lambda>w. w name value ttl_seconds) ws) ss
      in (Inr (tally q (map fst results)), map snd results))"

definition fanout_delete :: "quorum \<Rightarrow> (rstr \<Rightarrow> rstr option \<Rightarrow> 's target) list \<Rightarrow> rstr \<Rightarrow> rstr option \<Rightarrow> 's list \<Rightarrow>
    (net_error + bool) \<times> 's list" where
  "fanout_delete q ws name value ss =
     (let results = run_targets (map (\<lambda>w. w name value) ws) ss
      in (Inr (tally q (map fst results)), map snd results))"

section \<open>Merging\<close>

lemma fold_push_new: "set (fold push_new vs u) = set u \<union> set vs \<and> (distinct u \<longrightarrow> distinct (fold push_new vs u))"
  by (induction vs arbitrary: u) (auto simp: push_new_def)

lemma merge_results_set:
  "set (merge_results rs u) = set u \<union> \<Union> {set vs |vs. Inr (Some vs) \<in> set rs} \<and>
   (distinct u \<longrightarrow> distinct (merge_results rs u))"
proof (induction rs arbitrary: u)
  case (Cons r rs)
  show ?case
  proof (cases r)
    case (Inr x)
    then show ?thesis
    proof (cases x)
      case None
      then show ?thesis using Cons Inr by auto
    next
      case (Some vs)
      have "\<Union> {set w |w. Inr (Some w) \<in> set (r # rs)} = set vs \<union> \<Union> {set w |w. Inr (Some w) \<in> set rs}"
        using Inr Some by auto
      then show ?thesis using Cons [of "fold push_new vs u"] fold_push_new [of vs u] Inr Some by auto
    qed
  qed (use Cons in auto)
qed simp

lemma union_query_answers:
  "answers (union_query readers name) (\<Union> {set vs |vs. \<exists>r \<in> set readers. r name = Inr (Some vs)})"
proof -
  let ?u = "merge_results (map (\<lambda>r. r name) readers) []"
  have u: "set ?u = \<Union> {set vs |vs. \<exists>r \<in> set readers. r name = Inr (Some vs)}" "distinct ?u"
  proof -
    have "Inr (Some vs) \<in> set (map (\<lambda>r. r name) readers) \<longleftrightarrow> (\<exists>r \<in> set readers. r name = Inr (Some vs))" for vs
      unfolding set_map image_iff by metis
    then show "set ?u = \<Union> {set vs |vs. \<exists>r \<in> set readers. r name = Inr (Some vs)}" "distinct ?u"
      using merge_results_set [of "map (\<lambda>r. r name) readers" "[]"] by simp_all
  qed
  show ?thesis unfolding u(1) [symmetric] using u(2) by (auto simp: union_query_def answers_def)
qed

text \<open>The answers of a list of readers, in their order, failures and absences left out.\<close>

definition found :: "net_error + rstr list option \<Rightarrow> rstr list option" where
  "found r = (case r of Inr (Some vs) \<Rightarrow> Some vs | _ \<Rightarrow> None)"

lemma query_fallbacks_first:
  "query_fallbacks rs name = Inr (case List.map_filter (\<lambda>r. found (r name)) rs of [] \<Rightarrow> None | vs # _ \<Rightarrow> Some vs)"
  by (induction rs) (auto simp: found_def map_filter_simps split: sum.splits option.splits)

lemma count_acks_card: "count_acks rs = card {i. i < length rs \<and> rs ! i = Inr True}"
proof -
  have "count_acks rs = length (filter (\<lambda>r. r = Inr True) rs)"
    by (induction rs rule: count_acks.induct) auto
  then show ?thesis by (simp add: length_filter_conv_card)
qed

lemma length_run_targets: "length (run_targets ws ss) = min (length ws) (length ss)"
  by (simp add: run_targets_def)

lemma nth_run_targets: "i < length ws \<Longrightarrow> i < length ss \<Longrightarrow> run_targets ws ss ! i = (ws ! i) (ss ! i)"
  by (simp add: run_targets_def)

section \<open>Properties\<close>

text \<open>What several readers answer together. The union reader returns, each once, exactly the values that some
  backend returns, and no answer if there are none; the composite reader returns the answer of
  the first backend in the order that has one. Neither ever fails, whatever the backends do.\<close>

theorem readers_combined:
  "answers (union_query readers name) (\<Union> {set vs |vs. \<exists>r \<in> set readers. r name = Inr (Some vs)}) \<and>
   composite_query self name = Inr (case List.map_filter (\<lambda>r. found (r name)) (primary self # fallbacks self) of
     [] \<Rightarrow> None | vs # _ \<Rightarrow> Some vs)"
  using union_query_answers [of readers name]
  by (auto simp: composite_query_def query_fallbacks_first found_def map_filter_simps split: sum.splits option.splits)

theorem readers_combined_witness:
  "answers (union_query [\<lambda>_. Inr (Some [[1], [2]]), \<lambda>_. Inl NoUsableAnswer, \<lambda>_. Inr (Some [[2], [3]])] []) {[1], [2], [3]}"
proof -
  have "\<Union> {set vs |vs. \<exists>r \<in> set [\<lambda>_. Inr (Some [[1], [2]]), \<lambda>_. Inl NoUsableAnswer, \<lambda>_. Inr (Some [[2], [3]])].
      r ([] :: rstr) = Inr (Some vs)} = {[1], [2], [3 :: byte]}" by auto
  then show ?thesis
    using readers_combined [of "[\<lambda>_. Inr (Some [[1], [2]]), \<lambda>_. Inl NoUsableAnswer, \<lambda>_. Inr (Some [[2], [3]])]" "[]"
        "\<lparr> primary = \<lambda>_. Inr None, fallbacks = [] \<rparr>"] by simp
qed

text \<open>C35: A quorum of writers survives the loss of fewer readers. Suppose that every target that accepts a publication
  has stored it in its in-memory store, and that afterwards each reader outside a set of fewer than \<open>q\<close>
  readers answers from the store of the target at its position. If the fanout writer with the quorum
  \<open>AtLeast q\<close> reports success, a union reader over the readers returns the value until it expires.\<close>

theorem quorum_read:
  assumes "fanout_publish (AtLeast q) ws name value ttl ss = (Inr True, ss')"
    and "length ws = length ss" "length readers = length ss"
    and "\<forall>i < length ss. mem_inv (ss ! i)"
    and "\<forall>i < length ss. fst ((ws ! i) name value ttl (ss ! i)) = Inr True \<longrightarrow>
      snd ((ws ! i) name value ttl (ss ! i)) = snd (mem_publish now name value ttl (ss ! i))"
    and "\<forall>i < length ss. i \<notin> down \<longrightarrow> (readers ! i) name = mem_query t name (ss' ! i)"
    and "card down < q" "finite down" "unat t < unat now + unat ttl" "unat t < 2 ^ 64 - 1"
  shows "\<exists>vs. union_query readers name = Inr (Some vs) \<and> value \<in> set vs"
proof -
  let ?n = "length ss" and ?r = "\<lambda>i. (ws ! i) name value ttl (ss ! i)"
  let ?results = "run_targets (map (\<lambda>w. w name value ttl) ws) ss"
  have nth: "?results ! i = ?r i" if "i < ?n" for i using that assms(2) by (simp add: nth_run_targets)
  have len: "length ?results = ?n" using assms(2) by (simp add: length_run_targets)
  have ss': "ss' = map snd ?results" and "q \<le> count_acks (map fst ?results)"
    using assms(1) by (simp_all add: fanout_publish_def Let_def tally_def)
  moreover have "{i. i < length (map fst ?results) \<and> map fst ?results ! i = Inr True} = {i. i < ?n \<and> fst (?r i) = Inr True}"
    by (rule Collect_cong) (use len nth in auto)
  ultimately have "q \<le> card {i. i < ?n \<and> fst (?r i) = Inr True}" unfolding count_acks_card by simp
  then have "\<not> {i. i < ?n \<and> fst (?r i) = Inr True} \<subseteq> down"
    using assms(7) card_mono [OF assms(8)] by (meson leD le_trans)
  then obtain i where i: "i < ?n" "fst (?r i) = Inr True" "i \<notin> down" by blast
  have "ss' ! i = snd (?r i)" using ss' len nth [OF i(1)] i(1) by simp
  also have "\<dots> = snd (mem_publish now name value ttl (ss ! i))" using i(1,2) assms(5) by blast
  finally have stored: "ss' ! i = snd (mem_publish now name value ttl (ss ! i))" .
  have "mem_inv (ss ! i)" "(readers ! i) name = mem_query t name (ss' ! i)" using i assms(4,6) by blast+
  then have "\<exists>vs. (readers ! i) name = Inr (Some vs) \<and> value \<in> set vs"
    using mem.published_stays [of "ss ! i" name "value" "[]" t now ttl] assms(9,10) stored by simp
  then have "value \<in> \<Union> {set vs |vs. \<exists>r \<in> set readers. r name = Inr (Some vs)}"
    using nth_mem [of i readers] assms(3) i(1) by fastforce
  with union_query_answers show ?thesis by (rule answers_member)
qed

theorem quorum_read_witness:
  "\<exists>vs. union_query [\<lambda>_. Inl NoUsableAnswer, \<lambda>n. mem_query 5 n (snd (mem_publish 0 [1] [2] 10 mem_new))] [1] = Inr (Some vs) \<and>
     [2] \<in> set vs"
proof -
  let ?s = "snd (mem_publish 0 [1] [2] 10 mem_new)"
  have "fanout_publish (AtLeast 2) [mem_publish 0, mem_publish 0] [1] [2] 10 [mem_new, mem_new] = (Inr True, [?s, ?s])"
    by (simp add: fanout_publish_def run_targets_def tally_def mem_publish_def Let_def)
  moreover have "mem_inv mem_new" by (simp add: mem_new_def mem_inv_def)
  ultimately show ?thesis
    using quorum_read [of 2 "[mem_publish 0, mem_publish 0]" "[1]" "[2]" 10 "[mem_new, mem_new]" "[?s, ?s]"
        "[\<lambda>_. Inl NoUsableAnswer, \<lambda>n. mem_query 5 n ?s]" 0 "{0}" 5]
    by (simp add: less_Suc_eq)
qed

end
