(* ===== verification/Tables.thy ===== *)
theory Tables
  imports Reader "HOL-Library.AList"
begin

text \<open>
  The database tables behind the stores of \<open>dnsmesh-storage\<close>. A table is the list of its rows, in the
  order of insertion, each with its primary key; the stores translate every SQL statement of the
  source into an operation on the list. A statement is atomic: a flag of the caller says whether the
  database executes it, and a statement that fails changes nothing. Times are stored as
  SQLite integers, signed 64-bit numbers.
\<close>

section \<open>Rows\<close>

type_synonym ('k, 'v) rows = "('k \<times> 'v) list"

definition keyed :: "('k, 'v) rows \<Rightarrow> bool" where
  "keyed t \<longleftrightarrow> distinct (map fst t)"

definition delete_where :: "('k \<Rightarrow> 'v \<Rightarrow> bool) \<Rightarrow> ('k, 'v) rows \<Rightarrow> ('k, 'v) rows" where
  "delete_where P t = filter (\<lambda>(k, v). \<not> P k v) t"

definition count_where :: "('k \<Rightarrow> 'v \<Rightarrow> bool) \<Rightarrow> ('k, 'v) rows \<Rightarrow> nat" where
  "count_where P t = length (filter (\<lambda>(k, v). P k v) t)"

text \<open>\<open>INSERT \<dots> ON CONFLICT(key) DO UPDATE\<close>: a new row at the end, or the old row changed in place.\<close>

definition upsert :: "'k \<Rightarrow> 'v \<Rightarrow> ('v \<Rightarrow> 'v) \<Rightarrow> ('k, 'v) rows \<Rightarrow> ('k, 'v) rows" where
  "upsert k new change t = AList.update k (case map_of t k of None \<Rightarrow> new | Some old \<Rightarrow> change old) t"

lemma keyed_Nil [simp]: "keyed []"
  by (simp add: keyed_def)

lemma keyed_update: "keyed t \<Longrightarrow> keyed (AList.update k v t)"
  by (simp add: keyed_def distinct_update)

lemma keyed_upsert: "keyed t \<Longrightarrow> keyed (upsert k new change t)"
  by (simp add: upsert_def keyed_update)

lemma map_of_upsert:
  "map_of (upsert k new change t) = (map_of t)(k \<mapsto> (case map_of t k of None \<Rightarrow> new | Some old \<Rightarrow> change old))"
  by (simp add: upsert_def update_conv')

lemma keyed_filter: "keyed t \<Longrightarrow> keyed (filter P t)"
  by (induction t) (auto simp: keyed_def)

lemma map_of_filter:
  "keyed t \<Longrightarrow> map_of (filter (\<lambda>(k, v). P k v) t) k =
     (case map_of t k of None \<Rightarrow> None | Some v \<Rightarrow> if P k v then Some v else None)"
  by (induction t) (auto simp: keyed_def map_of_eq_None_iff split: option.splits)

lemma keyed_delete_where: "keyed t \<Longrightarrow> keyed (delete_where P t)"
  by (simp add: delete_where_def keyed_filter)

lemma map_of_delete_where:
  "keyed t \<Longrightarrow> map_of (delete_where P t) k =
     (case map_of t k of None \<Rightarrow> None | Some v \<Rightarrow> if P k v then None else Some v)"
  unfolding delete_where_def by (subst map_of_filter) (auto split: option.splits)

lemma count_where_card: "keyed t \<Longrightarrow> count_where P t = card {k. \<exists>v. map_of t k = Some v \<and> P k v}"
proof (induction t)
  case (Cons kv t)
  obtain k v where kv: "kv = (k, v)" by (cases kv)
  have "k \<notin> fst ` set t" "keyed t" using Cons.prems by (simp_all add: keyed_def kv)
  then have n: "map_of t k = None" by (simp add: map_of_eq_None_iff)
  let ?A = "{k. \<exists>v. map_of t k = Some v \<and> P k v}"
  have "{k'. \<exists>v'. map_of (kv # t) k' = Some v' \<and> P k' v'} = (if P k v then insert k ?A else ?A)"
    using n by (auto simp: kv)
  moreover have "finite ?A" by (rule finite_subset [OF _ finite_dom_map_of [of t]]) auto
  ultimately show ?case using Cons.IH [OF \<open>keyed t\<close>] n by (simp add: kv count_where_def)
qed (simp add: count_where_def)

section \<open>Times and errors\<close>

definition I64_MAX :: int where
  "I64_MAX = 2 ^ 63 - 1"

definition i64_secs :: "u64 \<Rightarrow> int" where
  "i64_secs secs = min (uint secs) I64_MAX"

lemma i64_secs_mono: "s \<le> t \<Longrightarrow> i64_secs s \<le> i64_secs t"
  by (auto simp: i64_secs_def word_le_def min_def)

lemma i64_secs_exact: "unat s < 2 ^ 63 \<Longrightarrow> i64_secs s = int (unat s)"
proof -
  assume "unat s < 2 ^ 63"
  then have "int (unat s) < int (2 ^ 63)" by (simp only: of_nat_less_iff)
  then show ?thesis by (simp add: i64_secs_def I64_MAX_def)
qed

datatype storage_error =
    Sqlite string
  | Migration string
  | Io string
  | PrekeyIdExhausted u32
  | CorruptBlobLength string nat nat
  | InvalidStorageKeyLength nat nat
  | LegacyPlaintextDatabase rstr

end
