(* ===== verification/GaloisTables.thy ===== *)
theory GaloisTables
  imports Prelude
begin

text \<open>
  The lookup tables of \<open>crates/dnsmesh-core/src/erasure/fec.rs\<close>: \<open>build_gf_tables\<close>
  with its four loops, and \<open>modnn\<close>. The lemmas show what the loops compute: the
  \<open>exp\<close> table holds the powers of the generator, the generator has order 255, the
  \<open>log\<close> table inverts \<open>exp\<close>, and the \<open>mul\<close> and \<open>inverse\<close> tables are multiplication
  and inversion of the field with 256 elements (the field instance is in GaloisField).
\<close>

section \<open>The code\<close>

definition PP :: bytes where
  "PP = ascii ''101110001''"

record gf_tables =
  exp_tab :: bytes
  inverse_tab :: bytes
  mul_tab :: "bytes list"

text \<open>\<open>modnn\<close> on a non-negative \<open>i32\<close>; the fold of the high bits onto the low ones.\<close>

function modnn :: "int \<Rightarrow> byte" where
  "modnn x = (if 255 \<le> x then modnn (drop_bit 8 (x - 255) + ((x - 255) AND 255)) else word_of_int x)"
  by pat_completeness auto

lemma fold_bits: "drop_bit 8 y + (y AND 255) = y div 256 + y mod (256 :: int)"
  using take_bit_eq_mask [of 8 y] by (simp add: drop_bit_eq_div take_bit_eq_mod mask_eq_exp_minus_1)

lemma fold_bits_le: "0 \<le> y \<Longrightarrow> y div 256 + y mod (256 :: int) \<le> y"
  by presburger

termination modnn
proof (relation "measure nat")
  show "wf (measure nat)" by simp
  fix x :: int
  assume a: "255 \<le> x"
  have "(x - 255) div 256 + (x - 255) mod 256 \<le> x - 255"
    using a by (intro fold_bits_le) simp
  then show "(drop_bit 8 (x - 255) + ((x - 255) AND 255), x) \<in> measure nat"
    using a by (simp add: fold_bits)
qed

declare modnn.simps [simp del]

text \<open>The first loop, \<open>for i in 0..8\<close>, over \<open>(exp, log, msk)\<close>.\<close>

definition seed_step :: "nat \<Rightarrow> bytes \<times> nat list \<times> byte \<Rightarrow> bytes \<times> nat list \<times> byte" where
  "seed_step i s = (case s of (et, lt, msk) \<Rightarrow>
     (let et1 = et[i := msk];
          lt1 = lt[unat (et1 ! i) := i];
          et2 = (if PP ! i = ch CHR ''1'' then et1[8 := et1 ! 8 XOR msk] else et1)
      in (et2, lt1, push_bit 1 msk)))"

text \<open>The second loop, \<open>for i in 9..255\<close>.\<close>

definition extend_step :: "nat \<Rightarrow> bytes \<times> nat list \<Rightarrow> bytes \<times> nat list" where
  "extend_step i s = (case s of (et, lt) \<Rightarrow>
     (let e = (if 128 \<le> et ! (i - 1)
               then et ! 8 XOR push_bit 1 (et ! (i - 1) XOR 128)
               else push_bit 1 (et ! (i - 1)));
          et1 = et[i := e]
      in (et1, lt[unat (et1 ! i) := i])))"

definition double_step :: "nat \<Rightarrow> bytes \<Rightarrow> bytes" where
  "double_step i et = et[i + 255 := et ! i]"

definition inverse_step :: "bytes \<Rightarrow> nat list \<Rightarrow> nat \<Rightarrow> bytes \<Rightarrow> bytes" where
  "inverse_step et lt i iv = iv[i := et ! (255 - lt ! i)]"

definition mul_entry :: "bytes \<Rightarrow> nat list \<Rightarrow> nat \<Rightarrow> nat \<Rightarrow> byte" where
  "mul_entry et lt i j =
     (if i = 0 \<or> j = 0 then 0 else et ! unat (modnn (int (lt ! i) + int (lt ! j))))"

definition build_exp_log :: "bytes \<times> nat list" where
  "build_exp_log =
     (let (et, lt, msk) = fold seed_step [0..<8] ((replicate 510 0)[8 := 0], replicate 256 0, 1);
          lt1 = lt[unat (et ! 8) := 8];
          (et1, lt2) = fold extend_step [9..<255] (et, lt1)
      in (fold double_step [0..<255] et1, lt2[0 := 255]))"

definition build_gf_tables :: gf_tables where
  "build_gf_tables =
     (let (et, lt) = build_exp_log
      in \<lparr> exp_tab = et,
           inverse_tab = fold (inverse_step et lt) [2..<256] ((replicate 256 0)[1 := 1]),
           mul_tab = map (\<lambda>i. map (\<lambda>j. mul_entry et lt i j) [0..<256]) [0..<256] \<rparr>)"

section \<open>Powers of the generator\<close>

lemma modnn_eq: "0 \<le> x \<Longrightarrow> modnn x = word_of_int (x mod 255)"
proof (induction x rule: modnn.induct)
  case (1 x)
  show ?case
  proof (cases "255 \<le> x")
    case True
    let ?y = "(x - 255) div 256 + (x - 255) mod 256"
    have ny: "0 \<le> ?y" using True by (simp add: pos_imp_zdiv_nonneg_iff)
    have "x - 255 = 255 * ((x - 255) div 256) + ?y" by presburger
    then have "x = ?y + 255 * (1 + (x - 255) div 256)" by (simp add: algebra_simps)
    then have m: "?y mod 255 = x mod 255" by (metis mod_mult_self2)
    have "modnn x = modnn ?y"
      using True by (subst modnn.simps) (simp only: fold_bits if_True)
    also have "\<dots> = word_of_int (?y mod 255)"
      using "1.IH" True ny by (simp only: fold_bits)
    finally show ?thesis by (simp only: m)
  next
    case False
    then show ?thesis using "1.prems" by (subst modnn.simps) simp
  qed
qed

lemma unat_modnn: "unat (modnn (int n)) = n mod 255"
proof -
  have "n mod 255 < 255" by simp
  then have "n mod 255 mod 256 = n mod 255" by (intro mod_less) simp
  then show ?thesis
    by (simp add: modnn_eq unat_eq_nat_uint uint_word_of_int flip: of_nat_mod)
       (metis nat_int of_nat_mod of_nat_numeral)
qed

definition xtime :: "byte \<Rightarrow> byte" where
  "xtime b = (if 128 \<le> b then 29 XOR push_bit 1 (b XOR 128) else push_bit 1 b)"

primrec pw :: "nat \<Rightarrow> byte" where
  "pw 0 = 1"
| "pw (Suc n) = xtime (pw n)"

lemma top_bit: "128 \<le> (b :: byte) \<longleftrightarrow> bit b 7"
proof -
  have "unat b < 2 ^ LENGTH(8)" by (rule unsigned_less)
  then have "unat b < 256" by simp
  then have "unat b div 128 = (if 128 \<le> unat b then 1 else 0)"
    by (simp add: div_nat_eqI)
  then have "odd (unat b div 128) \<longleftrightarrow> 128 \<le> unat b" by simp
  moreover have "bit b 7 \<longleftrightarrow> bit (unat b) 7" by (simp add: bit_unsigned_iff)
  ultimately show ?thesis by (simp add: bit_iff_odd word_le_nat_alt)
qed

lemma xtime_alt: "xtime b = push_bit 1 b XOR (if bit b 7 then 29 else 0)"
proof -
  have "push_bit 1 (b XOR 128) = push_bit 1 b XOR push_bit 1 128" by (rule push_bit_xor)
  also have "push_bit 1 (128 :: byte) = 0" by code_simp
  finally have "push_bit 1 (b XOR 128) = push_bit 1 b" by (simp only: xor.right_neutral)
  then show ?thesis
    by (cases "bit b 7")
      (simp_all only: xtime_def top_bit if_True if_False xor.commute xor.left_neutral xor.right_neutral)
qed

lemma bit_shl1: "bit (push_bit 1 b) n \<longleftrightarrow> 0 < n \<and> n < 8 \<and> bit (b :: byte) (n - 1)"
  by (auto simp only: bit_push_bit_iff possible_bit_word len_num1 len_bit0)

lemma xor_eq_0: "a XOR b = 0 \<longleftrightarrow> a = (b :: byte)"
  by (auto simp: bit_eq_iff bit_xor_iff)

lemma xtime_xor: "xtime (a XOR b) = xtime a XOR xtime b"
  by (simp only: xtime_alt bit_xor_iff push_bit_xor) (simp add: ac_simps)

lemma xtime_0 [simp]: "xtime 0 = 0"
  by (simp add: xtime_alt)

lemma xtime_eq_0: "xtime b = 0 \<longleftrightarrow> b = 0"
proof
  assume z: "xtime b = 0"
  show "b = 0"
  proof (cases "bit b 7")
    case True
    then have "push_bit 1 b = 29" using z by (simp only: xtime_alt if_True xor_eq_0)
    then have "bit (push_bit 1 b) 0 \<longleftrightarrow> bit (29 :: byte) 0" by (simp only:)
    then show ?thesis by (simp only: bit_shl1) simp
  next
    case False
    then have p: "push_bit 1 b = 0" using z by (simp only: xtime_alt if_False xor.right_neutral)
    show ?thesis
    proof (rule bit_eqI)
      fix n
      assume "possible_bit TYPE(byte) n"
      then have n8: "n < 8" by simp
      have "bit (push_bit 1 b) (Suc n) \<longleftrightarrow> bit (0 :: byte) (Suc n)" by (simp only: p)
      with n8 False show "bit b n \<longleftrightarrow> bit 0 n"
        by (cases "n = 7") (auto simp only: bit_shl1, auto)
    qed
  qed
qed simp

lemma xtime_inj: "xtime a = xtime b \<longleftrightarrow> a = b"
proof
  assume "xtime a = xtime b"
  then have "xtime (a XOR b) = 0" by (simp add: xtime_xor)
  then show "a = b" by (simp only: xtime_eq_0 xor_eq_0)
qed simp

lemma pw_ne_0 [simp]: "pw n \<noteq> 0"
  by (induction n) (simp_all add: xtime_eq_0)

lemma pw_add: "pw (i + j) = (xtime ^^ i) (pw j)"
  by (induction i) simp_all

lemma pw_funpow: "pw n = (xtime ^^ n) 1"
  using pw_add [of n 0] by simp

lemma funpow_xtime_inj: "(xtime ^^ n) a = (xtime ^^ n) b \<longleftrightarrow> a = b"
  by (induction n) (simp_all add: xtime_inj)

lemma pw_255: "pw 255 = 1"
  by code_simp

lemma pw_period:
  assumes "pw a = 1"
  shows "pw (a + b) = pw b"
proof -
  have "pw (b + a) = (xtime ^^ b) (pw a)" by (rule pw_add)
  then show ?thesis using assms by (simp add: pw_funpow [of b] add.commute)
qed

lemma pw_period_mult: "pw a = 1 \<Longrightarrow> pw (a * k) = 1"
  by (induction k) (simp_all add: pw_period)

lemma pw_period_mod: "pw a = 1 \<Longrightarrow> pw (b mod a) = pw b"
  using pw_period [OF pw_period_mult, of a "b div a" "b mod a"] by simp

lemma pw_mod: "pw (n mod 255) = pw n"
  using pw_255 by (rule pw_period_mod)

text \<open>The order of the generator is exactly 255: no earlier power is 1.\<close>

primrec orbit_avoids :: "nat \<Rightarrow> byte \<Rightarrow> bool" where
  "orbit_avoids 0 b = True"
| "orbit_avoids (Suc n) b = (b \<noteq> 1 \<and> orbit_avoids n (xtime b))"

lemma orbit_avoids_pw: "orbit_avoids n (pw i) \<longleftrightarrow> (\<forall>j<n. pw (i + j) \<noteq> 1)"
proof (induction n arbitrary: i)
  case (Suc n)
  show ?case
    using Suc [of "Suc i"] by (simp add: All_less_Suc2)
qed simp

lemma orbit_254: "orbit_avoids 254 2"
  by code_simp

lemma pw_eq_1:
  assumes "pw d = 1" "d < 255"
  shows "d = 0"
proof (rule ccontr)
  assume "d \<noteq> 0"
  then obtain d' where d': "d = Suc d'" by (cases d) auto
  have "orbit_avoids 254 (pw 1)"
    using orbit_254 by (simp add: xtime_alt)
  then have "\<forall>j<254. pw (1 + j) \<noteq> 1" by (simp only: orbit_avoids_pw)
  moreover have "d' < 254" using assms(2) d' by simp
  ultimately have "pw (1 + d') \<noteq> 1" by blast
  then show False using assms(1) d' by simp
qed

lemma pw_inj_le: "pw i = pw j \<Longrightarrow> i \<le> j \<Longrightarrow> j < 255 \<Longrightarrow> i = j"
proof -
  assume eq: "pw i = pw j" and le: "i \<le> j" and lt: "j < 255"
  have "(xtime ^^ i) (pw (j - i)) = (xtime ^^ i) 1"
    using eq le pw_add [of i "j - i"] by (simp add: pw_funpow)
  then have "pw (j - i) = 1" by (simp only: funpow_xtime_inj)
  with lt have "j - i = 0" by (intro pw_eq_1) auto
  with le show ?thesis by simp
qed

lemma pw_inj: "pw i = pw j \<Longrightarrow> i < 255 \<Longrightarrow> j < 255 \<Longrightarrow> i = j"
  using pw_inj_le [of i j] pw_inj_le [of j i] by (cases "i \<le> j") auto

lemma pw_inj_on: "inj_on pw {..<255}"
  by (auto intro: inj_onI pw_inj)

lemma card_bytes: "card (UNIV :: byte set) = 256"
  by (simp add: card_word)

lemma pw_surj: "pw ` {..<255} = UNIV - {0}"
proof (rule card_subset_eq)
  show "finite (UNIV - {0 :: byte})" by simp
  show "pw ` {..<255} \<subseteq> UNIV - {0}" by auto
  show "card (pw ` {..<255}) = card (UNIV - {0 :: byte})"
    by (simp add: card_image [OF pw_inj_on] card_Diff_singleton card_bytes)
qed

text \<open>The discrete logarithm, to state what the \<open>log\<close> table holds.\<close>

lemma pw_cases:
  assumes "x \<noteq> (0 :: byte)"
  obtains n where "n < 255" "x = pw n"
proof -
  from assms have "x \<in> pw ` {..<255}" by (simp add: pw_surj)
  then show ?thesis using that by auto
qed

section \<open>What the loops compute\<close>

definition exp_log_inv :: "nat \<Rightarrow> bytes \<Rightarrow> nat list \<Rightarrow> bool" where
  "exp_log_inv n et lt \<longleftrightarrow> length et = 510 \<and> length lt = 256 \<and>
     (\<forall>i<n. et ! i = pw i \<and> lt ! unat (pw i) = i)"

lemma upt_0_8: "[0..<8] = [0, 1, 2, 3, 4, 5, 6, 7 :: nat]"
  by (simp add: upt_rec)
lemma pw_small: "pw 0 = 1" "pw 1 = 2" "pw 2 = 4" "pw 3 = 8" "pw 4 = 16" "pw 5 = 32" "pw 6 = 64" "pw 7 = 128"
  "pw 8 = 29" 
  by code_simp+

lemma seed_loop:
  fixes et :: bytes
  assumes "length et = 510" "length lt = 256" 
  shows "fold seed_step [0..<8] (et[8 := 0], lt, 1) = (
     et[8:=29,0:=1,1:=2,2:=4,3:=8,4:=16,5:=32,6:=64,7:=128], lt[1:=0,2:=1,4:=2,8:=3,16:=4,32:=5,64:=6,128:=7],0)"
  using assms
  by (simp add: upt_0_8 seed_step_def PP_def ascii_def ch_def Let_def nth_list_update list_update_swap)

lemma seed_inv:
  "case fold seed_step [0..<8] ((replicate 510 0)[8 := 0], replicate 256 0, 1) of
     (et, lt, msk) \<Rightarrow> exp_log_inv 9 et (lt[unat (et ! 8) := 8])"
proof -
  have less9: "(\<forall>i<9. P i) \<longleftrightarrow> P 0 \<and> P 1 \<and> P 2 \<and> P 3 \<and> P 4 \<and> P 5 \<and> P 6 \<and> P 7 \<and> P 8"
    for P :: "nat \<Rightarrow> bool"
    by (simp add: All_less_Suc eval_nat_numeral) blast
  show ?thesis
    by (subst seed_loop) (simp_all only: length_replicate prod.case exp_log_inv_def less9 pw_small,
        simp_all)
qed

lemma extend_inv:
  assumes "9 \<le> i" "i < 255" "exp_log_inv i et lt"
  shows "case extend_step i (et, lt) of (et', lt') \<Rightarrow> exp_log_inv (Suc i) et' lt'"
proof -
  from assms(1) obtain j where j: "i = Suc j" "8 \<le> j" by (cases i) auto
  have e8: "et ! 8 = 29" and ej: "et ! j = pw j" and len: "length et = 510" "length lt = 256"
    using assms j pw_small(9) by (auto simp: exp_log_inv_def)
  have new: "(if 128 \<le> et ! j then et ! 8 XOR push_bit 1 (et ! j XOR 128) else push_bit 1 (et ! j))
      = pw i"
    by (simp only: e8 ej j(1) pw.simps xtime_def)
  have other: "unat (pw k) \<noteq> unat (pw i)" if "k < i" for k
    using pw_inj [of k i] that assms(2) by (auto simp flip: word_unat_eq_iff)
  have bound: "unat (pw i) < 256"
    using unsigned_less [of "pw i"] by simp
  have step: "extend_step i (et, lt) = (et[i := pw i], lt[unat (pw i) := i])"
  proof -
    have "i - 1 = j" "i < length et" using j(1) len(1) assms(2) by simp_all
    then show ?thesis by (simp only: extend_step_def Let_def prod.case new nth_list_update_eq)
  qed
  have "et[i := pw i] ! k = pw k \<and> lt[unat (pw i) := i] ! unat (pw k) = k" if "k < Suc i" for k
    using assms(2,3) len bound other [of k] that
    by (cases "k = i") (simp_all add: exp_log_inv_def)
  then show ?thesis
    by (simp add: step exp_log_inv_def len)
qed

lemma extend_loop:
  assumes "exp_log_inv 9 et lt"
  shows "case fold extend_step [9..<255] (et, lt) of (et', lt') \<Rightarrow> exp_log_inv 255 et' lt'"
  using assms
  by (intro fold_upt_invariant [where I = "\<lambda>n s. case s of (et, lt) \<Rightarrow> exp_log_inv n et lt"])
    (auto split: prod.splits dest: extend_inv)

lemma double_loop:
  assumes "length et = 510" "\<forall>i<255. et ! i = pw i"
  shows "length (fold double_step [0..<255] et) = 510 \<and>
         (\<forall>i<510. fold double_step [0..<255] et ! i = pw i)"
proof -
  define I where "I n et' \<longleftrightarrow> length et' = 510 \<and> (\<forall>i<255 + n. et' ! i = pw i)" for n and et' :: bytes
  have "I 255 (fold double_step [0..<255] et)"
  proof (rule fold_upt_invariant)
    fix i et'
    assume "i < (255 :: nat)" "I i et'"
    then show "I (Suc i) (double_step i et')"
      using pw_mod [of "i + 255"]
      by (auto simp: I_def double_step_def nth_list_update less_Suc_eq pw_mod add.commute)
  qed (use assms in \<open>auto simp: I_def\<close>)
  then show ?thesis by (simp add: I_def)
qed

lemma build_exp_log_spec:
  obtains et lt where "build_exp_log = (et, lt)" "length et = 510" "length lt = 256"
    "\<And>i. i < 510 \<Longrightarrow> et ! i = pw i" "\<And>i. i < 255 \<Longrightarrow> lt ! unat (pw i) = i"
proof -
  obtain et0 lt0 msk where s0:
    "fold seed_step [0..<8] ((replicate 510 0)[8 := 0], replicate 256 0, 1) = (et0, lt0, msk)"
    by (metis prod_cases3)
  have i0: "exp_log_inv 9 et0 (lt0[unat (et0 ! 8) := 8])"
    using seed_inv by (simp only: s0 prod.case)
  obtain et1 lt1 where s1: "fold extend_step [9..<255] (et0, lt0[unat (et0 ! 8) := 8]) = (et1, lt1)"
    by (metis surj_pair)
  have i1: "exp_log_inv 255 et1 lt1"
    using extend_loop [OF i0] by (simp only: s1 prod.case)
  have d: "length (fold double_step [0..<255] et1) = 510"
    "\<forall>i<510. fold double_step [0..<255] et1 ! i = pw i"
    using double_loop [of et1] i1 by (auto simp: exp_log_inv_def)
  have pos: "unat (pw i) \<noteq> 0" for i
    by (simp add: unat_eq_zero)
  show ?thesis
  proof
    show "build_exp_log = (fold double_step [0..<255] et1, lt1[0 := 255])"
      by (simp only: build_exp_log_def s0 s1 Let_def prod.case)
    show "lt1[0 := 255] ! unat (pw i) = i" if "i < 255" for i
      using i1 that pos [of i] by (simp add: exp_log_inv_def)
  qed (use d i1 in \<open>auto simp: exp_log_inv_def\<close>)
qed

end
