(* ===== verification/GaloisField.thy ===== *)
theory GaloisField
  imports GaloisTables
begin

text \<open>
  The tables of \<open>build_gf_tables\<close> are a field. Multiplication and inversion of the type
  \<open>gf\<close> are the table look-ups of the code, addition is XOR; the instance proof
  shows the field laws, so that sums, products and powers of the library apply to the
  matrix code of fec.rs.
\<close>

definition gf_mul :: "byte \<Rightarrow> byte \<Rightarrow> byte" where
  "gf_mul a b = mul_tab build_gf_tables ! unat a ! unat b"

definition gf_inv :: "byte \<Rightarrow> byte" where
  "gf_inv a = inverse_tab build_gf_tables ! unat a"

section \<open>The tables in terms of powers of the generator\<close>

lemma inverse_step_fun: "inverse_step et lt = (\<lambda>i xs. xs[i := et ! (255 - lt ! i)])"
  by (intro ext) (rule inverse_step_def)

lemma build_tables:
  assumes "build_exp_log = (et, lt)"
  shows "exp_tab build_gf_tables = et"
    and "inverse_tab build_gf_tables =
      fold (\<lambda>i xs. xs[i := et ! (255 - lt ! i)]) [2..<256] ((replicate 256 0)[1 := 1])"
    and "\<And>i j. i < 256 \<Longrightarrow> j < 256 \<Longrightarrow> mul_tab build_gf_tables ! i ! j = mul_entry et lt i j"
  by (simp_all only: build_gf_tables_def assms Let_def prod.case gf_tables.simps inverse_step_fun
      length_upt nth_map nth_upt diff_zero add_0)

lemma exp_tab_pw: "i < 510 \<Longrightarrow> exp_tab build_gf_tables ! i = pw i"
  by (rule build_exp_log_spec) (simp add: build_tables)

lemma length_exp_tab: "length (exp_tab build_gf_tables) = 510"
  by (rule build_exp_log_spec) (simp add: build_tables)

lemma exp_tab_modnn: "exp_tab build_gf_tables ! unat (modnn (int n)) = pw n"
proof -
  have "n mod 255 < 510" by (rule less_trans [of _ 255]) simp_all
  then show ?thesis by (simp add: unat_modnn exp_tab_pw pw_mod)
qed

lemma gf_mul_pw: "gf_mul (pw i) (pw j) = pw (i + j)"
proof -
  obtain et lt where b: "build_exp_log = (et, lt)"
    and e: "\<And>i. i < 510 \<Longrightarrow> et ! i = pw i" and l: "\<And>i. i < 255 \<Longrightarrow> lt ! unat (pw i) = i"
    by (rule build_exp_log_spec) blast
  have "mul_entry et lt (unat (pw i)) (unat (pw j)) = pw (i + j)" if "i < 255" "j < 255" for i j
  proof -
    have "(i + j) mod 255 < 510" by (rule less_trans [of _ 255]) simp_all
    with that show ?thesis
      by (simp add: mul_entry_def l unat_modnn e pw_mod flip: of_nat_add)
  qed
  from this [of "i mod 255" "j mod 255"]
  have "mul_entry et lt (unat (pw i)) (unat (pw j)) = pw (i mod 255 + j mod 255)"
    by (simp add: pw_mod)
  also have "\<dots> = pw (i + j)"
    by (metis mod_add_eq pw_mod)
  finally show ?thesis
    by (simp add: gf_mul_def build_tables [OF b])
qed

lemma gf_mul_0 [simp]: "gf_mul 0 a = 0" "gf_mul a 0 = 0"
  by (rule build_exp_log_spec, simp add: gf_mul_def build_tables mul_entry_def)+

lemma gf_inv_pw: "gf_mul (pw n) (gf_inv (pw n)) = 1"
proof -
  obtain et lt where b: "build_exp_log = (et, lt)" and len: "length lt = 256"
    and e: "\<And>i. i < 510 \<Longrightarrow> et ! i = pw i" and l: "\<And>i. i < 255 \<Longrightarrow> lt ! unat (pw i) = i"
    by (rule build_exp_log_spec) blast
  have inv: "gf_inv a = (if 2 \<le> unat a then et ! (255 - lt ! unat a) else (replicate 256 0)[1 := 1] ! unat a)"
    for a :: byte
    by (simp only: gf_inv_def build_tables [OF b] nth_fold_update) simp
  have "gf_mul (pw n) (gf_inv (pw n)) = 1" if n: "n < 255" for n
  proof (cases "n = 0")
    case True
    then have "gf_inv (pw n) = pw 0" by (simp add: inv)
    with True show ?thesis using gf_mul_pw [of 0 0] by simp
  next
    case False
    then have "pw n \<noteq> 1" using pw_inj [of n 0] n by auto
    then have "2 \<le> unat (pw n)"
      by (metis One_nat_def Suc_1 Suc_leI le_neq_implies_less less_Suc_eq_le not_less_eq_eq
          pw_ne_0 unat_1 unat_byte_eq_0 word_unat_eq_iff zero_less_iff_neq_zero)
    then have "gf_inv (pw n) = pw (255 - n)" using n by (simp add: inv l e)
    then show ?thesis using n pw_255 by (simp add: gf_mul_pw)
  qed
  from this [of "n mod 255"] show ?thesis by (simp add: pw_mod)
qed

lemma gf_inv_0 [simp]: "gf_inv 0 = 0"
  by (rule build_exp_log_spec) (simp only: gf_inv_def build_tables nth_fold_update, simp)

section \<open>Field laws\<close>

lemma gf_mul_comm: "gf_mul a b = gf_mul b a"
  by (cases "a = 0"; cases "b = 0") (auto elim!: pw_cases simp: gf_mul_pw add.commute)

lemma gf_mul_nonzero: "a \<noteq> 0 \<Longrightarrow> b \<noteq> 0 \<Longrightarrow> gf_mul a b \<noteq> 0"
  by (auto elim!: pw_cases simp: gf_mul_pw)

lemma gf_mul_assoc: "gf_mul (gf_mul a b) c = gf_mul a (gf_mul b c)"
  by (cases "a = 0"; cases "b = 0"; cases "c = 0") (auto elim!: pw_cases simp: gf_mul_pw add.assoc)

lemma gf_mul_1: "gf_mul 1 a = a"
  using gf_mul_pw [of 0] by (cases "a = 0") (auto elim!: pw_cases)

lemma gf_mul_funpow: "gf_mul (pw n) b = (xtime ^^ n) b"
proof (cases "b = 0")
  case True
  have "(xtime ^^ n) 0 = 0" by (induction n) simp_all
  with True show ?thesis by simp
next
  case False
  then show ?thesis by (auto elim!: pw_cases simp: gf_mul_pw pw_add)
qed

lemma funpow_xtime_xor: "(xtime ^^ n) (a XOR b) = (xtime ^^ n) a XOR (xtime ^^ n) b"
  by (induction n) (simp_all add: xtime_xor)

lemma gf_mul_xor: "gf_mul a (b XOR c) = gf_mul a b XOR gf_mul a c"
  by (cases "a = 0") (auto elim!: pw_cases simp: gf_mul_funpow funpow_xtime_xor)

datatype gf = GF (byte_of: byte)

lemma gf_eq_iff: "x = y \<longleftrightarrow> byte_of x = byte_of y"
  by (cases x; cases y) simp

instantiation gf :: field
begin

definition zero_gf :: gf where "0 = GF 0"

definition one_gf :: gf where "1 = GF 1"

definition plus_gf :: "gf \<Rightarrow> gf \<Rightarrow> gf" where "x + y = GF (byte_of x XOR byte_of y)"

definition minus_gf :: "gf \<Rightarrow> gf \<Rightarrow> gf" where "x - y = GF (byte_of x XOR byte_of y)"

definition uminus_gf :: "gf \<Rightarrow> gf" where "- x = (x :: gf)"

definition times_gf :: "gf \<Rightarrow> gf \<Rightarrow> gf" where "x * y = GF (gf_mul (byte_of x) (byte_of y))"

definition inverse_gf :: "gf \<Rightarrow> gf" where "inverse x = GF (gf_inv (byte_of x))"

definition divide_gf :: "gf \<Rightarrow> gf \<Rightarrow> gf" where "x div y = x * inverse (y :: gf)"

instance
proof
  fix a b c :: gf
  show "a * b * c = a * (b * c)" by (simp add: times_gf_def gf_mul_assoc)
  show "a * b = b * a" by (simp add: times_gf_def gf_mul_comm)
  show "1 * a = a" by (simp add: times_gf_def one_gf_def gf_mul_1)
  show "a + b + c = a + (b + c)" by (simp add: plus_gf_def ac_simps)
  show "a + b = b + a" by (simp add: plus_gf_def ac_simps)
  show "0 + a = a" by (simp add: plus_gf_def zero_gf_def)
  show "- a + a = 0" by (simp add: plus_gf_def zero_gf_def uminus_gf_def)
  show "a - b = a + - b" by (simp add: plus_gf_def minus_gf_def uminus_gf_def)
  show "(a + b) * c = a * c + b * c"
    by (simp add: plus_gf_def times_gf_def gf_mul_comm [of _ "byte_of c"] gf_mul_xor)
  show "(0 :: gf) \<noteq> 1" by (simp add: zero_gf_def one_gf_def)
  show "inverse a * a = 1" if "a \<noteq> 0"
    using that by (cases a)
      (auto simp: inverse_gf_def times_gf_def one_gf_def zero_gf_def gf_mul_comm [of "gf_inv _"]
        gf_inv_pw elim!: pw_cases)
  show "a div b = a * inverse b" by (simp add: divide_gf_def)
  show "inverse (0 :: gf) = 0" by (simp add: inverse_gf_def zero_gf_def)
qed

end

section \<open>Reading bytes as field elements\<close>

lemma GF_0 [simp]: "GF 0 = 0" and GF_1 [simp]: "GF 1 = 1"
  by (simp_all add: zero_gf_def one_gf_def)

lemma GF_xor: "GF (a XOR b) = GF a + GF b"
  by (simp add: plus_gf_def)

lemma GF_mul: "GF (gf_mul a b) = GF a * GF b"
  by (simp add: times_gf_def)

lemma GF_inv: "GF (gf_inv a) = inverse (GF a)"
  by (simp add: inverse_gf_def)

lemma GF_eq_0 [simp]: "GF a = 0 \<longleftrightarrow> a = 0" and GF_eq_1: "GF a = 1 \<longleftrightarrow> a = 1"
  by (simp_all only: zero_gf_def one_gf_def gf.inject)

lemma gf_neg [simp]: "- x = (x :: gf)"
  by (simp add: uminus_gf_def)

lemma gf_minus [simp]: "x - y = x + (y :: gf)"
  by (simp add: plus_gf_def minus_gf_def)

lemma gf_add_self [simp]: "x + x = (0 :: gf)"
  by (simp only: plus_gf_def xor_self_eq zero_gf_def)

lemma GF_pw: "GF (pw n) = GF 2 ^ n"
proof (induction n)
  case (Suc n)
  have "pw (Suc n) = gf_mul 2 (pw n)"
    using gf_mul_pw [of 1 n] by (simp only: pw_small plus_1_eq_Suc)
  with Suc show ?case by (simp add: GF_mul del: pw.simps)
qed (simp del: pw.simps add: pw.simps(1))

lemmas gf_simps = GF_xor GF_mul GF_inv

section \<open>The tables against polynomial arithmetic\<close>

text \<open>
  Reference multiplication: shift-and-add modulo \<open>x^8 + x^4 + x^3 + x^2 + 1\<close>;
  \<open>xtime\<close> multiplies by \<open>x\<close> and reduces by \<open>0x1D\<close>.
\<close>

primrec poly_mul :: "nat \<Rightarrow> byte \<Rightarrow> byte \<Rightarrow> byte" where
  "poly_mul 0 a b = 0"
| "poly_mul (Suc n) a b = poly_mul n a b XOR (if bit b n then (xtime ^^ n) a else 0)"

lemma take_bit_Suc_pw:
  assumes "n < 8"
  shows "take_bit (Suc n) b = take_bit n b XOR (if bit b n then pw n else 0)"
proof -
  have "n \<in> {0, 1, 2, 3, 4, 5, 6, 7}" using assms by auto
  then have "pw n = push_bit n 1" using pw_small by auto
  then show ?thesis
    by (simp only:) (rule bit_eqI, auto simp: bit_simps less_Suc_eq)
qed

lemma poly_mul_take_bit: "n \<le> 8 \<Longrightarrow> poly_mul n a b = gf_mul a (take_bit n b)"
  by (induction n) (simp_all add: take_bit_Suc_pw gf_mul_xor gf_mul_comm [of a "pw _"] gf_mul_funpow)

lemma gf_inv_left: "a \<noteq> 0 \<Longrightarrow> gf_mul a (gf_inv a) = 1"
  by (auto elim!: pw_cases simp: gf_inv_pw)

text \<open>The look-up tables that \<open>build_gf_tables\<close> fills once per process are the
  arithmetic of GF(2^8) modulo 0x11D. Entry \<open>mul[a][b]\<close> is the shift-and-add product of
  the polynomials \<open>a\<close> and \<open>b\<close> over all eight bits of \<open>b\<close>, and \<open>inverse[a]\<close> is the multiplicative
  inverse of every non-zero \<open>a\<close>, with the sentinel 0 for 0.\<close>

theorem gf_tables_polynomial:
  "mul_tab build_gf_tables ! unat a ! unat b = poly_mul 8 a b \<and>
   poly_mul 8 a (inverse_tab build_gf_tables ! unat a) = (if a = 0 then 0 else 1)"
proof -
  have "poly_mul 8 x y = gf_mul x y" for x y
    by (simp add: poly_mul_take_bit take_bit_word_eq_self)
  then show ?thesis
    using gf_inv_left by (simp add: gf_mul_def [symmetric] gf_inv_def [symmetric])
qed

end
