(* ===== verification/FieldMatrix.thy ===== *)
theory FieldMatrix
  imports Prelude
begin

text \<open>
  Linear algebra over an arbitrary field, as far as the erasure code needs it. Matrices are
  functions \<open>nat \<Rightarrow> nat \<Rightarrow> 'a\<close> read below a bound \<open>k\<close>. Two results:
  a polynomial with \<open>k\<close> coefficients and \<open>k\<close> distinct roots is zero, and the invariant
  of in-place Gauss-Jordan inversion with row exchanges (the scheme of \<open>invert_matrix\<close>),
  whose steps are stated here once, free of the array layout of the code.
\<close>

section \<open>Polynomials with many roots\<close>

definition peval :: "nat \<Rightarrow> (nat \<Rightarrow> 'a::comm_ring_1) \<Rightarrow> 'a \<Rightarrow> 'a" where
  "peval k c x = (\<Sum>j<k. c j * x ^ j)"

lemma peval_Suc: "peval (Suc n) c x = c 0 + x * peval n (\<lambda>j. c (Suc j)) x"
  by (simp add: peval_def sum.lessThan_Suc_shift sum_distrib_left algebra_simps
      del: sum.lessThan_Suc)

text \<open>Synthetic division by \<open>x - a\<close>: the quotient's coefficients.\<close>

definition quot :: "nat \<Rightarrow> (nat \<Rightarrow> 'a::comm_ring_1) \<Rightarrow> 'a \<Rightarrow> nat \<Rightarrow> 'a" where
  "quot n c a i = peval (n - i) (\<lambda>t. c (Suc (i + t))) a"

lemma quot_step: "i < n \<Longrightarrow> quot n c a i = c (Suc i) + a * quot n c a (Suc i)"
  using peval_Suc [of "n - Suc i" "\<lambda>t. c (Suc (i + t))" a] Suc_diff_Suc [of i n]
  by (simp add: quot_def)

lemma quot_end: "quot n c a n = 0"
  by (simp add: quot_def peval_def)

lemma peval_quot: "peval (Suc n) c x = (x - a) * peval n (quot n c a) x + peval (Suc n) c a"
proof -
  let ?T = "peval n (\<lambda>j. quot n c a (Suc j)) x"
  have "(\<Sum>j<n. c (Suc j) * x ^ j) = (\<Sum>j<n. (quot n c a j - a * quot n c a (Suc j)) * x ^ j)"
    by (rule sum.cong) (simp_all add: quot_step)
  also have "\<dots> = (\<Sum>j<n. quot n c a j * x ^ j) - a * (\<Sum>j<n. quot n c a (Suc j) * x ^ j)"
    by (simp add: sum_subtractf sum_distrib_left algebra_simps)
  finally have shift: "peval n (\<lambda>j. c (Suc j)) x = peval n (quot n c a) x - a * ?T"
    by (simp only: peval_def)
  have "peval (Suc n) (quot n c a) x = peval n (quot n c a) x"
    by (simp add: peval_def quot_end)
  then have xT: "x * ?T = peval n (quot n c a) x - quot n c a 0"
    by (simp add: peval_Suc eq_diff_eq add.commute)
  have "x * peval n (\<lambda>j. c (Suc j)) x = x * peval n (quot n c a) x - a * (x * ?T)"
    by (simp only: shift right_diff_distrib mult.left_commute)
  also have "\<dots> = (x - a) * peval n (quot n c a) x + a * quot n c a 0"
    by (simp only: xT) (simp add: algebra_simps)
  finally show ?thesis
    by (simp add: peval_Suc [of n c] quot_def [of n c a 0])
qed

lemma peval_roots_zero:
  fixes c :: "nat \<Rightarrow> 'a::idom"
  assumes "finite S" "card S = k" "\<forall>x\<in>S. peval k c x = 0" "j < k"
  shows "c j = 0"
  using assms
proof (induction k arbitrary: S c j)
  case (Suc n)
  from Suc.prems(2) obtain a S' where S: "S = insert a S'" "a \<notin> S'"
    by (metis card_Suc_eq)
  have fin: "finite S'" "card S' = n" using Suc.prems S by auto
  have at_a: "peval (Suc n) c a = 0" using Suc.prems S by simp
  have "peval n (quot n c a) x = 0" if "x \<in> S'" for x
    using peval_quot [of n c x a] at_a Suc.prems(3) S that by auto
  then have q: "quot n c a i = 0" if "i \<le> n" for i
    using Suc.IH [OF fin, of "quot n c a"] that quot_end by (cases "i = n") auto
  show ?case
  proof (cases j)
    case 0
    then show ?thesis
      using at_a q [of 0] by (simp add: peval_Suc quot_def)
  next
    case (Suc i)
    then show ?thesis
      using quot_step [of i n c a] q [of i] q [of "Suc i"] Suc.prems(4) by simp
  qed
qed simp

section \<open>Matrices\<close>

definition mmul :: "nat \<Rightarrow> (nat \<Rightarrow> nat \<Rightarrow> 'a::comm_ring_1) \<Rightarrow> (nat \<Rightarrow> nat \<Rightarrow> 'a) \<Rightarrow> nat \<Rightarrow> nat \<Rightarrow> 'a" where
  "mmul k A B i j = (\<Sum>l<k. A i l * B l j)"

definition mvec :: "nat \<Rightarrow> (nat \<Rightarrow> nat \<Rightarrow> 'a::comm_ring_1) \<Rightarrow> (nat \<Rightarrow> 'a) \<Rightarrow> nat \<Rightarrow> 'a" where
  "mvec k A x i = (\<Sum>j<k. A i j * x j)"

definition delta :: "nat \<Rightarrow> nat \<Rightarrow> 'a::comm_ring_1" where
  "delta i j = (if i = j then 1 else 0)"

lemma sum_delta [simp]: "i < k \<Longrightarrow> (\<Sum>j<k. delta i j * f j) = f i"
  "i < k \<Longrightarrow> (\<Sum>j<k. f j * delta j i) = f i"
  by (simp_all add: delta_def if_distrib [of "\<lambda>x. x * _"] if_distrib [of "\<lambda>x. _ * x"] cong: if_cong)

lemma mvec_mmul: "mvec k (mmul k A B) x i = mvec k A (mvec k B x) i"
  by (simp only: mvec_def mmul_def sum_distrib_left sum_distrib_right mult.assoc) (rule sum.swap)

definition ker_trivial :: "nat \<Rightarrow> (nat \<Rightarrow> nat \<Rightarrow> 'a::comm_ring_1) \<Rightarrow> bool" where
  "ker_trivial k A \<longleftrightarrow> (\<forall>x. (\<forall>i<k. mvec k A x i = 0) \<longrightarrow> (\<forall>i<k. x i = 0))"

lemma ker_trivialD: "ker_trivial k A \<Longrightarrow> (\<And>i. i < k \<Longrightarrow> mvec k A x i = 0) \<Longrightarrow> i < k \<Longrightarrow> x i = 0"
  by (auto simp: ker_trivial_def)

section \<open>In-place Gauss-Jordan inversion\<close>

text \<open>
  \<open>D\<close> is the matrix to invert, \<open>A\<close> the working array, \<open>P\<close> the set of columns already
  pivoted, \<open>\<sigma>\<close> the row exchanges made so far. The ghost matrix \<open>R\<close> is the product
  of the row operations: columns of \<open>A\<close> outside \<open>P\<close> hold \<open>R D\<close>, columns in \<open>P\<close> hold the
  columns of \<open>R\<close> that are no longer unit vectors.
\<close>

definition sw :: "nat \<Rightarrow> nat \<Rightarrow> nat \<Rightarrow> nat" where
  "sw a b i = (if i = a then b else if i = b then a else i)"

lemma sw_simps [simp]: "sw a b a = b" "sw a b b = a" "sw a b (sw a b i) = i" "sw a a = id"
  by (auto simp: sw_def)

lemma sw_less: "a < k \<Longrightarrow> b < k \<Longrightarrow> sw a b i < k \<longleftrightarrow> i < k"
  by (auto simp: sw_def)

lemma sw_notin: "a \<notin> P \<Longrightarrow> b \<notin> P \<Longrightarrow> sw a b i \<in> P \<longleftrightarrow> i \<in> P"
  by (auto simp: sw_def)

lemma sw_eq_iff: "sw a b i = sw a b j \<longleftrightarrow> i = j"
  by (metis sw_simps(3))

definition gj_inv ::
  "nat \<Rightarrow> (nat \<Rightarrow> nat \<Rightarrow> 'a::field) \<Rightarrow> nat set \<Rightarrow> (nat \<Rightarrow> nat) \<Rightarrow> (nat \<Rightarrow> nat \<Rightarrow> 'a) \<Rightarrow> (nat \<Rightarrow> nat \<Rightarrow> 'a) \<Rightarrow> bool"
where
  "gj_inv k D P \<sigma> R A \<longleftrightarrow>
     P \<subseteq> {..<k} \<and> (\<forall>i<k. \<sigma> i < k) \<and>
     (\<forall>i<k. \<forall>j<k. j \<notin> P \<longrightarrow> A i j = mmul k R D i j) \<and>
     (\<forall>i<k. \<forall>j\<in>P. mmul k R D i j = delta i j) \<and>
     (\<forall>i<k. \<forall>r\<in>P. A i r = R i (\<sigma> r)) \<and>
     (\<forall>i<k. \<forall>r<k. r \<notin> P \<longrightarrow> R i (\<sigma> r) = delta i r) \<and>
     ker_trivial k R"

lemma gj_init: "gj_inv k D {} id delta D"
  by (simp add: gj_inv_def mmul_def mvec_def ker_trivial_def)

definition swap_rows :: "nat \<Rightarrow> nat \<Rightarrow> (nat \<Rightarrow> nat \<Rightarrow> 'a) \<Rightarrow> nat \<Rightarrow> nat \<Rightarrow> 'a" where
  "swap_rows a b A i j = A (sw a b i) j"

lemma mmul_swap_rows: "mmul k (swap_rows a b R) D i j = mmul k R D (sw a b i) j"
  by (simp add: mmul_def swap_rows_def)

lemma ker_trivial_swap_rows:
  assumes "ker_trivial k R" "a < k" "b < k"
  shows "ker_trivial k (swap_rows a b R)"
  unfolding ker_trivial_def
proof (intro allI impI)
  fix x i
  assume z: "\<forall>i<k. mvec k (swap_rows a b R) x i = 0" and i: "i < k"
  have "mvec k R x j = 0" if "j < k" for j
    using z that assms(2,3) sw_less [of a k b j]
    by (auto simp: mvec_def swap_rows_def dest!: spec [of _ "sw a b j"])
  then show "x i = 0" using assms(1) i by (auto intro: ker_trivialD)
qed

lemma gj_swap:
  assumes "gj_inv k D P \<sigma> R A" "a < k" "b < k" "a \<notin> P" "b \<notin> P"
  shows "gj_inv k D P (\<sigma> \<circ> sw a b) (swap_rows a b R) (swap_rows a b A)"
proof -
  note inv = assms(1) [unfolded gj_inv_def]
  have s: "sw a b i < k" if "i < k" for i
    using that assms by (simp add: sw_less)
  have fixP: "sw a b r = r" if "r \<in> P" for r
    using that assms by (auto simp: sw_def)
  have d: "delta (sw a b i) j = (delta i (sw a b j) :: 'a)" for i j
    by (auto simp: delta_def)
  have dP: "delta (sw a b i) j = (delta i j :: 'a)" if "j \<in> P" for i j
    using d [of i j] fixP [OF that] by simp
  show ?thesis
    unfolding gj_inv_def using inv s assms
    by (auto simp: mmul_swap_rows swap_rows_def [of a b A] swap_rows_def [of a b R] fixP dP d
        sw_notin ker_trivial_swap_rows)
qed

definition pivot_rows :: "nat \<Rightarrow> (nat \<Rightarrow> 'a::field) \<Rightarrow> (nat \<Rightarrow> nat \<Rightarrow> 'a) \<Rightarrow> nat \<Rightarrow> nat \<Rightarrow> 'a" where
  "pivot_rows p f M i j = (if i = p then f p * M p j else M i j - f i * M p j)"

text \<open>
  Row \<open>p\<close> scaled by \<open>f p\<close>, and a multiple of row \<open>p\<close> subtracted from the others. In the
  elimination step \<open>f p\<close> is the inverse of the pivot and \<open>f i\<close> is the entry of
  column \<open>p\<close> divided by the pivot; the working array stores \<open>f p\<close> and \<open>- f i\<close>
  in the column that becomes a unit vector.
\<close>

definition gj_coeff :: "(nat \<Rightarrow> nat \<Rightarrow> 'a::field) \<Rightarrow> nat \<Rightarrow> nat \<Rightarrow> 'a" where
  "gj_coeff A p i = (if i = p then inverse (A p p) else A i p * inverse (A p p))"

definition gj_elim_array :: "nat \<Rightarrow> (nat \<Rightarrow> nat \<Rightarrow> 'a::field) \<Rightarrow> nat \<Rightarrow> nat \<Rightarrow> 'a" where
  "gj_elim_array p A i j =
     (if j = p then (if i = p then inverse (A p p) else - (A i p * inverse (A p p)))
      else pivot_rows p (gj_coeff A p) A i j)"

lemma mmul_pivot_rows:
  "p < k \<Longrightarrow> mmul k (pivot_rows p f R) D i j = pivot_rows p f (mmul k R D) i j"
  by (simp add: mmul_def pivot_rows_def sum_distrib_left sum_subtractf algebra_simps)

lemma mvec_pivot_rows:
  "mvec k (pivot_rows p f R) x i =
     (if i = p then f p * mvec k R x p else mvec k R x i - f i * mvec k R x p)"
  by (simp add: mvec_def pivot_rows_def sum_distrib_left sum_subtractf algebra_simps)

lemma ker_trivial_pivot_rows:
  assumes "ker_trivial k R" "p < k" "f p \<noteq> 0"
  shows "ker_trivial k (pivot_rows p f R)"
  unfolding ker_trivial_def
proof (intro allI impI)
  fix x i
  assume z: "\<forall>i<k. mvec k (pivot_rows p f R) x i = 0" and i: "i < k"
  from z assms(2,3) have p0: "mvec k R x p = 0" by (auto simp: mvec_pivot_rows)
  have "mvec k R x j = 0" if "j < k" for j
    using z [rule_format, OF that] p0 by (simp add: mvec_pivot_rows split: if_splits)
  then show "x i = 0" using assms(1) i by (auto intro: ker_trivialD)
qed

lemma gj_elim:
  assumes "gj_inv k D P \<sigma> R A" "p < k" "p \<notin> P" "A p p \<noteq> 0"
  shows "gj_inv k D (insert p P) \<sigma> (pivot_rows p (gj_coeff A p) R) (gj_elim_array p A)"
proof -
  note inv = assms(1) [unfolded gj_inv_def]
  let ?f = "gj_coeff A p"
  have RDp: "mmul k R D i p = A i p" if "i < k" for i
    using inv that assms(2,3) by auto
  have Rp: "R i (\<sigma> p) = delta i p" if "i < k" for i
    using inv that assms(2,3) by auto
  have rest: "A i j = mmul k R D i j" if "i < k" "j < k" "j \<notin> P" for i j
    using inv that by auto
  have old: "mmul k R D i j = delta i j" if "i < k" "j \<in> P" for i j
    using inv that by auto
  have cols: "A i r = R i (\<sigma> r)" if "i < k" "r \<in> P" for i r
    using inv that by auto
  have units: "R i (\<sigma> r) = delta i r" if "i < k" "r < k" "r \<notin> P" for i r
    using inv that by auto
  show ?thesis
    unfolding gj_inv_def
  proof (intro conjI allI impI ballI)
    show "insert p P \<subseteq> {..<k}" using inv assms(2) by simp
    show "\<sigma> i < k" if "i < k" for i using inv that by simp
    show "gj_elim_array p A i j = mmul k (pivot_rows p ?f R) D i j"
      if "i < k" "j < k" "j \<notin> insert p P" for i j
      using that assms(2) rest
      by (simp add: mmul_pivot_rows gj_elim_array_def pivot_rows_def)
    show "mmul k (pivot_rows p ?f R) D i j = delta i j" if "i < k" "j \<in> insert p P" for i j
    proof (cases "j = p")
      case True
      with that assms(2,4) show ?thesis
        by (simp add: mmul_pivot_rows pivot_rows_def RDp gj_coeff_def delta_def)
    next
      case False
      with that assms(2,3) show ?thesis
        by (auto simp: mmul_pivot_rows pivot_rows_def old delta_def)
    qed
    show "gj_elim_array p A i r = pivot_rows p ?f R i (\<sigma> r)" if "i < k" "r \<in> insert p P" for i r
    proof (cases "r = p")
      case True
      with that assms(2) show ?thesis
        by (simp add: gj_elim_array_def pivot_rows_def Rp gj_coeff_def delta_def)
    next
      case False
      with that assms(2,3) show ?thesis
        by (auto simp: gj_elim_array_def pivot_rows_def cols)
    qed
    show "pivot_rows p ?f R i (\<sigma> r) = delta i r" if "i < k" "r < k" "r \<notin> insert p P" for i r
      using that assms(2) by (auto simp: pivot_rows_def units delta_def)
    show "ker_trivial k (pivot_rows p ?f R)"
      using inv assms(2,4) by (intro ker_trivial_pivot_rows) (auto simp: gj_coeff_def)
  qed
qed

text \<open>If the matrix has a trivial kernel, a pivot is found as long as one is needed.\<close>

lemma gj_progress:
  assumes inv: "gj_inv k D P \<sigma> R A" and ker: "ker_trivial k D" and P: "P \<noteq> {..<k}"
  obtains r c where "r < k" "c < k" "r \<notin> P" "c \<notin> P" "A r c \<noteq> 0"
proof (rule ccontr)
  assume neg: "\<not> thesis"
  note found = that
  note inv' = inv [unfolded gj_inv_def]
  from inv' P obtain c where c: "c < k" "c \<notin> P" by auto
  have zero: "mmul k R D r c = 0" if "r < k" "r \<notin> P" for r
  proof (rule ccontr)
    assume "mmul k R D r c \<noteq> 0"
    then have "A r c \<noteq> 0" using inv' that(1) c by simp
    with that c show False using neg found by blast
  qed
  define x where "x j = (if j \<in> P then - mmul k R D j c else delta j c)" for j
  have fin: "finite P" and sub: "P \<subseteq> {..<k}" using inv' finite_subset by auto
  have "mvec k R (mvec k D x) i = 0" if i: "i < k" for i
  proof -
    have split: "{..<k} = P \<union> ({..<k} - P)" using sub by auto
    have "mvec k (mmul k R D) x i =
        (\<Sum>j\<in>P. mmul k R D i j * x j) + (\<Sum>j\<in>{..<k} - P. mmul k R D i j * x j)"
      using sum.subset_diff [OF sub, of "\<lambda>j. mmul k R D i j * x j"] by (simp add: mvec_def add.commute)
    also have "(\<Sum>j\<in>P. mmul k R D i j * x j) = (\<Sum>j\<in>P. if j = i then - mmul k R D i c else 0)"
      using inv' i by (intro sum.cong) (auto simp: x_def delta_def)
    also have "\<dots> = (if i \<in> P then - mmul k R D i c else 0)"
      using fin by simp
    also have "(\<Sum>j\<in>{..<k} - P. mmul k R D i j * x j) = (\<Sum>j\<in>{..<k} - P. if j = c then mmul k R D i c else 0)"
      by (intro sum.cong) (auto simp: x_def delta_def)
    also have "\<dots> = mmul k R D i c"
      using c by simp
    finally have "mvec k (mmul k R D) x i = 0"
      using zero [OF i] by (cases "i \<in> P") simp_all
    then show ?thesis by (simp only: mvec_mmul)
  qed
  then have "mvec k D x i = 0" if "i < k" for i
    using inv' that by (auto intro: ker_trivialD)
  then have "x c = 0" using ker c by (auto intro: ker_trivialD)
  then show False using c by (simp add: x_def delta_def)
qed

lemma gj_done:
  assumes "gj_inv k D {..<k} \<sigma> R A"
  shows "i < k \<Longrightarrow> j < k \<Longrightarrow> mmul k R D i j = delta i j"
    and "i < k \<Longrightarrow> r < k \<Longrightarrow> A i r = R i (\<sigma> r)"
  using assms by (auto simp: gj_inv_def)

section \<open>Lagrange bases\<close>

text \<open>
  If column \<open>j\<close> of \<open>W\<close> holds the coefficients of the \<open>j\<close>-th Lagrange basis
  polynomial for the points \<open>pt 0 .. pt (k - 1)\<close>, then evaluating the basis at any
  \<open>k\<close> distinct points gives a matrix with a trivial kernel.
\<close>

lemma peval_linear: "(\<Sum>j<n. peval k (\<lambda>c. W c j) x * y j) = peval k (\<lambda>c. \<Sum>j<n. W c j * y j) x"
  unfolding peval_def sum_distrib_right
  by (subst sum.swap) (simp add: ac_simps)

lemma lagrange_ker_trivial:
  fixes W :: "nat \<Rightarrow> nat \<Rightarrow> 'a::idom"
  assumes interp: "\<And>r j. r < k \<Longrightarrow> j < k \<Longrightarrow> peval k (\<lambda>c. W c j) (pt r) = delta r j"
    and inj: "inj_on q {..<k}"
  shows "ker_trivial k (\<lambda>i j. peval k (\<lambda>c. W c j) (q i))"
  unfolding ker_trivial_def
proof (intro allI impI)
  fix x i
  assume z: "\<forall>i<k. mvec k (\<lambda>i j. peval k (\<lambda>c. W c j) (q i)) x i = 0" and i: "i < k"
  define g where "g c = (\<Sum>j<k. W c j * x j)" for c
  have "peval k g (q r) = 0" if "r < k" for r
    using z that by (simp add: mvec_def peval_linear g_def [abs_def])
  then have zero: "g c = 0" if "c < k" for c
    using that inj by (intro peval_roots_zero [of "q ` {..<k}" k]) (auto simp: card_image)
  have "x i = (\<Sum>j<k. delta i j * x j)"
    using i by simp
  also have "\<dots> = (\<Sum>j<k. peval k (\<lambda>c. W c j) (pt i) * x j)"
    using interp i by (intro sum.cong) auto
  also have "\<dots> = peval k g (pt i)"
    by (simp add: peval_linear g_def [abs_def])
  also have "\<dots> = 0"
    by (simp add: peval_def zero)
  finally show "x i = 0" .
qed

end
