(* ===== verification/FecMatrix.thy ===== *)
theory FecMatrix
  imports GaloisField FieldMatrix
begin

text \<open>
  The matrix routines of \<open>erasure/fec.rs\<close> on flat row-major byte arrays: \<open>addmul\<close>,
  \<open>matmul\<close>, \<open>invert_matrix\<close> and \<open>invert_vandermonde\<close>, translated loop by loop,
  and their correctness: the in-place Gauss-Jordan routine returns a left inverse and fails
  on singular matrices only; the Vandermonde routine returns the coefficients of the
  Lagrange basis. \<open>mat k src\<close> reads an array as a matrix over the field.
\<close>

section \<open>Errors\<close>

datatype fec_error =
    ZeroK
  | ZeroM
  | BigM
  | KGtM
  | NotEnoughChunks nat nat
  | IndexOutOfRange nat nat
  | InconsistentShareSize nat nat

section \<open>The code: addmul, matmul\<close>

definition addmul :: "bytes \<Rightarrow> bytes \<Rightarrow> byte \<Rightarrow> nat \<Rightarrow> bytes" where
  "addmul dst src c len =
     (if c = 0 \<or> src = [] then dst
      else fold (\<lambda>i d. d[i := d ! i XOR gf_mul c (src ! i)]) [0..<len] dst)"

definition matmul :: "bytes \<Rightarrow> bytes \<Rightarrow> bytes \<Rightarrow> nat \<Rightarrow> nat \<Rightarrow> nat \<Rightarrow> bytes" where
  "matmul a b c n k m =
     fold (\<lambda>row c. fold (\<lambda>col c.
         c[row * m + col :=
             fold (\<lambda>i acc. acc XOR gf_mul (a ! (row * k + i)) (b ! (col + i * m))) [0..<k] 0])
       [0..<m] c) [0..<n] c"

section \<open>The code: invert\_matrix\<close>

definition swap_at :: "nat \<Rightarrow> nat \<Rightarrow> 'a list \<Rightarrow> 'a list" where
  "swap_at i j xs = xs[i := xs ! j, j := xs ! i]"

definition find_pivot :: "bytes \<Rightarrow> nat \<Rightarrow> byte list \<Rightarrow> nat \<Rightarrow> (nat \<times> nat) option" where
  "find_pivot src k ipiv col =
     (if ipiv ! col \<noteq> 1 \<and> src ! (col * k + col) \<noteq> 0 then Some (col, col)
      else find (\<lambda>(row, ix). ipiv ! row \<noteq> 1 \<and> ipiv ! ix = 0 \<and> src ! (row * k + ix) \<noteq> 0)
             (List.product [0..<k] [0..<k]))"

definition swap_rows_code :: "nat \<Rightarrow> nat \<Rightarrow> nat \<Rightarrow> bytes \<Rightarrow> bytes" where
  "swap_rows_code irow icol k src =
     (if irow \<noteq> icol then fold (\<lambda>ix s. swap_at (irow * k + ix) (icol * k + ix) s) [0..<k] src
      else src)"

definition normalize_row :: "nat \<Rightarrow> nat \<Rightarrow> bytes \<Rightarrow> bytes" where
  "normalize_row icol k src =
     (let pivot_val = src ! (icol * k + icol)
      in if pivot_val \<noteq> 1
         then fold (\<lambda>ix s. s[icol * k + ix := gf_mul (gf_inv pivot_val) (s ! (icol * k + ix))])
                [0..<k] (src[icol * k + icol := 1])
         else src)"

definition eliminate_row :: "bytes \<Rightarrow> nat \<Rightarrow> nat \<Rightarrow> nat \<Rightarrow> bytes \<Rightarrow> bytes" where
  "eliminate_row pivot_row icol k ix s =
     (if ix = icol then s
      else let c = s ! (ix * k + icol)
           in if c = 0 then s
              else fold (\<lambda>jj s. s[ix * k + jj := s ! (ix * k + jj) XOR gf_mul c (pivot_row ! jj)])
                     [0..<k] (s[ix * k + icol := 0]))"

definition eliminate :: "nat \<Rightarrow> nat \<Rightarrow> bytes \<Rightarrow> bytes" where
  "eliminate icol k src =
     (let pivot_row = segment (icol * k) (icol * k + k) src
      in fold (eliminate_row pivot_row icol k) [0..<k] src)"

record gj_state =
  gj_src :: bytes
  gj_indxc :: "nat list"
  gj_indxr :: "nat list"
  gj_ipiv :: "byte list"

definition gj_step :: "nat \<Rightarrow> nat \<Rightarrow> gj_state \<Rightarrow> fec_error + gj_state" where
  "gj_step k col st =
     (case find_pivot (gj_src st) k (gj_ipiv st) col of
        None \<Rightarrow> Inl (NotEnoughChunks k 0)
      | Some (irow, icol) \<Rightarrow>
          Inr \<lparr> gj_src = eliminate icol k (normalize_row icol k (swap_rows_code irow icol k (gj_src st))),
                gj_indxc = (gj_indxc st)[col := icol],
                gj_indxr = (gj_indxr st)[col := irow],
                gj_ipiv = (gj_ipiv st)[icol := gj_ipiv st ! icol + 1] \<rparr>)"

definition unswap_columns :: "nat list \<Rightarrow> nat list \<Rightarrow> nat \<Rightarrow> nat \<Rightarrow> bytes \<Rightarrow> bytes" where
  "unswap_columns indxr indxc k n src =
     fold (\<lambda>col s.
        if indxr ! col \<noteq> indxc ! col
        then fold (\<lambda>row s. swap_at (row * k + indxr ! col) (row * k + indxc ! col) s) [0..<k] s
        else s) (rev [0..<n]) src"

definition invert_matrix :: "bytes \<Rightarrow> nat \<Rightarrow> fec_error + bytes" where
  "invert_matrix src k =
     andThen (foldE (gj_step k) [0..<k]
        \<lparr> gj_src = src, gj_indxc = replicate k 0, gj_indxr = replicate k 0, gj_ipiv = replicate k 0 \<rparr>)
       (\<lambda>st. Inr (unswap_columns (gj_indxr st) (gj_indxc st) k k (gj_src st)))"

section \<open>Arrays as matrices\<close>

definition mat :: "nat \<Rightarrow> bytes \<Rightarrow> nat \<Rightarrow> nat \<Rightarrow> gf" where
  "mat k src i j = GF (src ! (i * k + j))"

lemma idx_less: "i < n \<Longrightarrow> j < k \<Longrightarrow> i * k + j < n * (k :: nat)"
proof -
  assume "i < n" "j < k"
  then have "i * k + j < Suc i * k" by simp
  also have "\<dots> \<le> n * k" using \<open>i < n\<close> by (intro mult_le_mono1) simp
  finally show ?thesis .
qed

lemma idx_eq: "j < k \<Longrightarrow> j' < k \<Longrightarrow> i * k + j = i' * k + j' \<longleftrightarrow> i = i' \<and> j = (j' :: nat)"
proof
  assume jj: "j < k" "j' < k" and eq: "i * k + j = i' * k + j'"
  from jj have d: "(i * k + j) div k = i" "(i' * k + j') div k = i'" by auto
  with eq have "i = i'" by simp
  with eq show "i = i' \<and> j = j'" by simp
qed simp

lemma nth_idx_update:
  assumes "i < k" "j < k" "i' < k" "j' < k" "k * k \<le> length s"
  shows "s[i' * k + j' := v] ! (i * k + j) = (if i = i' \<and> j = j' then v else s ! (i * k + j))"
  using assms idx_less [of i' k j' k] by (simp add: nth_list_update idx_eq)

text \<open>A loop over one row that rewrites each entry from its old value.\<close>

lemma row_loop:
  assumes "r < k" "length s = k * k" "i < k" "j < k"
  shows "length (fold (\<lambda>jj s. s[r * k + jj := f jj (s ! (r * k + jj))]) [0..<k] s) = k * k"
    and "fold (\<lambda>jj s. s[r * k + jj := f jj (s ! (r * k + jj))]) [0..<k] s ! (i * k + j) =
      (if i = r then f j (s ! (i * k + j)) else s ! (i * k + j))"
proof -
  define I where "I n t \<longleftrightarrow> length t = k * k \<and> (\<forall>i<k. \<forall>j<k. t ! (i * k + j) =
      (if i = r \<and> j < n then f j (s ! (i * k + j)) else s ! (i * k + j)))" for n t
  have "I k (fold (\<lambda>jj s. s[r * k + jj := f jj (s ! (r * k + jj))]) [0..<k] s)"
  proof (rule fold_upt_invariant)
    fix n t
    assume "n < k" "I n t"
    then show "I (Suc n) (t[r * k + n := f n (t ! (r * k + n))])"
      using assms(1) by (auto simp: I_def nth_idx_update less_Suc_eq)
  qed (use assms in \<open>auto simp: I_def\<close>)
  then show "length (fold (\<lambda>jj s. s[r * k + jj := f jj (s ! (r * k + jj))]) [0..<k] s) = k * k"
    and "fold (\<lambda>jj s. s[r * k + jj := f jj (s ! (r * k + jj))]) [0..<k] s ! (i * k + j) =
      (if i = r then f j (s ! (i * k + j)) else s ! (i * k + j))"
    using assms by (auto simp: I_def)
qed

section \<open>One round of Gauss-Jordan\<close>

lemma gj_inv_cong:
  assumes "gj_inv k D P \<sigma> R A" "\<And>i j. i < k \<Longrightarrow> j < k \<Longrightarrow> A' i j = A i j"
  shows "gj_inv k D P \<sigma> R A'"
proof -
  have "P \<subseteq> {..<k}" using assms(1) by (simp add: gj_inv_def)
  then have "A' i r = A i r" if "i < k" "r \<in> P" for i r
    using assms(2) that by auto
  then show ?thesis using assms by (simp add: gj_inv_def)
qed

lemma swap_rows_code:
  assumes "a < k" "b < k" "length s = k * k"
  shows "length (swap_rows_code a b k s) = k * k"
    and "i < k \<Longrightarrow> j < k \<Longrightarrow> mat k (swap_rows_code a b k s) i j = swap_rows a b (mat k s) i j"
proof -
  define I where "I n t \<longleftrightarrow> length t = k * k \<and> (\<forall>i<k. \<forall>j<k. t ! (i * k + j) =
      (if j < n then s ! (sw a b i * k + j) else s ! (i * k + j)))" for n t
  have "I k (fold (\<lambda>ix s. swap_at (a * k + ix) (b * k + ix) s) [0..<k] s)" if "a \<noteq> b"
  proof (rule fold_upt_invariant)
    fix n t
    assume "n < k" "I n t"
    then show "I (Suc n) (swap_at (a * k + n) (b * k + n) t)"
      using assms that
      by (auto simp: I_def swap_at_def nth_idx_update less_Suc_eq sw_def)
  qed (use assms in \<open>auto simp: I_def\<close>)
  then show "length (swap_rows_code a b k s) = k * k"
    and "i < k \<Longrightarrow> j < k \<Longrightarrow> mat k (swap_rows_code a b k s) i j = swap_rows a b (mat k s) i j"
    using assms by (auto simp: swap_rows_code_def swap_rows_def I_def mat_def)
qed

lemma normalize_row:
  assumes "p < k" "length s = k * k"
  shows "length (normalize_row p k s) = k * k"
    and "s ! (p * k + p) \<noteq> 0 \<Longrightarrow> i < k \<Longrightarrow> j < k \<Longrightarrow> mat k (normalize_row p k s) i j =
      (if i = p then (if j = p then inverse (mat k s p p) else inverse (mat k s p p) * mat k s p j)
       else mat k s i j)"
proof -
  let ?iv = "gf_inv (s ! (p * k + p))" and ?s1 = "s[p * k + p := 1]"
  have one: "gf_mul ?iv 1 = ?iv" by (simp add: gf_mul_comm gf_mul_1)
  note loop = row_loop [of p k ?s1 _ _ "\<lambda>_. gf_mul ?iv"]
  show "length (normalize_row p k s) = k * k"
    using assms loop(1) [of p p] by (simp add: normalize_row_def Let_def)
  assume nz: "s ! (p * k + p) \<noteq> 0" and ij: "i < k" "j < k"
  show "mat k (normalize_row p k s) i j =
      (if i = p then (if j = p then inverse (mat k s p p) else inverse (mat k s p p) * mat k s p j)
       else mat k s i j)"
  proof (cases "s ! (p * k + p) = 1")
    case True
    then have "mat k s p p = 1" by (simp add: mat_def)
    with True show ?thesis by (simp add: normalize_row_def)
  next
    case False
    then show ?thesis
      using assms ij loop(2) [of i j] one
      by (simp add: normalize_row_def Let_def mat_def nth_idx_update GF_mul GF_inv)
  qed
qed

lemma segment_row: "p < k \<Longrightarrow> j < k \<Longrightarrow> length s = k * k \<Longrightarrow>
    segment (p * k) (p * k + k) s ! j = s ! (p * k + j)"
  using idx_less [of p k j k] by (simp add: segment_def)

lemma eliminate_row:
  assumes "p < k" "ix < k" "ix \<noteq> p" "length s = k * k" "i < k" "j < k"
    and "length row = k"
  shows "length (eliminate_row row p k ix s) = k * k"
    and "mat k (eliminate_row row p k ix s) i j =
      (if i = ix then (if j = p then 0 else mat k s i j) + mat k s i p * GF (row ! j)
       else mat k s i j)"
proof -
  let ?c = "s ! (ix * k + p)"
  note loop = row_loop [of ix k "s[ix * k + p := 0]" _ _ "\<lambda>jj v. v XOR gf_mul ?c (row ! jj)"]
  show "length (eliminate_row row p k ix s) = k * k"
    using assms loop(1) [of i j] by (simp add: eliminate_row_def Let_def)
  show "mat k (eliminate_row row p k ix s) i j =
      (if i = ix then (if j = p then 0 else mat k s i j) + mat k s i p * GF (row ! j)
       else mat k s i j)"
    using assms loop(2) [of i j]
    by (auto simp: eliminate_row_def Let_def mat_def nth_idx_update GF_xor GF_mul)
qed

lemma eliminate_loop:
  assumes "p < k" "length s = k * k" "length row = k"
  shows "length (fold (eliminate_row row p k) [0..<k] s) = k * k"
    and "i < k \<Longrightarrow> j < k \<Longrightarrow> mat k (fold (eliminate_row row p k) [0..<k] s) i j =
      (if i = p then mat k s p j
       else (if j = p then 0 else mat k s i j) + mat k s i p * GF (row ! j))"
proof -
  define goal where "goal i j = (if i = p then mat k s p j
       else (if j = p then 0 else mat k s i j) + mat k s i p * GF (row ! j))" for i j
  define I where "I n t \<longleftrightarrow> length t = k * k \<and>
      (\<forall>i<k. \<forall>j<k. mat k t i j = (if i < n then goal i j else mat k s i j))" for n t
  have "I k (fold (eliminate_row row p k) [0..<k] s)"
  proof (rule fold_upt_invariant)
    fix n t
    assume n: "n < k" and I: "I n t"
    show "I (Suc n) (eliminate_row row p k n t)"
    proof (cases "n = p")
      case True
      then show ?thesis
        using I by (auto simp: I_def goal_def eliminate_row_def less_Suc_eq)
    next
      case False
      then show ?thesis
        using I n assms eliminate_row [of p k n t _ _ row]
        by (auto simp: I_def goal_def less_Suc_eq)
    qed
  qed (use assms in \<open>auto simp: I_def\<close>)
  then show "length (fold (eliminate_row row p k) [0..<k] s) = k * k"
    and "i < k \<Longrightarrow> j < k \<Longrightarrow> mat k (fold (eliminate_row row p k) [0..<k] s) i j =
      (if i = p then mat k s p j
       else (if j = p then 0 else mat k s i j) + mat k s i p * GF (row ! j))"
    by (auto simp: I_def goal_def)
qed

lemma eliminate_normalize:
  assumes "p < k" "length s = k * k" "s ! (p * k + p) \<noteq> 0"
  shows "length (eliminate p k (normalize_row p k s)) = k * k"
    and "i < k \<Longrightarrow> j < k \<Longrightarrow>
      mat k (eliminate p k (normalize_row p k s)) i j = gj_elim_array p (mat k s) i j"
proof -
  let ?n = "normalize_row p k s"
  let ?row = "segment (p * k) (p * k + k) ?n"
  have len: "length ?n = k * k" using normalize_row(1) assms by blast
  have "p * k + k \<le> k * k" using assms(1) by (metis Suc_leI mult.commute mult_Suc_right add.commute mult_le_mono2)
  then have row: "length ?row = k" using len by simp
  note loop = eliminate_loop [OF assms(1) len row]
  show "length (eliminate p k ?n) = k * k"
    using loop(1) by (simp add: eliminate_def Let_def)
  assume ij: "i < k" "j < k"
  have "GF (?row ! j) = mat k ?n p j"
    using assms(1) ij(2) len by (simp add: segment_row mat_def)
  then have "mat k (eliminate p k ?n) i j =
      (if i = p then mat k ?n p j
       else (if j = p then 0 else mat k ?n i j) + mat k ?n i p * mat k ?n p j)"
    using loop(2) [OF ij] by (simp add: eliminate_def Let_def)
  then show "mat k (eliminate p k ?n) i j = gj_elim_array p (mat k s) i j"
    using ij assms by (simp add: normalize_row(2) gj_elim_array_def pivot_rows_def gj_coeff_def mult.assoc)
qed

section \<open>The whole elimination\<close>

text \<open>The row exchange accumulated by the first \<open>n\<close> rounds.\<close>

primrec exchange :: "nat list \<Rightarrow> nat list \<Rightarrow> nat \<Rightarrow> nat \<Rightarrow> nat" where
  "exchange ir ic 0 = id"
| "exchange ir ic (Suc n) = exchange ir ic n \<circ> sw (ir ! n) (ic ! n)"

lemma exchange_update: "n \<le> m \<Longrightarrow> exchange (ir[m := a]) (ic[m := b]) n = exchange ir ic n"
  by (induction n) simp_all

definition pivoted :: "nat \<Rightarrow> byte list \<Rightarrow> nat set" where
  "pivoted k ipiv = {i. i < k \<and> ipiv ! i = 1}"

definition gj_loop_inv :: "nat \<Rightarrow> (nat \<Rightarrow> nat \<Rightarrow> gf) \<Rightarrow> nat \<Rightarrow> gj_state \<Rightarrow> bool" where
  "gj_loop_inv k D n st \<longleftrightarrow>
     length (gj_src st) = k * k \<and> length (gj_indxc st) = k \<and> length (gj_indxr st) = k \<and>
     length (gj_ipiv st) = k \<and> (\<forall>i<k. gj_ipiv st ! i = 0 \<or> gj_ipiv st ! i = 1) \<and>
     (\<forall>i<n. gj_indxr st ! i < k \<and> gj_indxc st ! i < k) \<and>
     card (pivoted k (gj_ipiv st)) = n \<and>
     (\<exists>R. gj_inv k D (pivoted k (gj_ipiv st)) (exchange (gj_indxr st) (gj_indxc st) n) R
            (mat k (gj_src st)))"

lemma pivoted_subset: "pivoted k ipiv \<subseteq> {..<k}" and finite_pivoted: "finite (pivoted k ipiv)"
  by (auto simp: pivoted_def)

lemma find_pivot_sound:
  assumes "find_pivot src k ipiv col = Some (r, c)" "col < k"
    and "\<forall>i<k. ipiv ! i = 0 \<or> ipiv ! i = 1"
  shows "r < k \<and> c < k \<and> r \<notin> pivoted k ipiv \<and> c \<notin> pivoted k ipiv \<and> src ! (r * k + c) \<noteq> 0"
proof (cases "ipiv ! col \<noteq> 1 \<and> src ! (col * k + col) \<noteq> 0")
  case True
  then show ?thesis using assms by (auto simp: find_pivot_def pivoted_def)
next
  case False
  with assms(1) have "(r, c) \<in> set (List.product [0..<k] [0..<k]) \<and>
      (case (r, c) of (row, ix) \<Rightarrow> ipiv ! row \<noteq> 1 \<and> ipiv ! ix = 0 \<and> src ! (row * k + ix) \<noteq> 0)"
    by (intro find_SomeD) (simp add: find_pivot_def)
  then show ?thesis by (simp add: pivoted_def)
qed

lemma find_pivot_complete:
  assumes "find_pivot src k ipiv col = None" "\<forall>i<k. ipiv ! i = 0 \<or> ipiv ! i = 1"
    and "r < k" "c < k" "r \<notin> pivoted k ipiv" "c \<notin> pivoted k ipiv"
  shows "src ! (r * k + c) = 0"
  using assms by (auto simp: find_pivot_def pivoted_def find_None_iff split: if_splits)

lemma pivoted_update:
  assumes "c < k" "length ipiv = k" "c \<notin> pivoted k ipiv" "\<forall>i<k. ipiv ! i = 0 \<or> ipiv ! i = 1"
  shows "pivoted k (ipiv[c := ipiv ! c + 1]) = insert c (pivoted k ipiv)"
    and "i < k \<Longrightarrow> ipiv[c := ipiv ! c + 1] ! i = 0 \<or> ipiv[c := ipiv ! c + 1] ! i = 1"
  using assms by (auto simp: pivoted_def nth_list_update)

lemma gj_step_inv:
  assumes "n < k" "gj_loop_inv k D n st" "gj_step k n st = Inr st'"
  shows "gj_loop_inv k D (Suc n) st'"
proof -
  let ?P = "pivoted k (gj_ipiv st)"
  obtain r c where piv: "find_pivot (gj_src st) k (gj_ipiv st) n = Some (r, c)"
    using assms(3) by (auto simp: gj_step_def split: option.splits)
  note inv = assms(2) [unfolded gj_loop_inv_def]
  have rc: "r < k" "c < k" "r \<notin> ?P" "c \<notin> ?P" and nz: "gj_src st ! (r * k + c) \<noteq> 0"
    using find_pivot_sound [OF piv assms(1)] inv by auto
  define A where "A = swap_rows_code r c k (gj_src st)"
  have lenA: "length A = k * k" and matA: "\<And>i j. i < k \<Longrightarrow> j < k \<Longrightarrow>
      mat k A i j = swap_rows r c (mat k (gj_src st)) i j"
    using swap_rows_code [of r k c "gj_src st"] rc inv by (auto simp: A_def)
  have pivot: "mat k A c c \<noteq> 0"
    using matA [of c c] rc nz by (simp add: swap_rows_def mat_def)
  have st': "st' = \<lparr> gj_src = eliminate c k (normalize_row c k A),
      gj_indxc = (gj_indxc st)[n := c], gj_indxr = (gj_indxr st)[n := r],
      gj_ipiv = (gj_ipiv st)[c := gj_ipiv st ! c + 1] \<rparr>"
    using assms(3) piv by (simp add: gj_step_def A_def)
  obtain R where R: "gj_inv k D ?P (exchange (gj_indxr st) (gj_indxc st) n) R (mat k (gj_src st))"
    using inv by blast
  have "gj_inv k D ?P (exchange (gj_indxr st) (gj_indxc st) n \<circ> sw r c) (swap_rows r c R) (mat k A)"
    using gj_swap [OF R] rc matA by (intro gj_inv_cong [OF gj_swap [OF R]]) auto
  then have step: "gj_inv k D (insert c ?P) (exchange (gj_indxr st) (gj_indxc st) n \<circ> sw r c)
      (pivot_rows c (gj_coeff (mat k A) c) (swap_rows r c R)) (gj_elim_array c (mat k A))"
    by (rule gj_elim) (use rc pivot in auto)
  have nzA: "A ! (c * k + c) \<noteq> 0" using pivot by (simp add: mat_def)
  note en = eliminate_normalize [OF rc(2) lenA nzA]
  have ex: "exchange ((gj_indxr st)[n := r]) ((gj_indxc st)[n := c]) (Suc n) =
      exchange (gj_indxr st) (gj_indxc st) n \<circ> sw r c"
    using inv assms(1) by (simp add: exchange_update)
  note pu = pivoted_update [OF rc(2), of "gj_ipiv st"]
  have P': "pivoted k ((gj_ipiv st)[c := gj_ipiv st ! c + 1]) = insert c ?P"
    using pu(1) rc(4) inv by simp
  have card: "card (insert c ?P) = Suc n"
    using inv rc(4) finite_pivoted by simp
  show ?thesis
    unfolding gj_loop_inv_def st' gj_state.simps P' ex
  proof (intro conjI exI)
    show "gj_inv k D (insert c ?P) (exchange (gj_indxr st) (gj_indxc st) n \<circ> sw r c)
      (pivot_rows c (gj_coeff (mat k A) c) (swap_rows r c R)) (mat k (eliminate c k (normalize_row c k A)))"
      using en(2) by (intro gj_inv_cong [OF step]) auto
  qed (use en(1) inv card pu(2) rc assms(1) in \<open>auto simp: nth_list_update less_Suc_eq\<close>)
qed

lemma gj_step_total:
  assumes "n < k" "gj_loop_inv k D n st" "ker_trivial k D"
  shows "\<exists>st'. gj_step k n st = Inr st'"
proof -
  let ?P = "pivoted k (gj_ipiv st)"
  note inv = assms(2) [unfolded gj_loop_inv_def]
  obtain R where R: "gj_inv k D ?P (exchange (gj_indxr st) (gj_indxc st) n) R (mat k (gj_src st))"
    using inv by blast
  have "?P \<noteq> {..<k}" using inv assms(1) by (metis card_lessThan less_irrefl)
  then obtain r c where rc: "r < k" "c < k" "r \<notin> ?P" "c \<notin> ?P"
    and nz: "mat k (gj_src st) r c \<noteq> 0"
    using gj_progress [OF R assms(3)] by blast
  show ?thesis
  proof (cases "find_pivot (gj_src st) k (gj_ipiv st) n")
    case None
    then have "gj_src st ! (r * k + c) = 0"
      using inv rc by (intro find_pivot_complete [OF None]) auto
    with nz show ?thesis by (simp add: mat_def)
  next
    case (Some rc)
    then show ?thesis by (simp add: gj_step_def split_beta)
  qed
qed

lemma swap_columns:
  assumes "a < k" "b < k" "length s = k * k" "a \<noteq> b"
  shows "length (fold (\<lambda>row s. swap_at (row * k + a) (row * k + b) s) [0..<k] s) = k * k"
    and "i < k \<Longrightarrow> j < k \<Longrightarrow>
      fold (\<lambda>row s. swap_at (row * k + a) (row * k + b) s) [0..<k] s ! (i * k + j) = s ! (i * k + sw a b j)"
proof -
  define I where "I n t \<longleftrightarrow> length t = k * k \<and> (\<forall>i<k. \<forall>j<k. t ! (i * k + j) =
      (if i < n then s ! (i * k + sw a b j) else s ! (i * k + j)))" for n t
  have "I k (fold (\<lambda>row s. swap_at (row * k + a) (row * k + b) s) [0..<k] s)"
  proof (rule fold_upt_invariant)
    fix n t
    assume "n < k" "I n t"
    then show "I (Suc n) (swap_at (n * k + a) (n * k + b) t)"
      using assms by (auto simp: I_def swap_at_def nth_idx_update less_Suc_eq sw_def)
  qed (use assms in \<open>auto simp: I_def\<close>)
  then show "length (fold (\<lambda>row s. swap_at (row * k + a) (row * k + b) s) [0..<k] s) = k * k"
    and "i < k \<Longrightarrow> j < k \<Longrightarrow>
      fold (\<lambda>row s. swap_at (row * k + a) (row * k + b) s) [0..<k] s ! (i * k + j) = s ! (i * k + sw a b j)"
    by (auto simp: I_def)
qed

lemma unswap_columns:
  assumes "length s = k * k" "\<forall>i<n. ir ! i < k \<and> ic ! i < k"
    and "\<And>i r. i < k \<Longrightarrow> r < k \<Longrightarrow> mat k s i r = R i (exchange ir ic n r)"
  shows "length (unswap_columns ir ic k n s) = k * k \<and>
    (\<forall>i<k. \<forall>r<k. mat k (unswap_columns ir ic k n s) i r = R i r)"
  using assms
proof (induction n arbitrary: s)
  case 0
  then show ?case by (simp add: unswap_columns_def)
next
  case (Suc n)
  let ?a = "ir ! n" and ?b = "ic ! n"
  let ?s = "if ?a \<noteq> ?b then fold (\<lambda>row s. swap_at (row * k + ?a) (row * k + ?b) s) [0..<k] s else s"
  have ab: "?a < k" "?b < k" using Suc.prems(2) by auto
  have len: "length ?s = k * k"
    using swap_columns(1) [OF ab Suc.prems(1)] Suc.prems(1) by simp
  have "mat k ?s i r = R i (exchange ir ic n r)" if "i < k" "r < k" for i r
  proof -
    have "mat k ?s i r = mat k s i (sw ?a ?b r)"
      using swap_columns(2) [OF ab Suc.prems(1) _ that] by (simp add: mat_def)
    also have "\<dots> = R i (exchange ir ic n r)"
      using Suc.prems(3) [of i "sw ?a ?b r"] that ab by (simp add: sw_less)
    finally show ?thesis .
  qed
  then have "length (unswap_columns ir ic k n ?s) = k * k \<and>
    (\<forall>i<k. \<forall>r<k. mat k (unswap_columns ir ic k n ?s) i r = R i r)"
    using len Suc.prems(2) by (intro Suc.IH) auto
  moreover have "unswap_columns ir ic k (Suc n) s = unswap_columns ir ic k n ?s"
    by (simp add: unswap_columns_def)
  ultimately show ?case by simp
qed

lemma gj_init_inv:
  assumes "length src = k * k"
  shows "gj_loop_inv k (mat k src) 0
    \<lparr> gj_src = src, gj_indxc = replicate k 0, gj_indxr = replicate k 0, gj_ipiv = replicate k 0 \<rparr>"
proof -
  have "pivoted k (replicate k 0) = {}" by (auto simp: pivoted_def)
  then show ?thesis using assms gj_init [of k "mat k src"] by (auto simp: gj_loop_inv_def)
qed

text \<open>What \<open>invert_matrix\<close> returns is a left inverse of its argument.\<close>

lemma invert_matrix_left_inverse:
  assumes "length src = k * k" "invert_matrix src k = Inr dst"
  shows "length dst = k * k"
    and "i < k \<Longrightarrow> j < k \<Longrightarrow> mmul k (mat k dst) (mat k src) i j = delta i j"
proof -
  obtain st where st: "foldE (gj_step k) [0..<k] \<lparr> gj_src = src, gj_indxc = replicate k 0,
      gj_indxr = replicate k 0, gj_ipiv = replicate k 0 \<rparr> = Inr st"
    and dst: "dst = unswap_columns (gj_indxr st) (gj_indxc st) k k (gj_src st)"
    using assms(2) by (auto simp: invert_matrix_def andThen_Inr)
  have "gj_loop_inv k (mat k src) k st"
    using st by (rule foldE_upt_invariant) (auto intro: gj_init_inv gj_step_inv assms)
  note inv = this [unfolded gj_loop_inv_def]
  have all: "pivoted k (gj_ipiv st) = {..<k}"
    using inv pivoted_subset by (metis card_lessThan card_subset_eq finite_lessThan)
  with inv obtain R where R: "gj_inv k (mat k src) {..<k} (exchange (gj_indxr st) (gj_indxc st) k) R
      (mat k (gj_src st))" by auto
  have u: "length dst = k * k \<and> (\<forall>i<k. \<forall>r<k. mat k dst i r = R i r)"
    unfolding dst using inv gj_done(2) [OF R] by (intro unswap_columns) auto
  then show "length dst = k * k" by simp
  show "mmul k (mat k dst) (mat k src) i j = delta i j" if "i < k" "j < k"
    using gj_done(1) [OF R that] u that by (simp add: mmul_def)
qed

text \<open>It fails on singular matrices only.\<close>

lemma invert_matrix_total:
  assumes "length src = k * k" "ker_trivial k (mat k src)"
  shows "\<exists>dst. invert_matrix src k = Inr dst"
proof -
  have "\<exists>st. foldE (gj_step k) [0..<k] \<lparr> gj_src = src, gj_indxc = replicate k 0,
      gj_indxr = replicate k 0, gj_ipiv = replicate k 0 \<rparr> = Inr st \<and> gj_loop_inv k (mat k src) k st"
  proof (rule foldE_upt_total [where I = "gj_loop_inv k (mat k src)"])
    fix n st
    assume n: "n < k" and inv: "gj_loop_inv k (mat k src) n st"
    then obtain st' where "gj_step k n st = Inr st'" using gj_step_total assms(2) by blast
    with n inv show "\<exists>st'. gj_step k n st = Inr st' \<and> gj_loop_inv k (mat k src) (Suc n) st'"
      using gj_step_inv by blast
  qed (use assms(1) in \<open>auto intro: gj_init_inv\<close>)
  then show ?thesis by (auto simp: invert_matrix_def)
qed

end
