(* ===== verification/FecVandermonde.thy ===== *)
theory FecVandermonde
  imports FecMatrix
begin

text \<open>
  \<open>invert_vandermonde\<close> of \<open>erasure/fec.rs\<close>: the polynomial \<open>P(x)\<close> with the
  evaluation points as roots, and one synthetic division per point. The result holds, in
  column \<open>row\<close>, the coefficients of the Lagrange basis polynomial of that point, so it
  is the inverse of the Vandermonde matrix. The coefficient loop never writes the constant
  term of \<open>P\<close>: it is right only because the first evaluation point is 0, which
  \<open>Fec::new\<close> arranges and the lemmas here assume.
\<close>

section \<open>The code\<close>

definition vand_points :: "bytes \<Rightarrow> nat \<Rightarrow> bytes" where
  "vand_points src k = map (\<lambda>i. src ! (1 + i * k)) [0..<k]"

definition coeff_step :: "bytes \<Rightarrow> nat \<Rightarrow> nat \<Rightarrow> bytes \<Rightarrow> bytes" where
  "coeff_step p k i c =
     (let p_i = p ! i;
          c1 = fold (\<lambda>jj c. c[jj := c ! jj XOR gf_mul p_i (c ! (jj + 1))]) [k - 1 - (i - 1)..<k - 1] c
      in c1[k - 1 := c1 ! (k - 1) XOR p_i])"

definition vand_coeffs :: "bytes \<Rightarrow> nat \<Rightarrow> bytes" where
  "vand_coeffs p k = fold (coeff_step p k) [1..<k] ((replicate k 0)[k - 1 := p ! 0])"

definition synth_step :: "bytes \<Rightarrow> byte \<Rightarrow> nat \<Rightarrow> bytes \<times> byte \<Rightarrow> bytes \<times> byte" where
  "synth_step c xx i bt =
     (case bt of (b, t) \<Rightarrow>
       (let b1 = b[i - 1 := c ! i XOR gf_mul xx (b ! i)]
        in (b1, gf_mul xx t XOR b1 ! (i - 1))))"

definition synth_div :: "bytes \<Rightarrow> byte \<Rightarrow> nat \<Rightarrow> bytes \<Rightarrow> bytes \<times> byte" where
  "synth_div c xx k b = fold (synth_step c xx) (rev [1..<k]) (b[k - 1 := 1], 1)"

definition vand_row :: "bytes \<Rightarrow> bytes \<Rightarrow> nat \<Rightarrow> nat \<Rightarrow> bytes \<times> bytes \<Rightarrow> bytes \<times> bytes" where
  "vand_row p c k row sb =
     (case sb of (src, b) \<Rightarrow>
       (let (b1, t) = synth_div c (p ! row) k b;
            t_inv = gf_inv t
        in (fold (\<lambda>col s. s[col * k + row := gf_mul t_inv (b1 ! col)]) [0..<k] src, b1)))"

definition invert_vandermonde :: "bytes \<Rightarrow> nat \<Rightarrow> bytes" where
  "invert_vandermonde src k =
     (if k = 1 then src
      else let p = vand_points src k; c = vand_coeffs p k
           in fst (fold (vand_row p c k) [0..<k] (src, replicate k 0)))"

section \<open>The polynomial with the points as roots\<close>

definition monic :: "nat \<Rightarrow> bytes \<Rightarrow> nat \<Rightarrow> gf" where
  "monic k c j = (if j < k then GF (c ! j) else 1)"

definition coeff_inv :: "bytes \<Rightarrow> nat \<Rightarrow> nat \<Rightarrow> bytes \<Rightarrow> bool" where
  "coeff_inv p k n c \<longleftrightarrow> length c = k \<and> (\<forall>j. j < k \<longrightarrow> j \<le> k - n \<longrightarrow> c ! j = 0) \<and>
     (\<forall>r<n. peval (Suc k) (monic k c) (GF (p ! r)) = 0)"

lemma peval_monic: "peval (Suc k) (monic k c) x = (\<Sum>j<k. GF (c ! j) * x ^ j) + x ^ k"
  by (simp add: peval_def monic_def)

lemma coeff_inner:
  assumes "length c = k" "a \<le> k - 1"
  shows "length (fold (\<lambda>jj c. c[jj := c ! jj XOR gf_mul v (c ! (jj + 1))]) [a..<k - 1] c) = k"
    and "j < k \<Longrightarrow> fold (\<lambda>jj c. c[jj := c ! jj XOR gf_mul v (c ! (jj + 1))]) [a..<k - 1] c ! j =
      (if a \<le> j \<and> j < k - 1 then c ! j XOR gf_mul v (c ! (j + 1)) else c ! j)"
proof -
  define I where "I n t \<longleftrightarrow> length t = k \<and> (\<forall>j<k. t ! j =
      (if a \<le> j \<and> j < n then c ! j XOR gf_mul v (c ! (j + 1)) else c ! j))" for n t
  have "I (k - 1) (fold (\<lambda>jj c. c[jj := c ! jj XOR gf_mul v (c ! (jj + 1))]) [a..<k - 1] c)"
    using assms(2)
  proof (rule fold_upt_invariant)
    fix n t
    assume "a \<le> n" "n < k - 1" "I n t"
    then show "I (Suc n) (t[n := t ! n XOR gf_mul v (t ! (n + 1))])"
      by (auto simp: I_def nth_list_update less_Suc_eq)
  qed (use assms in \<open>auto simp: I_def\<close>)
  then show "length (fold (\<lambda>jj c. c[jj := c ! jj XOR gf_mul v (c ! (jj + 1))]) [a..<k - 1] c) = k"
    and "j < k \<Longrightarrow> fold (\<lambda>jj c. c[jj := c ! jj XOR gf_mul v (c ! (jj + 1))]) [a..<k - 1] c ! j =
      (if a \<le> j \<and> j < k - 1 then c ! j XOR gf_mul v (c ! (j + 1)) else c ! j)"
    by (auto simp: I_def)
qed

lemma coeff_step_monic:
  assumes "coeff_inv p k n c" "1 \<le> n" "n < k"
  shows "length (coeff_step p k n c) = k"
    and "j < k \<Longrightarrow> monic k (coeff_step p k n c) j = monic k c j + GF (p ! n) * monic k c (Suc j)"
proof -
  have a: "k - 1 - (n - 1) \<le> k - 1" "length c = k" using assms by (auto simp: coeff_inv_def)
  note inner = coeff_inner [OF a(2) a(1), where v = "p ! n"]
  show "length (coeff_step p k n c) = k"
    using inner(1) by (simp add: coeff_step_def Let_def)
  assume j: "j < k"
  have low: "c ! j = 0 \<and> c ! Suc j = 0" if "j < k - n"
    using assms that by (auto simp: coeff_inv_def)
  show "monic k (coeff_step p k n c) j = monic k c j + GF (p ! n) * monic k c (Suc j)"
  proof (cases "j = k - 1")
    case True
    with j assms(2,3) inner show ?thesis
      by (simp add: coeff_step_def Let_def monic_def GF_xor)
  next
    case False
    with j have "Suc j < k" "j < k - 1" by auto
    moreover have "k - 1 - (n - 1) = k - n" using assms(2) by simp
    ultimately show ?thesis
      using j low inner(2) [OF j] inner(1)
      by (cases "j < k - n") (simp_all add: coeff_step_def Let_def monic_def GF_xor GF_mul)
  qed
qed

lemma coeff_step_mult:
  assumes "coeff_inv p k n c" "1 \<le> n" "n < k"
  shows "x * peval (Suc k) (monic k (coeff_step p k n c)) x =
    (x + GF (p ! n)) * peval (Suc k) (monic k c) x"
proof -
  let ?c' = "coeff_step p k n c" and ?v = "GF (p ! n)"
  have c0: "monic k c 0 = 0" using assms by (auto simp: coeff_inv_def monic_def)
  have top: "monic k c k = 1" "monic k ?c' k = 1" by (simp_all add: monic_def)
  have shift: "(\<Sum>j<k. monic k c (Suc j) * x ^ Suc j) = peval (Suc k) (monic k c) x"
    by (simp add: peval_def sum.lessThan_Suc_shift c0 del: sum.lessThan_Suc)
  have "peval (Suc k) (monic k ?c') x =
      (\<Sum>j<k. (monic k c j + ?v * monic k c (Suc j)) * x ^ j) + x ^ k"
    by (simp add: peval_def top coeff_step_monic(2) [OF assms])
  also have "\<dots> = peval (Suc k) (monic k c) x + ?v * (\<Sum>j<k. monic k c (Suc j) * x ^ j)"
    by (simp add: peval_def top sum.distrib sum_distrib_left algebra_simps)
  finally have "x * peval (Suc k) (monic k ?c') x =
      x * peval (Suc k) (monic k c) x + ?v * (\<Sum>j<k. monic k c (Suc j) * x ^ Suc j)"
    by (simp add: sum_distrib_left algebra_simps)
  then show ?thesis by (simp only: shift distrib_right)
qed

lemma coeff_step_inv:
  assumes "coeff_inv p k n c" "1 \<le> n" "n < k"
  shows "coeff_inv p k (Suc n) (coeff_step p k n c)"
proof -
  let ?c' = "coeff_step p k n c"
  have len: "length ?c' = k" by (rule coeff_step_monic [OF assms])
  have zero: "?c' ! j = 0" if "j < k" "j \<le> k - Suc n" for j
  proof -
    have "monic k c j = 0" "monic k c (Suc j) = 0"
      using that assms by (auto simp: coeff_inv_def monic_def)
    then have "monic k ?c' j = 0" using coeff_step_monic(2) [OF assms that(1)] by simp
    with that show ?thesis by (simp add: monic_def)
  qed
  have "peval (Suc k) (monic k ?c') (GF (p ! r)) = 0" if "r < Suc n" for r
  proof (cases "p ! r = 0")
    case True
    then show ?thesis using zero [of 0] assms by (simp add: peval_Suc monic_def)
  next
    case False
    have "(GF (p ! r) + GF (p ! n)) * peval (Suc k) (monic k c) (GF (p ! r)) = 0"
    proof (cases "r = n")
      case True
      then show ?thesis by (simp only: gf_add_self mult_zero_left)
    next
      case False
      with that assms(1) show ?thesis by (simp add: coeff_inv_def)
    qed
    then have "GF (p ! r) * peval (Suc k) (monic k ?c') (GF (p ! r)) = 0"
      by (simp only: coeff_step_mult [OF assms])
    with False show ?thesis by simp
  qed
  with len zero show ?thesis by (simp add: coeff_inv_def)
qed

lemma vand_coeffs_inv:
  assumes "0 < k" "p ! 0 = 0"
  shows "coeff_inv p k k (vand_coeffs p k)"
proof -
  have "monic k ((replicate k 0)[k - 1 := p ! 0]) j = 0" if "j < k" for j
    using that assms by (simp add: monic_def nth_list_update)
  then have "peval (Suc k) (monic k ((replicate k 0)[k - 1 := p ! 0])) 0 = 0"
    using assms(1) by (simp add: peval_Suc)
  then have start: "coeff_inv p k 1 ((replicate k 0)[k - 1 := p ! 0])"
    using assms by (auto simp: coeff_inv_def nth_list_update)
  show ?thesis
    unfolding vand_coeffs_def
  proof (rule fold_upt_invariant [where I = "coeff_inv p k"])
    show "coeff_inv p k (Suc n) (coeff_step p k n c)" if "1 \<le> n" "n < k" "coeff_inv p k n c" for n c
      using that by (intro coeff_step_inv)
  qed (use assms start in simp_all)
qed

section \<open>Synthetic division\<close>

lemma quot_top: "quot (Suc m) (monic (Suc m) c) a m = 1"
  by (simp add: quot_def peval_def monic_def)

text \<open>State after the steps \<open>k - 1, .., m + 1\<close>: the coefficients from \<open>m\<close> up, and Horner's sum.\<close>

lemma synth_div_steps:
  assumes "length b = k" "length c = k" "0 < k" "m \<le> k - 1"
  shows "case fold (synth_step c xx) (rev [Suc m..<k]) (b[k - 1 := 1], 1) of (b', t) \<Rightarrow>
    length b' = k \<and> (\<forall>j<k. m \<le> j \<longrightarrow> GF (b' ! j) = quot k (monic k c) (GF xx) j) \<and>
    GF t = peval (k - m) (\<lambda>s. quot k (monic k c) (GF xx) (m + s)) (GF xx)"
  using assms(4)
proof (induction m rule: inc_induct)
  case base
  obtain k' where k': "k = Suc k'" using assms(3) by (cases k) auto
  have "GF (b[k - 1 := 1] ! j) = quot k (monic k c) (GF xx) j" if "j < k" "k - 1 \<le> j" for j
  proof -
    have "j = k'" using that k' by simp
    then show ?thesis using assms(1) quot_top [of k' c] by (simp add: k')
  qed
  moreover have "rev [Suc (k - 1)..<k] = []" "k - (k - 1) = Suc 0" using k' by simp_all
  moreover have "quot k (monic k c) (GF xx) (k - 1) = 1" using quot_top [of k' c] by (simp add: k')
  ultimately show ?case using assms(1) by (simp add: peval_def)
next
  case (step m)
  let ?q = "quot k (monic k c) (GF xx)"
  have m: "Suc m < k" using step.hyps by simp
  obtain b' t where s: "fold (synth_step c xx) (rev [Suc (Suc m)..<k]) (b[k - 1 := 1], 1) = (b', t)"
    by (metis surj_pair)
  note IH = step.IH [unfolded s prod.case]
  have "rev [Suc m..<k] = rev [Suc (Suc m)..<k] @ [Suc m]"
    using m by (simp add: upt_conv_Cons)
  then have fold: "fold (synth_step c xx) (rev [Suc m..<k]) (b[k - 1 := 1], 1) =
      synth_step c xx (Suc m) (b', t)"
    by (simp only: fold_append comp_apply fold_simps s)
  have q: "?q m = monic k c (Suc m) + GF xx * ?q (Suc m)"
    using m by (intro quot_step) simp
  have "GF (c ! Suc m XOR gf_mul xx (b' ! Suc m)) = ?q m"
    using IH m by (simp add: q GF_xor GF_mul monic_def)
  moreover have "k - m = Suc (k - Suc m)" using m by simp
  then have "peval (k - m) (\<lambda>s. ?q (m + s)) (GF xx) =
      ?q m + GF xx * peval (k - Suc m) (\<lambda>s. ?q (Suc m + s)) (GF xx)"
    by (simp add: peval_Suc)
  ultimately have new: "GF (c ! Suc m XOR gf_mul xx (b' ! Suc m)) = ?q m"
    and horner: "GF (gf_mul xx t XOR (c ! Suc m XOR gf_mul xx (b' ! Suc m))) =
      peval (k - m) (\<lambda>s. ?q (m + s)) (GF xx)"
    using IH by (simp_all add: GF_xor GF_mul add.commute)
  define b'' where "b'' = b'[m := c ! Suc m XOR gf_mul xx (b' ! Suc m)]"
  have after: "synth_step c xx (Suc m) (b', t) =
      (b'', gf_mul xx t XOR (c ! Suc m XOR gf_mul xx (b' ! Suc m)))"
    using IH m by (simp add: synth_step_def b''_def Let_def)
  have "GF (b'' ! j) = ?q j" if "j < k" "m \<le> j" for j
    using that IH m new by (cases "j = m") (simp_all add: b''_def)
  moreover have "length b'' = k" using IH by (simp add: b''_def)
  ultimately show ?case
    unfolding fold after prod.case using horner by blast
qed

lemma synth_div:
  assumes "length b = k" "length c = k" "0 < k" "synth_div c xx k b = (b', t)"
  shows "length b' = k" and "j < k \<Longrightarrow> GF (b' ! j) = quot k (monic k c) (GF xx) j"
    and "GF t = peval k (quot k (monic k c) (GF xx)) (GF xx)"
  using synth_div_steps [OF assms(1-3), of 0 xx] assms(3,4) by (simp_all add: synth_div_def)

section \<open>The inverse\<close>

definition vpoint :: "bytes \<Rightarrow> nat \<Rightarrow> gf" where
  "vpoint p i = GF (p ! i)"

text \<open>The coefficients of the Lagrange basis polynomial of point \<open>row\<close>.\<close>

definition lagrange :: "bytes \<Rightarrow> nat \<Rightarrow> nat \<Rightarrow> nat \<Rightarrow> gf" where
  "lagrange p k col row =
     (let q = quot k (monic k (vand_coeffs p k)) (vpoint p row)
      in inverse (peval k q (vpoint p row)) * q col)"

lemma peval_scale: "peval k (\<lambda>c. a * f c) x = a * peval k f x"
  by (simp add: peval_def sum_distrib_left ac_simps)

lemma lagrange_interp:
  assumes "0 < k" "p ! 0 = 0" "inj_on (vpoint p) {..<k}" "r < k" "row < k"
  shows "peval k (\<lambda>col. lagrange p k col row) (vpoint p r) = delta r row"
proof -
  let ?e = "monic k (vand_coeffs p k)"
  let ?q = "quot k ?e (vpoint p row)"
  have root: "peval (Suc k) ?e (vpoint p i) = 0" if "i < k" for i
    using vand_coeffs_inv [OF assms(1,2)] that by (simp add: coeff_inv_def vpoint_def)
  have other: "peval k ?q (vpoint p i) = 0" if "i < k" "i \<noteq> row" for i
  proof -
    have "(vpoint p i - vpoint p row) * peval k ?q (vpoint p i) = 0"
      using peval_quot [of k ?e "vpoint p i" "vpoint p row"] root that(1) assms(5) by simp
    moreover have "vpoint p i \<noteq> vpoint p row"
      using assms(3,5) that by (auto dest: inj_onD)
    ultimately show ?thesis by (simp only: mult_eq_0_iff right_minus_eq) simp
  qed
  have "peval k ?q (vpoint p row) \<noteq> 0"
  proof
    assume "peval k ?q (vpoint p row) = 0"
    then have "\<forall>x \<in> vpoint p ` {..<k}. peval k ?q x = 0" using other by auto
    then have "?q (k - 1) = 0"
      using assms(1,3) by (intro peval_roots_zero [of "vpoint p ` {..<k}" k]) (auto simp: card_image)
    moreover obtain k' where "k = Suc k'" using assms(1) by (cases k) auto
    ultimately show False using quot_top [of k' "vand_coeffs p k"] by simp
  qed
  then show ?thesis
    using other [OF assms(4)] by (cases "r = row") (simp_all add: lagrange_def Let_def peval_scale delta_def)
qed

lemma column_loop:
  assumes "r < k" "k * k \<le> length s"
  shows "length (fold (\<lambda>col s. s[col * k + r := f col]) [0..<k] s) = length s"
    and "i < k \<Longrightarrow> j < k \<Longrightarrow> fold (\<lambda>col s. s[col * k + r := f col]) [0..<k] s ! (i * k + j) =
      (if j = r then f i else s ! (i * k + j))"
    and "k * k \<le> i \<Longrightarrow> fold (\<lambda>col s. s[col * k + r := f col]) [0..<k] s ! i = s ! i"
proof -
  define I where "I n t \<longleftrightarrow> length t = length s \<and> (\<forall>i<k. \<forall>j<k. t ! (i * k + j) =
      (if j = r \<and> i < n then f i else s ! (i * k + j))) \<and> (\<forall>i\<ge>k * k. t ! i = s ! i)" for n t
  have "I k (fold (\<lambda>col s. s[col * k + r := f col]) [0..<k] s)"
  proof (rule fold_upt_invariant)
    fix n t
    assume "n < k" "I n t"
    moreover from this assms(1) have "n * k + r < k * k" by (intro idx_less)
    ultimately show "I (Suc n) (t[n * k + r := f n])"
      using assms by (auto simp: I_def nth_idx_update less_Suc_eq)
  qed (auto simp: I_def)
  then show "length (fold (\<lambda>col s. s[col * k + r := f col]) [0..<k] s) = length s"
    and "i < k \<Longrightarrow> j < k \<Longrightarrow> fold (\<lambda>col s. s[col * k + r := f col]) [0..<k] s ! (i * k + j) =
      (if j = r then f i else s ! (i * k + j))"
    and "k * k \<le> i \<Longrightarrow> fold (\<lambda>col s. s[col * k + r := f col]) [0..<k] s ! i = s ! i"
    by (auto simp: I_def)
qed

definition vand_loop_inv :: "bytes \<Rightarrow> bytes \<Rightarrow> nat \<Rightarrow> nat \<Rightarrow> bytes \<times> bytes \<Rightarrow> bool" where
  "vand_loop_inv src p k n sb = (case sb of (s, b) \<Rightarrow>
     length s = length src \<and> length b = k \<and> (\<forall>i\<ge>k * k. s ! i = src ! i) \<and>
     (\<forall>col<k. \<forall>row<n. mat k s col row = lagrange p k col row))"

lemma vand_row_inv:
  assumes "vand_loop_inv src p k n sb" "n < k" "k * k \<le> length src" "p ! 0 = 0"
  shows "vand_loop_inv src p k (Suc n) (vand_row p (vand_coeffs p k) k n sb)"
proof -
  obtain s b where sb: "sb = (s, b)" by (cases sb)
  obtain b' t where d: "synth_div (vand_coeffs p k) (p ! n) k b = (b', t)" by (metis surj_pair)
  have len: "length b = k" "length s = length src" using assms(1) by (auto simp: vand_loop_inv_def sb)
  have "length (vand_coeffs p k) = k"
    using vand_coeffs_inv [of k p] assms(2,4) by (simp add: coeff_inv_def)
  note sd = synth_div [OF len(1) this _ d]
  have bound: "k * k \<le> length s" using len assms(3) by simp
  note cl = column_loop [OF assms(2) bound, where f = "\<lambda>col. gf_mul (gf_inv t) (b' ! col)"]
  have new: "GF (gf_mul (gf_inv t) (b' ! col)) = lagrange p k col n" if "col < k" for col
    using sd that assms(2) by (simp add: GF_mul GF_inv lagrange_def Let_def vpoint_def)
  show ?thesis
    using assms(1,2) cl sd new len
    by (auto simp: vand_loop_inv_def vand_row_def sb d Let_def mat_def less_Suc_eq)
qed

text \<open>
  The array after \<open>invert_vandermonde\<close>: the Lagrange coefficients in the top \<open>k\<close> rows,
  the rest untouched.
\<close>

lemma invert_vandermonde_lagrange:
  assumes "1 < k" "k * k \<le> length src" "src ! 1 = 0"
  shows "length (invert_vandermonde src k) = length src"
    and "col < k \<Longrightarrow> row < k \<Longrightarrow>
      mat k (invert_vandermonde src k) col row = lagrange (vand_points src k) k col row"
    and "k * k \<le> i \<Longrightarrow> invert_vandermonde src k ! i = src ! i"
proof -
  let ?p = "vand_points src k"
  let ?r = "fold (vand_row ?p (vand_coeffs ?p k) k) [0..<k] (src, replicate k 0)"
  have p0: "?p ! 0 = 0" using assms by (simp add: vand_points_def)
  have inv: "vand_loop_inv src ?p k k ?r"
  proof (rule fold_upt_invariant [where I = "vand_loop_inv src ?p k"])
    show "vand_loop_inv src ?p k (Suc n) (vand_row ?p (vand_coeffs ?p k) k n sb)"
      if "n < k" "vand_loop_inv src ?p k n sb" for n sb
      using that assms(2) p0 by (intro vand_row_inv)
  qed (simp_all add: vand_loop_inv_def)
  moreover have "invert_vandermonde src k = fst ?r"
    using assms(1) by (simp add: invert_vandermonde_def Let_def)
  ultimately show "length (invert_vandermonde src k) = length src"
    and "col < k \<Longrightarrow> row < k \<Longrightarrow>
      mat k (invert_vandermonde src k) col row = lagrange (vand_points src k) k col row"
    and "k * k \<le> i \<Longrightarrow> invert_vandermonde src k ! i = src ! i"
    by (auto simp: vand_loop_inv_def split: prod.splits)
qed

end
