(* ===== verification/Fec.thy ===== *)
theory Fec
  imports FecVandermonde
begin

text \<open>
  The systematic Reed-Solomon erasure code of \<open>erasure/fec.rs\<close>: \<open>Fec::new\<close>,
  \<open>Fec::encode\<close> and \<open>Fec::decode\<close>. The main result is that any list of shares of one
  encoding that names at least \<open>k\<close> distinct indices decodes to the original data.
\<close>

section \<open>The code\<close>

record fec =
  fec_k :: nat
  fec_m :: nat
  enc_matrix :: bytes

record chunk =
  chunk_data :: bytes
  chunk_index :: nat

definition vandermonde :: "nat \<Rightarrow> nat \<Rightarrow> bytes" where
  "vandermonde k m =
     (let tmp = (replicate (m * k) 0)[0 := 1];
          tmp = fold (\<lambda>col t. t[col := 0]) [1..<k] tmp
      in fold (\<lambda>row t. fold (\<lambda>col t.
             t[(row + 1) * k + col := exp_tab build_gf_tables ! unat (modnn (int (row * col)))])
           [0..<k] t) [0..<m - 1] tmp)"

definition fec_new :: "nat \<Rightarrow> nat \<Rightarrow> fec_error + fec" where
  "fec_new k m =
     (if k = 0 then Inl ZeroK
      else if m = 0 then Inl ZeroM
      else if 256 < m then Inl BigM
      else if m \<le> k then Inl KGtM
      else
        let tmp = invert_vandermonde (vandermonde k m) k;
            enc = replicate (k * k) 0 @
              matmul (drop (k * k) tmp) (take (k * k) tmp) (replicate ((m - k) * k) 0) (m - k) k k;
            enc = fold (\<lambda>i e. e[i * k + i := 1]) [0..<k] enc
        in Inr \<lparr> fec_k = k, fec_m = m, enc_matrix = enc \<rparr>)"

definition chunk_size_for :: "nat \<Rightarrow> nat \<Rightarrow> nat" where
  "chunk_size_for data_len k = (if data_len = 0 then 0 else (data_len + k - 1) div k)"

definition strip_padding :: "bytes \<Rightarrow> nat \<Rightarrow> bytes" where
  "strip_padding v padding = (if length v \<le> padding then [] else take (length v - padding) v)"

text \<open>One iteration of the slicing loop: the block and the zero bytes added to it.\<close>

definition data_block :: "bytes \<Rightarrow> nat \<Rightarrow> nat \<Rightarrow> bytes \<times> nat" where
  "data_block data chunk_size i =
     (let start = i * chunk_size; end' = start + chunk_size
      in if length data \<le> start then (replicate chunk_size 0, chunk_size)
         else if length data < end' then (resize chunk_size 0 (drop start data), end' - length data)
         else (segment start end' data, 0))"

definition combine :: "bytes \<Rightarrow> nat \<Rightarrow> nat \<Rightarrow> bytes list \<Rightarrow> nat \<Rightarrow> bytes" where
  "combine matrix row_start k chunks chunk_size =
     fold (\<lambda>j acc. let coeff = matrix ! (row_start + j)
            in if coeff = 0 then acc else addmul acc (chunks ! j) coeff chunk_size)
       [0..<k] (replicate chunk_size 0)"

definition fec_encode :: "fec \<Rightarrow> bytes \<Rightarrow> fec_error + chunk list \<times> nat" where
  "fec_encode f data =
     (let k = fec_k f; m = fec_m f;
          chunk_size = chunk_size_for (length data) k;
          (chunks, padding) = fold (\<lambda>i (cs, pad). case data_block data chunk_size i of
                (block, added) \<Rightarrow> (cs @ [block], pad + added)) [0..<k] ([], 0);
          parity = map (\<lambda>i. combine (enc_matrix f) ((k + i) * k) k chunks chunk_size) [0..<m - k]
      in Inr (map (\<lambda>i. \<lparr> chunk_data = chunks ! i, chunk_index = i \<rparr>) [0..<k] @
              map (\<lambda>i. \<lparr> chunk_data = parity ! i, chunk_index = k + i \<rparr>) [0..<m - k], padding))"

fun check_shares :: "nat \<Rightarrow> nat \<Rightarrow> chunk list \<Rightarrow> fec_error + unit" where
  "check_shares m chunk_size [] = Inr ()"
| "check_shares m chunk_size (c # cs) =
     (if m \<le> chunk_index c then Inl (IndexOutOfRange (chunk_index c) m)
      else if length (chunk_data c) \<noteq> chunk_size
        then Inl (InconsistentShareSize chunk_size (length (chunk_data c)))
      else check_shares m chunk_size cs)"

type_synonym slots = "nat option list \<times> bytes list"

definition place_share :: "chunk \<Rightarrow> slots \<Rightarrow> slots" where
  "place_share c sl = (case sl of (share_nums, chunks) \<Rightarrow>
     (if share_nums ! chunk_index c \<noteq> None then (share_nums, chunks)
      else (share_nums[chunk_index c := Some (chunk_index c)],
            chunks[chunk_index c := chunk_data c])))"

text \<open>
  The loop over \<open>k..m\<close> that moves parity shares into missing data slots; the second
  list is the iterator over the missing slots, the last component is \<open>replaced\<close>.
\<close>

fun fill_missing :: "nat list \<Rightarrow> nat list \<Rightarrow> nat option list \<Rightarrow> bytes list \<Rightarrow> nat list \<Rightarrow>
    nat option list \<times> bytes list \<times> nat list" where
  "fill_missing [] missing share_nums chunks replaced = (share_nums, chunks, replaced)"
| "fill_missing (p # ps) missing share_nums chunks replaced =
     (if chunks ! p \<noteq> [] then
        (case missing of
           slot # missing' \<Rightarrow>
             fill_missing ps missing' (share_nums[slot := Some p]) (chunks[slot := chunks ! p])
               (replaced @ [slot])
         | [] \<Rightarrow> (share_nums, chunks, replaced))
      else fill_missing ps missing share_nums chunks replaced)"

definition decode_row :: "fec \<Rightarrow> nat option list \<Rightarrow> nat \<Rightarrow> bytes \<Rightarrow> bytes" where
  "decode_row f share_nums i md =
     (let k = fec_k f; actual = the (share_nums ! i)
      in if actual < k then md[i * k + i := 1]
         else take (i * k) md @ segment (actual * k) (actual * k + k) (enc_matrix f) @ drop ((i + 1) * k) md)"

definition fec_decode :: "fec \<Rightarrow> chunk list \<Rightarrow> nat \<Rightarrow> fec_error + bytes" where
  "fec_decode f encoded padding =
     (let k = fec_k f; m = fec_m f in
      if length encoded < k then Inl (NotEnoughChunks k (length encoded))
      else let chunk_size = length (chunk_data (encoded ! 0)) in
      andThen (check_shares m chunk_size encoded) (\<lambda>_.
        let (share_nums, chunks) = fold place_share encoded (replicate m None, replicate m []);
            missing = filter (\<lambda>i. share_nums ! i = None) [0..<k];
            (share_nums, chunks, replaced) = fill_missing [k..<m] missing share_nums chunks [];
            unique_share_count = length (filter (\<lambda>s. s \<noteq> None) (take k share_nums))
        in if unique_share_count < k then Inl (NotEnoughChunks k unique_share_count)
           else if replaced = [] then Inr (strip_padding (concat (take k chunks)) padding)
           else
             let m_dec = fold (decode_row f share_nums) [0..<k] (replicate (k * k) 0) in
             andThen (invert_matrix m_dec k) (\<lambda>m_dec.
               let recovered = map (\<lambda>slot. combine m_dec (slot * k) k chunks chunk_size) replaced;
                   chunks = fold (\<lambda>(idx, slot) cs. cs[idx := slot]) (zip replaced recovered) chunks
               in Inr (strip_padding (concat (take k chunks)) padding))))"

section \<open>The encoder matrix\<close>

text \<open>The evaluation points: 0, then the powers of the generator.\<close>

definition point :: "nat \<Rightarrow> gf" where
  "point i = (if i = 0 then 0 else GF (pw (i - 1)))"

lemma point_inj: "inj_on point {..<256}"
proof (rule inj_onI)
  fix i j
  assume "i \<in> {..<256}" "j \<in> {..<256}" "point i = point j"
  then show "i = j"
    by (cases i; cases j) (auto simp: point_def dest: pw_inj)
qed

lemma row_fill:
  "length (fold (\<lambda>col t. t[r * k + col := f col]) [0..<n] t) = length t"
  "n \<le> k \<Longrightarrow> j < k \<Longrightarrow> i * k + j < length t \<Longrightarrow>
   fold (\<lambda>col t. t[r * k + col := f col]) [0..<n] t ! (i * k + j) =
     (if i = r \<and> j < n then f j else t ! (i * k + j))"
proof -
  show "length (fold (\<lambda>col t. t[r * k + col := f col]) [0..<n] t) = length t"
    by (rule length_fold_update)
  assume nk: "n \<le> k" and j: "j < k" "i * k + j < length t"
  define I where "I n u \<longleftrightarrow> length u = length t \<and>
    u ! (i * k + j) = (if i = r \<and> j < n then f j else t ! (i * k + j))" for n u
  have "I n (fold (\<lambda>col t. t[r * k + col := f col]) [0..<n] t)"
  proof (rule fold_upt_invariant [where I = I])
    fix c u
    assume c: "c < n" and I: "I c u"
    have eq: "i * k + j = r * k + c \<longleftrightarrow> i = r \<and> j = c"
      using c nk j by (intro idx_eq) auto
    have "u[r * k + c := f c] ! (i * k + j) = (if i * k + j = r * k + c then f c else u ! (i * k + j))"
      using I j(2) by (simp add: I_def nth_list_update)
    also have "\<dots> = (if i = r \<and> j < Suc c then f j else t ! (i * k + j))"
      unfolding eq using I by (auto simp add: I_def less_Suc_eq)
    finally show "I (Suc c) (u[r * k + c := f c])"
      using I by (simp add: I_def)
  qed (simp_all add: I_def)
  then show "fold (\<lambda>col t. t[r * k + col := f col]) [0..<n] t ! (i * k + j) =
     (if i = r \<and> j < n then f j else t ! (i * k + j))" by (simp add: I_def)
qed

lemma vandermonde:
  assumes "0 < k" "k < m"
  shows "length (vandermonde k m) = m * k"
    and "i < m \<Longrightarrow> j < k \<Longrightarrow> mat k (vandermonde k m) i j = point i ^ j"
proof -
  let ?t0 = "fold (\<lambda>col t. t[col := 0]) [1..<k] ((replicate (m * k) (0 :: byte))[0 := 1])"
  let ?row = "\<lambda>row t. fold (\<lambda>col t.
      t[(row + 1) * k + col := exp_tab build_gf_tables ! unat (modnn (int (row * col)))]) [0..<k] t"
  have len0: "length ?t0 = m * k" by (simp add: length_fold_update)
  have t0: "?t0 ! i = (if i = 0 then 1 else 0)" if "i < m * k" for i
    using that by (cases "i = 0") (simp_all add: nth_fold_update)
  define I where "I n t \<longleftrightarrow> length t = m * k \<and>
    (\<forall>i<m. \<forall>j<k. t ! (i * k + j) = (if 0 < i \<and> i < Suc n then pw ((i - 1) * j) else ?t0 ! (i * k + j)))"
    for n t
  have "I (m - 1) (fold ?row [0..<m - 1] ?t0)"
  proof (rule fold_upt_invariant [where I = I])
    fix n t
    assume n: "n < m - 1" and I: "I n t"
    have "?row n t ! (i * k + j) = (if i = n + 1 then pw (n * j) else t ! (i * k + j))"
      if "i < m" "j < k" for i j
      using row_fill(2) [of k k j i t "n + 1"] that I idx_less [of i m j k]
      by (simp add: I_def exp_tab_modnn flip: of_nat_mult)
    then show "I (Suc n) (?row n t)"
      using I n by (auto simp: I_def length_fold_update less_Suc_eq)
  qed (use assms len0 in \<open>auto simp: I_def\<close>)
  then have I: "I (m - 1) (vandermonde k m)"
    by (simp only: vandermonde_def Let_def)
  then show "length (vandermonde k m) = m * k" by (simp add: I_def)
  assume ij: "i < m" "j < k"
  show "mat k (vandermonde k m) i j = point i ^ j"
  proof (cases "i = 0")
    case True
    have "\<forall>i<m. \<forall>j<k. vandermonde k m ! (i * k + j) =
        (if 0 < i \<and> i < Suc (m - 1) then pw ((i - 1) * j) else ?t0 ! (i * k + j))"
      using I unfolding I_def by (rule conjunct2)
    from this [rule_format, of 0 j] have "vandermonde k m ! j = ?t0 ! j"
      using assms ij by simp
    moreover have "j < m * k" using idx_less [OF ij] True by simp
    ultimately have "vandermonde k m ! j = (if j = 0 then 1 else 0)" by (simp only: t0)
    with True show ?thesis by (simp add: mat_def point_def)
  next
    case False
    then show ?thesis
      using I ij by (simp add: I_def mat_def point_def GF_pw power_mult)
  qed
qed

lemma GF_fold_xor: "GF (fold (\<lambda>i acc. acc XOR f i) [0..<n] v) = GF v + (\<Sum>i<n. GF (f i))"
  by (induction n) (simp_all add: GF_xor ac_simps)

lemma matmul:
  assumes "length c = n * m"
  shows "length (matmul a b c n k m) = n * m"
    and "i < n \<Longrightarrow> j < m \<Longrightarrow> GF (matmul a b c n k m ! (i * m + j)) =
      (\<Sum>l<k. GF (a ! (i * k + l)) * GF (b ! (j + l * m)))"
proof -
  let ?acc = "\<lambda>row col. fold (\<lambda>i acc. acc XOR gf_mul (a ! (row * k + i)) (b ! (col + i * m))) [0..<k] 0"
  let ?row = "\<lambda>row c. fold (\<lambda>col c. c[row * m + col := ?acc row col]) [0..<m] c"
  define I where "I r t \<longleftrightarrow> length t = n * m \<and> (\<forall>i<r. i < n \<longrightarrow> (\<forall>j<m. t ! (i * m + j) = ?acc i j))"
    for r t
  have I: "I n (matmul a b c n k m)"
    unfolding matmul_def
  proof (rule fold_upt_invariant [where I = I])
    fix r t
    assume r: "r < n" and I: "I r t"
    have "?row r t ! (i * m + j) = (if i = r then ?acc r j else t ! (i * m + j))"
      if "i < n" "j < m" for i j
      using row_fill(2) [of m m j i t r "?acc r"] that I idx_less [of i n j m] by (simp add: I_def)
    then show "I (Suc r) (?row r t)"
      using I by (auto simp: I_def length_fold_update less_Suc_eq)
  qed (use assms in \<open>auto simp: I_def\<close>)
  then show "length (matmul a b c n k m) = n * m" by (simp add: I_def)
  show "GF (matmul a b c n k m ! (i * m + j)) = (\<Sum>l<k. GF (a ! (i * k + l)) * GF (b ! (j + l * m)))"
    if "i < n" "j < m"
    using I that by (simp add: I_def GF_fold_xor GF_mul)
qed

lemma addmul:
  assumes "length dst = len" "length src = len"
  shows "length (addmul dst src c len) = len"
    and "b < len \<Longrightarrow> GF (addmul dst src c len ! b) = GF (dst ! b) + GF c * GF (src ! b)"
proof -
  define I where "I n d \<longleftrightarrow> length d = len \<and>
      (\<forall>b<len. d ! b = (if b < n then dst ! b XOR gf_mul c (src ! b) else dst ! b))" for n d
  have "I len (fold (\<lambda>i d. d[i := d ! i XOR gf_mul c (src ! i)]) [0..<len] dst)"
    by (rule fold_upt_invariant [where I = I])
      (use assms in \<open>auto simp: I_def nth_list_update less_Suc_eq\<close>)
  then show "length (addmul dst src c len) = len"
    and "b < len \<Longrightarrow> GF (addmul dst src c len ! b) = GF (dst ! b) + GF c * GF (src ! b)"
    using assms by (auto simp: addmul_def I_def GF_xor GF_mul)
qed

lemma combine:
  assumes "\<And>j. j < k \<Longrightarrow> length (chunks ! j) = cs"
  shows "length (combine M rs k chunks cs) = cs"
    and "b < cs \<Longrightarrow> GF (combine M rs k chunks cs ! b) = (\<Sum>j<k. GF (M ! (rs + j)) * GF (chunks ! j ! b))"
proof -
  define I where "I n acc \<longleftrightarrow> length acc = cs \<and>
      (\<forall>b<cs. GF (acc ! b) = (\<Sum>j<n. GF (M ! (rs + j)) * GF (chunks ! j ! b)))" for n acc
  have "I k (combine M rs k chunks cs)"
    unfolding combine_def
  proof (rule fold_upt_invariant [where I = I])
    fix n acc
    assume n: "n < k" and I: "I n acc"
    then have len: "length acc = cs" "length (chunks ! n) = cs" using assms by (auto simp: I_def)
    show "I (Suc n) (let coeff = M ! (rs + n) in if coeff = 0 then acc else addmul acc (chunks ! n) coeff cs)"
      using I addmul [OF len] by (auto simp: I_def Let_def add.commute)
  qed (simp_all add: I_def)
  then show "length (combine M rs k chunks cs) = cs"
    and "b < cs \<Longrightarrow> GF (combine M rs k chunks cs ! b) = (\<Sum>j<k. GF (M ! (rs + j)) * GF (chunks ! j ! b))"
    by (auto simp: I_def)
qed

text \<open>The Lagrange coefficients that \<open>Fec::new\<close> computes, also for \<open>k = 1\<close>.\<close>

definition basis :: "nat \<Rightarrow> nat \<Rightarrow> nat \<Rightarrow> nat \<Rightarrow> gf" where
  "basis k m c j = mat k (invert_vandermonde (vandermonde k m) k) c j"

lemma basis_interp:
  assumes "0 < k" "k < m" "m \<le> 256" "r < k" "j < k"
  shows "peval k (\<lambda>c. basis k m c j) (point r) = delta r j"
proof (cases "k = 1")
  case True
  with assms show ?thesis
    using vandermonde(2) [of k m 0 0]
    by (simp add: basis_def invert_vandermonde_def peval_def delta_def)
next
  case False
  let ?v = "vandermonde k m" and ?p = "vand_points (vandermonde k m) k"
  have k: "1 < k" and sz: "k * k \<le> length ?v"
    using assms False vandermonde(1) [of k m] by auto
  have pts: "vpoint ?p i = point i" if "i < k" for i
    using vandermonde(2) [of k m i 1] that assms k
    by (simp add: vpoint_def vand_points_def mat_def add.commute)
  have "mat k ?v 0 1 = 0" using vandermonde(2) [of k m 0 1] assms k by (simp add: point_def)
  then have v1: "?v ! 1 = 0" by (simp add: mat_def)
  have "?p ! 0 = 0" using v1 k by (simp add: vand_points_def)
  moreover have "inj_on (vpoint ?p) {..<k}"
    using inj_on_subset [OF point_inj, of "{..<k}"] assms pts by (auto simp: inj_on_def)
  ultimately have "peval k (\<lambda>c. lagrange ?p k c j) (vpoint ?p r) = delta r j"
    using assms by (intro lagrange_interp) auto
  moreover have "peval k (\<lambda>c. lagrange ?p k c j) x = peval k (\<lambda>c. basis k m c j) x" for x
    unfolding peval_def basis_def
    using invert_vandermonde_lagrange(2) [OF k sz v1] assms(5) by (intro sum.cong) auto
  ultimately show ?thesis using pts assms(4) by simp
qed

text \<open>
  The encoder matrix evaluates the Lagrange basis at the points: row \<open>i\<close> of the matrix
  maps the data, read as the values of a polynomial at the first \<open>k\<close> points, to its value
  at point \<open>i\<close>.
\<close>

lemma fec_new_ok:
  "fec_new k m = Inr f \<longleftrightarrow> 0 < k \<and> k < m \<and> m \<le> 256 \<and> f = \<lparr> fec_k = k, fec_m = m,
     enc_matrix = fold (\<lambda>i e. e[i * k + i := 1]) [0..<k] (replicate (k * k) 0 @
       matmul (drop (k * k) (invert_vandermonde (vandermonde k m) k))
         (take (k * k) (invert_vandermonde (vandermonde k m) k)) (replicate ((m - k) * k) 0) (m - k) k k) \<rparr>"
  by (auto simp: fec_new_def Let_def)

definition wf_fec :: "fec \<Rightarrow> bool" where
  "wf_fec f \<longleftrightarrow> 0 < fec_k f \<and> fec_k f < fec_m f \<and> fec_m f \<le> 256 \<and>
     length (enc_matrix f) = fec_m f * fec_k f \<and>
     (\<forall>i<fec_m f. \<forall>j<fec_k f. mat (fec_k f) (enc_matrix f) i j =
        peval (fec_k f) (\<lambda>c. basis (fec_k f) (fec_m f) c j) (point i))"

lemma invert_vandermonde_rest:
  assumes "0 < k" "k < m" "m \<le> 256" "k \<le> i" "i < m" "j < k"
  shows "length (invert_vandermonde (vandermonde k m) k) = m * k"
    and "mat k (invert_vandermonde (vandermonde k m) k) i j = point i ^ j"
proof -
  let ?v = "vandermonde k m"
  have "length (invert_vandermonde ?v k) = length ?v \<and>
      mat k (invert_vandermonde ?v k) i j = mat k ?v i j"
  proof (cases "k = 1")
    case True
    then show ?thesis by (simp add: invert_vandermonde_def)
  next
    case False
    with assms have k: "1 < k" and sz: "k * k \<le> length ?v"
      using vandermonde(1) [of k m] by auto
    have "mat k ?v 0 1 = 0" using vandermonde(2) [of k m 0 1] assms k by (simp add: point_def)
    then have v1: "?v ! 1 = 0" by (simp add: mat_def)
    have "k * k \<le> i * k + j" using assms(4) by (simp add: trans_le_add1)
    then show ?thesis
      using invert_vandermonde_lagrange(1,3) [OF k sz v1] by (simp add: mat_def)
  qed
  then show "length (invert_vandermonde ?v k) = m * k"
    and "mat k (invert_vandermonde ?v k) i j = point i ^ j"
    using vandermonde [of k m] assms by simp_all
qed

lemma diag_loop:
  assumes "k * k \<le> length e"
  shows "length (fold (\<lambda>i e. e[i * k + i := 1]) [0..<k] e) = length e"
    and "i * k + j < length e \<Longrightarrow> j < k \<Longrightarrow> fold (\<lambda>i e. e[i * k + i := 1]) [0..<k] e ! (i * k + j) =
      (if i = j then 1 else (e :: bytes) ! (i * k + j))"
proof -
  show "length (fold (\<lambda>i e. e[i * k + i := 1]) [0..<k] e) = length e"
    by (rule length_fold_update)
  assume b: "i * k + j < length e" "j < k"
  define I where "I n t \<longleftrightarrow> length t = length e \<and>
      t ! (i * k + j) = (if i = j \<and> i < n then 1 else e ! (i * k + j))" for n t
  have "I k (fold (\<lambda>i e. e[i * k + i := 1]) [0..<k] e)"
  proof (rule fold_upt_invariant [where I = I])
    fix n t
    assume n: "n < k" and I: "I n t"
    have eq: "i * k + j = n * k + n \<longleftrightarrow> i = n \<and> j = n"
      using b n by (intro idx_eq) auto
    have "t[n * k + n := 1] ! (i * k + j) = (if i * k + j = n * k + n then 1 else t ! (i * k + j))"
      using I b by (simp add: I_def nth_list_update)
    then show "I (Suc n) (t[n * k + n := 1])"
      using I unfolding eq by (auto simp: I_def)
  qed (simp_all add: I_def)
  then show "fold (\<lambda>i e. e[i * k + i := 1]) [0..<k] e ! (i * k + j) =
      (if i = j then 1 else e ! (i * k + j))"
    using b by (auto simp: I_def)
qed

lemma fec_new_wf:
  assumes "fec_new k m = Inr f"
  shows "wf_fec f"
proof -
  let ?t = "invert_vandermonde (vandermonde k m) k"
  let ?mm = "matmul (drop (k * k) ?t) (take (k * k) ?t) (replicate ((m - k) * k) 0) (m - k) k k"
  let ?e0 = "replicate (k * k) 0 @ ?mm"
  have km: "0 < k" "k < m" "m \<le> 256" and f: "f = \<lparr> fec_k = k, fec_m = m,
      enc_matrix = fold (\<lambda>i e. e[i * k + i := 1]) [0..<k] ?e0 \<rparr>"
    using assms by (auto simp: fec_new_ok)
  have lenmm: "length ?mm = (m - k) * k"
    by (rule matmul(1)) simp
  have len: "length ?e0 = m * k"
    using km lenmm by (simp add: diff_mult_distrib)
  have kk: "k * k \<le> length ?e0" by simp
  note dl = diag_loop [OF kk]
  have "mat k (enc_matrix f) i j = peval k (\<lambda>c. basis k m c j) (point i)" if ij: "i < m" "j < k" for i j
  proof (cases "i < k")
    case True
    then have "i * k + j < k * k" using ij by (intro idx_less)
    then have "?e0 ! (i * k + j) = 0" by (simp add: nth_append)
    then have "mat k (enc_matrix f) i j = delta i j"
      using dl(2) [of i j] ij len idx_less [OF ij] by (simp add: f mat_def delta_def)
    then show ?thesis using basis_interp [OF km] True ij by simp
  next
    case False
    then obtain r where r: "i = k + r" "r < m - k" using ij by (metis le_add_diff_inverse2 add.commute less_diff_conv not_less)
    have rk: "r * k + l < (m - k) * k" if "l < k" for l using r that by (intro idx_less)
    have low: "l * k + j < k * k" if "l < k" for l using that ij by (intro idx_less)
    have tl: "length ?t = m * k" and pts: "\<And>l. l < k \<Longrightarrow> mat k ?t i l = point i ^ l"
      using invert_vandermonde_rest(1) [OF km, of i j] invert_vandermonde_rest(2) [OF km, of i] False ij
      by simp_all
    have "?e0 ! (i * k + j) = ?mm ! (r * k + j)"
      by (simp add: nth_append r algebra_simps)
    then have "mat k (enc_matrix f) i j = GF (?mm ! (r * k + j))"
      using dl(2) [of i j] ij len idx_less [OF ij] r by (simp add: f mat_def)
    also have "\<dots> = (\<Sum>l<k. GF (drop (k * k) ?t ! (r * k + l)) * GF (take (k * k) ?t ! (j + l * k)))"
      using matmul(2) [of "replicate ((m - k) * k) 0" "m - k" k r j] r ij by simp
    also have "\<dots> = (\<Sum>l<k. basis k m l j * point i ^ l)"
    proof (rule sum.cong)
      fix l
      assume "l \<in> {..<k}"
      then have l: "l < k" by simp
      have "drop (k * k) ?t ! (r * k + l) = ?t ! (i * k + l)"
        using km by (subst nth_drop) (simp_all add: tl r algebra_simps)
      moreover have "take (k * k) ?t ! (j + l * k) = ?t ! (l * k + j)"
        using low [OF l] by (simp add: add.commute)
      ultimately show "GF (drop (k * k) ?t ! (r * k + l)) * GF (take (k * k) ?t ! (j + l * k)) =
          basis k m l j * point i ^ l"
        using pts [OF l] by (simp add: mat_def basis_def)
    qed simp
    finally show ?thesis by (simp add: peval_def)
  qed
  then show ?thesis
    using km len by (simp add: wf_fec_def f length_fold_update)
qed

end
