(* ===== verification/FecRoundtrip.thy ===== *)
theory FecRoundtrip
  imports Fec
begin

text \<open>
  Correctness of \<open>Fec::encode\<close> and \<open>Fec::decode\<close>: the shares of an encoding are the values
  of one polynomial per byte position, the reorganisation of the slots picks \<open>k\<close> distinct
  shares, and Gauss-Jordan inversion of their rows recovers the data.
\<close>

section \<open>What encode produces\<close>

abbreviation blk :: "bytes \<Rightarrow> nat \<Rightarrow> nat \<Rightarrow> bytes" where
  "blk data cs i \<equiv> fst (data_block data cs i)"

abbreviation csize :: "fec \<Rightarrow> bytes \<Rightarrow> nat" where
  "csize f data \<equiv> chunk_size_for (length data) (fec_k f)"

definition share_data :: "fec \<Rightarrow> bytes \<Rightarrow> nat \<Rightarrow> bytes" where
  "share_data f data i =
     (if i < fec_k f then blk data (csize f data) i
      else combine (enc_matrix f) (i * fec_k f) (fec_k f)
             (map (blk data (csize f data)) [0..<fec_k f]) (csize f data))"

definition share :: "fec \<Rightarrow> bytes \<Rightarrow> nat \<Rightarrow> chunk" where
  "share f data i = \<lparr> chunk_data = share_data f data i, chunk_index = i \<rparr>"

lemma share_sel [simp]: "chunk_data (share f data i) = share_data f data i"
  "chunk_index (share f data i) = i"
  by (simp_all add: share_def)

lemma length_blk [simp]: "length (blk data cs i) = cs"
  by (simp add: data_block_def Let_def)

lemma block_loop:
  "fold (\<lambda>i (cs', pad). case data_block data cs i of (block, added) \<Rightarrow> (cs' @ [block], pad + added))
     [0..<n] ([], 0) = (map (blk data cs) [0..<n], n * cs - length data)"
proof (induction n)
  case (Suc n)
  then show ?case
    by (auto simp: data_block_def Let_def)
qed simp

lemma concat_blocks: "concat (map (blk data cs) [0..<n]) = resize (n * cs) 0 data"
proof (induction n)
  case (Suc n)
  have take_drop: "take (n * cs) data @ take cs (drop (n * cs) data) = take (n * cs + cs) data"
    by (simp add: take_add)
  show ?case
    using Suc take_drop
    by (auto simp: data_block_def Let_def resize_def segment_def replicate_add [symmetric] add.commute)
qed (simp add: resize_def)

lemma chunk_size_bounds:
  assumes "0 < k"
  shows "n \<le> k * chunk_size_for n k" and "0 < n \<Longrightarrow> 0 < chunk_size_for n k"
proof -
  have "n \<le> k * ((n + k - 1) div k)"
    using assms dividend_less_times_div [of k "n + k - 1"] by (simp add: algebra_simps)
  then show "n \<le> k * chunk_size_for n k" and "0 < n \<Longrightarrow> 0 < chunk_size_for n k"
    using assms by (auto simp: chunk_size_for_def intro: Nat.gr0I)
qed

lemma encode_eq:
  assumes "wf_fec f"
  shows "fec_encode f data = Inr (map (share f data) [0..<fec_m f],
     fec_k f * csize f data - length data)"
proof -
  have "[0..<fec_m f] = [0..<fec_k f] @ [fec_k f..<fec_m f]"
    using assms by (metis add_0 le0 le_add_diff_inverse less_imp_le upt_add_eq_append wf_fec_def)
  moreover have "map g [fec_k f..<fec_m f] = map (\<lambda>i. g (fec_k f + i)) [0..<fec_m f - fec_k f]" for g :: "nat \<Rightarrow> chunk"
    using assms by (intro nth_equalityI) (auto simp: wf_fec_def)
  ultimately show ?thesis
    by (simp add: fec_encode_def Let_def block_loop share_def share_data_def)
qed

section \<open>Shares as values of polynomials\<close>

abbreviation ematrix :: "fec \<Rightarrow> nat \<Rightarrow> nat \<Rightarrow> gf" where
  "ematrix f \<equiv> mat (fec_k f) (enc_matrix f)"

lemma ematrix_delta:
  assumes "wf_fec f" "i < fec_k f" "j < fec_k f"
  shows "ematrix f i j = delta i j"
  using assms basis_interp [of "fec_k f" "fec_m f" i j] by (simp add: wf_fec_def)

lemma share_linear:
  assumes "wf_fec f" "i < fec_m f"
  shows "length (share_data f data i) = csize f data"
    and "b < csize f data \<Longrightarrow> GF (share_data f data i ! b) =
      (\<Sum>j<fec_k f. ematrix f i j * GF (blk data (csize f data) j ! b))"
proof -
  have len: "length (map (blk data (csize f data)) [0..<fec_k f] ! j) = csize f data"
    if "j < fec_k f" for j using that by simp
  note c = combine [OF len]
  show "length (share_data f data i) = csize f data"
    using c by (simp add: share_data_def)
  show "GF (share_data f data i ! b) = (\<Sum>j<fec_k f. ematrix f i j * GF (blk data (csize f data) j ! b))"
    if b: "b < csize f data"
  proof (cases "i < fec_k f")
    case True
    have "(\<Sum>j<fec_k f. ematrix f i j * GF (blk data (csize f data) j ! b)) =
        (\<Sum>j<fec_k f. delta i j * GF (blk data (csize f data) j ! b))"
      using assms True by (intro sum.cong) (auto simp: ematrix_delta)
    with True show ?thesis by (simp add: share_data_def)
  next
    case False
    then show ?thesis
      using c(2) [OF _ b] by (simp add: share_data_def mat_def)
  qed
qed

text \<open>Rows of distinct shares are linearly independent.\<close>

lemma rows_independent:
  assumes wf: "wf_fec f" and rho: "\<And>i. i < fec_k f \<Longrightarrow> \<rho> i < fec_m f" "inj_on \<rho> {..<fec_k f}"
    and M: "\<And>i j. i < fec_k f \<Longrightarrow> j < fec_k f \<Longrightarrow> M i j = ematrix f (\<rho> i) j"
  shows "ker_trivial (fec_k f) M"
proof -
  let ?k = "fec_k f"
  have "inj_on (\<lambda>i. point (\<rho> i)) {..<?k}"
    using comp_inj_on [OF rho(2) inj_on_subset [OF point_inj]] wf rho(1)
    by (fastforce simp: wf_fec_def comp_def)
  then have "ker_trivial ?k (\<lambda>i j. peval ?k (\<lambda>c. basis ?k (fec_m f) c j) (point (\<rho> i)))"
    using wf by (intro lagrange_ker_trivial [where pt = point]) (auto simp: wf_fec_def intro: basis_interp)
  then show ?thesis
    using wf rho(1) M by (simp add: ker_trivial_def mvec_def wf_fec_def)
qed

section \<open>The slots after reorganisation\<close>

definition placed :: "nat \<Rightarrow> (nat \<Rightarrow> bytes) \<Rightarrow> nat set \<Rightarrow> slots" where
  "placed m D S = (map (\<lambda>i. if i \<in> S then Some i else None) [0..<m],
                   map (\<lambda>i. if i \<in> S then D i else []) [0..<m])"

text \<open>The first share with a given index wins.\<close>

definition first_data :: "chunk list \<Rightarrow> nat \<Rightarrow> bytes" where
  "first_data cs i = (case find (\<lambda>c. chunk_index c = i) cs of Some c \<Rightarrow> chunk_data c | None \<Rightarrow> [])"

lemma first_data_in:
  "i \<in> chunk_index ` set cs \<Longrightarrow> \<exists>c \<in> set cs. chunk_index c = i \<and> first_data cs i = chunk_data c"
  by (induction cs) (auto simp: first_data_def)

lemma place_share_step:
  assumes "chunk_index c < m" "chunk_index c \<notin> S \<Longrightarrow> chunk_data c = D (chunk_index c)"
  shows "place_share c (placed m D S) = placed m D (insert (chunk_index c) S)"
  using assms by (auto simp: place_share_def placed_def list_eq_iff_nth_eq nth_list_update insert_absorb)

lemma place_shares:
  "\<forall>c \<in> set cs. chunk_index c < m \<Longrightarrow> \<forall>i \<in> chunk_index ` set cs - S. D i = first_data cs i \<Longrightarrow>
   fold place_share cs (placed m D S) = placed m D (S \<union> chunk_index ` set cs)"
proof (induction cs arbitrary: S)
  case (Cons c cs)
  have "place_share c (placed m D S) = placed m D (insert (chunk_index c) S)"
    using Cons.prems by (intro place_share_step) (auto simp: first_data_def)
  moreover have "\<forall>i \<in> chunk_index ` set cs - insert (chunk_index c) S. D i = first_data cs i"
    using Cons.prems by (auto simp: first_data_def)
  ultimately show ?case using Cons.IH [of "insert (chunk_index c) S"] Cons.prems by simp
qed simp

lemma placed_empty: "placed m D {} = (replicate m None, replicate m [])"
  by (simp add: placed_def map_replicate_trivial)

lemma placed_nth:
  assumes "placed m D S = (sn, cv)"
  shows "length sn = m" "length cv = m"
    and "i < m \<Longrightarrow> sn ! i = (if i \<in> S then Some i else None)"
    and "i < m \<Longrightarrow> cv ! i = (if i \<in> S then D i else [])"
  using assms by (auto simp: placed_def)

lemma fill_missing_spec:
  assumes "fill_missing ps M sn cv rep = (sn', cv', rep')" "set M \<subseteq> {..<k}" "set ps \<subseteq> {k..<n}"
    "distinct M" "k \<le> n" "length sn = n" "length cv = n"
  shows "length sn' = n \<and> length cv' = n \<and>
    rep' = rep @ take (length (filter (\<lambda>p. cv ! p \<noteq> []) ps)) M \<and>
    (\<forall>j<n. case map_of (zip M (filter (\<lambda>p. cv ! p \<noteq> []) ps)) j of
       Some p \<Rightarrow> sn' ! j = Some p \<and> cv' ! j = cv ! p
     | None \<Rightarrow> sn' ! j = sn ! j \<and> cv' ! j = cv ! j)"
  using assms
proof (induction ps M sn cv rep rule: fill_missing.induct)
  case (2 p ps M sn cv rep)
  show ?case
  proof (cases "cv ! p \<noteq> [] \<and> M \<noteq> []")
    case True
    then obtain s M' where M: "M = s # M'" by (cases M) auto
    have s: "s < k" "s \<notin> set ps" "s \<notin> set M'" using 2 M by auto
    let ?P = "filter (\<lambda>p. cv ! p \<noteq> []) ps"
    have nth: "cv[s := cv ! p] ! q = cv ! q" if "q \<in> set ps" for q
      using s that by (metis nth_list_update_neq)
    have filt: "filter (\<lambda>q. cv[s := cv ! p] ! q \<noteq> []) ps = ?P"
      using nth by (intro filter_cong) auto
    have none: "map_of (zip M' ?P) s = None"
      using s(3) by (auto simp: map_of_eq_None_iff dest: set_zip_leftD)
    have val: "cv[s := cv ! p] ! q = cv ! q" if "map_of (zip M' ?P) j = Some q" for j q
    proof -
      from that have "q \<in> set ?P" by (auto dest!: map_of_SomeD set_zip_rightD)
      then show ?thesis by (intro nth) auto
    qed
    have sn: "s < n" using s 2 by simp
    have ih: "length sn' = n \<and> length cv' = n \<and>
      rep' = (rep @ [s]) @ take (length ?P) M' \<and>
      (\<forall>j<n. case map_of (zip M' ?P) j of
         Some q \<Rightarrow> sn' ! j = Some q \<and> cv' ! j = cv[s := cv ! p] ! q
       | None \<Rightarrow> sn' ! j = sn[s := Some p] ! j \<and> cv' ! j = cv[s := cv ! p] ! j)"
      using 2(1) [OF _ M] 2(3-) True M unfolding filt by simp
    have "case map_of (zip M (filter (\<lambda>p. cv ! p \<noteq> []) (p # ps))) j of
        Some p \<Rightarrow> sn' ! j = Some p \<and> cv' ! j = cv ! p
      | None \<Rightarrow> sn' ! j = sn ! j \<and> cv' ! j = cv ! j" if "j < n" for j
      using ih [THEN conjunct2, THEN conjunct2, THEN conjunct2, rule_format, OF that] True M sn none val 2(8,9)
      by (cases "j = s"; cases "map_of (zip M' ?P) j") (auto simp: nth_list_update)
    then show ?thesis using ih True M by simp
  next
    case False
    then show ?thesis using 2 by (auto split: list.splits)
  qed
qed simp

text \<open>
  The outcome of the reorganisation: slot \<open>j\<close> holds share \<open>\<rho> j\<close>, and \<open>\<rho>\<close> is injective.
\<close>

lemma reorganise:
  assumes S: "S \<subseteq> {..<m}" and km: "k < m" and card: "k \<le> card S"
    and D: "\<And>i. i \<in> S \<Longrightarrow> D i \<noteq> []"
    and pl: "placed m D S = (sn, cv)"
    and fm: "fill_missing [k..<m] (filter (\<lambda>i. sn ! i = None) [0..<k]) sn cv [] = (sn', cv', rep)"
  obtains \<rho> where "\<And>j. j < k \<Longrightarrow> \<rho> j \<in> S" "inj_on \<rho> {..<k}" "length sn' = m" "length cv' = m"
    "\<And>j. j < k \<Longrightarrow> sn' ! j = Some (\<rho> j)" "\<And>j. j < k \<Longrightarrow> cv' ! j = D (\<rho> j)"
    "\<And>j. j < k \<Longrightarrow> \<rho> j < k \<Longrightarrow> \<rho> j = j" "\<And>j. j < k \<Longrightarrow> \<rho> j \<noteq> j \<Longrightarrow> j \<in> set rep"
    "distinct rep" "set rep \<subseteq> {..<k}"
proof -
  note pn = placed_nth [OF pl]
  define M where "M = filter (\<lambda>i. i \<notin> S) [0..<k]"
  define P where "P = filter (\<lambda>i. i \<in> S) [k..<m]"
  have M: "filter (\<lambda>i. sn ! i = None) [0..<k] = M"
    unfolding M_def using pn km by (intro filter_cong) auto
  have P: "filter (\<lambda>p. cv ! p \<noteq> []) [k..<m] = P"
    unfolding P_def using pn D by (intro filter_cong) auto
  have "length M = card ({..<k} - S)"
    unfolding M_def length_filter_conv_card by (intro arg_cong [of _ _ card]) auto
  then have lM: "length M + card (S \<inter> {..<k}) = k"
    using card_Int_Diff [of "{..<k}" S] by (simp add: Int_commute)
  have finS: "finite S" using S finite_subset by blast
  have "distinct P" by (simp add: P_def)
  then have "length P = card (set P)" by (simp add: distinct_card)
  also have "set P = S - {..<k}" using S by (auto simp: P_def)
  finally have lP: "length P + card (S \<inter> {..<k}) = card S"
    using card_Int_Diff [OF finS, of "{..<k}"] by simp
  have MP: "length M \<le> length P" using lM lP card by simp
  have fill: "length sn' = m \<and> length cv' = m \<and> rep = take (length P) M \<and>
    (\<forall>j<m. case map_of (zip M P) j of
       Some p \<Rightarrow> sn' ! j = Some p \<and> cv' ! j = cv ! p
     | None \<Rightarrow> sn' ! j = sn ! j \<and> cv' ! j = cv ! j)"
    using fill_missing_spec [OF fm [unfolded M], of k m] km pn unfolding P
    by (simp add: M_def subset_iff)
  let ?z = "zip M (take (length M) P)"
  have z: "zip M P = ?z" using take_zip [of "length M" M P] MP by simp
  have lz: "length (take (length M) P) = length M" using MP by simp
  define \<rho> where "\<rho> j = (case map_of ?z j of Some p \<Rightarrow> p | None \<Rightarrow> j)" for j
  have some: "\<exists>p. map_of ?z j = Some p \<and> p \<in> set P" if jM: "j \<in> set M" for j
  proof -
    obtain p where p: "map_of ?z j = Some p"
      using iffD1 [OF map_of_zip_is_Some [OF lz [symmetric]] jM] by blast
    then have "p \<in> set (take (length M) P)" by (auto dest!: map_of_SomeD set_zip_rightD)
    with p show ?thesis by (auto dest: in_set_takeD)
  qed
  have none: "map_of ?z j = None" if "j \<notin> set M" for j
    using that by (auto simp: map_of_eq_None_iff dest: set_zip_leftD)
  have rep: "rep = M" using fill MP by simp
  have slot: "map_of ?z j = Some p \<Longrightarrow> sn' ! j = Some p \<and> cv' ! j = cv ! p"
    "map_of ?z j = None \<Longrightarrow> sn' ! j = sn ! j \<and> cv' ! j = cv ! j" if "j < m" for j p
    using fill [THEN conjunct2, THEN conjunct2, THEN conjunct2, rule_format, OF that]
    unfolding z by simp_all
  have rho: "\<rho> j \<in> S \<and> (\<rho> j < k \<longrightarrow> \<rho> j = j) \<and> sn' ! j = Some (\<rho> j) \<and> cv' ! j = D (\<rho> j) \<and>
      (\<rho> j \<noteq> j \<longrightarrow> j \<in> set rep)" if j: "j < k" for j
  proof (cases "j \<in> set M")
    case True
    then obtain p where p: "map_of ?z j = Some p" "p \<in> set P" using some by blast
    then have "p \<in> S" "k \<le> p" "p < m" by (auto simp: P_def)
    with p True rep show ?thesis
      using slot(1) [of j p] j km pn(4) [of p] by (simp add: \<rho>_def)
  next
    case False
    then have "j \<in> S" using j by (simp add: M_def)
    with none [OF False] show ?thesis
      using slot(2) [of j] j km pn(3,4) [of j] by (simp add: \<rho>_def)
  qed
  have inj: "inj_on \<rho> {..<k}"
  proof (rule inj_onI)
    fix i j
    assume ij: "i \<in> {..<k}" "j \<in> {..<k}" "\<rho> i = \<rho> j"
    show "i = j"
    proof (cases "i \<in> set M \<and> j \<in> set M")
      case True
      have dP: "distinct (take (length M) P)" by (simp add: P_def)
      obtain p where p: "map_of ?z i = Some p" "map_of ?z j = Some p"
        using True ij some [of i] some [of j] by (auto simp: \<rho>_def)
      then obtain a b where "a < length M" "M ! a = i" "take (length M) P ! a = p"
          "b < length M" "M ! b = j" "take (length M) P ! b = p"
        using lz by (auto dest!: map_of_SomeD simp: in_set_zip)
      moreover have "a = b" using calculation dP lz by (metis nth_eq_iff_index_eq)
      ultimately show ?thesis by simp
    next
      case False
      then have "\<rho> i = i \<or> \<rho> j = j" using none by (auto simp: \<rho>_def)
      then show ?thesis using ij rho [of i] rho [of j] by auto
    qed
  qed
  have "distinct rep" "set rep \<subseteq> {..<k}"
    using rep by (auto simp: M_def)
  with that [of \<rho>] rho inj fill show ?thesis by blast
qed

text \<open>How many of the first \<open>k\<close> slots are populated.\<close>

lemma reorganise_count:
  assumes S: "S \<subseteq> {..<m}" and km: "k < m"
    and pl: "placed m D S = (sn, cv)"
    and fm: "fill_missing [k..<m] (filter (\<lambda>i. sn ! i = None) [0..<k]) sn cv [] = (sn', cv', rep)"
  shows "length (filter (\<lambda>s. s \<noteq> None) (take k sn')) =
    card (S \<inter> {..<k}) + min (k - card (S \<inter> {..<k})) (card {i \<in> S. k \<le> i \<and> D i \<noteq> []})"
proof -
  note pn = placed_nth [OF pl]
  define M where "M = filter (\<lambda>i. i \<notin> S) [0..<k]"
  define P where "P = filter (\<lambda>i. i \<in> S \<and> D i \<noteq> []) [k..<m]"
  have M: "filter (\<lambda>i. sn ! i = None) [0..<k] = M"
    unfolding M_def using pn km by (intro filter_cong) auto
  have P: "filter (\<lambda>p. cv ! p \<noteq> []) [k..<m] = P"
    unfolding P_def using pn by (intro filter_cong) auto
  have "length M = card ({..<k} - S)"
    unfolding M_def length_filter_conv_card by (intro arg_cong [of _ _ card]) auto
  then have lM: "length M = k - card (S \<inter> {..<k})"
    using card_Int_Diff [of "{..<k}" S] by (simp add: Int_commute)
  have "distinct P" by (simp add: P_def)
  then have "length P = card (set P)" by (simp add: distinct_card)
  also have "set P = {i \<in> S. k \<le> i \<and> D i \<noteq> []}" using S by (auto simp: P_def)
  finally have lP: "length P = card {i \<in> S. k \<le> i \<and> D i \<noteq> []}" .
  have fill: "length sn' = m \<and> length cv' = m \<and> rep = [] @ take (length P) M \<and>
    (\<forall>j<m. case map_of (zip M P) j of
       Some p \<Rightarrow> sn' ! j = Some p \<and> cv' ! j = cv ! p
     | None \<Rightarrow> sn' ! j = sn ! j \<and> cv' ! j = cv ! j)"
    using fill_missing_spec [OF fm [unfolded M], of k m] km pn unfolding P
    by (simp add: M_def subset_iff)
  have "fst ` set (zip M P) = set (take (min (length M) (length P)) M)"
    by (metis map_fst_zip_take list.set_map)
  also have "take (min (length M) (length P)) M = take (length P) M" by (simp add: min_def)
  finally have dom: "map_of (zip M P) j = None \<longleftrightarrow> j \<notin> set (take (length P) M)" for j
    by (simp add: map_of_eq_None_iff)
  have some: "sn' ! j \<noteq> None \<longleftrightarrow> j \<in> S \<or> j \<in> set (take (length P) M)" if "j < k" for j
    using fill [THEN conjunct2, THEN conjunct2, THEN conjunct2, rule_format, of j] that km dom [of j] pn(3) [of j]
    by (cases "map_of (zip M P) j") auto
  have sub: "set (take (length P) M) \<subseteq> {..<k}" by (auto simp: M_def dest: in_set_takeD)
  have "length (filter (\<lambda>s. s \<noteq> None) (take k sn')) = card {j. j < k \<and> sn' ! j \<noteq> None}"
    using fill km unfolding length_filter_conv_card by (intro arg_cong [of _ _ card]) auto
  also have "{j. j < k \<and> sn' ! j \<noteq> None} = (S \<inter> {..<k}) \<union> set (take (length P) M)"
    using some sub by blast
  also have "card \<dots> = card (S \<inter> {..<k}) + card (set (take (length P) M))"
    by (rule card_Un_disjoint) (auto simp: M_def dest!: in_set_takeD)
  also have "card (set (take (length P) M)) = min (length M) (length P)"
    by (subst distinct_card) (simp_all add: M_def)
  finally show ?thesis by (simp add: lM lP)
qed

end
