(* ===== verification/FecDecode.thy ===== *)
theory FecDecode
  imports FecRoundtrip
begin

text \<open>
  Correctness of \<open>Fec::decode\<close>: the decode matrix holds the encoder rows of the shares in
  the slots, its inverse recovers the missing blocks, and every error is characterised.
\<close>

section \<open>The decode matrix\<close>

lemma decode_row_nth:
  assumes "wf_fec f" "length md = fec_k f * fec_k f" "r < fec_k f" "sn ! r = Some a" "a < fec_m f"
    "a < fec_k f \<longrightarrow> a = r"
  shows "length (decode_row f sn r md) = fec_k f * fec_k f"
    and "i < fec_k f \<Longrightarrow> j < fec_k f \<Longrightarrow> (\<forall>l<fec_k f. md ! (r * fec_k f + l) = 0) \<Longrightarrow>
      mat (fec_k f) (decode_row f sn r md) i j =
        (if i = r then ematrix f a j else mat (fec_k f) md i j)"
proof -
  let ?k = "fec_k f"
  have wf: "length (enc_matrix f) = fec_m f * ?k" using assms(1) by (simp add: wf_fec_def)
  have top: "a * ?k + ?k \<le> length (enc_matrix f)"
    using assms(5) wf mult_le_mono1 [of "Suc a" "fec_m f" ?k] by (simp add: add.commute)
  have low: "r * ?k + ?k \<le> length md"
    using assms(2,3) mult_le_mono1 [of "Suc r" ?k ?k] by (simp add: add.commute)
  show "length (decode_row f sn r md) = ?k * ?k"
    using assms top low by (simp add: decode_row_def Let_def algebra_simps)
  assume ij: "i < ?k" "j < ?k" and zero: "\<forall>l<?k. md ! (r * ?k + l) = 0"
  show "mat ?k (decode_row f sn r md) i j = (if i = r then ematrix f a j else mat ?k md i j)"
  proof (cases "a < ?k")
    case True
    have eq: "i * ?k + j = r * ?k + r \<longleftrightarrow> i = r \<and> j = r"
      using ij assms(3) by (intro idx_eq) auto
    have "(md[r * ?k + r := 1]) ! (i * ?k + j) = (if i * ?k + j = r * ?k + r then 1 else md ! (i * ?k + j))"
      using idx_less [OF ij] assms(2) by (simp add: nth_list_update)
    then show ?thesis
      using True assms ij zero unfolding eq
      by (auto simp: decode_row_def Let_def mat_def [of _ md] mat_def [of _ "list_update _ _ _"]
          ematrix_delta delta_def)
  next
    case False
    then have row: "decode_row f sn r md =
        take (r * ?k) md @ segment (a * ?k) (a * ?k + ?k) (enc_matrix f) @ drop (r * ?k + ?k) md"
      using assms(4) by (simp add: decode_row_def Let_def add.commute)
    have before: "r * ?k \<le> length md" using low by simp
    consider "i = r" | "i < r" | "r < i" by linarith
    then show ?thesis
    proof cases
      case 1
      then show ?thesis
        using before top ij unfolding row mat_def by (simp add: nth_append segment_def)
    next
      case 2
      then have "i * ?k + j < r * ?k" using ij idx_less by blast
      then show ?thesis
        using 2 before unfolding row mat_def by (simp add: nth_append)
    next
      case 3
      then have "r * ?k + ?k \<le> i * ?k" using mult_le_mono1 [of "Suc r" i ?k] by (simp add: add.commute)
      then have "\<not> i * ?k + j < r * ?k" "\<not> i * ?k + j - r * ?k < ?k" "r * ?k + ?k \<le> i * ?k + j"
        by linarith+
      then show ?thesis
        using 3 before low top unfolding row mat_def by (simp add: nth_append)
    qed
  qed
qed

lemma decode_matrix:
  assumes wf: "wf_fec f" and sn: "\<And>i. i < fec_k f \<Longrightarrow> sn ! i = Some (\<rho> i)"
    and rho: "\<And>i. i < fec_k f \<Longrightarrow> \<rho> i < fec_m f" "\<And>i. i < fec_k f \<Longrightarrow> \<rho> i < fec_k f \<Longrightarrow> \<rho> i = i"
  defines "md \<equiv> fold (decode_row f sn) [0..<fec_k f] (replicate (fec_k f * fec_k f) 0)"
  shows "length md = fec_k f * fec_k f"
    and "i < fec_k f \<Longrightarrow> j < fec_k f \<Longrightarrow> mat (fec_k f) md i j = ematrix f (\<rho> i) j"
proof -
  let ?k = "fec_k f"
  define I where "I n t \<longleftrightarrow> length t = ?k * ?k \<and>
      (\<forall>i<?k. \<forall>j<?k. mat ?k t i j = (if i < n then ematrix f (\<rho> i) j else 0))" for n t
  have "I ?k md"
    unfolding md_def
  proof (rule fold_upt_invariant [where I = I])
    fix n t
    assume n: "n < ?k" and I: "I n t"
    have "mat ?k t n l = 0" if "l < ?k" for l using I n that by (simp add: I_def)
    then have zero: "\<forall>l<?k. t ! (n * ?k + l) = 0" by (simp add: mat_def GF_eq_0)
    have len: "length t = ?k * ?k" using I by (simp add: I_def)
    note row = decode_row_nth [OF wf len n sn [OF n] rho(1) [OF n]]
    show "I (Suc n) (decode_row f sn n t)"
      using row rho(2) [OF n] I zero by (auto simp: I_def less_Suc_eq)
  qed (auto simp: I_def mat_def GF_eq_0 idx_less)
  then show "length md = ?k * ?k" and "i < ?k \<Longrightarrow> j < ?k \<Longrightarrow> mat ?k md i j = ematrix f (\<rho> i) j"
    by (simp_all add: I_def)
qed

section \<open>Decoding shares of one encoding\<close>

lemma check_shares_ok:
  "\<forall>c \<in> set cs. chunk_index c < m \<and> length (chunk_data c) = n \<Longrightarrow> check_shares m n cs = Inr ()"
  by (induction cs) auto

lemma update_slots:
  "distinct js \<Longrightarrow> set js \<subseteq> {..<length cs} \<Longrightarrow> j < length cs \<Longrightarrow>
   fold (\<lambda>(idx, slot) cs. cs[idx := slot]) (zip js (map g js)) cs ! j =
     (if j \<in> set js then g j else cs ! j)"
  by (induction js arbitrary: cs) (auto simp: nth_list_update)

lemma length_update_slots:
  "length (fold (\<lambda>(idx, slot) cs. cs[idx := slot]) js cs) = length cs"
  by (induction js arbitrary: cs) auto

lemma recover_block:
  assumes wf: "wf_fec f" and rho: "\<And>i. i < fec_k f \<Longrightarrow> \<rho> i < fec_m f"
    and cv: "\<And>i. i < fec_k f \<Longrightarrow> cv ! i = share_data f data (\<rho> i)"
    and invm: "\<And>i j. i < fec_k f \<Longrightarrow> j < fec_k f \<Longrightarrow>
       mmul (fec_k f) (mat (fec_k f) invm) (\<lambda>i j. ematrix f (\<rho> i) j) i j = delta i j"
    and s: "s < fec_k f"
  shows "combine invm (s * fec_k f) (fec_k f) cv (csize f data) = blk data (csize f data) s"
proof (rule nth_equalityI)
  let ?k = "fec_k f" and ?cs = "csize f data"
  have len: "length (cv ! j) = ?cs" if "j < ?k" for j
    using cv [OF that] share_linear(1) [OF wf rho [OF that]] by simp
  note c = combine [OF len, where M = invm and rs = "s * ?k"]
  show "length (combine invm (s * ?k) ?k cv ?cs) = length (blk data ?cs s)"
    using c(1) by simp
  fix b
  assume "b < length (combine invm (s * ?k) ?k cv ?cs)"
  then have b: "b < ?cs" using c(1) by simp
  define x where "x j = GF (blk data ?cs j ! b)" for j
  have "GF (combine invm (s * ?k) ?k cv ?cs ! b) = mvec ?k (mat ?k invm) (mvec ?k (\<lambda>i j. ematrix f (\<rho> i) j) x) s"
    using c(2) [OF _ b] cv rho share_linear(2) [OF wf _ b]
    by (simp add: mvec_def mat_def [of _ invm] x_def)
  also have "\<dots> = mvec ?k (mmul ?k (mat ?k invm) (\<lambda>i j. ematrix f (\<rho> i) j)) x s"
    by (simp only: mvec_mmul)
  also have "\<dots> = (\<Sum>j<?k. delta s j * x j)"
    unfolding mvec_def using invm s by (intro sum.cong) auto
  also have "\<dots> = GF (blk data ?cs s ! b)" using s by (simp add: x_def)
  finally show "combine invm (s * ?k) ?k cv ?cs ! b = blk data ?cs s ! b" by simp
qed

definition shares_of :: "fec \<Rightarrow> bytes \<Rightarrow> chunk list \<Rightarrow> bool" where
  "shares_of f data cs \<longleftrightarrow> (\<forall>c \<in> set cs. chunk_index c < fec_m f \<and> c = share f data (chunk_index c))"

lemma strip_blocks:
  assumes "wf_fec f"
  shows "strip_padding (concat (map (blk data (csize f data)) [0..<fec_k f]))
     (fec_k f * csize f data - length data) = data"
proof -
  have le: "length data \<le> fec_k f * csize f data"
    using chunk_size_bounds(1) [of "fec_k f" "length data"] assms by (simp add: wf_fec_def)
  then have "\<not> fec_k f * csize f data \<le> fec_k f * csize f data - length data" if "data \<noteq> []"
    using that length_greater_0_conv [of data] by linarith
  then show ?thesis
    using le by (cases "data = []") (auto simp: strip_padding_def concat_blocks resize_def)
qed

text \<open>
  Decoding arbitrary well-shaped shares that name \<open>k\<close> distinct indices: the slots hold the
  shares \<open>\<rho>\<close>, and the output is the concatenation of the present blocks and of the
  combinations of the slots with the inverse of the rows of \<open>\<rho>\<close>. No share data can make
  the inversion fail.
\<close>

lemma decode_slots:
  assumes wf: "wf_fec f" and n: "0 < n"
    and shape: "\<forall>c \<in> set cs. chunk_index c < fec_m f \<and> length (chunk_data c) = n"
    and enough: "fec_k f \<le> card (chunk_index ` set cs)"
  obtains \<rho> cv rep invm where
    "\<And>j. j < fec_k f \<Longrightarrow> \<rho> j \<in> chunk_index ` set cs" "\<And>j. j < fec_k f \<Longrightarrow> \<rho> j < fec_m f"
    "\<And>j. j < fec_k f \<Longrightarrow> cv ! j = first_data cs (\<rho> j)"
    "\<And>j. j < fec_k f \<Longrightarrow> j \<notin> set rep \<Longrightarrow> \<rho> j = j"
    "\<And>i j. i < fec_k f \<Longrightarrow> j < fec_k f \<Longrightarrow>
       mmul (fec_k f) (mat (fec_k f) invm) (\<lambda>i j. ematrix f (\<rho> i) j) i j = delta i j"
    "\<And>pad. fec_decode f cs pad = Inr (strip_padding (concat (map (\<lambda>j. if j \<in> set rep
        then combine invm (j * fec_k f) (fec_k f) cv n else cv ! j) [0..<fec_k f])) pad)"
proof -
  let ?k = "fec_k f" and ?m = "fec_m f" and ?S = "chunk_index ` set cs" and ?D = "first_data cs"
  have km: "0 < ?k" "?k < ?m" using wf by (auto simp: wf_fec_def)
  have "card ?S \<le> length cs" by (metis card_image_le card_length finite_set le_trans)
  with enough have lcs: "\<not> length cs < ?k" by simp
  then have "cs ! 0 \<in> set cs" using km by (intro nth_mem) auto
  then have len0: "length (chunk_data (cs ! 0)) = n" using shape by blast
  have check: "check_shares ?m n cs = Inr ()"
    using shape by (intro check_shares_ok)
  obtain sn cv where pl: "placed ?m ?D ?S = (sn, cv)" by (metis surj_pair)
  have place: "fold place_share cs (replicate ?m None, replicate ?m []) = (sn, cv)"
    using place_shares [of cs ?m "{}" ?D] shape pl by (simp add: placed_empty)
  obtain sn' cv' rep where fm:
      "fill_missing [?k..<?m] (filter (\<lambda>i. sn ! i = None) [0..<?k]) sn cv [] = (sn', cv', rep)"
    by (metis surj_pair)
  have nonempty: "?D i \<noteq> []" if "i \<in> ?S" for i
    using first_data_in [OF that] shape n by force
  have S: "?S \<subseteq> {..<?m}" using shape by auto
  obtain \<rho> where rho: "\<And>j. j < ?k \<Longrightarrow> \<rho> j \<in> ?S" "inj_on \<rho> {..<?k}"
      "length sn' = ?m" "length cv' = ?m" "\<And>j. j < ?k \<Longrightarrow> sn' ! j = Some (\<rho> j)"
      "\<And>j. j < ?k \<Longrightarrow> cv' ! j = ?D (\<rho> j)" "\<And>j. j < ?k \<Longrightarrow> \<rho> j < ?k \<Longrightarrow> \<rho> j = j"
      "\<And>j. j < ?k \<Longrightarrow> \<rho> j \<noteq> j \<Longrightarrow> j \<in> set rep" "distinct rep" "set rep \<subseteq> {..<?k}"
    using reorganise [OF S km(2) enough nonempty pl fm] by blast
  have rm: "\<rho> j < ?m" if "j < ?k" for j using rho(1) [OF that] S by auto
  have count: "length (filter (\<lambda>s. s \<noteq> None) (take ?k sn')) = ?k"
    using rho(3,5) km by (subst filter_True) (auto simp: in_set_conv_nth)
  let ?md = "fold (decode_row f sn') [0..<?k] (replicate (?k * ?k) 0)"
  note md = decode_matrix [OF wf rho(5) rm rho(7)]
  have "ker_trivial ?k (mat ?k ?md)"
    by (rule rows_independent [OF wf rm rho(2) md(2)])
  then obtain invm where invm: "invert_matrix ?md ?k = Inr invm"
    using invert_matrix_total [OF md(1)] by blast
  have left: "mmul ?k (mat ?k invm) (\<lambda>i j. ematrix f (\<rho> i) j) i j = delta i j"
    if "i < ?k" "j < ?k" for i j
  proof -
    have "mmul ?k (mat ?k invm) (\<lambda>i j. ematrix f (\<rho> i) j) i j = mmul ?k (mat ?k invm) (mat ?k ?md) i j"
      unfolding mmul_def using md(2) that by (intro sum.cong) auto
    then show ?thesis using invert_matrix_left_inverse(2) [OF md(1) invm that] by simp
  qed
  let ?rec = "\<lambda>j. combine invm (j * ?k) ?k cv' n"
  let ?upd = "fold (\<lambda>(idx, slot) cs. cs[idx := slot]) (zip rep (map ?rec rep)) cv'"
  have "?upd ! j = (if j \<in> set rep then ?rec j else cv' ! j)" if "j < ?k" for j
    using update_slots [OF rho(9), of cv' j ?rec] rho(4,10) km that by fastforce
  then have upd: "take ?k ?upd = map (\<lambda>j. if j \<in> set rep then ?rec j else cv' ! j) [0..<?k]"
    using rho(4) km by (intro nth_equalityI) (auto simp: length_update_slots)
  have "fec_decode f cs pad =
      (if rep = [] then Inr (strip_padding (concat (take ?k cv')) pad)
       else Inr (strip_padding (concat (take ?k ?upd)) pad))" for pad
    using lcs by (simp add: fec_decode_def Let_def len0 check place fm count invm del: not_None_eq)
  then have "fec_decode f cs pad = Inr (strip_padding (concat (take ?k ?upd)) pad)" for pad
    by (cases "rep = []") simp_all
  then show thesis
    using that [of \<rho> cv' rep invm] rho rm left unfolding upd by blast
qed

lemma decode_shares:
  assumes wf: "wf_fec f" and cs: "shares_of f data cs" and data: "data \<noteq> []"
    and enough: "fec_k f \<le> card (chunk_index ` set cs)"
  shows "fec_decode f cs (fec_k f * csize f data - length data) = Inr data"
proof -
  let ?k = "fec_k f" and ?b = "blk data (csize f data)"
  have share: "c = share f data (chunk_index c)" "chunk_index c < fec_m f" if "c \<in> set cs" for c
    using cs that by (auto simp: shares_of_def)
  have cd: "chunk_data c = share_data f data (chunk_index c)" if "c \<in> set cs" for c
    using share [OF that] by (metis share_sel(1))
  have size: "0 < csize f data"
    using chunk_size_bounds(2) [of ?k "length data"] data wf by (simp add: wf_fec_def)
  have shape: "\<forall>c \<in> set cs. chunk_index c < fec_m f \<and> length (chunk_data c) = csize f data"
    using share(2) cd share_linear(1) [OF wf] by simp
  show ?thesis
  proof (rule decode_slots [OF wf size shape enough])
    fix \<rho> cv rep invm
    let ?out = "\<lambda>j. if j \<in> set rep then combine invm (j * ?k) ?k cv (csize f data) else cv ! j"
    assume rho: "\<And>j. j < ?k \<Longrightarrow> \<rho> j \<in> chunk_index ` set cs" "\<And>j. j < ?k \<Longrightarrow> \<rho> j < fec_m f"
      and slot: "\<And>j. j < ?k \<Longrightarrow> cv ! j = first_data cs (\<rho> j)"
      and present: "\<And>j. j < ?k \<Longrightarrow> j \<notin> set rep \<Longrightarrow> \<rho> j = j"
      and invm: "\<And>i j. i < ?k \<Longrightarrow> j < ?k \<Longrightarrow>
        mmul ?k (mat ?k invm) (\<lambda>i j. ematrix f (\<rho> i) j) i j = delta i j"
      and dec: "\<And>pad. fec_decode f cs pad = Inr (strip_padding (concat (map ?out [0..<?k])) pad)"
    have cv: "cv ! j = share_data f data (\<rho> j)" if "j < ?k" for j
      using slot [OF that] first_data_in [OF rho(1) [OF that]] cd by force
    have "?out j = ?b j" if "j < ?k" for j
      using recover_block [where \<rho> = \<rho>, OF wf rho(2) cv invm that] cv [OF that] present [OF that] that
      by (simp add: share_data_def)
    then have "map ?out [0..<?k] = map ?b [0..<?k]" by simp
    then show ?thesis by (simp only: dec strip_blocks [OF wf])
  qed
qed

text \<open>With too few distinct shares of non-empty blocks the exact error is known.\<close>

lemma decode_few:
  assumes wf: "wf_fec f" and n: "0 < n" and len: "fec_k f \<le> length cs"
    and shape: "\<forall>c \<in> set cs. chunk_index c < fec_m f \<and> length (chunk_data c) = n"
    and few: "card (chunk_index ` set cs) < fec_k f"
  shows "fec_decode f cs pad = Inl (NotEnoughChunks (fec_k f) (card (chunk_index ` set cs)))"
proof -
  let ?k = "fec_k f" and ?m = "fec_m f" and ?S = "chunk_index ` set cs" and ?D = "first_data cs"
  have km: "0 < ?k" "?k < ?m" using wf by (auto simp: wf_fec_def)
  then have "cs ! 0 \<in> set cs" using len by (intro nth_mem) auto
  then have len0: "length (chunk_data (cs ! 0)) = n" using shape by blast
  have check: "check_shares ?m n cs = Inr ()" using shape by (intro check_shares_ok)
  obtain sn cv where pl: "placed ?m ?D ?S = (sn, cv)" by (metis surj_pair)
  have place: "fold place_share cs (replicate ?m None, replicate ?m []) = (sn, cv)"
    using place_shares [of cs ?m "{}" ?D] shape pl by (simp add: placed_empty)
  obtain sn' cv' rep where fm:
      "fill_missing [?k..<?m] (filter (\<lambda>i. sn ! i = None) [0..<?k]) sn cv [] = (sn', cv', rep)"
    by (metis surj_pair)
  have "?D i \<noteq> []" if "i \<in> ?S" for i
    using first_data_in [OF that] shape n by force
  then have "{i \<in> ?S. ?k \<le> i \<and> ?D i \<noteq> []} = ?S - {..<?k}" by auto
  then have "card (?S \<inter> {..<?k}) + card {i \<in> ?S. ?k \<le> i \<and> ?D i \<noteq> []} = card ?S"
    using card_Int_Diff [of ?S "{..<?k}"] by simp
  moreover have "?S \<subseteq> {..<?m}" using shape by auto
  ultimately have "length (filter (\<lambda>s. s \<noteq> None) (take ?k sn')) = card ?S"
    using reorganise_count [OF _ km(2) pl fm] few by simp
  then show ?thesis
    using len few by (simp add: fec_decode_def Let_def len0 check place fm del: not_None_eq)
qed

section \<open>Properties\<close>

lemma fec_new_params: "fec_new k m = Inr f \<Longrightarrow> fec_k f = k \<and> fec_m f = m"
  by (auto simp: fec_new_ok)

text \<open>Any list drawn from the output of one encoding is a list of its shares.\<close>

lemma encode_shares_of:
  assumes "wf_fec f" "fec_encode f data = Inr (out, padding)" "set shares \<subseteq> set out"
  shows "shares_of f data shares" "padding = fec_k f * csize f data - length data"
  using assms by (force simp: encode_eq shares_of_def)+

lemma encode_shares_shape:
  assumes "wf_fec f" "shares_of f data shares" "c \<in> set shares"
  shows "chunk_index c < fec_m f" "length (chunk_data c) = csize f data"
proof -
  from assms have c: "chunk_index c < fec_m f" "c = share f data (chunk_index c)"
    by (auto simp: shares_of_def)
  then show "chunk_index c < fec_m f" by simp
  have "chunk_data c = share_data f data (chunk_index c)" using c(2) by (metis share_sel(1))
  then show "length (chunk_data c) = csize f data"
    using share_linear(1) [OF assms(1) c(1)] by simp
qed

text \<open>C1: Any k of the m shares reconstruct the data. For every legal pair (k, m), every
  non-empty data and every list of shares taken from the output of \<open>Fec::encode\<close>, in any
  order and with repetitions, that names at least k distinct share indices,
  \<open>Fec::decode\<close> with the padding returned by the encoder succeeds and returns exactly the data.\<close>

theorem fec_any_k_shares_recover:
  assumes "fec_new k m = Inr f" "fec_encode f data = Inr (out, padding)" "data \<noteq> []"
    and "set shares \<subseteq> set out" "k \<le> card (chunk_index ` set shares)"
  shows "fec_decode f shares padding = Inr data"
proof -
  note wf = fec_new_wf [OF assms(1)]
  note s = encode_shares_of [OF wf assms(2,4)]
  show ?thesis
    using decode_shares [OF wf s(1) assms(3)] assms(5) fec_new_params [OF assms(1)] s(2) by simp
qed

theorem fec_any_k_shares_recover_witness:
  "\<exists>f out padding. fec_new 2 4 = Inr f \<and> fec_encode f [10, 20, 30] = Inr (out, padding) \<and>
     fec_decode f [out ! 3, out ! 1, out ! 3] padding = Inr [10, 20, 30]"
proof -
  obtain f where f: "fec_new 2 4 = Inr f" by (simp add: fec_new_ok)
  have e: "fec_encode f [10, 20, 30] = Inr (map (share f [10, 20, 30]) [0..<4], 1)"
    using encode_eq [OF fec_new_wf [OF f], of "[10, 20, 30]"] fec_new_params [OF f]
    by (simp add: chunk_size_for_def)
  have "chunk_index ` set [map (share f [10, 20, 30]) [0..<4] ! 3,
      map (share f [10, 20, 30]) [0..<4] ! 1, map (share f [10, 20, 30]) [0..<4] ! 3] = {1, 3}"
    by auto
  then show ?thesis
    using fec_any_k_shares_recover [OF f e, of "[map (share f [10, 20, 30]) [0..<4] ! 3,
      map (share f [10, 20, 30]) [0..<4] ! 1, map (share f [10, 20, 30]) [0..<4] ! 3]"] f e by auto
qed

text \<open>Fewer than k distinct shares are refused, with the exact count. If at least k
  shares of one encoding of non-empty data are given but they name fewer than k distinct
  indices, \<open>Fec::decode\<close> returns \<open>NotEnoughChunks\<close> with the number of distinct indices;
  duplicates never stand in for missing shares.\<close>

theorem fec_duplicates_not_enough:
  assumes "fec_new k m = Inr f" "fec_encode f data = Inr (out, padding)" "data \<noteq> []"
    and "set shares \<subseteq> set out" "k \<le> length shares" "card (chunk_index ` set shares) < k"
  shows "fec_decode f shares padding = Inl (NotEnoughChunks k (card (chunk_index ` set shares)))"
proof -
  note wf = fec_new_wf [OF assms(1)] and p = fec_new_params [OF assms(1)]
  note s = encode_shares_of [OF wf assms(2,4)]
  have "0 < csize f data"
    using chunk_size_bounds(2) [of k "length data"] assms(3) wf p by (simp add: wf_fec_def)
  then show ?thesis
    using decode_few [OF wf, of "csize f data" shares] encode_shares_shape [OF wf s(1)] assms(5,6) p by simp
qed

theorem fec_duplicates_not_enough_witness:
  "\<exists>f out padding. fec_new 2 4 = Inr f \<and> fec_encode f [10, 20, 30] = Inr (out, padding) \<and>
     fec_decode f [out ! 3, out ! 3] padding = Inl (NotEnoughChunks 2 1)"
proof -
  obtain f where f: "fec_new 2 4 = Inr f" by (simp add: fec_new_ok)
  have e: "fec_encode f [10, 20, 30] = Inr (map (share f [10, 20, 30]) [0..<4], 1)"
    using encode_eq [OF fec_new_wf [OF f], of "[10, 20, 30]"] fec_new_params [OF f]
    by (simp add: chunk_size_for_def)
  show ?thesis
    using fec_duplicates_not_enough [OF f e, of "[map (share f [10, 20, 30]) [0..<4] ! 3,
      map (share f [10, 20, 30]) [0..<4] ! 3]"] f e by auto
qed

lemma decode_total:
  assumes wf: "wf_fec f" and n: "0 < n"
    and shape: "\<forall>c \<in> set cs. chunk_index c < fec_m f \<and> length (chunk_data c) = n"
    and enough: "fec_k f \<le> card (chunk_index ` set cs)"
  shows "\<exists>out. fec_decode f cs padding = Inr out \<and> length out = fec_k f * n - padding"
proof (rule decode_slots [OF wf n shape enough])
  fix \<rho> cv rep invm
  let ?out = "\<lambda>j. if j \<in> set rep then combine invm (j * fec_k f) (fec_k f) cv n else cv ! j"
  assume rho: "\<And>j. j < fec_k f \<Longrightarrow> \<rho> j \<in> chunk_index ` set cs"
    and slot: "\<And>j. j < fec_k f \<Longrightarrow> cv ! j = first_data cs (\<rho> j)"
    and dec: "\<And>pad. fec_decode f cs pad = Inr (strip_padding (concat (map ?out [0..<fec_k f])) pad)"
  have len: "length (cv ! j) = n" if "j < fec_k f" for j
    using slot [OF that] first_data_in [OF rho [OF that]] shape by auto
  have "length (?out j) = n" if "j < fec_k f" for j
    using combine(1) [OF len] len [OF that] by simp
  then have "length (concat (map ?out [0..<j])) = j * n" if "j \<le> fec_k f" for j
    using that by (induction j) auto
  from this [of "fec_k f"] show ?thesis
    by (auto simp: dec strip_padding_def)
qed

text \<open>Hostile share contents cannot make decoding fail or panic. For any shares, not
  necessarily produced by the encoder, whose indices are below m, whose data has one common
  positive length n and which name at least k distinct indices, \<open>Fec::decode\<close> returns Ok and the
  result has exactly k * n bytes less the padding: the decode matrix is never singular.\<close>

theorem fec_decode_never_singular:
  assumes "fec_new k m = Inr f" "0 < n"
    and "\<forall>c \<in> set cs. chunk_index c < m \<and> length (chunk_data c) = n"
    and "k \<le> card (chunk_index ` set cs)"
  shows "\<exists>out. fec_decode f cs padding = Inr out \<and> length out = k * n - padding"
  using decode_total [OF fec_new_wf [OF assms(1)] assms(2), of cs padding] assms(3,4)
    fec_new_params [OF assms(1)] by simp

theorem fec_decode_never_singular_witness:
  "\<exists>f out. fec_new 2 3 = Inr f \<and>
     fec_decode f [\<lparr> chunk_data = [1, 2], chunk_index = 2 \<rparr>, \<lparr> chunk_data = [255, 7], chunk_index = 0 \<rparr>] 1 = Inr out \<and>
     length out = 3"
proof -
  obtain f where f: "fec_new 2 3 = Inr f" by (simp add: fec_new_ok)
  show ?thesis
    using fec_decode_never_singular [OF f, of 2 "[\<lparr> chunk_data = [1, 2], chunk_index = 2 \<rparr>,
      \<lparr> chunk_data = [255, 7], chunk_index = 0 \<rparr>]" 1] f by (auto simp: card_insert_if)
qed

text \<open>C30: \<open>Fec::new\<close> accepts exactly the pairs with 0 < k < m <= 256, and the matrix it
  computes is systematic and maximum distance separable: the first k rows are the identity and
  every choice of k distinct rows is linearly independent over GF(2^8).\<close>

theorem fec_new_mds:
  "(\<exists>f. fec_new k m = Inr f) = (0 < k \<and> k < m \<and> m \<le> 256) \<and>
   (fec_new k m = Inr f \<longrightarrow>
      (\<forall>i j. i < k \<and> j < k \<longrightarrow> enc_matrix f ! (i * k + j) = (if i = j then 1 else 0)) \<and>
      (\<forall>\<rho>. inj_on \<rho> {..<k} \<and> \<rho> ` {..<k} \<subseteq> {..<m} \<longrightarrow>
         ker_trivial k (\<lambda>i j. GF (enc_matrix f ! (\<rho> i * k + j)))))"
proof (intro conjI impI allI)
  show "(\<exists>f. fec_new k m = Inr f) = (0 < k \<and> k < m \<and> m \<le> 256)"
    by (auto simp: fec_new_ok)
  assume f: "fec_new k m = Inr f"
  note wf = fec_new_wf [OF f] and p = fec_new_params [OF f]
  show "enc_matrix f ! (i * k + j) = (if i = j then 1 else 0)" if "i < k \<and> j < k" for i j
    using ematrix_delta [OF wf, of i j] that p GF_eq_1 GF_eq_0
    by (simp add: mat_def delta_def split: if_splits)
  show "ker_trivial k (\<lambda>i j. GF (enc_matrix f ! (\<rho> i * k + j)))"
    if "inj_on \<rho> {..<k} \<and> \<rho> ` {..<k} \<subseteq> {..<m}" for \<rho>
  proof -
    have "ker_trivial (fec_k f) (\<lambda>i j. GF (enc_matrix f ! (\<rho> i * k + j)))"
      using that p by (intro rows_independent [OF wf, of \<rho>]) (auto simp: mat_def)
    then show ?thesis using p by simp
  qed
qed

theorem fec_new_mds_witness:
  "\<exists>f. fec_new 1 2 = Inr f \<and> enc_matrix f ! 0 = 1 \<and> ker_trivial 1 (\<lambda>i j. GF (enc_matrix f ! (1 * 1 + j)))"
proof -
  obtain f where f: "fec_new 1 2 = Inr f" by (simp add: fec_new_ok)
  have "ker_trivial 1 (\<lambda>i j. GF (enc_matrix f ! ((\<lambda>_. 1) i * 1 + j)))"
    using fec_new_mds [of 1 2 f, THEN conjunct2, rule_format, OF f, THEN conjunct2, rule_format, of "\<lambda>_. 1"]
    by (simp add: lessThan_Suc)
  then show ?thesis
    using fec_new_mds [of 1 2 f, THEN conjunct2, rule_format, OF f, THEN conjunct1, rule_format, of 0 0] f by simp
qed

text \<open>Empty data does not round-trip through any k shares. The blocks of an
  empty data are empty, so the test \<open>!chunks[parity_idx].is_empty()\<close> never sees a parity
  share: decoding k or more shares of the empty data succeeds exactly when all k data
  shares are among them, and otherwise fails with \<open>NotEnoughChunks\<close>, whatever parity is present.\<close>

theorem fec_empty_data:
  assumes "fec_new k m = Inr f" "fec_encode f [] = Inr (out, padding)"
    and "set shares \<subseteq> set out" "k \<le> length shares"
  shows "fec_decode f shares padding =
    (if {..<k} \<subseteq> chunk_index ` set shares then Inr []
     else Inl (NotEnoughChunks k (card (chunk_index ` set shares \<inter> {..<k}))))"
proof -
  note wf = fec_new_wf [OF assms(1)] and p = fec_new_params [OF assms(1)]
  note s = encode_shares_of [OF wf assms(2,3)]
  let ?S = "chunk_index ` set shares"
  have km: "0 < k" "k < m" using wf p by (auto simp: wf_fec_def)
  have shape: "\<forall>c \<in> set shares. chunk_index c < m \<and> length (chunk_data c) = 0"
    using encode_shares_shape [OF wf s(1)] p by (simp add: chunk_size_for_def)
  then have first: "first_data shares i = []" for i
    by (auto simp: first_data_def dest: find_SomeD split: option.splits)
  have "shares ! 0 \<in> set shares" using assms(4) km by (intro nth_mem) auto
  then have len0: "chunk_data (shares ! 0) = []" using shape by auto
  have check: "check_shares m 0 shares = Inr ()" using shape by (intro check_shares_ok) auto
  obtain sn cv where pl: "placed m (first_data shares) ?S = (sn, cv)" by (metis surj_pair)
  have place: "fold place_share shares (replicate m None, replicate m []) = (sn, cv)"
    using place_shares [of shares m "{}" "first_data shares"] shape pl by (simp add: placed_empty)
  obtain sn' cv' rep where fm:
      "fill_missing [k..<m] (filter (\<lambda>i. sn ! i = None) [0..<k]) sn cv [] = (sn', cv', rep)"
    by (metis surj_pair)
  have S: "?S \<subseteq> {..<m}" using shape by auto
  have count: "length (filter (\<lambda>s. s \<noteq> None) (take k sn')) = card (?S \<inter> {..<k})"
    using reorganise_count [OF S km(2) pl fm] by (simp add: first)
  have full: "card (?S \<inter> {..<k}) < k \<longleftrightarrow> \<not> {..<k} \<subseteq> ?S"
    by (metis Int_absorb1 Int_lower2 card_lessThan finite_lessThan inf.absorb_iff2 nat_less_le psubset_card_mono psubsetI)
  have fs: "length sn' = m \<and> length cv' = m \<and>
    rep = [] @ take (length (filter (\<lambda>p. cv ! p \<noteq> []) [k..<m])) (filter (\<lambda>i. sn ! i = None) [0..<k]) \<and>
    (\<forall>j<m. case map_of (zip (filter (\<lambda>i. sn ! i = None) [0..<k]) (filter (\<lambda>p. cv ! p \<noteq> []) [k..<m])) j of
       Some p \<Rightarrow> sn' ! j = Some p \<and> cv' ! j = cv ! p
     | None \<Rightarrow> sn' ! j = sn ! j \<and> cv' ! j = cv ! j)"
    using fill_missing_spec [OF fm, of k m] km placed_nth [OF pl] by (simp add: subset_iff)
  have "filter (\<lambda>p. cv ! p \<noteq> []) [k..<m] = []"
    using placed_nth(4) [OF pl] first by (simp add: filter_empty_conv)
  then have rep: "rep = []" and cv: "\<forall>j<m. cv' ! j = []"
    using fs placed_nth(4) [OF pl] first by simp_all
  have "concat (take k cv') = []"
    using cv fs km by (auto simp: in_set_conv_nth)
  then show ?thesis
    using assms(4) p by (auto simp: fec_decode_def Let_def len0 check place fm count rep full strip_padding_def
        simp del: not_None_eq)
qed

theorem fec_empty_data_witness:
  "\<exists>f out padding. fec_new 1 2 = Inr f \<and> fec_encode f [] = Inr (out, padding) \<and> length out = 2 \<and>
     fec_decode f [out ! 1] padding = Inl (NotEnoughChunks 1 0)"
proof -
  obtain f where f: "fec_new 1 2 = Inr f" by (simp add: fec_new_ok)
  have e: "fec_encode f [] = Inr (map (share f []) [0..<2], 0)"
    using encode_eq [OF fec_new_wf [OF f], of "[]"] fec_new_params [OF f]
    by (simp add: chunk_size_for_def)
  have "chunk_index ` set [map (share f []) [0..<2] ! 1] = {1}" by simp
  then show ?thesis
    using fec_empty_data [OF f e, of "[map (share f []) [0..<2] ! 1]"] f e by auto
qed

end
