(* ===== verification/Float64.thy ===== *)
theory Float64
  imports Prelude
begin

text \<open>
  The IEEE 754 binary64 operations that \<open>choose_kn\<close> of \<open>erasure/mod.rs\<close> uses: the cast
  from \<open>usize\<close>, multiplication rounded to nearest (ties to even), \<open>ceil\<close>, the comparison with
  zero and the saturating cast back to \<open>usize\<close>. A finite value is \<open>(-1)^sign * mant * 2^expo\<close>.
\<close>

datatype f64 = NaN | Infinite bool | Finite bool nat int

definition usize_max :: nat where
  "usize_max = 2 ^ 64 - 1"

text \<open>The number of significant bits of a natural number.\<close>

fun bits :: "nat \<Rightarrow> nat" where
  "bits n = (if n = 0 then 0 else Suc (bits (n div 2)))"

declare bits.simps [simp del]

definition round_shift :: "nat \<Rightarrow> nat \<Rightarrow> nat" where
  "round_shift s m =
     (let q = m div 2 ^ s; r = m mod 2 ^ s
      in if 2 ^ s < 2 * r \<or> (2 * r = 2 ^ s \<and> odd q) then q + 1 else q)"

text \<open>Round an exact value: keep 53 bits, not below the exponent of the subnormals.\<close>

definition f64_round :: "bool \<Rightarrow> nat \<Rightarrow> int \<Rightarrow> f64" where
  "f64_round sign m e =
     (let s = nat (max (int (bits m) - 53) (-1074 - e)); m' = round_shift s m; e' = e + int s
      in if m' \<noteq> 0 \<and> 1024 < int (bits m') + e' then Infinite sign else Finite sign m' e')"

definition f64_of_usize :: "nat \<Rightarrow> f64" where
  "f64_of_usize n = f64_round False n 0"

fun f64_mul :: "f64 \<Rightarrow> f64 \<Rightarrow> f64" where
  "f64_mul NaN _ = NaN"
| "f64_mul _ NaN = NaN"
| "f64_mul (Infinite s) (Infinite t) = Infinite (s \<noteq> t)"
| "f64_mul (Infinite s) (Finite t m e) = (if m = 0 then NaN else Infinite (s \<noteq> t))"
| "f64_mul (Finite s m e) (Infinite t) = (if m = 0 then NaN else Infinite (s \<noteq> t))"
| "f64_mul (Finite s m e) (Finite t n g) = f64_round (s \<noteq> t) (m * n) (e + g)"

fun f64_is_finite :: "f64 \<Rightarrow> bool" where
  "f64_is_finite (Finite _ _ _) = True"
| "f64_is_finite _ = False"

fun f64_less_0 :: "f64 \<Rightarrow> bool" where
  "f64_less_0 NaN = False"
| "f64_less_0 (Infinite s) = s"
| "f64_less_0 (Finite s m _) = (s \<and> m \<noteq> 0)"

fun f64_ceil :: "f64 \<Rightarrow> f64" where
  "f64_ceil (Finite s m e) =
     (if 0 \<le> e then Finite s m e
      else if s then Finite s (m div 2 ^ nat (- e)) 0
      else Finite s ((m + 2 ^ nat (- e) - 1) div 2 ^ nat (- e)) 0)"
| "f64_ceil x = x"

fun f64_as_usize :: "f64 \<Rightarrow> nat" where
  "f64_as_usize NaN = 0"
| "f64_as_usize (Infinite s) = (if s then 0 else usize_max)"
| "f64_as_usize (Finite s m e) =
     (if s then 0
      else min usize_max (if 0 \<le> e then m * 2 ^ nat e else m div 2 ^ nat (- e)))"

text \<open>The literal \<open>0.3\<close>, the nearest binary64 value.\<close>

definition f64_0_3 :: f64 where
  "f64_0_3 = Finite False 5404319552844595 (-54)"

section \<open>Lemmas\<close>

lemma f64_as_usize_le: "f64_as_usize x \<le> usize_max"
  by (cases x) auto

lemma bits_bound: "n < 2 ^ b \<longleftrightarrow> bits n \<le> b"
proof (induction n arbitrary: b rule: bits.induct)
  case (1 n)
  show ?case
  proof (cases "n = 0")
    case False
    then show ?thesis
      using 1 [of "b - 1"] by (cases b) (auto simp: bits.simps [of n])
  qed (simp add: bits.simps)
qed

lemma f64_of_usize_small:
  assumes "n < 2 ^ 53"
  shows "f64_of_usize n = Finite False n 0"
proof -
  have "bits n \<le> 53" using assms by (simp add: bits_bound flip: bits_bound)
  then show ?thesis by (simp add: f64_of_usize_def f64_round_def round_shift_def Let_def)
qed

lemma round_shift_le: "m \<le> a * 2 ^ s \<Longrightarrow> round_shift s m \<le> a"
proof -
  assume m: "m \<le> a * 2 ^ s"
  have eq: "m = m div 2 ^ s * 2 ^ s + m mod 2 ^ s" by (rule div_mult_mod_eq [symmetric])
  have le: "m div 2 ^ s \<le> a" using m by (metis div_le_mono nonzero_mult_div_cancel_right power_not_zero zero_neq_numeral)
  show ?thesis
  proof (cases "m div 2 ^ s = a")
    case True
    have "a * 2 ^ s + m mod 2 ^ s \<le> a * 2 ^ s" using m eq [unfolded True] by linarith
    then have "m mod 2 ^ s = 0" by simp
    with True show ?thesis by (simp add: round_shift_def Let_def)
  next
    case False
    with le show ?thesis by (simp add: round_shift_def Let_def)
  qed
qed

lemma round_shift_ge: "a * 2 ^ s \<le> m \<Longrightarrow> a \<le> round_shift s m"
proof -
  assume "a * 2 ^ s \<le> m"
  then have "a \<le> m div 2 ^ s" by (simp add: less_eq_div_iff_mult_less_eq)
  then show ?thesis by (simp add: round_shift_def Let_def)
qed

text \<open>
  The rounded product with the literal 0.3 has the exact ceiling of \<open>3 k / 10\<close>: the
  literal is below 0.3 by \<open>2 / (10 * 2 ^ 54)\<close>, and rounding never crosses an integer.
\<close>

lemma ceil_0_3:
  assumes k: "0 < k" "k \<le> 2 ^ 40"
  shows "f64_as_usize (f64_ceil (f64_mul (f64_of_usize k) f64_0_3)) = (3 * k + 9) div 10"
proof -
  define m where "m = k * 5404319552844595"
  define s where "s = bits m - 53"
  define q where "q = round_shift s m"
  define P :: nat where "P = 2 ^ (54 - s)"
  define C where "C = (3 * k + 9) div 10"
  have "k < 2 ^ 53" using k by simp
  then have kf: "f64_of_usize k = Finite False k 0" by (rule f64_of_usize_small)
  have m93: "m < 2 ^ 93" using k(2) by (simp add: m_def)
  then have "bits m \<le> 93" unfolding bits_bound .
  then have s: "s \<le> 40" by (simp add: s_def)
  have nat_s: "nat (max (int (bits m) - 53) (- 1074 - (0 + - 54))) = s" by (simp add: s_def)
  have Ps: "P * 2 ^ s = 2 ^ 54" using s by (simp add: P_def flip: power_add)
  have ten: "10 * m + 2 * k = 3 * k * 2 ^ 54" by (simp add: m_def)
  have Cb: "3 * k \<le> 10 * C" "10 * C \<le> 3 * k + 9" unfolding C_def by presburger+
  have "3 * k * 2 ^ 54 \<le> 10 * C * 2 ^ 54" using Cb(1) by (rule mult_le_mono1)
  then have "10 * m \<le> 10 * (C * 2 ^ 54)" using ten by simp
  then have "m \<le> C * P * 2 ^ s" by (simp add: mult.assoc Ps)
  then have up: "q \<le> C * P" unfolding q_def by (rule round_shift_le)
  have s2: "(2 :: nat) ^ s \<le> 2 ^ 40" using s by (intro power_increasing) auto
  have C1: "1 \<le> C" using k(1) unfolding C_def by presburger
  have "10 * (((C - 1) * P + 1) * 2 ^ s) \<le> 10 * m"
  proof -
    have e: "((C - 1) * P + 1) * 2 ^ s = (C - 1) * 2 ^ 54 + 2 ^ s"
      by (simp only: add_mult_distrib mult.assoc Ps mult_1)
    have "10 * (C - 1) + 1 \<le> 3 * k" using Cb(2) C1 by linarith
    then have "(10 * (C - 1) + 1) * 2 ^ 54 \<le> 3 * k * 2 ^ 54" by (rule mult_le_mono1)
    then show ?thesis unfolding e using ten s2 k(2) by simp
  qed
  then have "((C - 1) * P + 1) * 2 ^ s \<le> m" by simp
  then have low: "(C - 1) * P + 1 \<le> q" unfolding q_def by (rule round_shift_ge)
  have "q \<le> m" unfolding q_def by (rule round_shift_le) simp
  then have "bits q \<le> 93" using m93 unfolding bits_bound [symmetric] by (rule le_less_trans)
  moreover have "nat (54 - int s) = 54 - s" by simp
  ultimately have val: "f64_ceil (f64_mul (f64_of_usize k) f64_0_3) = Finite False ((q + P - 1) div P) 0"
    using s nat_s by (simp add: kf f64_0_3_def f64_round_def Let_def m_def [symmetric] q_def [symmetric] P_def)
  have "(q + P - 1) div P = C"
  proof (rule div_nat_eqI)
    have P: "0 < P" by (simp add: P_def)
    have "P * C = (C - 1) * P + P" using C1 by (cases C) simp_all
    then show "P * C \<le> q + P - 1" using low P by linarith
    show "q + P - 1 < P * Suc C" using up P by (simp add: mult.commute)
  qed
  moreover have "C \<le> usize_max" using Cb(2) k(2) by (simp add: usize_max_def)
  ultimately show ?thesis by (simp add: val C_def)
qed

end
