(* ===== verification/Erasure.thy ===== *)
theory Erasure
  imports FecDecode Float64
begin

text \<open>
  Cross-chunk erasure coding, \<open>erasure/mod.rs\<close>: the choice of \<open>(k, n)\<close>, \<open>encode\<close> and
  \<open>decode\<close>. Arithmetic on \<open>usize\<close> is 64-bit; the sum \<open>k + parity\<close> wraps as in a
  release build. \<open>EncoderInit\<close> and \<open>Encode\<close> carry the \<open>FecError\<close> whose Debug output the
  code formats.
\<close>

section \<open>The code\<close>

definition DATA_PER_CHUNK :: nat where
  "DATA_PER_CHUNK = 128"

definition LEN_PREFIX :: nat where
  "LEN_PREFIX = 4"

definition DEFAULT_REDUNDANCY :: f64 where
  "DEFAULT_REDUNDANCY = f64_0_3"

datatype erasure_error =
    PlaintextTooLarge
  | InvalidRedundancy
  | EncoderInit nat nat fec_error
  | Encode fec_error

definition div_ceil :: "nat \<Rightarrow> nat \<Rightarrow> nat" where
  "div_ceil a b = (if b = 0 then 0 else a div b + (if a mod b \<noteq> 0 then 1 else 0))"

definition choose_kn :: "nat \<Rightarrow> f64 \<Rightarrow> erasure_error + nat \<times> nat" where
  "choose_kn plaintext_size redundancy =
     (if \<not> f64_is_finite redundancy \<or> f64_less_0 redundancy then Inl InvalidRedundancy
      else let wrapped = min usize_max (plaintext_size + LEN_PREFIX);
               k = max (div_ceil wrapped DATA_PER_CHUNK) 1;
               parity_f = f64_mul (f64_of_usize k) redundancy;
               parity = max (f64_as_usize (f64_ceil parity_f)) 1;
               n = (k + parity) mod 2 ^ 64
           in Inr (k, n))"

definition erasure_encode :: "bytes \<Rightarrow> f64 \<Rightarrow> erasure_error + bytes list \<times> nat \<times> nat" where
  "erasure_encode plaintext redundancy =
     (if 2 ^ 32 - 1 < length plaintext then Inl PlaintextTooLarge
      else andThen (choose_kn (length plaintext) redundancy) (\<lambda>(k, n).
        let total = k * DATA_PER_CHUNK;
            padded = resize total 0 (be_of_nat 4 (length plaintext) @ plaintext)
        in andThen (mapErr (EncoderInit k n) (fec_new k n)) (\<lambda>fec.
           andThen (mapErr Encode (fec_encode fec padded)) (\<lambda>(chunks, padding).
             Inr (map (\<lambda>c. take DATA_PER_CHUNK (chunk_data c)) chunks, k, n)))))"

text \<open>\<open>Vec::dedup_by_key\<close>: of consecutive elements with the same key the first is kept.\<close>

fun dedup_by_key :: "('a \<Rightarrow> 'b) \<Rightarrow> 'a list \<Rightarrow> 'a list" where
  "dedup_by_key f (x # y # xs) =
     (if f x = f y then dedup_by_key f (x # xs) else x # dedup_by_key f (y # xs))"
| "dedup_by_key f xs = xs"

definition erasure_decode :: "(nat \<times> bytes) list \<Rightarrow> nat \<Rightarrow> nat \<Rightarrow> bytes option" where
  "erasure_decode shares k n =
     (if k = 0 \<or> n \<le> k then None
      else if length shares < k then None
      else
        let sorted = dedup_by_key fst (sort_key fst shares) in
        if length sorted < k then None
        else
          let chosen = take k sorted in
          if list_ex (\<lambda>(_, b). length b \<noteq> DATA_PER_CHUNK) chosen then None
          else if list_ex (\<lambda>(idx, _). n \<le> idx) chosen then None
          else
            let chunks = map (\<lambda>(idx, b). \<lparr> chunk_data = b, chunk_index = idx \<rparr>) chosen in
            (case ok (fec_new k n) of
               None \<Rightarrow> None
             | Some fec \<Rightarrow>
                 (case ok (fec_decode fec chunks 0) of
                    None \<Rightarrow> None
                  | Some padded \<Rightarrow>
                      if length padded < LEN_PREFIX then None
                      else
                        let len = nat_of_be (take LEN_PREFIX padded) in
                        if length padded - LEN_PREFIX < len then None
                        else Some (segment LEN_PREFIX (LEN_PREFIX + len) padded))))"

lemmas [const_defs] = DATA_PER_CHUNK_def LEN_PREFIX_def

section \<open>Choosing k and n\<close>

lemma div_ceil_bound: "0 < b \<Longrightarrow> a \<le> div_ceil a b * b"
proof -
  assume b: "0 < b"
  then have "a mod b \<le> b" by (simp add: less_imp_le)
  then have "a \<le> a div b * b + b" using div_mult_mod_eq [of a b] by linarith
  moreover have "a mod b = 0 \<Longrightarrow> a \<le> a div b * b" using div_mult_mod_eq [of a b] by linarith
  ultimately show ?thesis using b by (simp add: div_ceil_def)
qed

lemma choose_kn_k:
  assumes "choose_kn sz r = Inr (k, n)"
  shows "0 < k" "sz + LEN_PREFIX \<le> usize_max \<Longrightarrow> sz + LEN_PREFIX \<le> k * DATA_PER_CHUNK"
  using assms div_ceil_bound [of DATA_PER_CHUNK "sz + LEN_PREFIX"]
  by (auto simp: choose_kn_def Let_def max_def const_defs)

section \<open>Sorting and removing duplicates\<close>

lemma dedup_set: "set (dedup_by_key f xs) \<subseteq> set xs"
  by (induction f xs rule: dedup_by_key.induct) auto

lemma dedup_image: "f ` set (dedup_by_key f xs) = f ` set xs"
  by (induction f xs rule: dedup_by_key.induct) auto

lemma dedup_sorted: "sorted (map f xs) \<Longrightarrow> distinct (map f (dedup_by_key f xs))"
proof (induction f xs rule: dedup_by_key.induct)
  case (1 f x y xs)
  show ?case
  proof (cases "f x = f y")
    case False
    with 1(3) have "f x < f z" if "z \<in> set (y # xs)" for z
      using that by (auto simp: less_le)
    then have "f x \<notin> f ` set (dedup_by_key f (y # xs))"
      unfolding dedup_image by (metis image_iff less_irrefl)
    with 1 False show ?thesis by simp
  qed (use 1 in simp)
qed simp_all

section \<open>Encoding\<close>

abbreviation wrapped_plaintext :: "nat \<Rightarrow> bytes \<Rightarrow> bytes" where
  "wrapped_plaintext k p \<equiv> resize (k * DATA_PER_CHUNK) 0 (be_of_nat 4 (length p) @ p)"

lemma chunk_size_exact: "0 < k \<Longrightarrow> 0 < d \<Longrightarrow> chunk_size_for (k * d) k = d"
proof -
  assume "0 < k" "0 < d"
  then have "(k * d + k - 1) div k = d" by (intro div_nat_eqI) (auto simp: algebra_simps)
  with \<open>0 < k\<close> \<open>0 < d\<close> show ?thesis by (simp add: chunk_size_for_def)
qed

lemma erasure_encode_ok:
  assumes "erasure_encode p r = Inr (blocks, k, n)"
  obtains f where "fec_new k n = Inr f" "0 < k" "length p < 2 ^ 32"
    "length p + LEN_PREFIX \<le> k * DATA_PER_CHUNK" "csize f (wrapped_plaintext k p) = DATA_PER_CHUNK"
    "blocks = map (share_data f (wrapped_plaintext k p)) [0..<n]"
proof -
  from assms obtain f cs pad where kn: "choose_kn (length p) r = Inr (k, n)"
    and small: "length p < 2 ^ 32" and f: "fec_new k n = Inr f"
    and cs: "fec_encode f (wrapped_plaintext k p) = Inr (cs, pad)"
    and blocks: "blocks = map (\<lambda>c. take DATA_PER_CHUNK (chunk_data c)) cs"
    by (auto simp: erasure_encode_def andThen_Inr Let_def)
  note k = choose_kn_k [OF kn] and wf = fec_new_wf [OF f] and fp = fec_new_params [OF f]
  have fits: "length p + LEN_PREFIX \<le> k * DATA_PER_CHUNK"
    using k(2) small by (simp add: usize_max_def LEN_PREFIX_def)
  have size: "csize f (wrapped_plaintext k p) = DATA_PER_CHUNK"
    using k(1) fp by (simp add: chunk_size_exact DATA_PER_CHUNK_def)
  have "length (share_data f (wrapped_plaintext k p) i) = DATA_PER_CHUNK" if "i < n" for i
    using share_linear(1) [OF wf] that size fp by simp
  moreover have "cs = map (share f (wrapped_plaintext k p)) [0..<n]"
    using cs fp by (simp add: encode_eq [OF wf])
  ultimately have "blocks = map (share_data f (wrapped_plaintext k p)) [0..<n]"
    using blocks by simp
  then show thesis using that f k(1) small fits size by blast
qed

lemma unwrap_plaintext:
  assumes "length p < 2 ^ 32" "length p + LEN_PREFIX \<le> k * DATA_PER_CHUNK"
  defines "w \<equiv> wrapped_plaintext k p"
  shows "length w = k * DATA_PER_CHUNK" "nat_of_be (take LEN_PREFIX w) = length p"
    "segment LEN_PREFIX (LEN_PREFIX + length p) w = p"
  using assms by (simp_all add: resize_def segment_def LEN_PREFIX_def)

section \<open>Decoding\<close>

text \<open>The \<open>k\<close> shares that \<open>decode\<close> hands to the Reed-Solomon decoder.\<close>

definition chosen_shares :: "(nat \<times> bytes) list \<Rightarrow> nat \<Rightarrow> (nat \<times> bytes) list" where
  "chosen_shares shares k = take k (dedup_by_key fst (sort_key fst shares))"

lemma chosen_shares:
  assumes "k \<le> card (fst ` set shares)"
  shows "length (chosen_shares shares k) = k" "set (chosen_shares shares k) \<subseteq> set shares"
    "card (fst ` set (chosen_shares shares k)) = k"
    "k \<le> length (dedup_by_key fst (sort_key fst shares))"
proof -
  let ?s = "dedup_by_key fst (sort_key fst shares)"
  have d: "distinct (map fst ?s)" by (intro dedup_sorted) simp
  have "card (fst ` set ?s) = length ?s" using distinct_card [OF d] by simp
  then have len: "length ?s = card (fst ` set shares)" by (simp add: dedup_image)
  with assms show "k \<le> length ?s" by simp
  then show l: "length (chosen_shares shares k) = k" by (simp add: chosen_shares_def)
  show "set (chosen_shares shares k) \<subseteq> set shares"
    using dedup_set [of fst "sort_key fst shares"] by (auto simp: chosen_shares_def dest!: in_set_takeD)
  have "distinct (map fst (chosen_shares shares k))"
    using d by (simp add: chosen_shares_def take_map [symmetric] distinct_take)
  from distinct_card [OF this] l show "card (fst ` set (chosen_shares shares k)) = k" by simp
qed

lemma erasure_decode_alt:
  assumes "fec_new k n = Inr f" "k \<le> card (fst ` set shares)"
    "\<forall>(i, b) \<in> set (chosen_shares shares k). i < n \<and> length b = DATA_PER_CHUNK"
    "fec_decode f (map (\<lambda>(idx, b). \<lparr> chunk_data = b, chunk_index = idx \<rparr>) (chosen_shares shares k)) 0 = Inr w"
    "LEN_PREFIX \<le> length w"
  shows "erasure_decode shares k n =
    (if length w - LEN_PREFIX < nat_of_be (take LEN_PREFIX w) then None
     else Some (segment LEN_PREFIX (LEN_PREFIX + nat_of_be (take LEN_PREFIX w)) w))"
proof -
  note c = chosen_shares [OF assms(2)]
  have kn: "k \<noteq> 0" "\<not> n \<le> k" using assms(1) by (auto simp: fec_new_ok)
  have "card (fst ` set shares) \<le> length shares" by (metis card_image_le card_length finite_set le_trans)
  then have len: "\<not> length shares < k" using assms(2) by simp
  have ok: "\<not> list_ex (\<lambda>(_, b). length b \<noteq> DATA_PER_CHUNK) (chosen_shares shares k)"
    "\<not> list_ex (\<lambda>(idx, _). n \<le> idx) (chosen_shares shares k)"
    using assms(3) by (fastforce simp: list_ex_iff)+
  show ?thesis
    using kn len ok c(4) assms(1,4,5)
    by (simp add: erasure_decode_def Let_def chosen_shares_def [symmetric])
qed

lemma erasure_recovers:
  assumes "erasure_encode p r = Inr (blocks, k, n)"
    and "set shares \<subseteq> set (zip [0..<n] blocks)" "k \<le> card (fst ` set shares)"
  shows "erasure_decode shares k n = Some p"
proof -
  obtain f where f: "fec_new k n = Inr f" and k: "0 < k" and small: "length p < 2 ^ 32"
    and fits: "length p + LEN_PREFIX \<le> k * DATA_PER_CHUNK"
    and size: "csize f (wrapped_plaintext k p) = DATA_PER_CHUNK"
    and blocks: "blocks = map (share_data f (wrapped_plaintext k p)) [0..<n]"
    using erasure_encode_ok [OF assms(1)] .
  let ?w = "wrapped_plaintext k p" and ?c = "chosen_shares shares k"
  let ?ch = "map (\<lambda>(idx, b). \<lparr> chunk_data = b, chunk_index = idx \<rparr>) ?c"
  note wf = fec_new_wf [OF f] and fp = fec_new_params [OF f] and c = chosen_shares [OF assms(3)]
  have mem: "i < n \<and> b = share_data f ?w i" if "(i, b) \<in> set ?c" for i b
    using that c(2) assms(2) blocks by (fastforce simp: in_set_zip)
  then have sh: "shares_of f ?w ?ch"
    using fp by (auto simp: shares_of_def share_def)
  have "chunk_index ` set ?ch = fst ` set ?c" by (force simp: image_iff)
  then have enough: "fec_k f \<le> card (chunk_index ` set ?ch)" using c(3) fp by simp
  note w = unwrap_plaintext [OF small fits]
  have "length ?w \<noteq> 0" using w(1) k by (simp add: DATA_PER_CHUNK_def)
  then have ne: "?w \<noteq> []" by (rule contrapos_nn) simp
  have "fec_k f * csize f ?w - length ?w = 0" using size w(1) fp by simp
  then have dec: "fec_decode f ?ch 0 = Inr ?w"
    using decode_shares [OF wf sh ne enough] by simp
  have good: "\<forall>(i, b) \<in> set ?c. i < n \<and> length b = DATA_PER_CHUNK"
  proof clarify
    fix i b
    assume "(i, b) \<in> set ?c"
    then have i: "i < n" "b = share_data f ?w i" using mem by auto
    then show "i < n \<and> length b = DATA_PER_CHUNK"
      using share_linear(1) [OF wf] size fp by simp
  qed
  have "LEN_PREFIX \<le> length ?w" using w(1) fits by simp
  from erasure_decode_alt [OF f assms(3) good dec this] show ?thesis
    using w fits by simp
qed

section \<open>The default redundancy\<close>

lemma div_ceil_alt: "0 < b \<Longrightarrow> div_ceil a b = (a + b - 1) div b"
proof -
  assume b: "0 < b"
  define q r where "q = a div b" and "r = a mod b"
  have a: "a = b * q + r" and r: "r < b" using b by (simp_all add: q_def r_def)
  have "(b * q + r + b - 1) div b = q + (if r = 0 then 0 else 1)"
  proof (rule div_nat_eqI)
    show "b * (q + (if r = 0 then 0 else 1)) \<le> b * q + r + b - 1" using b by auto
    show "b * q + r + b - 1 < b * Suc (q + (if r = 0 then 0 else 1))" using b r by auto
  qed
  moreover have "div_ceil a b = q + (if r = 0 then 0 else 1)"
    using b by (simp add: div_ceil_def q_def r_def)
  ultimately show ?thesis using a by simp
qed

text \<open>The number of data blocks for a plaintext of \<open>sz\<close> bytes, and 30 percent of it rounded up.\<close>

definition data_blocks :: "nat \<Rightarrow> nat" where
  "data_blocks sz = (sz + 131) div 128"

definition default_n :: "nat \<Rightarrow> nat" where
  "default_n k = k + (3 * k + 9) div 10"

lemma choose_kn_default:
  assumes "sz < 2 ^ 32"
  shows "choose_kn sz DEFAULT_REDUNDANCY = Inr (data_blocks sz, default_n (data_blocks sz))"
proof -
  have dc: "div_ceil (min usize_max (sz + LEN_PREFIX)) DATA_PER_CHUNK = data_blocks sz"
  proof -
    have "min usize_max (sz + 4) = sz + 4" using assms by (simp add: usize_max_def)
    then show ?thesis using div_ceil_alt [of 128 "sz + 4"] by (simp add: const_defs data_blocks_def)
  qed
  obtain k where kd: "k = data_blocks sz" by simp
  have "data_blocks sz \<le> (2 ^ 32 + 131) div 128"
    using assms unfolding data_blocks_def by (intro div_le_mono) simp
  then have k: "0 < k" "k \<le> 2 ^ 40" by (simp_all add: kd data_blocks_def)
  have par: "f64_as_usize (f64_ceil (f64_mul (f64_of_usize k) f64_0_3)) = (3 * k + 9) div 10"
    by (rule ceil_0_3 [OF k])
  have "1 \<le> (3 * k + 9) div 10" using k(1) by presburger
  then have m: "max ((3 * k + 9) div 10) 1 = (3 * k + 9) div 10" by simp
  have "(3 * k + 9) div 10 \<le> 3 * k + 9" by simp
  then have "default_n k < 2 ^ 64" using k(2) by (simp add: default_n_def)
  then have md: "(k + (3 * k + 9) div 10) mod 2 ^ 64 = default_n k" by (simp add: default_n_def)
  have fin: "f64_is_finite f64_0_3" "\<not> f64_less_0 f64_0_3" by (simp_all add: f64_0_3_def)
  have mk: "max k 1 = k" using k(1) by simp
  show ?thesis
    unfolding choose_kn_def Let_def dc DEFAULT_REDUNDANCY_def kd [symmetric] mk par m md
    using fin by simp
qed

lemma default_n_le: "default_n k \<le> 256 \<longleftrightarrow> k \<le> 196"
proof (cases "k \<le> 196")
  case True
  then have "(3 * k + 9) div 10 \<le> (3 * 196 + 9) div 10" by (intro div_le_mono) simp
  with True show ?thesis by (simp add: default_n_def)
next
  case False
  then have "(3 * 197 + 9) div 10 \<le> (3 * k + 9) div 10" by (intro div_le_mono) simp
  with False show ?thesis by (simp add: default_n_def)
qed

lemma default_n_gr: "0 < k \<Longrightarrow> k < default_n k"
  by (simp add: default_n_def)

lemma default_limit: "sz \<le> 25084 \<longleftrightarrow> data_blocks sz \<le> 196"
  using div_le_mono [of "25085 + 131" "sz + 131" 128] div_le_mono [of "sz + 131" "25084 + 131" 128]
  by (auto simp: data_blocks_def not_le)

lemma encode_default:
  assumes "length p \<le> 25084"
  shows "\<exists>blocks. erasure_encode p DEFAULT_REDUNDANCY =
      Inr (blocks, data_blocks (length p), default_n (data_blocks (length p))) \<and>
    length blocks = default_n (data_blocks (length p)) \<and> (\<forall>b \<in> set blocks. length b = DATA_PER_CHUNK)"
proof -
  let ?k = "data_blocks (length p)" and ?n = "default_n (data_blocks (length p))"
  have k0: "0 < ?k" by (simp add: data_blocks_def)
  have "?n \<le> 256" using assms by (simp add: default_n_le default_limit)
  then obtain f where f: "fec_new ?k ?n = Inr f"
    using k0 default_n_gr [OF k0] by (simp add: fec_new_ok)
  note wf = fec_new_wf [OF f] and fp = fec_new_params [OF f]
  have size: "csize f (wrapped_plaintext ?k p) = DATA_PER_CHUNK"
    using k0 fp by (simp add: chunk_size_exact DATA_PER_CHUNK_def)
  have len: "length (share_data f (wrapped_plaintext ?k p) i) = DATA_PER_CHUNK" if "i < ?n" for i
    using share_linear(1) [OF wf] that size fp by simp
  have "erasure_encode p DEFAULT_REDUNDANCY =
      Inr (map (\<lambda>i. take DATA_PER_CHUNK (share_data f (wrapped_plaintext ?k p) i)) [0..<?n], ?k, ?n)"
    using assms choose_kn_default [of "length p"] f fp
    by (simp add: erasure_encode_def Let_def encode_eq [OF wf] comp_def)
  then show ?thesis using len by auto
qed

lemma share_in_zip: "length blocks = n \<Longrightarrow> i < n \<Longrightarrow> (i, blocks ! i) \<in> set (zip [0..<n] blocks)"
  by (auto simp: in_set_zip intro!: exI [of _ i])

text \<open>A concrete encoding, for the witnesses.\<close>

lemma small_encoding:
  "\<exists>blocks. erasure_encode [1, 2, 3] DEFAULT_REDUNDANCY = Inr (blocks, 1, 2) \<and>
     set [(1, blocks ! 1)] \<subseteq> set (zip [0..<2] blocks)"
proof -
  obtain blocks where b: "erasure_encode [1, 2, 3] DEFAULT_REDUNDANCY = Inr (blocks, 1, 2)" "length blocks = 2"
    using encode_default [of "[1, 2, 3]"] by (auto simp: data_blocks_def default_n_def numeral_2_eq_2)
  then have "(1, blocks ! 1) \<in> set (zip [0..<2] blocks)" by (intro share_in_zip) auto
  with b show ?thesis by auto
qed

text \<open>C29: The default redundancy of 0.3 carries exactly the plaintexts of up to 25084 bytes. For
  those \<open>encode\<close> returns k = ceil((len + 4) / 128) and n = k + ceil(3 k / 10), the 64-bit
  floating-point product included, and n blocks of 128 bytes each. Above that and up to
  \<open>u32::MAX\<close> bytes \<open>choose_kn\<close> picks an n above 256, which zfec rejects, so \<open>encode\<close> fails with
  \<open>EncoderInit\<close>; above \<open>u32::MAX\<close> it fails with \<open>PlaintextTooLarge\<close>.\<close>

theorem erasure_default_capacity:
  "(length p \<le> 25084 \<longrightarrow> (\<exists>blocks. erasure_encode p DEFAULT_REDUNDANCY =
       Inr (blocks, (length p + 131) div 128, (length p + 131) div 128 + (3 * ((length p + 131) div 128) + 9) div 10) \<and>
       length blocks = (length p + 131) div 128 + (3 * ((length p + 131) div 128) + 9) div 10 \<and>
       (\<forall>b \<in> set blocks. length b = DATA_PER_CHUNK))) \<and>
   (25084 < length p \<and> length p < 2 ^ 32 \<longrightarrow>
     erasure_encode p DEFAULT_REDUNDANCY = Inl (EncoderInit ((length p + 131) div 128)
       ((length p + 131) div 128 + (3 * ((length p + 131) div 128) + 9) div 10) BigM)) \<and>
   (2 ^ 32 \<le> length p \<longrightarrow> erasure_encode p DEFAULT_REDUNDANCY = Inl PlaintextTooLarge)"
proof -
  let ?k = "data_blocks (length p)" and ?n = "default_n (data_blocks (length p))"
  have k0: "0 < ?k" by (simp add: data_blocks_def)
  note lim = default_limit [of "length p"]
  note encode_default [of p]
  moreover have "erasure_encode p DEFAULT_REDUNDANCY = Inl (EncoderInit ?k ?n BigM)"
    if "25084 < length p" "length p < 2 ^ 32"
  proof -
    have "\<not> ?n \<le> 256" using that(1) by (simp add: default_n_le lim [symmetric])
    then have "fec_new ?k ?n = Inl BigM" using k0 by (simp add: fec_new_def)
    then show ?thesis
      using that choose_kn_default [of "length p"] by (simp add: erasure_encode_def)
  qed
  moreover have "erasure_encode p DEFAULT_REDUNDANCY = Inl PlaintextTooLarge" if "2 ^ 32 \<le> length p"
    using that by (simp add: erasure_encode_def)
  ultimately show ?thesis by (simp add: data_blocks_def default_n_def)
qed

theorem erasure_default_capacity_witness:
  "(\<exists>blocks. erasure_encode [1, 2, 3] DEFAULT_REDUNDANCY = Inr (blocks, 1, 2) \<and> length blocks = 2 \<and>
      (\<forall>b \<in> set blocks. length b = 128)) \<and>
   erasure_encode (replicate 25085 7) DEFAULT_REDUNDANCY = Inl (EncoderInit 197 257 BigM)"
  using erasure_default_capacity [of "[1, 2, 3]"] erasure_default_capacity [of "replicate 25085 7"]
  by (simp add: DATA_PER_CHUNK_def numeral_2_eq_2 [symmetric])

text \<open>A message survives the loss of any n - k blocks. If \<open>encode\<close> of a plaintext succeeds
  with \<open>(blocks, k, n)\<close>, then \<open>decode\<close> of any list of \<open>(share_id, block)\<close> pairs taken from these
  blocks, in any order and with duplicates, that contains at least k distinct share ids
  returns exactly the plaintext.\<close>

theorem erasure_roundtrip:
  assumes "erasure_encode p r = Inr (blocks, k, n)"
    and "set shares \<subseteq> set (zip [0..<n] blocks)" "k \<le> card (fst ` set shares)"
  shows "erasure_decode shares k n = Some p"
  using assms by (rule erasure_recovers)

theorem erasure_roundtrip_witness:
  "\<exists>blocks. erasure_encode [1, 2, 3] DEFAULT_REDUNDANCY = Inr (blocks, 1, 2) \<and>
     erasure_decode [(1, blocks ! 1)] 1 2 = Some [1, 2, 3]"
proof -
  obtain blocks where b: "erasure_encode [1, 2, 3] DEFAULT_REDUNDANCY = Inr (blocks, 1, 2)"
    "set [(1, blocks ! 1)] \<subseteq> set (zip [0..<2] blocks)" using small_encoding by blast
  then show ?thesis using erasure_roundtrip [OF b] by simp
qed

section \<open>Decoding hostile shares\<close>

lemma erasure_decode_SomeD:
  assumes "erasure_decode shares k n = Some p"
  defines "c \<equiv> chosen_shares shares k"
  defines "chunks \<equiv> map (\<lambda>(idx, b). \<lparr> chunk_data = b, chunk_index = idx \<rparr>) c"
  shows "0 < k" "k < n" "k \<le> length (dedup_by_key fst (sort_key fst shares))"
    "\<forall>(i, b) \<in> set c. i < n \<and> length b = DATA_PER_CHUNK"
    "\<exists>f w. fec_new k n = Inr f \<and> fec_decode f chunks 0 = Inr w \<and> LEN_PREFIX \<le> length w \<and>
       nat_of_be (take LEN_PREFIX w) \<le> length w - LEN_PREFIX \<and>
       p = segment LEN_PREFIX (LEN_PREFIX + nat_of_be (take LEN_PREFIX w)) w"
proof -
  note d = assms(1) [unfolded erasure_decode_def Let_def, folded chosen_shares_def, folded c_def, folded chunks_def,
      simplified, folded chosen_shares_def, folded c_def, folded chunks_def]
  show "0 < k" "k < n" "k \<le> length (dedup_by_key fst (sort_key fst shares))"
    using d by simp_all
  show "\<forall>(i, b) \<in> set c. i < n \<and> length b = DATA_PER_CHUNK"
    using d by (fastforce simp: list_ex_iff)
  show "\<exists>f w. fec_new k n = Inr f \<and> fec_decode f chunks 0 = Inr w \<and> LEN_PREFIX \<le> length w \<and>
       nat_of_be (take LEN_PREFIX w) \<le> length w - LEN_PREFIX \<and>
       p = segment LEN_PREFIX (LEN_PREFIX + nat_of_be (take LEN_PREFIX w)) w"
    using d by (auto simp: not_less)
qed

text \<open>\<open>decode\<close> never returns more than the blocks can hold, and never anything from fewer
  than k distinct share ids. For arbitrary shares and parameters, a result means that
  0 < k < n <= 256, that at least k distinct share ids were supplied, and that the plaintext
  with its 4-byte prefix fits in k blocks of 128 bytes.\<close>

theorem erasure_decode_bounds:
  assumes "erasure_decode shares k n = Some p"
  shows "0 < k \<and> k < n \<and> n \<le> 256 \<and> k \<le> card (fst ` set shares) \<and> length p + 4 \<le> k * 128"
proof -
  let ?s = "dedup_by_key fst (sort_key fst shares)" and ?c = "chosen_shares shares k"
  let ?ch = "map (\<lambda>(idx, b). \<lparr> chunk_data = b, chunk_index = idx \<rparr>) ?c"
  note d = erasure_decode_SomeD [OF assms]
  obtain f w where f: "fec_new k n = Inr f" and w: "fec_decode f ?ch 0 = Inr w"
    and fits: "LEN_PREFIX \<le> length w" "nat_of_be (take LEN_PREFIX w) \<le> length w - LEN_PREFIX"
    and p: "p = segment LEN_PREFIX (LEN_PREFIX + nat_of_be (take LEN_PREFIX w)) w"
    using d(5) by blast
  note wf = fec_new_wf [OF f] and fp = fec_new_params [OF f]
  have "distinct (map fst ?s)" by (intro dedup_sorted) simp
  from distinct_card [OF this] have "length ?s = card (fst ` set shares)" by (simp add: dedup_image)
  with d(3) have card: "k \<le> card (fst ` set shares)" by simp
  note c = chosen_shares [OF card]
  have "chunk_index ` set ?ch = fst ` set ?c" by (force simp: image_iff)
  then have enough: "fec_k f \<le> card (chunk_index ` set ?ch)" using c(3) fp by simp
  have "\<forall>c \<in> set ?ch. chunk_index c < fec_m f \<and> length (chunk_data c) = DATA_PER_CHUNK"
    using d(4) fp by auto
  from decode_total [OF wf _ this enough, of 0] have "length w = k * 128"
    using w fp by (simp add: DATA_PER_CHUNK_def)
  then show ?thesis
    using d(1,2) card f fits p by (auto simp: fec_new_ok LEN_PREFIX_def)
qed

theorem erasure_decode_bounds_witness:
  "\<exists>blocks p. erasure_encode [1, 2, 3] DEFAULT_REDUNDANCY = Inr (blocks, 1, 2) \<and>
     erasure_decode [(1, blocks ! 1)] 1 2 = Some p \<and> length p + 4 \<le> 128"
proof -
  obtain blocks where b: "erasure_encode [1, 2, 3] DEFAULT_REDUNDANCY = Inr (blocks, 1, 2)"
    "set [(1, blocks ! 1)] \<subseteq> set (zip [0..<2] blocks)" using small_encoding by blast
  then have "erasure_decode [(1, blocks ! 1)] 1 2 = Some [1, 2, 3]"
    by (rule erasure_recovers) simp
  then show ?thesis using erasure_decode_bounds [of "[(1, blocks ! 1)]" 1 2 "[1, 2, 3]"] b by auto
qed

end
