(* ===== verification/Chunking.thy ===== *)
theory Chunking
  imports Erasure
begin

text \<open>
  Per-chunk error correction, \<open>chunking.rs\<close>. The SHA-256 digest and the Reed-Solomon
  encoder and corrector are crates: they are the parameters \<open>sha256\<close>, \<open>rs_encode\<close> and
  \<open>rs_correct\<close> (number of parity bytes, then the bytes; the corrector returns the repaired
  data or an error). \<open>rs_code\<close> states what the reed-solomon crate documents: the
  code word is the data and the parity bytes, and half as many byte errors as parity bytes
  are repaired. The hypothesis is shown to be satisfiable by the verified erasure code.
\<close>

section \<open>The code\<close>

definition RS_SYMBOLS :: nat where
  "RS_SYMBOLS = 32"

definition CHECKSUM_LEN :: nat where
  "CHECKSUM_LEN = 8"

definition WRAPPED_LEN :: nat where
  "WRAPPED_LEN = CHECKSUM_LEN + DATA_PER_CHUNK + RS_SYMBOLS"

datatype chunking_error = InvalidBlockLength nat nat

record message_chunker =
  enable_error_correction :: bool

definition sha256_prefix :: "(bytes \<Rightarrow> bytes) \<Rightarrow> bytes \<Rightarrow> bytes" where
  "sha256_prefix sha256 data = take CHECKSUM_LEN (sha256 data)"

definition wrap_block :: "(bytes \<Rightarrow> bytes) \<Rightarrow> (nat \<Rightarrow> bytes \<Rightarrow> bytes) \<Rightarrow> message_chunker \<Rightarrow> bytes \<Rightarrow>
    chunking_error + bytes" where
  "wrap_block sha256 rs_encode self block =
     (if length block \<noteq> DATA_PER_CHUNK then Inl (InvalidBlockLength DATA_PER_CHUNK (length block))
      else let out = sha256_prefix sha256 block in
        Inr (out @ (if enable_error_correction self then rs_encode RS_SYMBOLS block else block)))"

definition unwrap_block :: "(bytes \<Rightarrow> bytes) \<Rightarrow> (nat \<Rightarrow> bytes \<Rightarrow> bytes option) \<Rightarrow> message_chunker \<Rightarrow> bytes \<Rightarrow>
    bytes option" where
  "unwrap_block sha256 rs_correct self wire =
     (if length wire \<le> CHECKSUM_LEN then None
      else
        let checksum = take CHECKSUM_LEN wire; encoded = drop CHECKSUM_LEN wire in
        (case (if enable_error_correction self then rs_correct RS_SYMBOLS encoded else Some encoded) of
           None \<Rightarrow> None
         | Some block \<Rightarrow> if sha256_prefix sha256 block \<noteq> checksum then None else Some block))"

lemmas [const_defs] = RS_SYMBOLS_def CHECKSUM_LEN_def WRAPPED_LEN_def

section \<open>What the crates promise\<close>

definition byte_errors :: "bytes \<Rightarrow> bytes \<Rightarrow> nat" where
  "byte_errors x y = length (filter (\<lambda>i. x ! i \<noteq> y ! i) [0..<length x])"

definition rs_code :: "(nat \<Rightarrow> bytes \<Rightarrow> bytes) \<Rightarrow> (nat \<Rightarrow> bytes \<Rightarrow> bytes option) \<Rightarrow> bool" where
  "rs_code rs_encode rs_correct \<longleftrightarrow>
     (\<forall>b. length b = DATA_PER_CHUNK \<longrightarrow> length (rs_encode RS_SYMBOLS b) = DATA_PER_CHUNK + RS_SYMBOLS \<and>
        (\<forall>w. length w = DATA_PER_CHUNK + RS_SYMBOLS \<and> byte_errors w (rs_encode RS_SYMBOLS b) \<le> RS_SYMBOLS div 2 \<longrightarrow>
           rs_correct RS_SYMBOLS w = Some b))"

definition sha256_digest :: "(bytes \<Rightarrow> bytes) \<Rightarrow> bool" where
  "sha256_digest sha256 \<longleftrightarrow> (\<forall>d. length (sha256 d) = 32)"

lemma length_sha256_prefix: "sha256_digest sha256 \<Longrightarrow> length (sha256_prefix sha256 d) = CHECKSUM_LEN"
  by (simp add: sha256_digest_def sha256_prefix_def CHECKSUM_LEN_def)

section \<open>The verified erasure code as a reference for the crate\<close>

definition ref_fec :: fec where
  "ref_fec = projr (fec_new 128 160)"

definition ref_encode :: "nat \<Rightarrow> bytes \<Rightarrow> bytes" where
  "ref_encode n b = map (\<lambda>c. chunk_data c ! 0) (fst (projr (fec_encode ref_fec b)))"

definition ref_correct :: "nat \<Rightarrow> bytes \<Rightarrow> bytes option" where
  "ref_correct n w = find (\<lambda>b. byte_errors w (ref_encode n b) \<le> n div 2)
     (List.n_lists 128 (map of_nat [0..<256]))"

lemma ref_fec: "fec_new 128 160 = Inr ref_fec"
proof -
  have "\<exists>f. fec_new 128 160 = Inr f" by (simp add: fec_new_ok)
  then show ?thesis by (auto simp: ref_fec_def)
qed

lemma ref_encode:
  assumes "length b = 128"
  shows "ref_encode n b = map (\<lambda>i. share_data ref_fec b i ! 0) [0..<160]"
    and "i < 160 \<Longrightarrow> share_data ref_fec b i = [ref_encode n b ! i]"
proof -
  note wf = fec_new_wf [OF ref_fec] and fp = fec_new_params [OF ref_fec]
  have size: "csize ref_fec b = 1" using assms fp by (simp add: chunk_size_for_def)
  show e: "ref_encode n b = map (\<lambda>i. share_data ref_fec b i ! 0) [0..<160]"
    using fp by (simp add: ref_encode_def encode_eq [OF wf] comp_def)
  assume "i < 160"
  then have "length (share_data ref_fec b i) = 1" using share_linear(1) [OF wf] fp size by simp
  then show "share_data ref_fec b i = [ref_encode n b ! i]"
    using \<open>i < 160\<close> by (cases "share_data ref_fec b i") (simp_all add: e)
qed

text \<open>Two blocks whose code words agree in 128 places are equal: the minimum distance is 33.\<close>

lemma ref_distance:
  assumes b: "length b = 128" "length b' = 128"
    and agree: "128 \<le> card {i. i < 160 \<and> ref_encode n b ! i = ref_encode n b' ! i}"
  shows "b = b'"
proof -
  note wf = fec_new_wf [OF ref_fec] and fp = fec_new_params [OF ref_fec]
  let ?A = "{i. i < 160 \<and> ref_encode n b ! i = ref_encode n b' ! i}"
  let ?s = "map (share ref_fec b) (sorted_list_of_set ?A)"
  have A: "set (sorted_list_of_set ?A) = ?A" by simp
  have same: "share ref_fec b i = share ref_fec b' i" if "i \<in> ?A" for i
    using that ref_encode(2) [OF b(1), of i n] ref_encode(2) [OF b(2), of i n] by (simp add: share_def)
  have sh: "shares_of ref_fec b ?s" "shares_of ref_fec b' ?s"
    using same fp A by (auto simp: shares_of_def)
  have "chunk_index ` set ?s = ?A" using A by force
  then have enough: "fec_k ref_fec \<le> card (chunk_index ` set ?s)" using agree fp by simp
  have ne: "b \<noteq> []" "b' \<noteq> []" using b by auto
  have "Inr b = (Inr b' :: fec_error + bytes)"
    using decode_shares [OF wf sh(1) ne(1) enough] decode_shares [OF wf sh(2) ne(2) enough] b by simp
  then show ?thesis by simp
qed

lemma ref_code: "rs_code ref_encode ref_correct"
  unfolding rs_code_def
proof (intro allI impI conjI)
  fix b w :: bytes
  assume "length b = DATA_PER_CHUNK"
  then have b: "length b = 128" by (simp add: const_defs)
  show "length (ref_encode RS_SYMBOLS b) = DATA_PER_CHUNK + RS_SYMBOLS"
    by (simp add: ref_encode(1) [OF b] const_defs)
  let ?err = "\<lambda>c. byte_errors w (ref_encode 32 c)"
  assume "length w = DATA_PER_CHUNK + RS_SYMBOLS \<and> byte_errors w (ref_encode RS_SYMBOLS b) \<le> RS_SYMBOLS div 2"
  then have w: "length w = 160" "?err b \<le> 16" by (simp_all add: const_defs)
  have bytes: "set (map of_nat [0..<256] :: byte list) = UNIV"
  proof -
    have "(x :: byte) \<in> of_nat ` {0..<256}" for x
      by (rule image_eqI [of _ _ "unat x"]) simp_all
    then show ?thesis by auto
  qed
  have "b \<in> set (List.n_lists 128 (map of_nat [0..<256]))"
    unfolding set_n_lists bytes using b by simp
  then obtain c where c: "ref_correct 32 w = Some c"
    using w unfolding ref_correct_def by (cases "find (\<lambda>b. ?err b \<le> 32 div 2) (List.n_lists 128 (map of_nat [0..<256]))")
      (auto simp: find_None_iff)
  then have "?err c \<le> 16" "c \<in> set (List.n_lists 128 (map of_nat [0..<256]))"
    by (auto simp: ref_correct_def dest!: find_SomeD)
  then have cl: "length c = 128" and ce: "?err c \<le> 16" by (auto simp: set_n_lists)
  have err: "?err x = card {i. i < 160 \<and> w ! i \<noteq> ref_encode 32 x ! i}" for x
    using w by (auto simp: byte_errors_def length_filter_conv_card intro!: arg_cong [of _ _ card])
  let ?D = "{i. i < 160 \<and> ref_encode 32 b ! i \<noteq> ref_encode 32 c ! i}"
  let ?A = "{i. i < 160 \<and> ref_encode 32 b ! i = ref_encode 32 c ! i}"
  have "?D \<subseteq> {i. i < 160 \<and> w ! i \<noteq> ref_encode 32 b ! i} \<union> {i. i < 160 \<and> w ! i \<noteq> ref_encode 32 c ! i}"
    by auto
  then have "card ?D \<le> card ({i. i < 160 \<and> w ! i \<noteq> ref_encode 32 b ! i} \<union> {i. i < 160 \<and> w ! i \<noteq> ref_encode 32 c ! i})"
    by (intro card_mono) auto
  also have "\<dots> \<le> ?err b + ?err c" unfolding err by (rule card_Un_le)
  finally have "card ?D \<le> 32" using w ce by simp
  moreover have "card ?A + card ?D = card (?A \<union> ?D)" by (intro card_Un_disjoint [symmetric]) auto
  moreover have "?A \<union> ?D = {..<160}" by auto
  ultimately have "128 \<le> card ?A" by simp
  then have "b = c" by (rule ref_distance [OF b cl])
  with c show "ref_correct RS_SYMBOLS w = Some b" by (simp add: const_defs)
qed

section \<open>Properties\<close>

lemma wrap_block_ok:
  "wrap_block sha256 rs_encode self block = Inr wire \<longleftrightarrow> length block = DATA_PER_CHUNK \<and>
     wire = sha256_prefix sha256 block @ (if enable_error_correction self then rs_encode RS_SYMBOLS block else block)"
  by (auto simp: wrap_block_def Let_def)

lemma unwrap_damaged:
  assumes sha: "sha256_digest sha256" and rs: "rs_code rs_encode rs_correct"
    and wrap: "wrap_block sha256 rs_encode \<lparr> enable_error_correction = True \<rparr> block = Inr wire"
    and len: "length payload = length wire - CHECKSUM_LEN"
    and err: "byte_errors payload (drop CHECKSUM_LEN wire) \<le> 16"
  shows "unwrap_block sha256 rs_correct \<lparr> enable_error_correction = True \<rparr>
    (take CHECKSUM_LEN wire @ payload) = Some block"
proof -
  have b: "length block = DATA_PER_CHUNK"
    and w: "wire = sha256_prefix sha256 block @ rs_encode RS_SYMBOLS block"
    using wrap by (simp_all add: wrap_block_ok)
  note pre = length_sha256_prefix [OF sha, of block]
  have l: "length (rs_encode RS_SYMBOLS block) = DATA_PER_CHUNK + RS_SYMBOLS"
    using rs b by (simp add: rs_code_def)
  have pl: "length payload = DATA_PER_CHUNK + RS_SYMBOLS" using len l by (simp add: w pre)
  have "byte_errors payload (rs_encode RS_SYMBOLS block) \<le> RS_SYMBOLS div 2"
    using err by (simp add: w pre RS_SYMBOLS_def)
  then have cor: "rs_correct RS_SYMBOLS payload = Some block"
    using rs b pl by (simp add: rs_code_def)
  have pos: "0 < length payload" using pl by (simp add: const_defs)
  show ?thesis
    using pos by (simp add: unwrap_block_def Let_def w pre cor)
qed

text \<open>A wrapped chunk survives up to 16 damaged bytes. For every block that \<open>wrap_block\<close>
  accepts with error correction on, the wire form has WRAPPED_LEN = 168 bytes, and
  \<open>unwrap_block\<close> returns exactly the block from any wire form whose checksum is intact and
  whose payload differs from the sent one in at most 16 bytes, because decoding runs
  before the checksum is compared.\<close>

theorem chunk_repairs_errors:
  assumes "sha256_digest sha256" "rs_code rs_encode rs_correct"
    and "wrap_block sha256 rs_encode \<lparr> enable_error_correction = True \<rparr> block = Inr wire"
    and "length payload = length wire - CHECKSUM_LEN"
    and "byte_errors payload (drop CHECKSUM_LEN wire) \<le> 16"
  shows "length wire = WRAPPED_LEN \<and> WRAPPED_LEN = 168 \<and>
    unwrap_block sha256 rs_correct \<lparr> enable_error_correction = True \<rparr>
      (take CHECKSUM_LEN wire @ payload) = Some block"
  using unwrap_damaged [OF assms] assms(1-3) length_sha256_prefix [OF assms(1), of block]
  by (simp add: wrap_block_ok rs_code_def const_defs)

text \<open>A digest of the right length, for the witnesses.\<close>

definition toy_digest :: "bytes \<Rightarrow> bytes" where
  "toy_digest d = replicate 31 0 @ [of_nat (length d)]"

lemma toy_digest: "sha256_digest toy_digest"
  by (simp add: sha256_digest_def toy_digest_def)

theorem chunk_repairs_errors_witness:
  "\<exists>wire. wrap_block toy_digest ref_encode \<lparr> enable_error_correction = True \<rparr> (replicate 128 9) = Inr wire \<and>
     unwrap_block toy_digest ref_correct \<lparr> enable_error_correction = True \<rparr>
       (take 8 wire @ (drop 8 wire)[5 := 77]) = Some (replicate 128 9)"
proof -
  let ?e = "ref_encode 32 (replicate 128 9)"
  have w: "wrap_block toy_digest ref_encode \<lparr> enable_error_correction = True \<rparr> (replicate 128 9) =
      Inr (replicate 8 0 @ ?e)"
    by (simp add: wrap_block_ok const_defs sha256_prefix_def toy_digest_def)
  have l: "length ?e = 160" by (simp add: ref_encode(1))
  have "byte_errors (?e[5 := 77]) ?e \<le> card {5 :: nat}"
    using l unfolding byte_errors_def length_filter_conv_card by (intro card_mono) (auto simp: nth_list_update)
  then have "byte_errors (?e[5 := 77]) ?e \<le> 16" by simp
  then show ?thesis
    using chunk_repairs_errors [OF toy_digest ref_code w, of "?e[5 := 77]"] w
    by (simp add: CHECKSUM_LEN_def)
qed

text \<open>Without error correction a wire form is accepted exactly when it is the wrapped form of
  the block returned: for blocks of 128 bytes, \<open>unwrap_block\<close> returns the block if and only if
  \<open>wrap_block\<close> of it is this wire form, so every change to a payload that changes the checksum prefix
  is rejected, and the two operations are inverse.\<close>

theorem chunk_plain_exact:
  assumes "sha256_digest sha256" "length block = 128"
  shows "unwrap_block sha256 rs_correct \<lparr> enable_error_correction = False \<rparr> wire = Some block \<longleftrightarrow>
    wrap_block sha256 rs_encode \<lparr> enable_error_correction = False \<rparr> block = Inr wire"
proof -
  note pre = length_sha256_prefix [OF assms(1), of block]
  have "sha256_prefix sha256 block = take CHECKSUM_LEN wire \<and> block = drop CHECKSUM_LEN wire \<and> CHECKSUM_LEN < length wire \<longleftrightarrow>
      wire = sha256_prefix sha256 block @ block"
  proof
    assume "sha256_prefix sha256 block = take CHECKSUM_LEN wire \<and> block = drop CHECKSUM_LEN wire \<and> CHECKSUM_LEN < length wire"
    then show "wire = sha256_prefix sha256 block @ block" by (metis append_take_drop_id)
  next
    assume "wire = sha256_prefix sha256 block @ block"
    then have w: "wire = sha256_prefix sha256 block @ block" .
    show "sha256_prefix sha256 block = take CHECKSUM_LEN wire \<and> block = drop CHECKSUM_LEN wire \<and> CHECKSUM_LEN < length wire"
      unfolding w using pre assms(2) by simp
  qed
  then show ?thesis
    using assms(2) by (auto simp: unwrap_block_def Let_def wrap_block_ok DATA_PER_CHUNK_def)
qed

theorem chunk_plain_exact_witness:
  "unwrap_block toy_digest ref_correct \<lparr> enable_error_correction = False \<rparr>
     (replicate 8 0 @ replicate 128 3) = Some (replicate 128 3)"
  using chunk_plain_exact [OF toy_digest, of "replicate 128 3" ref_correct "replicate 8 0 @ replicate 128 3" ref_encode]
  by (simp add: wrap_block_ok const_defs sha256_prefix_def toy_digest_def)

section \<open>A message over a lossy and noisy channel\<close>

text \<open>
  The sender's pipeline: erasure blocks, each wrapped. \<open>damaged\<close> relates a sent wire form to
  a received one: the checksum is intact and at most 16 payload bytes differ.
\<close>

definition damaged :: "bytes \<Rightarrow> bytes \<Rightarrow> bool" where
  "damaged sent received \<longleftrightarrow> length received = length sent \<and>
     take CHECKSUM_LEN received = take CHECKSUM_LEN sent \<and>
     byte_errors (drop CHECKSUM_LEN received) (drop CHECKSUM_LEN sent) \<le> 16"

definition receive_shares :: "(bytes \<Rightarrow> bytes) \<Rightarrow> (nat \<Rightarrow> bytes \<Rightarrow> bytes option) \<Rightarrow> (nat \<times> bytes) list \<Rightarrow>
    (nat \<times> bytes) list" where
  "receive_shares sha256 rs_correct received =
     List.map_filter (\<lambda>(i, wire). map_option (Pair i)
       (unwrap_block sha256 rs_correct \<lparr> enable_error_correction = True \<rparr> wire)) received"

text \<open>C2: End to end, a message survives losing any n - k of its chunks and up to 16 byte errors in each of the
  others, as long as the 8 checksum bytes at the front of each arrive as they were sent. Every block of the erasure encoding is wrapped and sent; if every received pair
  carries a damaged form of the block of its index and at least k distinct indices arrive,
  unwrapping all of them and decoding returns exactly the plaintext.\<close>

theorem transport_roundtrip:
  assumes sha: "sha256_digest sha256" and rs: "rs_code rs_encode rs_correct"
    and enc: "erasure_encode p r = Inr (blocks, k, n)"
    and recv: "\<forall>(i, wire) \<in> set received. i < n \<and> (\<exists>sent.
       wrap_block sha256 rs_encode \<lparr> enable_error_correction = True \<rparr> (blocks ! i) = Inr sent \<and> damaged sent wire)"
    and enough: "k \<le> card (fst ` set received)"
  shows "erasure_decode (receive_shares sha256 rs_correct received) k n = Some p"
proof (rule erasure_recovers [OF enc])
  have un: "unwrap_block sha256 rs_correct \<lparr> enable_error_correction = True \<rparr> wire = Some (blocks ! i)"
    and i: "i < n" if "(i, wire) \<in> set received" for i wire
  proof -
    obtain sent where s: "wrap_block sha256 rs_encode \<lparr> enable_error_correction = True \<rparr> (blocks ! i) = Inr sent"
      "damaged sent wire" and i: "i < n" using recv \<open>(i, wire) \<in> set received\<close> by blast
    then show "i < n" by simp
    have "take CHECKSUM_LEN sent @ drop CHECKSUM_LEN wire = wire"
      using s(2) unfolding damaged_def by (metis append_take_drop_id)
    then show "unwrap_block sha256 rs_correct \<lparr> enable_error_correction = True \<rparr> wire = Some (blocks ! i)"
      using unwrap_damaged [OF sha rs s(1), of "drop CHECKSUM_LEN wire"] s(2) by (simp add: damaged_def)
  qed
  have shares: "set (receive_shares sha256 rs_correct received) = (\<lambda>i. (i, blocks ! i)) ` fst ` set received"
    using un by (force simp: receive_shares_def map_filter_def image_iff)
  have "length blocks = n"
    using erasure_encode_ok [OF enc] by (metis length_map length_upt diff_zero)
  then show "set (receive_shares sha256 rs_correct received) \<subseteq> set (zip [0..<n] blocks)"
    using i unfolding shares by (auto intro: share_in_zip)
  show "k \<le> card (fst ` set (receive_shares sha256 rs_correct received))"
    using enough by (simp add: shares image_image)
qed

theorem transport_roundtrip_witness:
  "\<exists>blocks sent. erasure_encode [1, 2, 3] DEFAULT_REDUNDANCY = Inr (blocks, 1, 2) \<and>
     wrap_block toy_digest ref_encode \<lparr> enable_error_correction = True \<rparr> (blocks ! 1) = Inr sent \<and>
     erasure_decode (receive_shares toy_digest ref_correct [(1, sent)]) 1 2 = Some [1, 2, 3]"
proof -
  obtain blocks where b: "erasure_encode [1, 2, 3] DEFAULT_REDUNDANCY = Inr (blocks, 1, 2)"
    "length blocks = 2" "\<forall>b \<in> set blocks. length b = DATA_PER_CHUNK"
    using encode_default [of "[1, 2, 3]"] by (auto simp: data_blocks_def default_n_def numeral_2_eq_2)
  then have "length (blocks ! 1) = DATA_PER_CHUNK" by simp
  then obtain sent where s: "wrap_block toy_digest ref_encode \<lparr> enable_error_correction = True \<rparr> (blocks ! 1) = Inr sent"
    by (simp add: wrap_block_ok)
  have "damaged sent sent" by (simp add: damaged_def byte_errors_def)
  then have "erasure_decode (receive_shares toy_digest ref_correct [(1, sent)]) 1 2 = Some [1, 2, 3]"
    using s by (intro transport_roundtrip [OF toy_digest ref_code b(1)]) auto
  with b(1) s show ?thesis by blast
qed

end
