(* ===== verification/Prekeys.thy ===== *)
theory Prekeys
  imports Manifest
begin

text \<open>
  One-time prekey records, \<open>prekeys.rs\<close>: the wire format, signed by an identity that the
  verifier must supply.
\<close>

section \<open>The code\<close>

definition PREKEY_PREFIX :: rstr where
  "PREKEY_PREFIX = ascii ''v=dmp1;t=prekey;d=''"

definition PREKEY_BODY_LEN :: nat where
  "PREKEY_BODY_LEN = 4 + X25519_KEY_LEN + 8"

definition PREKEY_WIRE_LEN :: nat where
  "PREKEY_WIRE_LEN = PREKEY_BODY_LEN + ED25519_SIG_LEN"

lemmas [const_defs] = PREKEY_BODY_LEN_def PREKEY_WIRE_LEN_def

datatype prekey_error =
    InvalidPublicKeyLength nat nat
  | InvalidBodyLength nat nat

record prekey =
  pk_id :: u32
  pk_public_key :: bytes
  pk_exp :: u64

definition prekey_rrset_name :: "prims \<Rightarrow> rstr \<Rightarrow> rstr \<Rightarrow> rstr" where
  "prekey_rrset_name P username base_domain =
     (let hex_digest = hex_encode P (sha256 P username);
          username_hash = take 12 hex_digest;
          domain = trim_end_matches (ch CHR ''.'') base_domain
      in ascii ''prekeys.id-'' @ username_hash @ ascii ''.'' @ domain)"

definition prekey_to_body :: "prekey \<Rightarrow> prekey_error + bytes" where
  "prekey_to_body self =
     (if length (pk_public_key self) \<noteq> X25519_KEY_LEN
      then Inl (InvalidPublicKeyLength X25519_KEY_LEN (length (pk_public_key self)))
      else Inr (be32 (pk_id self) @ pk_public_key self @ be64 (pk_exp self)))"

definition prekey_from_body :: "bytes \<Rightarrow> prekey_error + prekey" where
  "prekey_from_body body =
     (if length body \<noteq> PREKEY_BODY_LEN then Inl (InvalidBodyLength PREKEY_BODY_LEN (length body))
      else Inr \<lparr> pk_id = read32 (segment 0 4 body),
                 pk_public_key = segment 4 (4 + X25519_KEY_LEN) body,
                 pk_exp = read64 (segment (4 + X25519_KEY_LEN) PREKEY_BODY_LEN body) \<rparr>)"

definition prekey_sign :: "prims \<Rightarrow> prekey \<Rightarrow> dmp_crypto \<Rightarrow> prekey_error + rstr" where
  "prekey_sign P self identity_crypto = andThen (prekey_to_body self) (\<lambda>body.
     Inr (seal P PREKEY_PREFIX (body @ sign_data P identity_crypto body)))"

definition prekey_parse_and_verify :: "prims \<Rightarrow> bytes \<Rightarrow> rstr \<Rightarrow> prekey option" where
  "prekey_parse_and_verify P expected_signer_spk record =
     (case unseal P PREKEY_PREFIX record of
        None \<Rightarrow> None
      | Some wire \<Rightarrow>
          if length wire \<noteq> PREKEY_WIRE_LEN then None
          else
            let body = take PREKEY_BODY_LEN wire; sig = drop PREKEY_BODY_LEN wire in
            (case ok (prekey_from_body body) of
               None \<Rightarrow> None
             | Some prekey \<Rightarrow>
                 if \<not> verify_signature P body sig expected_signer_spk then None else Some prekey))"

definition prekey_is_expired :: "u64 \<Rightarrow> prekey \<Rightarrow> u64 option \<Rightarrow> bool" where
  "prekey_is_expired clock self now \<longleftrightarrow> pk_exp self < unwrap_or now clock"

section \<open>The codec\<close>

definition wf_prekey :: "prekey \<Rightarrow> bool" where
  "wf_prekey k \<longleftrightarrow> length (pk_public_key k) = 32"

lemma prekey_to_body_ok:
  "prekey_to_body k = Inr b \<longleftrightarrow> wf_prekey k \<and> b = be32 (pk_id k) @ pk_public_key k @ be64 (pk_exp k)"
  by (auto simp: prekey_to_body_def wf_prekey_def const_defs)

lemma prekey_from_body_ok:
  "prekey_from_body b = Inr k \<longleftrightarrow> length b = 44 \<and> k = \<lparr> pk_id = read32 (segment 0 4 b),
     pk_public_key = segment 4 36 b, pk_exp = read64 (segment 36 44 b) \<rparr>"
  by (auto simp: prekey_from_body_def const_defs)

interpretation prekey: canonical_record wf_prekey prekey_to_body prekey_from_body
  PREKEY_PREFIX "\<lambda>_. True" "\<lambda>spk _. spk" "\<lambda>_ _. True" prekey_sign prekey_parse_and_verify
proof unfold_locales
  fix b k
  assume f: "prekey_from_body b = Inr k"
  then show "wf_prekey k" by (auto simp: prekey_from_body_ok wf_prekey_def)
  have "b = segment 0 4 b @ segment 4 36 b @ segment 36 44 b"
    using f by (simp add: prekey_from_body_ok segment_join segment_split segment_full)
  with f show "prekey_to_body k = Inr b"
    by (auto simp: prekey_from_body_ok prekey_to_body_ok wf_prekey_def be_read)
next
  fix k b
  assume "wf_prekey k" "prekey_to_body k = Inr b"
  then show "prekey_from_body b = Inr k"
    by (auto simp: prekey_from_body_ok prekey_to_body_ok wf_prekey_def segment_append segment_full)
next
  fix P x me r
  assume "prekey_sign P x me = Inr r"
  then show "\<exists>body. prekey_to_body x = Inr body \<and>
      r = seal P PREKEY_PREFIX (body @ sign_data P me body) \<and> True"
    by (auto simp: prekey_sign_def andThen_Inr)
next
  fix P and spk :: bytes and r x
  assume P: "b64_codec P"
  show "(prekey_parse_and_verify P spk r = Some x) = (True \<and> True \<and> (\<exists>body sig. r = seal P PREKEY_PREFIX (body @ sig) \<and>
      length sig = 64 \<and> prekey_from_body body = Inr x \<and> verify_signature P body sig spk))" (is "?l = ?r")
  proof
    assume ?l
    then obtain wire where "r = seal P PREKEY_PREFIX wire" "length wire = 108"
      "prekey_from_body (take 44 wire) = Inr x" "verify_signature P (take 44 wire) (drop 44 wire) spk"
      by (auto simp: prekey_parse_and_verify_def Let_def unseal_Some [OF P] const_defs)
    then show ?r
      by (intro conjI TrueI exI [of _ "take 44 wire"] exI [of _ "drop 44 wire"]) simp_all
  next
    assume ?r
    then obtain body sig where b: "r = seal P PREKEY_PREFIX (body @ sig)" "length sig = 64"
      "prekey_from_body body = Inr x" "verify_signature P body sig spk" by blast
    then have "length body = 44" by (simp add: prekey_from_body_ok)
    moreover have "unseal P PREKEY_PREFIX r = Some (body @ sig)" using b(1) by (simp add: unseal_Some [OF P])
    ultimately show ?l
      using b by (simp add: prekey_parse_and_verify_def const_defs)
  qed
qed

section \<open>Properties\<close>

text \<open>A prekey record is bound to the identity that signed it. \<open>parse_and_verify\<close> with a signer key
  returns a prekey if and only if the record is the prefix and the base64 of the prekey's 44-byte body and
  of a 64-byte signature of that body under that key; so a record signed by one identity is accepted
  for it, and every accepted record was signed over exactly this id, key and expiry.\<close>

theorem prekey_authentic:
  assumes "b64_codec P"
  shows "(prekey_parse_and_verify P spk r = Some k \<longleftrightarrow>
      (\<exists>body sig. wf_prekey k \<and> prekey_to_body k = Inr body \<and> length body = 44 \<and> length sig = 64 \<and>
        r = seal P PREKEY_PREFIX (body @ sig) \<and> verify_signature P body sig spk)) \<and>
    (ed25519 P \<and> digest P \<and> wf_crypto P me \<and> prekey_sign P k me = Inr w \<longrightarrow>
      prekey_parse_and_verify P (verifying_key me) w = Some k)"
proof (intro conjI impI)
  have "prekey_from_body body = Inr k \<longleftrightarrow> wf_prekey k \<and> prekey_to_body k = Inr body \<and> length body = 44" for body
    using prekey.body_iff [of body k] by (auto simp: prekey_from_body_ok)
  then show "prekey_parse_and_verify P spk r = Some k \<longleftrightarrow>
      (\<exists>body sig. wf_prekey k \<and> prekey_to_body k = Inr body \<and> length body = 44 \<and> length sig = 64 \<and>
        r = seal P PREKEY_PREFIX (body @ sig) \<and> verify_signature P body sig spk)"
    unfolding prekey.accept_iff [OF assms] by blast
  assume "ed25519 P \<and> digest P \<and> wf_crypto P me \<and> prekey_sign P k me = Inr w"
  then have h: "ed25519 P" "digest P" "wf_crypto P me" "prekey_sign P k me = Inr w" by blast+
  then have "wf_prekey k" by (auto simp: prekey_sign_def andThen_Inr prekey_to_body_ok)
  then show "prekey_parse_and_verify P (verifying_key me) w = Some k"
    using prekey.sign_accept [OF h(1,2) assms h(3) _ _ _ h(4)] by simp
qed

theorem prekey_authentic_witness:
  "\<exists>w. prekey_sign demo_prims \<lparr> pk_id = 7, pk_public_key = replicate 32 5, pk_exp = 99 \<rparr> demo_key = Inr w \<and>
     prekey_parse_and_verify demo_prims (verifying_key demo_key) w =
       Some \<lparr> pk_id = 7, pk_public_key = replicate 32 5, pk_exp = 99 \<rparr>"
proof -
  let ?k = "\<lparr> pk_id = 7, pk_public_key = replicate 32 5, pk_exp = 99 \<rparr>"
  obtain w where w: "prekey_sign demo_prims ?k demo_key = Inr w"
    by (simp add: prekey_sign_def prekey_to_body_def const_defs)
  show ?thesis
    using prekey_authentic [OF demo_b64, of _ w ?k demo_key w] w demo_ed25519 demo_digest demo_key(1) by blast
qed

end
