(* ===== verification/Identity.thy ===== *)
theory Identity
  imports Manifest
begin

text \<open>
  Identity records, \<open>identity.rs\<close>: the body with its optional \<open>versions\<close> suffix, the signed
  TXT form, the DNS names and the address parser.
\<close>

section \<open>The code\<close>

definition IDENTITY_PREFIX :: rstr where
  "IDENTITY_PREFIX = ascii ''v=dmp1;t=identity;d=''"

definition USERNAME_MAX :: nat where
  "USERNAME_MAX = 64"

definition TS_LEN :: nat where
  "TS_LEN = 8"

definition SUPPORTED_VERSIONS :: bytes where
  "SUPPORTED_VERSIONS = [1, 2]"

lemmas [const_defs] = USERNAME_MAX_def TS_LEN_def

datatype identity_error =
    UsernameEmpty
  | UsernameTooLong nat nat
  | IdentityKeyLength nat nat
  | BodyLengthMismatch
  | BodyTooShort
  | InvalidUsernameLength
  | InvalidUtf8
  | VersionsSuffixEmpty
  | VersionsNotCanonical
  | VersionsArgEmpty
  | VersionsArgTooLong nat

record identity_record =
  i_username :: rstr
  i_x25519_pk :: bytes
  i_ed25519_spk :: bytes
  i_ts :: u64
  i_versions :: bytes

definition identity_domain :: "prims \<Rightarrow> rstr \<Rightarrow> rstr \<Rightarrow> rstr" where
  "identity_domain P username base_domain =
     (let hash_hex = hex_encode P (sha256 P username);
          base = trim_end_matches (ch CHR ''.'') base_domain
      in ascii ''id-'' @ take 16 hash_hex @ ascii ''.'' @ base)"

definition zone_anchored_identity_name :: "rstr \<Rightarrow> rstr" where
  "zone_anchored_identity_name identity_domain_str =
     ascii ''dmp.'' @ trim_end_matches (ch CHR ''.'') identity_domain_str"

definition parse_address :: "rstr \<Rightarrow> (rstr \<times> rstr) option" where
  "parse_address address =
     (case split_once (ch CHR ''@'') address of
        None \<Rightarrow> None
      | Some (user, host) \<Rightarrow>
          let user = trim user; host = trim_end_matches (ch CHR ''.'') (trim host) in
          if user = [] \<or> host = [] then None else Some (user, host))"

definition normalize_versions :: "bytes \<Rightarrow> identity_error + bytes" where
  "normalize_versions versions =
     (if versions = [] then Inl VersionsArgEmpty
      else let out = remdups_adj (sort versions) in
        if 255 < length out then Inl (VersionsArgTooLong (length out)) else Inr out)"

definition make_record :: "u64 \<Rightarrow> dmp_crypto \<Rightarrow> rstr \<Rightarrow> u64 option \<Rightarrow> bytes \<Rightarrow> identity_error + identity_record" where
  "make_record clock crypto username ts versions =
     (let ts = unwrap_or ts clock in
      andThen (normalize_versions versions) (\<lambda>versions.
        Inr \<lparr> i_username = username, i_x25519_pk = x25519_pub crypto,
              i_ed25519_spk = verifying_key crypto, i_ts = ts, i_versions = versions \<rparr>))"

definition identity_to_body :: "identity_record \<Rightarrow> identity_error + bytes" where
  "identity_to_body self =
     (let name = i_username self in
      if name = [] then Inl UsernameEmpty
      else if USERNAME_MAX < length name then Inl (UsernameTooLong (length name) USERNAME_MAX)
      else andThen (normalize_versions (i_versions self)) (\<lambda>versions.
        Inr ([of_nat (length name)] @ name @ i_x25519_pk self @ i_ed25519_spk self @ be64 (i_ts self) @
             (if versions \<noteq> [1] then [of_nat (length versions)] @ versions else []))))"

definition identity_from_body :: "bytes \<Rightarrow> identity_error + identity_record" where
  "identity_from_body body =
     (if length body < 1 + X25519_KEY_LEN + ED25519_KEY_LEN + TS_LEN + 1 then Inl BodyTooShort
      else
        let name_len = unat (body ! 0) in
        if name_len = 0 \<or> USERNAME_MAX < name_len then Inl InvalidUsernameLength
        else
          let v1_end = 1 + name_len + X25519_KEY_LEN + ED25519_KEY_LEN + TS_LEN in
          if length body < v1_end then Inl BodyLengthMismatch
          else
            let offset = 1; username = segment offset (offset + name_len) body in
            if \<not> is_utf8 username then Inl InvalidUtf8
            else
              let offset = offset + name_len;
                  x25519_pk = segment offset (offset + X25519_KEY_LEN) body;
                  offset = offset + X25519_KEY_LEN;
                  ed25519_spk = segment offset (offset + ED25519_KEY_LEN) body;
                  offset = offset + ED25519_KEY_LEN;
                  ts = read64 (segment offset (offset + TS_LEN) body);
                  offset = offset + TS_LEN
              in
              andThen
                (if offset < length body then
                   let versions_len = unat (body ! offset); offset = offset + 1 in
                   if versions_len = 0 then Inl VersionsSuffixEmpty
                   else if offset + versions_len \<noteq> length body then Inl BodyLengthMismatch
                   else
                     let raw = segment offset (offset + versions_len) body in
                     andThen (normalize_versions raw) (\<lambda>canonical.
                       if canonical \<noteq> raw then Inl VersionsNotCanonical else Inr canonical)
                 else if offset \<noteq> length body then Inl BodyLengthMismatch
                 else Inr [1])
                (\<lambda>versions. Inr \<lparr> i_username = username, i_x25519_pk = x25519_pk,
                   i_ed25519_spk = ed25519_spk, i_ts = ts, i_versions = versions \<rparr>))"

definition identity_sign :: "prims \<Rightarrow> identity_record \<Rightarrow> dmp_crypto \<Rightarrow> identity_error + rstr" where
  "identity_sign P self crypto = andThen (identity_to_body self) (\<lambda>body.
     Inr (seal P IDENTITY_PREFIX (body @ sign_data P crypto body)))"

definition identity_parse_and_verify :: "prims \<Rightarrow> rstr \<Rightarrow> (identity_record \<times> bytes) option" where
  "identity_parse_and_verify P record =
     (case unseal P IDENTITY_PREFIX record of
        None \<Rightarrow> None
      | Some wire \<Rightarrow>
          if length wire < ED25519_SIG_LEN + 1 then None
          else
            let split = length wire - ED25519_SIG_LEN; body = take split wire; signature = drop split wire in
            (case ok (identity_from_body body) of
               None \<Rightarrow> None
             | Some rec \<Rightarrow>
                 if \<not> verify_signature P body signature (i_ed25519_spk rec) then None
                 else Some (rec, signature)))"

definition wire_name :: "prims \<Rightarrow> identity_record \<Rightarrow> rstr \<Rightarrow> rstr" where
  "wire_name P self base_domain = identity_domain P (i_username self) base_domain"

section \<open>The codec\<close>

definition canonical_versions :: "bytes \<Rightarrow> bool" where
  "canonical_versions v \<longleftrightarrow> normalize_versions v = Inr v"

definition wf_identity :: "identity_record \<Rightarrow> bool" where
  "wf_identity r \<longleftrightarrow> 0 < length (i_username r) \<and> length (i_username r) \<le> 64 \<and> is_utf8 (i_username r) \<and>
     length (i_x25519_pk r) = 32 \<and> length (i_ed25519_spk r) = 32 \<and> canonical_versions (i_versions r)"

text \<open>The body without the suffix.\<close>

definition v1_body :: "identity_record \<Rightarrow> bytes" where
  "v1_body r = [of_nat (length (i_username r))] @ i_username r @ i_x25519_pk r @ i_ed25519_spk r @ be64 (i_ts r)"

lemma canonical_versions_length: "canonical_versions v \<Longrightarrow> 0 < length v \<and> length v \<le> 255"
  by (auto simp: canonical_versions_def normalize_versions_def Let_def not_less split: if_splits)

lemma canonical_versions_1: "canonical_versions [1]"
  by (simp add: canonical_versions_def normalize_versions_def)

lemma identity_to_body_ok:
  assumes "wf_identity r"
  shows "identity_to_body r = Inr b \<longleftrightarrow>
    b = v1_body r @ (if i_versions r \<noteq> [1] then [of_nat (length (i_versions r))] @ i_versions r else [])"
  using assms by (auto simp: identity_to_body_def Let_def wf_identity_def canonical_versions_def v1_body_def const_defs)

definition suffix_of :: "bytes \<Rightarrow> bytes" where
  "suffix_of v = [of_nat (length v)] @ v"

lemma identity_from_body_ok:
  assumes n: "n = unat (b ! 0)" and m: "m = unat (b ! (73 + n))"
  shows "identity_from_body b = Inr r \<longleftrightarrow> 74 \<le> length b \<and> 0 < n \<and> n \<le> 64 \<and> 73 + n \<le> length b \<and>
    is_utf8 (segment 1 (1 + n) b) \<and>
    (if 73 + n < length b
     then 0 < m \<and> 74 + n + m = length b \<and> i_versions r = segment (74 + n) (74 + n + m) b \<and>
       canonical_versions (i_versions r)
     else length b = 73 + n \<and> i_versions r = [1]) \<and>
    r = \<lparr> i_username = segment 1 (1 + n) b, i_x25519_pk = segment (1 + n) (33 + n) b,
      i_ed25519_spk = segment (33 + n) (65 + n) b, i_ts = read64 (segment (65 + n) (73 + n) b),
      i_versions = i_versions r \<rparr>"
proof -
  have off: "1 + n + 32 + 32 + 8 = 73 + n" "1 + n + 32 = 33 + n" "33 + n + 32 = 65 + n" "65 + n + 8 = 73 + n"
    "73 + n + 1 = 74 + n" "(1 :: nat) + 32 + 32 + 8 + 1 = 74" by simp_all
  let ?seg = "segment (74 + n) (74 + n + m) b"
  let ?R = "\<lambda>v. \<lparr> i_username = segment 1 (1 + n) b, i_x25519_pk = segment (1 + n) (33 + n) b,
          i_ed25519_spk = segment (33 + n) (65 + n) b, i_ts = read64 (segment (65 + n) (73 + n) b),
          i_versions = v \<rparr>"
  let ?Q = "\<lambda>v. if 73 + n < length b
      then 0 < m \<and> 74 + n + m = length b \<and> v = ?seg \<and> canonical_versions v
      else length b = 73 + n \<and> v = [1]"
  have q: "(if 73 + n < length b
         then if m = 0 then Inl VersionsSuffixEmpty
              else if 74 + n + m \<noteq> length b then Inl BodyLengthMismatch
              else andThen (normalize_versions ?seg) (\<lambda>canonical.
                if canonical \<noteq> ?seg then Inl VersionsNotCanonical else Inr canonical)
         else if 73 + n \<noteq> length b then Inl BodyLengthMismatch else Inr [1]) = Inr v \<longleftrightarrow> ?Q v" for v
  proof -
    have "andThen (normalize_versions ?seg) (\<lambda>canonical.
        if canonical \<noteq> ?seg then Inl VersionsNotCanonical else Inr canonical) = Inr v \<longleftrightarrow>
      v = ?seg \<and> canonical_versions v"
      by (cases "normalize_versions ?seg") (auto simp: canonical_versions_def)
    then show ?thesis by (simp only: if_Inl_Inr sum.inject split: if_split) auto
  qed
  have ex: "(\<exists>v. ?Q v \<and> ?R v = r) \<longleftrightarrow> ?Q (i_versions r) \<and> r = ?R (i_versions r)"
    by (cases r) auto
  have "identity_from_body b = Inr r \<longleftrightarrow> \<not> length b < 74 \<and> \<not> (n = 0 \<or> 64 < n) \<and> \<not> length b < 73 + n \<and>
      is_utf8 (segment 1 (1 + n) b) \<and> (\<exists>v. ?Q v \<and> ?R v = r)"
    unfolding identity_from_body_def Let_def n [symmetric] const_defs off m [symmetric]
    by (simp only: if_Inl_Inr andThen_Inr not_not sum.inject q)
  then show ?thesis unfolding ex by (simp only: not_less not_le de_Morgan_disj neq0_conv conj_assoc)
qed

lemma identity_from_body_shape:
  assumes "identity_from_body b = Inr r"
  shows "wf_identity r \<and> (b = v1_body r \<and> i_versions r = [1] \<or> b = v1_body r @ suffix_of (i_versions r))"
proof -
  define n m where "n = unat (b ! 0)" and "m = unat (b ! (73 + n))"
  note f = assms [unfolded identity_from_body_ok [OF n_def m_def]]
  have n: "0 < n" "n \<le> 64" and len: "73 + n \<le> length b" using f by blast+
  have v: "if 73 + n < length b
     then 0 < m \<and> 74 + n + m = length b \<and> i_versions r = segment (74 + n) (74 + n + m) b \<and>
       canonical_versions (i_versions r)
     else length b = 73 + n \<and> i_versions r = [1]" using f by blast
  have r: "i_username r = segment 1 (1 + n) b" "i_x25519_pk r = segment (1 + n) (33 + n) b"
    "i_ed25519_spk r = segment (33 + n) (65 + n) b" "i_ts r = read64 (segment (65 + n) (73 + n) b)"
    using f by (metis identity_record.select_convs)+
  have "canonical_versions (i_versions r)" using v canonical_versions_1 by (metis)
  then have wf: "wf_identity r"
    using f n len by (simp add: wf_identity_def r)
  have b0: "[of_nat n] = segment 0 1 b"
  proof -
    have "0 < length b" using n len by linarith
    from segment_one [OF this, of 1] show ?thesis by (simp add: n_def)
  qed
  have take: "v1_body r = segment 0 (73 + n) b"
    using len by (simp add: v1_body_def r b0 [simplified] be_read)
      (simp add: b0 segment_join segment_split)
  show ?thesis
  proof (cases "73 + n < length b")
    case False
    with len have "length b = 73 + n" by simp
    then have "b = v1_body r" using take by (simp add: segment_full)
    with False v wf show ?thesis by simp
  next
    case True
    then have ver: "i_versions r = segment (74 + n) (74 + n + m) b" "74 + n + m = length b" using v by simp_all
    then have "length (i_versions r) = m" by (simp only: length_segment le_refl)
    then have "suffix_of (i_versions r) = segment (73 + n) (74 + n) b @ segment (74 + n) (length b) b"
      using True v segment_one [of "73 + n" b "74 + n"] by (simp add: suffix_of_def m_def)
    then have "v1_body r @ suffix_of (i_versions r) = b"
      using len True by (simp add: take segment_join segment_split segment_full)
    with wf show ?thesis by simp
  qed
qed

lemma identity_from_body_complete:
  assumes wf: "wf_identity r"
    and s: "s = [] \<and> i_versions r = [1] \<or> s = suffix_of (i_versions r)"
  shows "identity_from_body (v1_body r @ s) = Inr r"
proof -
  let ?n = "length (i_username r)" and ?b = "v1_body r @ s"
  have w: "0 < ?n" "?n \<le> 64" "is_utf8 (i_username r)" "length (i_x25519_pk r) = 32"
    "length (i_ed25519_spk r) = 32" and cv: "canonical_versions (i_versions r)"
    using wf by (auto simp: wf_identity_def)
  have n: "?n = unat (?b ! 0)" using w by (simp add: v1_body_def unat_of_nat_byte)
  have len: "length ?b = 73 + ?n + length s" using w by (simp add: v1_body_def)
  have l1: "length (v1_body r) = 73 + ?n" using w by (simp add: v1_body_def)
  have segs: "segment 1 (1 + ?n) ?b = i_username r" "segment (1 + ?n) (33 + ?n) ?b = i_x25519_pk r"
    "segment (33 + ?n) (65 + ?n) ?b = i_ed25519_spk r" "segment (65 + ?n) (73 + ?n) ?b = be64 (i_ts r)"
    using w by (simp_all add: v1_body_def segment_append segment_Cons segment_full)
  have rest: "if 73 + ?n < length ?b
     then 0 < unat (?b ! (73 + ?n)) \<and> 74 + ?n + unat (?b ! (73 + ?n)) = length ?b \<and>
       i_versions r = segment (74 + ?n) (74 + ?n + unat (?b ! (73 + ?n))) ?b \<and> canonical_versions (i_versions r)
     else length ?b = 73 + ?n \<and> i_versions r = [1]"
  proof (cases "s = []")
    case True
    then show ?thesis using s len by (auto simp: suffix_of_def)
  next
    case False
    with s have sv: "s = suffix_of (i_versions r)" by auto
    have m: "unat (?b ! (73 + ?n)) = length (i_versions r)"
      using canonical_versions_length [OF cv] by (simp add: nth_append l1 sv suffix_of_def unat_of_nat_byte)
    have "segment (74 + ?n) (74 + ?n + length (i_versions r)) ?b = i_versions r"
      by (simp add: segment_append l1 sv suffix_of_def segment_Cons segment_full)
    then show ?thesis
      unfolding m len using canonical_versions_length [OF cv] cv by (simp add: sv suffix_of_def)
  qed
  have "74 \<le> length ?b" "73 + ?n \<le> length ?b" using len w(1) by linarith+
  then show ?thesis
    unfolding identity_from_body_ok [OF n refl] segs using rest w by simp
qed

definition identity_accept :: "prims \<Rightarrow> unit \<Rightarrow> rstr \<Rightarrow> identity_record option" where
  "identity_accept P k r = map_option fst (identity_parse_and_verify P r)"

lemma identity_parse:
  assumes P: "b64_codec P"
  shows "identity_parse_and_verify P r = Some (x, sig) \<longleftrightarrow>
    (\<exists>body. identity_from_body body = Inr x \<and> length sig = 64 \<and>
       r = seal P IDENTITY_PREFIX (body @ sig) \<and> verify_signature P body sig (i_ed25519_spk x))"
proof
  assume "identity_parse_and_verify P r = Some (x, sig)"
  then obtain wire where "r = seal P IDENTITY_PREFIX wire" "65 \<le> length wire"
    "identity_from_body (take (length wire - 64) wire) = Inr x" "sig = drop (length wire - 64) wire"
    "verify_signature P (take (length wire - 64) wire) (drop (length wire - 64) wire) (i_ed25519_spk x)"
    by (auto simp: identity_parse_and_verify_def Let_def unseal_Some [OF P] const_defs)
  then show "\<exists>body. identity_from_body body = Inr x \<and> length sig = 64 \<and>
      r = seal P IDENTITY_PREFIX (body @ sig) \<and> verify_signature P body sig (i_ed25519_spk x)"
    by (intro exI [of _ "take (length wire - 64) wire"]) simp
next
  assume "\<exists>body. identity_from_body body = Inr x \<and> length sig = 64 \<and>
      r = seal P IDENTITY_PREFIX (body @ sig) \<and> verify_signature P body sig (i_ed25519_spk x)"
  then obtain body where b: "identity_from_body body = Inr x" "length sig = 64"
    "r = seal P IDENTITY_PREFIX (body @ sig)" "verify_signature P body sig (i_ed25519_spk x)" by blast
  have "body \<noteq> []" using b(1) by (auto simp: identity_from_body_def const_defs)
  moreover have "unseal P IDENTITY_PREFIX r = Some (body @ sig)" using b(3) by (simp add: unseal_Some [OF P])
  ultimately show "identity_parse_and_verify P r = Some (x, sig)"
    using b by (simp add: identity_parse_and_verify_def const_defs Suc_le_eq)
qed

interpretation identity: signed_record wf_identity identity_to_body identity_from_body
  IDENTITY_PREFIX "\<lambda>_. True" "\<lambda>_. i_ed25519_spk" "\<lambda>_ _. True" identity_sign identity_accept
proof unfold_locales
  fix b r
  assume "identity_from_body b = Inr r"
  then show "wf_identity r" using identity_from_body_shape by blast
next
  fix r b
  assume w: "wf_identity r" and "identity_to_body r = Inr b"
  then have "b = v1_body r @ (if i_versions r \<noteq> [1] then suffix_of (i_versions r) else [])"
    by (simp only: identity_to_body_ok suffix_of_def)
  then show "identity_from_body b = Inr r"
    using identity_from_body_complete [OF w] by (simp split: if_splits)
next
  fix P x me r
  assume "identity_sign P x me = Inr r"
  then show "\<exists>body. identity_to_body x = Inr body \<and>
      r = seal P IDENTITY_PREFIX (body @ sign_data P me body) \<and> True"
    by (auto simp: identity_sign_def andThen_Inr)
next
  fix P and k :: unit and r x
  assume P: "b64_codec P"
  show "(identity_accept P k r = Some x) = (True \<and> True \<and> (\<exists>body sig. r = seal P IDENTITY_PREFIX (body @ sig) \<and>
      length sig = 64 \<and> identity_from_body body = Inr x \<and> verify_signature P body sig (i_ed25519_spk x)))"
    unfolding identity_accept_def by (auto simp: identity_parse [OF P])
qed

section \<open>Properties\<close>

text \<open>The identity body has exactly one alternative form. A body parses to a record if and only if the
  record is well formed (1 to 64 bytes of UTF-8 name, sorted distinct versions) and the body is either
  what \<open>to_body_bytes\<close> writes or, for a record with versions [1], the same bytes
  followed by the redundant suffix 01 01, which the parser accepts although the encoder omits it.\<close>

theorem identity_body_exact:
  "identity_from_body b = Inr r \<longleftrightarrow> wf_identity r \<and>
    (\<exists>c. identity_to_body r = Inr c \<and> (b = c \<or> i_versions r = [1] \<and> b = c @ [1, 1]))"
proof
  assume f: "identity_from_body b = Inr r"
  then have w: "wf_identity r"
    and b: "b = v1_body r \<and> i_versions r = [1] \<or> b = v1_body r @ suffix_of (i_versions r)"
    using identity_from_body_shape by blast+
  then show "wf_identity r \<and> (\<exists>c. identity_to_body r = Inr c \<and> (b = c \<or> i_versions r = [1] \<and> b = c @ [1, 1]))"
    by (auto simp: identity_to_body_ok [OF w] suffix_of_def)
next
  assume "wf_identity r \<and> (\<exists>c. identity_to_body r = Inr c \<and> (b = c \<or> i_versions r = [1] \<and> b = c @ [1, 1]))"
  then obtain c where w: "wf_identity r" and c: "identity_to_body r = Inr c"
    and b: "b = c \<or> i_versions r = [1] \<and> b = c @ [1, 1]" by blast
  from b show "identity_from_body b = Inr r"
  proof
    assume "b = c"
    then show ?thesis using identity.to_from [OF w c] by simp
  next
    assume v: "i_versions r = [1] \<and> b = c @ [1, 1]"
    then have "b = v1_body r @ suffix_of (i_versions r)"
      using c by (simp add: identity_to_body_ok [OF w] suffix_of_def)
    then show ?thesis using identity_from_body_complete [OF w] by simp
  qed
qed

lemma normalize_versions_ok:
  assumes "normalize_versions v = Inr w"
  shows "set w = set v" "canonical_versions w"
proof -
  have w: "w = remdups_adj (sort v)" "v \<noteq> []" "length w \<le> 255"
    using assms by (auto simp: normalize_versions_def Let_def not_less split: if_splits)
  then show set: "set w = set v" by simp
  have "sorted w" using w(1) by (simp add: sorted_remdups_adj)
  moreover have "distinct w" using w(1) by (simp add: distinct_remdups_adj_sorted)
  ultimately have "remdups_adj (sort w) = w"
    by (simp add: sorted_sort_id remdups_adj_distinct)
  moreover have "w \<noteq> []" using w(2) set by auto
  ultimately show "canonical_versions w"
    using w(3) by (simp add: canonical_versions_def normalize_versions_def Let_def)
qed

lemma identity_published:
  assumes "b64_codec P" "ed25519 P" "digest P" "x25519_aead P" "from_private_bytes P seed = Inr me"
    and "0 < length name" "length name \<le> 64" "is_utf8 name"
    and "make_record clock me name ts versions = Inr rec"
  shows "\<exists>w sig. identity_sign P rec me = Inr w \<and> identity_parse_and_verify P w = Some (rec, sig) \<and>
    i_username rec = name \<and> i_x25519_pk rec = x25519_pub me \<and> i_ed25519_spk rec = verifying_key me \<and>
    i_ts rec = unwrap_or ts clock \<and> sorted (i_versions rec) \<and> distinct (i_versions rec) \<and>
    set (i_versions rec) = set versions"
proof -
  note me = from_private_bytes_wf [OF assms(5)]
  obtain v where v: "normalize_versions versions = Inr v" and rec: "rec = \<lparr> i_username = name,
      i_x25519_pk = x25519_pub me, i_ed25519_spk = verifying_key me, i_ts = unwrap_or ts clock, i_versions = v \<rparr>"
    using assms(9) by (auto simp: make_record_def andThen_Inr)
  have "length (x25519_pub me) = 32"
    using assms(4,5) by (auto simp: from_private_bytes_ok x25519_aead_def)
  then have wf: "wf_identity rec"
    using assms(6-8) sign_verifies(3) [OF assms(2,3) me] normalize_versions_ok(2) [OF v]
    by (simp add: wf_identity_def rec)
  then obtain b where "identity_to_body rec = Inr b" by (simp add: identity_to_body_ok)
  then obtain w where w: "identity_sign P rec me = Inr w" by (simp add: identity_sign_def)
  have "identity_accept P () w = Some rec"
    by (rule identity.sign_accept [OF assms(2,3,1) me wf _ _ w]) (simp_all add: rec)
  then obtain sig where "identity_parse_and_verify P w = Some (rec, sig)"
    by (auto simp: identity_accept_def)
  moreover have "v = remdups_adj (sort versions)"
    using v by (auto simp: normalize_versions_def Let_def split: if_splits)
  then have "sorted v" "distinct v" by (simp_all add: sorted_remdups_adj distinct_remdups_adj_sorted)
  ultimately show ?thesis
    using w normalize_versions_ok(1) [OF v] by (simp add: rec)
qed

text \<open>An identity published by its owner is accepted as made. For every user name of 1 to 64 bytes
  and every list of versions that \<open>make_record\<close> accepts, signing the record gives a TXT form for
  which \<open>parse_and_verify\<close> returns exactly this record: the same name, both public keys of the
  identity, the time stamp and the given versions, sorted and without duplicates.\<close>

theorem identity_publish:
  assumes "b64_codec P" "ed25519 P" "digest P" "x25519_aead P" "from_private_bytes P seed = Inr me"
    and "0 < length name" "length name \<le> 64" "is_utf8 name"
    and "make_record clock me name ts versions = Inr rec"
  shows "\<exists>w sig. identity_sign P rec me = Inr w \<and> identity_parse_and_verify P w = Some (rec, sig) \<and>
    i_username rec = name \<and> i_x25519_pk rec = x25519_pub me \<and> i_ed25519_spk rec = verifying_key me \<and>
    i_ts rec = unwrap_or ts clock \<and> sorted (i_versions rec) \<and> distinct (i_versions rec) \<and>
    set (i_versions rec) = set versions"
  using assms by (rule identity_published)

theorem identity_publish_witness:
  "\<exists>me rec w sig. from_private_bytes demo_prims (replicate 32 7) = Inr me \<and>
     make_record 5 me (ascii ''bob'') None [2, 1, 2] = Inr rec \<and> identity_sign demo_prims rec me = Inr w \<and>
     identity_parse_and_verify demo_prims w = Some (rec, sig) \<and> set (i_versions rec) = {1, 2}"
proof -
  obtain me where me: "from_private_bytes demo_prims (replicate 32 7) = Inr me" by (simp add: from_private_bytes_ok)
  have utf8: "is_utf8 (ascii ''bob'')" by code_simp
  have "normalize_versions [2, 1, 2] = Inr [1, 2]" by code_simp
  then obtain rec where rec: "make_record 5 me (ascii ''bob'') None [2, 1, 2] = Inr rec"
    by (simp add: make_record_def)
  from identity_publish [OF demo_b64 demo_ed25519 demo_digest demo_x25519 me _ _ utf8 rec] me rec
  show ?thesis by auto
qed

end
