(* ===== verification/ClientTypes.thy ===== *)
theory ClientTypes
  imports Fanout Tables Chunking Manifest Prekeys Identity
begin

text \<open>
  The types that the modules of \<open>dnsmesh-client\<close> share: contacts, the errors of the client, and the access to
  DNS as the client sees it through the traits of \<open>base.rs\<close>.
\<close>

section \<open>Contacts and errors\<close>

record contact =
  ct_username :: rstr
  ct_x25519_pk :: bytes
  ct_ed25519_spk :: bytes
  ct_domain :: rstr

datatype client_error =
    InvalidClientConfig string
  | InvalidAddress rstr
  | NoRecordFound rstr
  | VerifyFailed rstr
  | ContactNotFound rstr
  | PublishFailed string rstr
  | CryptoFailed crypto_error
  | IdentityFailed identity_error
  | PrekeyFailed prekey_error
  | ManifestFailed manifest_error
  | ErasureFailed erasure_error
  | ChunkingFailed chunking_error
  | Net net_error
  | Storage storage_error

section \<open>DNS\<close>

text \<open>
  What \<open>DnsRecordReader\<close> and \<open>DnsRecordWriter\<close> do with the state of the DNS. The state is a type
  parameter; the in-memory store is one instance.
\<close>

record 'w dns =
  d_query :: "'w \<Rightarrow> rstr \<Rightarrow> net_error + rstr list option"
  d_publish :: "rstr \<Rightarrow> rstr \<Rightarrow> u32 \<Rightarrow> 'w \<Rightarrow> (net_error + bool) \<times> 'w"
  d_delete :: "rstr \<Rightarrow> rstr option \<Rightarrow> 'w \<Rightarrow> (net_error + bool) \<times> 'w"

definition memory_dns :: "u64 \<Rightarrow> mem_store dns" where
  "memory_dns now = \<lparr> d_query = (\<lambda>s name. mem_query now name s), d_publish = mem_publish now, d_delete = mem_delete \<rparr>"

end
