(* ===== verification/Json.thy ===== *)
theory Json
  imports Reader Crypto
begin

text \<open>
  The values of \<open>serde_json\<close>, and the crates \<open>serde_json\<close> and \<open>hex\<close> as a record of parameters. The
  predicates \<open>serde_json\<close> and \<open>hex_codec\<close> name the documented behaviour that the theorems rely on:
  the compact form of a value without escapes, which reads back, and lower-case hex of two digits
  a byte. A small reader of the compact form shows that a crate can behave like this.
\<close>

section \<open>Values\<close>

datatype json =
    Null
  | Bool bool
  | Num u64
  | OtherNum rstr
  | Str rstr
  | Arr "json list"
  | Obj "(rstr \<times> json) list"

text \<open>\<open>Map::get\<close>, \<open>as_u64\<close>, \<open>as_str\<close> and \<open>as_object\<close>.\<close>

definition json_get :: "(rstr \<times> json) list \<Rightarrow> string \<Rightarrow> json option" where
  "json_get obj key = map_of obj (ascii key)"

fun as_u64 :: "json \<Rightarrow> u64 option" where
  "as_u64 (Num n) = Some n"
| "as_u64 _ = None"

fun as_str :: "json \<Rightarrow> rstr option" where
  "as_str (Str s) = Some s"
| "as_str _ = None"

fun as_object :: "json \<Rightarrow> (rstr \<times> json) list option" where
  "as_object (Obj ms) = Some ms"
| "as_object _ = None"

section \<open>Decimal numbers\<close>

fun dec :: "nat \<Rightarrow> rstr" where
  "dec n = (if n < 10 then [48 + of_nat n] else dec (n div 10) @ [48 + of_nat (n mod 10)])"

declare dec.simps [simp del]

definition undec :: "rstr \<Rightarrow> nat" where
  "undec = foldl (\<lambda>n b. 10 * n + (unat b - 48)) 0"

lemma digit: "n < 10 \<Longrightarrow> unat (48 + of_nat n :: byte) = 48 + n"
  by (simp add: unat_word_ariths unat_of_nat)

lemma is_digit_nat: "n < 10 \<Longrightarrow> is_digit (48 + of_nat n)"
  by (simp add: is_digit_def ch_def word_le_nat_alt digit)

lemma dec_digits: "list_all is_digit (dec n) \<and> dec n \<noteq> []"
  by (induction n rule: dec.induct) (subst (1 2) dec.simps, simp add: is_digit_nat)

lemma undec_dec: "undec (dec n) = n"
proof (induction n rule: dec.induct)
  case (1 n)
  then show ?case by (subst dec.simps) (auto simp: undec_def digit)
qed

lemma length_dec: "n < 10 ^ Suc d \<Longrightarrow> length (dec n) \<le> Suc d"
proof (induction d arbitrary: n)
  case (Suc d)
  have "n div 10 < 10 ^ Suc d" using Suc.prems by (simp add: less_mult_imp_div_less mult.commute)
  then show ?case using Suc.IH [of "n div 10"] by (subst dec.simps) simp
qed (simp add: dec.simps)

lemma length_dec_u64: "length (dec (unat (n :: u64))) \<le> 20"
proof -
  have "unat n < 2 ^ 64" using unsigned_less [of n] by simp
  also have "\<dots> < 10 ^ Suc 19" by simp
  finally show ?thesis using length_dec [of _ 19] by simp
qed

section \<open>The compact form\<close>

definition quote :: "rstr \<Rightarrow> rstr" where
  "quote s = ch CHR 0x22 # s @ [ch CHR 0x22]"

fun join :: "byte \<Rightarrow> rstr list \<Rightarrow> rstr" where
  "join c [] = []"
| "join c [x] = x"
| "join c (x # y # xs) = x @ c # join c (y # xs)"

fun compact :: "json \<Rightarrow> rstr" where
  "compact Null = ascii ''null''"
| "compact (Bool b) = (if b then ascii ''true'' else ascii ''false'')"
| "compact (Num n) = dec (unat n)"
| "compact (OtherNum s) = s"
| "compact (Str s) = quote s"
| "compact (Arr vs) = ch CHR ''['' # join (ch CHR '','') (map compact vs) @ [ch CHR '']'']"
| "compact (Obj ms) = ch CHR ''{'' # join (ch CHR '','') (map (\<lambda>m. quote (fst m) @ ch CHR '':'' # compact (snd m)) ms) @ [ch CHR ''}'']"

text \<open>Printable ASCII without quotes and backslashes needs no escapes.\<close>

definition plain_str :: "rstr \<Rightarrow> bool" where
  "plain_str s \<longleftrightarrow> list_all (\<lambda>b. 0x20 \<le> b \<and> b < 0x7F \<and> b \<noteq> ch CHR 0x22 \<and> b \<noteq> ch CHR 0x5C) s"

fun plain :: "json \<Rightarrow> bool" where
  "plain Null = True"
| "plain (Bool b) = True"
| "plain (Num n) = True"
| "plain (OtherNum s) = False"
| "plain (Str s) = plain_str s"
| "plain (Arr vs) = list_all plain vs"
| "plain (Obj ms) = (distinct (map fst ms) \<and> list_all (\<lambda>m. plain_str (fst m) \<and> plain (snd m)) ms)"

record serde =
  json_write :: "json \<Rightarrow> bytes"
  json_read :: "bytes \<Rightarrow> string + json"
  hex_decode :: "rstr \<Rightarrow> string + bytes"

definition serde_json :: "serde \<Rightarrow> bool" where
  "serde_json S \<longleftrightarrow> (\<forall>v. plain v \<longrightarrow> json_write S v = compact v \<and> json_read S (compact v) = Inr v)"

definition hex_codec :: "prims \<Rightarrow> serde \<Rightarrow> bool" where
  "hex_codec P S \<longleftrightarrow> (\<forall>x. hex_decode S (hex_encode P x) = Inr x \<and> length (hex_encode P x) = 2 * length x \<and>
     list_all (\<lambda>b. is_digit b \<or> ch CHR ''a'' \<le> b \<and> b \<le> ch CHR ''f'') (hex_encode P x))"

lemma plain_hex: "hex_codec P S \<Longrightarrow> plain_str (hex_encode P x)"
proof -
  have "is_digit b \<or> ch CHR ''a'' \<le> b \<and> b \<le> ch CHR ''f'' \<Longrightarrow>
      0x20 \<le> b \<and> b < 0x7F \<and> b \<noteq> ch CHR 0x22 \<and> b \<noteq> ch CHR 0x5C" for b
    by (auto simp: is_digit_def ch_def word_le_nat_alt word_less_nat_alt)
  then show "hex_codec P S \<Longrightarrow> plain_str (hex_encode P x)"
    by (auto simp: hex_codec_def plain_str_def list_all_iff)
qed

lemma join_Cons: "join c (x # xs) = x @ (if xs = [] then [] else c # join c xs)"
  by (cases xs) simp_all

lemma set_join: "set (join c xs) \<subseteq> insert c (\<Union> (set ` set xs))"
  by (induction xs) (auto simp: join_Cons)

text \<open>The compact form of a plain value is printable: it has no line break.\<close>

lemma printable_dec: "list_all (\<lambda>b. 0x20 \<le> b) (dec n)"
  using dec_digits [of n] by (auto simp: list_all_iff is_digit_def ch_def word_le_nat_alt)

lemma printable_quote: "plain_str s \<Longrightarrow> list_all (\<lambda>b. 0x20 \<le> b) (quote s)"
  by (auto simp: quote_def plain_str_def list_all_iff ch_def)

lemma printable_join: "0x20 \<le> c \<Longrightarrow> \<forall>x \<in> set xs. list_all (\<lambda>b. 0x20 \<le> b) x \<Longrightarrow> list_all (\<lambda>b. 0x20 \<le> b) (join c xs)"
  using set_join [of c xs] by (fastforce simp: list_all_iff)

lemma printable_compact: "plain v \<Longrightarrow> list_all (\<lambda>b. 0x20 \<le> b) (compact v)"
proof (induction v rule: compact.induct)
  case (6 vs)
  then show ?case by (auto simp: list_all_iff [of plain] ch_def intro!: printable_join)
next
  case (7 ms)
  have "list_all (\<lambda>b. 0x20 \<le> b) (quote (fst m) @ ch CHR '':'' # compact (snd m))" if "m \<in> set ms" for m
    using 7 that by (auto simp: list_all_iff [of "\<lambda>m. plain_str (fst m) \<and> plain (snd m)"] ch_def intro: printable_quote)
  then show ?case by (auto simp: ch_def intro!: printable_join)
qed (auto simp: ascii_def ch_def printable_dec printable_quote)

section \<open>A concrete instance\<close>

text \<open>A reader of the compact form; the first argument is fuel, of which the length of the text is enough.\<close>

fun read_value :: "nat \<Rightarrow> rstr \<Rightarrow> (json \<times> rstr) option"
  and read_values :: "nat \<Rightarrow> rstr \<Rightarrow> (json list \<times> rstr) option"
  and read_members :: "nat \<Rightarrow> rstr \<Rightarrow> ((rstr \<times> json) list \<times> rstr) option" where
  "read_value 0 s = None"
| "read_value (Suc f) [] = None"
| "read_value (Suc f) (c # s) =
     (if c = ch CHR ''n'' then Some (Null, drop 3 s)
      else if c = ch CHR ''t'' then Some (Bool True, drop 3 s)
      else if c = ch CHR ''f'' then Some (Bool False, drop 4 s)
      else if is_digit c then Some (Num (of_nat (undec (takeWhile is_digit (c # s)))), dropWhile is_digit (c # s))
      else if c = ch CHR 0x22 then
        Some (Str (takeWhile (\<lambda>b. b \<noteq> ch CHR 0x22) s), drop 1 (dropWhile (\<lambda>b. b \<noteq> ch CHR 0x22) s))
      else if c = ch CHR ''['' then
        (if take 1 s = [ch CHR '']''] then Some (Arr [], drop 1 s)
         else map_option (\<lambda>(vs, r). (Arr vs, r)) (read_values f s))
      else if c = ch CHR ''{'' then
        (if take 1 s = [ch CHR ''}''] then Some (Obj [], drop 1 s)
         else map_option (\<lambda>(ms, r). (Obj ms, r)) (read_members f s))
      else None)"
| "read_values 0 s = None"
| "read_values (Suc f) s =
     (case read_value f s of
        Some (v, c # r) \<Rightarrow>
          if c = ch CHR '','' then map_option (\<lambda>(vs, r). (v # vs, r)) (read_values f r)
          else if c = ch CHR '']'' then Some ([v], r) else None
      | _ \<Rightarrow> None)"
| "read_members 0 s = None"
| "read_members (Suc f) s =
     (let k = takeWhile (\<lambda>b. b \<noteq> ch CHR 0x22) (drop 1 s); t = drop 2 (dropWhile (\<lambda>b. b \<noteq> ch CHR 0x22) (drop 1 s)) in
      case read_value f t of
        Some (v, c # r) \<Rightarrow>
          if c = ch CHR '','' then map_option (\<lambda>(ms, r). ((k, v) # ms, r)) (read_members f r)
          else if c = ch CHR ''}'' then Some ([(k, v)], r) else None
      | _ \<Rightarrow> None)"

abbreviation ends_number :: "rstr \<Rightarrow> bool" where
  "ends_number r \<equiv> takeWhile is_digit r = []"

lemma read_quote:
  "plain_str s \<Longrightarrow> takeWhile (\<lambda>b. b \<noteq> ch CHR 0x22) (s @ ch CHR 0x22 # r) = s \<and>
    dropWhile (\<lambda>b. b \<noteq> ch CHR 0x22) (s @ ch CHR 0x22 # r) = ch CHR 0x22 # r"
  by (induction s) (auto simp: plain_str_def)

lemma read_dec:
  assumes "ends_number r"
  shows "takeWhile is_digit (dec n @ r) = dec n \<and> dropWhile is_digit (dec n @ r) = r"
proof -
  have "\<forall>b \<in> set (dec n). is_digit b" using dec_digits [of n] by (simp add: list_all_iff)
  moreover have "dropWhile is_digit r = r" using assms by (cases r) (auto split: if_splits)
  ultimately show ?thesis using assms by simp
qed

lemma digit_heads: "\<not> is_digit (ch CHR '','')" "\<not> is_digit (ch CHR '']'')" "\<not> is_digit (ch CHR ''}'')"
  "\<not> is_digit (ch CHR 0x22)" "\<not> is_digit (ch CHR ''['')" "\<not> is_digit (ch CHR ''{'')"
  "\<not> is_digit (ch CHR ''n'')" "\<not> is_digit (ch CHR ''t'')" "\<not> is_digit (ch CHR ''f'')"
  by (simp_all add: is_digit_def ch_def)

lemma digit_not_letter: "is_digit c \<Longrightarrow> c \<noteq> ch CHR ''n'' \<and> c \<noteq> ch CHR ''t'' \<and> c \<noteq> ch CHR ''f''"
  using digit_heads by auto

lemma compact_head: "compact v \<noteq> [] \<or> (\<exists>s. v = OtherNum s)"
  using dec_digits by (cases v) (auto simp: quote_def ascii_def)

lemma compact_not_close: "plain v \<Longrightarrow> take 1 (compact v @ r) \<noteq> [ch CHR '']'']"
proof -
  have "take 1 (dec n @ r) \<noteq> [ch CHR '']'']" for n
    using dec_digits [of n] digit_heads by (cases "dec n") auto
  then show "plain v \<Longrightarrow> ?thesis" by (cases v) (auto simp: quote_def ascii_def ch_def)
qed

lemma ch_eq: "ch c = ch d \<longleftrightarrow> c = d"
proof
  assume "ch c = ch d"
  then have "(of_nat (of_char c) :: byte) = of_nat (of_char d)" by (simp only: ch_def of_nat_of_char)
  then have "(of_char c :: nat) = of_char d"
    using nat_of_char_less_256 [of c] nat_of_char_less_256 [of d] by (simp add: word_of_nat_eq_iff take_bit_nat_eq_self del: of_nat_of_char)
  then show "c = d" by simp
qed simp

definition reads :: "json \<Rightarrow> bool" where
  "reads v \<longleftrightarrow> (\<forall>f r. ends_number r \<longrightarrow> length (compact v) \<le> f \<longrightarrow> read_value f (compact v @ r) = Some (v, r))"

lemma read_values_ok:
  "vs \<noteq> [] \<Longrightarrow> \<forall>v \<in> set vs. reads v \<Longrightarrow> length (join (ch CHR '','') (map compact vs)) < f \<Longrightarrow>
    read_values f (join (ch CHR '','') (map compact vs) @ ch CHR '']'' # r) = Some (vs, r)"
proof (induction vs arbitrary: f)
  case (Cons v vs)
  obtain g where f: "f = Suc g" using Cons.prems(3) by (cases f) simp_all
  show ?case
  proof (cases "vs = []")
    case True
    then show ?thesis using Cons.prems digit_heads by (simp add: f reads_def less_Suc_eq_le ch_def)
  next
    case False
    let ?j = "join (ch CHR '','') (map compact vs)"
    have "read_values g (?j @ ch CHR '']'' # r) = Some (vs, r)"
      using Cons False by (simp add: f join_Cons)
    moreover have "read_value g (compact v @ ch CHR '','' # ?j @ ch CHR '']'' # r) = Some (v, ch CHR '','' # ?j @ ch CHR '']'' # r)"
      using Cons.prems False digit_heads by (simp add: f join_Cons reads_def)
    ultimately show ?thesis using False by (simp add: f join_Cons)
  qed
qed simp

lemma read_members_ok:
  "ms \<noteq> [] \<Longrightarrow> \<forall>m \<in> set ms. plain_str (fst m) \<and> reads (snd m) \<Longrightarrow>
    length (join (ch CHR '','') (map (\<lambda>m. quote (fst m) @ ch CHR '':'' # compact (snd m)) ms)) < f \<Longrightarrow>
    read_members f (join (ch CHR '','') (map (\<lambda>m. quote (fst m) @ ch CHR '':'' # compact (snd m)) ms) @ ch CHR ''}'' # r) = Some (ms, r)"
proof (induction ms arbitrary: f)
  case (Cons m ms)
  obtain g where f: "f = Suc g" using Cons.prems(3) by (cases f) simp_all
  have q: "takeWhile (\<lambda>b. b \<noteq> ch CHR 0x22) (fst m @ ch CHR 0x22 # t) = fst m"
    "dropWhile (\<lambda>b. b \<noteq> ch CHR 0x22) (fst m @ ch CHR 0x22 # t) = ch CHR 0x22 # t" for t
    using Cons.prems(2) read_quote [of "fst m" t] by simp_all
  have v: "ends_number t \<Longrightarrow> length (compact (snd m)) \<le> g \<Longrightarrow> read_value g (compact (snd m) @ t) = Some (snd m, t)" for t
    using Cons.prems(2) by (simp add: reads_def)
  show ?case
  proof (cases "ms = []")
    case True
    then show ?thesis using Cons.prems v digit_heads by (simp add: f quote_def q ch_eq)
  next
    case False
    let ?j = "join (ch CHR '','') (map (\<lambda>m. quote (fst m) @ ch CHR '':'' # compact (snd m)) ms)"
    have "read_members g (?j @ ch CHR ''}'' # r) = Some (ms, r)"
      using Cons False by (simp add: f join_Cons)
    then show ?thesis using False v [of "ch CHR '','' # ?j @ ch CHR ''}'' # r"] Cons.prems(3) digit_heads
      by (simp add: f join_Cons quote_def q)
  qed
qed simp

lemma reads_plain: "plain v \<Longrightarrow> reads v"
proof (induction v rule: compact.induct)
  case 1
  have "read_value f (110 # 117 # 108 # 108 # r) = Some (Null, r)" if "0 < f" for f r
    using that by (cases f) (simp_all add: ch_def)
  then show ?case by (simp add: reads_def ascii_def ch_def)
next
  case (2 b)
  have "read_value f (116 # 114 # 117 # 101 # r) = Some (Bool True, r)"
    "read_value f (102 # 97 # 108 # 115 # 101 # r) = Some (Bool False, r)" if "0 < f" for f r
    using that by (cases f; simp add: ch_def)+
  then show ?case by (simp add: reads_def ascii_def ch_def)
next
  case (3 n)
  have "read_value f (dec (unat n) @ r) = Some (Num n, r)" if e: "ends_number r" and l: "length (dec (unat n)) \<le> f" for f r
  proof -
    obtain c s g where d: "dec (unat n) = c # s" "f = Suc g" "is_digit c"
      using dec_digits [of "unat n"] l by (cases "dec (unat n)"; cases f) auto
    have "takeWhile is_digit (c # s @ r) = c # s" "dropWhile is_digit (c # s @ r) = r"
      using read_dec [OF e, of "unat n"] by (simp_all add: d)
    then show ?thesis using undec_dec [of "unat n"] digit_not_letter [OF d(3)] by (simp add: d)
  qed
  then show ?case by (simp add: reads_def)
next
  case (5 s)
  then show ?case using read_quote digit_heads
    by (auto simp: reads_def quote_def ch_def dest!: less_eq_Suc_le [THEN iffD2] split: if_splits elim!: less_natE)
next
  case (6 vs)
  have *: "\<forall>v \<in> set vs. reads v" using 6 by (simp add: list_all_iff)
  have "read_value f (compact (Arr vs) @ r) = Some (Arr vs, r)" if l: "length (compact (Arr vs)) \<le> f" for f r
  proof (cases "vs = []")
    case False
    obtain g where f: "f = Suc g" using l by (cases f) auto
    have "read_values g (join (ch CHR '','') (map compact vs) @ ch CHR '']'' # r) = Some (vs, r)"
      using read_values_ok [OF False *] l by (simp add: f)
    moreover have "take 1 (join (ch CHR '','') (map compact vs) @ ch CHR '']'' # r) \<noteq> [ch CHR '']'']"
      using False 6(2) compact_not_close by (cases vs) (auto simp: join_Cons)
    ultimately show ?thesis using digit_heads by (simp add: f ch_def)
  qed (use l digit_heads in \<open>cases f, auto simp: ch_def\<close>)
  then show ?case by (simp add: reads_def)
next
  case (7 ms)
  have *: "\<forall>m \<in> set ms. plain_str (fst m) \<and> reads (snd m)" using 7 by (auto simp: list_all_iff)
  have "read_value f (compact (Obj ms) @ r) = Some (Obj ms, r)" if l: "length (compact (Obj ms)) \<le> f" for f r
  proof (cases "ms = []")
    case False
    obtain g where f: "f = Suc g" using l by (cases f) auto
    let ?j = "join (ch CHR '','') (map (\<lambda>m. quote (fst m) @ ch CHR '':'' # compact (snd m)) ms) @ ch CHR ''}'' # r"
    have "read_members g ?j = Some (ms, r)"
      using read_members_ok [OF False *] l by (simp add: f)
    moreover have "take 1 ?j \<noteq> [ch CHR ''}'']"
      using False by (cases ms) (auto simp: join_Cons quote_def ch_def)
    ultimately show ?thesis using digit_heads by (simp add: f ch_def)
  qed (use l digit_heads in \<open>cases f, auto simp: ch_def\<close>)
  then show ?case by (simp add: reads_def)
qed simp

definition demo_serde :: serde where
  "demo_serde = \<lparr> json_write = compact,
     json_read = (\<lambda>s. case read_value (length s) s of Some (v, []) \<Rightarrow> Inr v | _ \<Rightarrow> Inl ''expected value''),
     hex_decode = (\<lambda>s. if even (length s) then Inr (parse_hex s) else Inl ''odd length'') \<rparr>"

lemma demo_serde_json: "serde_json demo_serde"
proof -
  have "read_value (length (compact v)) (compact v) = Some (v, [])" if "plain v" for v
    using reads_plain [OF that] unfolding reads_def by (metis append_Nil2 order_refl takeWhile.simps(1))
  then show ?thesis by (simp add: serde_json_def demo_serde_def)
qed

lemma hex_digit_hex: "b < 16 \<Longrightarrow> is_digit (hex_digit b) \<or> ch CHR ''a'' \<le> hex_digit b \<and> hex_digit b \<le> ch CHR ''f''"
  by (auto simp: hex_digit_def is_digit_def ch_def word_le_nat_alt word_less_nat_alt unat_word_ariths)

lemma hex_nibble_digit: "b < 16 \<Longrightarrow> hex_nibble (hex_digit b) = b"
  by (auto simp: hex_digit_def hex_nibble_def ch_def word_le_nat_alt word_less_nat_alt unat_word_ariths)

lemma nibbles: "drop_bit 4 (b :: byte) < 16" "take_bit 4 (b :: byte) < 16"
proof -
  have "unat b < 16 * 16" using unsigned_less [of b] by simp
  then have "unat b div 16 < 16" by (rule less_mult_imp_div_less)
  moreover have "unat (drop_bit 4 b) = unat b div 16" unfolding unsigned_drop_bit_eq using unsigned_less [of b]
    by (simp add: drop_bit_eq_div take_bit_nat_eq_self)
  moreover have "unat (take_bit 4 b) = unat b mod 16" unfolding unsigned_take_bit_eq by (simp add: take_bit_eq_mod)
  ultimately show "drop_bit 4 b < 16" "take_bit 4 b < 16" unfolding word_less_nat_alt by simp_all
qed

lemma nibbles_byte: "push_bit 4 (drop_bit 4 b) OR take_bit 4 b = (b :: byte)"
  by (rule bit_eqI) (auto simp: bit_simps)

lemma demo_hex_codec: "hex_codec demo_prims demo_serde"
proof -
  have "parse_hex (demo_hex x) = x" for x
    by (induction x) (simp_all add: demo_hex_def hex_nibble_digit nibbles nibbles_byte)
  moreover have "length (demo_hex x) = 2 * length x" for x
    by (induction x) (simp_all add: demo_hex_def)
  moreover have "list_all (\<lambda>b. is_digit b \<or> ch CHR ''a'' \<le> b \<and> b \<le> ch CHR ''f'') (demo_hex x)" for x
    by (induction x) (simp_all add: demo_hex_def hex_digit_hex nibbles)
  ultimately show ?thesis by (simp add: hex_codec_def demo_serde_def demo_prims_def)
qed

end
