(* ===== verification/Envelope.thy ===== *)
theory Envelope
  imports Json DnsNames
begin

text \<open>
  The plaintext envelope that carries the sender's address inside the encrypted message,
  \<open>envelope.rs\<close>. The JSON crate is the parameter of type \<open>serde\<close>.
\<close>

section \<open>The code\<close>

definition DMPV2_PREFIX :: bytes where
  "DMPV2_PREFIX = ascii ''DMPV2:''"

definition MAX_HEADER_BYTES :: nat where
  "MAX_HEADER_BYTES = 256"

definition LOCALPART_MAX :: nat where
  "LOCALPART_MAX = 64"

definition HOST_LABEL_MAX :: nat where
  "HOST_LABEL_MAX = 63"

definition HOST_MAX :: nat where
  "HOST_MAX = 253"

lemmas [const_defs] = MAX_HEADER_BYTES_def LOCALPART_MAX_def HOST_LABEL_MAX_def HOST_MAX_def

fun contains_double_dot :: "rstr \<Rightarrow> bool" where
  "contains_double_dot (a # b # s) \<longleftrightarrow> a = ch CHR ''.'' \<and> b = ch CHR ''.'' \<or> contains_double_dot (b # s)"
| "contains_double_dot _ \<longleftrightarrow> False"

definition local_part_ok :: "rstr \<Rightarrow> bool" where
  "local_part_ok local \<longleftrightarrow>
     (if LOCALPART_MAX < length local \<or> local = [] then False
      else if \<not> is_alnum (local ! 0) then False
      else if last local = ch CHR ''.'' then False
      else if contains_double_dot local then False
      else list_all (\<lambda>b. is_alnum b \<or> b = ch CHR ''_'' \<or> b = ch CHR ''-'' \<or> b = ch CHR ''.'') local)"

definition label_ok :: "rstr \<Rightarrow> bool" where
  "label_ok label \<longleftrightarrow>
     (if label = [] \<or> HOST_LABEL_MAX < length label then False
      else if \<not> is_alnum (label ! 0) then False
      else if \<not> is_alnum (label ! (length label - 1)) then False
      else list_all (\<lambda>b. is_alnum b \<or> b = ch CHR ''-'') label)"

definition host_ok :: "rstr \<Rightarrow> bool" where
  "host_ok host \<longleftrightarrow> list_all label_ok (split_on (ch CHR ''.'') host)"

definition canonicalize_address :: "rstr \<Rightarrow> rstr option" where
  "canonicalize_address addr =
     (if \<not> is_ascii addr then None
      else
        let trimmed = to_ascii_lowercase (trim addr) in
        (case split_once (ch CHR ''@'') trimmed of
           None \<Rightarrow> None
         | Some (local, host_raw) \<Rightarrow>
             if ch CHR ''@'' \<in> set host_raw then None
             else
               let host = trim_end_matches (ch CHR ''.'') host_raw in
               if local = [] \<or> host = [] then None
               else if HOST_MAX < length host then None
               else if \<not> local_part_ok local then None
               else if \<not> host_ok host then None
               else Some (local @ ch CHR ''@'' # host)))"

definition canonical_json_from_one_field :: "serde \<Rightarrow> string \<Rightarrow> rstr \<Rightarrow> bytes" where
  "canonical_json_from_one_field S key value = json_write S (Obj [(ascii key, Str value)])"

definition envelope_encode :: "serde \<Rightarrow> bytes \<Rightarrow> rstr option \<Rightarrow> bytes" where
  "envelope_encode S body sender_addr =
     (case sender_addr of
        None \<Rightarrow> body
      | Some addr \<Rightarrow>
          (case canonicalize_address addr of
             None \<Rightarrow> body
           | Some canonical \<Rightarrow>
               let header_bytes = canonical_json_from_one_field S ''from'' canonical in
               if MAX_HEADER_BYTES < length header_bytes then body
               else DMPV2_PREFIX @ header_bytes @ [10] @ body))"

definition position :: "('a \<Rightarrow> bool) \<Rightarrow> 'a list \<Rightarrow> nat option" where
  "position P xs = (if list_ex P xs then Some (length (takeWhile (\<lambda>x. \<not> P x) xs)) else None)"

definition envelope_decode :: "serde \<Rightarrow> bytes \<Rightarrow> bytes \<times> rstr option" where
  "envelope_decode S plaintext =
     (if \<not> starts_with DMPV2_PREFIX plaintext then (plaintext, None)
      else
        let rest = drop (length DMPV2_PREFIX) plaintext;
            scan_limit = min (MAX_HEADER_BYTES + 1) (length rest)
        in
        (case position (\<lambda>b. b = 10) (take scan_limit rest) of
           None \<Rightarrow> (plaintext, None)
         | Some nl_offset \<Rightarrow>
             let header_bytes = take nl_offset rest in
             if \<not> is_utf8 header_bytes then (plaintext, None)
             else (case json_read S header_bytes of
                Inl _ \<Rightarrow> (plaintext, None)
              | Inr parsed \<Rightarrow>
                  (case as_object parsed of
                     None \<Rightarrow> (plaintext, None)
                   | Some obj \<Rightarrow>
                       let body = drop (nl_offset + 1) rest in
                       (case json_get obj ''from'' of
                          None \<Rightarrow> (body, None)
                        | Some raw_from \<Rightarrow>
                            (case as_str raw_from of
                               None \<Rightarrow> (body, None)
                             | Some raw_from_str \<Rightarrow>
                                 (case canonicalize_address raw_from_str of
                                    None \<Rightarrow> (body, None)
                                  | Some canonical \<Rightarrow> (body, Some canonical))))))))"

section \<open>Canonical addresses\<close>

definition canonical_address :: "rstr \<Rightarrow> bool" where
  "canonical_address c \<longleftrightarrow> (\<exists>l h. c = l @ ch CHR ''@'' # h \<and> local_part_ok l \<and> host_ok h \<and> length h \<le> 253 \<and>
     to_ascii_lowercase c = c)"

definition address_byte :: "byte \<Rightarrow> bool" where
  "address_byte b \<longleftrightarrow> is_alnum b \<or> b = ch CHR ''_'' \<or> b = ch CHR ''-'' \<or> b = ch CHR ''.''"

lemma address_byte: "address_byte b \<Longrightarrow> b < 0x7F \<and> \<not> is_whitespace (unat b) \<and> b \<noteq> ch CHR ''@'' \<and>
    0x20 \<le> b \<and> b \<noteq> ch CHR 0x22 \<and> b \<noteq> ch CHR 0x5C"
  by (auto simp: address_byte_def is_alnum_def is_digit_def is_alpha_def ch_def is_whitespace_def word_le_nat_alt word_less_nat_alt)

lemma local_part_bytes: "local_part_ok l \<Longrightarrow> l \<noteq> [] \<and> length l \<le> 64 \<and> (\<forall>b \<in> set l. address_byte b)"
  by (auto simp: local_part_ok_def address_byte_def list_all_iff const_defs split: if_splits)

lemma host_bytes: "host_ok h \<Longrightarrow> h \<noteq> [] \<and> last h \<noteq> ch CHR ''.'' \<and> (\<forall>b \<in> set h. address_byte b)"
proof (intro conjI ballI)
  assume h: "host_ok h"
  have "\<not> label_ok []" by (simp add: label_ok_def)
  then show "h \<noteq> []" using h by (auto simp: host_ok_def)
  show "last h \<noteq> ch CHR ''.''"
  proof
    assume "last h = ch CHR ''.''"
    then have "h = butlast h @ [ch CHR ''.'']" using \<open>h \<noteq> []\<close> by (metis append_butlast_last_id)
    then have "[] \<in> set (split_on (ch CHR ''.'') h)" by (metis in_set_conv_decomp split_on_snoc)
    then show False using h \<open>\<not> label_ok []\<close> by (auto simp: host_ok_def list_all_iff)
  qed
  fix b
  assume "b \<in> set h"
  from split_on_join [OF this, of "ch CHR ''.''"] show "address_byte b"
    using h by (fastforce simp: host_ok_def label_ok_def list_all_iff address_byte_def split: if_splits)
qed

lemma trim_end_prefix: "\<exists>t. s = trim_end_matches c s @ t"
proof -
  have "s = trim_end_matches c s @ rev (takeWhile (\<lambda>b. b = c) (rev s))"
    unfolding trim_end_matches_def by (metis rev_append rev_rev_ident takeWhile_dropWhile_id)
  then show ?thesis by blast
qed

lemma canonical_bytes: "canonical_address c \<Longrightarrow> list_all (\<lambda>b. b < 0x7F \<and> \<not> is_whitespace (unat b) \<and> 0x20 \<le> b \<and> b \<noteq> ch CHR 0x22 \<and> b \<noteq> ch CHR 0x5C) c"
  using local_part_bytes host_bytes address_byte
  by (fastforce simp: canonical_address_def list_all_iff ch_def is_whitespace_def)

lemma canonical_length: "canonical_address c \<Longrightarrow> length c \<le> 318"
  using local_part_bytes by (fastforce simp: canonical_address_def)

lemma canonical_fixed:
  assumes "canonical_address c"
  shows "canonicalize_address c = Some c"
proof -
  obtain l h where c: "c = l @ ch CHR ''@'' # h" "local_part_ok l" "host_ok h" "length h \<le> 253" "to_ascii_lowercase c = c"
    using assms by (auto simp: canonical_address_def)
  have *: "l \<noteq> []" "h \<noteq> []" "last h \<noteq> ch CHR ''.''" "ch CHR ''@'' \<notin> set l" "ch CHR ''@'' \<notin> set h"
    using c(2,3) local_part_bytes host_bytes address_byte by blast+
  have "is_ascii c" "\<forall>b \<in> set c. \<not> is_whitespace (unat b)"
    using canonical_bytes [OF assms] by (auto simp: is_ascii_def list_all_iff word_less_nat_alt)
  then have "to_ascii_lowercase (trim c) = c" using c(5) by (simp add: trim_id)
  moreover have "split_once (ch CHR ''@'') c = Some (l, h)" using * by (simp add: c(1) split_once_Some)
  ultimately show ?thesis
    using \<open>is_ascii c\<close> c * by (simp add: canonicalize_address_def trim_end_id const_defs)
qed

lemma canonicalize_canonical:
  assumes "canonicalize_address a = Some c"
  shows "canonical_address c"
proof -
  obtain l hr where s: "split_once (ch CHR ''@'') (to_ascii_lowercase (trim a)) = Some (l, hr)"
    and c: "c = l @ ch CHR ''@'' # trim_end_matches (ch CHR ''.'') hr"
    and k: "local_part_ok l" "host_ok (trim_end_matches (ch CHR ''.'') hr)" "length (trim_end_matches (ch CHR ''.'') hr) \<le> 253"
    using assms by (auto simp: canonicalize_address_def Let_def const_defs split: if_splits option.splits)
  obtain t where t: "hr = trim_end_matches (ch CHR ''.'') hr @ t" using trim_end_prefix by blast
  have e: "to_ascii_lowercase (trim a) = c @ t" using s t by (simp add: split_once_Some c)
  have "to_ascii_lowercase (c @ t) = c @ t" unfolding e [symmetric] by simp
  then have "to_ascii_lowercase c = c" by (simp add: to_ascii_lowercase_def)
  then show ?thesis using k unfolding canonical_address_def c by blast
qed

section \<open>Properties\<close>

text \<open>Which addresses the envelope carries. \<open>canonicalize_address\<close> returns only canonical
  addresses (lower-case, a valid local part of at most 64 and a valid host of at most 253 bytes), and the
  canonical addresses are exactly its fixed points, so it is idempotent.\<close>

theorem canonical_addresses:
  "(canonical_address c = (canonicalize_address c = Some c)) \<and>
   (canonicalize_address a = Some c \<longrightarrow> canonicalize_address c = Some c)"
  using canonical_fixed canonicalize_canonical by blast

lemma envelope_header_text:
  assumes "serde_json S" "canonical_address c"
  shows "canonical_json_from_one_field S ''from'' c = ascii ''{'' @ quote (ascii ''from'') @ ascii '':'' @ quote c @ ascii ''}''"
    and "json_read S (canonical_json_from_one_field S ''from'' c) = Inr (Obj [(ascii ''from'', Str c)])"
    and "list_all (\<lambda>b. 0x20 \<le> b \<and> b < 0x80) (canonical_json_from_one_field S ''from'' c)"
proof -
  have "plain_str c" using canonical_bytes [OF assms(2)] by (auto simp: plain_str_def list_all_iff)
  moreover have "plain_str (ascii ''from'')" by (simp add: plain_str_def ascii_def ch_def)
  ultimately have p: "plain (Obj [(ascii ''from'', Str c)])" by simp
  then show *: "canonical_json_from_one_field S ''from'' c = ascii ''{'' @ quote (ascii ''from'') @ ascii '':'' @ quote c @ ascii ''}''"
    using assms(1) by (simp add: canonical_json_from_one_field_def serde_json_def ascii_def)
  show "json_read S (canonical_json_from_one_field S ''from'' c) = Inr (Obj [(ascii ''from'', Str c)])"
    using assms(1) p unfolding canonical_json_from_one_field_def serde_json_def by metis
  have "list_all (\<lambda>b. 0x20 \<le> b \<and> b < 0x80) c"
    using canonical_bytes [OF assms(2)] by (auto simp: list_all_iff word_less_nat_alt)
  then show "list_all (\<lambda>b. 0x20 \<le> b \<and> b < 0x80) (canonical_json_from_one_field S ''from'' c)"
    by (simp add: * quote_def ascii_def ch_def)
qed

lemma position_Some: "list_all (\<lambda>b. \<not> P b) xs \<Longrightarrow> P y \<Longrightarrow> position P (xs @ y # ys) = Some (length xs)"
  by (simp add: position_def list_all_iff takeWhile_append2)

lemma envelope_opens:
  assumes "serde_json S"
  shows "(case sender_addr of None \<Rightarrow> envelope_encode S body sender_addr = body
     | Some addr \<Rightarrow> (case canonicalize_address addr of None \<Rightarrow> envelope_encode S body sender_addr = body
        | Some c \<Rightarrow> if length c \<le> 245 then envelope_decode S (envelope_encode S body sender_addr) = (body, Some c)
                    else envelope_encode S body sender_addr = body)) \<and>
    (\<not> starts_with DMPV2_PREFIX body \<longrightarrow> envelope_decode S body = (body, None))"
proof -
  have *: "if length c \<le> 245 then envelope_decode S (envelope_encode S body (Some addr)) = (body, Some c)
      else envelope_encode S body (Some addr) = body" if a: "canonicalize_address addr = Some c" for addr c
  proof -
    let ?h = "canonical_json_from_one_field S ''from'' c"
    note c = canonicalize_canonical [OF a]
    note h = envelope_header_text [OF assms c]
    have len: "length ?h = length c + 11" unfolding h(1) by (simp add: quote_def)
    have nl: "list_all (\<lambda>b. b \<noteq> 10) ?h" using h(3) by (auto simp: list_all_iff)
    have utf8: "is_utf8 ?h" using h(3) by (intro is_utf8_ascii) (auto simp: list_all_iff)
    show ?thesis
    proof (cases "length c \<le> 245")
      case True
      have "take (min (MAX_HEADER_BYTES + 1) (length (?h @ 10 # body))) (?h @ 10 # body) = ?h @ 10 # take (256 - length ?h) body"
        using True len by (simp add: const_defs min_def take_Cons' Suc_diff_le)
      then have "position (\<lambda>b. b = 10) (take (min (MAX_HEADER_BYTES + 1) (length (?h @ 10 # body))) (?h @ 10 # body)) = Some (length ?h)"
        using nl by (simp add: position_Some)
      then show ?thesis
        using True a len utf8 h(2) canonical_fixed [OF c]
        by (simp add: envelope_encode_def envelope_decode_def const_defs json_get_def)
    qed (use a len in \<open>simp add: envelope_encode_def const_defs\<close>)
  qed
  have "envelope_encode S body None = body"
    and "\<And>addr. canonicalize_address addr = None \<Longrightarrow> envelope_encode S body (Some addr) = body"
    and "\<not> starts_with DMPV2_PREFIX body \<Longrightarrow> envelope_decode S body = (body, None)"
    by (simp_all add: envelope_encode_def envelope_decode_def)
  then show ?thesis using * by (simp split: option.split)
qed

text \<open>An envelope is opened as it was made. If the address canonicalizes to at most 245 bytes, decoding
  an encoded body returns the body and the canonical address; a longer or invalid address, or
  none, leaves the body as it is; and a body without the prefix decodes to itself without a
  sender. (The limit of 256 header bytes cuts off canonical addresses of 246 to 318 bytes.)\<close>

theorem envelope_roundtrip:
  assumes "serde_json S"
  shows "(case sender_addr of None \<Rightarrow> envelope_encode S body sender_addr = body
     | Some addr \<Rightarrow> (case canonicalize_address addr of None \<Rightarrow> envelope_encode S body sender_addr = body
        | Some c \<Rightarrow> if length c \<le> 245 then envelope_decode S (envelope_encode S body sender_addr) = (body, Some c)
                    else envelope_encode S body sender_addr = body)) \<and>
    (\<not> starts_with DMPV2_PREFIX body \<longrightarrow> envelope_decode S body = (body, None))"
  using assms by (rule envelope_opens)

theorem envelope_roundtrip_witness:
  "envelope_decode demo_serde (envelope_encode demo_serde [104, 105] (Some (ascii ''a@b''))) =
     ([104, 105], Some (ascii ''a@b''))"
proof -
  have c: "canonicalize_address (ascii ''a@b'') = Some (ascii ''a@b'')"
  proof (rule canonical_fixed)
    have "local_part_ok [97] \<and> host_ok [98]"
      by (simp add: local_part_ok_def host_ok_def label_ok_def is_alnum_def is_alpha_def ch_def const_defs)
    moreover have "to_ascii_lowercase (ascii ''a@b'') = ascii ''a@b''"
      by (simp add: to_ascii_lowercase_def lower_def ascii_def ch_def)
    moreover have "ascii ''a@b'' = [97] @ ch CHR ''@'' # [98]" by (simp add: ascii_def ch_def)
    ultimately show "canonical_address (ascii ''a@b'')" unfolding canonical_address_def by fastforce
  qed
  have l: "length (ascii ''a@b'') \<le> 245" by simp
  from envelope_roundtrip [OF demo_serde_json, of "[104, 105]" "Some (ascii ''a@b'')"]
  show ?thesis by (simp only: option.case c l if_True)
qed

lemma envelope_decode_cases:
  assumes "envelope_decode S p = (b, f)"
  shows "b = p \<and> f = None \<or> (\<exists>h. p = DMPV2_PREFIX @ h @ 10 # b \<and> length h \<le> 256 \<and> 10 \<notin> set h \<and>
    (\<exists>obj. json_read S h = Inr (Obj obj) \<and>
      f = Option.bind (Option.bind (json_get obj ''from'') as_str) canonicalize_address))"
proof (cases "b = p \<and> f = None")
  case False
  let ?r = "drop (length DMPV2_PREFIX) p"
  let ?s = "take (min (MAX_HEADER_BYTES + 1) (length ?r)) ?r"
  have p: "starts_with DMPV2_PREFIX p" using assms False by (auto simp: envelope_decode_def split: if_splits)
  obtain nl where nl: "position (\<lambda>b. b = 10) ?s = Some nl"
    using assms False p by (cases "position (\<lambda>b. b = 10) ?s") (auto simp: envelope_decode_def Let_def)
  have u: "is_utf8 (take nl ?r)"
    using assms False p nl by (cases "is_utf8 (take nl ?r)") (auto simp: envelope_decode_def Let_def)
  obtain v where v: "json_read S (take nl ?r) = Inr v"
    using assms False p nl u by (cases "json_read S (take nl ?r)") (auto simp: envelope_decode_def Let_def)
  obtain obj where o: "as_object v = Some obj"
    using assms False p nl u v by (cases "as_object v") (auto simp: envelope_decode_def Let_def)
  have r: "json_read S (take nl ?r) = Inr (Obj obj)" using v o by (cases v) simp_all
  have "envelope_decode S p = (drop (nl + 1) ?r, Option.bind (Option.bind (json_get obj ''from'') as_str) canonicalize_address)"
    using p nl u v o by (simp add: envelope_decode_def Let_def split: option.split)
  then have b: "b = drop (nl + 1) ?r" and f: "f = Option.bind (Option.bind (json_get obj ''from'') as_str) canonicalize_address"
    using assms by simp_all
  let ?t = "take (min (MAX_HEADER_BYTES + 1) (length ?r)) ?r"
  have nl': "nl = length (takeWhile (\<lambda>b. b \<noteq> 10) ?t)" "list_ex (\<lambda>b. b = 10) ?t"
    using nl by (auto simp: position_def split: if_splits)
  then obtain x y where t: "?t = x @ 10 # y" "10 \<notin> set x"
    using split_list_first [of 10 ?t] by (auto simp: list_ex_iff)
  have "takeWhile (\<lambda>b. b \<noteq> 10) (x @ 10 # y) = x" using t(2) by (subst takeWhile_append2) auto
  then have x: "nl = length x" using nl'(1) t(1) by simp
  have "?r = ?t @ drop (min (MAX_HEADER_BYTES + 1) (length ?r)) ?r" by (rule append_take_drop_id [symmetric])
  then obtain z where z: "?r = x @ 10 # z" unfolding t(1) append_assoc append_Cons by blast
  have "length x < length ?t" by (simp only: t(1)) simp
  then have "length x \<le> 256" by (simp add: const_defs)
  moreover have "p = DMPV2_PREFIX @ ?r" using p unfolding starts_with_def by (metis append_take_drop_id)
  moreover have "b = z" using b by (simp only: x z) simp
  moreover have "json_read S x = Inr (Obj obj)" using r by (simp only: x z) simp
  ultimately show ?thesis using t(2) f z by metis
qed simp

text \<open>Decoding never invents anything. Either the plaintext is returned as it is, without a sender, or it
  is the prefix, a header of at most 256 bytes without a line break that reads as a JSON object, a line
  break and the returned body; and a returned sender is a canonical address, the canonical form of the
  header's \<open>from\<close> string.\<close>

theorem envelope_decode_exact:
  assumes "envelope_decode S p = (b, f)"
  shows "(b = p \<and> f = None \<or> (\<exists>h obj. p = DMPV2_PREFIX @ h @ 10 # b \<and> length h \<le> 256 \<and> 10 \<notin> set h \<and>
      json_read S h = Inr (Obj obj) \<and> f = Option.bind (Option.bind (json_get obj ''from'') as_str) canonicalize_address)) \<and>
    (\<forall>c. f = Some c \<longrightarrow> canonical_address c)"
proof -
  have "canonical_address c" if "f = Some c" for c
  proof -
    from that obtain obj where "Option.bind (Option.bind (json_get obj ''from'') as_str) canonicalize_address = Some c"
      using envelope_decode_cases [OF assms] by auto
    then show ?thesis using canonicalize_canonical by (auto simp: Option.bind_eq_Some_conv)
  qed
  then show ?thesis using envelope_decode_cases [OF assms] by blast
qed

theorem envelope_decode_exact_witness:
  "fst (envelope_decode demo_serde (ascii ''DMPV2:{}'' @ [10, 7])) = [7]"
proof -
  have e: "envelope_decode demo_serde (ascii ''DMPV2:{}'' @ [10, 7]) = ([7], None)" by code_simp
  show ?thesis using envelope_decode_exact [OF e] e by simp
qed

end
