(* ===== verification/Message.thy ===== *)
theory Message
  imports Envelope Wire
begin

text \<open>
  Message headers, framed messages and the legacy identity record, \<open>message.rs\<close>. A header is a JSON
  object with hexadecimal byte fields; a message is the length of the header in two bytes, the header, the
  payload and a slot of 32 bytes. A panic of \<open>to_bytes\<close> is the result \<open>None\<close>.
\<close>

section \<open>The code\<close>

definition MESSAGE_ID_LEN :: nat where
  "MESSAGE_ID_LEN = 16"

definition USER_ID_LEN :: nat where
  "USER_ID_LEN = 32"

definition SIGNATURE_LEN :: nat where
  "SIGNATURE_LEN = 32"

definition HEADER_LEN_PREFIX :: nat where
  "HEADER_LEN_PREFIX = 2"

definition MIN_MESSAGE_LEN :: nat where
  "MIN_MESSAGE_LEN = HEADER_LEN_PREFIX + SIGNATURE_LEN"

definition DEFAULT_TTL :: u32 where
  "DEFAULT_TTL = 300"

definition HEADER_VERSION :: byte where
  "HEADER_VERSION = 1"

definition IDENTITY_RECORD_PREFIX :: rstr where
  "IDENTITY_RECORD_PREFIX = ascii ''v=dmp1;type=identity;data=''"

lemmas [const_defs] = MESSAGE_ID_LEN_def USER_ID_LEN_def SIGNATURE_LEN_def HEADER_LEN_PREFIX_def MIN_MESSAGE_LEN_def

datatype message_error =
    TooShort nat nat
  | Incomplete nat
  | InvalidHeader string
  | UnknownMessageType rstr
  | InvalidHex string string
  | InvalidFieldLength string nat nat
  | Validation string
  | InvalidIdentityRecord

datatype message_type = DataMsg | AckMsg | DiscoveryMsg | IdentityMsg | MailboxMsg

fun type_as_str :: "message_type \<Rightarrow> rstr" where
  "type_as_str DataMsg = ascii ''DATA''"
| "type_as_str AckMsg = ascii ''ACK''"
| "type_as_str DiscoveryMsg = ascii ''DISCOVERY''"
| "type_as_str IdentityMsg = ascii ''IDENTITY''"
| "type_as_str MailboxMsg = ascii ''MAILBOX''"

definition type_parse :: "rstr \<Rightarrow> message_error + message_type" where
  "type_parse s =
     (if s = ascii ''DATA'' then Inr DataMsg
      else if s = ascii ''ACK'' then Inr AckMsg
      else if s = ascii ''DISCOVERY'' then Inr DiscoveryMsg
      else if s = ascii ''IDENTITY'' then Inr IdentityMsg
      else if s = ascii ''MAILBOX'' then Inr MailboxMsg
      else Inl (UnknownMessageType s))"

record dmp_header =
  h_version :: byte
  h_message_type :: message_type
  h_message_id :: bytes
  h_sender_id :: bytes
  h_recipient_id :: bytes
  h_total_chunks :: u32
  h_chunk_number :: u32
  h_timestamp :: u64
  h_ttl :: u32

definition default_header :: "u64 \<Rightarrow> dmp_header" where
  "default_header clock = \<lparr> h_version = HEADER_VERSION, h_message_type = DataMsg,
     h_message_id = replicate MESSAGE_ID_LEN 0, h_sender_id = replicate USER_ID_LEN 0,
     h_recipient_id = replicate USER_ID_LEN 0, h_total_chunks = 1, h_chunk_number = 0, h_timestamp = clock,
     h_ttl = DEFAULT_TTL \<rparr>"

definition header_to_bytes :: "prims \<Rightarrow> serde \<Rightarrow> dmp_header \<Rightarrow> bytes" where
  "header_to_bytes P S self = json_write S (Obj
     [(ascii ''v'', Num (ucast (h_version self))),
      (ascii ''type'', Str (type_as_str (h_message_type self))),
      (ascii ''msg_id'', Str (hex_encode P (h_message_id self))),
      (ascii ''sender'', Str (hex_encode P (h_sender_id self))),
      (ascii ''recipient'', Str (hex_encode P (h_recipient_id self))),
      (ascii ''total'', Num (ucast (h_total_chunks self))),
      (ascii ''chunk'', Num (ucast (h_chunk_number self))),
      (ascii ''ts'', Num (h_timestamp self)),
      (ascii ''ttl'', Num (ucast (h_ttl self)))])"

definition get_u64 :: "(rstr \<times> json) list \<Rightarrow> string \<Rightarrow> message_error + u64" where
  "get_u64 obj key =
     (case json_get obj key of
        None \<Rightarrow> Inl (InvalidHeader (''missing field: '' @ key))
      | Some v \<Rightarrow> (case as_u64 v of None \<Rightarrow> Inl (InvalidHeader (''not a u64: '' @ key)) | Some n \<Rightarrow> Inr n))"

definition get_str :: "(rstr \<times> json) list \<Rightarrow> string \<Rightarrow> message_error + rstr" where
  "get_str obj key =
     (case json_get obj key of
        None \<Rightarrow> Inl (InvalidHeader (''missing field: '' @ key))
      | Some v \<Rightarrow> (case as_str v of None \<Rightarrow> Inl (InvalidHeader (''not a string: '' @ key)) | Some s \<Rightarrow> Inr s))"

definition get_hex_array :: "serde \<Rightarrow> nat \<Rightarrow> (rstr \<times> json) list \<Rightarrow> string \<Rightarrow> message_error + bytes" where
  "get_hex_array S n obj key =
     andThen (get_str obj key) (\<lambda>s.
     andThen (mapErr (InvalidHex key) (hex_decode S s)) (\<lambda>bs.
       if length bs \<noteq> n then Inl (InvalidFieldLength key n (length bs)) else Inr bs))"

text \<open>\<open>try_into\<close> on an integer: its bound, and the error of the field.\<close>

definition narrow :: "nat \<Rightarrow> string \<Rightarrow> u64 \<Rightarrow> message_error + 'a::len word" where
  "narrow width key n = (if unat n < 2 ^ width then Inr (ucast n) else Inl (InvalidHeader (key @ '' out of range'')))"

definition header_from_bytes :: "serde \<Rightarrow> bytes \<Rightarrow> message_error + dmp_header" where
  "header_from_bytes S data =
     andThen (mapErr InvalidHeader (json_read S data)) (\<lambda>v.
     (case as_object v of
        None \<Rightarrow> Inl (InvalidHeader ''expected JSON object'')
      | Some obj \<Rightarrow>
          andThen (andThen (get_u64 obj ''v'') (narrow 8 ''v'')) (\<lambda>version.
          andThen (andThen (get_str obj ''type'') type_parse) (\<lambda>message_type.
          andThen (get_hex_array S MESSAGE_ID_LEN obj ''msg_id'') (\<lambda>message_id.
          andThen (get_hex_array S USER_ID_LEN obj ''sender'') (\<lambda>sender_id.
          andThen (get_hex_array S USER_ID_LEN obj ''recipient'') (\<lambda>recipient_id.
          andThen (andThen (get_u64 obj ''total'') (narrow 32 ''total'')) (\<lambda>total_chunks.
          andThen (andThen (get_u64 obj ''chunk'') (narrow 32 ''chunk'')) (\<lambda>chunk_number.
          andThen (get_u64 obj ''ts'') (\<lambda>timestamp.
          andThen (andThen (get_u64 obj ''ttl'') (narrow 32 ''ttl'')) (\<lambda>ttl.
            Inr \<lparr> h_version = version, h_message_type = message_type, h_message_id = message_id, h_sender_id = sender_id,
                  h_recipient_id = recipient_id, h_total_chunks = total_chunks, h_chunk_number = chunk_number,
                  h_timestamp = timestamp, h_ttl = ttl \<rparr>)))))))))))"

definition header_is_expired :: "dmp_header \<Rightarrow> u64 \<Rightarrow> bool" where
  "header_is_expired self now \<longleftrightarrow> sat_add (h_timestamp self) (ucast (h_ttl self)) < now"

text \<open>The format \<open>{:04}\<close>.\<close>

definition pad4 :: "nat \<Rightarrow> rstr" where
  "pad4 n = replicate (4 - length (dec n)) (ch CHR ''0'') @ dec n"

definition get_chunk_id :: "prims \<Rightarrow> dmp_header \<Rightarrow> rstr" where
  "get_chunk_id P self = hex_encode P (h_message_id self) @ ascii ''-'' @ pad4 (unat (h_chunk_number self))"

record dmp_message =
  msg_header :: dmp_header
  msg_payload :: bytes
  msg_signature :: bytes

definition message_to_bytes :: "prims \<Rightarrow> serde \<Rightarrow> dmp_message \<Rightarrow> bytes option" where
  "message_to_bytes P S self =
     (let header_bytes = header_to_bytes P S (msg_header self); header_len = length header_bytes in
      if 65535 < header_len then None
      else
        let take_len = min (length (msg_signature self)) SIGNATURE_LEN;
            sig = take take_len (msg_signature self) @ drop take_len (replicate SIGNATURE_LEN 0)
        in Some (be16 (of_nat header_len) @ header_bytes @ msg_payload self @ sig))"

definition message_from_bytes :: "serde \<Rightarrow> bytes \<Rightarrow> message_error + dmp_message" where
  "message_from_bytes S data =
     (if length data < MIN_MESSAGE_LEN then Inl (TooShort (length data) MIN_MESSAGE_LEN)
      else
        let header_len = unat (read16 (take 2 data)) in
        if length data < HEADER_LEN_PREFIX + header_len + SIGNATURE_LEN then Inl (Incomplete header_len)
        else
          let header_end = HEADER_LEN_PREFIX + header_len; payload_end = length data - SIGNATURE_LEN in
          andThen (header_from_bytes S (segment HEADER_LEN_PREFIX header_end data)) (\<lambda>header.
            Inr \<lparr> msg_header = header, msg_payload = segment header_end payload_end data,
                  msg_signature = drop payload_end data \<rparr>))"

definition calculate_message_hash :: "prims \<Rightarrow> serde \<Rightarrow> dmp_message \<Rightarrow> bytes" where
  "calculate_message_hash P S self = sha256 P (header_to_bytes P S (msg_header self) @ msg_payload self)"

definition create_chunk :: "dmp_message \<Rightarrow> u32 \<Rightarrow> bytes \<Rightarrow> dmp_message" where
  "create_chunk self chunk_num chunk_data =
     \<lparr> msg_header = (msg_header self)\<lparr>h_chunk_number := chunk_num\<rparr>, msg_payload = chunk_data,
       msg_signature = msg_signature self \<rparr>"

definition validate_basic :: "dmp_message \<Rightarrow> u64 \<Rightarrow> message_error + unit" where
  "validate_basic self now =
     (if h_version (msg_header self) \<noteq> HEADER_VERSION then Inl (Validation ''Unsupported version'')
      else if header_is_expired (msg_header self) now then Inl (Validation ''Message has expired'')
      else if h_total_chunks (msg_header self) \<le> h_chunk_number (msg_header self) then Inl (Validation ''Invalid chunk number'')
      else if length (h_message_id (msg_header self)) \<noteq> MESSAGE_ID_LEN then Inl (Validation ''Invalid message ID length'')
      else if length (h_sender_id (msg_header self)) \<noteq> USER_ID_LEN then Inl (Validation ''Invalid sender ID length'')
      else if length (h_recipient_id (msg_header self)) \<noteq> USER_ID_LEN then Inl (Validation ''Invalid recipient ID length'')
      else Inr ())"

record dmp_identity =
  id_username :: rstr
  id_public_key :: bytes
  id_created_at :: u64
  id_signature :: bytes
  id_metadata :: json

definition get_user_id :: "prims \<Rightarrow> dmp_identity \<Rightarrow> bytes" where
  "get_user_id P self = sha256 P (id_public_key self)"

definition to_dns_record :: "prims \<Rightarrow> serde \<Rightarrow> dmp_identity \<Rightarrow> rstr" where
  "to_dns_record P S self = IDENTITY_RECORD_PREFIX @ json_write S (Obj
     [(ascii ''username'', Str (id_username self)),
      (ascii ''pubkey'', Str (hex_encode P (id_public_key self))),
      (ascii ''created'', Num (id_created_at self)),
      (ascii ''sig'', Str (hex_encode P (id_signature self))),
      (ascii ''meta'', id_metadata self)])"

definition from_dns_record :: "serde \<Rightarrow> rstr \<Rightarrow> message_error + dmp_identity" where
  "from_dns_record S rec =
     (case strip_prefix IDENTITY_RECORD_PREFIX rec of
        None \<Rightarrow> Inl InvalidIdentityRecord
      | Some json_str \<Rightarrow>
          andThen (mapErr InvalidHeader (json_read S json_str)) (\<lambda>v.
          (case as_object v of
             None \<Rightarrow> Inl (InvalidHeader ''expected JSON object'')
           | Some obj \<Rightarrow>
               andThen (get_str obj ''username'') (\<lambda>username.
               andThen (get_str obj ''pubkey'') (\<lambda>pubkey_hex.
               andThen (mapErr (InvalidHex ''pubkey'') (hex_decode S pubkey_hex)) (\<lambda>public_key.
               andThen (get_u64 obj ''created'') (\<lambda>created_at.
               andThen (get_str obj ''sig'') (\<lambda>sig_hex.
               andThen (mapErr (InvalidHex ''sig'') (hex_decode S sig_hex)) (\<lambda>signature.
                 Inr \<lparr> id_username = username, id_public_key = public_key, id_created_at = created_at,
                       id_signature = signature, id_metadata = unwrap_or (json_get obj ''meta'') (Obj []) \<rparr>)))))))))"

section \<open>Headers\<close>

definition wf_header :: "dmp_header \<Rightarrow> bool" where
  "wf_header h \<longleftrightarrow> length (h_message_id h) = 16 \<and> length (h_sender_id h) = 32 \<and> length (h_recipient_id h) = 32"

lemma ascii_eq: "ascii s = ascii t \<longleftrightarrow> s = t"
proof -
  have "inj ch" by (rule injI) (simp add: ch_eq)
  then show ?thesis by (simp add: ascii_def inj_map_eq_map)
qed

lemma ucast_back: "LENGTH('a) \<le> LENGTH('b) \<Longrightarrow> ucast (ucast (x :: 'a::len word) :: 'b::len word) = x"
  by (rule bit_word_eqI) (auto simp: bit_simps)

lemma unat_ucast_up: "LENGTH('a) \<le> LENGTH('b) \<Longrightarrow> unat (ucast (x :: 'a::len word) :: 'b::len word) = unat x"
proof -
  assume "LENGTH('a) \<le> LENGTH('b)"
  then have "(2 :: nat) ^ LENGTH('a) \<le> 2 ^ LENGTH('b)" by simp
  moreover have "unat x < 2 ^ LENGTH('a)" by (rule unsigned_less)
  ultimately have "unat x < 2 ^ LENGTH('b)" by linarith
  then show ?thesis by (simp add: unsigned_ucast_eq take_bit_nat_eq_self)
qed

lemma narrow_back: "LENGTH('a) \<le> 64 \<Longrightarrow> narrow LENGTH('a) key (ucast (x :: 'a::len word)) = Inr x"
proof -
  assume "LENGTH('a) \<le> 64"
  moreover have "unat x < 2 ^ LENGTH('a)" by (rule unsigned_less)
  ultimately show ?thesis by (simp add: narrow_def unat_ucast_up ucast_back)
qed

lemma narrow_u8: "narrow 8 key (ucast (x :: byte)) = Inr x"
  and narrow_u32: "narrow 32 key (ucast (y :: u32)) = Inr y"
  using narrow_back [where x = x] narrow_back [where x = y] by simp_all

lemma type_parse_str: "type_parse (type_as_str t) = Inr t"
  by (cases t) (simp_all add: type_parse_def ascii_eq)

lemma plain_type: "plain_str (type_as_str t)"
  by (cases t) (simp_all add: plain_str_def ascii_def ch_def)

lemmas header_keys = json_get_def ascii_eq get_u64_def get_str_def get_hex_array_def

lemma plain_keys: "plain_str (ascii ''v'')" "plain_str (ascii ''type'')" "plain_str (ascii ''msg_id'')"
  "plain_str (ascii ''sender'')" "plain_str (ascii ''recipient'')" "plain_str (ascii ''total'')"
  "plain_str (ascii ''chunk'')" "plain_str (ascii ''ts'')" "plain_str (ascii ''ttl'')" "plain_str (ascii ''username'')"
  "plain_str (ascii ''pubkey'')" "plain_str (ascii ''created'')" "plain_str (ascii ''sig'')" "plain_str (ascii ''meta'')"
  by (simp_all add: plain_str_def ascii_def ch_def)

lemma header_text:
  assumes "serde_json S" "hex_codec P S"
  shows "header_to_bytes P S h = compact (Obj
     [(ascii ''v'', Num (ucast (h_version h))), (ascii ''type'', Str (type_as_str (h_message_type h))),
      (ascii ''msg_id'', Str (hex_encode P (h_message_id h))), (ascii ''sender'', Str (hex_encode P (h_sender_id h))),
      (ascii ''recipient'', Str (hex_encode P (h_recipient_id h))), (ascii ''total'', Num (ucast (h_total_chunks h))),
      (ascii ''chunk'', Num (ucast (h_chunk_number h))), (ascii ''ts'', Num (h_timestamp h)), (ascii ''ttl'', Num (ucast (h_ttl h)))])"
    and "json_read S (header_to_bytes P S h) = Inr (Obj
     [(ascii ''v'', Num (ucast (h_version h))), (ascii ''type'', Str (type_as_str (h_message_type h))),
      (ascii ''msg_id'', Str (hex_encode P (h_message_id h))), (ascii ''sender'', Str (hex_encode P (h_sender_id h))),
      (ascii ''recipient'', Str (hex_encode P (h_recipient_id h))), (ascii ''total'', Num (ucast (h_total_chunks h))),
      (ascii ''chunk'', Num (ucast (h_chunk_number h))), (ascii ''ts'', Num (h_timestamp h)), (ascii ''ttl'', Num (ucast (h_ttl h)))])"
proof -
  let ?o = "Obj [(ascii ''v'', Num (ucast (h_version h))), (ascii ''type'', Str (type_as_str (h_message_type h))),
      (ascii ''msg_id'', Str (hex_encode P (h_message_id h))), (ascii ''sender'', Str (hex_encode P (h_sender_id h))),
      (ascii ''recipient'', Str (hex_encode P (h_recipient_id h))), (ascii ''total'', Num (ucast (h_total_chunks h))),
      (ascii ''chunk'', Num (ucast (h_chunk_number h))), (ascii ''ts'', Num (h_timestamp h)), (ascii ''ttl'', Num (ucast (h_ttl h)))]"
  have "plain ?o" using plain_hex [OF assms(2)] by (simp add: ascii_eq plain_keys plain_type)
  then have "json_write S ?o = compact ?o" "json_read S (compact ?o) = Inr ?o"
    using assms(1) unfolding serde_json_def by blast+
  then show "header_to_bytes P S h = compact ?o" "json_read S (header_to_bytes P S h) = Inr ?o"
    unfolding header_to_bytes_def by metis+
qed

lemma header_round_trip:
  assumes "serde_json S" "hex_codec P S" "wf_header h"
  shows "header_from_bytes S (header_to_bytes P S h) = Inr h"
proof -
  have "hex_decode S (hex_encode P x) = Inr x" for x using assms(2) by (simp add: hex_codec_def)
  then show ?thesis
    using assms(3) unfolding header_from_bytes_def header_text(2) [OF assms(1,2)]
    by (simp add: header_keys narrow_u8 narrow_u32 type_parse_str wf_header_def const_defs)
qed

lemma header_length:
  assumes "serde_json S" "hex_codec P S" "wf_header h"
  shows "length (header_to_bytes P S h) \<le> 400"
proof -
  have hex: "length (hex_encode P x) = 2 * length x" for x using assms(2) by (simp add: hex_codec_def)
  have t: "length (type_as_str t) \<le> 9" for t by (cases t) simp_all
  show ?thesis
    using assms(3) length_dec_u64 [of "ucast (h_version h)"] length_dec_u64 [of "ucast (h_total_chunks h)"]
      length_dec_u64 [of "ucast (h_chunk_number h)"] length_dec_u64 [of "ucast (h_ttl h)"] length_dec_u64 [of "h_timestamp h"]
      t [of "h_message_type h"]
    unfolding header_text(1) [OF assms(1,2)]
    by (simp add: hex quote_def wf_header_def)
qed

section \<open>Properties\<close>

lemma message_framed:
  assumes "serde_json S" "hex_codec P S" "wf_header (msg_header m)"
  shows "\<exists>d. message_to_bytes P S m = Some d \<and> message_from_bytes S d = Inr (m\<lparr>msg_signature := resize 32 0 (msg_signature m)\<rparr>)"
proof -
  let ?h = "header_to_bytes P S (msg_header m)" and ?sig = "resize 32 0 (msg_signature m)"
  have h: "length ?h \<le> 400" using header_length [OF assms] .
  have sig: "take (min (length s) 32) s @ drop (min (length s) 32) (replicate 32 0) = resize 32 0 s" for s :: bytes
    by (cases "length s \<le> 32") (simp_all add: resize_def min_def)
  have sig: "take (min (length s) 32) s @ replicate (32 - min (length s) 32) 0 = resize 32 0 s" for s :: bytes
    using sig [of s] by simp
  let ?d = "be16 (of_nat (length ?h)) @ ?h @ msg_payload m @ ?sig"
  have d: "message_to_bytes P S m = Some ?d" using h by (simp add: message_to_bytes_def const_defs sig Let_def)
  have "take 2 ?d = be16 (of_nat (length ?h))" by simp
  then have len: "unat (read16 (take 2 ?d)) = length ?h" using be16_length [of "length ?h"] h by (simp only:)
  have "segment 2 (2 + length ?h) ?d = ?h" by (simp add: segment_def)
  moreover have "segment (2 + length ?h) (length ?d - 32) ?d = msg_payload m" by (simp add: segment_def)
  moreover have "drop (length ?d - 32) ?d = ?sig" by simp
  ultimately have "message_from_bytes S ?d = Inr (m\<lparr>msg_signature := ?sig\<rparr>)"
    unfolding message_from_bytes_def len const_defs
    using header_round_trip [OF assms] by (simp add: Let_def)
  then show ?thesis using d by blast
qed

text \<open>A framed message comes back. \<open>to_bytes\<close> of a message with well-formed header never panics (its
  header takes at most 400 of the 65535 bytes), and \<open>from_bytes\<close> of the frame returns the header, the payload
  and the signature slot, padded with zeros or cut to 32 bytes.\<close>

theorem message_roundtrip:
  assumes "serde_json S" "hex_codec P S" "wf_header (msg_header m)"
  shows "\<exists>d. message_to_bytes P S m = Some d \<and> message_from_bytes S d = Inr (m\<lparr>msg_signature := resize 32 0 (msg_signature m)\<rparr>)"
  using assms by (rule message_framed)

theorem message_roundtrip_witness:
  "\<exists>d. message_to_bytes demo_prims demo_serde \<lparr> msg_header = default_header 9, msg_payload = [1, 2], msg_signature = [7] \<rparr> = Some d \<and>
     message_from_bytes demo_serde d = Inr \<lparr> msg_header = default_header 9, msg_payload = [1, 2], msg_signature = 7 # replicate 31 0 \<rparr>"
proof -
  have "wf_header (default_header 9)" by (simp add: wf_header_def default_header_def const_defs)
  moreover have "resize 32 0 [7 :: byte] = 7 # replicate 31 0" by (simp add: resize_def)
  ultimately show ?thesis
    using message_roundtrip [OF demo_serde_json demo_hex_codec,
        of "\<lparr> msg_header = default_header 9, msg_payload = [1, 2], msg_signature = [7] \<rparr>"] by simp
qed

lemma segments_id:
  assumes "2 + n + 32 \<le> length d"
  shows "d = take 2 d @ segment 2 (2 + n) d @ segment (2 + n) (length d - 32) d @ drop (length d - 32) d"
proof -
  have "segment 2 (2 + n) d @ segment (2 + n) (length d - 32) d = segment 2 (length d - 32) d"
    using assms by (intro segment_split) simp_all
  moreover have "segment 0 2 d @ segment 2 (length d - 32) d = segment 0 (length d - 32) d"
    using assms by (intro segment_split) simp_all
  moreover have "segment 0 2 d = take 2 d" "segment 0 (length d - 32) d = take (length d - 32) d"
    by (simp_all add: segment_def)
  ultimately have "take 2 d @ segment 2 (2 + n) d @ segment (2 + n) (length d - 32) d = take (length d - 32) d"
    by simp
  then show ?thesis by (metis append.assoc append_take_drop_id)
qed

text \<open>The errors of the frame are not errors of the header.\<close>

fun frame_error :: "message_error \<Rightarrow> bool" where
  "frame_error (TooShort _ _) = True"
| "frame_error (Incomplete _) = True"
| "frame_error _ = False"

lemma andThen_Inl: "andThen r f = Inl e \<longleftrightarrow> r = Inl e \<or> (\<exists>x. r = Inr x \<and> f x = Inl e)"
  by (cases r) simp_all

lemma field_errors:
  "get_u64 obj key = Inl e \<Longrightarrow> \<not> frame_error e"
  "get_str obj key = Inl e \<Longrightarrow> \<not> frame_error e"
  "narrow w key n = Inl e \<Longrightarrow> \<not> frame_error e"
  "type_parse s = Inl e \<Longrightarrow> \<not> frame_error e"
  by (auto simp: get_u64_def get_str_def narrow_def type_parse_def split: option.splits if_splits)

lemma hex_errors: "get_hex_array S n obj key = Inl e \<Longrightarrow> \<not> frame_error e"
  by (auto simp: get_hex_array_def andThen_Inl mapErr_Inl split: if_splits dest: field_errors)

lemma header_errors: "header_from_bytes S x = Inl e \<Longrightarrow> \<not> frame_error e"
  unfolding header_from_bytes_def andThen_Inl mapErr_Inl
  by (elim disjE exE conjE) (auto simp: andThen_Inl split: option.splits dest: field_errors hex_errors)

text \<open>The frame is parsed exactly. \<open>from_bytes\<close> accepts a buffer if and only if it is the length of a
  header text, the text, the payload and 32 bytes of signature, and the text parses as the header of the
  result; it reports TooShort exactly below 34 bytes and Incomplete exactly when the header
  and the signature do not fit.\<close>

theorem message_frame_exact:
  "(message_from_bytes S d = Inr m) = (\<exists>t. length t \<le> 65535 \<and> d = be16 (of_nat (length t)) @ t @ msg_payload m @ msg_signature m \<and>
      length (msg_signature m) = 32 \<and> header_from_bytes S t = Inr (msg_header m)) \<and>
   (length d < 34) = (message_from_bytes S d = Inl (TooShort (length d) 34)) \<and>
   (34 \<le> length d \<and> length d < 34 + unat (read16 (take 2 d))) =
     (length d \<ge> 34 \<and> message_from_bytes S d = Inl (Incomplete (unat (read16 (take 2 d)))))"
proof (intro conjI iffI)
  assume a: "message_from_bytes S d = Inr m"
  let ?n = "unat (read16 (take 2 d))"
  have l: "2 + ?n + 32 \<le> length d" and h: "header_from_bytes S (segment 2 (2 + ?n) d) = Inr (msg_header m)"
    and m: "msg_payload m = segment (2 + ?n) (length d - 32) d" "msg_signature m = drop (length d - 32) d"
    using a by (auto simp: message_from_bytes_def Let_def const_defs andThen_Inr split: if_splits)
  have t: "length (segment 2 (2 + ?n) d) = ?n" using l by simp
  have "?n < 2 ^ LENGTH(16)" by (rule unsigned_less)
  then have "?n < 65536" by (rule order_less_le_trans) simp
  then have n: "?n \<le> 65535" by linarith
  have "take 2 d = be16 (of_nat ?n)" using two_bytes [of "take 2 d"] l by simp
  then show "\<exists>t. length t \<le> 65535 \<and> d = be16 (of_nat (length t)) @ t @ msg_payload m @ msg_signature m \<and>
      length (msg_signature m) = 32 \<and> header_from_bytes S t = Inr (msg_header m)"
    using segments_id [OF l] l n h t m by (intro exI [of _ "segment 2 (2 + ?n) d"]) simp
next
  assume "\<exists>t. length t \<le> 65535 \<and> d = be16 (of_nat (length t)) @ t @ msg_payload m @ msg_signature m \<and>
      length (msg_signature m) = 32 \<and> header_from_bytes S t = Inr (msg_header m)"
  then obtain t where t: "length t \<le> 65535" "d = be16 (of_nat (length t)) @ t @ msg_payload m @ msg_signature m"
    "length (msg_signature m) = 32" "header_from_bytes S t = Inr (msg_header m)" by blast
  have "take 2 d = be16 (of_nat (length t))" by (simp add: t(2))
  then have n: "unat (read16 (take 2 d)) = length t" using be16_length [of "length t"] t(1) by (simp only:)
  have "segment 2 (2 + length t) d = t" "segment (2 + length t) (length d - 32) d = msg_payload m"
    "drop (length d - 32) d = msg_signature m" "34 + length t \<le> length d"
    using t(3) by (simp_all add: t(2) segment_def)
  then show "message_from_bytes S d = Inr m"
    using t(4) unfolding message_from_bytes_def n const_defs by (simp add: Let_def)
next
  have other: "header_from_bytes S x = Inl e \<Longrightarrow> False" if "frame_error e" for x e
    using header_errors [of S x e] that by blast
  show "length d < 34 \<Longrightarrow> message_from_bytes S d = Inl (TooShort (length d) 34)"
    by (simp add: message_from_bytes_def const_defs)
  show "message_from_bytes S d = Inl (TooShort (length d) 34) \<Longrightarrow> length d < 34"
    using other by (auto simp: message_from_bytes_def Let_def const_defs andThen_Inl split: if_splits dest!: other [rotated])
  show "34 \<le> length d \<and> length d < 34 + unat (read16 (take 2 d)) \<Longrightarrow>
      message_from_bytes S d = Inl (Incomplete (unat (read16 (take 2 d))))" "34 \<le> length d \<and> length d < 34 + unat (read16 (take 2 d)) \<Longrightarrow> 34 \<le> length d"
    by (simp_all add: message_from_bytes_def Let_def const_defs)
  show "34 \<le> length d \<and> message_from_bytes S d = Inl (Incomplete (unat (read16 (take 2 d)))) \<Longrightarrow> length d < 34 + unat (read16 (take 2 d))"
    "34 \<le> length d \<and> message_from_bytes S d = Inl (Incomplete (unat (read16 (take 2 d)))) \<Longrightarrow> 34 \<le> length d"
    using other by (auto simp: message_from_bytes_def Let_def const_defs andThen_Inl split: if_splits dest!: other [rotated])
qed

text \<open>The structural checks of a message, written out; expiry does not wrap around.\<close>

theorem validate_basic_exact:
  "(validate_basic m now = Inr ()) = (h_version (msg_header m) = 1 \<and> wf_header (msg_header m) \<and>
     unat now \<le> unat (h_timestamp (msg_header m)) + unat (h_ttl (msg_header m)) \<and>
     h_chunk_number (msg_header m) < h_total_chunks (msg_header m))"
  by (auto simp: validate_basic_def header_is_expired_def HEADER_VERSION_def const_defs sat_add_less unat_ucast_up wf_header_def)

text \<open>A legacy identity record comes back. For a username and metadata without JSON escapes, \<open>from_dns_record\<close>
  of \<open>to_dns_record\<close> returns the record.\<close>

theorem dns_record_roundtrip:
  assumes "serde_json S" "hex_codec P S" "plain_str (id_username i)" "plain (id_metadata i)"
  shows "from_dns_record S (to_dns_record P S i) = Inr i"
proof -
  let ?o = "Obj [(ascii ''username'', Str (id_username i)), (ascii ''pubkey'', Str (hex_encode P (id_public_key i))),
      (ascii ''created'', Num (id_created_at i)), (ascii ''sig'', Str (hex_encode P (id_signature i))), (ascii ''meta'', id_metadata i)]"
  have "plain ?o" using assms(3,4) plain_hex [OF assms(2)] by (simp add: ascii_eq plain_keys)
  then have r: "json_read S (json_write S ?o) = Inr ?o" using assms(1) unfolding serde_json_def by metis
  have "hex_decode S (hex_encode P x) = Inr x" for x using assms(2) by (simp add: hex_codec_def)
  moreover have "strip_prefix IDENTITY_RECORD_PREFIX (IDENTITY_RECORD_PREFIX @ x) = Some x" for x by simp
  ultimately show ?thesis
    unfolding from_dns_record_def to_dns_record_def by (simp only: option.case r) (simp add: header_keys unwrap_or_def)
qed

theorem dns_record_roundtrip_witness:
  "from_dns_record demo_serde (to_dns_record demo_prims demo_serde
     \<lparr> id_username = ascii ''bo'', id_public_key = [1], id_created_at = 5, id_signature = [], id_metadata = Obj [(ascii ''k'', Null)] \<rparr>) =
   Inr \<lparr> id_username = ascii ''bo'', id_public_key = [1], id_created_at = 5, id_signature = [], id_metadata = Obj [(ascii ''k'', Null)] \<rparr>"
  by (rule dns_record_roundtrip [OF demo_serde_json demo_hex_codec]) (simp_all add: plain_str_def ascii_def ch_def)

end
