(* ===== verification/Addressing.thy ===== *)
theory Addressing
  imports ClientTypes Message
begin

text \<open>
  The DNS names of mailbox slots and message chunks, \<open>addressing.rs\<close>.
\<close>

definition HASH12_LEN :: nat where
  "HASH12_LEN = 12"

definition SLOT_COUNT :: u32 where
  "SLOT_COUNT = 10"

definition DEFAULT_TTL_SECONDS :: u64 where
  "DEFAULT_TTL_SECONDS = 300"

definition DEFAULT_PREKEY_TTL_SECONDS :: u64 where
  "DEFAULT_PREKEY_TTL_SECONDS = 86400"

definition hash12 :: "prims \<Rightarrow> bytes \<Rightarrow> rstr" where
  "hash12 P bs = take HASH12_LEN (hex_encode P (sha256 P bs))"

definition trim_zone :: "rstr \<Rightarrow> rstr" where
  "trim_zone zone = trim_end_matches (ch CHR ''.'') zone"

definition slot_domain :: "prims \<Rightarrow> bytes \<Rightarrow> u32 \<Rightarrow> rstr \<Rightarrow> rstr" where
  "slot_domain P recipient_id slot zone =
     ascii ''slot-'' @ dec (unat slot) @ ascii ''.mb-'' @ hash12 P recipient_id @ ascii ''.'' @ trim_zone zone"

definition msg_key :: "prims \<Rightarrow> bytes \<Rightarrow> bytes \<Rightarrow> bytes \<Rightarrow> rstr" where
  "msg_key P msg_id recipient_id sender_spk =
     take HASH12_LEN (hex_encode P (sha256 P (msg_id @ recipient_id @ sender_spk)))"

definition chunk_domain :: "rstr \<Rightarrow> u32 \<Rightarrow> rstr \<Rightarrow> rstr" where
  "chunk_domain key chunk_num zone =
     ascii ''chunk-'' @ pad4 (unat chunk_num) @ ascii ''-'' @ key @ ascii ''.'' @ trim_zone zone"

definition slot_for_msg_id :: "bytes \<Rightarrow> u32" where
  "slot_for_msg_id msg_id = read32 (take 4 msg_id) mod SLOT_COUNT"

section \<open>The names keep the indices apart\<close>

lemma undec_pad: "undec (replicate k (ch CHR ''0'') @ s) = undec s"
proof -
  have "foldl (\<lambda>n b. 10 * n + (unat (b :: byte) - 48)) 0 (replicate k 48) = (0 :: nat)"
    by (induction k) (simp_all flip: replicate_append_same)
  then show ?thesis by (simp add: undec_def ch_def)
qed

lemma pad4_inj: "pad4 m = pad4 n \<Longrightarrow> m = n"
  by (metis pad4_def undec_dec undec_pad)

lemma chunk_domain_inj: "chunk_domain key i zone = chunk_domain key j zone \<Longrightarrow> i = j"
  using pad4_inj [of "unat i" "unat j"] by (simp add: chunk_domain_def word_unat_eq_iff)

lemma dec_inj: "dec m = dec n \<Longrightarrow> m = n"
  by (metis undec_dec)

lemma slot_domain_inj: "slot_domain P r i zone = slot_domain P r j zone \<Longrightarrow> i = j"
  using dec_inj [of "unat i" "unat j"] by (simp add: slot_domain_def word_unat_eq_iff)

lemma slot_in_range: "slot_for_msg_id m < SLOT_COUNT"
proof -
  have "unat (read32 (take 4 m)) mod 10 < 10" by simp
  then show ?thesis by (simp add: slot_for_msg_id_def SLOT_COUNT_def word_less_nat_alt unat_mod)
qed

end
