(* ===== verification/ContactStore.thy ===== *)
theory ContactStore
  imports ClientTypes "HOL-Library.List_Lexorder"
begin

text \<open>
  The address book of \<open>dnsmesh-storage/src/contacts.rs\<close>: a table with the username as its key.
\<close>

section \<open>The code\<close>

record contact_row =
  cr_x25519_pk :: bytes
  cr_ed25519_spk :: bytes
  cr_first_seen_ts :: int
  cr_require_signing_key :: int
  cr_domain :: rstr

type_synonym contact_table = "(rstr, contact_row) rows"

record stored_contact =
  sc_username :: rstr
  sc_x25519_pk :: bytes
  sc_ed25519_spk :: bytes
  sc_first_seen_ts :: u64
  sc_require_signing_key :: bool
  sc_domain :: rstr

record new_contact =
  nc_username :: rstr
  nc_x25519_pk :: bytes
  nc_ed25519_spk :: bytes
  nc_require_signing_key :: bool
  nc_domain :: rstr

definition row_to_contact :: "rstr \<times> contact_row \<Rightarrow> storage_error + stored_contact" where
  "row_to_contact x = (case x of (username, r) \<Rightarrow>
     if length (cr_x25519_pk r) \<noteq> X25519_KEY_LEN
     then Inl (CorruptBlobLength ''contacts.x25519_pk'' X25519_KEY_LEN (length (cr_x25519_pk r)))
     else if length (cr_ed25519_spk r) \<noteq> ED25519_KEY_LEN
     then Inl (CorruptBlobLength ''contacts.ed25519_spk'' ED25519_KEY_LEN (length (cr_ed25519_spk r)))
     else Inr \<lparr> sc_username = username, sc_x25519_pk = cr_x25519_pk r, sc_ed25519_spk = cr_ed25519_spk r,
       sc_first_seen_ts = (if 0 \<le> cr_first_seen_ts r then of_int (cr_first_seen_ts r) else 0),
       sc_require_signing_key = (cr_require_signing_key r \<noteq> 0), sc_domain = cr_domain r \<rparr>)"

definition store_contact :: "bool \<Rightarrow> u64 \<Rightarrow> new_contact \<Rightarrow> contact_table \<Rightarrow> (storage_error + unit) \<times> contact_table" where
  "store_contact works now new t =
     (if \<not> works then (Inl (Sqlite ''insert''), t)
      else
        let row = \<lparr> cr_x25519_pk = nc_x25519_pk new, cr_ed25519_spk = nc_ed25519_spk new, cr_first_seen_ts = i64_secs now,
                    cr_require_signing_key = (if nc_require_signing_key new then 1 else 0), cr_domain = nc_domain new \<rparr>
        in (Inr (), upsert (nc_username new) row (\<lambda>old. row\<lparr>cr_first_seen_ts := cr_first_seen_ts old\<rparr>) t))"

definition get_contact :: "bool \<Rightarrow> rstr \<Rightarrow> contact_table \<Rightarrow> storage_error + stored_contact option" where
  "get_contact works username t =
     (if \<not> works then Inl (Sqlite ''select'')
      else (case map_of t username of
         None \<Rightarrow> Inr None
       | Some r \<Rightarrow> (case row_to_contact (username, r) of Inl e \<Rightarrow> Inl e | Inr c \<Rightarrow> Inr (Some c))))"

definition remove_contact :: "bool \<Rightarrow> rstr \<Rightarrow> contact_table \<Rightarrow> (storage_error + bool) \<times> contact_table" where
  "remove_contact works username t =
     (if \<not> works then (Inl (Sqlite ''delete''), t)
      else (Inr (0 < count_where (\<lambda>k _. k = username) t), delete_where (\<lambda>k _. k = username) t))"

fun rows_to_contacts :: "(rstr \<times> contact_row) list \<Rightarrow> storage_error + stored_contact list" where
  "rows_to_contacts [] = Inr []"
| "rows_to_contacts (r # rs) = andThen (row_to_contact r) (\<lambda>c. andThen (rows_to_contacts rs) (\<lambda>cs. Inr (c # cs)))"

text \<open>\<open>ORDER BY username\<close>: text compares by its bytes.\<close>

definition stored_contacts :: "bool \<Rightarrow> contact_table \<Rightarrow> storage_error + stored_contact list" where
  "stored_contacts works t = (if \<not> works then Inl (Sqlite ''select'') else rows_to_contacts (sort_key fst t))"

definition contacts_len :: "bool \<Rightarrow> contact_table \<Rightarrow> storage_error + u64" where
  "contacts_len works t = (if \<not> works then Inl (Sqlite ''select'') else Inr (of_nat (length t)))"

definition contacts_is_empty :: "bool \<Rightarrow> contact_table \<Rightarrow> storage_error + bool" where
  "contacts_is_empty works t = andThen (contacts_len works t) (\<lambda>n. Inr (n = 0))"

section \<open>The address book\<close>

definition wf_contacts :: "contact_table \<Rightarrow> bool" where
  "wf_contacts t \<longleftrightarrow> keyed t \<and> (\<forall>r \<in> snd ` set t. length (cr_x25519_pk r) = 32 \<and> length (cr_ed25519_spk r) = 32)"

text \<open>The contact that a row stands for.\<close>

definition contact_of :: "rstr \<times> contact_row \<Rightarrow> stored_contact" where
  "contact_of x = (case x of (username, r) \<Rightarrow> \<lparr> sc_username = username, sc_x25519_pk = cr_x25519_pk r,
     sc_ed25519_spk = cr_ed25519_spk r,
     sc_first_seen_ts = (if 0 \<le> cr_first_seen_ts r then of_int (cr_first_seen_ts r) else 0),
     sc_require_signing_key = (cr_require_signing_key r \<noteq> 0), sc_domain = cr_domain r \<rparr>)"

definition book :: "contact_table \<Rightarrow> rstr \<rightharpoonup> stored_contact" where
  "book t u = map_option (\<lambda>r. contact_of (u, r)) (map_of t u)"

lemma row_to_contact_ok:
  "length (cr_x25519_pk r) = 32 \<Longrightarrow> length (cr_ed25519_spk r) = 32 \<Longrightarrow> row_to_contact (u, r) = Inr (contact_of (u, r))"
  by (simp add: row_to_contact_def contact_of_def const_defs)

lemma rows_ok:
  "\<forall>r \<in> snd ` set xs. length (cr_x25519_pk r) = 32 \<and> length (cr_ed25519_spk r) = 32 \<Longrightarrow>
    rows_to_contacts xs = Inr (map contact_of xs)"
  by (induction xs) (auto simp: row_to_contact_ok)

lemma stored_contacts_ok: "wf_contacts t \<Longrightarrow> stored_contacts True t = Inr (map contact_of (sort_key fst t))"
  by (simp add: stored_contacts_def rows_ok wf_contacts_def)

lemma get_contact_ok: "wf_contacts t \<Longrightarrow> get_contact True u t = Inr (book t u)"
proof (cases "map_of t u")
  case (Some r)
  assume "wf_contacts t"
  then have "length (cr_x25519_pk r) = 32 \<and> length (cr_ed25519_spk r) = 32"
    using Some by (force simp: wf_contacts_def dest: map_of_SomeD)
  then show ?thesis using Some by (simp add: get_contact_def book_def row_to_contact_ok)
qed (simp add: get_contact_def book_def)

lemma wf_store:
  assumes "wf_contacts t" "length (nc_x25519_pk c) = 32" "length (nc_ed25519_spk c) = 32"
  shows "wf_contacts (snd (store_contact works now c t))"
proof -
  have "set (AList.update k v t) \<subseteq> insert (k, v) (set t)" for k and v :: contact_row
    by (induction t) auto
  then show ?thesis
    using assms by (auto simp: wf_contacts_def store_contact_def Let_def keyed_upsert upsert_def keyed_update
        split: option.splits) fastforce+
qed

lemma wf_remove: "wf_contacts t \<Longrightarrow> wf_contacts (snd (remove_contact works u t))"
  by (auto simp: wf_contacts_def remove_contact_def keyed_delete_where) (auto simp: delete_where_def)

section \<open>Properties\<close>

text \<open>C28: The address book implements a finite map. Adding a contact with 32-byte keys replaces the entry of its
  username and keeps the time at which the contact was first seen, removing deletes exactly the entry and tells
  whether there was one, a lookup reads the map, and the list is complete, sorted by username and free of
  duplicates.\<close>

theorem contacts_refine:
  assumes "wf_contacts t" "length (nc_x25519_pk c) = 32" "length (nc_ed25519_spk c) = 32"
  shows "wf_contacts (snd (store_contact True now c t)) \<and> wf_contacts (snd (remove_contact True u t)) \<and>
    get_contact True u t = Inr (book t u) \<and>
    book (snd (store_contact True now c t)) = (book t)(nc_username c \<mapsto> \<lparr> sc_username = nc_username c,
      sc_x25519_pk = nc_x25519_pk c, sc_ed25519_spk = nc_ed25519_spk c,
      sc_first_seen_ts = (case book t (nc_username c) of None \<Rightarrow> of_int (i64_secs now) | Some old \<Rightarrow> sc_first_seen_ts old),
      sc_require_signing_key = nc_require_signing_key c, sc_domain = nc_domain c \<rparr>) \<and>
    book (snd (remove_contact True u t)) = (book t)(u := None) \<and>
    fst (remove_contact True u t) = Inr (book t u \<noteq> None) \<and>
    (\<exists>l. stored_contacts True t = Inr l \<and> sorted (map sc_username l) \<and> distinct (map sc_username l) \<and>
      set l = ran (book t))"
proof (intro conjI)
  have keyed: "keyed t" using assms(1) by (simp add: wf_contacts_def)
  show "wf_contacts (snd (store_contact True now c t))" "wf_contacts (snd (remove_contact True u t))"
    "get_contact True u t = Inr (book t u)"
    using wf_store wf_remove get_contact_ok assms by blast+
  have pos: "0 \<le> i64_secs now" by (simp add: i64_secs_def I64_MAX_def)
  show "book (snd (store_contact True now c t)) = (book t)(nc_username c \<mapsto> \<lparr> sc_username = nc_username c,
      sc_x25519_pk = nc_x25519_pk c, sc_ed25519_spk = nc_ed25519_spk c,
      sc_first_seen_ts = (case book t (nc_username c) of None \<Rightarrow> of_int (i64_secs now) | Some old \<Rightarrow> sc_first_seen_ts old),
      sc_require_signing_key = nc_require_signing_key c, sc_domain = nc_domain c \<rparr>)"
    using pos by (simp add: fun_eq_iff book_def store_contact_def Let_def map_of_upsert contact_of_def split: option.split)
  show "book (snd (remove_contact True u t)) = (book t)(u := None)"
    by (rule ext) (simp add: book_def remove_contact_def map_of_delete_where [OF keyed] split: option.split)
  show "fst (remove_contact True u t) = Inr (book t u \<noteq> None)"
    by (force simp: remove_contact_def count_where_def filter_empty_conv book_def map_of_eq_None_iff)
  have u: "map sc_username (map contact_of (sort_key fst t)) = map fst (sort_key fst t)"
    by (simp add: contact_of_def case_prod_beta)
  have "distinct (map fst (sort_key fst t))"
    using keyed unfolding keyed_def by (metis distinct_map distinct_sort set_sort)
  moreover have "set (map contact_of (sort_key fst t)) = ran (book t)"
    using keyed by (force simp: ran_def book_def keyed_def image_iff map_of_eq_Some_iff dest: map_of_SomeD)
  ultimately show "\<exists>l. stored_contacts True t = Inr l \<and> sorted (map sc_username l) \<and> distinct (map sc_username l) \<and>
      set l = ran (book t)"
    using u stored_contacts_ok [OF assms(1)] by (metis sorted_sort_key)
qed

theorem contacts_refine_witness:
  "book (snd (store_contact True 9 \<lparr> nc_username = [1], nc_x25519_pk = replicate 32 0, nc_ed25519_spk = replicate 32 1,
     nc_require_signing_key = False, nc_domain = [] \<rparr> [])) [1] \<noteq> None"
proof -
  let ?c = "\<lparr> nc_username = [1], nc_x25519_pk = replicate 32 0, nc_ed25519_spk = replicate 32 1,
     nc_require_signing_key = False, nc_domain = [] \<rparr>"
  have "wf_contacts []" by (simp add: wf_contacts_def)
  from contacts_refine [OF this, of ?c 9] show ?thesis by simp
qed

end
