(* ===== verification/PrekeyStore.thy ===== *)
theory PrekeyStore
  imports Tables Prekeys
begin

text \<open>
  The store of one-time prekeys, \<open>dnsmesh-storage/src/prekeys.rs\<close>. The random generator is a
  sequence of ids and a sequence of secret keys, read from the given positions; a transaction
  either commits as a whole or leaves the table as it was.
\<close>

section \<open>The code\<close>

definition MAX_PREKEY_ID_RETRIES :: nat where
  "MAX_PREKEY_ID_RETRIES = 16"

record prekey_row =
  pr_private_key :: bytes
  pr_public_key :: bytes
  pr_exp :: int
  pr_created_at :: int
  pr_wire_record :: rstr
  pr_consumed_at :: "int option"

type_synonym prekey_table = "(u32, prekey_row) rows"

record generated_prekey =
  gp_prekey :: prekey
  gp_private_key :: bytes

fun allocate_prekey_id :: "nat \<Rightarrow> (nat \<Rightarrow> u32) \<Rightarrow> nat \<Rightarrow> prekey_table \<Rightarrow> storage_error + u32 \<times> nat" where
  "allocate_prekey_id 0 rand at_pos t = Inl (PrekeyIdExhausted (of_nat MAX_PREKEY_ID_RETRIES))"
| "allocate_prekey_id (Suc tries) rand at_pos t =
     (let candidate = rand at_pos in
      if map_of t candidate = None then Inr (candidate, Suc at_pos)
      else allocate_prekey_id tries rand (Suc at_pos) t)"

definition insert_prekey :: "prims \<Rightarrow> u64 \<Rightarrow> u64 \<Rightarrow> u32 \<Rightarrow> bytes \<Rightarrow> prekey_table \<Rightarrow> prekey_table" where
  "insert_prekey P exp' now prekey_id secret t =
     t @ [(prekey_id, \<lparr> pr_private_key = secret, pr_public_key = x25519_public P secret, pr_exp = i64_secs exp',
       pr_created_at = i64_secs now, pr_wire_record = [], pr_consumed_at = None \<rparr>)]"

fun generate_loop :: "prims \<Rightarrow> u64 \<Rightarrow> u64 \<Rightarrow> (nat \<Rightarrow> u32) \<Rightarrow> nat \<Rightarrow> bytes list \<Rightarrow> prekey_table \<Rightarrow>
    storage_error + generated_prekey list \<times> prekey_table" where
  "generate_loop P exp' now rand at_pos [] t = Inr ([], t)"
| "generate_loop P exp' now rand at_pos (secret # secrets) t =
     andThen (allocate_prekey_id MAX_PREKEY_ID_RETRIES rand at_pos t) (\<lambda>(prekey_id, at_pos).
       andThen (generate_loop P exp' now rand at_pos secrets (insert_prekey P exp' now prekey_id secret t)) (\<lambda>(out, t).
         Inr (\<lparr> gp_prekey = \<lparr> pk_id = prekey_id, pk_public_key = x25519_public P secret, pk_exp = exp' \<rparr>,
               gp_private_key = secret \<rparr> # out, t)))"

text \<open>\<open>count\<close> is the number of secret keys drawn.\<close>

definition generate_pool :: "prims \<Rightarrow> bool \<Rightarrow> u64 \<Rightarrow> u64 \<Rightarrow> (nat \<Rightarrow> u32) \<Rightarrow> bytes list \<Rightarrow> prekey_table \<Rightarrow>
    (storage_error + generated_prekey list) \<times> prekey_table" where
  "generate_pool P works now ttl_seconds rand secrets t =
     (let exp' = sat_add now ttl_seconds in
      if \<not> works then (Inl (Sqlite ''transaction''), t)
      else (case generate_loop P exp' now rand 0 secrets t of
         Inl e \<Rightarrow> (Inl e, t)
       | Inr (out, t') \<Rightarrow> (Inr out, t')))"

definition update_row :: "u32 \<Rightarrow> (prekey_row \<Rightarrow> prekey_row) \<Rightarrow> prekey_table \<Rightarrow> prekey_table" where
  "update_row prekey_id f t = map (\<lambda>(k, r). if k = prekey_id then (k, f r) else (k, r)) t"

definition record_wire :: "bool \<Rightarrow> u32 \<Rightarrow> rstr \<Rightarrow> prekey_table \<Rightarrow> (storage_error + unit) \<times> prekey_table" where
  "record_wire works prekey_id wire_record t =
     (if works then (Inr (), update_row prekey_id (\<lambda>r. r\<lparr>pr_wire_record := wire_record\<rparr>) t)
      else (Inl (Sqlite ''update''), t))"

definition get_wire :: "bool \<Rightarrow> u32 \<Rightarrow> prekey_table \<Rightarrow> storage_error + rstr option" where
  "get_wire works prekey_id t =
     (if \<not> works then Inl (Sqlite ''select'')
      else Inr (case map_of t prekey_id of
         None \<Rightarrow> None
       | Some r \<Rightarrow> if pr_wire_record r = [] then None else Some (pr_wire_record r)))"

definition get_private_key :: "bool \<Rightarrow> u64 \<Rightarrow> u32 \<Rightarrow> prekey_table \<Rightarrow> storage_error + bytes option" where
  "get_private_key works now prekey_id t =
     (if \<not> works then Inl (Sqlite ''select'')
      else
        let row = (case map_of t prekey_id of
                     None \<Rightarrow> None
                   | Some r \<Rightarrow> if i64_secs now < pr_exp r then Some (pr_private_key r) else None)
        in (case row of
              None \<Rightarrow> Inr None
            | Some bs \<Rightarrow>
                if length bs \<noteq> X25519_KEY_LEN then Inl (CorruptBlobLength ''prekeys.private_key'' X25519_KEY_LEN (length bs))
                else Inr (Some bs)))"

definition consume :: "bool \<Rightarrow> u64 \<Rightarrow> u32 \<Rightarrow> prekey_table \<Rightarrow> (storage_error + bool) \<times> prekey_table" where
  "consume works now prekey_id t =
     (if \<not> works then (Inl (Sqlite ''transaction''), t)
      else
        let t1 = update_row prekey_id (\<lambda>r. r\<lparr>pr_consumed_at := Some (i64_secs now)\<rparr>) t;
            removed = count_where (\<lambda>k _. k = prekey_id) t1
        in (Inr (0 < removed), delete_where (\<lambda>k _. k = prekey_id) t1))"

definition count_live :: "bool \<Rightarrow> u64 \<Rightarrow> prekey_table \<Rightarrow> storage_error + u64" where
  "count_live works now t =
     (if \<not> works then Inl (Sqlite ''select'') else Inr (of_nat (count_where (\<lambda>_ r. i64_secs now < pr_exp r) t)))"

definition prekey_cleanup_expired :: "bool \<Rightarrow> u64 \<Rightarrow> prekey_table \<Rightarrow> (storage_error + u64) \<times> prekey_table" where
  "prekey_cleanup_expired works now t =
     (if \<not> works then (Inl (Sqlite ''delete''), t)
      else (Inr (of_nat (count_where (\<lambda>_ r. pr_exp r \<le> i64_secs now) t)), delete_where (\<lambda>_ r. pr_exp r \<le> i64_secs now) t))"

definition list_live_ids :: "bool \<Rightarrow> u64 \<Rightarrow> prekey_table \<Rightarrow> storage_error + u32 list" where
  "list_live_ids works now t =
     (if \<not> works then Inl (Sqlite ''select'')
      else Inr (sort (map fst (filter (\<lambda>(_, r). i64_secs now < pr_exp r) t))))"

section \<open>The invariant\<close>

definition wf_prekeys :: "prekey_table \<Rightarrow> bool" where
  "wf_prekeys t \<longleftrightarrow> keyed t \<and> (\<forall>r \<in> snd ` set t. length (pr_private_key r) = X25519_KEY_LEN)"

definition secret_keys :: "prekey_table \<Rightarrow> bytes set" where
  "secret_keys t = (pr_private_key \<circ> snd) ` set t"

lemma wf_prekeys_secrets: "wf_prekeys t \<longleftrightarrow> keyed t \<and> (\<forall>s \<in> secret_keys t. length s = X25519_KEY_LEN)"
  by (auto simp: wf_prekeys_def secret_keys_def)

lemma allocate_fresh: "allocate_prekey_id tries rand p t = Inr (k, q) \<Longrightarrow> map_of t k = None \<and> p < q \<and> k = rand (q - 1)"
  by (induction tries arbitrary: p) (force simp: Let_def split: if_splits)+

lemma allocate_total:
  assumes "\<exists>i < tries. map_of t (rand (p + i)) = None"
  shows "\<exists>k q. allocate_prekey_id tries rand p t = Inr (k, q)"
  using assms
proof (induction tries arbitrary: p)
  case (Suc tries)
  show ?case
  proof (cases "map_of t (rand p) = None")
    case False
    with Suc.prems obtain i where "i < tries" "map_of t (rand (Suc p + i)) = None"
      by (metis add_Suc_right add_Suc_shift add_0_right less_Suc_eq_0_disj)
    then show ?thesis using Suc.IH [of "Suc p"] False by (auto simp: Let_def)
  qed (simp add: Let_def)
qed simp

lemma keyed_insert: "keyed t \<Longrightarrow> map_of t k = None \<Longrightarrow> keyed (t @ [(k, r)])"
  by (auto simp: keyed_def map_of_eq_None_iff)

lemma wf_insert:
  "wf_prekeys t \<Longrightarrow> map_of t k = None \<Longrightarrow> length s = X25519_KEY_LEN \<Longrightarrow> wf_prekeys (insert_prekey P e now k s t)"
  by (auto simp: wf_prekeys_def insert_prekey_def keyed_insert)

lemma map_of_insert:
  "map_of t k = None \<Longrightarrow> map_of (insert_prekey P e now k s t) = (map_of t)(k \<mapsto> \<lparr> pr_private_key = s, pr_public_key = x25519_public P s,
     pr_exp = i64_secs e, pr_created_at = i64_secs now, pr_wire_record = [], pr_consumed_at = None \<rparr>)"
  by (auto simp: insert_prekey_def map_add_def fun_eq_iff split: option.splits)

lemma generate_loop_ok:
  assumes "wf_prekeys t" "\<forall>s \<in> set secrets. length s = X25519_KEY_LEN" "generate_loop P e now rand p secrets t = Inr (out, t')"
  shows "wf_prekeys t' \<and> map gp_private_key out = secrets \<and> distinct (map (pk_id \<circ> gp_prekey) out) \<and>
    (\<forall>g \<in> set out. map_of t (pk_id (gp_prekey g)) = None \<and> pk_exp (gp_prekey g) = e \<and>
       pk_public_key (gp_prekey g) = x25519_public P (gp_private_key g) \<and>
       (\<exists>r. map_of t' (pk_id (gp_prekey g)) = Some r \<and> pr_private_key r = gp_private_key g \<and> pr_exp r = i64_secs e)) \<and>
    (\<forall>k r. map_of t k = Some r \<longrightarrow> map_of t' k = Some r) \<and> secret_keys t' = secret_keys t \<union> set secrets"
  using assms
proof (induction secrets arbitrary: p t out)
  case (Cons s secrets)
  obtain k q out1 where a: "allocate_prekey_id MAX_PREKEY_ID_RETRIES rand p t = Inr (k, q)"
    and l: "generate_loop P e now rand q secrets (insert_prekey P e now k s t) = Inr (out1, t')"
    and out: "out = \<lparr> gp_prekey = \<lparr> pk_id = k, pk_public_key = x25519_public P s, pk_exp = e \<rparr>, gp_private_key = s \<rparr> # out1"
    using Cons.prems(3) by (auto simp: andThen_Inr)
  have k: "map_of t k = None" using allocate_fresh [OF a] by blast
  let ?t = "insert_prekey P e now k s t"
  have wf: "wf_prekeys ?t" using wf_insert [OF Cons.prems(1) k] Cons.prems(2) by simp
  note ih = Cons.IH [OF wf _ l]
  have old: "map_of t j = Some r \<Longrightarrow> map_of ?t j = Some r" for j r using k by (auto simp: map_of_insert)
  have new: "map_of ?t k = Some \<lparr> pr_private_key = s, pr_public_key = x25519_public P s, pr_exp = i64_secs e,
      pr_created_at = i64_secs now, pr_wire_record = [], pr_consumed_at = None \<rparr>" using k by (simp add: map_of_insert)
  have sec: "secret_keys ?t = insert s (secret_keys t)" by (auto simp: secret_keys_def insert_prekey_def)
  have none: "map_of ?t j = None \<Longrightarrow> map_of t j = None \<and> j \<noteq> k" for j using k by (auto simp: map_of_insert split: if_splits)
  show ?case using ih Cons.prems(2) old new sec none k unfolding out by (auto 0 3)
qed auto

section \<open>The store over time\<close>

datatype prekey_op =
    Generate u64 u64 "nat \<Rightarrow> u32" "bytes list"
  | RecordWire u32 rstr
  | Consume u64 u32
  | Cleanup u64

text \<open>One operation and whether the database executes it.\<close>

fun prekey_step :: "prims \<Rightarrow> bool \<times> prekey_op \<Rightarrow> prekey_table \<Rightarrow> prekey_table" where
  "prekey_step P (works, Generate now ttl rand secrets) t = snd (generate_pool P works now ttl rand secrets t)"
| "prekey_step P (works, RecordWire prekey_id wire) t = snd (record_wire works prekey_id wire t)"
| "prekey_step P (works, Consume now prekey_id) t = snd (consume works now prekey_id t)"
| "prekey_step P (works, Cleanup now) t = snd (prekey_cleanup_expired works now t)"

text \<open>The secret keys that an operation draws.\<close>

fun drawn :: "bool \<times> prekey_op \<Rightarrow> bytes set" where
  "drawn (works, Generate now ttl rand secrets) = set secrets"
| "drawn _ = {}"

lemma update_row_props:
  "map fst (update_row k f t) = map fst t"
  "map_of (update_row k f t) j = (if j = k then map_option f (map_of t j) else map_of t j)"
  by (induction t) (auto simp: update_row_def)

lemma update_row_secrets:
  assumes "\<And>r. pr_private_key (f r) = pr_private_key r"
  shows "secret_keys (update_row k f t) = secret_keys t" "wf_prekeys (update_row k f t) = wf_prekeys t"
proof -
  have "map (pr_private_key \<circ> snd) (update_row k f t) = map (pr_private_key \<circ> snd) t"
    by (induction t) (auto simp: update_row_def assms)
  then show same: "secret_keys (update_row k f t) = secret_keys t" unfolding secret_keys_def set_map [symmetric] by simp
  show "wf_prekeys (update_row k f t) = wf_prekeys t"
    unfolding wf_prekeys_secrets keyed_def update_row_props(1) same ..
qed

lemma delete_secrets:
  shows "secret_keys (delete_where Q t) \<subseteq> secret_keys t" "wf_prekeys t \<Longrightarrow> wf_prekeys (delete_where Q t)"
proof -
  show "secret_keys (delete_where Q t) \<subseteq> secret_keys t" by (force simp: secret_keys_def delete_where_def)
  then show "wf_prekeys t \<Longrightarrow> wf_prekeys (delete_where Q t)" by (auto simp: wf_prekeys_secrets keyed_delete_where)
qed

lemma consume_secrets:
  "secret_keys (snd (consume works now k t)) \<subseteq> secret_keys t" "wf_prekeys t \<Longrightarrow> wf_prekeys (snd (consume works now k t))"
  using delete_secrets [where Q = "\<lambda>j _. j = k" and t = "update_row k (\<lambda>r. r\<lparr>pr_consumed_at := Some (i64_secs now)\<rparr>) t"]
  by (auto simp: consume_def Let_def update_row_secrets)

lemma generate_pool_wf:
  assumes "wf_prekeys t" "\<forall>s \<in> set secrets. length s = X25519_KEY_LEN"
  shows "wf_prekeys (snd (generate_pool P works now ttl rand secrets t)) \<and>
    secret_keys (snd (generate_pool P works now ttl rand secrets t)) \<subseteq> secret_keys t \<union> set secrets"
  using generate_loop_ok [OF assms] assms(1) by (force simp: generate_pool_def Let_def split: sum.splits)

lemma step_secrets:
  assumes "wf_prekeys t" "\<forall>s \<in> drawn x. length s = X25519_KEY_LEN"
  shows "wf_prekeys (prekey_step P x t) \<and> secret_keys (prekey_step P x t) \<subseteq> secret_keys t \<union> drawn x"
  using assms delete_secrets consume_secrets generate_pool_wf
  by (cases "(P, x, t)" rule: prekey_step.cases)
     (auto simp: record_wire_def prekey_cleanup_expired_def update_row_secrets)

lemma run_secrets:
  "wf_prekeys t \<Longrightarrow> \<forall>x \<in> set ops. \<forall>s \<in> drawn x. length s = X25519_KEY_LEN \<Longrightarrow>
   wf_prekeys (fold (prekey_step P) ops t) \<and> secret_keys (fold (prekey_step P) ops t) \<subseteq> secret_keys t \<union> \<Union> (drawn ` set ops)"
proof (induction ops arbitrary: t)
  case (Cons x ops)
  then show ?case using Cons.IH [of "prekey_step P x t"] step_secrets [OF Cons.prems(1), of x P] by (simp, blast)
qed simp

lemma get_private_key_secret: "get_private_key works now k t = Inr (Some s) \<Longrightarrow> s \<in> secret_keys t"
  by (force simp: get_private_key_def secret_keys_def dest: map_of_SomeD split: if_splits option.splits)

section \<open>Properties\<close>

text \<open>C40: Forward secrecy of consumed prekeys. Consuming a prekey reports whether there was one and removes it; from
  then on, whatever operations follow, in any order and with any failures of the database, no lookup under
  any id returns its secret key, provided that no other row holds the same key and it is never
  drawn again. Every lookup in every state returns a key of 32 bytes or none.\<close>

theorem prekey_forward_secrecy:
  assumes "wf_prekeys t" "map_of t k = Some r" "\<forall>j r'. j \<noteq> k \<and> map_of t j = Some r' \<longrightarrow> pr_private_key r' \<noteq> pr_private_key r"
    and "\<forall>x \<in> set ops. \<forall>s \<in> drawn x. length s = X25519_KEY_LEN \<and> s \<noteq> pr_private_key r"
  shows "fst (consume True now k t) = Inr True \<and>
    (\<forall>now' j. get_private_key True now' j (fold (prekey_step P) ops (snd (consume True now k t))) \<noteq> Inr (Some (pr_private_key r)) \<and>
      (\<exists>o1. get_private_key True now' j (fold (prekey_step P) ops (snd (consume True now k t))) = Inr o1))"
proof -
  let ?f = "\<lambda>r. r\<lparr>pr_consumed_at := Some (i64_secs now)\<rparr>" and ?t = "snd (consume True now k t)"
  let ?after = "fold (prekey_step P) ops ?t"
  have wf: "wf_prekeys ?t" using consume_secrets(2) [OF assms(1)] .
  have keyed: "keyed t" "keyed (update_row k ?f t)"
    using assms(1) update_row_secrets(2) [of ?f k t] by (simp_all add: wf_prekeys_def)
  have "pr_private_key r \<notin> secret_keys ?t"
  proof
    assume "pr_private_key r \<in> secret_keys ?t"
    then obtain j r' where "(j, r') \<in> set ?t" "pr_private_key r' = pr_private_key r" by (auto simp: secret_keys_def)
    moreover have "keyed ?t" using wf by (simp add: wf_prekeys_def)
    ultimately have m: "map_of ?t j = Some r'" "pr_private_key r' = pr_private_key r" by (auto simp: keyed_def)
    then have "j \<noteq> k \<and> map_of t j = Some r'"
      using keyed(2) by (auto simp: consume_def Let_def map_of_delete_where update_row_props split: option.splits if_splits)
    with assms(3) m(2) show False by blast
  qed
  moreover have "wf_prekeys ?after" "secret_keys ?after \<subseteq> secret_keys ?t \<union> \<Union> (drawn ` set ops)"
    using run_secrets [OF wf, of ops P] assms(4) by blast+
  ultimately have "pr_private_key r \<notin> secret_keys ?after" using assms(4) by blast
  then have "get_private_key True now' j ?after \<noteq> Inr (Some (pr_private_key r))" for now' j
    using get_private_key_secret by blast
  moreover have "\<exists>o1. get_private_key True now' j ?after = Inr o1" for now' j
    using \<open>wf_prekeys ?after\<close> by (force simp: get_private_key_def wf_prekeys_def dest: map_of_SomeD split: option.splits)
  moreover have "fst (consume True now k t) = Inr True"
  proof -
    have "(k, r) \<in> set t" using assms(2) by (rule map_of_SomeD)
    then have "(k, ?f r) \<in> set (update_row k ?f t)" by (force simp: update_row_def)
    then have "0 < count_where (\<lambda>j _. j = k) (update_row k ?f t)"
      unfolding count_where_def length_greater_0_conv filter_empty_conv by auto
    then show ?thesis by (simp add: consume_def Let_def)
  qed
  ultimately show ?thesis by blast
qed

text \<open>A generated pool is complete or absent. When \<open>generate_pool\<close> succeeds, it returns one prekey per secret
  key drawn, with distinct ids that were free, its public key and expiry; each secret key is
  found under its id until the expiry, and no earlier prekey changes; when it fails the table is
  unchanged. It can succeed with an id equal to 0, the id that means no prekey.\<close>

theorem prekey_pool_atomic:
  assumes "wf_prekeys t" "\<forall>s \<in> set secrets. length s = X25519_KEY_LEN"
  shows "(case generate_pool P works now ttl rand secrets t of
      (Inl _, t') \<Rightarrow> t' = t
    | (Inr out, t') \<Rightarrow> wf_prekeys t' \<and> map gp_private_key out = secrets \<and> distinct (map (pk_id \<circ> gp_prekey) out) \<and>
        (\<forall>g \<in> set out. map_of t (pk_id (gp_prekey g)) = None \<and> pk_exp (gp_prekey g) = sat_add now ttl \<and>
          pk_public_key (gp_prekey g) = x25519_public P (gp_private_key g) \<and>
          (\<forall>now'. get_private_key True now' (pk_id (gp_prekey g)) t' =
             Inr (if i64_secs now' < i64_secs (sat_add now ttl) then Some (gp_private_key g) else None))) \<and>
        (\<forall>k r. map_of t k = Some r \<longrightarrow> map_of t' k = Some r)) \<and>
    (rand 0 = 0 \<and> secrets = [s] \<and> map_of t 0 = None \<longrightarrow>
      (\<exists>g. fst (generate_pool P True now ttl rand secrets t) = Inr [g] \<and> pk_id (gp_prekey g) = 0))"
proof -
  have zero: "\<exists>g. fst (generate_pool P True now ttl rand [s] t) = Inr [g] \<and> pk_id (gp_prekey g) = 0"
    if "rand 0 = 0" "map_of t 0 = None"
  proof -
    have "allocate_prekey_id MAX_PREKEY_ID_RETRIES rand 0 t = Inr (0, 1)"
      using that allocate_prekey_id.simps(2) [of 15 rand 0 t] by (simp add: MAX_PREKEY_ID_RETRIES_def)
    then show ?thesis by (simp add: generate_pool_def Let_def)
  qed
  show ?thesis
  proof (cases "works \<and> (\<exists>out t'. generate_loop P (sat_add now ttl) now rand 0 secrets t = Inr (out, t'))")
    case True
    then obtain out t' where g: "works" "generate_loop P (sat_add now ttl) now rand 0 secrets t = Inr (out, t')" by blast
    note ok = generate_loop_ok [OF assms g(2)]
    have "get_private_key True now' (pk_id (gp_prekey x)) t' =
        Inr (if i64_secs now' < i64_secs (sat_add now ttl) then Some (gp_private_key x) else None)" if x: "x \<in> set out" for now' x
    proof -
      have "gp_private_key x \<in> set secrets" using ok x by (metis in_set_conv_nth length_map nth_map nth_mem)
      then have "length (gp_private_key x) = X25519_KEY_LEN" using assms(2) by blast
      moreover obtain r where "map_of t' (pk_id (gp_prekey x)) = Some r" "pr_private_key r = gp_private_key x"
        "pr_exp r = i64_secs (sat_add now ttl)" using ok x by blast
      ultimately show ?thesis by (simp add: get_private_key_def)
    qed
    then show ?thesis using ok zero g by (auto simp: generate_pool_def Let_def)
  next
    case False
    then have "\<exists>e. generate_pool P works now ttl rand secrets t = (Inl e, t)"
      by (auto simp: generate_pool_def Let_def split: sum.splits)
    then show ?thesis using zero by auto
  qed
qed

theorem prekey_pool_atomic_witness:
  "\<exists>g. fst (generate_pool demo_prims True 5 60 (\<lambda>_. 0) [replicate 32 1] []) = Inr [g] \<and> pk_id (gp_prekey g) = 0"
  using prekey_pool_atomic [where t = "[]" and secrets = "[replicate 32 1]" and P = demo_prims and now = 5 and ttl = 60 and
      rand = "\<lambda>_. 0" and s = "replicate 32 1" and works = True]
  by (simp add: wf_prekeys_def X25519_KEY_LEN_def)

definition demo_row :: prekey_row where
  "demo_row = \<lparr> pr_private_key = replicate 32 7, pr_public_key = [], pr_exp = 90, pr_created_at = 0, pr_wire_record = [],
     pr_consumed_at = None \<rparr>"

theorem prekey_forward_secrecy_witness:
  "get_private_key True 2 3 [(3, demo_row)] = Inr (Some (replicate 32 7)) \<and>
   get_private_key True 2 3 (fold (prekey_step demo_prims) [(True, Generate 1 60 (\<lambda>_. 3) [replicate 32 8])]
     (snd (consume True 1 3 [(3, demo_row)]))) \<noteq> Inr (Some (replicate 32 7))"
proof -
  have "wf_prekeys [(3, demo_row)]" by (simp add: wf_prekeys_def keyed_def demo_row_def X25519_KEY_LEN_def)
  moreover have "get_private_key True 2 3 [(3, demo_row)] = Inr (Some (replicate 32 7))"
    by (simp add: get_private_key_def demo_row_def i64_secs_def I64_MAX_def X25519_KEY_LEN_def)
  moreover have "replicate 32 7 \<noteq> (replicate 32 8 :: bytes)"
  proof
    assume "replicate 32 7 = (replicate 32 8 :: bytes)"
    then have "hd (replicate 32 7) = hd (replicate 32 8 :: bytes)" by simp
    then show False by (simp add: hd_replicate)
  qed
  ultimately show ?thesis
    using prekey_forward_secrecy [where t = "[(3, demo_row)]" and k = 3 and r = demo_row and
      ops = "[(True, Generate 1 60 (\<lambda>_. 3) [replicate 32 8])]" and now = 1 and P = demo_prims]
    by (simp add: demo_row_def X25519_KEY_LEN_def)
qed

end
