(* ===== verification/ReplayCache.thy ===== *)
theory ReplayCache
  imports Tables
begin

text \<open>
  The replay cache of \<open>replay_cache.rs\<close>: the pairs of a sender key and a message id that have been
  delivered, each with its expiry. The locale \<open>seen_set\<close> states the cache as a set that forgets
  at known times. A further section has \<open>check_and_record\<close> as the critical sections that it runs under the lock of
  the connection, and interleaves its callers.
\<close>

section \<open>The code\<close>

type_synonym replay_table = "(bytes \<times> bytes, int) rows"

definition DEFAULT_TTL_SECS :: u64 where
  "DEFAULT_TTL_SECS = 3600"

record replay_cache =
  conn :: replay_table
  default_ttl_secs :: u64

definition replay_with_ttl :: "replay_table \<Rightarrow> u64 \<Rightarrow> replay_cache" where
  "replay_with_ttl t ttl = \<lparr> conn = t, default_ttl_secs = ttl \<rparr>"

definition replay_new :: "replay_table \<Rightarrow> replay_cache" where
  "replay_new t = replay_with_ttl t DEFAULT_TTL_SECS"

text \<open>\<open>DELETE FROM replay_cache WHERE expiry <= now\<close>.\<close>

definition purge_locked :: "bool \<Rightarrow> u64 \<Rightarrow> replay_cache \<Rightarrow> (storage_error + nat) \<times> replay_cache" where
  "purge_locked works now c =
     (if works then
        (Inr (count_where (\<lambda>_ expiry. expiry \<le> i64_secs now) (conn c)),
         c\<lparr>conn := delete_where (\<lambda>_ expiry. expiry \<le> i64_secs now) (conn c)\<rparr>)
      else (Inl (Sqlite ''delete''), c))"

definition has_seen :: "bool \<times> bool \<Rightarrow> u64 \<Rightarrow> bytes \<Rightarrow> bytes \<Rightarrow> replay_cache \<Rightarrow> (storage_error + bool) \<times> replay_cache" where
  "has_seen works now sender_spk msg_id c =
     (case purge_locked (fst works) now c of
        (Inl e, c) \<Rightarrow> (Inl e, c)
      | (Inr _, c) \<Rightarrow>
          let exists = (if snd works then
                          (case map_of (conn c) (sender_spk, msg_id) of
                             None \<Rightarrow> None | Some expiry \<Rightarrow> if i64_secs now < expiry then Some (1 :: int) else None)
                        else None)
          in (Inr (exists \<noteq> None), c))"

definition replay_record :: "bool \<times> bool \<Rightarrow> u64 \<Rightarrow> bytes \<Rightarrow> bytes \<Rightarrow> u64 option \<Rightarrow> replay_cache \<Rightarrow>
    (storage_error + unit) \<times> replay_cache" where
  "replay_record works now sender_spk msg_id expiry c =
     (let e = unwrap_or expiry (sat_add now (default_ttl_secs c)) in
      case purge_locked (fst works) now c of
        (Inl e, c) \<Rightarrow> (Inl e, c)
      | (Inr _, c) \<Rightarrow>
          if snd works then (Inr (), c\<lparr>conn := upsert (sender_spk, msg_id) (i64_secs e) (\<lambda>_. i64_secs e) (conn c)\<rparr>)
          else (Inl (Sqlite ''insert''), c))"

definition check_and_record :: "(bool \<times> bool) \<times> (bool \<times> bool) \<Rightarrow> u64 \<Rightarrow> u64 \<Rightarrow> bytes \<Rightarrow> bytes \<Rightarrow> u64 option \<Rightarrow> replay_cache \<Rightarrow>
    (storage_error + bool) \<times> replay_cache" where
  "check_and_record works now1 now2 sender_spk msg_id expiry c =
     (case has_seen (fst works) now1 sender_spk msg_id c of
        (Inl e, c) \<Rightarrow> (Inl e, c)
      | (Inr True, c) \<Rightarrow> (Inr False, c)
      | (Inr False, c) \<Rightarrow>
          (case replay_record (snd works) now2 sender_spk msg_id expiry c of
             (Inl e, c) \<Rightarrow> (Inl e, c)
           | (Inr _, c) \<Rightarrow> (Inr True, c)))"

definition replay_cleanup_expired :: "bool \<Rightarrow> u64 \<Rightarrow> replay_cache \<Rightarrow> (storage_error + u64) \<times> replay_cache" where
  "replay_cleanup_expired works now c =
     (case purge_locked works now c of (Inl e, c) \<Rightarrow> (Inl e, c) | (Inr n, c) \<Rightarrow> (Inr (of_nat n), c))"

definition replay_size :: "bool \<times> bool \<Rightarrow> u64 \<Rightarrow> replay_cache \<Rightarrow> (storage_error + u64) \<times> replay_cache" where
  "replay_size works now c =
     (case purge_locked (fst works) now c of
        (Inl e, c) \<Rightarrow> (Inl e, c)
      | (Inr _, c) \<Rightarrow>
          if snd works then (Inr (of_nat (count_where (\<lambda>_ expiry. i64_secs now < expiry) (conn c))), c)
          else (Inl (Sqlite ''select''), c))"

section \<open>A set that forgets\<close>

locale seen_set =
  fixes inv :: "'s \<Rightarrow> bool"
    and live :: "u64 \<Rightarrow> 's \<Rightarrow> 'k set"
    and seen :: "u64 \<Rightarrow> 'k \<Rightarrow> 's \<Rightarrow> bool \<times> 's"
    and remember :: "u64 \<Rightarrow> u64 \<Rightarrow> 'k \<Rightarrow> 's \<Rightarrow> 's"
    and lasts :: "u64 \<Rightarrow> u64 \<Rightarrow> bool"
  assumes seen_ok: "inv s \<Longrightarrow> fst (seen now k s) = (k \<in> live now s) \<and> inv (snd (seen now k s)) \<and>
      (\<forall>t \<ge> now. live t (snd (seen now k s)) = live t s)"
    and remember_ok: "inv s \<Longrightarrow> inv (remember now e k s) \<and>
      (\<forall>t \<ge> now. live t (remember now e k s) = (if lasts e t then insert k (live t s) else live t s - {k}))"
    and live_anti: "t \<le> t' \<Longrightarrow> live t' s \<subseteq> live t s"
begin

text \<open>One offer of an item, at a time and with an expiry: taken unless it has been seen.\<close>

definition offer :: "u64 \<times> u64 \<times> 'k \<Rightarrow> 's \<Rightarrow> bool \<times> 's" where
  "offer x s = (case x of (now, e, k) \<Rightarrow>
     (case seen now k s of (True, s) \<Rightarrow> (False, s) | (False, s) \<Rightarrow> (True, remember now e k s)))"

fun offers :: "(u64 \<times> u64 \<times> 'k) list \<Rightarrow> 's \<Rightarrow> bool list \<times> 's" where
  "offers [] s = ([], s)"
| "offers (x # xs) s = (case offer x s of (b, s) \<Rightarrow> (case offers xs s of (bs, s) \<Rightarrow> (b # bs, s)))"

lemma offer_ok:
  assumes "inv s"
  shows "inv (snd (offer (now, e, k) s)) \<and> fst (offer (now, e, k) s) = (k \<notin> live now s) \<and>
    (\<forall>t \<ge> now. live t (snd (offer (now, e, k) s)) =
      (if k \<in> live now s then live t s else if lasts e t then insert k (live t s) else live t s - {k}))"
  using seen_ok [OF assms, of now k] remember_ok [of "snd (seen now k s)" now e k]
  by (auto simp: offer_def split: prod.splits bool.splits)

lemma offers_Cons: "fst (offers (x # xs) s) = fst (offer x s) # fst (offers xs (snd (offer x s)))"
  by (simp add: case_prod_beta)

lemma length_offers [simp]: "length (fst (offers xs s)) = length xs"
  by (induction xs arbitrary: s) (simp_all add: case_prod_beta)

text \<open>An item that is live at the end of a run of offers is refused throughout the run.\<close>

lemma offers_refused:
  "inv s \<Longrightarrow> k \<in> live t1 s \<Longrightarrow> list_all (\<lambda>x. fst x \<le> t1) xs \<Longrightarrow> i < length xs \<Longrightarrow> snd (snd (xs ! i)) = k \<Longrightarrow>
   \<not> fst (offers xs s) ! i"
proof (induction xs arbitrary: s i)
  case (Cons x xs)
  obtain now e k' where x: "x = (now, e, k')" by (cases x)
  note o = offer_ok [OF Cons.prems(1), of now e k']
  have now: "now \<le> t1" using Cons.prems(3) by (simp add: x)
  then have "k \<in> live now s" using live_anti Cons.prems(2) by blast
  with o now Cons.prems(2) have "k \<in> live t1 (snd (offer x s))" "k' = k \<longrightarrow> \<not> fst (offer x s)" "inv (snd (offer x s))"
    by (auto simp: x)
  then show ?case using Cons.IH [of "snd (offer x s)"] Cons.prems(3-5)
    unfolding offers_Cons by (cases i) (simp_all add: x)
qed simp

text \<open>An item is taken a second time only after its first expiry.\<close>

lemma offers_once:
  "inv s \<Longrightarrow> sorted (map fst xs) \<Longrightarrow> i < j \<Longrightarrow> j < length xs \<Longrightarrow> snd (snd (xs ! i)) = snd (snd (xs ! j)) \<Longrightarrow>
   fst (offers xs s) ! i \<Longrightarrow> fst (offers xs s) ! j \<Longrightarrow> \<not> lasts (fst (snd (xs ! i))) (fst (xs ! j))"
proof (induction xs arbitrary: s i j)
  case (Cons x xs)
  obtain now e k where x: "x = (now, e, k)" by (cases x)
  obtain j' where j: "j = Suc j'" using Cons.prems(3) by (cases j) simp_all
  note o = offer_ok [OF Cons.prems(1), of now e k]
  show ?case
  proof (cases i)
    case 0
    let ?t = "fst (xs ! j')"
    have later: "now \<le> ?t" "j' < length xs" using Cons.prems(2,4) j by (simp_all add: x)
    have upto: "list_all (\<lambda>x. fst x \<le> ?t) (take (Suc j') xs)"
      using Cons.prems(2) later(2) sorted_iff_nth_mono [of "map fst xs"] by (auto simp: x list_all_length)
    have "\<not> lasts e ?t"
    proof
      assume l: "lasts e ?t"
      have "k \<notin> live now s" using Cons.prems(6) 0 o unfolding offers_Cons by (simp add: x)
      with o l later have "k \<in> live ?t (snd (offer x s))" "inv (snd (offer x s))" by (simp_all add: x)
      from offers_refused [OF this(2,1) upto, of j']
      have "\<not> fst (offers (take (Suc j') xs) (snd (offer x s))) ! j'"
        using Cons.prems(5) 0 j later by (simp add: x)
      moreover have "fst (offers (take n ys) s) = take n (fst (offers ys s))" for n ys s
        by (induction ys arbitrary: n s) (auto simp: take_Cons case_prod_beta split: nat.splits)
      ultimately show False using Cons.prems(7) j later unfolding offers_Cons by simp
    qed
    then show ?thesis using 0 j by (simp add: x)
  next
    case (Suc i')
    then show ?thesis using Cons.IH [of "snd (offer x s)" i' j'] Cons.prems j o unfolding offers_Cons by (simp add: x)
  qed
qed simp

end

section \<open>The cache is such a set\<close>

definition live_pairs :: "u64 \<Rightarrow> replay_cache \<Rightarrow> (bytes \<times> bytes) set" where
  "live_pairs t c = {k. \<exists>e. map_of (conn c) k = Some e \<and> i64_secs t < e}"

definition wf_replay :: "replay_cache \<Rightarrow> bool" where
  "wf_replay c \<longleftrightarrow> keyed (conn c)"

definition seen_now :: "u64 \<Rightarrow> bytes \<times> bytes \<Rightarrow> replay_cache \<Rightarrow> bool \<times> replay_cache" where
  "seen_now now k c = (case has_seen (True, True) now (fst k) (snd k) c of (Inr b, c) \<Rightarrow> (b, c) | (Inl _, c) \<Rightarrow> (False, c))"

definition record_now :: "u64 \<Rightarrow> u64 \<Rightarrow> bytes \<times> bytes \<Rightarrow> replay_cache \<Rightarrow> replay_cache" where
  "record_now now e k c = snd (replay_record (True, True) now (fst k) (snd k) (Some e) c)"

lemma purge_live:
  assumes "wf_replay c" "now \<le> t"
  shows "live_pairs t (c\<lparr>conn := delete_where (\<lambda>_ e. e \<le> i64_secs now) (conn c)\<rparr>) = live_pairs t c"
  using assms i64_secs_mono [OF assms(2)]
  by (auto simp: live_pairs_def wf_replay_def map_of_delete_where split: option.splits)

lemma wf_purge: "wf_replay c \<Longrightarrow> wf_replay (c\<lparr>conn := delete_where P (conn c)\<rparr>)"
  by (simp add: wf_replay_def keyed_delete_where)

lemma has_seen_ok:
  assumes "wf_replay c"
  shows "has_seen (True, True) now spk mid c =
    (Inr ((spk, mid) \<in> live_pairs now c), c\<lparr>conn := delete_where (\<lambda>_ e. e \<le> i64_secs now) (conn c)\<rparr>)"
  using assms
  by (auto simp: has_seen_def purge_locked_def live_pairs_def wf_replay_def map_of_delete_where not_le split: option.splits)

lemma replay_record_ok:
  "replay_record (True, True) now spk mid expiry c =
    (Inr (), c\<lparr>conn := upsert (spk, mid) (i64_secs (unwrap_or expiry (sat_add now (default_ttl_secs c))))
       (\<lambda>_. i64_secs (unwrap_or expiry (sat_add now (default_ttl_secs c)))) (delete_where (\<lambda>_ e. e \<le> i64_secs now) (conn c))\<rparr>)"
  by (simp add: replay_record_def purge_locked_def Let_def)

lemma record_live:
  assumes "wf_replay c" "now \<le> t"
  shows "live_pairs t (record_now now e k c) =
    (if i64_secs t < i64_secs e then insert k (live_pairs t c) else live_pairs t c - {k})"
proof -
  let ?c = "c\<lparr>conn := delete_where (\<lambda>_ e. e \<le> i64_secs now) (conn c)\<rparr>"
  have "live_pairs t (record_now now e k c) =
      (if i64_secs t < i64_secs e then insert k (live_pairs t ?c) else live_pairs t ?c - {k})"
    by (auto simp: record_now_def replay_record_ok live_pairs_def map_of_upsert unwrap_or_def split: option.splits if_splits)
  then show ?thesis unfolding purge_live [OF assms] .
qed

interpretation replay: seen_set wf_replay live_pairs seen_now record_now "\<lambda>e t. i64_secs t < i64_secs e"
proof unfold_locales
  fix c now and k :: "bytes \<times> bytes"
  assume c: "wf_replay c"
  show "fst (seen_now now k c) = (k \<in> live_pairs now c) \<and> wf_replay (snd (seen_now now k c)) \<and>
      (\<forall>t \<ge> now. live_pairs t (snd (seen_now now k c)) = live_pairs t c)"
    using c by (simp add: seen_now_def has_seen_ok purge_live wf_purge)
next
  fix c now e and k :: "bytes \<times> bytes"
  assume c: "wf_replay c"
  then have "wf_replay (record_now now e k c)"
    by (simp add: record_now_def replay_record_ok wf_replay_def keyed_upsert keyed_delete_where)
  with c show "wf_replay (record_now now e k c) \<and> (\<forall>t \<ge> now. live_pairs t (record_now now e k c) =
      (if i64_secs t < i64_secs e then insert k (live_pairs t c) else live_pairs t c - {k}))"
    by (simp add: record_live)
next
  fix t t' :: u64 and c
  assume "t \<le> t'"
  then show "live_pairs t' c \<subseteq> live_pairs t c" using i64_secs_mono [of t t'] by (auto simp: live_pairs_def)
qed

text \<open>A sequence of checks, each a time, an expiry and a pair, as long as the database works.\<close>

fun run_checks :: "(u64 \<times> u64 \<times> bytes \<times> bytes) list \<Rightarrow> replay_cache \<Rightarrow> (storage_error + bool) list" where
  "run_checks [] c = []"
| "run_checks ((now, e, spk, mid) # xs) c =
     (case check_and_record ((True, True), (True, True)) now now spk mid (Some e) c of (r, c) \<Rightarrow> r # run_checks xs c)"

lemma check_offer:
  assumes "wf_replay c"
  shows "check_and_record ((True, True), (True, True)) now now spk mid (Some e) c =
    (case replay.offer (now, e, spk, mid) c of (b, c) \<Rightarrow> (Inr b, c))"
  by (simp add: check_and_record_def replay.offer_def seen_now_def record_now_def has_seen_ok [OF assms] replay_record_ok
      split: bool.split)

lemma run_checks_offers: "wf_replay c \<Longrightarrow> run_checks xs c = map Inr (fst (replay.offers xs c))"
proof (induction xs arbitrary: c)
  case (Cons x xs)
  obtain now e spk mid where x: "x = (now, e, spk, mid)" by (cases x)
  have "wf_replay (snd (replay.offer x c))" using replay.offer_ok [OF Cons.prems, of now e "(spk, mid)"] by (simp add: x)
  then show ?case using Cons.IH unfolding replay.offers_Cons by (simp add: x check_offer [OF Cons.prems] case_prod_beta)
qed simp

section \<open>Callers of one cache\<close>

text \<open>
  An operation as its callers share the cache: it has a result, or it takes the lock of the connection for a section of its
  work and gives it back, and goes on with what the section returned. \<open>has_seen\<close> and \<open>record\<close> each take the lock once.
\<close>

datatype 'r sections = Done 'r | Locked "replay_cache \<Rightarrow> 'r sections \<times> replay_cache"

definition check_and_record_sections ::
    "(bool \<times> bool) \<times> (bool \<times> bool) \<Rightarrow> u64 \<Rightarrow> u64 \<Rightarrow> bytes \<Rightarrow> bytes \<Rightarrow> u64 option \<Rightarrow> (storage_error + bool) sections" where
  "check_and_record_sections works now1 now2 sender_spk msg_id expiry =
     Locked (\<lambda>c. case has_seen (fst works) now1 sender_spk msg_id c of
        (Inl e, c) \<Rightarrow> (Done (Inl e), c)
      | (Inr True, c) \<Rightarrow> (Done (Inr False), c)
      | (Inr False, c) \<Rightarrow>
          (Locked (\<lambda>c. case replay_record (snd works) now2 sender_spk msg_id expiry c of
             (Inl e, c) \<Rightarrow> (Done (Inl e), c)
           | (Inr _, c) \<Rightarrow> (Done (Inr True), c)), c))"

text \<open>An operation that runs alone.\<close>

primrec run_alone :: "'r sections \<Rightarrow> replay_cache \<Rightarrow> 'r \<times> replay_cache" where
  "run_alone (Done r) = (\<lambda>c. (r, c))"
| "run_alone (Locked f) = (\<lambda>c. case (map_prod run_alone id \<circ> f) c of (go, c) \<Rightarrow> go c)"

text \<open>Any number of callers: caller \<open>i\<close> runs its next section.\<close>

inductive lock_step :: "nat \<Rightarrow> replay_cache \<times> 'r sections list \<Rightarrow> replay_cache \<times> 'r sections list \<Rightarrow> bool" where
  "i < length ps \<Longrightarrow> ps ! i = Locked f \<Longrightarrow> f c = (p, c') \<Longrightarrow> lock_step i (c, ps) (c', ps[i := p])"

inductive_cases lock_stepE: "lock_step i (c, ps) (c', ps')"

definition interleaved :: "replay_cache \<times> 'r sections list \<Rightarrow> replay_cache \<times> 'r sections list \<Rightarrow> bool" where
  "interleaved = (\<lambda>s s'. \<exists>i. lock_step i s s')\<^sup>*\<^sup>*"

lemma interleaved_step: "interleaved s s' \<Longrightarrow> lock_step i s' s'' \<Longrightarrow> interleaved s s''"
  unfolding interleaved_def by (rule rtranclp.rtrancl_into_rtrancl) blast+

lemma sections_alone:
  "run_alone (check_and_record_sections works now1 now2 spk mid expiry) c = check_and_record works now1 now2 spk mid expiry c"
  by (auto simp: check_and_record_sections_def check_and_record_def split: prod.split sum.split bool.split)

abbreviation storing :: "u64 \<Rightarrow> bytes \<Rightarrow> bytes \<Rightarrow> u64 \<Rightarrow> (storage_error + bool) sections" where
  "storing now spk mid e \<equiv> Locked (\<lambda>c. case replay_record (True, True) now spk mid (Some e) c of
     (Inl e, c) \<Rightarrow> (Done (Inl e), c) | (Inr _, c) \<Rightarrow> (Done (Inr True), c))"

abbreviation asking :: "u64 \<Rightarrow> u64 \<Rightarrow> bytes \<Rightarrow> bytes \<Rightarrow> u64 \<Rightarrow> (storage_error + bool) sections" where
  "asking now1 now2 spk mid e \<equiv> check_and_record_sections ((True, True), (True, True)) now1 now2 spk mid (Some e)"

lemma check_step:
  assumes "wf_replay c" "i < length ps" "ps ! i = asking now1 now2 spk mid e"
  shows "lock_step i (c, ps) (snd (seen_now now1 (spk, mid) c),
    ps[i := if (spk, mid) \<in> live_pairs now1 c then Done (Inr False) else storing now2 spk mid e])"
  using assms(2) assms(3) [unfolded check_and_record_sections_def]
  by (rule lock_step.intros) (simp add: has_seen_ok [OF assms(1)] seen_now_def)

lemma store_step:
  assumes "i < length ps" "ps ! i = storing now spk mid e"
  shows "lock_step i (c, ps) (record_now now e (spk, mid) c, ps[i := Done (Inr True)])"
  using assms by (rule lock_step.intros) (simp add: replay_record_ok record_now_def)

text \<open>Both callers check before either records.\<close>

lemma both_pass:
  assumes "wf_replay c" "(spk, mid) \<notin> live_pairs a1 c" "a1 \<le> b1"
  obtains c1 where "wf_replay c1"
    "interleaved (c, [asking a1 a2 spk mid e, asking b1 b2 spk mid e']) (record_now a2 e (spk, mid) c1, [Done (Inr True), storing b2 spk mid e'])"
proof -
  let ?k = "(spk, mid)"
  define ca where "ca = snd (seen_now a1 ?k c)"
  define cb where "cb = snd (seen_now b1 ?k ca)"
  have wa: "wf_replay ca" "live_pairs b1 ca = live_pairs b1 c"
    using replay.seen_ok [OF assms(1), of a1 ?k] assms(3) by (simp_all add: ca_def)
  have wb: "wf_replay cb" using replay.seen_ok [OF wa(1), of b1 ?k] by (simp add: cb_def)
  have unseen: "?k \<notin> live_pairs b1 ca" using wa(2) assms(2) replay.live_anti [OF assms(3), of c] by blast
  let ?A = "asking a1 a2 spk mid e" and ?B = "asking b1 b2 spk mid e'"
  have "interleaved (c, [?A, ?B]) (c, [?A, ?B])" by (simp add: interleaved_def)
  then have "interleaved (c, [?A, ?B]) (ca, [storing a2 spk mid e, ?B])"
    by (rule interleaved_step [where i = 0]) (use check_step [OF assms(1), of 0 "[?A, ?B]" a1 a2 spk mid e] assms(2) in \<open>simp add: ca_def\<close>)
  then have "interleaved (c, [?A, ?B]) (cb, [storing a2 spk mid e, storing b2 spk mid e'])"
    by (rule interleaved_step [where i = 1]) (use check_step [OF wa(1), of 1 "[storing a2 spk mid e, ?B]" b1 b2 spk mid e'] unseen in \<open>simp add: cb_def\<close>)
  then have "interleaved (c, [?A, ?B]) (record_now a2 e ?k cb, [Done (Inr True), storing b2 spk mid e'])"
    by (rule interleaved_step [where i = 0]) (use store_step [of 0 "[storing a2 spk mid e, storing b2 spk mid e']" a2 spk mid e cb] in simp)
  with wb show thesis by (rule that)
qed

section \<open>Properties\<close>

text \<open>C36: The cache is a set of pairs that forgets each pair at its expiry. When the database executes the statements,
  \<open>has_seen\<close> says whether the pair is in the set and leaves the set as it is at this and all later
  times; \<open>record\<close> puts the pair into the set until the new expiry, taking it out before an
  earlier one if the new expiry is earlier; \<open>size\<close> counts the set. When the lookup itself fails,
  \<open>has_seen\<close> still returns, with the answer that the pair is new.\<close>

theorem replay_cache_refines:
  assumes "wf_replay c" "now \<le> t"
  shows "(case has_seen (True, True) now spk mid c of (r, c') \<Rightarrow>
       r = Inr ((spk, mid) \<in> live_pairs now c) \<and> wf_replay c' \<and> live_pairs t c' = live_pairs t c) \<and>
    (case replay_record (True, True) now spk mid (Some e) c of (r, c') \<Rightarrow> r = Inr () \<and> wf_replay c' \<and>
       live_pairs t c' = (if i64_secs t < i64_secs e then insert (spk, mid) (live_pairs t c) else live_pairs t c - {(spk, mid)})) \<and>
    fst (replay_size (True, True) now c) = Inr (of_nat (card (live_pairs now c))) \<and>
    fst (has_seen (True, False) now spk mid c) = Inr False"
proof -
  let ?c = "c\<lparr>conn := delete_where (\<lambda>_ e. e \<le> i64_secs now) (conn c)\<rparr>"
  have "card (live_pairs now c) = count_where (\<lambda>_ e. i64_secs now < e) (conn ?c)"
    using count_where_card [of "conn ?c"] wf_purge [OF assms(1)] purge_live [OF assms(1) order_refl]
    by (simp add: live_pairs_def wf_replay_def)
  then have "fst (replay_size (True, True) now c) = Inr (of_nat (card (live_pairs now c)))"
    by (simp add: replay_size_def purge_locked_def)
  moreover have "fst (has_seen (True, False) now spk mid c) = Inr False"
    by (simp add: has_seen_def purge_locked_def)
  moreover have "wf_replay (record_now now e (spk, mid) c)"
    using assms(1) by (simp add: record_now_def replay_record_ok wf_replay_def keyed_upsert keyed_delete_where)
  moreover have "replay_record (True, True) now spk mid (Some e) c = (Inr (), record_now now e (spk, mid) c)"
    by (simp add: record_now_def replay_record_ok)
  ultimately show ?thesis
    using has_seen_ok [OF assms(1), of now spk mid] purge_live [OF assms] wf_purge [OF assms(1)]
      record_live [OF assms, of e "(spk, mid)"] by simp
qed

theorem replay_cache_refines_witness:
  "fst (has_seen (True, True) 8 [1] [2] (snd (replay_record (True, True) 5 [1] [2] (Some 9) (replay_new [])))) = Inr True"
proof -
  have w: "wf_replay (replay_new [])" by (simp add: wf_replay_def replay_new_def replay_with_ttl_def)
  let ?c = "snd (replay_record (True, True) 5 [1] [2] (Some 9) (replay_new []))"
  have r: "wf_replay ?c" "live_pairs 8 ?c = insert ([1], [2]) (live_pairs 8 (replay_new []))"
    using replay_cache_refines [OF w, of 5 8 "[1]" "[2]" 9] by (simp_all add: case_prod_beta i64_secs_def I64_MAX_def)
  show ?thesis using replay_cache_refines [OF r(1), of 8 8 "[1]" "[2]" 9] r(2) by (simp add: case_prod_beta)
qed

text \<open>No pair passes twice before it expires. In a sequence of calls of \<open>check_and_record\<close> at increasing times,
  on any pairs and with any expiries, if two calls for one pair both return that it was fresh,
  then the second comes when the expiry given to the first has passed.\<close>

theorem replay_once:
  assumes "wf_replay c" "sorted (map fst xs)" "i < j" "j < length xs" "snd (snd (xs ! i)) = snd (snd (xs ! j))"
    and "run_checks xs c ! i = Inr True" "run_checks xs c ! j = Inr True"
  shows "i64_secs (fst (snd (xs ! i))) \<le> i64_secs (fst (xs ! j))"
  using replay.offers_once [OF assms(1-5)] assms(3,4,6,7) unfolding run_checks_offers [OF assms(1)] by simp

theorem replay_once_witness:
  "run_checks [(5, 9, [1], [2]), (9, 20, [1], [2])] (replay_new []) = [Inr True, Inr True] \<and> i64_secs 9 \<le> i64_secs 9"
proof -
  have w: "wf_replay (replay_new [])" by (simp add: wf_replay_def replay_new_def replay_with_ttl_def)
  have r: "run_checks [(5, 9, [1], [2]), (9, 20, [1], [2])] (replay_new []) = [Inr True, Inr True]"
    by (simp add: check_and_record_def has_seen_def replay_record_def purge_locked_def replay_new_def replay_with_ttl_def
        delete_where_def upsert_def unwrap_or_def i64_secs_def I64_MAX_def Let_def)
  then show ?thesis
    using replay_once [OF w, of "[(5, 9, [1], [2]), (9, 20, [1], [2])]" 0 1] by simp
qed

text \<open>C37: \<open>check_and_record\<close> is not atomic between callers, although its sections, run without another caller, are the
  operation. On every cache that does not have the pair, two callers with any expiries have a schedule in which both are
  told that the pair was fresh, the second of them by a section that begins when the pair has been recorded by the first and
  has not expired. But a caller whose first section begins when the pair is recorded and has not expired is always
  refused, whatever the other callers have done.\<close>

theorem check_and_record_race:
  "run_alone (check_and_record_sections works a1 a2 spk mid expiry) c = check_and_record works a1 a2 spk mid expiry c \<and>
   (wf_replay c \<and> (spk, mid) \<notin> live_pairs a1 c \<and> a1 \<le> b1 \<longrightarrow>
     (\<exists>c1 c2 p. interleaved (c, [check_and_record_sections ((True, True), (True, True)) a1 a2 spk mid (Some e),
          check_and_record_sections ((True, True), (True, True)) b1 b2 spk mid (Some e')]) (c1, [Done (Inr True), p]) \<and>
        (i64_secs a2 < i64_secs e \<longrightarrow> (spk, mid) \<in> live_pairs a2 c1) \<and>
        lock_step 1 (c1, [Done (Inr True), p]) (c2, [Done (Inr True), Done (Inr True)]))) \<and>
   (wf_replay c \<and> (spk, mid) \<in> live_pairs a1 c \<and>
      ps ! i = check_and_record_sections ((True, True), (True, True)) a1 a2 spk mid expiry \<and> lock_step i (c, ps) (c', ps') \<longrightarrow>
      ps' ! i = Done (Inr False))"
proof (intro conjI impI)
  show "run_alone (check_and_record_sections works a1 a2 spk mid expiry) c = check_and_record works a1 a2 spk mid expiry c"
    by (rule sections_alone)
next
  assume a: "wf_replay c \<and> (spk, mid) \<notin> live_pairs a1 c \<and> a1 \<le> b1"
  obtain c1 where c1: "wf_replay c1" "interleaved (c, [asking a1 a2 spk mid e, asking b1 b2 spk mid e'])
      (record_now a2 e (spk, mid) c1, [Done (Inr True), storing b2 spk mid e'])"
    using both_pass [of c spk mid a1 b1 a2 e b2 e'] a by blast
  have "i64_secs a2 < i64_secs e \<longrightarrow> (spk, mid) \<in> live_pairs a2 (record_now a2 e (spk, mid) c1)"
    by (simp add: record_live [OF c1(1)])
  moreover have "\<exists>c2. lock_step 1 (record_now a2 e (spk, mid) c1, [Done (Inr True), storing b2 spk mid e']) (c2, [Done (Inr True), Done (Inr True)])"
    using store_step [of 1 "[Done (Inr True), storing b2 spk mid e']" b2 spk mid e'] by auto
  ultimately show "\<exists>c1 c2 p. interleaved (c, [asking a1 a2 spk mid e, asking b1 b2 spk mid e']) (c1, [Done (Inr True), p]) \<and>
        (i64_secs a2 < i64_secs e \<longrightarrow> (spk, mid) \<in> live_pairs a2 c1) \<and>
        lock_step 1 (c1, [Done (Inr True), p]) (c2, [Done (Inr True), Done (Inr True)])"
    using c1(2) by blast
next
  assume a: "wf_replay c \<and> (spk, mid) \<in> live_pairs a1 c \<and>
    ps ! i = check_and_record_sections ((True, True), (True, True)) a1 a2 spk mid expiry \<and> lock_step i (c, ps) (c', ps')"
  then have "lock_step i (c, ps) (c', ps')" by blast
  then show "ps' ! i = Done (Inr False)"
    by (cases rule: lock_stepE) (use a in \<open>auto simp: check_and_record_sections_def has_seen_ok\<close>)
qed

theorem check_and_record_race_witness:
  "(\<exists>c1 c2 p. interleaved (replay_new [], [check_and_record_sections ((True, True), (True, True)) 5 5 [1] [2] (Some 9),
        check_and_record_sections ((True, True), (True, True)) 5 6 [1] [2] (Some 9)]) (c1, [Done (Inr True), p]) \<and>
      ([1], [2]) \<in> live_pairs 5 c1 \<and> lock_step 1 (c1, [Done (Inr True), p]) (c2, [Done (Inr True), Done (Inr True)])) \<and>
   (\<exists>c'. lock_step 0 (record_now 5 9 ([1], [2]) (replay_new []), [check_and_record_sections ((True, True), (True, True)) 6 6 [1] [2] (Some 9)])
      (c', [Done (Inr False)]))"
proof -
  let ?c = "record_now 5 9 ([1], [2]) (replay_new [])"
  have w: "wf_replay (replay_new [])" "([1], [2]) \<notin> live_pairs 5 (replay_new [])"
    by (simp_all add: wf_replay_def replay_new_def replay_with_ttl_def live_pairs_def)
  have c: "wf_replay ?c" "([1], [2]) \<in> live_pairs 6 ?c"
    using replay.remember_ok [OF w(1), of 5 9 "([1], [2])"] by (simp_all add: i64_secs_def I64_MAX_def)
  have step: "lock_step 0 (?c, [asking 6 6 [1] [2] 9]) (snd (seen_now 6 ([1], [2]) ?c), [Done (Inr False)])"
    using check_step [OF c(1), of 0 "[asking 6 6 [1] [2] 9]" 6 6 "[1]" "[2]" 9] c(2) by simp
  have "i64_secs 5 < i64_secs 9" by (simp add: i64_secs_def I64_MAX_def)
  then show ?thesis
    using check_and_record_race [of "((True, True), (True, True))" 5 5 "[1]" "[2]" "Some 9" "replay_new []" 5 9 6 9 "[]" 0 "replay_new []" "[]"]
      w step by blast
qed

end
