(* ===== verification/IntroQueue.thy ===== *)
theory IntroQueue
  imports Tables
begin

text \<open>
  The queue of messages from unknown senders and the denylist, \<open>intro_queue.rs\<close>. The column
  \<open>intro_id\<close> is an autoincrement key: a new row gets the successor of the largest id ever used, which
  the database keeps in a sequence; a second row for a sender and a message id violates the
  uniqueness constraint of the table.
\<close>

section \<open>The code\<close>

record intro_row =
  ir_sender_spk :: bytes
  ir_sender_username :: "rstr option"
  ir_msg_id :: bytes
  ir_payload :: bytes
  ir_received_at :: int
  ir_expires_at :: int

record pending_intro =
  intro_id :: int
  pi_sender_spk :: bytes
  pi_sender_username :: "rstr option"
  pi_msg_id :: bytes
  pi_payload :: bytes
  received_at :: u64
  expires_at :: u64

record new_intro =
  ni_sender_spk :: bytes
  ni_sender_username :: "rstr option"
  ni_msg_id :: bytes
  ni_payload :: bytes
  ni_expires_at :: u64

record intro_queue =
  iq_rows :: "(int, intro_row) rows"
  iq_sequence :: int
  iq_denylist :: "(bytes, int \<times> rstr) rows"

text \<open>\<open>u64::try_from(i).unwrap_or(0)\<close>.\<close>

definition u64_or_0 :: "int \<Rightarrow> u64" where
  "u64_or_0 i = (if 0 \<le> i then of_int i else 0)"

definition row_to_intro :: "int \<times> intro_row \<Rightarrow> pending_intro" where
  "row_to_intro x = (case x of (i, r) \<Rightarrow>
     \<lparr> intro_id = i, pi_sender_spk = ir_sender_spk r, pi_sender_username = ir_sender_username r, pi_msg_id = ir_msg_id r,
       pi_payload = ir_payload r, received_at = u64_or_0 (ir_received_at r), expires_at = u64_or_0 (ir_expires_at r) \<rparr>)"

definition is_blocked_inner :: "bool \<Rightarrow> bytes \<Rightarrow> intro_queue \<Rightarrow> storage_error + bool" where
  "is_blocked_inner works sender_spk q =
     (if works then Inr (0 < count_where (\<lambda>k _. k = sender_spk) (iq_denylist q)) else Inl (Sqlite ''select''))"

definition insert_intro :: "u64 \<Rightarrow> new_intro \<Rightarrow> intro_queue \<Rightarrow> intro_queue" where
  "insert_intro now intro q = (let i = iq_sequence q + 1 in
     q\<lparr>iq_sequence := i, iq_rows := iq_rows q @ [(i,
       \<lparr> ir_sender_spk = ni_sender_spk intro, ir_sender_username = ni_sender_username intro, ir_msg_id = ni_msg_id intro,
         ir_payload = ni_payload intro, ir_received_at = i64_secs now, ir_expires_at = i64_secs (ni_expires_at intro) \<rparr>)]\<rparr>)"

definition enqueue :: "bool \<times> bool \<Rightarrow> u64 \<Rightarrow> new_intro \<Rightarrow> intro_queue \<Rightarrow> (storage_error + int option) \<times> intro_queue" where
  "enqueue works now intro q =
     (case is_blocked_inner (fst works) (ni_sender_spk intro) q of
        Inl e \<Rightarrow> (Inl e, q)
      | Inr True \<Rightarrow> (Inr None, q)
      | Inr False \<Rightarrow>
          if \<not> snd works \<or> iq_sequence q = I64_MAX then (Inl (Sqlite ''insert''), q)
          else if list_ex (\<lambda>(_, r). ir_sender_spk r = ni_sender_spk intro \<and> ir_msg_id r = ni_msg_id intro) (iq_rows q)
          then (Inr None, q)
          else (Inr (Some (iq_sequence q + 1)), insert_intro now intro q))"

definition block_sender :: "bool \<Rightarrow> u64 \<Rightarrow> bytes \<Rightarrow> rstr \<Rightarrow> intro_queue \<Rightarrow> (storage_error + unit) \<times> intro_queue" where
  "block_sender works now sender_spk note q =
     (if works then (Inr (), q\<lparr>iq_denylist := upsert sender_spk (i64_secs now, note) (\<lambda>_. (i64_secs now, note)) (iq_denylist q)\<rparr>)
      else (Inl (Sqlite ''insert''), q))"

definition unblock_sender :: "bool \<Rightarrow> bytes \<Rightarrow> intro_queue \<Rightarrow> (storage_error + bool) \<times> intro_queue" where
  "unblock_sender works sender_spk q =
     (if works then (Inr (0 < count_where (\<lambda>k _. k = sender_spk) (iq_denylist q)),
        q\<lparr>iq_denylist := delete_where (\<lambda>k _. k = sender_spk) (iq_denylist q)\<rparr>)
      else (Inl (Sqlite ''delete''), q))"

definition is_blocked :: "bool \<Rightarrow> bytes \<Rightarrow> intro_queue \<Rightarrow> storage_error + bool" where
  "is_blocked works sender_spk q = is_blocked_inner works sender_spk q"

text \<open>\<open>ORDER BY received_at DESC, intro_id DESC\<close>.\<close>

definition list_pending :: "bool \<Rightarrow> intro_queue \<Rightarrow> storage_error + pending_intro list" where
  "list_pending works q =
     (if works then Inr (map row_to_intro (rev (sort_key (ir_received_at \<circ> snd) (sort_key fst (iq_rows q)))))
      else Inl (Sqlite ''select''))"

definition intro_get :: "bool \<Rightarrow> int \<Rightarrow> intro_queue \<Rightarrow> storage_error + pending_intro option" where
  "intro_get works i q =
     (if works then Inr (map_option (\<lambda>r. row_to_intro (i, r)) (map_of (iq_rows q) i)) else Inl (Sqlite ''select''))"

definition delete_one :: "bool \<Rightarrow> int \<Rightarrow> intro_queue \<Rightarrow> (storage_error + bool) \<times> intro_queue" where
  "delete_one works i q =
     (if works then (Inr (0 < count_where (\<lambda>k _. k = i) (iq_rows q)), q\<lparr>iq_rows := delete_where (\<lambda>k _. k = i) (iq_rows q)\<rparr>)
      else (Inl (Sqlite ''delete''), q))"

definition intro_accept :: "bool \<Rightarrow> int \<Rightarrow> intro_queue \<Rightarrow> (storage_error + bool) \<times> intro_queue" where
  "intro_accept works i q = delete_one works i q"

definition intro_reject :: "bool \<Rightarrow> int \<Rightarrow> intro_queue \<Rightarrow> (storage_error + bool) \<times> intro_queue" where
  "intro_reject works i q = delete_one works i q"

text \<open>\<open>DELETE \<dots> RETURNING\<close>: the removed row.\<close>

definition intro_take :: "bool \<Rightarrow> int \<Rightarrow> intro_queue \<Rightarrow> (storage_error + pending_intro option) \<times> intro_queue" where
  "intro_take works i q =
     (if works then (Inr (map_option (\<lambda>r. row_to_intro (i, r)) (map_of (iq_rows q) i)),
        q\<lparr>iq_rows := delete_where (\<lambda>k _. k = i) (iq_rows q)\<rparr>)
      else (Inl (Sqlite ''delete''), q))"

definition intro_cleanup_expired :: "bool \<Rightarrow> u64 \<Rightarrow> intro_queue \<Rightarrow> (storage_error + u64) \<times> intro_queue" where
  "intro_cleanup_expired works now q =
     (if works then (Inr (of_nat (count_where (\<lambda>_ r. ir_expires_at r \<le> i64_secs now) (iq_rows q))),
        q\<lparr>iq_rows := delete_where (\<lambda>_ r. ir_expires_at r \<le> i64_secs now) (iq_rows q)\<rparr>)
      else (Inl (Sqlite ''delete''), q))"

definition intro_len :: "bool \<Rightarrow> intro_queue \<Rightarrow> storage_error + u64" where
  "intro_len works q = (if works then Inr (of_nat (length (iq_rows q))) else Inl (Sqlite ''select''))"

definition intro_is_empty :: "bool \<Rightarrow> intro_queue \<Rightarrow> storage_error + bool" where
  "intro_is_empty works q = andThen (intro_len works q) (\<lambda>n. Inr (n = 0))"

section \<open>The invariant\<close>

definition wf_queue :: "intro_queue \<Rightarrow> bool" where
  "wf_queue q \<longleftrightarrow> keyed (iq_rows q) \<and> (\<forall>i \<in> fst ` set (iq_rows q). i \<le> iq_sequence q) \<and>
     distinct (map (\<lambda>(_, r). (ir_sender_spk r, ir_msg_id r)) (iq_rows q)) \<and> keyed (iq_denylist q)"

definition blocked :: "intro_queue \<Rightarrow> bytes set" where
  "blocked q = fst ` set (iq_denylist q)"

definition pending_pairs :: "intro_queue \<Rightarrow> (bytes \<times> bytes) set" where
  "pending_pairs q = (\<lambda>(_, r). (ir_sender_spk r, ir_msg_id r)) ` set (iq_rows q)"

lemma count_key: "0 < count_where (\<lambda>k _. k = x) t \<longleftrightarrow> x \<in> fst ` set t"
  by (force simp: count_where_def filter_empty_conv)

lemma is_blocked_inner_ok: "is_blocked_inner True spk q = Inr (spk \<in> blocked q)"
  by (simp add: is_blocked_inner_def blocked_def count_key)

lemma wf_delete: "wf_queue q \<Longrightarrow> wf_queue (q\<lparr>iq_rows := delete_where P (iq_rows q)\<rparr>)"
proof -
  assume "wf_queue q"
  moreover have "distinct (map f (filter Q xs))" if "distinct (map f xs)" for f :: "int \<times> intro_row \<Rightarrow> bytes \<times> bytes" and Q xs
    using that by (rule distinct_map_filter)
  ultimately show ?thesis by (auto simp: wf_queue_def keyed_delete_where) (auto simp: delete_where_def)
qed

lemma wf_insert_intro:
  assumes "wf_queue q" "(ni_sender_spk x, ni_msg_id x) \<notin> pending_pairs q"
  shows "wf_queue (insert_intro now x q)"
proof -
  have "iq_sequence q + 1 \<notin> fst ` set (iq_rows q)"
  proof
    assume "iq_sequence q + 1 \<in> fst ` set (iq_rows q)"
    then have "iq_sequence q + 1 \<le> iq_sequence q" using assms(1) unfolding wf_queue_def by blast
    then show False by simp
  qed
  moreover have "\<forall>i \<in> fst ` set (iq_rows q). i \<le> iq_sequence q + 1"
    using assms(1) unfolding wf_queue_def by fastforce
  ultimately show ?thesis
    using assms by (auto simp: wf_queue_def insert_intro_def Let_def keyed_def pending_pairs_def)
qed

lemma enqueue_ok:
  "enqueue (True, True) now x q =
    (if ni_sender_spk x \<in> blocked q then (Inr None, q)
     else if iq_sequence q = I64_MAX then (Inl (Sqlite ''insert''), q)
     else if (ni_sender_spk x, ni_msg_id x) \<in> pending_pairs q then (Inr None, q)
     else (Inr (Some (iq_sequence q + 1)), insert_intro now x q))"
proof -
  have "list_ex (\<lambda>(_, r). ir_sender_spk r = ni_sender_spk x \<and> ir_msg_id r = ni_msg_id x) (iq_rows q) \<longleftrightarrow>
      (ni_sender_spk x, ni_msg_id x) \<in> pending_pairs q"
    unfolding list_ex_iff pending_pairs_def image_iff case_prod_beta prod.inject by metis
  then show ?thesis by (simp add: enqueue_def is_blocked_inner_ok)
qed

section \<open>The queue over time\<close>

datatype intro_op =
    Enqueue u64 new_intro
  | Block u64 bytes rstr
  | Unblock bytes
  | Accept int
  | Reject int
  | Take int
  | CleanupIntros u64

text \<open>One operation, whether the database executes it, and what it hands out.\<close>

fun intro_step :: "bool \<times> intro_op \<Rightarrow> intro_queue \<Rightarrow> pending_intro option \<times> intro_queue" where
  "intro_step (works, Enqueue now x) q = (None, snd (enqueue (works, works) now x q))"
| "intro_step (works, Block now spk note) q = (None, snd (block_sender works now spk note q))"
| "intro_step (works, Unblock spk) q = (None, snd (unblock_sender works spk q))"
| "intro_step (works, Accept i) q = (None, snd (intro_accept works i q))"
| "intro_step (works, Reject i) q = (None, snd (intro_reject works i q))"
| "intro_step (works, Take i) q = (case intro_take works i q of (Inr r, q) \<Rightarrow> (r, q) | (Inl _, q) \<Rightarrow> (None, q))"
| "intro_step (works, CleanupIntros now) q = (None, snd (intro_cleanup_expired works now q))"

fun handed_out :: "(bool \<times> intro_op) list \<Rightarrow> intro_queue \<Rightarrow> pending_intro list" where
  "handed_out [] q = []"
| "handed_out (x # xs) q =
     (case intro_step x q of (r, q) \<Rightarrow> (case r of None \<Rightarrow> [] | Some p \<Rightarrow> [p]) @ handed_out xs q)"

abbreviation row_ids :: "intro_queue \<Rightarrow> int set" where
  "row_ids q \<equiv> fst ` set (iq_rows q)"

lemma ids_delete: "(i, r) \<in> set (delete_where P t) \<Longrightarrow> i \<in> fst ` set t"
  by (force simp: delete_where_def)

lemma wf_denylist: "wf_queue q \<Longrightarrow> keyed d \<Longrightarrow> wf_queue (q\<lparr>iq_denylist := d\<rparr>)"
  by (simp add: wf_queue_def)

lemma enqueue_fails: "enqueue (False, w) now x q = (Inl (Sqlite ''select''), q)"
  by (simp add: enqueue_def is_blocked_inner_def)

lemma enqueue_wf:
  assumes "wf_queue q"
  shows "wf_queue (snd (enqueue (works, works) now x q)) \<and> iq_sequence q \<le> iq_sequence (snd (enqueue (works, works) now x q)) \<and>
    row_ids (snd (enqueue (works, works) now x q)) \<subseteq> row_ids q \<union> {iq_sequence q<..}"
  using assms wf_insert_intro [OF assms, of x now]
  by (cases works) (auto simp: enqueue_ok enqueue_fails insert_intro_def Let_def)

lemma intro_step_wf:
  assumes "wf_queue q"
  shows "wf_queue (snd (intro_step x q)) \<and> iq_sequence q \<le> iq_sequence (snd (intro_step x q)) \<and>
    row_ids (snd (intro_step x q)) \<subseteq> row_ids q \<union> {iq_sequence q<..}"
proof -
  have k: "keyed (iq_denylist q)" using assms by (simp add: wf_queue_def)
  show ?thesis
    using enqueue_wf [OF assms] assms k
    by (cases "(x, q)" rule: intro_step.cases)
       (auto simp: block_sender_def unblock_sender_def intro_accept_def intro_reject_def delete_one_def intro_take_def
          intro_cleanup_expired_def wf_denylist wf_delete keyed_upsert keyed_delete_where dest: ids_delete)
qed

lemma intro_step_handed:
  assumes "intro_step x q = (Some p, q')" "wf_queue q"
  shows "intro_id p \<in> row_ids q \<and> intro_id p \<notin> row_ids q' \<and> intro_id p \<le> iq_sequence q'"
proof -
  obtain i r where x: "x = (True, Take i)" and m: "map_of (iq_rows q) i = Some r" and p: "p = row_to_intro (i, r)"
    and q': "q' = q\<lparr>iq_rows := delete_where (\<lambda>k _. k = i) (iq_rows q)\<rparr>"
    using assms(1) by (cases "(x, q)" rule: intro_step.cases) (auto simp: intro_take_def split: if_splits)
  have "i \<in> row_ids q" using m by (force dest: map_of_SomeD)
  moreover have "i \<le> iq_sequence q" using calculation assms(2) by (auto simp: wf_queue_def)
  ultimately show ?thesis by (auto simp: p q' row_to_intro_def delete_where_def)
qed

lemma handed_out_ids:
  "wf_queue q \<Longrightarrow> p \<in> set (handed_out xs q) \<Longrightarrow> intro_id p \<in> row_ids q \<or> iq_sequence q < intro_id p"
proof (induction xs arbitrary: q)
  case (Cons x xs)
  obtain r q' where s: "intro_step x q = (r, q')" by (cases "intro_step x q")
  note w = intro_step_wf [OF Cons.prems(1), of x, unfolded s snd_conv]
  have "r = Some p \<or> p \<in> set (handed_out xs q')" using Cons.prems(2) by (auto simp: s split: option.splits)
  then show ?case
  proof
    assume "r = Some p"
    then show ?thesis using intro_step_handed [of x q p q'] s Cons.prems(1) by simp
  next
    assume "p \<in> set (handed_out xs q')"
    then show ?thesis using Cons.IH [of q'] w by fastforce
  qed
qed simp

section \<open>Properties\<close>

text \<open>No quarantined message is handed out twice. Whatever sequence of operations runs on the queue, with
  whatever failures of the database, the ids of the messages that \<open>take\<close> returns are distinct: a
  taken message is gone, and its id is never given to another one.\<close>

theorem intro_taken_once:
  assumes "wf_queue q"
  shows "distinct (map intro_id (handed_out xs q))"
  using assms
proof (induction xs arbitrary: q)
  case (Cons x xs)
  obtain r q' where s: "intro_step x q = (r, q')" by (cases "intro_step x q")
  note w = intro_step_wf [OF Cons.prems, of x, unfolded s snd_conv]
  show ?case
  proof (cases r)
    case (Some p)
    have "intro_id p \<notin> row_ids q'" "intro_id p \<le> iq_sequence q'"
      using intro_step_handed [of x q p q'] s Some Cons.prems by simp_all
    then have "intro_id p \<notin> intro_id ` set (handed_out xs q')" using handed_out_ids [of q' _ xs] w by fastforce
    then show ?thesis using Cons.IH w by (simp add: s Some)
  qed (use Cons.IH w in \<open>simp add: s\<close>)
qed simp

theorem intro_taken_once_witness:
  "map pi_payload (handed_out [(True, Enqueue 5 \<lparr> ni_sender_spk = [1], ni_sender_username = None, ni_msg_id = [2], ni_payload = [3], ni_expires_at = 9 \<rparr>),
     (True, Take 1), (True, Take 1)] \<lparr> iq_rows = [], iq_sequence = 0, iq_denylist = [] \<rparr>) = [[3]]"
proof -
  let ?x = "\<lparr> ni_sender_spk = [1], ni_sender_username = None, ni_msg_id = [2], ni_payload = [3], ni_expires_at = 9 \<rparr>"
  let ?q = "\<lparr> iq_rows = [], iq_sequence = 0, iq_denylist = [] \<rparr>"
  let ?h = "handed_out [(True, Enqueue 5 ?x), (True, Take 1), (True, Take 1)] ?q"
  have "distinct (map intro_id ?h)" by (rule intro_taken_once) (simp add: wf_queue_def)
  moreover have "map pi_payload ?h = [[3]]"
    by (simp add: enqueue_ok blocked_def pending_pairs_def I64_MAX_def insert_intro_def Let_def intro_take_def row_to_intro_def
        delete_where_def)
  ultimately show ?thesis by blast
qed

text \<open>What the queue admits. When the database works, a message is refused exactly when its sender is on the
  denylist or the queue already holds a message of this sender with this id, and then nothing changes; otherwise
  it is stored under a new id that is larger than all earlier ones, found under it with the
  given contents, and no other entry changes. Blocking a sender refuses all its later messages,
  until it is unblocked.\<close>

theorem intro_admission:
  assumes "wf_queue q" "iq_sequence q < I64_MAX"
  shows "(case enqueue (True, True) now x q of (r, q') \<Rightarrow> wf_queue q' \<and>
      (if ni_sender_spk x \<in> blocked q \<or> (ni_sender_spk x, ni_msg_id x) \<in> pending_pairs q then r = Inr None \<and> q' = q
       else \<exists>i. r = Inr (Some i) \<and> (\<forall>j \<in> row_ids q. j < i) \<and> (\<forall>j. j \<noteq> i \<longrightarrow> intro_get True j q' = intro_get True j q) \<and>
         (\<exists>p. intro_get True i q' = Inr (Some p) \<and> pi_sender_spk p = ni_sender_spk x \<and> pi_msg_id p = ni_msg_id x \<and>
            pi_payload p = ni_payload x \<and> pi_sender_username p = ni_sender_username x))) \<and>
    blocked (snd (block_sender True now spk note q)) = insert spk (blocked q) \<and>
    blocked (snd (unblock_sender True spk q)) = blocked q - {spk}"
proof -
  have "blocked (snd (unblock_sender True spk q)) = blocked q - {spk}"
    by (auto simp: unblock_sender_def blocked_def delete_where_def image_iff)
  moreover have "blocked (snd (block_sender True now spk note q)) = insert spk (blocked q)"
    by (simp add: block_sender_def blocked_def upsert_def dom_update)
  moreover have ?thesis if c: "\<not> (ni_sender_spk x \<in> blocked q \<or> (ni_sender_spk x, ni_msg_id x) \<in> pending_pairs q)"
  proof -
    let ?i = "iq_sequence q + 1" and ?q = "insert_intro now x q"
    have e: "enqueue (True, True) now x q = (Inr (Some ?i), ?q)" using c assms(2) by (simp add: enqueue_ok)
    have ids: "\<forall>j \<in> row_ids q. j < ?i" using assms(1) unfolding wf_queue_def by fastforce
    then have none: "map_of (iq_rows q) ?i = None" by (force simp: map_of_eq_None_iff)
    then have get: "intro_get True j ?q = (if j = ?i then Inr (Some (row_to_intro (?i,
        \<lparr> ir_sender_spk = ni_sender_spk x, ir_sender_username = ni_sender_username x, ir_msg_id = ni_msg_id x,
          ir_payload = ni_payload x, ir_received_at = i64_secs now, ir_expires_at = i64_secs (ni_expires_at x) \<rparr>)))
        else intro_get True j q)" for j
      by (auto simp: intro_get_def insert_intro_def Let_def map_add_def split: option.split)
    have "wf_queue ?q" using wf_insert_intro [OF assms(1)] c by blast
    then show ?thesis using c ids get calculation by (simp add: e row_to_intro_def)
  qed
  ultimately show ?thesis
    using assms by (cases "ni_sender_spk x \<in> blocked q \<or> (ni_sender_spk x, ni_msg_id x) \<in> pending_pairs q") (auto simp: enqueue_ok)
qed

theorem intro_admission_witness:
  "fst (enqueue (True, True) 5 \<lparr> ni_sender_spk = [1], ni_sender_username = None, ni_msg_id = [2], ni_payload = [3], ni_expires_at = 9 \<rparr>
     \<lparr> iq_rows = [], iq_sequence = 0, iq_denylist = [([1], 4, [])] \<rparr>) = Inr None"
proof -
  let ?q = "\<lparr> iq_rows = [], iq_sequence = 0, iq_denylist = [([1], 4, [])] \<rparr>"
  have "wf_queue ?q" "iq_sequence ?q < I64_MAX" by (simp_all add: wf_queue_def keyed_def I64_MAX_def)
  from intro_admission [OF this, where now = 5 and x = "\<lparr> ni_sender_spk = [1], ni_sender_username = None, ni_msg_id = [2], ni_payload = [3], ni_expires_at = 9 \<rparr>"]
  show ?thesis by (simp add: case_prod_beta blocked_def)
qed

end
