(* ===== verification/Revocation.thy ===== *)
theory Revocation
  imports Rotation Reader
begin

text \<open>
  Self-signed key revocations, \<open>revocation.rs\<close>. A revocation shares the subjects of the
  rotation records, names the revoked key, which signs it, and never expires on its own:
  the caller may bound its age.
\<close>

section \<open>The code\<close>

definition REVOCATION_PREFIX :: rstr where
  "REVOCATION_PREFIX = ascii ''v=dmp1;t=revocation;''"

definition REVOCATION_MAGIC :: bytes where
  "REVOCATION_MAGIC = ascii ''DMPRV01''"

definition FUTURE_TS_SKEW_SECONDS :: u64 where
  "FUTURE_TS_SKEW_SECONDS = 300"

definition valid_reason :: "byte \<Rightarrow> bool" where
  "valid_reason c \<longleftrightarrow> c = 1 \<or> c = 2 \<or> c = 3 \<or> c = 4"

datatype revocation_error =
    Subject rotation_error
  | InvalidReasonCode byte
  | RevBodyTooShort
  | RevBadMagic
  | RevInvalidSubjectType byte
  | RevInvalidSubjectLength
  | RevTruncatedSubject
  | RevTrailingOrTruncatedTail
  | RevInvalidUtf8
  | RevKeyMismatch
  | RevWireTooLong nat nat

record revocation_record =
  v_subject_type :: byte
  v_subject :: rstr
  v_revoked_spk :: bytes
  v_reason_code :: byte
  v_ts :: u64

definition revocation_validate :: "revocation_record \<Rightarrow> revocation_error + unit" where
  "revocation_validate self =
     andThen (mapErr Subject (validate_subject (v_subject_type self) (v_subject self))) (\<lambda>_.
       if \<not> valid_reason (v_reason_code self) then Inl (InvalidReasonCode (v_reason_code self)) else Inr ())"

definition revocation_to_body :: "revocation_record \<Rightarrow> revocation_error + bytes" where
  "revocation_to_body self = andThen (revocation_validate self) (\<lambda>_.
     Inr (REVOCATION_MAGIC @ [v_subject_type self] @ [of_nat (length (v_subject self))] @ v_subject self @
          v_revoked_spk self @ [v_reason_code self] @ be64 (v_ts self)))"

definition revocation_from_body :: "bytes \<Rightarrow> revocation_error + revocation_record" where
  "revocation_from_body body =
     (let min_len = 7 + 1 + 1 + 32 + 1 + 8 in
      if length body < min_len then Inl RevBodyTooShort
      else if segment 0 7 body \<noteq> REVOCATION_MAGIC then Inl RevBadMagic
      else
        let subject_type = body ! 7 in
        if subject_type \<noteq> SUBJECT_TYPE_USER_IDENTITY \<and> subject_type \<noteq> SUBJECT_TYPE_CLUSTER_OPERATOR \<and>
          subject_type \<noteq> SUBJECT_TYPE_BOOTSTRAP_SIGNER then Inl (RevInvalidSubjectType subject_type)
        else
          let subject_len = unat (body ! 8);
              parse_cap = (if subject_type = SUBJECT_TYPE_USER_IDENTITY then MAX_USER_IDENTITY_SUBJECT_LEN
                           else MAX_SUBJECT_LEN);
              off = 9
          in
          if subject_len = 0 \<or> parse_cap < subject_len then Inl RevInvalidSubjectLength
          else if length body < off + subject_len then Inl RevTruncatedSubject
          else
            let subject = segment off (off + subject_len) body; off = off + subject_len in
            if \<not> is_utf8 subject then Inl RevInvalidUtf8
            else if off + 32 + 1 + 8 \<noteq> length body then Inl RevTrailingOrTruncatedTail
            else
              let revoked_spk = segment off (off + 32) body;
                  reason_code = body ! (off + 32);
                  ts = read64 (segment (off + 33) (off + 41) body)
              in
              if \<not> valid_reason reason_code then Inl (InvalidReasonCode reason_code)
              else andThen (mapErr Subject (validate_subject subject_type subject)) (\<lambda>_.
                Inr \<lparr> v_subject_type = subject_type, v_subject = subject, v_revoked_spk = revoked_spk,
                      v_reason_code = reason_code, v_ts = ts \<rparr>))"

definition revocation_sign :: "prims \<Rightarrow> revocation_record \<Rightarrow> dmp_crypto \<Rightarrow> revocation_error + rstr" where
  "revocation_sign P self revoked_crypto =
     (if verifying_key revoked_crypto \<noteq> v_revoked_spk self then Inl RevKeyMismatch
      else andThen (revocation_to_body self) (\<lambda>body.
        let sig = sign_data P revoked_crypto body;
            wire = seal P REVOCATION_PREFIX (body @ sig)
        in if MAX_WIRE_LEN < length wire then Inl (RevWireTooLong (length wire) MAX_WIRE_LEN) else Inr wire))"

definition revocation_parse_and_verify :: "prims \<Rightarrow> u64 \<Rightarrow> rstr \<Rightarrow> bytes option \<Rightarrow> rstr option \<Rightarrow> u64 option \<Rightarrow>
    u64 option \<Rightarrow> revocation_record option" where
  "revocation_parse_and_verify P clock wire expected_revoked_spk expected_subject now max_age_seconds =
     (if \<not> starts_with REVOCATION_PREFIX wire then None
      else if MAX_WIRE_LEN < length wire then None
      else (case unseal P REVOCATION_PREFIX wire of
         None \<Rightarrow> None
       | Some blob \<Rightarrow>
           if length blob < 7 + 64 then None
           else
             let split = length blob - 64; body = take split blob; sig = drop split blob in
             (case ok (revocation_from_body body) of
                None \<Rightarrow> None
              | Some rec \<Rightarrow>
                  if \<not> verify_signature P body sig (v_revoked_spk rec) then None
                  else if (case expected_revoked_spk of None \<Rightarrow> False
                    | Some expected \<Rightarrow> length expected \<noteq> 32 \<or> expected \<noteq> v_revoked_spk rec) then None
                  else if (case expected_subject of None \<Rightarrow> False
                    | Some expected \<Rightarrow> normalize_subject (v_subject_type rec) (v_subject rec) \<noteq>
                        normalize_subject (v_subject_type rec) expected) then None
                  else
                    let now_ts = unwrap_or now clock in
                    if (case max_age_seconds of None \<Rightarrow> False
                      | Some max_age \<Rightarrow> sat_add (v_ts rec) max_age < now_ts) then None
                    else if sat_add now_ts FUTURE_TS_SKEW_SECONDS < v_ts rec then None
                    else Some rec)))"

section \<open>The codec\<close>

definition wf_revocation :: "revocation_record \<Rightarrow> bool" where
  "wf_revocation v \<longleftrightarrow> is_utf8 (v_subject v) \<and> length (v_revoked_spk v) = 32"

lemma length_REVOCATION_MAGIC [simp]: "length REVOCATION_MAGIC = 7"
  by (simp add: REVOCATION_MAGIC_def)

lemma revocation_validate_ok:
  "revocation_validate v = Inr () \<longleftrightarrow> validate_subject (v_subject_type v) (v_subject v) = Inr () \<and>
     valid_reason (v_reason_code v)"
  by (auto simp: revocation_validate_def andThen_Inr mapErr_Inr)

lemma revocation_to_body_ok:
  "revocation_to_body v = Inr b \<longleftrightarrow> revocation_validate v = Inr () \<and>
     b = REVOCATION_MAGIC @ [v_subject_type v] @ [of_nat (length (v_subject v))] @ v_subject v @
       v_revoked_spk v @ [v_reason_code v] @ be64 (v_ts v)"
  by (auto simp: revocation_to_body_def andThen_Inr)

lemma revocation_from_body_ok:
  assumes n: "n = unat (b ! 8)"
  defines "v \<equiv> \<lparr> v_subject_type = b ! 7, v_subject = segment 9 (9 + n) b,
    v_revoked_spk = segment (9 + n) (41 + n) b, v_reason_code = b ! (41 + n),
    v_ts = read64 (segment (42 + n) (50 + n) b) \<rparr>"
  shows "revocation_from_body b = Inr x \<longleftrightarrow> length b = 50 + n \<and> REVOCATION_MAGIC = segment 0 7 b \<and>
    is_utf8 (v_subject v) \<and> revocation_validate v = Inr () \<and> x = v"
proof -
  have off: "41 + n + 1 + 8 = 50 + n" "9 + n + 32 = 41 + n" "9 + n + 33 = 42 + n" "9 + n + 41 = 50 + n"
    "(7 :: nat) + 1 + 1 + 32 + 1 + 8 = 50" by simp_all
  have ex: "(\<exists>u. mapErr Subject (validate_subject t s) = Inr u \<and> Q) \<longleftrightarrow> validate_subject t s = Inr () \<and> Q" for t s Q
    by (auto simp: mapErr_Inr)
  have "revocation_from_body b = Inr x \<longleftrightarrow> \<not> length b < 50 \<and> segment 0 7 b = REVOCATION_MAGIC \<and>
      \<not> (b ! 7 \<noteq> 1 \<and> b ! 7 \<noteq> 2 \<and> b ! 7 \<noteq> 3) \<and> \<not> (n = 0 \<or> subject_cap (b ! 7) < n) \<and> \<not> length b < 9 + n \<and>
      is_utf8 (segment 9 (9 + n) b) \<and> 50 + n = length b \<and> valid_reason (b ! (41 + n)) \<and>
      validate_subject (b ! 7) (segment 9 (9 + n) b) = Inr () \<and> v = x"
    unfolding revocation_from_body_def Let_def const_defs n [symmetric] off subject_cap_def v_def
    by (simp only: if_Inl_Inr andThen_Inr not_not sum.inject ex)
  moreover have "length (segment 9 (9 + n) b) = n" if "50 + n = length b"
    using that [symmetric] by simp
  ultimately show ?thesis
    using validate_subject_ok [of "b ! 7" "segment 9 (9 + n) b"] unfolding revocation_validate_ok
    by (auto simp: v_def)
qed

text \<open>The parameters of a verifier: the time, the pinned key and subject, and the age bound.\<close>

definition revocation_fresh :: "u64 \<times> bytes option \<times> rstr option \<times> u64 option \<Rightarrow> revocation_record \<Rightarrow> bool" where
  "revocation_fresh k v = (case k of (now, ek, es, age) \<Rightarrow>
     (\<forall>p. ek = Some p \<longrightarrow> p = v_revoked_spk v) \<and>
     (\<forall>s. es = Some s \<longrightarrow> normalize_subject (v_subject_type v) (v_subject v) = normalize_subject (v_subject_type v) s) \<and>
     (\<forall>a. age = Some a \<longrightarrow> unat now \<le> unat (v_ts v) + unat a) \<and> unat (v_ts v) \<le> unat now + 300)"

definition revocation_accept :: "prims \<Rightarrow> u64 \<times> bytes option \<times> rstr option \<times> u64 option \<Rightarrow> rstr \<Rightarrow>
    revocation_record option" where
  "revocation_accept P k w = (case k of (now, ek, es, age) \<Rightarrow>
     revocation_parse_and_verify P now w ek es (Some now) age)"

lemma revocation_parse:
  assumes P: "b64_codec P"
  shows "revocation_parse_and_verify P clock w ek es now age = Some v \<longleftrightarrow> length w \<le> 1200 \<and>
    revocation_fresh (unwrap_or now clock, ek, es, age) v \<and>
    (\<exists>body sig. w = seal P REVOCATION_PREFIX (body @ sig) \<and> length sig = 64 \<and>
       revocation_from_body body = Inr v \<and> verify_signature P body sig (v_revoked_spk v))"
proof -
  let ?R = "\<lambda>body sig. revocation_from_body body = Inr v \<and> verify_signature P body sig (v_revoked_spk v)"
  have long: "7 \<le> length body" if "revocation_from_body body = Inr v" for body
    using that by (auto simp: revocation_from_body_ok [OF refl])
  have time: "\<not> sat_add a b < c \<longleftrightarrow> unat c \<le> unat a + unat b" for a b c by (rule sat_add_not_less)
  have key: "length (v_revoked_spk v) = 32" if "?R body sig" for body sig
    using that verify_signature_lengths by blast
  have "revocation_parse_and_verify P clock w ek es now age = Some v \<longleftrightarrow>
      length w \<le> 1200 \<and> revocation_fresh (unwrap_or now clock, ek, es, age) v \<and>
      (\<exists>blob. w = seal P REVOCATION_PREFIX blob \<and> 7 + 64 \<le> length blob \<and>
        ?R (take (length blob - 64) blob) (drop (length blob - 64) blob))" (is "?l \<longleftrightarrow> ?r")
  proof
    assume ?l
    then show ?r
      by (auto simp: revocation_parse_and_verify_def Let_def unseal_Some [OF P] const_defs revocation_fresh_def
          FUTURE_TS_SKEW_SECONDS_def sat_add_less split: option.splits if_splits)
  next
    assume ?r
    then obtain blob where b: "w = seal P REVOCATION_PREFIX blob" "71 \<le> length blob"
      "?R (take (length blob - 64) blob) (drop (length blob - 64) blob)" "length w \<le> 1200"
      and fresh: "revocation_fresh (unwrap_or now clock, ek, es, age) v" by auto
    have "starts_with REVOCATION_PREFIX w" using b(1) by (simp add: seal_def)
    moreover have "unseal P REVOCATION_PREFIX w = Some blob" using b(1) by (simp add: unseal_Some [OF P])
    ultimately show ?l
      using b fresh key [OF b(3)]
      by (auto simp: revocation_parse_and_verify_def const_defs Let_def revocation_fresh_def
          FUTURE_TS_SKEW_SECONDS_def sat_add_less split: option.splits)
  qed
  then show ?thesis
    unfolding signed_blob [of "\<lambda>blob. w = seal P REVOCATION_PREFIX blob" 7 ?R] using long by blast
qed

interpretation revocation: canonical_record wf_revocation revocation_to_body revocation_from_body
  REVOCATION_PREFIX "\<lambda>r. length r \<le> 1200" "\<lambda>_. v_revoked_spk" revocation_fresh revocation_sign revocation_accept
proof unfold_locales
  fix b v
  assume f: "revocation_from_body b = Inr v"
  let ?n = "unat (b ! 8)"
  note v = f [unfolded revocation_from_body_ok [OF refl]]
  then have len: "length b = 50 + ?n" and magic: "REVOCATION_MAGIC = segment 0 7 b" by blast+
  show "wf_revocation v" using v by (auto simp: wf_revocation_def)
  have "b = REVOCATION_MAGIC @ segment 7 8 b @ segment 8 9 b @ segment 9 (9 + ?n) b @
      segment (9 + ?n) (41 + ?n) b @ segment (41 + ?n) (42 + ?n) b @ segment (42 + ?n) (50 + ?n) b"
    unfolding magic by (simp add: len segment_join segment_split segment_full)
  moreover have "[b ! 7] = segment 7 8 b" "[b ! 8] = segment 8 9 b" "[b ! (41 + ?n)] = segment (41 + ?n) (42 + ?n) b"
    using len by (auto intro: segment_one)
  ultimately show "revocation_to_body v = Inr b"
    using v len by (auto simp: revocation_to_body_ok be_read)
next
  fix v b
  assume v: "wf_revocation v" "revocation_to_body v = Inr b"
  then have "length (v_subject v) \<le> 255"
    using validate_subject_ok [of "v_subject_type v" "v_subject v"] subject_cap_le [of "v_subject_type v"]
    by (auto simp: revocation_to_body_ok revocation_validate_ok)
  then have "unat (of_nat (length (v_subject v)) :: byte) = length (v_subject v)"
    by (intro unat_of_nat_byte) simp
  then show "revocation_from_body b = Inr v"
    using v by (auto simp: revocation_from_body_ok [OF refl] revocation_to_body_ok revocation_validate_ok
        wf_revocation_def segment_append segment_full nth_append segment_Cons)
next
  fix P x me r
  assume "revocation_sign P x me = Inr r"
  then show "\<exists>body. revocation_to_body x = Inr body \<and>
      r = seal P REVOCATION_PREFIX (body @ sign_data P me body) \<and> length r \<le> 1200"
    by (auto simp: revocation_sign_def Let_def andThen_Inr const_defs split: if_splits)
next
  fix P and k :: "u64 \<times> bytes option \<times> rstr option \<times> u64 option" and r x
  assume P: "b64_codec P"
  obtain now ek es age where k: "k = (now, ek, es, age)" by (cases k)
  show "(revocation_accept P k r = Some x) = (length r \<le> 1200 \<and> revocation_fresh k x \<and>
      (\<exists>body sig. r = seal P REVOCATION_PREFIX (body @ sig) \<and> length sig = 64 \<and>
        revocation_from_body body = Inr x \<and> verify_signature P body sig (v_revoked_spk x)))"
    unfolding revocation_accept_def k prod.case revocation_parse [OF P] by (simp add: unwrap_or_def)
qed

lemma revocation_wire_length:
  assumes "b64_length P" "revocation_to_body v = Inr body" "wf_revocation v" "length sig = 64"
  shows "length (seal P REVOCATION_PREFIX (body @ sig)) \<le> 1200"
proof -
  have "length body \<le> 305"
    using assms(2,3) validate_subject_ok [of "v_subject_type v" "v_subject v"] subject_cap_le [of "v_subject_type v"]
    by (auto simp: revocation_to_body_ok revocation_validate_ok wf_revocation_def)
  then have "(length (body @ sig) + 2) div 3 \<le> (369 + 2) div 3"
    using assms(4) by (intro div_le_mono) simp
  then show ?thesis
    using assms(1) by (simp add: seal_def b64_length_def REVOCATION_PREFIX_def)
qed

section \<open>Properties\<close>

text \<open>A revocation is accepted exactly when the revoked key itself signed it. \<open>parse_and_verify\<close>
  returns a record if and only if the wire has at most 1200 bytes and is the prefix and the base64
  of the record's own body and a 64-byte signature valid under the revoked key, the record
  matches the pinned key and subject, it is at most as old as the given bound, and it is not dated more
  than 300 seconds in the future; the sums are those of integers, whatever the 64-bit operands.\<close>

theorem revocation_authentic:
  assumes "b64_codec P"
  shows "revocation_parse_and_verify P clock w ek es now age = Some v \<longleftrightarrow> length w \<le> 1200 \<and>
    (\<exists>body sig. wf_revocation v \<and> revocation_to_body v = Inr body \<and> length sig = 64 \<and>
       w = seal P REVOCATION_PREFIX (body @ sig) \<and> verify_signature P body sig (v_revoked_spk v)) \<and>
    (\<forall>p. ek = Some p \<longrightarrow> p = v_revoked_spk v) \<and>
    (\<forall>s. es = Some s \<longrightarrow> normalize_subject (v_subject_type v) (v_subject v) = normalize_subject (v_subject_type v) s) \<and>
    (\<forall>a. age = Some a \<longrightarrow> unat (unwrap_or now clock) \<le> unat (v_ts v) + unat a) \<and>
    unat (v_ts v) \<le> unat (unwrap_or now clock) + 300"
  unfolding revocation_parse [OF assms] revocation.body_iff revocation_fresh_def prod.case by blast

text \<open>A revocation is permanent. Once the owner of a key has signed a valid revocation of it, which never
  fails for its size, every verifier without an age bound accepts it at every time from 300 seconds
  before its date on, for ever, also with the key and the subject pinned; and a record that another
  identity tries to sign for the key is refused.\<close>

theorem revocation_permanent:
  assumes "b64_codec P" "b64_length P" "ed25519 P" "digest P" "wf_crypto P me" "wf_revocation v"
    and "v_revoked_spk v = verifying_key me" "revocation_to_body v = Inr body"
  shows "(\<exists>w. revocation_sign P v me = Inr w \<and> length w \<le> 1200 \<and>
      (\<forall>clock now. unat (v_ts v) \<le> unat now + 300 \<longrightarrow>
        revocation_parse_and_verify P clock w (Some (verifying_key me)) (Some (v_subject v)) (Some now) None = Some v)) \<and>
    (\<forall>other. verifying_key other \<noteq> verifying_key me \<longrightarrow> revocation_sign P v other = Inl RevKeyMismatch)"
proof (intro conjI allI impI)
  note s = sign_verifies(1,2) [OF assms(3,4,5), of body]
  have len: "length (seal P REVOCATION_PREFIX (body @ sign_data P me body)) \<le> 1200"
    by (rule revocation_wire_length [OF assms(2,8,6) s(2)])
  then have w: "revocation_sign P v me = Inr (seal P REVOCATION_PREFIX (body @ sign_data P me body))" (is "_ = Inr ?w")
    using assms(7,8) by (simp add: revocation_sign_def Let_def const_defs)
  have "revocation_parse_and_verify P clock ?w (Some (verifying_key me)) (Some (v_subject v)) (Some now) None = Some v"
    if "unat (v_ts v) \<le> unat now + 300" for clock now
  proof -
    let ?k = "(now, Some (verifying_key me), Some (v_subject v), None)"
    have "revocation_fresh ?k v" using that assms(7) by (simp add: revocation_fresh_def)
    then have "revocation_accept P ?k ?w = Some v"
      using revocation.sign_accept [OF assms(3,4,1,5,6) _ _ w, of ?k] assms(7) by simp
    then show ?thesis
      by (simp add: revocation_accept_def revocation_parse [OF assms(1)] unwrap_or_def)
  qed
  with w len show "\<exists>w. revocation_sign P v me = Inr w \<and> length w \<le> 1200 \<and>
      (\<forall>clock now. unat (v_ts v) \<le> unat now + 300 \<longrightarrow>
        revocation_parse_and_verify P clock w (Some (verifying_key me)) (Some (v_subject v)) (Some now) None = Some v)"
    by blast
next
  fix other :: dmp_crypto
  assume "verifying_key other \<noteq> verifying_key me"
  then show "revocation_sign P v other = Inl RevKeyMismatch" using assms(7) by (simp add: revocation_sign_def)
qed

definition demo_revocation :: revocation_record where
  "demo_revocation = \<lparr> v_subject_type = 1, v_subject = ascii ''b@m'', v_revoked_spk = verifying_key demo_key,
     v_reason_code = 1, v_ts = 1000 \<rparr>"

lemma demo_revocation: "wf_revocation demo_revocation" "\<exists>b. revocation_to_body demo_revocation = Inr b"
  "v_revoked_spk demo_revocation = verifying_key demo_key" "unat (v_ts demo_revocation) = 1000"
  by (simp_all add: demo_revocation_def wf_revocation_def demo_key demo_subject revocation_to_body_ok
      revocation_validate_ok valid_reason_def)

theorem revocation_permanent_witness:
  "\<exists>w. revocation_sign demo_prims demo_revocation demo_key = Inr w \<and>
     revocation_parse_and_verify demo_prims 0 w (Some (verifying_key demo_key)) (Some (v_subject demo_revocation))
       (Some 700) None = Some demo_revocation \<and>
     revocation_sign demo_prims demo_revocation demo_key2 = Inl RevKeyMismatch"
proof -
  obtain b where b: "revocation_to_body demo_revocation = Inr b" using demo_revocation(2) by blast
  have "unat (v_ts demo_revocation) \<le> unat (700 :: u64) + 300" by (simp add: demo_revocation(4))
  then show ?thesis
    using revocation_permanent [OF demo_b64 demo_b64_length demo_ed25519 demo_digest demo_key(1)
      demo_revocation(1,3) b] demo_keys_differ by metis
qed

theorem revocation_authentic_witness:
  "\<exists>b w. revocation_to_body demo_revocation = Inr b \<and>
     w = seal demo_prims REVOCATION_PREFIX (b @ sign_data demo_prims demo_key b) \<and>
     revocation_parse_and_verify demo_prims 0 w None None (Some 1200) (Some 200) = Some demo_revocation \<and>
     revocation_parse_and_verify demo_prims 0 w None None (Some 1201) (Some 200) \<noteq> Some demo_revocation"
proof -
  obtain b where b: "revocation_to_body demo_revocation = Inr b" using demo_revocation(2) by blast
  let ?w = "seal demo_prims REVOCATION_PREFIX (b @ sign_data demo_prims demo_key b)"
  note s = sign_verifies(1,2) [OF demo_ed25519 demo_digest demo_key(1), of b]
  have len: "length ?w \<le> 1200"
    by (rule revocation_wire_length [OF demo_b64_length b demo_revocation(1) s(2)])
  have "\<exists>body sig. wf_revocation demo_revocation \<and> revocation_to_body demo_revocation = Inr body \<and>
      length sig = 64 \<and> ?w = seal demo_prims REVOCATION_PREFIX (body @ sig) \<and>
      verify_signature demo_prims body sig (v_revoked_spk demo_revocation)"
    using b s demo_revocation by metis
  then show ?thesis
    using revocation_authentic [OF demo_b64, of 0 ?w None None "Some 1200" "Some 200" demo_revocation]
      revocation_authentic [OF demo_b64, of 0 ?w None None "Some 1201" "Some 200" demo_revocation]
      len b demo_revocation(4)
    by (simp add: unwrap_or_def)
qed

end
