(* ===== verification/RotationChain.thy ===== *)
theory RotationChain
  imports Revocation ClientTypes
begin

text \<open>
  Following the key rotations of pinned contacts, \<open>rotation_chain.rs\<close>. The records of a subject
  are fetched under two names, verified and split into rotations and revocations; \<open>walk\<close> is the loop
  from the pinned key along the rotations. The reader is the function of its answers, and the
  clock of the verifications one number.
\<close>

section \<open>The code\<close>

definition MAX_ROTATION_HOPS :: nat where
  "MAX_ROTATION_HOPS = 4"

definition derive_rrset_names :: "prims \<Rightarrow> rstr \<Rightarrow> byte \<Rightarrow> rstr list" where
  "derive_rrset_names P subject subject_type =
     (if subject_type \<noteq> SUBJECT_TYPE_USER_IDENTITY then []
      else (case split_once (ch CHR ''@'') subject of
         None \<Rightarrow> []
       | Some (u, h) \<Rightarrow>
           let user = trim u; host = trim h in
           if user = [] \<or> host = [] then []
           else
             let out = [rotation_rrset_name_zone_anchored host];
                 hash_form = rotation_rrset_name_user_identity P user host
             in if hash_form \<in> set out then out else out @ [hash_form]))"

text \<open>The records already collected are also the set \<open>seen\<close>.\<close>

fun fetch_loop :: "reader \<Rightarrow> rstr list \<Rightarrow> rstr list \<Rightarrow> rstr list" where
  "fetch_loop reader [] out = out"
| "fetch_loop reader (name # names) out =
     fetch_loop reader names (case reader name of Inr (Some records) \<Rightarrow> fold push_new records out | _ \<Rightarrow> out)"

definition fetch_records :: "reader \<Rightarrow> rstr list \<Rightarrow> client_error + rstr list" where
  "fetch_records reader names = Inr (fetch_loop reader names [])"

fun fetch_strict_loop :: "reader \<Rightarrow> rstr list \<Rightarrow> rstr list \<Rightarrow> client_error + rstr list" where
  "fetch_strict_loop reader [] out = Inr out"
| "fetch_strict_loop reader (name # names) out =
     (case reader name of
        Inl e \<Rightarrow> Inl (Net e)
      | Inr (Some records) \<Rightarrow> fetch_strict_loop reader names (fold push_new records out)
      | Inr None \<Rightarrow> fetch_strict_loop reader names out)"

definition fetch_records_strict :: "reader \<Rightarrow> rstr list \<Rightarrow> client_error + rstr list" where
  "fetch_records_strict reader names = fetch_strict_loop reader names []"

fun partition_records :: "prims \<Rightarrow> u64 \<Rightarrow> rstr list \<Rightarrow> rstr \<Rightarrow> byte \<Rightarrow> rotation_record list \<times> revocation_record list" where
  "partition_records P clock [] subject subject_type = ([], [])"
| "partition_records P clock (txt # records) subject subject_type =
     (case partition_records P clock records subject subject_type of (rotations, revocations) \<Rightarrow>
        if starts_with ROTATION_PREFIX txt then
          (case rotation_parse_and_verify P clock txt None (Some subject) None of
             Some rot \<Rightarrow> (if r_subject_type rot = subject_type then rot # rotations else rotations, revocations)
           | None \<Rightarrow> (rotations, revocations))
        else if starts_with REVOCATION_PREFIX txt then
          (case revocation_parse_and_verify P clock txt None (Some subject) None None of
             Some rvk \<Rightarrow> (rotations, if v_subject_type rvk = subject_type then rvk # revocations else revocations)
           | None \<Rightarrow> (rotations, revocations))
        else (rotations, revocations))"

definition by_old :: "rotation_record list \<Rightarrow> bytes \<Rightarrow> rotation_record list" where
  "by_old rotations old = filter (\<lambda>r. r_old_spk r = old) rotations"

text \<open>The loop over the hops, \<open>n\<close> of them left.\<close>

fun walk :: "rotation_record list \<Rightarrow> bytes set \<Rightarrow> nat \<Rightarrow> nat \<Rightarrow> bytes \<Rightarrow> bytes set \<Rightarrow> u64 option \<Rightarrow> bytes option" where
  "walk rotations revoked 0 hop head visited last_seq =
     (if by_old rotations head = [] then Some head else None)"
| "walk rotations revoked (Suc n) hop head visited last_seq =
     (if by_old rotations head = [] then (if hop = 0 then None else Some head)
      else if 1 < length (remdups (map r_new_spk (by_old rotations head))) then None
      else
        let rot = sort_key r_seq (by_old rotations head) ! 0 in
        if (case last_seq of None \<Rightarrow> False | Some prev \<Rightarrow> r_seq rot \<le> prev) then None
        else
          let next_spk = r_new_spk rot in
          if next_spk \<in> revoked then None
          else if next_spk \<in> visited then None
          else walk rotations revoked n (Suc hop) next_spk (insert next_spk visited) (Some (r_seq rot)))"

definition resolve_current_spk :: "prims \<Rightarrow> u64 \<Rightarrow> reader \<Rightarrow> bytes \<Rightarrow> rstr \<Rightarrow> byte \<Rightarrow> client_error + bytes option" where
  "resolve_current_spk P clock reader pinned_spk subject subject_type =
     (let names = derive_rrset_names P subject subject_type in
      if names = [] then Inr None
      else andThen (fetch_records reader names) (\<lambda>records.
        if records = [] then Inr None
        else
          let (rotations, revocations) = partition_records P clock records subject subject_type in
          if list_ex (\<lambda>r. v_revoked_spk r = pinned_spk) revocations then Inr None
          else Inr (walk rotations (set (map v_revoked_spk revocations)) MAX_ROTATION_HOPS 0 pinned_spk {pinned_spk} None)))"

definition is_spk_revoked :: "prims \<Rightarrow> u64 \<Rightarrow> reader \<Rightarrow> bytes \<Rightarrow> rstr \<Rightarrow> byte \<Rightarrow> client_error + bool" where
  "is_spk_revoked P clock reader candidate_spk subject subject_type =
     (let names = derive_rrset_names P subject subject_type in
      if names = [] then Inr False
      else andThen (fetch_records_strict reader names) (\<lambda>records.
        if records = [] then Inr False
        else
          let (rotations, revocations) = partition_records P clock records subject subject_type
          in Inr (list_ex (\<lambda>r. v_revoked_spk r = candidate_spk) revocations)))"

definition contact_subject :: "contact \<Rightarrow> rstr" where
  "contact_subject c = ct_username c @ ascii ''@'' @ ct_domain c"

fun rotation_manifest_accepted :: "prims \<Rightarrow> u64 \<Rightarrow> reader \<Rightarrow> contact list \<Rightarrow> bytes \<Rightarrow> client_error + bool" where
  "rotation_manifest_accepted P clock reader [] sender_spk = Inr False"
| "rotation_manifest_accepted P clock reader (c # contacts) sender_spk =
     (if ct_username c = [] \<or> ct_domain c = [] then rotation_manifest_accepted P clock reader contacts sender_spk
      else andThen (resolve_current_spk P clock reader (ct_ed25519_spk c) (contact_subject c) SUBJECT_TYPE_USER_IDENTITY)
        (\<lambda>r. case r of
           Some head \<Rightarrow> if head = sender_spk then Inr True else rotation_manifest_accepted P clock reader contacts sender_spk
         | None \<Rightarrow> rotation_manifest_accepted P clock reader contacts sender_spk))"

fun rotation_manifest_revoked :: "prims \<Rightarrow> u64 \<Rightarrow> reader \<Rightarrow> contact list \<Rightarrow> bytes \<Rightarrow> client_error + bool" where
  "rotation_manifest_revoked P clock reader [] sender_spk = Inr False"
| "rotation_manifest_revoked P clock reader (c # contacts) sender_spk =
     (if ct_username c = [] \<or> ct_domain c = [] then rotation_manifest_revoked P clock reader contacts sender_spk
      else andThen (is_spk_revoked P clock reader sender_spk (contact_subject c) SUBJECT_TYPE_USER_IDENTITY)
        (\<lambda>b. if b then Inr True else rotation_manifest_revoked P clock reader contacts sender_spk))"

section \<open>The records of a subject\<close>

text \<open>The answers a reader gives for a list of names.\<close>

definition answered :: "reader \<Rightarrow> rstr list \<Rightarrow> rstr set" where
  "answered reader names = \<Union> {set rs |rs. \<exists>n \<in> set names. reader n = Inr (Some rs)}"

lemma answered_Cons: "answered reader (n # ns) =
    (case reader n of Inr (Some rs) \<Rightarrow> set rs | _ \<Rightarrow> {}) \<union> answered reader ns"
  by (auto simp: answered_def split: sum.splits option.splits)

lemma fetch_loop_set: "set (fetch_loop reader names out) = set out \<union> answered reader names"
proof (induction names arbitrary: out)
  case (Cons n names)
  show ?case unfolding fetch_loop.simps Cons.IH answered_Cons
    using fold_push_new by (auto split: sum.splits option.splits)
qed (simp add: answered_def)

lemma fetch_strict_loop_ok:
  "fetch_strict_loop reader names out = Inr rs \<Longrightarrow>
    set rs = set out \<union> answered reader names \<and> (\<forall>n \<in> set names. \<exists>a. reader n = Inr a)"
proof (induction names arbitrary: out)
  case (Cons n names)
  then show ?case
    using fold_push_new by (fastforce simp: answered_Cons split: sum.splits option.splits)
qed (simp add: answered_def)

lemma fetch_strict_loop_total:
  "\<forall>n \<in> set names. \<exists>a. reader n = Inr a \<Longrightarrow> \<exists>rs. fetch_strict_loop reader names out = Inr rs"
  by (induction names arbitrary: out) (fastforce split: option.splits)+

text \<open>The verified records of a subject among a set of texts.\<close>

definition verified_rotations :: "prims \<Rightarrow> u64 \<Rightarrow> rstr set \<Rightarrow> rstr \<Rightarrow> byte \<Rightarrow> rotation_record set" where
  "verified_rotations P clock texts subject subject_type =
     {r. r_subject_type r = subject_type \<and> (\<exists>t \<in> texts. rotation_parse_and_verify P clock t None (Some subject) None = Some r)}"

definition verified_revocations :: "prims \<Rightarrow> u64 \<Rightarrow> rstr set \<Rightarrow> rstr \<Rightarrow> byte \<Rightarrow> revocation_record set" where
  "verified_revocations P clock texts subject subject_type =
     {r. v_subject_type r = subject_type \<and> (\<exists>t \<in> texts. revocation_parse_and_verify P clock t None (Some subject) None None = Some r)}"

lemma parse_prefix:
  "rotation_parse_and_verify P clock t old subject now = Some r \<Longrightarrow> starts_with ROTATION_PREFIX t"
  "revocation_parse_and_verify P clock t old subject now age = Some v \<Longrightarrow> starts_with REVOCATION_PREFIX t"
  by (auto simp: rotation_parse_and_verify_def revocation_parse_and_verify_def split: if_splits)

lemma prefixes_differ: "starts_with ROTATION_PREFIX t \<Longrightarrow> \<not> starts_with REVOCATION_PREFIX t"
  by (auto simp: starts_with_iff ROTATION_PREFIX_def REVOCATION_PREFIX_def ascii_def ch_def)

lemma partition_records_set:
  "set (fst (partition_records P clock texts subject st)) = verified_rotations P clock (set texts) subject st \<and>
   set (snd (partition_records P clock texts subject st)) = verified_revocations P clock (set texts) subject st"
proof (induction texts)
  case (Cons t texts)
  have rot: "verified_rotations P clock (set (t # texts)) subject st =
      (case rotation_parse_and_verify P clock t None (Some subject) None of
         Some r \<Rightarrow> if r_subject_type r = st then {r} else {} | None \<Rightarrow> {}) \<union> verified_rotations P clock (set texts) subject st"
    by (auto simp: verified_rotations_def split: option.splits)
  have rev: "verified_revocations P clock (set (t # texts)) subject st =
      (case revocation_parse_and_verify P clock t None (Some subject) None None of
         Some r \<Rightarrow> if v_subject_type r = st then {r} else {} | None \<Rightarrow> {}) \<union> verified_revocations P clock (set texts) subject st"
    by (auto simp: verified_revocations_def split: option.splits)
  have no: "\<not> starts_with ROTATION_PREFIX t \<Longrightarrow> rotation_parse_and_verify P clock t None (Some subject) None = None"
    "\<not> starts_with REVOCATION_PREFIX t \<Longrightarrow> revocation_parse_and_verify P clock t None (Some subject) None None = None"
    using parse_prefix by (metis not_None_eq)+
  show ?case
    unfolding rot rev using Cons.IH no prefixes_differ [of t]
    by (auto simp: case_prod_beta split: option.splits)
qed (simp add: verified_rotations_def verified_revocations_def)

section \<open>The walk\<close>

text \<open>A path of rotations from a key to one without successors, as the loop takes it.\<close>

fun steps_from :: "rotation_record set \<Rightarrow> bytes set \<Rightarrow> bytes \<Rightarrow> bytes set \<Rightarrow> u64 option \<Rightarrow> rotation_record list \<Rightarrow> bool" where
  "steps_from rots revoked head visited last_seq [] \<longleftrightarrow> (\<forall>r \<in> rots. r_old_spk r \<noteq> head)"
| "steps_from rots revoked head visited last_seq (p # ps) \<longleftrightarrow>
     p \<in> rots \<and> r_old_spk p = head \<and>
     (\<forall>r \<in> rots. r_old_spk r = head \<longrightarrow> r_new_spk r = r_new_spk p \<and> r_seq p \<le> r_seq r) \<and>
     (\<forall>prev. last_seq = Some prev \<longrightarrow> prev < r_seq p) \<and> r_new_spk p \<notin> revoked \<and> r_new_spk p \<notin> visited \<and>
     steps_from rots revoked (r_new_spk p) (insert (r_new_spk p) visited) (Some (r_seq p)) ps"

definition end_key :: "bytes \<Rightarrow> rotation_record list \<Rightarrow> bytes" where
  "end_key head path = last (head # map r_new_spk path)"

lemma by_old_iff: "r \<in> set (by_old rots k) \<longleftrightarrow> r \<in> set rots \<and> r_old_spk r = k"
  by (auto simp: by_old_def)

lemma ball_by_old: "(\<forall>r \<in> set (by_old rots k). Q r) \<longleftrightarrow> (\<forall>r \<in> set rots. r_old_spk r = k \<longrightarrow> Q r)"
  by (auto simp: by_old_def)

lemma by_old_empty: "by_old rots k = [] \<longleftrightarrow> (\<forall>r \<in> set rots. r_old_spk r \<noteq> k)"
  by (auto simp: by_old_def filter_empty_conv)

lemma one_value: "xs \<noteq> [] \<Longrightarrow> \<not> 1 < length (remdups xs) \<longleftrightarrow> (\<forall>x \<in> set xs. \<forall>y \<in> set xs. x = y)"
proof -
  assume "xs \<noteq> []"
  then obtain a where "a \<in> set xs" by (cases xs) auto
  then have "(\<forall>x \<in> set xs. \<forall>y \<in> set xs. x = y) \<longleftrightarrow> set xs = {a}" by auto
  moreover have "length (remdups xs) = card (set xs)" by (simp add: length_remdups_card_conv)
  moreover have "card (set xs) \<le> 1 \<longleftrightarrow> set xs = {a}"
    using \<open>a \<in> set xs\<close> by (metis One_nat_def card_1_singletonE card.empty card_0_eq empty_iff finite_set is_singletonI
        is_singleton_altdef le_0_eq le_Suc_eq order_refl singletonD)
  ultimately show ?thesis by (simp add: not_less)
qed

lemma least_first:
  assumes "xs \<noteq> []"
  shows "sort_key f xs ! 0 \<in> set xs \<and> (\<forall>x \<in> set xs. f (sort_key f xs ! 0) \<le> f x)"
proof -
  let ?s = "sort_key f xs"
  have ne: "?s \<noteq> []" using assms by (metis set_empty set_sort)
  then obtain y ys where s: "?s = y # ys" by (cases ?s) auto
  have "sorted (map f ?s)" by simp
  then have "\<forall>x \<in> set ?s. f y \<le> f x" unfolding s by auto
  moreover have "set ?s = set xs" by simp
  ultimately show ?thesis using s by (metis list.set_intros(1) nth_Cons_0)
qed

lemma walk_iff:
  "walk rots revoked n hop head visited last_seq = Some k \<longleftrightarrow>
   (\<exists>path. length path \<le> n \<and> (hop = 0 \<longrightarrow> n = 0 \<or> path \<noteq> []) \<and>
      steps_from (set rots) revoked head visited last_seq path \<and> end_key head path = k)"
proof (induction n arbitrary: hop head visited last_seq)
  case 0
  then show ?case by (auto simp: by_old_empty end_key_def)
next
  case (Suc n)
  let ?c = "by_old rots head"
  obtain p where pd: "sort_key r_seq ?c ! 0 = p" by simp
  show ?case
  proof (cases "?c = []")
    case True
    then have no: "\<forall>r \<in> set rots. r_old_spk r \<noteq> head" by (simp add: by_old_empty)
    then have "steps_from (set rots) revoked head visited last_seq path \<longleftrightarrow> path = []" for path by (cases path) auto
    then show ?thesis using True by (auto simp: end_key_def)
  next
    case False
    have p: "p \<in> set rots" "r_old_spk p = head" "\<forall>r \<in> set rots. r_old_spk r = head \<longrightarrow> r_seq p \<le> r_seq r"
      using least_first [OF False, of r_seq] unfolding pd by (auto simp: by_old_iff)
    have unique: "\<not> 1 < length (remdups (map r_new_spk ?c)) \<longleftrightarrow>
        (\<forall>r \<in> set rots. r_old_spk r = head \<longrightarrow> r_new_spk r = r_new_spk p)"
    proof -
      have "p \<in> set ?c" using p(1,2) by (simp add: by_old_iff)
      then have "(\<forall>x \<in> set (map r_new_spk ?c). \<forall>y \<in> set (map r_new_spk ?c). x = y) \<longleftrightarrow> (\<forall>r \<in> set ?c. r_new_spk r = r_new_spk p)"
        unfolding set_map by (metis (no_types, lifting) image_iff imageI)
      then show ?thesis using one_value [of "map r_new_spk ?c"] False unfolding ball_by_old by simp
    qed
    let ?next = "\<lambda>path. steps_from (set rots) revoked (r_new_spk p) (insert (r_new_spk p) visited) (Some (r_seq p)) path"
    have w: "walk rots revoked (Suc n) hop head visited last_seq = Some k \<longleftrightarrow>
        \<not> 1 < length (remdups (map r_new_spk ?c)) \<and> (\<forall>prev. last_seq = Some prev \<longrightarrow> prev < r_seq p) \<and>
        r_new_spk p \<notin> revoked \<and> r_new_spk p \<notin> visited \<and>
        walk rots revoked n (Suc hop) (r_new_spk p) (insert (r_new_spk p) visited) (Some (r_seq p)) = Some k"
      using False by (auto simp: Let_def pd not_le split: option.split)
    show ?thesis
    proof
      assume "walk rots revoked (Suc n) hop head visited last_seq = Some k"
      then obtain path where g: "\<forall>r \<in> set rots. r_old_spk r = head \<longrightarrow> r_new_spk r = r_new_spk p"
        "\<forall>prev. last_seq = Some prev \<longrightarrow> prev < r_seq p" "r_new_spk p \<notin> revoked" "r_new_spk p \<notin> visited"
        "length path \<le> n" "?next path" "end_key (r_new_spk p) path = k"
        unfolding w unique Suc.IH by blast
      have "steps_from (set rots) revoked head visited last_seq (p # path)"
        unfolding steps_from.simps using g(1-4,6) p by blast
      moreover have "end_key head (p # path) = k" using g(7) by (simp add: end_key_def)
      moreover have "length (p # path) \<le> Suc n" "p # path \<noteq> []" using g(5) by simp_all
      ultimately show "\<exists>path. length path \<le> Suc n \<and> (hop = 0 \<longrightarrow> Suc n = 0 \<or> path \<noteq> []) \<and>
          steps_from (set rots) revoked head visited last_seq path \<and> end_key head path = k"
        by blast
    next
      assume "\<exists>path. length path \<le> Suc n \<and> (hop = 0 \<longrightarrow> Suc n = 0 \<or> path \<noteq> []) \<and>
          steps_from (set rots) revoked head visited last_seq path \<and> end_key head path = k"
      then obtain path where g: "length path \<le> Suc n" "steps_from (set rots) revoked head visited last_seq path"
        "end_key head path = k" by blast
      moreover have "path \<noteq> []" using g(2) p(1,2) by auto
      ultimately obtain q ps where path: "path = q # ps" by (cases path) auto
      have q: "q \<in> set rots" "r_old_spk q = head" "\<forall>r \<in> set rots. r_old_spk r = head \<longrightarrow> r_new_spk r = r_new_spk q \<and> r_seq q \<le> r_seq r"
        using g(2) unfolding path steps_from.simps by blast+
      note pq = q(3) [rule_format, OF p(1,2)] p(3) [rule_format, OF q(1,2)]
      have eq: "r_new_spk p = r_new_spk q" by (rule pq(1) [THEN conjunct1])
      have eq2: "r_seq p = r_seq q" by (rule order_antisym [OF pq(2) pq(1) [THEN conjunct2]])
      have g': "steps_from (set rots) revoked (r_new_spk q) (insert (r_new_spk q) visited) (Some (r_seq q)) ps"
        "\<forall>prev. last_seq = Some prev \<longrightarrow> prev < r_seq q" "r_new_spk q \<notin> revoked" "r_new_spk q \<notin> visited"
        using g(2) unfolding path steps_from.simps by blast+
      have "end_key (r_new_spk q) ps = k" "length ps \<le> n" using g(1,3) by (simp_all add: path end_key_def)
      with g'(1) have "walk rots revoked n (Suc hop) (r_new_spk p) (insert (r_new_spk p) visited) (Some (r_seq p)) = Some k"
        unfolding Suc.IH eq eq2 by blast
      moreover have "\<forall>r \<in> set rots. r_old_spk r = head \<longrightarrow> r_new_spk r = r_new_spk p" unfolding eq using q(3) by blast
      ultimately show "walk rots revoked (Suc n) hop head visited last_seq = Some k"
        unfolding w unique using g'(2-4) unfolding eq eq2 by blast
    qed
  qed
qed

text \<open>What makes a path of rotations trustworthy.\<close>

definition trusted_path :: "rotation_record set \<Rightarrow> bytes set \<Rightarrow> bytes \<Rightarrow> rotation_record list \<Rightarrow> bool" where
  "trusted_path rots revoked pinned path \<longleftrightarrow> (let keys = pinned # map r_new_spk path in
     1 \<le> length path \<and> length path \<le> 4 \<and> distinct keys \<and> set keys \<inter> revoked = {} \<and> sorted_wrt (<) (map r_seq path) \<and>
     (\<forall>i < length path. path ! i \<in> rots \<and> r_old_spk (path ! i) = keys ! i \<and>
        (\<forall>r \<in> rots. r_old_spk r = keys ! i \<longrightarrow> r_new_spk r = r_new_spk (path ! i) \<and> r_seq (path ! i) \<le> r_seq r)) \<and>
     (\<forall>r \<in> rots. r_old_spk r \<noteq> last keys))"

lemma steps_from_iff:
  "steps_from rots revoked head visited last_seq path \<longleftrightarrow>
   distinct (map r_new_spk path) \<and> r_new_spk ` set path \<inter> (revoked \<union> visited) = {} \<and> sorted_wrt (<) (map r_seq path) \<and>
   (\<forall>prev. last_seq = Some prev \<longrightarrow> (\<forall>p \<in> set path. prev < r_seq p)) \<and>
   (\<forall>i < length path. path ! i \<in> rots \<and> r_old_spk (path ! i) = (head # map r_new_spk path) ! i \<and>
      (\<forall>r \<in> rots. r_old_spk r = (head # map r_new_spk path) ! i \<longrightarrow> r_new_spk r = r_new_spk (path ! i) \<and> r_seq (path ! i) \<le> r_seq r)) \<and>
   (\<forall>r \<in> rots. r_old_spk r \<noteq> last (head # map r_new_spk path))"
proof (induction path arbitrary: head visited last_seq)
  case (Cons p path)
  have all: "(\<forall>i < length (p # path). Q i) \<longleftrightarrow> Q 0 \<and> (\<forall>i < length path. Q (Suc i))" for Q :: "nat \<Rightarrow> bool"
    by (auto simp: less_Suc_eq_0_disj)
  let ?new = "r_new_spk p" and ?ns = "map r_new_spk path"
  have keys: "?new \<notin> revoked \<and> ?new \<notin> visited \<and> distinct ?ns \<and> r_new_spk ` set path \<inter> (revoked \<union> insert ?new visited) = {} \<longleftrightarrow>
      distinct (?new # ?ns) \<and> r_new_spk ` set (p # path) \<inter> (revoked \<union> visited) = {}"
    by auto
  have seqs: "(\<forall>prev. last_seq = Some prev \<longrightarrow> prev < r_seq p) \<and> sorted_wrt (<) (map r_seq path) \<and>
        (\<forall>prev. Some (r_seq p) = Some prev \<longrightarrow> (\<forall>q \<in> set path. prev < r_seq q)) \<longleftrightarrow>
      sorted_wrt (<) (r_seq p # map r_seq path) \<and> (\<forall>prev. last_seq = Some prev \<longrightarrow> (\<forall>q \<in> set (p # path). prev < r_seq q))"
    by (auto dest: order_less_trans)
  have tail: "last (head # ?new # ?ns) = last (?new # ?ns)" by simp
  show ?case unfolding steps_from.simps Cons.IH all list.map tail nth_Cons_0 nth_Cons_Suc using keys seqs by satx
qed simp

lemma trusted_path_steps:
  "trusted_path rots revoked pinned path \<longleftrightarrow>
   path \<noteq> [] \<and> length path \<le> 4 \<and> pinned \<notin> revoked \<and> steps_from rots revoked pinned {pinned} None path"
proof -
  have "1 \<le> length path \<longleftrightarrow> path \<noteq> []" by (cases path) simp_all
  moreover have "distinct (pinned # map r_new_spk path) \<and> set (pinned # map r_new_spk path) \<inter> revoked = {} \<longleftrightarrow>
      pinned \<notin> revoked \<and> distinct (map r_new_spk path) \<and> r_new_spk ` set path \<inter> (revoked \<union> {pinned}) = {}"
    by auto
  ultimately show ?thesis
    unfolding trusted_path_def Let_def steps_from_iff by (simp only: option.distinct simp_thms) satx
qed

abbreviation subject_texts :: "prims \<Rightarrow> reader \<Rightarrow> rstr \<Rightarrow> rstr set" where
  "subject_texts P reader subject \<equiv> answered reader (derive_rrset_names P subject SUBJECT_TYPE_USER_IDENTITY)"

lemma resolve_current_spk_iff:
  "resolve_current_spk P clock reader pinned subject SUBJECT_TYPE_USER_IDENTITY = Inr (Some head) \<longleftrightarrow>
   (\<exists>path. trusted_path (verified_rotations P clock (subject_texts P reader subject) subject SUBJECT_TYPE_USER_IDENTITY)
      (v_revoked_spk ` verified_revocations P clock (subject_texts P reader subject) subject SUBJECT_TYPE_USER_IDENTITY) pinned path \<and>
      end_key pinned path = head)"
proof -
  let ?names = "derive_rrset_names P subject SUBJECT_TYPE_USER_IDENTITY"
  let ?texts = "fetch_loop reader ?names []"
  let ?part = "partition_records P clock ?texts subject SUBJECT_TYPE_USER_IDENTITY"
  have texts: "set ?texts = subject_texts P reader subject" by (simp add: fetch_loop_set)
  have none: "fst ?part = []" "snd ?part = []" if "?names = [] \<or> ?texts = []" using that by auto
  have no_path: "\<not> trusted_path {} revoked pinned path" for revoked path
    unfolding trusted_path_steps by (cases path) simp_all
  have "resolve_current_spk P clock reader pinned subject SUBJECT_TYPE_USER_IDENTITY = Inr (Some head) \<longleftrightarrow>
      (\<exists>path. trusted_path (set (fst ?part)) (v_revoked_spk ` set (snd ?part)) pinned path \<and> end_key pinned path = head)"
  proof (cases "?names = [] \<or> ?texts = []")
    case True
    then show ?thesis using none [OF True] no_path
      by (auto simp: resolve_current_spk_def fetch_records_def Let_def)
  next
    case False
    have "resolve_current_spk P clock reader pinned subject SUBJECT_TYPE_USER_IDENTITY =
        (if pinned \<in> v_revoked_spk ` set (snd ?part) then Inr None
         else Inr (walk (fst ?part) (v_revoked_spk ` set (snd ?part)) 4 0 pinned {pinned} None))"
      using False by (auto simp: resolve_current_spk_def fetch_records_def Let_def case_prod_beta list_ex_iff MAX_ROTATION_HOPS_def)
    then show ?thesis unfolding trusted_path_steps by (auto simp: walk_iff)
  qed
  then show ?thesis unfolding partition_records_set [THEN conjunct1] partition_records_set [THEN conjunct2] texts .
qed

lemma resolve_never_fails: "\<exists>r. resolve_current_spk P clock reader pinned subject st = Inr r"
  by (auto simp: resolve_current_spk_def fetch_records_def Let_def case_prod_beta)

lemma is_spk_revoked_False:
  "is_spk_revoked P clock reader spk subject SUBJECT_TYPE_USER_IDENTITY = Inr False \<longleftrightarrow>
   (\<forall>n \<in> set (derive_rrset_names P subject SUBJECT_TYPE_USER_IDENTITY). \<exists>a. reader n = Inr a) \<and>
   spk \<notin> v_revoked_spk ` verified_revocations P clock (subject_texts P reader subject) subject SUBJECT_TYPE_USER_IDENTITY"
proof -
  let ?names = "derive_rrset_names P subject SUBJECT_TYPE_USER_IDENTITY"
  have "is_spk_revoked P clock reader spk subject SUBJECT_TYPE_USER_IDENTITY = Inr False \<longleftrightarrow>
      (\<exists>texts. fetch_strict_loop reader ?names [] = Inr texts \<and>
        spk \<notin> v_revoked_spk ` verified_revocations P clock (set texts) subject SUBJECT_TYPE_USER_IDENTITY)"
  proof -
    have e: "is_spk_revoked P clock reader spk subject SUBJECT_TYPE_USER_IDENTITY =
        andThen (fetch_strict_loop reader ?names []) (\<lambda>texts.
          Inr (spk \<in> v_revoked_spk ` set (snd (partition_records P clock texts subject SUBJECT_TYPE_USER_IDENTITY))))"
    proof (cases "?names = []")
      case True
      then show ?thesis by (simp add: is_spk_revoked_def)
    next
      case False
      have "(if texts = [] then Inr False else case partition_records P clock texts subject SUBJECT_TYPE_USER_IDENTITY of
            (rotations, revocations) \<Rightarrow> Inr (list_ex (\<lambda>r. v_revoked_spk r = spk) revocations)) =
          (Inr (spk \<in> v_revoked_spk ` set (snd (partition_records P clock texts subject SUBJECT_TYPE_USER_IDENTITY))) :: client_error + bool)"
        for texts
        by (auto simp: case_prod_beta list_ex_iff image_iff)
      then show ?thesis using False by (simp only: is_spk_revoked_def fetch_records_strict_def Let_def if_False)
    qed
    show ?thesis unfolding e andThen_Inr partition_records_set [THEN conjunct2] by simp
  qed
  moreover have "fetch_strict_loop reader ?names [] = Inr texts \<Longrightarrow> set texts = subject_texts P reader subject \<and>
      (\<forall>n \<in> set ?names. \<exists>a. reader n = Inr a)" for texts
    using fetch_strict_loop_ok [of reader ?names "[]" texts] by simp
  moreover have "(\<forall>n \<in> set ?names. \<exists>a. reader n = Inr a) \<Longrightarrow> \<exists>texts. fetch_strict_loop reader ?names [] = Inr texts"
    by (rule fetch_strict_loop_total)
  ultimately show ?thesis by metis
qed

section \<open>Properties\<close>

text \<open>C38: Exactly which keys the rotation chain of a contact makes trusted. The chain ends at a key if and only if there is
  a path of one to four rotations from the pinned key to it, each verified (co-signed by its two keys, for
  the subject, not expired) and found under the names of the subject, such that sequence numbers
  strictly increase, no key repeats and none of them, the pinned one included, has a verified
  revocation, all rotations from a key on the path agree on its successor, and the last key
  has no successor; a sender that is not pinned is accepted exactly when the chain of some
  contact with a name and a domain ends at its key. Failing lookups count as absent records.\<close>

theorem rotation_chain_exact:
  "(resolve_current_spk P clock reader pinned subject SUBJECT_TYPE_USER_IDENTITY = Inr (Some head) \<longleftrightarrow>
    (\<exists>path. trusted_path (verified_rotations P clock (subject_texts P reader subject) subject SUBJECT_TYPE_USER_IDENTITY)
       (v_revoked_spk ` verified_revocations P clock (subject_texts P reader subject) subject SUBJECT_TYPE_USER_IDENTITY) pinned path \<and>
       last (pinned # map r_new_spk path) = head)) \<and>
   rotation_manifest_accepted P clock reader contacts sender = Inr (\<exists>c \<in> set contacts. ct_username c \<noteq> [] \<and> ct_domain c \<noteq> [] \<and>
     resolve_current_spk P clock reader (ct_ed25519_spk c) (contact_subject c) SUBJECT_TYPE_USER_IDENTITY = Inr (Some sender))"
proof -
  have "rotation_manifest_accepted P clock reader contacts sender = Inr (\<exists>c \<in> set contacts. ct_username c \<noteq> [] \<and> ct_domain c \<noteq> [] \<and>
     resolve_current_spk P clock reader (ct_ed25519_spk c) (contact_subject c) SUBJECT_TYPE_USER_IDENTITY = Inr (Some sender))"
  proof (induction contacts)
    case (Cons c contacts)
    obtain r where r: "resolve_current_spk P clock reader (ct_ed25519_spk c) (contact_subject c) SUBJECT_TYPE_USER_IDENTITY = Inr r"
      using resolve_never_fails by blast
    show ?case using Cons.IH r by (auto split: option.splits)
  qed simp
  then show ?thesis using resolve_current_spk_iff unfolding end_key_def by blast
qed

text \<open>C39: The revocation check fails closed. It clears a key if and only if, for every contact with a name and a domain,
  all the names of its subject were looked up without an error and no verified revocation of the key was
  found under them; so a resolver that suppresses one of the lookups cannot hide a revocation.\<close>

theorem revocation_check_closed:
  "rotation_manifest_revoked P clock reader contacts sender = Inr False \<longleftrightarrow>
   (\<forall>c \<in> set contacts. ct_username c \<noteq> [] \<and> ct_domain c \<noteq> [] \<longrightarrow>
      (\<forall>n \<in> set (derive_rrset_names P (contact_subject c) SUBJECT_TYPE_USER_IDENTITY). \<exists>a. reader n = Inr a) \<and>
      sender \<notin> v_revoked_spk ` verified_revocations P clock (subject_texts P reader (contact_subject c)) (contact_subject c)
        SUBJECT_TYPE_USER_IDENTITY)"
proof (induction contacts)
  case (Cons c contacts)
  show ?case
    using Cons.IH is_spk_revoked_False [of P clock reader sender "contact_subject c"]
    by (cases "is_spk_revoked P clock reader sender (contact_subject c) SUBJECT_TYPE_USER_IDENTITY") auto
qed simp

lemma demo_names: "derive_rrset_names P (ascii ''a@b'') SUBJECT_TYPE_USER_IDENTITY \<noteq> []"
proof -
  have "split_once (ch CHR ''@'') (ascii ''a@b'') = Some (ascii ''a'', ascii ''b'')"
    by (simp add: split_once_Some ascii_def ch_def)
  moreover have "trim (ascii ''a'') = ascii ''a''" "trim (ascii ''b'') = ascii ''b''"
    by (simp_all add: trim_def char_list_def is_whitespace_def ascii_def ch_def)
  moreover have "ascii ''a'' \<noteq> []" "ascii ''b'' \<noteq> []" by (simp_all add: ascii_def)
  ultimately show ?thesis by (simp add: derive_rrset_names_def Let_def)
qed

theorem revocation_check_closed_witness:
  "rotation_manifest_revoked demo_prims 0 (\<lambda>_. Inr None)
     [\<lparr> ct_username = ascii ''a'', ct_x25519_pk = [], ct_ed25519_spk = [], ct_domain = ascii ''b'' \<rparr>] [7] = Inr False \<and>
   rotation_manifest_revoked demo_prims 0 (\<lambda>_. Inl NoUsableAnswer)
     [\<lparr> ct_username = ascii ''a'', ct_x25519_pk = [], ct_ed25519_spk = [], ct_domain = ascii ''b'' \<rparr>] [7] \<noteq> Inr False"
proof -
  let ?c = "\<lparr> ct_username = ascii ''a'', ct_x25519_pk = [], ct_ed25519_spk = [], ct_domain = ascii ''b'' \<rparr>"
  have c: "contact_subject ?c = ascii ''a@b''" "ct_username ?c \<noteq> []" "ct_domain ?c \<noteq> []"
    by (simp_all add: contact_subject_def ascii_def)
  obtain n ns where n: "derive_rrset_names demo_prims (ascii ''a@b'') SUBJECT_TYPE_USER_IDENTITY = n # ns"
    using demo_names [of demo_prims] by (cases "derive_rrset_names demo_prims (ascii ''a@b'') SUBJECT_TYPE_USER_IDENTITY") auto
  have "verified_revocations demo_prims 0 (answered (\<lambda>_. Inr None) ns') s st = {}" for ns' s st
    by (simp add: answered_def verified_revocations_def)
  then show ?thesis
    using revocation_check_closed [of demo_prims 0 "\<lambda>_. Inr None" "[?c]" "[7]"]
      revocation_check_closed [of demo_prims 0 "\<lambda>_. Inl NoUsableAnswer" "[?c]" "[7]"] c n by auto
qed

end
