(* ===== verification/Client.thy ===== *)
theory Client
  imports Addressing ContactStore PrekeyStore ReplayCache IntroQueue RotationChain
begin

text \<open>
  The state of \<open>DmpClient\<close> and its operations besides sending and receiving: construction (\<open>client.rs\<close>),
  contacts (\<open>contacts.rs\<close>), publishing (\<open>publish.rs\<close>, \<open>unpublish.rs\<close>) and the quarantine (\<open>intro.rs\<close>). Every
  operation takes the DNS and its state, the readings of the clock, and for each statement on a database
  whether it works; it returns the new states.
\<close>

section \<open>The client\<close>

record dmp_client =
  cl_username :: rstr
  cl_domain :: rstr
  cl_crypto :: dmp_crypto
  cl_user_id :: bytes
  cl_prekeys :: prekey_table
  cl_contacts :: contact_table
  cl_replay :: replay_cache
  cl_intros :: intro_queue
  cl_rotation_chain_enabled :: bool

record client_config =
  cfg_username :: rstr
  cfg_passphrase :: rstr
  cfg_domain :: rstr
  cfg_kdf_salt :: "bytes option"
  cfg_rotation_chain_enabled :: bool

text \<open>Opening the four connections to the file under a key is an argument: what the tables hold.\<close>

type_synonym opened = "storage_error + prekey_table \<times> contact_table \<times> replay_table \<times> intro_queue"

definition client_new :: "prims \<Rightarrow> (bytes \<Rightarrow> opened) \<Rightarrow> client_config \<Rightarrow> client_error + dmp_client" where
  "client_new P open_db config =
     (if trim (cfg_username config) = [] then Inl (InvalidClientConfig ''username must not be empty'')
      else if trim (cfg_domain config) = [] then Inl (InvalidClientConfig ''domain must not be empty'')
      else
        andThen (mapErr CryptoFailed (from_passphrase P (cfg_passphrase config) (cfg_kdf_salt config))) (\<lambda>crypto.
        let user_id = derive_user_id P (x25519_pub crypto); storage_key = derive_storage_key P crypto in
        andThen (mapErr Storage (open_db storage_key)) (\<lambda>(prekeys, contacts, replay, intros).
          Inr \<lparr> cl_username = cfg_username config, cl_domain = cfg_domain config, cl_crypto = crypto, cl_user_id = user_id,
                cl_prekeys = prekeys, cl_contacts = contacts, cl_replay = replay_new replay, cl_intros = intros,
                cl_rotation_chain_enabled = cfg_rotation_chain_enabled config \<rparr>)))"

section \<open>Contacts\<close>

definition to_new_contact :: "contact \<Rightarrow> new_contact" where
  "to_new_contact self = \<lparr> nc_username = ct_username self, nc_x25519_pk = ct_x25519_pk self,
     nc_ed25519_spk = ct_ed25519_spk self, nc_require_signing_key = False, nc_domain = ct_domain self \<rparr>"

definition from_stored :: "stored_contact \<Rightarrow> contact" where
  "from_stored stored = \<lparr> ct_username = sc_username stored, ct_x25519_pk = sc_x25519_pk stored,
     ct_ed25519_spk = sc_ed25519_spk stored, ct_domain = sc_domain stored \<rparr>"

text \<open>The loop over the records: the first verified one that fits.\<close>

fun first_identity :: "prims \<Rightarrow> (identity_record \<Rightarrow> bool) \<Rightarrow> rstr list \<Rightarrow> identity_record option" where
  "first_identity P fits [] = None"
| "first_identity P fits (r # rs) =
     (case identity_parse_and_verify P r of
        Some (parsed, _) \<Rightarrow> if fits parsed then Some parsed else first_identity P fits rs
      | None \<Rightarrow> first_identity P fits rs)"

definition fetch_identity :: "prims \<Rightarrow> 'w dns \<Rightarrow> rstr \<Rightarrow> 'w \<Rightarrow> client_error + contact" where
  "fetch_identity P D address w =
     (case parse_address address of
        None \<Rightarrow> Inl (InvalidAddress address)
      | Some (user, host) \<Rightarrow>
          let name = identity_domain P user host in
          (case d_query D w name of
             Inl e \<Rightarrow> Inl (Net e)
           | Inr None \<Rightarrow> Inl (NoRecordFound name)
           | Inr (Some records) \<Rightarrow>
               (case first_identity P (\<lambda>parsed. i_username parsed = user) records of
                  Some parsed \<Rightarrow> Inr \<lparr> ct_username = i_username parsed, ct_x25519_pk = i_x25519_pk parsed,
                    ct_ed25519_spk = i_ed25519_spk parsed, ct_domain = host \<rparr>
                | None \<Rightarrow> Inl (VerifyFailed name))))"

definition recipient_versions :: "prims \<Rightarrow> 'w dns \<Rightarrow> contact \<Rightarrow> 'w \<Rightarrow> bytes" where
  "recipient_versions P D c w =
     (case d_query D w (identity_domain P (ct_username c) (ct_domain c)) of
        Inr (Some records) \<Rightarrow>
          (case first_identity P (\<lambda>parsed. i_ed25519_spk parsed = ct_ed25519_spk c) records of
             Some parsed \<Rightarrow> if i_versions parsed = [] then [1] else i_versions parsed
           | None \<Rightarrow> [1])
      | _ \<Rightarrow> [1])"

definition resolve_envelope_label :: "prims \<Rightarrow> 'w dns \<Rightarrow> rstr \<Rightarrow> bytes \<Rightarrow> 'w \<Rightarrow> rstr option" where
  "resolve_envelope_label P D claimed_from expected_spk w =
     Option.bind (canonicalize_address claimed_from) (\<lambda>canonical.
     Option.bind (parse_address canonical) (\<lambda>(user, host).
       (case d_query D w (identity_domain P user host) of
          Inr (Some records) \<Rightarrow>
            map_option (\<lambda>_. canonical)
              (first_identity P (\<lambda>parsed. i_username parsed = user \<and> i_ed25519_spk parsed = expected_spk) records)
        | _ \<Rightarrow> None)))"

definition client_add_contact :: "bool \<times> bool \<Rightarrow> u64 \<Rightarrow> contact \<Rightarrow> dmp_client \<Rightarrow> (client_error + bool) \<times> dmp_client" where
  "client_add_contact works now c self =
     (case get_contact (fst works) (ct_username c) (cl_contacts self) of
        Inl e \<Rightarrow> (Inl (Storage e), self)
      | Inr existing \<Rightarrow>
          (case store_contact (snd works) now (to_new_contact c) (cl_contacts self) of
             (Inl e, t) \<Rightarrow> (Inl (Storage e), self\<lparr>cl_contacts := t\<rparr>)
           | (Inr _, t) \<Rightarrow> (Inr (existing = None), self\<lparr>cl_contacts := t\<rparr>)))"

definition client_list_contacts :: "bool \<Rightarrow> dmp_client \<Rightarrow> client_error + contact list" where
  "client_list_contacts works self =
     andThen (mapErr Storage (stored_contacts works (cl_contacts self))) (\<lambda>stored. Inr (map from_stored stored))"

section \<open>Publishing\<close>

definition DEFAULT_IDENTITY_TTL_SECONDS :: u32 where
  "DEFAULT_IDENTITY_TTL_SECONDS = 86400"

definition publish_identity :: "prims \<Rightarrow> 'w dns \<Rightarrow> u64 \<Rightarrow> bool \<Rightarrow> dmp_client \<Rightarrow> 'w \<Rightarrow> (client_error + unit) \<times> 'w" where
  "publish_identity P D clock advertise_v2 self w =
     (let versions = (if advertise_v2 then [1, 2] else [1]);
          wire = andThen (make_record clock (cl_crypto self) (cl_username self) None versions) (\<lambda>rec. identity_sign P rec (cl_crypto self))
      in (case wire of
            Inl e \<Rightarrow> (Inl (IdentityFailed e), w)
          | Inr wire \<Rightarrow>
              let name = identity_domain P (cl_username self) (cl_domain self) in
              (case d_publish D name wire DEFAULT_IDENTITY_TTL_SECONDS w of
                 (Inl e, w) \<Rightarrow> (Inl (Net e), w)
               | (Inr accepted, w) \<Rightarrow> (if accepted then Inr () else Inl (PublishFailed ''identity'' name), w))))"

text \<open>\<open>u32::try_from(ttl).unwrap_or(u32::MAX)\<close>.\<close>

definition u32_or_max :: "u64 \<Rightarrow> u32" where
  "u32_or_max n = (if n \<le> 0xFFFFFFFF then ucast n else 0xFFFFFFFF)"

text \<open>The loop over the pool; \<open>works\<close> says whether each statement that records a wire form works.\<close>

fun publish_prekeys :: "prims \<Rightarrow> 'w dns \<Rightarrow> rstr \<Rightarrow> u32 \<Rightarrow> dmp_crypto \<Rightarrow> bool list \<Rightarrow> generated_prekey list \<Rightarrow> u32 \<Rightarrow>
    prekey_table \<Rightarrow> 'w \<Rightarrow> (client_error + u32) \<times> prekey_table \<times> 'w" where
  "publish_prekeys P D name ttl crypto works [] published t w = (Inr published, t, w)"
| "publish_prekeys P D name ttl crypto works (entry # pool) published t w =
     (case prekey_sign P (gp_prekey entry) crypto of
        Inl e \<Rightarrow> (Inl (PrekeyFailed e), t, w)
      | Inr wire \<Rightarrow>
          (case d_publish D name wire ttl w of
             (Inl e, w) \<Rightarrow> (Inl (Net e), t, w)
           | (Inr False, w) \<Rightarrow> publish_prekeys P D name ttl crypto (drop 1 works) pool published t w
           | (Inr True, w) \<Rightarrow>
               (case record_wire (take 1 works \<noteq> [False]) (pk_id (gp_prekey entry)) wire t of
                  (Inl e, t) \<Rightarrow> (Inl (Storage e), t, w)
                | (Inr _, t) \<Rightarrow> publish_prekeys P D name ttl crypto (drop 1 works) pool
                    (if published = 0xFFFFFFFF then 0xFFFFFFFF else published + 1) t w)))"

definition refresh_prekeys :: "prims \<Rightarrow> 'w dns \<Rightarrow> bool \<Rightarrow> bool list \<Rightarrow> u64 \<Rightarrow> (nat \<Rightarrow> u32) \<Rightarrow> bytes list \<Rightarrow> u64 \<Rightarrow> dmp_client \<Rightarrow> 'w \<Rightarrow>
    (client_error + u32) \<times> dmp_client \<times> 'w" where
  "refresh_prekeys P D works wire_works now rand secrets ttl_seconds self w =
     (let ttl = (if ttl_seconds = 0 then DEFAULT_PREKEY_TTL_SECONDS else ttl_seconds) in
      case generate_pool P works now ttl rand secrets (cl_prekeys self) of
        (Inl e, t) \<Rightarrow> (Inl (Storage e), self\<lparr>cl_prekeys := t\<rparr>, w)
      | (Inr pool, t) \<Rightarrow>
          (case publish_prekeys P D (prekey_rrset_name P (cl_username self) (cl_domain self)) (u32_or_max ttl) (cl_crypto self)
                  wire_works pool 0 t w of
             (r, t, w) \<Rightarrow> (r, self\<lparr>cl_prekeys := t\<rparr>, w)))"

text \<open>\<open>delete_txt_record(\<dots>).await.unwrap_or(false)\<close> for each name, in order.\<close>

fun delete_names :: "'w dns \<Rightarrow> rstr list \<Rightarrow> 'w \<Rightarrow> (rstr \<times> bool) list \<times> 'w" where
  "delete_names D [] w = ([], w)"
| "delete_names D (name # names) w =
     (case d_delete D name None w of (r, w) \<Rightarrow>
        (case delete_names D names w of (deletes, w) \<Rightarrow> ((name, r = Inr True) # deletes, w)))"

definition published_names :: "prims \<Rightarrow> dmp_client \<Rightarrow> rstr list" where
  "published_names P self =
     [identity_domain P (cl_username self) (cl_domain self), prekey_rrset_name P (cl_username self) (cl_domain self)] @
     map (\<lambda>slot. slot_domain P (cl_user_id self) (of_nat slot) (cl_domain self)) [0..<unat SLOT_COUNT] @
     [rotation_rrset_name_user_identity P (cl_username self) (cl_domain self)]"

definition unpublish_identity :: "prims \<Rightarrow> 'w dns \<Rightarrow> dmp_client \<Rightarrow> 'w \<Rightarrow> (client_error + (rstr \<times> bool) list) \<times> 'w" where
  "unpublish_identity P D self w = (case delete_names D (published_names P self) w of (deletes, w) \<Rightarrow> (Inr deletes, w))"

section \<open>The quarantine\<close>

record inbox_message =
  in_sender_signing_pk :: bytes
  in_plaintext :: bytes
  in_timestamp :: u64
  in_msg_id :: bytes
  in_sender_label :: "rstr option"

definition intro_to_message :: "pending_intro \<Rightarrow> client_error + inbox_message" where
  "intro_to_message intro =
     (if length (pi_sender_spk intro) \<noteq> 32 then Inl (VerifyFailed (ascii ''intro.sender_spk''))
      else if length (pi_msg_id intro) \<noteq> 16 then Inl (VerifyFailed (ascii ''intro.msg_id''))
      else Inr \<lparr> in_sender_signing_pk = pi_sender_spk intro, in_plaintext = pi_payload intro, in_timestamp = received_at intro,
        in_msg_id = pi_msg_id intro, in_sender_label = pi_sender_username intro \<rparr>)"

definition list_intros :: "bool \<Rightarrow> dmp_client \<Rightarrow> client_error + pending_intro list" where
  "list_intros works self = mapErr Storage (list_pending works (cl_intros self))"

definition accept_intro :: "bool \<Rightarrow> int \<Rightarrow> dmp_client \<Rightarrow> (client_error + (int \<times> inbox_message) option) \<times> dmp_client" where
  "accept_intro works i self =
     (case intro_take works i (cl_intros self) of
        (Inl e, q) \<Rightarrow> (Inl (Storage e), self\<lparr>cl_intros := q\<rparr>)
      | (Inr None, q) \<Rightarrow> (Inr None, self\<lparr>cl_intros := q\<rparr>)
      | (Inr (Some intro), q) \<Rightarrow>
          (andThen (intro_to_message intro) (\<lambda>message. Inr (Some (i, message))), self\<lparr>cl_intros := q\<rparr>))"

definition trust_intro :: "prims \<Rightarrow> 'w dns \<Rightarrow> bool \<times> (bool \<times> bool) \<times> bool \<Rightarrow> u64 \<Rightarrow> int \<Rightarrow> rstr \<Rightarrow> 'w \<Rightarrow> dmp_client \<Rightarrow>
    (client_error + (int \<times> inbox_message) option) \<times> dmp_client" where
  "trust_intro P D works now i address w self =
     (case intro_get (fst works) i (cl_intros self) of
        Inl e \<Rightarrow> (Inl (Storage e), self)
      | Inr None \<Rightarrow> (Inr None, self)
      | Inr (Some intro) \<Rightarrow>
          if length (pi_sender_spk intro) \<noteq> 32 then (Inl (VerifyFailed (ascii ''intro.sender_spk'')), self)
          else (case fetch_identity P D address w of
             Inl e \<Rightarrow> (Inl e, self)
           | Inr c \<Rightarrow>
               if ct_ed25519_spk c \<noteq> pi_sender_spk intro
               then (Inl (VerifyFailed (ascii ''trust_intro: identity at '' @ address @ ascii '' signs with a different ed25519 key than the quarantined intro'')), self)
               else (case client_add_contact (fst (snd works)) now c self of
                  (Inl e, self) \<Rightarrow> (Inl e, self)
                | (Inr _, self) \<Rightarrow> accept_intro (snd (snd works)) i self)))"

definition block_intro :: "bool \<times> bool \<times> bool \<Rightarrow> u64 \<Rightarrow> int \<Rightarrow> rstr \<Rightarrow> dmp_client \<Rightarrow> (client_error + bool) \<times> dmp_client" where
  "block_intro works now i note self =
     (case intro_get (fst works) i (cl_intros self) of
        Inl e \<Rightarrow> (Inl (Storage e), self)
      | Inr None \<Rightarrow> (Inr False, self)
      | Inr (Some intro) \<Rightarrow>
          (case block_sender (fst (snd works)) now (pi_sender_spk intro) note (cl_intros self) of
             (Inl e, q) \<Rightarrow> (Inl (Storage e), self\<lparr>cl_intros := q\<rparr>)
           | (Inr _, q) \<Rightarrow>
               (case intro_reject (snd (snd works)) i q of
                  (Inl e, q) \<Rightarrow> (Inl (Storage e), self\<lparr>cl_intros := q\<rparr>)
                | (Inr b, q) \<Rightarrow> (Inr b, self\<lparr>cl_intros := q\<rparr>))))"

section \<open>Lookups\<close>

lemma first_identity_Some:
  "first_identity P fits rs = Some p \<Longrightarrow> fits p \<and> (\<exists>r \<in> set rs. \<exists>sig. identity_parse_and_verify P r = Some (p, sig))"
  by (induction rs) (auto split: option.splits if_splits)

lemma first_identity_None:
  "first_identity P fits rs = None \<longleftrightarrow> (\<forall>r \<in> set rs. \<forall>p sig. identity_parse_and_verify P r = Some (p, sig) \<longrightarrow> \<not> fits p)"
  by (induction rs) (auto split: option.splits)

text \<open>What a quarantined message of an identity looks like in the DNS: a verified identity record of the user
  under the name of the address.\<close>

definition published_identity :: "prims \<Rightarrow> 'w dns \<Rightarrow> 'w \<Rightarrow> rstr \<Rightarrow> rstr \<Rightarrow> identity_record \<Rightarrow> bool" where
  "published_identity P D w user host i \<longleftrightarrow> i_username i = user \<and>
     (\<exists>records r sig. d_query D w (identity_domain P user host) = Inr (Some records) \<and> r \<in> set records \<and>
        identity_parse_and_verify P r = Some (i, sig))"

section \<open>Properties\<close>

text \<open>C26: A sender label is shown exactly when it is proved. \<open>resolve_envelope_label\<close> returns a label if and only if
  it is the canonical form of the claimed address and some verified identity record of that user, published under
  that address, pins the key that signed the manifest. No failure of the DNS produces a label.\<close>

theorem label_needs_key:
  "(resolve_envelope_label P D claimed spk w = Some l) =
     (canonicalize_address claimed = Some l \<and> (\<exists>user host i. parse_address l = Some (user, host) \<and>
        published_identity P D w user host i \<and> i_ed25519_spk i = spk))"
proof
  assume a: "resolve_envelope_label P D claimed spk w = Some l"
  obtain y where y: "canonicalize_address claimed = Some y"
    using a by (cases "canonicalize_address claimed") (simp_all add: resolve_envelope_label_def)
  obtain user host where u: "parse_address y = Some (user, host)"
    using a y by (cases "parse_address y") (auto simp: resolve_envelope_label_def)
  obtain records where q: "d_query D w (identity_domain P user host) = Inr (Some records)"
    using a y u by (cases "d_query D w (identity_domain P user host)") (auto simp: resolve_envelope_label_def split: option.split_asm)
  obtain i where f: "first_identity P (\<lambda>p. i_username p = user \<and> i_ed25519_spk p = spk) records = Some i" and l: "y = l"
    using a y u q by (auto simp: resolve_envelope_label_def)
  have "published_identity P D w user host i" "i_ed25519_spk i = spk"
    using first_identity_Some [OF f] q unfolding published_identity_def by blast+
  then show "canonicalize_address claimed = Some l \<and> (\<exists>user host i. parse_address l = Some (user, host) \<and>
      published_identity P D w user host i \<and> i_ed25519_spk i = spk)"
    using y u unfolding l by blast
next
  assume "canonicalize_address claimed = Some l \<and> (\<exists>user host i. parse_address l = Some (user, host) \<and>
      published_identity P D w user host i \<and> i_ed25519_spk i = spk)"
  then obtain user host i records r sig where *: "canonicalize_address claimed = Some l" "parse_address l = Some (user, host)"
    "i_username i = user" "i_ed25519_spk i = spk" "d_query D w (identity_domain P user host) = Inr (Some records)"
    "r \<in> set records" "identity_parse_and_verify P r = Some (i, sig)"
    unfolding published_identity_def by blast
  then have "first_identity P (\<lambda>p. i_username p = user \<and> i_ed25519_spk p = spk) records \<noteq> None"
    unfolding first_identity_None by blast
  then show "resolve_envelope_label P D claimed spk w = Some l"
    using * by (auto simp: resolve_envelope_label_def)
qed

lemma fetch_identity_Inr:
  assumes "fetch_identity P D address w = Inr c"
  shows "\<exists>user i. parse_address address = Some (user, ct_domain c) \<and> published_identity P D w user (ct_domain c) i \<and>
     ct_username c = user \<and> ct_x25519_pk c = i_x25519_pk i \<and> ct_ed25519_spk c = i_ed25519_spk i"
proof -
  obtain user host records i where p: "parse_address address = Some (user, host)"
    and q: "d_query D w (identity_domain P user host) = Inr (Some records)"
    and f: "first_identity P (\<lambda>p. i_username p = user) records = Some i"
    and c: "c = \<lparr> ct_username = i_username i, ct_x25519_pk = i_x25519_pk i, ct_ed25519_spk = i_ed25519_spk i, ct_domain = host \<rparr>"
    using assms by (auto simp: fetch_identity_def Let_def split: option.split_asm sum.split_asm)
  have "published_identity P D w user host i" using first_identity_Some [OF f] q unfolding published_identity_def by blast
  then show ?thesis using p by (auto simp: c published_identity_def)
qed

text \<open>C25: Trusting a quarantined sender pins only the key that signed the message. If \<open>trust_intro\<close> changes the
  client at all, the queue holds the message, the given address resolves to a verified identity whose signing key is
  the message's sender, and the address book changes only in the entry of that identity. If the keys
  differ or the address does not resolve, nothing changes.\<close>

theorem trust_intro_safe:
  "(case trust_intro P D works now i address w self of (r, self') \<Rightarrow>
     self' = self \<or> (\<exists>intro c user j. intro_get True i (cl_intros self) = Inr (Some intro) \<and>
       parse_address address = Some (user, ct_domain c) \<and> published_identity P D w user (ct_domain c) j \<and>
       ct_username c = user \<and> ct_ed25519_spk c = i_ed25519_spk j \<and> i_ed25519_spk j = pi_sender_spk intro \<and>
       (cl_contacts self' = cl_contacts self \<or>
        cl_contacts self' = snd (store_contact True now (to_new_contact c) (cl_contacts self)))))"
proof (cases "intro_get (fst works) i (cl_intros self)")
  case (Inr m)
  then have works: "fst works" by (cases "fst works") (simp_all add: intro_get_def)
  show ?thesis
  proof (cases m)
    case (Some intro)
    show ?thesis
    proof (cases "fetch_identity P D address w")
      case (Inr c)
      obtain user j where j: "parse_address address = Some (user, ct_domain c)"
        "published_identity P D w user (ct_domain c) j" "ct_username c = user" "ct_ed25519_spk c = i_ed25519_spk j"
        using fetch_identity_Inr [OF Inr] by blast
      show ?thesis
      proof (cases "ct_ed25519_spk c = pi_sender_spk intro \<and> length (pi_sender_spk intro) = 32")
        case True
        have "cl_contacts (snd (trust_intro P D works now i address w self)) \<in>
            {cl_contacts self, snd (store_contact True now (to_new_contact c) (cl_contacts self))}"
          using True \<open>intro_get (fst works) i (cl_intros self) = Inr m\<close> Some Inr
          by (auto simp: trust_intro_def client_add_contact_def accept_intro_def store_contact_def Let_def
              split: sum.splits option.splits prod.splits if_splits)
        moreover have "intro_get True i (cl_intros self) = Inr (Some intro)"
          using \<open>intro_get (fst works) i (cl_intros self) = Inr m\<close> Some works by simp
        moreover have "i_ed25519_spk j = pi_sender_spk intro" using True j(4) by simp
        ultimately show ?thesis using j unfolding case_prod_beta by blast
      qed (use \<open>intro_get (fst works) i (cl_intros self) = Inr m\<close> Some Inr in \<open>auto simp: trust_intro_def\<close>)
    qed (use \<open>intro_get (fst works) i (cl_intros self) = Inr m\<close> Some in \<open>simp add: trust_intro_def\<close>)
  qed (use Inr in \<open>simp add: trust_intro_def\<close>)
qed (simp add: trust_intro_def)

lemma delete_names_memory:
  "mem_inv s \<Longrightarrow> (case delete_names (memory_dns now) names s of (deletes, s') \<Rightarrow> map fst deletes = names \<and> mem_inv s' \<and>
     mem_abs s' = (\<lambda>k. if fst k \<in> set names then None else mem_abs s k))"
proof (induction names arbitrary: s)
  case (Cons name names)
  note d = mem_delete_refines [OF Cons.prems, of name None]
  let ?s = "snd (mem_delete name None s)"
  have "mem_abs ?s = (\<lambda>k. if fst k = name then None else mem_abs s k)" using d by (simp add: covers_def)
  then show ?case using Cons.IH [of ?s] d by (auto simp: memory_dns_def case_prod_beta fun_eq_iff)
qed (simp add: fun_eq_iff)

text \<open>The names that belong to a user: of the identity, the prekeys, the rotations, and the ten mailbox slots.\<close>

definition owned_names :: "prims \<Rightarrow> rstr \<Rightarrow> rstr \<Rightarrow> bytes \<Rightarrow> rstr set" where
  "owned_names P username domain user_id =
     {identity_domain P username domain, prekey_rrset_name P username domain, rotation_rrset_name_user_identity P username domain} \<union>
     (\<lambda>slot. slot_domain P user_id slot domain) ` {0, 1, 2, 3, 4, 5, 6, 7, 8, 9}"

lemma published_owned:
  "set (published_names P self) = owned_names P (cl_username self) (cl_domain self) (cl_user_id self)"
  "length (published_names P self) = 13"
proof -
  have ten: "[0..<unat SLOT_COUNT] = [0, 1, 2, 3, 4, 5, 6, 7, 8, 9]" by (simp add: SLOT_COUNT_def upt_rec)
  show "set (published_names P self) = owned_names P (cl_username self) (cl_domain self) (cl_user_id self)"
    unfolding published_names_def ten owned_names_def by auto
  show "length (published_names P self) = 13" unfolding published_names_def ten by simp
qed

text \<open>C27: Unpublishing takes away exactly what the client's names hold. On the in-memory store, afterwards no value is left
  under the name of the client's identity, of its prekeys, of its rotations and of its mailbox slots 0 to 9, nothing else
  changes, and the report has an entry for each of these names and for no other.\<close>

theorem unpublish_complete:
  assumes "mem_inv s"
  shows "(case unpublish_identity P (memory_dns now) self s of (r, s') \<Rightarrow>
    (\<exists>deletes. r = Inr deletes \<and> length deletes = 13 \<and>
       fst ` set deletes = owned_names P (cl_username self) (cl_domain self) (cl_user_id self)) \<and> mem_inv s' \<and>
    mem_abs s' = (\<lambda>(n, v). if n \<in> owned_names P (cl_username self) (cl_domain self) (cl_user_id self) then None else mem_abs s (n, v)))"
proof -
  obtain deletes s' where d: "delete_names (memory_dns now) (published_names P self) s = (deletes, s')" by (metis prod.exhaust)
  have m: "map fst deletes = published_names P self" "mem_inv s'"
    "mem_abs s' = (\<lambda>k. if fst k \<in> set (published_names P self) then None else mem_abs s k)"
    using delete_names_memory [OF assms, where names = "published_names P self" and now = now] by (simp_all add: d)
  have "length deletes = 13" "fst ` set deletes = set (published_names P self)"
    using m(1) published_owned(2) by (metis length_map, metis list.set_map)
  then show ?thesis using m(2,3) by (auto simp: unpublish_identity_def d published_owned fun_eq_iff)
qed

definition demo_client :: dmp_client where
  "demo_client = \<lparr> cl_username = ascii ''bob'', cl_domain = ascii ''b.x'', cl_crypto = demo_key, cl_user_id = sha256 demo_prims (x25519_pub demo_key),
     cl_prekeys = [], cl_contacts = [], cl_replay = replay_new [], cl_intros = \<lparr> iq_rows = [], iq_sequence = 0, iq_denylist = [] \<rparr>,
     cl_rotation_chain_enabled = False \<rparr>"

theorem unpublish_complete_witness:
  "mem_abs (snd (unpublish_identity demo_prims (memory_dns 7) demo_client
     (snd (mem_publish 5 (identity_domain demo_prims (ascii ''bob'') (ascii ''b.x'')) [1] 60 mem_new))))
     (identity_domain demo_prims (ascii ''bob'') (ascii ''b.x''), [1]) = None"
proof -
  have "mem_inv mem_new" by (simp add: mem_new_def mem_inv_def)
  then have "mem_inv (snd (mem_publish 5 (identity_domain demo_prims (ascii ''bob'') (ascii ''b.x'')) [1] 60 mem_new))"
    by (simp add: mem_publish_refines)
  from unpublish_complete [OF this, where P = demo_prims and now = 7 and self = demo_client] show ?thesis
    by (simp add: case_prod_beta owned_names_def demo_client_def)
qed

lemma memory_publish_only:
  assumes "mem_inv s" "live_at now (mem_abs s) n = {}" "now < sat_add now (ucast ttl)"
  shows "mem_query now n (snd (mem_publish now n v ttl s)) = Inr (Some [v])"
proof -
  have "live_at now (mem_abs (snd (mem_publish now n v ttl s))) n = {v}"
    using assms(2,3) mem_publish_refines [OF assms(1), of now n v ttl] by (auto simp: live_at_def)
  then have a: "answers (mem_query now n (snd (mem_publish now n v ttl s))) {v}"
    using mem_query_answers [of "snd (mem_publish now n v ttl s)" now n] mem_publish_refines [OF assms(1), of now n v ttl] by simp
  then obtain l where "mem_query now n (snd (mem_publish now n v ttl s)) = Inr (Some l)" "distinct l" "set l = {v}"
    by (auto simp: answers_def)
  moreover have "l = [v]" using calculation(2,3) by (cases l) (auto simp: subset_singleton_iff)
  ultimately show ?thesis by simp
qed

text \<open>A published identity is found. When a client publishes its identity in an in-memory store that holds no
  live record under the client's identity name, then anyone who looks up an address that names this user and
  this zone obtains the client's user name and its two public keys.\<close>

theorem published_identity_found:
  assumes "b64_codec P" "ed25519 P" "digest P" "x25519_aead P" "from_private_bytes P seed = Inr (cl_crypto self)"
    and "0 < length (cl_username self)" "length (cl_username self) \<le> 64" "is_utf8 (cl_username self)"
    and "mem_inv s" "live_at now (mem_abs s) (identity_domain P (cl_username self) (cl_domain self)) = {}" "unat now < 2 ^ 64 - 1"
    and "parse_address address = Some (cl_username self, host)"
    and "trim_end_matches (ch CHR ''.'') host = trim_end_matches (ch CHR ''.'') (cl_domain self)"
  shows "(case publish_identity P (memory_dns now) now advertise self s of (r, s') \<Rightarrow> r = Inr () \<and>
     fetch_identity P (memory_dns now) address s' = Inr \<lparr> ct_username = cl_username self, ct_x25519_pk = x25519_pub (cl_crypto self),
       ct_ed25519_spk = verifying_key (cl_crypto self), ct_domain = host \<rparr>)"
proof -
  let ?versions = "if advertise then [1, 2] else [1 :: byte]"
  obtain rec where rec: "make_record now (cl_crypto self) (cl_username self) None ?versions = Inr rec"
    using assms(6,7) by (cases advertise) (simp_all add: make_record_def normalize_versions_def const_defs)
  obtain w sig where w: "identity_sign P rec (cl_crypto self) = Inr w" "identity_parse_and_verify P w = Some (rec, sig)"
    "i_username rec = cl_username self" "i_x25519_pk rec = x25519_pub (cl_crypto self)" "i_ed25519_spk rec = verifying_key (cl_crypto self)"
    using identity_published [OF assms(1-8) rec] by blast
  let ?n = "identity_domain P (cl_username self) (cl_domain self)"
  have name: "identity_domain P (cl_username self) host = ?n" using assms(13) by (simp add: identity_domain_def)
  have "now < sat_add now (ucast DEFAULT_IDENTITY_TTL_SECONDS)"
    using assms(11) unfolding word_less_nat_alt unat_sat_add unat_ucast_u32 by (simp add: DEFAULT_IDENTITY_TTL_SECONDS_def)
  then have q: "mem_query now ?n (snd (mem_publish now ?n w DEFAULT_IDENTITY_TTL_SECONDS s)) = Inr (Some [w])"
    using memory_publish_only [OF assms(9,10)] by blast
  have p: "publish_identity P (memory_dns now) now advertise self s = (Inr (), snd (mem_publish now ?n w DEFAULT_IDENTITY_TTL_SECONDS s))"
    using rec w(1) by (simp add: publish_identity_def memory_dns_def mem_publish_def Let_def)
  have "fetch_identity P (memory_dns now) address (snd (mem_publish now ?n w DEFAULT_IDENTITY_TTL_SECONDS s)) =
      Inr \<lparr> ct_username = cl_username self, ct_x25519_pk = x25519_pub (cl_crypto self),
       ct_ed25519_spk = verifying_key (cl_crypto self), ct_domain = host \<rparr>"
    using assms(12) q w(2-5) by (simp add: fetch_identity_def memory_dns_def name Let_def)
  with p show ?thesis by simp
qed

theorem published_identity_found_witness:
  "\<exists>me s'. from_private_bytes demo_prims (replicate 32 7) = Inr me \<and>
     publish_identity demo_prims (memory_dns 5) 5 True (demo_client\<lparr>cl_crypto := me\<rparr>) mem_new = (Inr (), s') \<and>
     fetch_identity demo_prims (memory_dns 5) (ascii ''bob@b.x'') s' = Inr \<lparr> ct_username = ascii ''bob'',
       ct_x25519_pk = x25519_pub me, ct_ed25519_spk = verifying_key me, ct_domain = ascii ''b.x'' \<rparr>"
proof -
  obtain me where me: "from_private_bytes demo_prims (replicate 32 7) = Inr me" by (simp add: from_private_bytes_ok)
  let ?c = "demo_client\<lparr>cl_crypto := me\<rparr>"
  have i: "mem_inv mem_new" "live_at 5 (mem_abs mem_new) n = {}" for n
    by (simp_all add: mem_new_def mem_inv_def live_at_def mem_abs_def entries_at_def unwrap_or_def expiry_of_def)
  have t: "trim (ascii ''bob'') = ascii ''bob''" "trim (ascii ''b.x'') = ascii ''b.x''"
    by (rule trim_id; simp add: is_ascii_def ascii_def ch_def is_whitespace_def)+
  have "ascii ''bob@b.x'' = ascii ''bob'' @ ch CHR ''@'' # ascii ''b.x''" "ch CHR ''@'' \<notin> set (ascii ''bob'')"
    by (simp_all add: ascii_def ch_def)
  then have "split_once (ch CHR ''@'') (ascii ''bob@b.x'') = Some (ascii ''bob'', ascii ''b.x'')"
    unfolding split_once_Some by blast
  moreover have "trim_end_matches (ch CHR ''.'') (ascii ''b.x'') = ascii ''b.x''"
    by (rule trim_end_id) (simp add: ascii_def ch_def)
  ultimately have a: "parse_address (ascii ''bob@b.x'') = Some (cl_username ?c, ascii ''b.x'')"
    using t by (simp add: parse_address_def demo_client_def ascii_def)
  have u: "is_utf8 (cl_username ?c)" by (rule is_utf8_ascii) (simp add: demo_client_def ascii_def ch_def)
  from published_identity_found [OF demo_b64 demo_ed25519 demo_digest demo_x25519, where seed = "replicate 32 7" and self = ?c
      and s = mem_new and now = 5 and host = "ascii ''b.x''" and address = "ascii ''bob@b.x''" and advertise = True] me i a u
  show ?thesis by (auto simp: demo_client_def case_prod_beta prod_eq_iff)
qed

end
