(* ===== verification/Send.thy ===== *)
theory Send
  imports Client
begin

text \<open>
  Sending a message, \<open>send.rs\<close>. The random choices, the reading of the clock and whether the lookup in the
  address book works are the fields of \<open>send_env\<close>; \<open>rs_encode\<close> is the encoder of the
  Reed-Solomon crate. A panic is the result \<open>None\<close>.
\<close>

section \<open>The code\<close>

record send_env =
  se_works :: bool
  se_msg_id :: bytes
  se_clock :: u64
  se_pick :: u32
  se_seed :: bytes
  se_nonce :: bytes

definition CHUNK_TXT_PREFIX :: rstr where
  "CHUNK_TXT_PREFIX = ascii ''v=dmp1;t=chunk;d=''"

definition chunk_txt_record :: "prims \<Rightarrow> bytes \<Rightarrow> rstr" where
  "chunk_txt_record P wire_chunk = ascii ''v=dmp1;t=chunk;d='' @ b64_encode P wire_chunk"

definition build_aad :: "prims \<Rightarrow> serde \<Rightarrow> bytes \<Rightarrow> bytes \<Rightarrow> bytes \<Rightarrow> u64 \<Rightarrow> u32 \<Rightarrow> u32 \<Rightarrow> bytes" where
  "build_aad P S msg_id sender_id recipient_id timestamp ttl prekey_id =
     header_to_bytes P S \<lparr> h_version = 1, h_message_type = DataMsg, h_message_id = msg_id, h_sender_id = sender_id,
       h_recipient_id = recipient_id, h_total_chunks = 0, h_chunk_number = 0, h_timestamp = timestamp, h_ttl = ttl \<rparr> @
     be32 prekey_id"

definition maybe_wrap_envelope :: "prims \<Rightarrow> serde \<Rightarrow> 'w dns \<Rightarrow> dmp_client \<Rightarrow> contact \<Rightarrow> bytes \<Rightarrow> 'w \<Rightarrow> bytes" where
  "maybe_wrap_envelope P S D self c plaintext w =
     (if 2 \<in> set (recipient_versions P D c w)
      then envelope_encode S plaintext (Some (cl_username self @ ascii ''@'' @ cl_domain self))
      else plaintext)"

fun publish_chunks :: "prims \<Rightarrow> (nat \<Rightarrow> bytes \<Rightarrow> bytes) \<Rightarrow> 'w dns \<Rightarrow> rstr \<Rightarrow> nat \<Rightarrow> bytes list \<Rightarrow> rstr \<Rightarrow> u32 \<Rightarrow> 'w \<Rightarrow>
    (client_error + unit) \<times> 'w" where
  "publish_chunks P rs_encode D domain i [] key ttl w = (Inr (), w)"
| "publish_chunks P rs_encode D domain i (block # shares) key ttl w =
     (case wrap_block (sha256 P) rs_encode \<lparr> enable_error_correction = True \<rparr> block of
        Inl e \<Rightarrow> (Inl (ChunkingFailed e), w)
      | Inr wire_chunk \<Rightarrow>
          let txt = chunk_txt_record P wire_chunk; name = chunk_domain key (of_nat i) domain in
          (case d_publish D name txt ttl w of
             (Inl e, w) \<Rightarrow> (Inl (Net e), w)
           | (Inr accepted, w) \<Rightarrow>
               if \<not> accepted then (Inl (PublishFailed ''chunk'' name), w)
               else publish_chunks P rs_encode D domain (Suc i) shares key ttl w))"

definition pick_recipient_prekey :: "prims \<Rightarrow> 'w dns \<Rightarrow> u64 \<Rightarrow> u32 \<Rightarrow> contact \<Rightarrow> 'w \<Rightarrow> (u32 \<times> bytes) option" where
  "pick_recipient_prekey P D clock pick c w =
     (case d_query D w (prekey_rrset_name P (ct_username c) (ct_domain c)) of
        Inr (Some records) \<Rightarrow>
          let verified = filter (\<lambda>pk. \<not> prekey_is_expired clock pk None)
                (List.map_filter (prekey_parse_and_verify P (ct_ed25519_spk c)) records) in
          if verified = [] then None
          else let chosen = verified ! (unat pick mod length verified) in Some (pk_id chosen, pk_public_key chosen)
      | _ \<Rightarrow> None)"

text \<open>The stored row as a contact; an empty zone is the client's own.\<close>

definition recipient_contact :: "dmp_client \<Rightarrow> stored_contact \<Rightarrow> contact" where
  "recipient_contact self stored = \<lparr> ct_username = sc_username stored, ct_x25519_pk = sc_x25519_pk stored,
     ct_ed25519_spk = sc_ed25519_spk stored,
     ct_domain = (if sc_domain stored = [] then cl_domain self else sc_domain stored) \<rparr>"

definition outer_header :: "dmp_client \<Rightarrow> bytes \<Rightarrow> bytes \<Rightarrow> u64 \<Rightarrow> u32 \<Rightarrow> dmp_header" where
  "outer_header self msg_id recipient_id now ttl = \<lparr> h_version = 1, h_message_type = DataMsg, h_message_id = msg_id,
     h_sender_id = cl_user_id self, h_recipient_id = recipient_id, h_total_chunks = 1, h_chunk_number = 0,
     h_timestamp = now, h_ttl = ttl \<rparr>"

text \<open>The last part: the manifest in the recipient's slot.\<close>

definition publish_manifest :: "prims \<Rightarrow> 'w dns \<Rightarrow> dmp_client \<Rightarrow> slot_manifest \<Rightarrow> u32 \<Rightarrow> 'w \<Rightarrow> (client_error + bytes) \<times> 'w" where
  "publish_manifest P D self manifest ttl w =
     (case manifest_sign P manifest (cl_crypto self) of
        Inl e \<Rightarrow> (Inl (ManifestFailed e), w)
      | Inr slot_record \<Rightarrow>
          let slot_name = slot_domain P (m_recipient_id manifest) (slot_for_msg_id (m_msg_id manifest)) (cl_domain self) in
          (case d_publish D slot_name slot_record ttl w of
             (Inl e, w) \<Rightarrow> (Inl (Net e), w)
           | (Inr accepted, w) \<Rightarrow>
               (if \<not> accepted then Inl (PublishFailed ''manifest'' slot_name) else Inr (m_msg_id manifest), w)))"

definition send_message :: "prims \<Rightarrow> serde \<Rightarrow> (nat \<Rightarrow> bytes \<Rightarrow> bytes) \<Rightarrow> 'w dns \<Rightarrow> send_env \<Rightarrow> rstr \<Rightarrow> bytes \<Rightarrow> dmp_client \<Rightarrow> 'w \<Rightarrow>
    ((client_error + bytes) \<times> 'w) option" where
  "send_message P S rs_encode D env recipient_username plaintext self w =
     (case get_contact (se_works env) recipient_username (cl_contacts self) of
        Inl e \<Rightarrow> Some (Inl (Storage e), w)
      | Inr None \<Rightarrow> Some (Inl (ContactNotFound recipient_username), w)
      | Inr (Some stored) \<Rightarrow>
          let c = recipient_contact self stored;
              recipient_id = derive_user_id P (ct_x25519_pk c);
              msg_id = se_msg_id env;
              now = se_clock env;
              ttl_u32 = u32_or_max DEFAULT_TTL_SECONDS;
              (prekey_id, recipient_pubkey) =
                (case pick_recipient_prekey P D (se_clock env) (se_pick env) c w of
                   Some (pid, pk) \<Rightarrow> (pid, pk)
                 | None \<Rightarrow> (NO_PREKEY, ct_x25519_pk c));
              plaintext_owned = maybe_wrap_envelope P S D self c plaintext w;
              aad = build_aad P S msg_id (cl_user_id self) recipient_id now ttl_u32 prekey_id
          in (case encrypt_for_recipient P (se_seed env) (se_nonce env) plaintext_owned recipient_pubkey (Some aad) of
                Inl e \<Rightarrow> Some (Inl (CryptoFailed e), w)
              | Inr encrypted \<Rightarrow>
                  (case message_to_bytes P S \<lparr> msg_header = outer_header self msg_id recipient_id now ttl_u32,
                          msg_payload = em_to_bytes encrypted, msg_signature = replicate 32 0 \<rparr> of
                     None \<Rightarrow> None
                   | Some outer_bytes \<Rightarrow>
                       (case erasure_encode outer_bytes DEFAULT_REDUNDANCY of
                          Inl e \<Rightarrow> Some (Inl (ErasureFailed e), w)
                        | Inr (shares, k, n) \<Rightarrow>
                            if 2 ^ 32 \<le> n then Some (Inl (InvalidClientConfig ''n does not fit in u32''), w)
                            else if 2 ^ 32 \<le> k then Some (Inl (InvalidClientConfig ''k does not fit in u32''), w)
                            else
                              let sender_spk = verifying_key (cl_crypto self);
                                  key = msg_key P msg_id recipient_id sender_spk in
                              (case publish_chunks P rs_encode D (cl_domain self) 0 shares key ttl_u32 w of
                                 (Inl e, w) \<Rightarrow> Some (Inl e, w)
                               | (Inr _, w) \<Rightarrow>
                                   Some (publish_manifest P D self \<lparr> m_msg_id = msg_id, m_sender_spk = sender_spk,
                                     m_recipient_id = recipient_id, m_total_chunks = of_nat n, m_data_chunks = of_nat k,
                                     m_prekey_id = prekey_id, m_ts = now, m_exp = sat_add now (ucast ttl_u32) \<rparr> ttl_u32 w))))))"

end
