(* ===== verification/Receive.thy ===== *)
theory Receive
  imports Send
begin

text \<open>
  Receiving, \<open>receive.rs\<close>. A poll goes through the mailbox slots of each zone and handles the records one by
  one; it is split into steps, a query of a slot or the handling of a record. Step \<open>t\<close> runs in the
  environment \<open>E t\<close>: the DNS as it answers then, the readings of the clock, which statements on the databases
  work, and the order in which the map of shares is iterated. \<open>rs_correct\<close> is the corrector of the
  Reed-Solomon crate. A failed step ends the poll, and what was stored before stays.
\<close>

section \<open>The environment\<close>

datatype reading = AtRotation | AtSeen | AtHeader | AtPrekey | AtRecord | AtConsume | AtEnqueue

datatype statement = IsBlocked | SeenPurge | SeenSelect | PrekeySelect | RecordPurge | RecordInsert | WireSelect | PrekeyDelete
  | EnqueueSelect | EnqueueInsert

record 'w step_env =
  re_dns :: "'w dns"
  re_clock :: "reading \<Rightarrow> u64"
  re_works :: "statement \<Rightarrow> bool"
  re_order :: "(nat \<times> bytes) list \<Rightarrow> (nat \<times> bytes) list"

section \<open>Fetching a message\<close>

definition parse_chunk_txt :: "prims \<Rightarrow> rstr \<Rightarrow> bytes option" where
  "parse_chunk_txt P record = Option.bind (strip_prefix CHUNK_TXT_PREFIX record) (b64_decode P)"

text \<open>The loop over the records of one chunk name: the first that unwraps.\<close>

fun first_block :: "prims \<Rightarrow> (nat \<Rightarrow> bytes \<Rightarrow> bytes option) \<Rightarrow> rstr list \<Rightarrow> bytes option" where
  "first_block P rs_correct [] = None"
| "first_block P rs_correct (txt # records) =
     (case Option.bind (parse_chunk_txt P txt) (unwrap_block (sha256 P) rs_correct \<lparr> enable_error_correction = True \<rparr>) of
        Some block \<Rightarrow> Some block
      | None \<Rightarrow> first_block P rs_correct records)"

fun collect_shares :: "prims \<Rightarrow> (nat \<Rightarrow> bytes \<Rightarrow> bytes option) \<Rightarrow> 'w dns \<Rightarrow> rstr \<Rightarrow> rstr \<Rightarrow> nat \<Rightarrow> nat list \<Rightarrow> (nat \<times> bytes) list \<Rightarrow> 'w \<Rightarrow>
    (nat \<times> bytes) list" where
  "collect_shares P rs_correct D key zone k [] got w = got"
| "collect_shares P rs_correct D key zone k (i # is) got w =
     (if k \<le> length got then got
      else collect_shares P rs_correct D key zone k is
        (case d_query D w (chunk_domain key (of_nat i) zone) of
           Inr (Some records) \<Rightarrow> (case first_block P rs_correct records of Some block \<Rightarrow> got @ [(i, block)] | None \<Rightarrow> got)
         | _ \<Rightarrow> got) w)"

text \<open>The associated data of a header, with both counts set to 0.\<close>

definition header_aad :: "prims \<Rightarrow> serde \<Rightarrow> dmp_header \<Rightarrow> u32 \<Rightarrow> bytes" where
  "header_aad P S h prekey_id = header_to_bytes P S (h\<lparr>h_total_chunks := 0, h_chunk_number := 0\<rparr>) @ be32 prekey_id"

definition decrypt_payload :: "prims \<Rightarrow> 'w step_env \<Rightarrow> dmp_client \<Rightarrow> u32 \<Rightarrow> encrypted_message \<Rightarrow> bytes \<Rightarrow> bytes option" where
  "decrypt_payload P env self prekey_id encrypted aad =
     (if prekey_id = NO_PREKEY then ok (decrypt_message P (cl_crypto self) encrypted (Some aad))
      else case get_private_key (re_works env PrekeySelect) (re_clock env AtPrekey) prekey_id (cl_prekeys self) of
             Inr (Some prekey_sk) \<Rightarrow>
               Option.bind (ok (from_private_bytes P prekey_sk)) (\<lambda>prekey_crypto. ok (decrypt_message P prekey_crypto encrypted (Some aad)))
           | _ \<Rightarrow> None)"

definition fetch_and_decrypt :: "prims \<Rightarrow> serde \<Rightarrow> (nat \<Rightarrow> bytes \<Rightarrow> bytes option) \<Rightarrow> 'w step_env \<Rightarrow> slot_manifest \<Rightarrow> rstr \<Rightarrow> dmp_client \<Rightarrow> 'w \<Rightarrow>
    inbox_message option" where
  "fetch_and_decrypt P S rs_correct env manifest zone self w =
     (let key = msg_key P (m_msg_id manifest) (m_recipient_id manifest) (m_sender_spk manifest);
          k = unat (m_data_chunks manifest);
          shares = collect_shares P rs_correct (re_dns env) key zone k [0..<unat (m_total_chunks manifest)] [] w
      in if length shares < k then None
         else
           Option.bind (erasure_decode (re_order env shares) k (unat (m_total_chunks manifest))) (\<lambda>assembled.
           Option.bind (ok (message_from_bytes S assembled)) (\<lambda>outer.
           Option.bind (ok (em_from_bytes (msg_payload outer))) (\<lambda>encrypted.
             if h_message_id (msg_header outer) \<noteq> m_msg_id manifest then None
             else if h_recipient_id (msg_header outer) \<noteq> m_recipient_id manifest then None
             else if header_is_expired (msg_header outer) (re_clock env AtHeader) then None
             else
               Option.bind (decrypt_payload P env self (m_prekey_id manifest) encrypted
                   (header_aad P S (msg_header outer) (m_prekey_id manifest))) (\<lambda>raw_plaintext.
               let (plaintext, claimed_from) = envelope_decode S raw_plaintext;
                   sender_label = (case claimed_from of
                       Some addr \<Rightarrow> resolve_envelope_label P (re_dns env) addr (m_sender_spk manifest) w | None \<Rightarrow> None)
               in Some \<lparr> in_sender_signing_pk = m_sender_spk manifest, in_plaintext = plaintext,
                    in_timestamp = h_timestamp (msg_header outer), in_msg_id = h_message_id (msg_header outer),
                    in_sender_label = sender_label \<rparr>)))))"

section \<open>Handling a record\<close>

definition consume_prekey_with_dns :: "prims \<Rightarrow> 'w step_env \<Rightarrow> u32 \<Rightarrow> dmp_client \<Rightarrow> 'w \<Rightarrow> dmp_client \<times> 'w" where
  "consume_prekey_with_dns P env prekey_id self w =
     (let wire = (case get_wire (re_works env WireSelect) prekey_id (cl_prekeys self) of Inr wire \<Rightarrow> wire | Inl e \<Rightarrow> None);
          w = (case wire of
                 Some wire_record \<Rightarrow>
                   snd (d_delete (re_dns env) (prekey_rrset_name P (cl_username self) (cl_domain self)) (Some wire_record) w)
               | None \<Rightarrow> w)
      in (self\<lparr>cl_prekeys := snd (consume (re_works env PrekeyDelete) (re_clock env AtConsume) prekey_id (cl_prekeys self))\<rparr>, w))"

definition zones_to_poll :: "rstr \<Rightarrow> contact list \<Rightarrow> rstr list" where
  "zones_to_poll own listed = fold push_new (filter (\<lambda>zone. zone \<noteq> []) (map ct_domain listed)) [own]"

text \<open>What follows a successful decryption.\<close>

definition deliver :: "prims \<Rightarrow> 'w step_env \<Rightarrow> slot_manifest \<Rightarrow> bool \<Rightarrow> inbox_message \<Rightarrow> dmp_client \<Rightarrow> 'w \<Rightarrow>
    (client_error + inbox_message option) \<times> dmp_client \<times> 'w" where
  "deliver P env manifest quarantine decoded self w =
     (case replay_record (re_works env RecordPurge, re_works env RecordInsert) (re_clock env AtRecord) (m_sender_spk manifest) (m_msg_id manifest)
             (Some (m_exp manifest)) (cl_replay self) of
        (Inl e, c) \<Rightarrow> (Inl (Storage e), self\<lparr>cl_replay := c\<rparr>, w)
      | (Inr _, c) \<Rightarrow>
          (case (if m_prekey_id manifest \<noteq> NO_PREKEY then consume_prekey_with_dns P env (m_prekey_id manifest) (self\<lparr>cl_replay := c\<rparr>) w
                 else (self\<lparr>cl_replay := c\<rparr>, w)) of
             (self, w) \<Rightarrow>
               if quarantine then
                 (case enqueue (re_works env EnqueueSelect, re_works env EnqueueInsert) (re_clock env AtEnqueue)
                         \<lparr> ni_sender_spk = m_sender_spk manifest, ni_sender_username = in_sender_label decoded,
                           ni_msg_id = m_msg_id manifest, ni_payload = in_plaintext decoded, ni_expires_at = m_exp manifest \<rparr>
                         (cl_intros self) of
                    (Inl e, q) \<Rightarrow> (Inl (Storage e), self\<lparr>cl_intros := q\<rparr>, w)
                  | (Inr _, q) \<Rightarrow> (Inr None, self\<lparr>cl_intros := q\<rparr>, w))
               else (Inr (Some decoded), self, w)))"

text \<open>The checks of a sender: it is dropped, or let through, and then whether to the quarantine.\<close>

definition screen_sender :: "prims \<Rightarrow> 'w step_env \<Rightarrow> contact list \<Rightarrow> bytes \<Rightarrow> dmp_client \<Rightarrow> 'w \<Rightarrow> client_error + bool option" where
  "screen_sender P env listed spk self w =
     (let pinned = set (map ct_ed25519_spk listed);
          tofu_mode = (pinned = {});
          in_pinned_set = (spk \<in> pinned) in
      andThen (if \<not> in_pinned_set \<and> \<not> tofu_mode \<and> cl_rotation_chain_enabled self
               then rotation_manifest_accepted P (re_clock env AtRotation) (d_query (re_dns env) w) listed spk
               else Inr False) (\<lambda>rotation_accepted.
      let quarantine = (\<not> tofu_mode \<and> \<not> in_pinned_set \<and> \<not> rotation_accepted) in
      andThen (if quarantine then mapErr Storage (is_blocked (re_works env IsBlocked) spk (cl_intros self))
               else Inr False) (\<lambda>blocked.
      if blocked then Inr None
      else
        andThen (if in_pinned_set \<and> cl_rotation_chain_enabled self
                 then rotation_manifest_revoked P (re_clock env AtRotation) (d_query (re_dns env) w) listed spk
                 else Inr False) (\<lambda>revoked.
        Inr (if revoked then None else Some quarantine)))))"

text \<open>The checks of a record before the replay cache is asked: the manifest, and whether it goes to quarantine.\<close>

definition screen_record :: "prims \<Rightarrow> 'w step_env \<Rightarrow> contact list \<Rightarrow> u64 \<Rightarrow> rstr \<Rightarrow> dmp_client \<Rightarrow> 'w \<Rightarrow>
    client_error + (slot_manifest \<times> bool) option" where
  "screen_record P env listed now record self w =
     (case manifest_parse_and_verify P record of
        None \<Rightarrow> Inr None
      | Some (manifest, _) \<Rightarrow>
          if m_recipient_id manifest \<noteq> cl_user_id self then Inr None
          else if manifest_is_expired now manifest (Some now) then Inr None
          else andThen (screen_sender P env listed (m_sender_spk manifest) self w) (\<lambda>r.
            Inr (map_option (Pair manifest) r)))"

definition receive_record :: "prims \<Rightarrow> serde \<Rightarrow> (nat \<Rightarrow> bytes \<Rightarrow> bytes option) \<Rightarrow> 'w step_env \<Rightarrow> contact list \<Rightarrow> u64 \<Rightarrow> rstr \<Rightarrow> rstr \<Rightarrow>
    dmp_client \<Rightarrow> 'w \<Rightarrow> (client_error + inbox_message option) \<times> dmp_client \<times> 'w" where
  "receive_record P S rs_correct env listed now zone record self w =
     (case screen_record P env listed now record self w of
        Inl e \<Rightarrow> (Inl e, self, w)
      | Inr None \<Rightarrow> (Inr None, self, w)
      | Inr (Some (manifest, quarantine)) \<Rightarrow>
          (case has_seen (re_works env SeenPurge, re_works env SeenSelect) (re_clock env AtSeen) (m_sender_spk manifest) (m_msg_id manifest)
                  (cl_replay self) of
             (Inl e, c) \<Rightarrow> (Inl (Storage e), self\<lparr>cl_replay := c\<rparr>, w)
           | (Inr True, c) \<Rightarrow> (Inr None, self\<lparr>cl_replay := c\<rparr>, w)
           | (Inr False, c) \<Rightarrow>
               (case fetch_and_decrypt P S rs_correct env manifest zone (self\<lparr>cl_replay := c\<rparr>) w of
                  None \<Rightarrow> (Inr None, self\<lparr>cl_replay := c\<rparr>, w)
                | Some decoded \<Rightarrow> deliver P env manifest quarantine decoded (self\<lparr>cl_replay := c\<rparr>) w)))"

section \<open>A poll\<close>

text \<open>The loop over the records of a slot, and the loop over the slots, with the handling of a record as an argument.\<close>

type_synonym 'w step = "dmp_client \<Rightarrow> 'w \<Rightarrow> (client_error + inbox_message option) \<times> dmp_client \<times> 'w"

fun each_record :: "(nat \<Rightarrow> rstr \<Rightarrow> 'w step) \<Rightarrow> rstr list \<Rightarrow> nat \<Rightarrow> inbox_message list \<Rightarrow> dmp_client \<Rightarrow> 'w \<Rightarrow>
    (client_error + inbox_message list) \<times> nat \<times> dmp_client \<times> 'w" where
  "each_record f [] t results self w = (Inr results, t, self, w)"
| "each_record f (record # records) t results self w =
     (case f t record self w of
        (Inl e, self, w) \<Rightarrow> (Inl e, Suc t, self, w)
      | (Inr None, self, w) \<Rightarrow> each_record f records (Suc t) results self w
      | (Inr (Some decoded), self, w) \<Rightarrow> each_record f records (Suc t) (results @ [decoded]) self w)"

fun each_slot :: "(nat \<Rightarrow> 'w step_env) \<Rightarrow> ('s \<Rightarrow> dmp_client \<Rightarrow> client_error + rstr) \<Rightarrow> ('s \<Rightarrow> nat \<Rightarrow> rstr \<Rightarrow> 'w step) \<Rightarrow> 's list \<Rightarrow> nat \<Rightarrow>
    inbox_message list \<Rightarrow> dmp_client \<Rightarrow> 'w \<Rightarrow> (client_error + inbox_message list) \<times> nat \<times> dmp_client \<times> 'w" where
  "each_slot E name_of f [] t results self w = (Inr results, t, self, w)"
| "each_slot E name_of f (slot # slots) t results self w =
     (case name_of slot self of
        Inl e \<Rightarrow> (Inl e, t, self, w)
      | Inr slot_name \<Rightarrow>
          (case d_query (re_dns (E t)) w slot_name of
             Inl e \<Rightarrow> (Inl (Net e), Suc t, self, w)
           | Inr None \<Rightarrow> each_slot E name_of f slots (Suc t) results self w
           | Inr (Some records) \<Rightarrow>
               (case each_record (f slot) records (Suc t) results self w of
                  (Inl e, t, self, w) \<Rightarrow> (Inl e, t, self, w)
                | (Inr results, t, self, w) \<Rightarrow> each_slot E name_of f slots t results self w)))"

text \<open>The two nested loops of \<open>receive_messages\<close>, over the pairs of a zone and a slot in their order.\<close>

definition receive_slots :: "prims \<Rightarrow> serde \<Rightarrow> (nat \<Rightarrow> bytes \<Rightarrow> bytes option) \<Rightarrow> (nat \<Rightarrow> 'w step_env) \<Rightarrow> contact list \<Rightarrow> u64 \<Rightarrow> (rstr \<times> nat) list \<Rightarrow>
    nat \<Rightarrow> inbox_message list \<Rightarrow> dmp_client \<Rightarrow> 'w \<Rightarrow> (client_error + inbox_message list) \<times> nat \<times> dmp_client \<times> 'w" where
  "receive_slots P S rs_correct E listed now =
     each_slot E (\<lambda>(zone, slot) self. Inr (slot_domain P (cl_user_id self) (of_nat slot) zone))
       (\<lambda>(zone, slot) t record. receive_record P S rs_correct (E t) listed now zone record)"

definition receive_messages :: "prims \<Rightarrow> serde \<Rightarrow> (nat \<Rightarrow> bytes \<Rightarrow> bytes option) \<Rightarrow> bool \<Rightarrow> u64 \<Rightarrow> (nat \<Rightarrow> 'w step_env) \<Rightarrow> dmp_client \<Rightarrow> 'w \<Rightarrow>
    (client_error + inbox_message list) \<times> dmp_client \<times> 'w" where
  "receive_messages P S rs_correct works now E self w =
     (case client_list_contacts works self of
        Inl e \<Rightarrow> (Inl e, self, w)
      | Inr listed \<Rightarrow>
          (case receive_slots P S rs_correct E listed now
                  (List.product (zones_to_poll (cl_domain self) listed) [0..<unat SLOT_COUNT]) 0 [] self w of
             (r, _, self, w) \<Rightarrow> (r, self, w)))"

section \<open>What a step does\<close>

text \<open>The decision about the sender: nobody is pinned; or the key is pinned and not known to be revoked; or a
  pinned contact has rotated to it.\<close>

definition trusted_sender :: "prims \<Rightarrow> 'w step_env \<Rightarrow> contact list \<Rightarrow> bool \<Rightarrow> bytes \<Rightarrow> 'w \<Rightarrow> bool" where
  "trusted_sender P env listed follow spk w \<longleftrightarrow>
     listed = [] \<or>
     (if spk \<in> set (map ct_ed25519_spk listed)
      then follow \<longrightarrow> rotation_manifest_revoked P (re_clock env AtRotation) (d_query (re_dns env) w) listed spk = Inr False
      else follow \<and> rotation_manifest_accepted P (re_clock env AtRotation) (d_query (re_dns env) w) listed spk = Inr True)"

text \<open>What the plaintext of a message rests on: a payload that opens, under the long-term key or a prekey of the
  table, with the header and the prekey number as associated data.\<close>

definition opened_payload :: "prims \<Rightarrow> serde \<Rightarrow> 'w step_env \<Rightarrow> dmp_client \<Rightarrow> slot_manifest \<Rightarrow> inbox_message \<Rightarrow> bool" where
  "opened_payload P S env self m msg \<longleftrightarrow> (\<exists>(outer :: dmp_message) encrypted crypto raw.
     em_from_bytes (msg_payload outer) = Inr encrypted \<and> h_message_id (msg_header outer) = m_msg_id m \<and>
     h_recipient_id (msg_header outer) = m_recipient_id m \<and> \<not> header_is_expired (msg_header outer) (re_clock env AtHeader) \<and>
     (if m_prekey_id m = NO_PREKEY then crypto = cl_crypto self
      else \<exists>sk \<in> secret_keys (cl_prekeys self). from_private_bytes P sk = Inr crypto) \<and>
     decrypt_message P crypto encrypted (Some (header_aad P S (msg_header outer) (m_prekey_id m))) = Inr raw \<and>
     in_sender_signing_pk msg = m_sender_spk m \<and> in_msg_id msg = m_msg_id m \<and>
     in_timestamp msg = h_timestamp (msg_header outer) \<and> in_plaintext msg = fst (envelope_decode S raw))"

lemma decrypt_payload_Some:
  assumes "decrypt_payload P env self n em aad = Some raw"
  obtains crypto where "decrypt_message P crypto em (Some aad) = Inr raw"
    "if n = NO_PREKEY then crypto = cl_crypto self
     else \<exists>sk \<in> secret_keys (cl_prekeys self). from_private_bytes P sk = Inr crypto"
proof (cases "n = NO_PREKEY")
  case False
  then show ?thesis
    using assms that get_private_key_secret
    by (fastforce simp: decrypt_payload_def ok_Some Option.bind_eq_Some_conv split: sum.splits option.splits)
qed (use assms that in \<open>auto simp: decrypt_payload_def ok_Some\<close>)

lemma fetch_opens:
  assumes "fetch_and_decrypt P S rs_correct env m zone self w = Some msg"
  shows "opened_payload P S env self m msg"
proof -
  have "\<exists>outer em raw. em_from_bytes (msg_payload outer) = Inr em \<and> h_message_id (msg_header outer) = m_msg_id m \<and>
    h_recipient_id (msg_header outer) = m_recipient_id m \<and> \<not> header_is_expired (msg_header outer) (re_clock env AtHeader) \<and>
    decrypt_payload P env self (m_prekey_id m) em (header_aad P S (msg_header (outer :: dmp_message)) (m_prekey_id m)) = Some raw \<and>
    in_sender_signing_pk msg = m_sender_spk m \<and> in_msg_id msg = m_msg_id m \<and>
    in_timestamp msg = h_timestamp (msg_header outer) \<and> in_plaintext msg = fst (envelope_decode S raw)"
    using assms unfolding fetch_and_decrypt_def Let_def
    by (clarsimp simp: ok_Some Option.bind_eq_Some_conv case_prod_beta split: if_splits) (intro exI conjI; (assumption | simp))
  then obtain outer em raw where f: "em_from_bytes (msg_payload outer) = Inr em" "h_message_id (msg_header outer) = m_msg_id m"
    "h_recipient_id (msg_header outer) = m_recipient_id m" "\<not> header_is_expired (msg_header outer) (re_clock env AtHeader)"
    "decrypt_payload P env self (m_prekey_id m) em (header_aad P S (msg_header (outer :: dmp_message)) (m_prekey_id m)) = Some raw"
    "in_sender_signing_pk msg = m_sender_spk m" "in_msg_id msg = m_msg_id m" "in_timestamp msg = h_timestamp (msg_header outer)"
    "in_plaintext msg = fst (envelope_decode S raw)" by blast
  from decrypt_payload_Some [OF f(5)] obtain crypto where
    "decrypt_message P crypto em (Some (header_aad P S (msg_header outer) (m_prekey_id m))) = Inr raw"
    "if m_prekey_id m = NO_PREKEY then crypto = cl_crypto self
     else \<exists>sk \<in> secret_keys (cl_prekeys self). from_private_bytes P sk = Inr crypto" .
  with f show ?thesis unfolding opened_payload_def by (intro exI conjI)
qed

text \<open>The parts of the client that a poll leaves alone, and the secret keys of the prekeys, which only become fewer.\<close>

definition same_client :: "dmp_client \<Rightarrow> dmp_client \<Rightarrow> bool" where
  "same_client a b \<longleftrightarrow> cl_username b = cl_username a \<and> cl_domain b = cl_domain a \<and> cl_crypto b = cl_crypto a \<and>
     cl_user_id b = cl_user_id a \<and> cl_contacts b = cl_contacts a \<and> cl_rotation_chain_enabled b = cl_rotation_chain_enabled a \<and>
     secret_keys (cl_prekeys b) \<subseteq> secret_keys (cl_prekeys a)"

lemma same_client_refl: "same_client a a"
  by (simp add: same_client_def)

lemma same_client_trans: "same_client a b \<Longrightarrow> same_client b c \<Longrightarrow> same_client a c"
  by (auto simp: same_client_def)

lemma same_client_updates [simp]:
  "same_client a (b\<lparr>cl_replay := c\<rparr>) = same_client a b" "same_client a (b\<lparr>cl_intros := q\<rparr>) = same_client a b"
  "same_client (a\<lparr>cl_replay := c\<rparr>) b = same_client a b"
  by (simp_all add: same_client_def)

lemma consume_prekey_frame:
  "same_client self (fst (consume_prekey_with_dns P env n self w))"
  "cl_replay (fst (consume_prekey_with_dns P env n self w)) = cl_replay self"
  "cl_intros (fst (consume_prekey_with_dns P env n self w)) = cl_intros self"
  using consume_secrets(1) by (simp_all add: consume_prekey_with_dns_def Let_def same_client_def)

lemma opened_payload_mono:
  "opened_payload P S env b m msg \<Longrightarrow> same_client a b \<Longrightarrow> opened_payload P S env a m msg"
  unfolding opened_payload_def same_client_def by (smt (verit) subsetD)

text \<open>The whole step in terms of the cache: it either leaves the pair alone, or records it first.\<close>

lemma deliver_frame:
  "same_client self (fst (snd (deliver P env m quarantine msg self w)))"
  "cl_replay (fst (snd (deliver P env m quarantine msg self w))) =
     snd (replay_record (re_works env RecordPurge, re_works env RecordInsert) (re_clock env AtRecord) (m_sender_spk m) (m_msg_id m)
       (Some (m_exp m)) (cl_replay self))"
  "fst (deliver P env m quarantine msg self w) = Inr (Some x) \<Longrightarrow> x = msg \<and> \<not> quarantine"
  using consume_prekey_frame [where self = "self\<lparr>cl_replay := c\<rparr>" and P = P and env = env and n = "m_prekey_id m" and w = w for c]
  by (auto simp: deliver_def case_prod_beta same_client_refl split: sum.splits prod.splits if_splits)

definition delivered_ok :: "prims \<Rightarrow> serde \<Rightarrow> 'w step_env \<Rightarrow> dmp_client \<Rightarrow> contact list \<Rightarrow> u64 \<Rightarrow> rstr \<Rightarrow> 'w \<Rightarrow> inbox_message \<Rightarrow> bool" where
  "delivered_ok P S env self listed now record w msg \<longleftrightarrow>
     (\<exists>m sig. manifest_parse_and_verify P record = Some (m, sig) \<and> m_recipient_id m = cl_user_id self \<and> now \<le> m_exp m \<and>
        trusted_sender P env listed (cl_rotation_chain_enabled self) (m_sender_spk m) w \<and> opened_payload P S env self m msg)"

lemma screen_sender_trusts:
  "screen_sender P env listed spk self w = Inr (Some False) \<Longrightarrow> trusted_sender P env listed (cl_rotation_chain_enabled self) spk w"
  by (auto simp: screen_sender_def Let_def andThen_Inr trusted_sender_def split: if_splits)

lemma screen_Some:
  assumes "screen_record P env listed now record self w = Inr (Some (m, quarantine))"
  shows "\<exists>sig. manifest_parse_and_verify P record = Some (m, sig)" "m_recipient_id m = cl_user_id self" "now \<le> m_exp m"
    "\<not> quarantine \<Longrightarrow> trusted_sender P env listed (cl_rotation_chain_enabled self) (m_sender_spk m) w"
  using assms screen_sender_trusts
  by (auto simp: screen_record_def andThen_Inr manifest_is_expired_def unwrap_or_def not_less split: option.splits if_splits)

lemma receive_record_frame: "same_client self (fst (snd (receive_record P S rs_correct env listed now zone record self w)))"
proof -
  have "same_client self (fst (snd (deliver P env m q msg (self\<lparr>cl_replay := c\<rparr>) w)))" for m q msg c
    using deliver_frame(1) [where self = "self\<lparr>cl_replay := c\<rparr>"] by simp
  then show ?thesis
    by (auto simp: receive_record_def same_client_refl split: sum.splits option.splits prod.splits bool.splits)
qed

lemma receive_record_delivers:
  assumes "fst (receive_record P S rs_correct env listed now zone record self w) = Inr (Some msg)"
  shows "delivered_ok P S env self listed now record w msg"
proof -
  obtain m q where s: "screen_record P env listed now record self w = Inr (Some (m, q))"
    using assms by (auto simp: receive_record_def split: sum.splits option.splits)
  obtain c where c: "has_seen (re_works env SeenPurge, re_works env SeenSelect) (re_clock env AtSeen) (m_sender_spk m) (m_msg_id m)
      (cl_replay self) = (Inr False, c)"
    using assms s by (auto simp: receive_record_def split: sum.splits bool.splits prod.splits)
  obtain x where x: "fetch_and_decrypt P S rs_correct env m zone (self\<lparr>cl_replay := c\<rparr>) w = Some x"
    using assms s c by (auto simp: receive_record_def split: option.splits)
  have "fst (deliver P env m q x (self\<lparr>cl_replay := c\<rparr>) w) = Inr (Some msg)"
    using assms s c x by (simp add: receive_record_def)
  then have "msg = x \<and> \<not> q" by (rule deliver_frame(3))
  moreover have "opened_payload P S env self m x"
    using opened_payload_mono [OF fetch_opens [OF x]] by (simp add: same_client_refl)
  ultimately show ?thesis using screen_Some [OF s] unfolding delivered_ok_def by blast
qed

section \<open>What a poll does\<close>

text \<open>An invariant of the handling of a record carries over to the poll.\<close>

definition step_keeps :: "(dmp_client \<Rightarrow> bool) \<Rightarrow> inbox_message set \<Rightarrow>
    (dmp_client \<Rightarrow> 'w \<Rightarrow> (client_error + inbox_message option) \<times> dmp_client \<times> 'w) \<Rightarrow> bool" where
  "step_keeps I R f \<longleftrightarrow> (\<forall>self w. I self \<longrightarrow> I (fst (snd (f self w))) \<and> (\<forall>msg. fst (f self w) = Inr (Some msg) \<longrightarrow> msg \<in> R))"

lemma each_record_inv:
  assumes "\<forall>r \<in> set records. \<forall>t. step_keeps I R (f t r)" "I self"
  shows "case each_record f records t results self w of (r, t', self', w') \<Rightarrow>
    I self' \<and> (\<forall>msgs. r = Inr msgs \<longrightarrow> set msgs \<subseteq> set results \<union> R)"
  using assms
proof (induction records arbitrary: t results self w)
  case (Cons rd rds)
  obtain r self' w' where r: "f t rd self w = (r, self', w')" by (cases "f t rd self w")
  have "step_keeps I R (f t rd)" using Cons.prems(1) by simp
  then have s: "I self'" "\<And>msg. r = Inr (Some msg) \<Longrightarrow> msg \<in> R"
    using Cons.prems(2) r unfolding step_keeps_def by (metis fst_conv snd_conv)+
  have rest: "\<forall>r \<in> set rds. \<forall>t. step_keeps I R (f t r)" using Cons.prems(1) by simp
  note IH = Cons.IH [OF rest s(1), where t = "Suc t" and w = w']
  show ?case
  proof (cases r)
    case (Inl e)
    then show ?thesis using r s(1) by simp
  next
    case (Inr o')
    show ?thesis
    proof (cases o')
      case None
      then show ?thesis using Inr r IH [where results = results] by simp
    next
      case (Some msg)
      have "msg \<in> R" using s(2) Inr Some by simp
      then show ?thesis using Inr Some r IH [where results = "results @ [msg]"] by (auto split: prod.splits)
    qed
  qed
qed auto

lemma each_slot_inv:
  assumes "\<forall>x \<in> set slots. \<forall>t s w n records. I s \<and> name_of x s = Inr n \<and> d_query (re_dns (E t)) w n = Inr (Some records) \<longrightarrow>
      (\<forall>r \<in> set records. \<forall>t. step_keeps I R (f x t r))" "I self"
  shows "case each_slot E name_of f slots t results self w of (r, t', self', w') \<Rightarrow>
    I self' \<and> (\<forall>msgs. r = Inr msgs \<longrightarrow> set msgs \<subseteq> set results \<union> R)"
  using assms
proof (induction slots arbitrary: t results self w)
  case (Cons x slots)
  have rest: "\<forall>x \<in> set slots. \<forall>t s w n records. I s \<and> name_of x s = Inr n \<and> d_query (re_dns (E t)) w n = Inr (Some records) \<longrightarrow>
      (\<forall>r \<in> set records. \<forall>t. step_keeps I R (f x t r))" using Cons.prems(1) by simp
  note IH = Cons.IH [OF rest]
  show ?case
  proof (cases "name_of x self")
    case (Inl e)
    then show ?thesis using Cons.prems(2) by simp
  next
    case n: (Inr n)
    show ?thesis
    proof (cases "d_query (re_dns (E t)) w n")
      case (Inl e)
      then show ?thesis using n Cons.prems(2) by simp
    next
      case q: (Inr a)
      show ?thesis
      proof (cases a)
        case None
        then show ?thesis using n q IH [OF Cons.prems(2), where t = "Suc t" and results = results and w = w] by simp
      next
        case (Some records)
        obtain r t2 self2 w2 where r: "each_record (f x) records (Suc t) results self w = (r, t2, self2, w2)"
          by (cases "each_record (f x) records (Suc t) results self w")
        have k: "\<forall>r \<in> set records. \<forall>t. step_keeps I R (f x t r)" using Cons.prems n q Some by auto
        have i: "I self2" "\<And>msgs. r = Inr msgs \<Longrightarrow> set msgs \<subseteq> set results \<union> R"
          using each_record_inv [where t = "Suc t" and results = results and w = w, OF k Cons.prems(2)] r by simp_all
        show ?thesis
        proof (cases r)
          case (Inl e)
          then show ?thesis using r i n Some q by simp
        next
          case (Inr msgs)
          then show ?thesis using r i(2) [OF Inr] IH [OF i(1), where t = t2 and results = msgs and w = w2] n Some q
            by (auto split: prod.splits)
        qed
      qed
    qed
  qed
qed auto

text \<open>A poll of a list of slots goes through its parts in turn, and passes the slots that hold nothing.\<close>

lemma each_slot_append:
  "each_slot E name_of f (xs @ ys) t results self w =
    (case each_slot E name_of f xs t results self w of
       (Inl e, t, self, w) \<Rightarrow> (Inl e, t, self, w)
     | (Inr results, t, self, w) \<Rightarrow> each_slot E name_of f ys t results self w)"
proof (induction xs arbitrary: t results self w)
  case (Cons x xs)
  show ?case by (auto simp: Cons.IH split: sum.split option.split prod.split)
qed simp

lemma each_slot_none:
  "\<forall>x \<in> set slots. \<exists>n. name_of x self = Inr n \<and> (\<forall>t. d_query (re_dns (E t)) w n = Inr None) \<Longrightarrow>
    each_slot E name_of f slots t results self w = (Inr results, t + length slots, self, w)"
proof (induction slots arbitrary: t)
  case (Cons x slots)
  obtain n where "name_of x self = Inr n" "d_query (re_dns (E t)) w n = Inr None" using Cons.prems by fastforce
  then show ?case using Cons.IH [of "Suc t"] Cons.prems by simp
qed simp

lemma receive_slots_inv:
  assumes "\<forall>(zone, slot) \<in> set slots. \<forall>t s w records. I s \<and>
      d_query (re_dns (E t)) w (slot_domain P (cl_user_id s) (of_nat slot) zone) = Inr (Some records) \<longrightarrow>
      (\<forall>r \<in> set records. \<forall>t. step_keeps I R (receive_record P S rs_correct (E t) listed now zone r))" "I self"
  shows "case receive_slots P S rs_correct E listed now slots t results self w of (r, t', self', w') \<Rightarrow>
    I self' \<and> (\<forall>msgs. r = Inr msgs \<longrightarrow> set msgs \<subseteq> set results \<union> R)"
  unfolding receive_slots_def by (rule each_slot_inv [where I = I and R = R, OF _ assms(2)]) (use assms(1) in fastforce)

lemma receive_slots_simps [simp]:
  "receive_slots P S rs_correct E listed now [] t results self w = (Inr results, t, self, w)"
  "receive_slots P S rs_correct E listed now ((zone, slot) # slots) t results self w =
    (case d_query (re_dns (E t)) w (slot_domain P (cl_user_id self) (of_nat slot) zone) of
       Inl e \<Rightarrow> (Inl (Net e), Suc t, self, w)
     | Inr None \<Rightarrow> receive_slots P S rs_correct E listed now slots (Suc t) results self w
     | Inr (Some records) \<Rightarrow>
         (case each_record (\<lambda>t. receive_record P S rs_correct (E t) listed now zone) records (Suc t) results self w of
            (Inl e, t, self, w) \<Rightarrow> (Inl e, t, self, w)
          | (Inr results, t, self, w) \<Rightarrow> receive_slots P S rs_correct E listed now slots t results self w))"
  unfolding receive_slots_def each_slot.simps sum.case case_prod_conv by (rule refl)+

lemma delivered_ok_mono:
  "delivered_ok P S env b listed now r w msg \<Longrightarrow> same_client a b \<Longrightarrow> delivered_ok P S env a listed now r w msg"
  unfolding delivered_ok_def using opened_payload_mono [of P S env b _ msg a] by (auto simp: same_client_def)

text \<open>The messages that a poll may deliver: each from a record that was offered under a mailbox name of the client.\<close>

definition deliverable :: "prims \<Rightarrow> serde \<Rightarrow> (nat \<Rightarrow> 'w step_env) \<Rightarrow> dmp_client \<Rightarrow> contact list \<Rightarrow> u64 \<Rightarrow> inbox_message set" where
  "deliverable P S E self listed now = {msg. \<exists>zone slot t0 w0 records r t w.
     zone \<in> set (zones_to_poll (cl_domain self) listed) \<and> slot < unat SLOT_COUNT \<and>
     d_query (re_dns (E t0)) w0 (slot_domain P (cl_user_id self) (of_nat slot) zone) = Inr (Some records) \<and> r \<in> set records \<and>
     delivered_ok P S (E t) self listed now r w msg}"

section \<open>Properties\<close>

text \<open>C4: Every delivered message is authentic. Whatever the DNS answers and however the databases fail, each
  message that \<open>receive_messages\<close> returns comes from a record found under one of the client's mailbox names in its own zone
  or a contact's; the record carries a valid signature of the reported sender, names this client as recipient
  and was not expired when the poll began; the sender is trusted (nobody is pinned, or it is pinned
  and not known to be revoked, or a pinned contact has rotated to it); and the plaintext is what opens under the
  client's own key or a prekey of the table, with the header and prekey number as associated data and the
  message id and recipient equal to those in the manifest. The poll leaves the identity and the contacts alone and adds no secret key.\<close>

theorem delivered_authentic:
  "case receive_messages P S rs_correct works now E self w of (r, self', w') \<Rightarrow> same_client self self' \<and>
     (case r of Inl _ \<Rightarrow> True
      | Inr msgs \<Rightarrow> (case client_list_contacts works self of Inl _ \<Rightarrow> False
                    | Inr listed \<Rightarrow> set msgs \<subseteq> deliverable P S E self listed now))"
proof (cases "client_list_contacts works self")
  case (Inr listed)
  let ?slots = "List.product (zones_to_poll (cl_domain self) listed) [0..<unat SLOT_COUNT]"
  have "\<forall>(zone, slot) \<in> set ?slots. \<forall>t s w records. same_client self s \<and>
      d_query (re_dns (E t)) w (slot_domain P (cl_user_id s) (of_nat slot) zone) = Inr (Some records) \<longrightarrow>
      (\<forall>r \<in> set records. \<forall>t. step_keeps (same_client self) (deliverable P S E self listed now)
         (receive_record P S rs_correct (E t) listed now zone r))"
  proof (clarsimp simp: step_keeps_def, intro conjI allI impI)
    fix zone slot t s w records r t' b w'
    show "same_client self b \<Longrightarrow> same_client self (fst (snd (receive_record P S rs_correct (E t') listed now zone r b w')))"
      by (rule same_client_trans [OF _ receive_record_frame])
    fix msg
    assume h: "zone \<in> set (zones_to_poll (cl_domain self) listed)" "slot < unat SLOT_COUNT" "same_client self s"
      "d_query (re_dns (E t)) w (slot_domain P (cl_user_id s) (word_of_nat slot) zone) = Inr (Some records)" "r \<in> set records"
      "same_client self b" "fst (receive_record P S rs_correct (E t') listed now zone r b w') = Inr (Some msg)"
    have "delivered_ok P S (E t') self listed now r w' msg"
      by (rule delivered_ok_mono [OF receive_record_delivers [OF h(7)] h(6)])
    moreover have "cl_user_id s = cl_user_id self" using h(3) by (simp add: same_client_def)
    with h(4) have "d_query (re_dns (E t)) w (slot_domain P (cl_user_id self) (word_of_nat slot) zone) = Inr (Some records)" by simp
    ultimately show "msg \<in> deliverable P S E self listed now" using h(1,2,5) unfolding deliverable_def mem_Collect_eq by blast
  qed
  from receive_slots_inv [where results = "[]" and t = 0 and w = w, OF this same_client_refl]
  show ?thesis using Inr by (auto simp: receive_messages_def split: sum.splits)
qed (simp add: receive_messages_def same_client_refl)

text \<open>The statements on the replay cache work, and the clock is not past \<open>T\<close> when it is asked.\<close>

definition cache_works :: "u64 \<Rightarrow> 'w step_env \<Rightarrow> bool" where
  "cache_works T env \<longleftrightarrow> re_works env SeenPurge \<and> re_works env SeenSelect \<and> re_works env RecordPurge \<and> re_works env RecordInsert \<and>
     re_clock env AtSeen \<le> T \<and> re_clock env AtRecord \<le> T"

definition remembers :: "u64 \<Rightarrow> bytes \<times> bytes \<Rightarrow> dmp_client \<Rightarrow> bool" where
  "remembers T k self \<longleftrightarrow> wf_replay (cl_replay self) \<and> k \<in> live_pairs T (cl_replay self)"

definition pair_of :: "inbox_message \<Rightarrow> bytes \<times> bytes" where
  "pair_of msg = (in_sender_signing_pk msg, in_msg_id msg)"

lemma fetch_pair: "fetch_and_decrypt P S rs_correct env m zone self w = Some msg \<Longrightarrow> pair_of msg = (m_sender_spk m, m_msg_id m)"
  by (drule fetch_opens) (auto simp: opened_payload_def pair_of_def)

text \<open>The outcome of a step, by what the cache says.\<close>

lemma receive_record_cache:
  assumes "cache_works T env" "wf_replay (cl_replay self)" "screen_record P env listed now r self w = Inr (Some (m, q))"
  defines "c \<equiv> snd (has_seen (True, True) (re_clock env AtSeen) (m_sender_spk m) (m_msg_id m) (cl_replay self))"
  shows "receive_record P S rs_correct env listed now zone r self w =
    (if (m_sender_spk m, m_msg_id m) \<in> live_pairs (re_clock env AtSeen) (cl_replay self) then (Inr None, self\<lparr>cl_replay := c\<rparr>, w)
     else (case fetch_and_decrypt P S rs_correct env m zone (self\<lparr>cl_replay := c\<rparr>) w of
        None \<Rightarrow> (Inr None, self\<lparr>cl_replay := c\<rparr>, w)
      | Some decoded \<Rightarrow> deliver P env m q decoded (self\<lparr>cl_replay := c\<rparr>) w))"
    "wf_replay c" "live_pairs T c = live_pairs T (cl_replay self)"
proof -
  have "has_seen (True, True) (re_clock env AtSeen) (m_sender_spk m) (m_msg_id m) (cl_replay self) =
      (Inr ((m_sender_spk m, m_msg_id m) \<in> live_pairs (re_clock env AtSeen) (cl_replay self)), c)"
    by (simp add: c_def has_seen_ok [OF assms(2)])
  moreover have "re_works env SeenPurge" "re_works env SeenSelect" "re_clock env AtSeen \<le> T"
    using assms(1) by (simp_all add: cache_works_def)
  ultimately show "receive_record P S rs_correct env listed now zone r self w =
      (if (m_sender_spk m, m_msg_id m) \<in> live_pairs (re_clock env AtSeen) (cl_replay self) then (Inr None, self\<lparr>cl_replay := c\<rparr>, w)
       else (case fetch_and_decrypt P S rs_correct env m zone (self\<lparr>cl_replay := c\<rparr>) w of
          None \<Rightarrow> (Inr None, self\<lparr>cl_replay := c\<rparr>, w)
        | Some decoded \<Rightarrow> deliver P env m q decoded (self\<lparr>cl_replay := c\<rparr>) w))"
    using assms(3) by (simp add: receive_record_def)
  show "wf_replay c" "live_pairs T c = live_pairs T (cl_replay self)"
    using purge_live [OF assms(2) \<open>re_clock env AtSeen \<le> T\<close>] wf_purge [OF assms(2)] by (simp_all add: c_def has_seen_ok [OF assms(2)])
qed

lemma deliver_cache:
  assumes "cache_works T env" "wf_replay (cl_replay self)"
  shows "cl_replay (fst (snd (deliver P env m q msg self w))) =
      record_now (re_clock env AtRecord) (m_exp m) (m_sender_spk m, m_msg_id m) (cl_replay self)"
    "wf_replay (cl_replay (fst (snd (deliver P env m q msg self w))))"
    "live_pairs T (cl_replay (fst (snd (deliver P env m q msg self w)))) =
      (if i64_secs T < i64_secs (m_exp m) then insert (m_sender_spk m, m_msg_id m) (live_pairs T (cl_replay self))
       else live_pairs T (cl_replay self) - {(m_sender_spk m, m_msg_id m)})"
proof -
  show c: "cl_replay (fst (snd (deliver P env m q msg self w))) =
      record_now (re_clock env AtRecord) (m_exp m) (m_sender_spk m, m_msg_id m) (cl_replay self)"
    using assms(1) by (simp add: deliver_frame(2) record_now_def cache_works_def)
  show "wf_replay (cl_replay (fst (snd (deliver P env m q msg self w))))"
    using replay.remember_ok [OF assms(2)] unfolding c by blast
  show "live_pairs T (cl_replay (fst (snd (deliver P env m q msg self w)))) =
      (if i64_secs T < i64_secs (m_exp m) then insert (m_sender_spk m, m_msg_id m) (live_pairs T (cl_replay self))
       else live_pairs T (cl_replay self) - {(m_sender_spk m, m_msg_id m)})"
    unfolding c by (rule record_live [OF assms(2)]) (use assms(1) in \<open>simp add: cache_works_def\<close>)
qed

lemma step_remembers:
  assumes "cache_works T env"
  shows "step_keeps (remembers T k) {msg. pair_of msg \<noteq> k} (receive_record P S rs_correct env listed now zone r)"
  unfolding step_keeps_def
proof (intro allI impI)
  fix self w
  assume k: "remembers T k self"
  then have wf: "wf_replay (cl_replay self)" by (simp add: remembers_def)
  let ?r = "receive_record P S rs_correct env listed now zone r self w"
  show "remembers T k (fst (snd ?r)) \<and> (\<forall>msg. fst ?r = Inr (Some msg) \<longrightarrow> msg \<in> {msg. pair_of msg \<noteq> k})"
  proof (cases "screen_record P env listed now r self w")
    case (Inr s)
    show ?thesis
    proof (cases s)
      case (Some mq)
      obtain m q where mq: "mq = (m, q)" by (cases mq)
      let ?k = "(m_sender_spk m, m_msg_id m)"
      let ?c = "snd (has_seen (True, True) (re_clock env AtSeen) (m_sender_spk m) (m_msg_id m) (cl_replay self))"
      have sc: "screen_record P env listed now r self w = Inr (Some (m, q))" using Inr Some mq by simp
      note rc = receive_record_cache [OF assms wf sc]
      have seen: "remembers T k (self\<lparr>cl_replay := ?c\<rparr>)" using rc(2,3) k by (simp add: remembers_def)
      show ?thesis
      proof (cases "?k \<in> live_pairs (re_clock env AtSeen) (cl_replay self)")
        case False
        have "live_pairs T (cl_replay self) \<subseteq> live_pairs (re_clock env AtSeen) (cl_replay self)"
          using assms by (intro replay.live_anti) (simp add: cache_works_def)
        with False k have other: "?k \<noteq> k" by (auto simp: remembers_def)
        show ?thesis
        proof (cases "fetch_and_decrypt P S rs_correct env m zone (self\<lparr>cl_replay := ?c\<rparr>) w")
          case (Some decoded)
          have "remembers T k (fst (snd (deliver P env m q decoded (self\<lparr>cl_replay := ?c\<rparr>) w)))"
            using deliver_cache(2,3) [OF assms, of "self\<lparr>cl_replay := ?c\<rparr>" P m q decoded w] rc(2) seen other
            by (auto simp: remembers_def)
          moreover have "msg = decoded" if d: "fst (deliver P env m q decoded (self\<lparr>cl_replay := ?c\<rparr>) w) = Inr (Some msg)" for msg
            using deliver_frame(3) [OF d] by simp
          ultimately show ?thesis using rc(1) False Some fetch_pair [OF Some] other by auto
        qed (use rc(1) False seen in simp)
      qed (use rc(1) seen in simp)
    qed (use Inr k in \<open>simp add: receive_record_def\<close>)
  qed (use k in \<open>simp add: receive_record_def\<close>)
qed

lemma delivery_remembered:
  assumes "cache_works T env" "wf_replay (cl_replay self)" "manifest_parse_and_verify P r = Some (m, sig)" "i64_secs T < i64_secs (m_exp m)"
    and "receive_record P S rs_correct env listed now zone r self w = (Inr (Some msg), self', w')"
  shows "remembers T (pair_of msg) self'" "pair_of msg = (m_sender_spk m, m_msg_id m)"
proof -
  obtain m' q where sc: "screen_record P env listed now r self w = Inr (Some (m', q))"
    using assms(5) by (auto simp: receive_record_def split: sum.splits option.splits)
  have m: "m' = m" using screen_Some(1) [OF sc] assms(3) by simp
  let ?c = "snd (has_seen (True, True) (re_clock env AtSeen) (m_sender_spk m) (m_msg_id m) (cl_replay self))"
  note rc = receive_record_cache [OF assms(1,2) sc [unfolded m]]
  obtain x where x: "fetch_and_decrypt P S rs_correct env m zone (self\<lparr>cl_replay := ?c\<rparr>) w = Some x"
    "deliver P env m q x (self\<lparr>cl_replay := ?c\<rparr>) w = (Inr (Some msg), self', w')"
    using rc(1) [where S = S and rs_correct = rs_correct and zone = zone] assms(5) by (auto split: if_splits option.splits)
  have "msg = x" using deliver_frame(3) [where x = msg and msg = x] x(2) by (metis fst_conv)
  then show p: "pair_of msg = (m_sender_spk m, m_msg_id m)" using fetch_pair [OF x(1)] by simp
  show "remembers T (pair_of msg) self'"
    using deliver_cache(2,3) [OF assms(1), of "self\<lparr>cl_replay := ?c\<rparr>" P m q x w] rc(2) assms(4) x(2)
    unfolding remembers_def p by simp
qed

end
