(* ===== verification/Delivery.thy ===== *)
theory Delivery
  imports Receive "HOL-Library.Multiset"
begin

text \<open>
  Sending and receiving together: what \<open>send_message\<close> puts into a store is what \<open>receive_messages\<close> takes out
  of it. \<open>crates\<close> bundles the documented behaviour of the crates that both sides rely on.
\<close>

section \<open>What the crates promise\<close>

text \<open>ChaCha20-Poly1305 seals every plaintext and adds 16 bytes.\<close>

definition aead_seals :: "prims \<Rightarrow> bool" where
  "aead_seals P \<longleftrightarrow> (\<forall>k n m a. \<exists>c. aead_encrypt P k n m a = Some c \<and> length c = length m + 16)"

definition crates :: "prims \<Rightarrow> serde \<Rightarrow> (nat \<Rightarrow> bytes \<Rightarrow> bytes) \<Rightarrow> (nat \<Rightarrow> bytes \<Rightarrow> bytes option) \<Rightarrow> bool" where
  "crates P S rs_encode rs_correct \<longleftrightarrow> b64_codec P \<and> ed25519 P \<and> digest P \<and> x25519_aead P \<and> aead_seals P \<and> serde_json S \<and>
     hex_codec P S \<and> rs_code rs_encode rs_correct"

lemma demo_crates: "crates demo_prims demo_serde ref_encode ref_correct"
  by (simp add: crates_def demo_b64 demo_ed25519 demo_digest demo_x25519 demo_serde_json demo_hex_codec ref_code)
    (simp add: aead_seals_def demo_prims_def)

section \<open>Publishing in the memory store\<close>

definition publish_all :: "u64 \<Rightarrow> u32 \<Rightarrow> (rstr \<times> rstr) list \<Rightarrow> mem_store \<Rightarrow> mem_store" where
  "publish_all now ttl kvs s = fold (\<lambda>(n, v) s. snd (mem_publish now n v ttl s)) kvs s"

lemma publish_all_live:
  "mem_inv s \<Longrightarrow> now < sat_add now (ucast ttl) \<Longrightarrow> mem_inv (publish_all now ttl kvs s) \<and>
    live_at now (mem_abs (publish_all now ttl kvs s)) n = live_at now (mem_abs s) n \<union> {v. (n, v) \<in> set kvs}"
proof (induction kvs arbitrary: s)
  case (Cons x kvs)
  obtain m v where x: "x = (m, v)" by (cases x)
  have p: "mem_inv (snd (mem_publish now m v ttl s))"
    "live_at now (mem_abs (snd (mem_publish now m v ttl s))) n = live_at now (mem_abs s) n \<union> {u. (n, u) = (m, v)}"
    using mem_publish_refines [OF Cons.prems(1), of now m v ttl] Cons.prems(2) by (auto simp: live_at_def)
  show ?case using Cons.IH [OF p(1) Cons.prems(2)] p(2) by (auto simp: publish_all_def x)
qed (simp add: publish_all_def)

lemma query_of_live:
  assumes "mem_inv s"
  shows "live_at now (mem_abs s) n = {} \<Longrightarrow> mem_query now n s = Inr None"
    "live_at now (mem_abs s) n = {v} \<Longrightarrow> mem_query now n s = Inr (Some [v])"
proof -
  have a: "answers (mem_query now n s) (live_at now (mem_abs s) n)" by (rule mem_query_answers [OF assms])
  show "live_at now (mem_abs s) n = {} \<Longrightarrow> mem_query now n s = Inr None" using a by (simp add: answers_def)
  assume "live_at now (mem_abs s) n = {v}"
  then obtain l where l: "mem_query now n s = Inr (Some l)" "distinct l" "set l = {v}" using a by (auto simp: answers_def)
  then have "l = [v]" by (cases l) (auto simp: subset_singleton_iff)
  with l(1) show "mem_query now n s = Inr (Some [v])" by simp
qed

definition chunk_txt_of :: "prims \<Rightarrow> (nat \<Rightarrow> bytes \<Rightarrow> bytes) \<Rightarrow> bytes \<Rightarrow> rstr" where
  "chunk_txt_of P rs_encode block = chunk_txt_record P (sha256_prefix (sha256 P) block @ rs_encode RS_SYMBOLS block)"

lemma publish_chunks_memory:
  "list_all (\<lambda>b. length b = DATA_PER_CHUNK) blocks \<Longrightarrow>
    publish_chunks P rs_encode (memory_dns now) domain i blocks key ttl s =
      (Inr (), publish_all now ttl (map (\<lambda>j. (chunk_domain key (of_nat (i + j)) domain, chunk_txt_of P rs_encode (blocks ! j)))
        [0..<length blocks]) s)"
proof (induction blocks arbitrary: i s)
  case (Cons b blocks)
  have wrap: "wrap_block (sha256 P) rs_encode \<lparr> enable_error_correction = True \<rparr> b =
      Inr (sha256_prefix (sha256 P) b @ rs_encode RS_SYMBOLS b)"
    using Cons.prems by (simp add: wrap_block_def Let_def)
  have split: "map f [0..<length (b # blocks)] = f 0 # map (\<lambda>j. f (Suc j)) [0..<length blocks]" for f :: "nat \<Rightarrow> rstr \<times> rstr"
    by (simp add: upt_conv_Cons map_Suc_upt [symmetric] del: upt_Suc map_Suc_upt)
  show ?case unfolding split using Cons.IH [where i = "Suc i"] Cons.prems
    by (subst publish_chunks.simps(2), subst wrap) (simp add: publish_all_def memory_dns_def mem_publish_def Let_def chunk_txt_of_def)
qed (simp add: publish_all_def)

section \<open>Collecting the shares\<close>

lemma first_block_of_txt:
  assumes "b64_codec P" "digest P" "rs_code rs_encode rs_correct" "length block = DATA_PER_CHUNK"
  shows "first_block P rs_correct [chunk_txt_of P rs_encode block] = Some block"
proof -
  let ?wire = "sha256_prefix (sha256 P) block @ rs_encode RS_SYMBOLS block"
  have sha: "sha256_digest (sha256 P)" using assms(2) by (simp add: sha256_digest_def digest_def)
  have wrap: "wrap_block (sha256 P) rs_encode \<lparr> enable_error_correction = True \<rparr> block = Inr ?wire"
    using assms(4) by (simp add: wrap_block_ok)
  have "unwrap_block (sha256 P) rs_correct \<lparr> enable_error_correction = True \<rparr> (take CHECKSUM_LEN ?wire @ drop CHECKSUM_LEN ?wire) = Some block"
    by (rule unwrap_damaged [OF sha assms(3) wrap]) (simp_all add: byte_errors_def length_sha256_prefix [OF sha])
  then have "unwrap_block (sha256 P) rs_correct \<lparr> enable_error_correction = True \<rparr> ?wire = Some block"
    unfolding append_take_drop_id .
  moreover have "parse_chunk_txt P (chunk_txt_of P rs_encode block) = Some ?wire"
    using assms(1) by (simp add: parse_chunk_txt_def chunk_txt_of_def chunk_txt_record_def CHUNK_TXT_PREFIX_def b64_codec_def strip_prefix_def starts_with_iff)
  ultimately show ?thesis by simp
qed

lemma collect_all:
  "(\<And>i. i \<in> set is \<Longrightarrow> \<exists>records. d_query D w (chunk_domain key (of_nat i) zone) = Inr (Some records) \<and>
      first_block P rs_correct records = Some (block i)) \<Longrightarrow>
    collect_shares P rs_correct D key zone k is got w = got @ map (\<lambda>i. (i, block i)) (take (k - length got) is)"
proof (induction "is" arbitrary: got)
  case (Cons i "is")
  obtain records where r: "d_query D w (chunk_domain key (of_nat i) zone) = Inr (Some records)" "first_block P rs_correct records = Some (block i)"
    using Cons.prems [of i] by auto
  have "collect_shares P rs_correct D key zone k is (got @ [(i, block i)]) w =
      (got @ [(i, block i)]) @ map (\<lambda>i. (i, block i)) (take (k - length (got @ [(i, block i)])) is)"
    by (rule Cons.IH) (use Cons.prems in simp)
  then show ?case using r by (simp add: take_Cons split: nat.split) (metis Suc_diff_Suc diff_is_0_eq nat.inject not_le)
qed simp

section \<open>Sending succeeds\<close>

definition client_ok :: "prims \<Rightarrow> dmp_client \<Rightarrow> bool" where
  "client_ok P c \<longleftrightarrow> wf_crypto P (cl_crypto c) \<and> cl_user_id c = derive_user_id P (x25519_pub (cl_crypto c))"

text \<open>The key that a message is encrypted to: a prekey that is found, or the contact's own.\<close>

definition chosen_key :: "prims \<Rightarrow> 'w dns \<Rightarrow> send_env \<Rightarrow> contact \<Rightarrow> 'w \<Rightarrow> u32 \<times> bytes" where
  "chosen_key P D env c w = (case pick_recipient_prekey P D (se_clock env) (se_pick env) c w of
     Some (pid, pk) \<Rightarrow> (pid, pk) | None \<Rightarrow> (NO_PREKEY, ct_x25519_pk c))"

definition ttl32 :: u32 where
  "ttl32 = u32_or_max DEFAULT_TTL_SECONDS"

lemma ttl32: "ttl32 = 300"
  by (simp add: ttl32_def u32_or_max_def DEFAULT_TTL_SECONDS_def)

definition sent_manifest :: "prims \<Rightarrow> send_env \<Rightarrow> dmp_client \<Rightarrow> bytes \<Rightarrow> u32 \<Rightarrow> nat \<Rightarrow> nat \<Rightarrow> slot_manifest" where
  "sent_manifest P env self recipient_id pid k n = \<lparr> m_msg_id = se_msg_id env, m_sender_spk = verifying_key (cl_crypto self),
     m_recipient_id = recipient_id, m_total_chunks = of_nat n, m_data_chunks = of_nat k, m_prekey_id = pid,
     m_ts = se_clock env, m_exp = sat_add (se_clock env) (ucast ttl32) \<rparr>"

lemma wrap_length: "length (maybe_wrap_envelope P S D self c plaintext w) \<le> length plaintext + 300"
  by (simp add: maybe_wrap_envelope_def envelope_encode_def DMPV2_PREFIX_def MAX_HEADER_BYTES_def Let_def split: option.split)

lemma framed_length:
  assumes "serde_json S" "hex_codec P S" "wf_header (msg_header m)"
  obtains d where "message_to_bytes P S m = Some d" "length d \<le> length (msg_payload m) + 434"
    "message_from_bytes S d = Inr (m\<lparr>msg_signature := resize 32 0 (msg_signature m)\<rparr>)"
proof -
  obtain d where d: "message_to_bytes P S m = Some d" "message_from_bytes S d = Inr (m\<lparr>msg_signature := resize 32 0 (msg_signature m)\<rparr>)"
    using message_framed [OF assms] by blast
  moreover have "length d \<le> length (msg_payload m) + 434"
    using d(1) header_length [OF assms] by (auto simp: message_to_bytes_def Let_def const_defs split: if_splits)
  ultimately show thesis using that by blast
qed

lemma sent_manifest_signs:
  assumes "0 < k" "k < n" "n \<le> 256"
  shows "\<exists>rd. manifest_sign P (sent_manifest P env self rid pid k n) crypto = Inr rd"
    "unat (m_total_chunks (sent_manifest P env self rid pid k n)) = n" "unat (m_data_chunks (sent_manifest P env self rid pid k n)) = k"
proof -
  have u: "unat (of_nat n :: u32) = n" "unat (of_nat k :: u32) = k"
    using assms by (simp_all add: unsigned_of_nat take_bit_nat_eq_self)
  show "unat (m_total_chunks (sent_manifest P env self rid pid k n)) = n" "unat (m_data_chunks (sent_manifest P env self rid pid k n)) = k"
    using u by (simp_all add: sent_manifest_def)
  have "of_nat n \<noteq> (0 :: u32)" "of_nat k \<noteq> (0 :: u32)" using u assms by (metis less_nat_zero_code unat_0)+
  moreover have "\<not> (of_nat n :: u32) < of_nat k" "\<not> (1024 :: u32) < of_nat n"
    using assms unfolding word_less_nat_alt u by simp_all
  ultimately show "\<exists>rd. manifest_sign P (sent_manifest P env self rid pid k n) crypto = Inr rd"
    by (simp add: manifest_sign_def manifest_to_body_def manifest_validate_def sent_manifest_def MAX_TOTAL_CHUNKS_def)
qed

text \<open>The records that a message adds to the store.\<close>

definition sent_records :: "prims \<Rightarrow> (nat \<Rightarrow> bytes \<Rightarrow> bytes) \<Rightarrow> send_env \<Rightarrow> dmp_client \<Rightarrow> bytes \<Rightarrow> bytes list \<Rightarrow> rstr \<Rightarrow> (rstr \<times> rstr) list" where
  "sent_records P rs_encode env self rid blocks rd =
     map (\<lambda>j. (chunk_domain (msg_key P (se_msg_id env) rid (verifying_key (cl_crypto self))) (of_nat j) (cl_domain self),
       chunk_txt_of P rs_encode (blocks ! j))) [0..<length blocks] @
     [(slot_domain P rid (slot_for_msg_id (se_msg_id env)) (cl_domain self), rd)]"

lemma publish_all_append: "publish_all now ttl (xs @ ys) s = publish_all now ttl ys (publish_all now ttl xs s)"
  by (simp add: publish_all_def)

lemma encrypt_ok:
  assumes "aead_seals P" "x25519_aead P" "was_contributory (x25519_dh P seed pk)"
  obtains em where "encrypt_for_recipient P seed nonce pt pk aad = Inr em" "length (em_to_bytes em) = 32 + length nonce + length pt + 16"
proof -
  obtain c where c: "aead_encrypt P (hkdf_sha256 P HKDF_SALT (x25519_dh P seed pk) HKDF_INFO) nonce pt
      (case aad of None \<Rightarrow> [] | Some a \<Rightarrow> a) = Some c" "length c = length pt + 16"
    using assms(1) unfolding aead_seals_def by blast
  have "length (x25519_public P seed) = 32" using assms(2) by (simp add: x25519_aead_def)
  with c assms(3) that show thesis by (simp add: encrypt_for_recipient_def em_to_bytes_def Let_def)
qed

lemma default_shares:
  assumes "length d \<le> 25084"
  obtains blocks k n where "erasure_encode d DEFAULT_REDUNDANCY = Inr (blocks, k, n)" "length blocks = n"
    "list_all (\<lambda>b. length b = DATA_PER_CHUNK) blocks" "0 < k" "k < n" "n \<le> 256"
proof -
  obtain blocks where b: "erasure_encode d DEFAULT_REDUNDANCY = Inr (blocks, data_blocks (length d), default_n (data_blocks (length d)))"
    "length blocks = default_n (data_blocks (length d))" "\<forall>b \<in> set blocks. length b = DATA_PER_CHUNK"
    using encode_default [OF assms] by blast
  obtain f where "fec_new (data_blocks (length d)) (default_n (data_blocks (length d))) = Inr f"
    using erasure_encode_ok [OF b(1)] by blast
  with b that show thesis by (auto simp: fec_new_ok list_all_iff)
qed

lemma send_to_store:
  assumes cr: "crates P S rs_encode rs_correct" and a: "client_ok P alice"
    and len: "length (se_msg_id env) = 16" "length (se_nonce env) = 12" "length plaintext \<le> 24000"
    and stored: "get_contact (se_works env) name (cl_contacts alice) = Inr (Some stored)"
    and key: "chosen_key P (memory_dns now) env (recipient_contact alice stored) s = (pid, pk)"
    and dh: "was_contributory (x25519_dh P (se_seed env) pk)"
  defines "rid \<equiv> derive_user_id P (sc_x25519_pk stored)"
  defines "h \<equiv> outer_header alice (se_msg_id env) rid (se_clock env) ttl32"
  obtains em d blocks k n rd where
    "encrypt_for_recipient P (se_seed env) (se_nonce env)
       (maybe_wrap_envelope P S (memory_dns now) alice (recipient_contact alice stored) plaintext s) pk
       (Some (header_aad P S h pid)) = Inr em"
    "message_from_bytes S d = Inr \<lparr> msg_header = h, msg_payload = em_to_bytes em, msg_signature = replicate 32 0 \<rparr>"
    "erasure_encode d DEFAULT_REDUNDANCY = Inr (blocks, k, n)" "length blocks = n"
    "list_all (\<lambda>b. length b = DATA_PER_CHUNK) blocks" "0 < k" "k < n" "n \<le> 256"
    "manifest_sign P (sent_manifest P env alice rid pid k n) (cl_crypto alice) = Inr rd"
    "send_message P S rs_encode (memory_dns now) env name plaintext alice s =
       Some (Inr (se_msg_id env), publish_all now ttl32 (sent_records P rs_encode env alice rid blocks rd) s)"
proof -
  let ?c = "recipient_contact alice stored"
  let ?body = "maybe_wrap_envelope P S (memory_dns now) alice ?c plaintext s"
  have P: "digest P" "aead_seals P" "x25519_aead P" "serde_json S" "hex_codec P S" using cr by (simp_all add: crates_def)
  have rid: "derive_user_id P (ct_x25519_pk ?c) = rid" by (simp add: rid_def recipient_contact_def)
  have aad: "build_aad P S (se_msg_id env) (cl_user_id alice) rid (se_clock env) ttl32 pid = header_aad P S h pid"
    by (simp add: build_aad_def header_aad_def h_def outer_header_def)
  obtain em where em: "encrypt_for_recipient P (se_seed env) (se_nonce env) ?body pk (Some (header_aad P S h pid)) = Inr em"
    "length (em_to_bytes em) = 32 + 12 + length ?body + 16"
    using encrypt_ok [OF P(2,3) dh] len(2) by metis
  let ?m = "\<lparr> msg_header = h, msg_payload = em_to_bytes em, msg_signature = replicate 32 0 \<rparr>"
  have "wf_header (msg_header ?m)"
    using P(1) len(1) a by (simp add: wf_header_def h_def outer_header_def client_ok_def derive_user_id_def rid_def digest_def)
  then obtain d where d: "message_to_bytes P S ?m = Some d" "length d \<le> length (em_to_bytes em) + 434" "message_from_bytes S d = Inr ?m"
    by (rule framed_length [OF P(4,5)]) (simp add: resize_def)
  have "length d \<le> 25084" using d(2) em(2) len(3) wrap_length [of P S "memory_dns now" alice ?c plaintext s] by linarith
  then obtain blocks k n where b: "erasure_encode d DEFAULT_REDUNDANCY = Inr (blocks, k, n)" "length blocks = n"
    "list_all (\<lambda>b. length b = DATA_PER_CHUNK) blocks" "0 < k" "k < n" "n \<le> 256" by (rule default_shares)
  obtain rd where rd: "manifest_sign P (sent_manifest P env alice rid pid k n) (cl_crypto alice) = Inr rd"
    using sent_manifest_signs(1) [OF b(4-6)] by blast
  have "send_message P S rs_encode (memory_dns now) env name plaintext alice s =
      Some (Inr (se_msg_id env), publish_all now ttl32 (sent_records P rs_encode env alice rid blocks rd) s)"
    using stored key [unfolded chosen_key_def] em(1) d(1) b rd
      publish_chunks_memory [OF b(3), where i = 0 and s = s and P = P and rs_encode = rs_encode and now = now and ttl = ttl32]
    by (simp add: send_message_def Let_def rid aad flip: ttl32_def)
      (simp add: Let_def rid h_def publish_manifest_def sent_manifest_def sent_records_def publish_all_def memory_dns_def mem_publish_def b(2))
  with that em(1) d(3) b rd show thesis by blast
qed

section \<open>Fetching what was sent\<close>

lemma collect_sent:
  assumes cr: "crates P S rs_encode rs_correct"
    and b: "erasure_encode d DEFAULT_REDUNDANCY = Inr (blocks, k, n)" "length blocks = n" "list_all (\<lambda>b. length b = DATA_PER_CHUNK) blocks" "k < n"
    and q: "\<And>j. j < n \<Longrightarrow> d_query D w (chunk_domain key (of_nat j) zone) = Inr (Some [chunk_txt_of P rs_encode (blocks ! j)])"
    and order: "\<And>l. mset (order l) = mset l"
  defines "got \<equiv> collect_shares P rs_correct D key zone k [0..<n] [] w"
  shows "length got = k" "erasure_decode (order got) k n = Some d"
proof -
  have P: "b64_codec P" "digest P" "rs_code rs_encode rs_correct" using cr by (simp_all add: crates_def)
  have "\<exists>records. d_query D w (chunk_domain key (of_nat i) zone) = Inr (Some records) \<and> first_block P rs_correct records = Some (blocks ! i)"
    if "i \<in> set [0..<n]" for i
    using q [of i] that b(2,3) first_block_of_txt [OF P, of "blocks ! i"] by (auto simp: list_all_length)
  from collect_all [of "[0..<n]" D w key zone P rs_correct "\<lambda>i. blocks ! i", OF this]
  have got: "got = map (\<lambda>i. (i, blocks ! i)) [0..<k]" using b(4) by (simp add: got_def take_upt)
  then show "length got = k" by simp
  have "set (order got) = set got" by (rule mset_eq_setD [OF order])
  then have set: "set (order got) = (\<lambda>i. (i, blocks ! i)) ` {..<k}" unfolding got by (simp add: lessThan_atLeast0)
  have "set (order got) \<subseteq> set (zip [0..<n] blocks)"
    unfolding set using share_in_zip [OF b(2)] b(4) by auto
  moreover have "card (fst ` set (order got)) = k" unfolding set by (simp add: image_image)
  ultimately show "erasure_decode (order got) k n = Some d" using erasure_recovers [OF b(1)] by simp
qed

lemma sent_opens:
  assumes "crates P S rs_encode rs_correct" "length (se_nonce env) = 12"
    and "encrypt_for_recipient P (se_seed env) (se_nonce env) body pk (Some aad) = Inr em"
    and "if pid = NO_PREKEY then client_ok P bob \<and> pk = x25519_pub (cl_crypto bob)
         else \<exists>sk. get_private_key (re_works renv PrekeySelect) (re_clock renv AtPrekey) pid (cl_prekeys bob) = Inr (Some sk) \<and>
                pk = x25519_public P sk"
  shows "em_from_bytes (em_to_bytes em) = Inr em" "decrypt_payload P renv bob pid em aad = Some body"
proof -
  have x: "x25519_aead P" using assms(1) by (simp add: crates_def)
  obtain seed me where me: "from_private_bytes P seed = Inr me" "pk = x25519_pub me"
    "decrypt_payload P renv bob pid em aad = ok (decrypt_message P me em (Some aad))"
  proof (cases "pid = NO_PREKEY")
    case True
    then show thesis using assms(4) that unfolding client_ok_def wf_crypto_def by (auto simp: decrypt_payload_def)
  next
    case False
    then obtain sk where sk: "get_private_key (re_works renv PrekeySelect) (re_clock renv AtPrekey) pid (cl_prekeys bob) = Inr (Some sk)"
      "pk = x25519_public P sk" using assms(4) by auto
    then have "length sk = 32" by (auto simp: get_private_key_def X25519_KEY_LEN_def split: if_splits option.splits)
    then obtain me where me: "from_private_bytes P sk = Inr me" by (simp add: from_private_bytes_ok)
    moreover have "x25519_pub me = x25519_public P sk" using me by (simp add: from_private_bytes_ok)
    ultimately show thesis using that [OF me] False sk by (simp add: decrypt_payload_def)
  qed
  have o: "em_from_bytes (em_to_bytes em) = Inr em \<and> decrypt_message P me em (Some aad) = Inr body"
    by (rule encrypted_opens [OF x me(1) assms(2)]) (use assms(3) me(2) in simp)
  then show "em_from_bytes (em_to_bytes em) = Inr em" "decrypt_payload P renv bob pid em aad = Some body" using me(3) by simp_all
qed

lemma wrapped_opens:
  assumes "serde_json S" "\<not> starts_with DMPV2_PREFIX plaintext"
  shows "fst (envelope_decode S (maybe_wrap_envelope P S D self c plaintext w)) = plaintext"
proof (cases "2 \<in> set (recipient_versions P D c w)")
  case True
  let ?a = "cl_username self @ ascii ''@'' @ cl_domain self"
  have "fst (envelope_decode S (envelope_encode S plaintext (Some ?a))) = plaintext"
    using envelope_opens [OF assms(1), where sender_addr = "Some ?a" and body = plaintext] assms(2) by (auto split: option.splits if_splits)
  then show ?thesis using True by (simp add: maybe_wrap_envelope_def)
next
  case False
  then show ?thesis using envelope_opens [OF assms(1), where sender_addr = None and body = plaintext] assms(2) by (simp add: maybe_wrap_envelope_def)
qed

lemma fetch_sent:
  assumes cr: "crates P S rs_encode rs_correct" and len: "length (se_nonce env) = 12"
    and em: "encrypt_for_recipient P (se_seed env) (se_nonce env) body pk (Some (header_aad P S h pid)) = Inr em"
    and d: "message_from_bytes S d = Inr \<lparr> msg_header = h, msg_payload = em_to_bytes em, msg_signature = replicate 32 0 \<rparr>"
    and b: "erasure_encode d DEFAULT_REDUNDANCY = Inr (blocks, k, n)" "length blocks = n"
      "list_all (\<lambda>b. length b = DATA_PER_CHUNK) blocks" "0 < k" "k < n" "n \<le> 256"
    and key: "if pid = NO_PREKEY then client_ok P bob \<and> pk = x25519_pub (cl_crypto bob)
         else \<exists>sk. get_private_key (re_works renv PrekeySelect) (re_clock renv AtPrekey) pid (cl_prekeys bob) = Inr (Some sk) \<and>
                pk = x25519_public P sk"
    and q: "\<And>j. j < n \<Longrightarrow> d_query (re_dns renv) w (chunk_domain (msg_key P (se_msg_id env) rid (verifying_key (cl_crypto alice))) (of_nat j) zone) =
        Inr (Some [chunk_txt_of P rs_encode (blocks ! j)])"
    and order: "\<And>l. mset (re_order renv l) = mset l" and fresh: "re_clock renv AtHeader \<le> sat_add (se_clock env) (ucast ttl32)"
  defines "h' \<equiv> outer_header alice (se_msg_id env) rid (se_clock env) ttl32"
  assumes h: "h = h'"
  shows "\<exists>label. fetch_and_decrypt P S rs_correct renv (sent_manifest P env alice rid pid k n) zone bob w =
    Some \<lparr> in_sender_signing_pk = verifying_key (cl_crypto alice), in_plaintext = fst (envelope_decode S body),
      in_timestamp = se_clock env, in_msg_id = se_msg_id env, in_sender_label = label \<rparr>"
proof -
  let ?m = "sent_manifest P env alice rid pid k n"
  note n = sent_manifest_signs(2,3) [OF b(4-6), of P env alice rid pid]
  have m: "m_msg_id ?m = se_msg_id env" "m_recipient_id ?m = rid" "m_sender_spk ?m = verifying_key (cl_crypto alice)" "m_prekey_id ?m = pid"
    by (simp_all add: sent_manifest_def)
  have hh: "h_message_id h = se_msg_id env" "h_recipient_id h = rid" "h_timestamp h = se_clock env"
    "\<not> header_is_expired h (re_clock renv AtHeader)"
    using fresh by (simp_all add: h h'_def outer_header_def header_is_expired_def)
  let ?got = "collect_shares P rs_correct (re_dns renv) (msg_key P (se_msg_id env) rid (verifying_key (cl_crypto alice))) zone k [0..<n] [] w"
  have c: "length ?got = k" "erasure_decode (re_order renv ?got) k n = Some d"
    using collect_sent [OF cr b(1-3,5) q order] by simp_all
  note o = sent_opens [OF cr len em key]
  show ?thesis unfolding fetch_and_decrypt_def Let_def m n using c d o hh by (simp add: case_prod_beta)
qed

section \<open>The names in a poll\<close>

lemma slot_domain_inj_zone:
  assumes "slot_domain P r i z = slot_domain P r j z'"
  shows "i = j \<and> trim_zone z = trim_zone z'"
proof -
  have dot: "takeWhile is_digit (dec n @ ascii ''.mb-'' @ x) = dec n" for n x
    using dec_digits [of n] by (simp add: takeWhile_append list_all_iff is_digit_def ascii_def ch_def)
  have "dec (unat i) @ ascii ''.mb-'' @ hash12 P r @ ascii ''.'' @ trim_zone z = dec (unat j) @ ascii ''.mb-'' @ hash12 P r @ ascii ''.'' @ trim_zone z'"
    using assms by (simp add: slot_domain_def)
  moreover from this have "dec (unat i) = dec (unat j)" using dot by metis
  ultimately show ?thesis using dec_inj by (simp add: word_unat_eq_iff)
qed

lemma names_differ [simp]:
  "chunk_domain key j z \<noteq> slot_domain P r i z'" "slot_domain P r i z' \<noteq> chunk_domain key j z" "prekey_rrset_name P u z \<noteq> slot_domain P r i z'"
  "slot_domain P r i z' \<noteq> prekey_rrset_name P u z"
  by (simp_all add: chunk_domain_def slot_domain_def prekey_rrset_name_def Let_def ascii_def ch_def)

text \<open>A store whose only live mailbox record of a user is one.\<close>

definition only_slot :: "prims \<Rightarrow> u64 \<Rightarrow> bytes \<Rightarrow> rstr \<Rightarrow> rstr \<Rightarrow> mem_store \<Rightarrow> bool" where
  "only_slot P now rid name rd w \<longleftrightarrow> mem_inv w \<and>
     (\<forall>i z. live_at now (mem_abs w) (slot_domain P rid i z) = (if slot_domain P rid i z = name then {rd} else {}))"

lemma only_slot_query:
  "only_slot P now rid name rd w \<Longrightarrow>
    mem_query now (slot_domain P rid i z) w = Inr (if slot_domain P rid i z = name then Some [rd] else None)"
  using query_of_live [of w now "slot_domain P rid i z"] by (cases "slot_domain P rid i z = name") (auto simp: only_slot_def)

lemma only_slot_delete:
  assumes "only_slot P now rid name rd w"
  shows "only_slot P now rid name rd (snd (mem_delete (prekey_rrset_name P u z) v w))"
proof -
  have "live_at now (mem_abs (snd (mem_delete (prekey_rrset_name P u z) v w))) (slot_domain P rid i z') =
      live_at now (mem_abs w) (slot_domain P rid i z')" for i z'
    using mem_delete_refines [of w "prekey_rrset_name P u z" v] assms by (simp add: live_at_def only_slot_def covers_def)
  then show ?thesis using mem_delete_refines [of w "prekey_rrset_name P u z" v] assms by (simp add: only_slot_def)
qed

lemma sent_store:
  fixes rd :: rstr and rs_encode :: "nat \<Rightarrow> bytes \<Rightarrow> bytes"
  assumes "mem_inv s" "now < sat_add now (ucast ttl32)"
    and "\<And>i z. live_at now (mem_abs s) (slot_domain P rid i z) = {}"
    and "\<And>i. live_at now (mem_abs s) (chunk_domain (msg_key P (se_msg_id env) rid (verifying_key (cl_crypto alice))) i (cl_domain alice)) = {}"
    and "length blocks \<le> 256"
  defines "s' \<equiv> publish_all now ttl32 (sent_records P rs_encode env alice rid blocks rd) s"
  shows "only_slot P now rid (slot_domain P rid (slot_for_msg_id (se_msg_id env)) (cl_domain alice)) rd s'"
    "j < length blocks \<Longrightarrow> trim_zone zone = trim_zone (cl_domain alice) \<Longrightarrow>
      live_at now (mem_abs s') (chunk_domain (msg_key P (se_msg_id env) rid (verifying_key (cl_crypto alice))) (of_nat j) zone) =
        {chunk_txt_of P rs_encode (blocks ! j)}"
proof -
  let ?key = "msg_key P (se_msg_id env) rid (verifying_key (cl_crypto alice))"
  have live: "mem_inv s'" "live_at now (mem_abs s') n = live_at now (mem_abs s) n \<union> {v. (n, v) \<in> set (sent_records P rs_encode env alice rid blocks rd)}" for n
    using publish_all_live [OF assms(1,2)] unfolding s'_def by blast+
  show "only_slot P now rid (slot_domain P rid (slot_for_msg_id (se_msg_id env)) (cl_domain alice)) rd s'"
    using live assms(3) by (auto simp: only_slot_def sent_records_def)
  assume j: "j < length blocks" "trim_zone zone = trim_zone (cl_domain alice)"
  have name: "chunk_domain ?key (of_nat j) zone = chunk_domain ?key (of_nat j) (cl_domain alice)" using j(2) by (simp add: chunk_domain_def)
  have inj: "chunk_domain ?key (of_nat j) (cl_domain alice) = chunk_domain ?key (of_nat i) (cl_domain alice) \<longleftrightarrow> j = i" if "i < length blocks" for i
  proof
    assume "chunk_domain ?key (of_nat j) (cl_domain alice) = chunk_domain ?key (of_nat i) (cl_domain alice)"
    then have "(of_nat j :: u32) = of_nat i" by (rule chunk_domain_inj)
    then have "unat (of_nat j :: u32) = unat (of_nat i :: u32)" by simp
    then show "j = i" using j(1) that assms(5) by (simp add: unsigned_of_nat take_bit_nat_eq_self)
  qed simp
  show "live_at now (mem_abs s') (chunk_domain ?key (of_nat j) zone) = {chunk_txt_of P rs_encode (blocks ! j)}"
    unfolding live(2) name assms(4) using j(1) by (auto simp: sent_records_def dest!: inj [THEN iffD1, rotated])
qed

section \<open>One message from a sender to a receiver\<close>

text \<open>An environment in which the clock stands and everything works, except the queries for some names.\<close>

definition calm :: "u64 \<Rightarrow> ((nat \<times> bytes) list \<Rightarrow> (nat \<times> bytes) list) \<Rightarrow> net_error \<Rightarrow> (rstr \<Rightarrow> bool) \<Rightarrow> mem_store step_env" where
  "calm now order e fails = \<lparr> re_dns = (memory_dns now)\<lparr>d_query := \<lambda>s n. if fails n then Inl e else mem_query now n s\<rparr>,
     re_clock = (\<lambda>_. now), re_works = (\<lambda>_. True), re_order = order \<rparr>"

lemma calm_reads: "re_clock (calm now order e fails) x = now" "re_works (calm now order e fails) y"
  by (simp_all add: calm_def)

text \<open>The receiver holds the secret of the key that the sender picks.\<close>

definition holds_key :: "prims \<Rightarrow> u64 \<Rightarrow> dmp_client \<Rightarrow> u32 \<times> bytes \<Rightarrow> bool" where
  "holds_key P now bob key \<longleftrightarrow> (if fst key = NO_PREKEY then snd key = x25519_pub (cl_crypto bob)
     else \<exists>sk. get_private_key True now (fst key) (cl_prekeys bob) = Inr (Some sk) \<and> snd key = x25519_public P sk)"

definition trusts :: "dmp_client \<Rightarrow> contact list \<Rightarrow> bytes \<Rightarrow> bool" where
  "trusts bob listed spk \<longleftrightarrow> listed = [] \<or> \<not> cl_rotation_chain_enabled bob \<and> spk \<in> set (map ct_ed25519_spk listed)"

text \<open>No live record stands under the receiver's mailbox names, nor under the chunk names of the message.\<close>

definition names_free :: "prims \<Rightarrow> u64 \<Rightarrow> send_env \<Rightarrow> dmp_client \<Rightarrow> dmp_client \<Rightarrow> mem_store \<Rightarrow> bool" where
  "names_free P now env alice bob s \<longleftrightarrow> mem_inv s \<and>
     (\<forall>i z. live_at now (mem_abs s) (slot_domain P (cl_user_id bob) i z) = {}) \<and>
     (\<forall>i. live_at now (mem_abs s)
        (chunk_domain (msg_key P (se_msg_id env) (cl_user_id bob) (verifying_key (cl_crypto alice))) i (cl_domain alice)) = {})"

text \<open>The sender, the receiver, the message and the store.\<close>

definition mail_ready :: "prims \<Rightarrow> u64 \<Rightarrow> send_env \<Rightarrow> rstr \<Rightarrow> bytes \<Rightarrow> dmp_client \<Rightarrow> dmp_client \<Rightarrow> mem_store \<Rightarrow> bool" where
  "mail_ready P now env name plaintext alice bob s \<longleftrightarrow> client_ok P alice \<and> client_ok P bob \<and>
     length (se_msg_id env) = 16 \<and> length (se_nonce env) = 12 \<and> se_clock env = now \<and> unat now < 2 ^ 63 - 1 \<and>
     length plaintext \<le> 24000 \<and> \<not> starts_with DMPV2_PREFIX plaintext \<and>
     (case get_contact (se_works env) name (cl_contacts alice) of
        Inr (Some stored) \<Rightarrow>
          let key = chosen_key P (memory_dns now) env (recipient_contact alice stored) s in
          sc_x25519_pk stored = x25519_pub (cl_crypto bob) \<and> was_contributory (x25519_dh P (se_seed env) (snd key)) \<and> holds_key P now bob key
      | _ \<Rightarrow> False) \<and>
     names_free P now env alice bob s \<and>
     wf_replay (cl_replay bob) \<and> (verifying_key (cl_crypto alice), se_msg_id env) \<notin> live_pairs now (cl_replay bob)"

lemma screen_trusted:
  assumes "manifest_parse_and_verify P r = Some (m, sig)" "m_recipient_id m = cl_user_id self" "now \<le> m_exp m"
    and "trusts self listed (m_sender_spk m)"
  shows "screen_record P env listed now r self w = Inr (Some (m, False))"
  using assms by (auto simp: screen_record_def screen_sender_def Let_def trusts_def manifest_is_expired_def unwrap_or_def)

lemma calm_cache: "cache_works now (calm now order e fails)"
  by (simp add: cache_works_def calm_def)

lemma deliver_calm:
  assumes "only_slot P now rid name rd w"
  shows "\<exists>self' w'. deliver P (calm now order e fails) m False msg self w = (Inr (Some msg), self', w') \<and> only_slot P now rid name rd w' \<and>
    (w' = w \<or> (\<exists>u z v. w' = snd (mem_delete (prekey_rrset_name P u z) v w)))"
  using assms only_slot_delete [OF assms]
  by (auto simp: deliver_def calm_def replay_record_ok consume_prekey_with_dns_def Let_def memory_dns_def split: option.split sum.split) blast

definition received :: "send_env \<Rightarrow> dmp_client \<Rightarrow> bytes \<Rightarrow> rstr option \<Rightarrow> inbox_message" where
  "received env alice plaintext label = \<lparr> in_sender_signing_pk = verifying_key (cl_crypto alice), in_plaintext = plaintext,
     in_timestamp = se_clock env, in_msg_id = se_msg_id env, in_sender_label = label \<rparr>"

text \<open>The manifest is the only mailbox record of the receiver, and each chunk stands under its name.\<close>

definition has_mail :: "prims \<Rightarrow> u64 \<Rightarrow> send_env \<Rightarrow> dmp_client \<Rightarrow> bytes \<Rightarrow> rstr \<Rightarrow> rstr \<Rightarrow> rstr list \<Rightarrow> mem_store \<Rightarrow> bool" where
  "has_mail P now env alice rid zone rd txts w \<longleftrightarrow> only_slot P now rid (slot_domain P rid (slot_for_msg_id (se_msg_id env)) zone) rd w \<and>
     (\<forall>j < length txts. live_at now (mem_abs w)
        (chunk_domain (msg_key P (se_msg_id env) rid (verifying_key (cl_crypto alice))) (of_nat j) zone) = {txts ! j})"

text \<open>The send succeeds, and from every store that has the mail it can be fetched.\<close>

lemma sent_mail:
  assumes cr: "crates P S rs_encode rs_correct" and ready: "mail_ready P now env name plaintext alice bob s"
    and zone: "trim_zone zone = trim_zone (cl_domain alice)"
    and order: "\<And>l. mset (order l) = mset l" and ok: "\<And>key j z. \<not> fails (chunk_domain key j z)"
  obtains rd m sig txts s' where
    "manifest_parse_and_verify P rd = Some (m, sig)" "m_sender_spk m = verifying_key (cl_crypto alice)" "m_msg_id m = se_msg_id env"
    "m_recipient_id m = cl_user_id bob" "now \<le> m_exp m" "i64_secs now < i64_secs (m_exp m)"
    "send_message P S rs_encode (memory_dns now) env name plaintext alice s = Some (Inr (se_msg_id env), s')"
    "has_mail P now env alice (cl_user_id bob) zone rd txts s'"
    "\<forall>w c. has_mail P now env alice (cl_user_id bob) zone rd txts w \<longrightarrow>
       (\<exists>label. fetch_and_decrypt P S rs_correct (calm now order e fails) m zone (bob\<lparr>cl_replay := c\<rparr>) w = Some (received env alice plaintext label))"
    "\<And>n. \<forall>i. n \<noteq> slot_domain P (cl_user_id bob) i (cl_domain alice) \<Longrightarrow> \<forall>key j. n \<noteq> chunk_domain key j (cl_domain alice) \<Longrightarrow>
       live_at now (mem_abs s') n = live_at now (mem_abs s) n"
proof -
  let ?spk = "verifying_key (cl_crypto alice)" and ?rid = "cl_user_id bob" and ?renv = "calm now order e fails"
  have ab: "client_ok P alice" "client_ok P bob" and len: "length (se_msg_id env) = 16" "length (se_nonce env) = 12" "length plaintext \<le> 24000"
    and clock: "se_clock env = now" "unat now < 2 ^ 63 - 1" and plain: "\<not> starts_with DMPV2_PREFIX plaintext"
    and free: "names_free P now env alice bob s"
    using ready unfolding mail_ready_def by blast+
  obtain stored where stored: "get_contact (se_works env) name (cl_contacts alice) = Inr (Some stored)"
    using ready unfolding mail_ready_def by (auto split: sum.splits option.splits)
  let ?c = "recipient_contact alice stored"
  obtain pid pk where key: "chosen_key P (memory_dns now) env ?c s = (pid, pk)" by (cases "chosen_key P (memory_dns now) env ?c s")
  have k: "sc_x25519_pk stored = x25519_pub (cl_crypto bob)" "was_contributory (x25519_dh P (se_seed env) pk)" "holds_key P now bob (pid, pk)"
    using ready stored key unfolding mail_ready_def by (simp_all add: Let_def)
  have rid: "derive_user_id P (sc_x25519_pk stored) = ?rid" using ab(2) k(1) by (simp add: client_ok_def)
  obtain em d blocks k' n rd where sent: "encrypt_for_recipient P (se_seed env) (se_nonce env)
       (maybe_wrap_envelope P S (memory_dns now) alice ?c plaintext s) pk
       (Some (header_aad P S (outer_header alice (se_msg_id env) ?rid (se_clock env) ttl32) pid)) = Inr em"
    "message_from_bytes S d = Inr \<lparr> msg_header = outer_header alice (se_msg_id env) ?rid (se_clock env) ttl32,
       msg_payload = em_to_bytes em, msg_signature = replicate 32 0 \<rparr>"
    "erasure_encode d DEFAULT_REDUNDANCY = Inr (blocks, k', n)" "length blocks = n"
    "list_all (\<lambda>b. length b = DATA_PER_CHUNK) blocks" "0 < k'" "k' < n" "n \<le> 256"
    "manifest_sign P (sent_manifest P env alice ?rid pid k' n) (cl_crypto alice) = Inr rd"
    "send_message P S rs_encode (memory_dns now) env name plaintext alice s =
       Some (Inr (se_msg_id env), publish_all now ttl32 (sent_records P rs_encode env alice ?rid blocks rd) s)"
    by (rule send_to_store [OF cr ab(1) len stored key k(2), unfolded rid])
  let ?m = "sent_manifest P env alice ?rid pid k' n" and ?txts = "map (chunk_txt_of P rs_encode) blocks"
  let ?s = "publish_all now ttl32 (sent_records P rs_encode env alice ?rid blocks rd) s"
  have expiry: "now < sat_add now (ucast ttl32)" using clock(2) unfolding word_less_nat_alt unat_sat_add unat_ucast_u32 by (simp add: ttl32)
  have "unat now < 9223372036854775807" using clock(2) by simp
  then have "uint now < 9223372036854775807" using uint_nat [of now] by linarith
  then have later: "i64_secs now < i64_secs (sat_add now (ucast ttl32))"
    using expiry by (simp add: i64_secs_def I64_MAX_def word_less_alt)
  note st = sent_store [where P = P and rid = ?rid and env = env and alice = alice and s = s and blocks = blocks
      and rd = rd and rs_encode = rs_encode and now = now]
  have mail: "has_mail P now env alice ?rid zone rd ?txts ?s"
    unfolding has_mail_def slot_domain_def zone unfolding slot_domain_def [symmetric]
    using st(1) st(2) [OF _ _ _ _ _ _ zone] free expiry sent(4,8) by (simp add: names_free_def)
  have m: "m_msg_id ?m = se_msg_id env" "m_recipient_id ?m = ?rid" "m_sender_spk ?m = ?spk" "m_exp ?m = sat_add now (ucast ttl32)"
    by (simp_all add: sent_manifest_def clock(1))
  have P: "b64_codec P" "ed25519 P" "digest P" "serde_json S" using cr by (simp_all add: crates_def)
  have wf: "wf_crypto P (cl_crypto alice)" using ab(1) by (simp add: client_ok_def)
  have "length ?rid = 32" using ab(2) P(3) by (simp add: client_ok_def derive_user_id_def digest_def)
  then have "wf_manifest ?m" using len(1) sign_verifies(3) [OF P(2,3) wf] by (simp add: wf_manifest_def m)
  then obtain sig where sig: "manifest_parse_and_verify P rd = Some (?m, sig)"
    using signed_accepted [OF P(1-3) wf _ _ sent(9)] m(3) by blast
  have fetch: "\<exists>label. fetch_and_decrypt P S rs_correct ?renv ?m zone (bob\<lparr>cl_replay := c\<rparr>) w = Some \<lparr> in_sender_signing_pk = ?spk,
      in_plaintext = fst (envelope_decode S (maybe_wrap_envelope P S (memory_dns now) alice ?c plaintext s)),
      in_timestamp = se_clock env, in_msg_id = se_msg_id env, in_sender_label = label \<rparr>"
    if w: "has_mail P now env alice ?rid zone rd ?txts w" for w c
  proof (rule fetch_sent [OF cr len(2) sent(1-8)])
    show "if pid = NO_PREKEY then client_ok P (bob\<lparr>cl_replay := c\<rparr>) \<and> pk = x25519_pub (cl_crypto (bob\<lparr>cl_replay := c\<rparr>))
      else \<exists>sk. get_private_key (re_works ?renv PrekeySelect) (re_clock ?renv AtPrekey) pid (cl_prekeys (bob\<lparr>cl_replay := c\<rparr>)) = Inr (Some sk) \<and>
        pk = x25519_public P sk"
      using k(3) ab(2) by (auto simp: holds_key_def calm_def client_ok_def)
    show "d_query (re_dns ?renv) w (chunk_domain (msg_key P (se_msg_id env) ?rid ?spk) (of_nat j) zone) =
      Inr (Some [chunk_txt_of P rs_encode (blocks ! j)])" if "j < n" for j
      using query_of_live(2) [of w now] w that ok sent(4) by (simp add: calm_def has_mail_def only_slot_def)
    show "mset (re_order ?renv l) = mset l" for l using order by (simp add: calm_def)
    show "re_clock ?renv AtHeader \<le> sat_add (se_clock env) (ucast ttl32)" using expiry clock(1) by (simp add: calm_def)
  qed simp
  have others: "live_at now (mem_abs ?s) n = live_at now (mem_abs s) n"
    if "\<forall>i. n \<noteq> slot_domain P ?rid i (cl_domain alice)" "\<forall>key j. n \<noteq> chunk_domain key j (cl_domain alice)" for n
    using publish_all_live [OF _ expiry] free that by (auto simp: names_free_def sent_records_def)
  show thesis
    by (rule that [OF sig m(3,1,2) _ _ sent(10) mail _ others])
      (use later expiry fetch [unfolded wrapped_opens [OF P(4) plain]] in \<open>simp_all add: m received_def\<close>)
qed

text \<open>The step of a poll that finds the record.\<close>

lemma sent_step:
  assumes cr: "crates P S rs_encode rs_correct" and ready: "mail_ready P now env name plaintext alice bob s"
    and trust: "trusts bob listed (verifying_key (cl_crypto alice))"
    and zone: "trim_zone zone = trim_zone (cl_domain alice)"
    and order: "\<And>l. mset (order l) = mset l" and ok: "\<And>key j z. \<not> fails (chunk_domain key j z)"
  obtains rd m sig label bob' s' w' where
    "manifest_parse_and_verify P rd = Some (m, sig)" "m_sender_spk m = verifying_key (cl_crypto alice)" "m_msg_id m = se_msg_id env"
    "i64_secs now < i64_secs (m_exp m)"
    "send_message P S rs_encode (memory_dns now) env name plaintext alice s = Some (Inr (se_msg_id env), s')"
    "only_slot P now (cl_user_id bob) (slot_domain P (cl_user_id bob) (slot_for_msg_id (se_msg_id env)) zone) rd s'"
    "receive_record P S rs_correct (calm now order e fails) listed now zone rd bob s' = (Inr (Some (received env alice plaintext label)), bob', w')"
    "only_slot P now (cl_user_id bob) (slot_domain P (cl_user_id bob) (slot_for_msg_id (se_msg_id env)) zone) rd w'"
    "remembers now (verifying_key (cl_crypto alice), se_msg_id env) bob'" "same_client bob bob'"
proof -
  let ?spk = "verifying_key (cl_crypto alice)" and ?renv = "calm now order e fails"
  have new: "wf_replay (cl_replay bob)" "(?spk, se_msg_id env) \<notin> live_pairs (re_clock ?renv AtSeen) (cl_replay bob)"
    using ready unfolding mail_ready_def by (simp_all add: calm_def)
  obtain rd m sig txts s' where st: "manifest_parse_and_verify P rd = Some (m, sig)" "m_sender_spk m = ?spk" "m_msg_id m = se_msg_id env"
    "m_recipient_id m = cl_user_id bob" "now \<le> m_exp m" "i64_secs now < i64_secs (m_exp m)"
    "send_message P S rs_encode (memory_dns now) env name plaintext alice s = Some (Inr (se_msg_id env), s')"
    "has_mail P now env alice (cl_user_id bob) zone rd txts s'"
    "\<forall>w c. has_mail P now env alice (cl_user_id bob) zone rd txts w \<longrightarrow>
       (\<exists>label. fetch_and_decrypt P S rs_correct ?renv m zone (bob\<lparr>cl_replay := c\<rparr>) w = Some (received env alice plaintext label))"
    by (rule sent_mail [where fails = fails and order = order and e = e, OF cr ready zone order ok])
  have slot: "only_slot P now (cl_user_id bob) (slot_domain P (cl_user_id bob) (slot_for_msg_id (se_msg_id env)) zone) rd s'"
    using st(8) by (simp add: has_mail_def)
  have scr: "screen_record P ?renv listed now rd bob s' = Inr (Some (m, False))"
    by (rule screen_trusted [OF st(1,4,5)]) (use trust st(2) in simp)
  note rc = receive_record_cache [OF calm_cache new(1) scr, unfolded st(2,3)]
  obtain label where f: "fetch_and_decrypt P S rs_correct ?renv m zone
      (bob\<lparr>cl_replay := snd (has_seen (True, True) (re_clock ?renv AtSeen) ?spk (se_msg_id env) (cl_replay bob))\<rparr>) s' =
    Some (received env alice plaintext label)" using st(8,9) by blast
  obtain bob' w' where dl: "deliver P ?renv m False (received env alice plaintext label)
      (bob\<lparr>cl_replay := snd (has_seen (True, True) (re_clock ?renv AtSeen) ?spk (se_msg_id env) (cl_replay bob))\<rparr>) s' =
      (Inr (Some (received env alice plaintext label)), bob', w')"
    "only_slot P now (cl_user_id bob) (slot_domain P (cl_user_id bob) (slot_for_msg_id (se_msg_id env)) zone) rd w'"
    using deliver_calm [OF slot] by blast
  have rr: "receive_record P S rs_correct ?renv listed now zone rd bob s' = (Inr (Some (received env alice plaintext label)), bob', w')"
    using rc(1) f dl(1) new(2) by simp
  have "remembers now (pair_of (received env alice plaintext label)) bob'"
    by (rule delivery_remembered(1) [OF calm_cache new(1) st(1,6) rr])
  then have "remembers now (?spk, se_msg_id env) bob'" by (simp add: pair_of_def received_def)
  moreover have "same_client bob bob'" using receive_record_frame by (metis fst_conv rr snd_conv)
  ultimately show thesis using that [OF st(1-3,6,7) slot rr dl(2)] by blast
qed

section \<open>Polls\<close>

lemma receive_slots_append:
  "receive_slots P S rs_correct E listed now (xs @ ys) t results self w =
    (case receive_slots P S rs_correct E listed now xs t results self w of
       (Inl e, t, self, w) \<Rightarrow> (Inl e, t, self, w)
     | (Inr results, t, self, w) \<Rightarrow> receive_slots P S rs_correct E listed now ys t results self w)"
  unfolding receive_slots_def by (rule each_slot_append)

text \<open>The slots that hold nothing are passed.\<close>

lemma empty_slots:
  assumes "only_slot P now (cl_user_id self) name rd w" "\<forall>(z, i) \<in> set slots. slot_domain P (cl_user_id self) (of_nat i) z \<noteq> name"
    and "\<forall>(z, i) \<in> set slots. \<not> fails (slot_domain P (cl_user_id self) (of_nat i) z)"
  shows "receive_slots P S rs_correct (\<lambda>_. calm now order e fails) listed now slots t results self w = (Inr results, t + length slots, self, w)"
  unfolding receive_slots_def
  by (rule each_slot_none) (use only_slot_query [OF assms(1)] assms(2,3) in \<open>fastforce simp: calm_def\<close>)

lemma screen_calm: "\<not> cl_rotation_chain_enabled self \<or> listed = [] \<Longrightarrow> \<exists>o'. screen_record P (calm now order e fails) listed now r self w = Inr o'"
  by (auto simp: screen_record_def screen_sender_def Let_def calm_def is_blocked_def is_blocked_inner_def split: option.split)

text \<open>A poll by a client that remembers the message finds nothing.\<close>

lemma poll_again:
  assumes "only_slot P now (cl_user_id self) name rd w" "manifest_parse_and_verify P rd = Some (m, sig)"
    and "remembers now (m_sender_spk m, m_msg_id m) self" "\<not> cl_rotation_chain_enabled self \<or> listed = []"
  shows "fst (receive_slots P S rs_correct (\<lambda>_. calm now order e (\<lambda>_. False)) listed now slots t results self w) = Inr results"
  using assms(1,3,4)
proof (induction slots arbitrary: t self)
  case (Cons x slots)
  obtain z i where x: "x = (z, i)" by (cases x)
  let ?env = "calm now order e (\<lambda>_. False)" and ?n = "slot_domain P (cl_user_id self) (of_nat i) z"
  have q: "d_query (re_dns ?env) w ?n = Inr (if ?n = name then Some [rd] else None)"
    using only_slot_query [OF Cons.prems(1)] by (simp add: calm_def)
  obtain c where r: "receive_record P S rs_correct ?env listed now z rd self w = (Inr None, self\<lparr>cl_replay := c\<rparr>, w)"
    "remembers now (m_sender_spk m, m_msg_id m) (self\<lparr>cl_replay := c\<rparr>)"
  proof -
    obtain o' where o: "screen_record P ?env listed now rd self w = Inr o'" using screen_calm [OF Cons.prems(3)] by metis
    have wf: "wf_replay (cl_replay self)" using Cons.prems(2) by (simp add: remembers_def)
    show thesis
    proof (cases o')
      case None
      then show ?thesis using that [of "cl_replay self"] o Cons.prems(2) by (simp add: receive_record_def)
    next
      case (Some mq)
      obtain q where mq: "mq = (m, q)" using screen_Some(1) [of P ?env listed now rd self w] o Some assms(2) by (cases mq) auto
      note rc = receive_record_cache [OF calm_cache wf o [unfolded Some mq]]
      have "(m_sender_spk m, m_msg_id m) \<in> live_pairs (re_clock ?env AtSeen) (cl_replay self)"
        using Cons.prems(2) by (simp add: remembers_def calm_def)
      then show ?thesis using that rc Cons.prems(2) by (simp add: remembers_def)
    qed
  qed
  have IH: "fst (receive_slots P S rs_correct (\<lambda>_. ?env) listed now slots t results (self\<lparr>cl_replay := c\<rparr>) w) = Inr results" for t
    by (rule Cons.IH) (use Cons.prems r(2) in simp_all)
  show ?case using q r(1) IH Cons.IH [OF Cons.prems] by (simp add: x)
qed simp

lemma receive_slots_then:
  assumes "receive_slots P S rs_correct E listed now xs t results self w = (Inr results', t', self', w')"
  shows "receive_slots P S rs_correct E listed now (xs @ ys) t results self w = receive_slots P S rs_correct E listed now ys t' results' self' w'"
  unfolding receive_slots_append assms by simp

text \<open>The zones of a poll, of which one is the sender's.\<close>

definition polls_zone :: "dmp_client \<Rightarrow> contact list \<Rightarrow> rstr \<Rightarrow> rstr \<Rightarrow> bool" where
  "polls_zone bob listed zone sender_zone \<longleftrightarrow> zone \<in> set (zones_to_poll (cl_domain bob) listed) \<and>
     (\<forall>z \<in> set (zones_to_poll (cl_domain bob) listed). trim_zone z = trim_zone sender_zone \<longleftrightarrow> z = zone)"

lemma slot_pair_inj:
  assumes "polls_zone bob listed zone z'" "(z, i) \<in> set (List.product (zones_to_poll (cl_domain bob) listed) [0..<unat SLOT_COUNT])"
    and "j < unat SLOT_COUNT" "slot_domain P rid (of_nat i) z = slot_domain P rid (of_nat j) zone"
  shows "z = zone \<and> i = j"
proof -
  have e: "(of_nat i :: u32) = of_nat j" "trim_zone z = trim_zone zone" using slot_domain_inj_zone [OF assms(4)] by blast+
  have m: "z \<in> set (zones_to_poll (cl_domain bob) listed)" "i < unat SLOT_COUNT" using assms(2) by simp_all
  have "trim_zone z = trim_zone z'" using assms(1) e(2) unfolding polls_zone_def by metis
  then have "z = zone" using assms(1) m(1) unfolding polls_zone_def by metis
  moreover have "unat (of_nat i :: u32) = i" "unat (of_nat j :: u32) = j"
    using m(2) assms(3) by (simp_all add: SLOT_COUNT_def unsigned_of_nat take_bit_nat_eq_self)
  ultimately show ?thesis using e(1) by metis
qed

lemma product_append: "List.product (xs @ ys) l = List.product xs l @ List.product ys l"
  by (induction xs) simp_all

lemma product_split:
  assumes "z \<in> set zs" "j < n"
  obtains xs ys where "List.product zs [0..<n] = xs @ (z, j) # ys" "\<forall>i. j < i \<and> i < n \<longrightarrow> (z, i) \<in> set ys"
proof -
  obtain us vs where zs: "zs = us @ z # vs" using assms(1) by (meson split_list)
  have "[0..<n] = [0..<j] @ j # [Suc j..<n]"
    using upt_add_eq_append [of 0 j "n - j"] assms(2) upt_conv_Cons [of j n] by (simp only: le0 le_add_diff_inverse less_imp_le)
  then have "map (Pair z) [0..<n] = map (Pair z) [0..<j] @ (z, j) # map (Pair z) [Suc j..<n]" by (metis list.simps(9) map_append)
  then have "List.product zs [0..<n] = (List.product us [0..<n] @ map (Pair z) [0..<j]) @ (z, j) # (map (Pair z) [Suc j..<n] @ List.product vs [0..<n])"
    unfolding zs product_append by simp
  moreover have "\<forall>i. j < i \<and> i < n \<longrightarrow> (z, i) \<in> set (map (Pair z) [Suc j..<n] @ List.product vs [0..<n])" by auto
  ultimately show thesis using that by blast
qed

lemma poll_slots:
  assumes "polls_zone bob listed zone z'" "j < unat SLOT_COUNT"
  obtains xs ys where "List.product (zones_to_poll (cl_domain bob) listed) [0..<unat SLOT_COUNT] = xs @ (zone, j) # ys"
    "\<forall>(z, i) \<in> set xs \<union> set ys. slot_domain P rid (of_nat i) z \<noteq> slot_domain P rid (of_nat j) zone"
    "\<forall>k. j < k \<and> k < unat SLOT_COUNT \<longrightarrow>
       (zone, k) \<in> set ys \<and> (\<forall>(z, i) \<in> set xs. slot_domain P rid (of_nat i) z \<noteq> slot_domain P rid (of_nat k) zone)"
proof -
  let ?zones = "zones_to_poll (cl_domain bob) listed"
  let ?slots = "List.product ?zones [0..<unat SLOT_COUNT]"
  have "zone \<in> set ?zones" using assms(1) by (simp add: polls_zone_def)
  from product_split [OF this assms(2)] obtain xs ys where split: "?slots = xs @ (zone, j) # ys"
    "\<forall>i. j < i \<and> i < unat SLOT_COUNT \<longrightarrow> (zone, i) \<in> set ys" by blast
  have "distinct ?zones" using fold_push_new by (simp add: zones_to_poll_def)
  then have "distinct ?slots" by (simp add: distinct_product)
  then have d: "(zone, j) \<notin> set xs \<union> set ys" "set xs \<inter> set ys = {}" unfolding split(1) by simp_all
  have m: "p \<in> set xs \<union> set ys \<Longrightarrow> p \<in> set ?slots" for p unfolding split(1) by auto
  note inj = slot_pair_inj [OF assms(1) m]
  have one: "\<forall>(z, i) \<in> set xs \<union> set ys. slot_domain P rid (of_nat i) z \<noteq> slot_domain P rid (of_nat j) zone"
    using inj [OF _ assms(2)] d(1) by blast
  have "(zone, k) \<in> set ys \<and> (\<forall>(z, i) \<in> set xs. slot_domain P rid (of_nat i) z \<noteq> slot_domain P rid (of_nat k) zone)"
    if k: "j < k" "k < unat SLOT_COUNT" for k
    using inj [OF _ k(2)] split(2) k d(2) by blast
  with that [OF split(1) one] show thesis by blast
qed

lemma failing_slots:
  assumes "only_slot P now (cl_user_id self) name rd w" "\<forall>(z, i) \<in> set slots. slot_domain P (cl_user_id self) (of_nat i) z \<noteq> name"
    and "\<exists>(z, i) \<in> set slots. fails (slot_domain P (cl_user_id self) (of_nat i) z)"
  shows "\<exists>t'. receive_slots P S rs_correct (\<lambda>_. calm now order e fails) listed now slots t results self w = (Inl (Net e), t', self, w)"
  using assms(2,3)
proof (induction slots arbitrary: t)
  case (Cons x slots)
  obtain z i where x: "x = (z, i)" by (cases x)
  have "d_query (re_dns (calm now order e fails)) w (slot_domain P (cl_user_id self) (of_nat i) z) =
      (if fails (slot_domain P (cl_user_id self) (of_nat i) z) then Inl e else Inr None)"
    using only_slot_query [OF assms(1), of "of_nat i" z] Cons.prems(1) by (simp add: x calm_def)
  then show ?case using Cons.IH [of "Suc t"] Cons.prems by (auto simp: x)
qed simp

lemma poll_delivers:
  assumes "only_slot P now (cl_user_id bob) name rd s'" "name = slot_domain P (cl_user_id bob) (of_nat j) zone"
    and "\<forall>(z, i) \<in> set xs. slot_domain P (cl_user_id bob) (of_nat i) z \<noteq> name"
    and "\<forall>(z, i) \<in> set xs. \<not> fails (slot_domain P (cl_user_id bob) (of_nat i) z)" "\<not> fails name"
    and "receive_record P S rs_correct (calm now order e fails) listed now zone rd bob s' = (Inr (Some msg), bob', w')"
  shows "receive_slots P S rs_correct (\<lambda>_. calm now order e fails) listed now (xs @ [(zone, j)]) 0 [] bob s' = (Inr [msg], length xs + 2, bob', w')"
proof -
  let ?env = "calm now order e fails"
  have "receive_slots P S rs_correct (\<lambda>_. ?env) listed now xs 0 [] bob s' = (Inr [], length xs, bob, s')"
    using empty_slots [OF assms(1,3,4), of S rs_correct order e listed 0 "[]"] by simp
  moreover have "d_query (re_dns ?env) s' name = Inr (Some [rd])"
    using only_slot_query [OF assms(1), of "of_nat j" zone] assms(2,5) by (simp add: calm_def)
  ultimately show ?thesis using assms(2,6) by (simp add: receive_slots_append)
qed

lemma receive_again:
  assumes "only_slot P now (cl_user_id self) name rd w" "manifest_parse_and_verify P rd = Some (m, sig)"
    and "remembers now (m_sender_spk m, m_msg_id m) self" "client_list_contacts works self = Inr listed" "trusts self listed spk"
  shows "fst (receive_messages P S rs_correct works now (\<lambda>_. calm now order e (\<lambda>_. False)) self w) = Inr []"
proof -
  have "\<not> cl_rotation_chain_enabled self \<or> listed = []" using assms(5) by (auto simp: trusts_def)
  from poll_again [OF assms(1-3) this] show ?thesis using assms(4) by (simp add: receive_messages_def case_prod_beta)
qed

text \<open>A situation for the witnesses: a client that sends to itself.\<close>

definition demo_sender :: dmp_client where
  "demo_sender = demo_client\<lparr>cl_contacts := snd (store_contact True 5 (to_new_contact
     \<lparr> ct_username = ascii ''bob'', ct_x25519_pk = x25519_pub demo_key, ct_ed25519_spk = verifying_key demo_key, ct_domain = [] \<rparr>) [])\<rparr>"

definition demo_env :: send_env where
  "demo_env = \<lparr> se_works = True, se_msg_id = replicate 16 0, se_clock = 5, se_pick = 0, se_seed = replicate 32 3, se_nonce = replicate 12 1 \<rparr>"

lemma demo_public: "x25519_pub demo_key = replicate 32 7"
proof -
  have "from_private_bytes demo_prims (replicate 32 7) = Inr demo_key"
    by (simp add: demo_key_def from_private_bytes_def X25519_KEY_LEN_def Let_def)
  then have "x25519_pub demo_key = x25519_public demo_prims (replicate 32 7)"
    unfolding from_private_bytes_ok by (metis dmp_crypto.select_convs(2))
  then show ?thesis by (simp add: demo_prims_def resize_def)
qed

lemma demo_ready: "mail_ready demo_prims 5 demo_env (ascii ''bob'') [4, 5, 6] demo_sender demo_client mem_new"
proof -
  have ok: "client_ok demo_prims demo_client" "client_ok demo_prims demo_sender"
    using demo_key(1) by (simp_all add: client_ok_def demo_sender_def demo_client_def derive_user_id_def)
  have store: "mem_inv mem_new" "live_at 5 (mem_abs mem_new) n = {}" for n
    by (simp_all add: mem_new_def mem_inv_def live_at_def mem_abs_def entries_at_def unwrap_or_def expiry_of_def)
  have "names_free demo_prims 5 demo_env demo_sender demo_client mem_new" using store by (simp add: names_free_def)
  moreover have "\<exists>stored. get_contact True (ascii ''bob'') (cl_contacts demo_sender) = Inr (Some stored) \<and> sc_x25519_pk stored = x25519_pub demo_key"
    using demo_public demo_key(2)
    by (simp add: demo_sender_def store_contact_def get_contact_def to_new_contact_def row_to_contact_def Let_def
        upsert_def const_defs)
  then obtain stored where stored: "get_contact True (ascii ''bob'') (cl_contacts demo_sender) = Inr (Some stored)"
    "sc_x25519_pk stored = x25519_pub demo_key" by blast
  moreover have "chosen_key demo_prims (memory_dns 5) demo_env (recipient_contact demo_sender stored) mem_new = (NO_PREKEY, x25519_pub demo_key)"
    using stored(2) query_of_live(1) [OF store]
    by (simp add: chosen_key_def pick_recipient_prekey_def memory_dns_def demo_env_def recipient_contact_def)
  moreover have "was_contributory (x25519_dh demo_prims (se_seed demo_env) (x25519_pub demo_key))"
    unfolding demo_public by (simp add: demo_env_def demo_prims_def was_contributory_def resize_def zip_replicate list_ex_iff)
  moreover have "\<not> starts_with DMPV2_PREFIX [4, 5, 6]" by (simp add: DMPV2_PREFIX_def starts_with_def ascii_def ch_def)
  moreover have "holds_key demo_prims 5 demo_client (NO_PREKEY, x25519_pub demo_key)"
    by (simp add: holds_key_def demo_client_def)
  ultimately show ?thesis using ok stored
    by (simp add: mail_ready_def Let_def)
      (simp add: demo_env_def demo_client_def wf_replay_def live_pairs_def replay_new_def replay_with_ttl_def)
qed

lemma demo_poll: "client_list_contacts True demo_client = Inr []" "trusts demo_client [] spk"
  "polls_zone demo_client [] (ascii ''b.x'') (cl_domain demo_sender)"
  by (simp_all add: client_list_contacts_def stored_contacts_def demo_client_def trusts_def polls_zone_def zones_to_poll_def demo_sender_def)

section \<open>Properties\<close>

text \<open>C3: What is sent is received, once. Let two clients share a store in which nothing lives under the receiver's
  mailbox names and the message's chunk names, let the sender know the receiver's key, and let the picked key be the receiver's own
  or a prekey whose secret it holds. For every plaintext of up to 24,000 bytes that does not itself start like an
  envelope, \<open>send_message\<close> succeeds, and a poll of the receiver that goes through the sender's zone and trusts the sender (nobody is pinned, or the
  sender is) returns exactly this message, with the sender's key, the plaintext, the time and the message id. A second
  poll returns nothing. The order in which the shares are iterated does not matter.\<close>

theorem sent_is_received:
  assumes "crates P S rs_encode rs_correct" "mail_ready P now env name plaintext alice bob s" "\<And>l. mset (order l) = mset l"
    and "client_list_contacts works bob = Inr listed" "trusts bob listed (verifying_key (cl_crypto alice))"
    and "polls_zone bob listed zone (cl_domain alice)"
  shows "\<exists>s' label bob' w'. send_message P S rs_encode (memory_dns now) env name plaintext alice s = Some (Inr (se_msg_id env), s') \<and>
    receive_messages P S rs_correct works now (\<lambda>_. calm now order e (\<lambda>_. False)) bob s' = (Inr [received env alice plaintext label], bob', w') \<and>
    fst (receive_messages P S rs_correct works now (\<lambda>_. calm now order e (\<lambda>_. False)) bob' w') = Inr []"
proof -
  have zone: "trim_zone zone = trim_zone (cl_domain alice)" using assms(6) by (auto simp: polls_zone_def)
  let ?name = "slot_domain P (cl_user_id bob) (slot_for_msg_id (se_msg_id env)) zone"
  obtain rd m sig label bob' s' w' where st: "manifest_parse_and_verify P rd = Some (m, sig)" "m_sender_spk m = verifying_key (cl_crypto alice)"
    "m_msg_id m = se_msg_id env" "send_message P S rs_encode (memory_dns now) env name plaintext alice s = Some (Inr (se_msg_id env), s')"
    "only_slot P now (cl_user_id bob) ?name rd s'"
    "receive_record P S rs_correct (calm now order e (\<lambda>_. False)) listed now zone rd bob s' = (Inr (Some (received env alice plaintext label)), bob', w')"
    "only_slot P now (cl_user_id bob) ?name rd w'" "remembers now (verifying_key (cl_crypto alice), se_msg_id env) bob'" "same_client bob bob'"
    by (rule sent_step [OF assms(1,2,5) zone assms(3), where fails = "\<lambda>_. False"]) simp
  have j: "unat (slot_for_msg_id (se_msg_id env)) < unat SLOT_COUNT" using slot_in_range by (simp add: word_less_nat_alt)
  obtain xs ys where sl: "List.product (zones_to_poll (cl_domain bob) listed) [0..<unat SLOT_COUNT] = xs @ (zone, unat (slot_for_msg_id (se_msg_id env))) # ys"
    "\<forall>(z, i) \<in> set xs \<union> set ys. slot_domain P (cl_user_id bob) (of_nat i) z \<noteq> slot_domain P (cl_user_id bob) (of_nat (unat (slot_for_msg_id (se_msg_id env)))) zone"
    by (rule poll_slots [OF assms(6) j, where P = P and rid = "cl_user_id bob"])
  have same: "cl_user_id bob' = cl_user_id bob" "cl_domain bob' = cl_domain bob" "cl_contacts bob' = cl_contacts bob"
    "cl_rotation_chain_enabled bob' = cl_rotation_chain_enabled bob" using st(9) by (simp_all add: same_client_def)
  let ?slots = "receive_slots P S rs_correct (\<lambda>_. calm now order e (\<lambda>_. False)) listed now"
  have "?slots (xs @ [(zone, unat (slot_for_msg_id (se_msg_id env)))]) 0 [] bob s' = (Inr [received env alice plaintext label], length xs + 2, bob', w')"
    by (rule poll_delivers [OF st(5) _ _ _ _ st(6)]) (use sl(2) in auto)
  note first = receive_slots_then [OF this, of ys, unfolded append_assoc append.simps]
  have "?slots ys t results bob' w' = (Inr results, t + length ys, bob', w')" for t results
    by (rule empty_slots [OF st(7) [folded same(1)]]) (use sl(2) in \<open>auto simp: same\<close>)
  then have "receive_messages P S rs_correct works now (\<lambda>_. calm now order e (\<lambda>_. False)) bob s' = (Inr [received env alice plaintext label], bob', w')"
    using assms(4) first by (simp add: receive_messages_def sl(1))
  moreover have "fst (receive_messages P S rs_correct works now (\<lambda>_. calm now order e (\<lambda>_. False)) bob' w') = Inr []"
    by (rule receive_again [OF st(7) [folded same(1)] st(1)])
      (use st(2,3,8) assms(4,5) same in \<open>simp_all add: client_list_contacts_def trusts_def\<close>)
  ultimately show ?thesis using st(4) by blast
qed

theorem sent_is_received_witness:
  "\<exists>s' label bob' w'. send_message demo_prims demo_serde ref_encode (memory_dns 5) demo_env (ascii ''bob'') [4, 5, 6] demo_sender mem_new =
      Some (Inr (replicate 16 0), s') \<and>
    receive_messages demo_prims demo_serde ref_correct True 5 (\<lambda>_. calm 5 (\<lambda>l. l) NoUsableAnswer (\<lambda>_. False)) demo_client s' =
      (Inr [received demo_env demo_sender [4, 5, 6] label], bob', w') \<and>
    fst (receive_messages demo_prims demo_serde ref_correct True 5 (\<lambda>_. calm 5 (\<lambda>l. l) NoUsableAnswer (\<lambda>_. False)) bob' w') = Inr []"
  using sent_is_received [OF demo_crates demo_ready refl demo_poll, where e = NoUsableAnswer] by (simp add: demo_env_def)

text \<open>C6: A failed query loses messages that were already decrypted. In the same situation, let the query of one later slot of
  the zone fail while the receiver polls. The poll returns the error; but the message has been recorded in the replay
  cache, so that the next poll, in which every query works, returns nothing: the message is never
  delivered.\<close>

theorem failed_poll_loses:
  assumes "crates P S rs_encode rs_correct" "mail_ready P now env name plaintext alice bob s" "\<And>l. mset (order l) = mset l"
    and "client_list_contacts works bob = Inr listed" "trusts bob listed (verifying_key (cl_crypto alice))"
    and "polls_zone bob listed zone (cl_domain alice)" "unat (slot_for_msg_id (se_msg_id env)) < i" "i < unat SLOT_COUNT"
  shows "\<exists>s' bob' w'. send_message P S rs_encode (memory_dns now) env name plaintext alice s = Some (Inr (se_msg_id env), s') \<and>
    receive_messages P S rs_correct works now (\<lambda>_. calm now order e (\<lambda>n. n = slot_domain P (cl_user_id bob) (of_nat i) zone)) bob s' =
      (Inl (Net e), bob', w') \<and>
    fst (receive_messages P S rs_correct works now (\<lambda>_. calm now order e (\<lambda>_. False)) bob' w') = Inr []"
proof -
  let ?fails = "\<lambda>n. n = slot_domain P (cl_user_id bob) (of_nat i) zone"
  have zone: "trim_zone zone = trim_zone (cl_domain alice)" using assms(6) by (auto simp: polls_zone_def)
  let ?name = "slot_domain P (cl_user_id bob) (slot_for_msg_id (se_msg_id env)) zone"
  obtain rd m sig label bob' s' w' where st: "manifest_parse_and_verify P rd = Some (m, sig)" "m_sender_spk m = verifying_key (cl_crypto alice)"
    "m_msg_id m = se_msg_id env" "send_message P S rs_encode (memory_dns now) env name plaintext alice s = Some (Inr (se_msg_id env), s')"
    "only_slot P now (cl_user_id bob) ?name rd s'"
    "receive_record P S rs_correct (calm now order e ?fails) listed now zone rd bob s' = (Inr (Some (received env alice plaintext label)), bob', w')"
    "only_slot P now (cl_user_id bob) ?name rd w'" "remembers now (verifying_key (cl_crypto alice), se_msg_id env) bob'" "same_client bob bob'"
    by (rule sent_step [OF assms(1,2,5) zone assms(3), where fails = ?fails]) simp
  have j: "unat (slot_for_msg_id (se_msg_id env)) < unat SLOT_COUNT" using slot_in_range by (simp add: word_less_nat_alt)
  obtain xs ys where sl: "List.product (zones_to_poll (cl_domain bob) listed) [0..<unat SLOT_COUNT] = xs @ (zone, unat (slot_for_msg_id (se_msg_id env))) # ys"
    "\<forall>(z, i) \<in> set xs \<union> set ys. slot_domain P (cl_user_id bob) (of_nat i) z \<noteq> slot_domain P (cl_user_id bob) (of_nat (unat (slot_for_msg_id (se_msg_id env)))) zone"
    "\<forall>k. unat (slot_for_msg_id (se_msg_id env)) < k \<and> k < unat SLOT_COUNT \<longrightarrow>
       (zone, k) \<in> set ys \<and> (\<forall>(z, i) \<in> set xs. slot_domain P (cl_user_id bob) (of_nat i) z \<noteq> slot_domain P (cl_user_id bob) (of_nat k) zone)"
    by (rule poll_slots [OF assms(6) j, where P = P and rid = "cl_user_id bob"])
  have same: "cl_user_id bob' = cl_user_id bob" "cl_domain bob' = cl_domain bob" "cl_contacts bob' = cl_contacts bob"
    "cl_rotation_chain_enabled bob' = cl_rotation_chain_enabled bob" using st(9) by (simp_all add: same_client_def)
  have iy: "(zone, i) \<in> set ys" "\<forall>(z, j) \<in> set xs. slot_domain P (cl_user_id bob) (of_nat j) z \<noteq> slot_domain P (cl_user_id bob) (of_nat i) zone"
    using sl(3) assms(7,8) by blast+
  have "?name \<noteq> slot_domain P (cl_user_id bob) (of_nat i) zone" using sl(2) iy by fastforce
  let ?slots = "receive_slots P S rs_correct (\<lambda>_. calm now order e ?fails) listed now"
  have "?slots (xs @ [(zone, unat (slot_for_msg_id (se_msg_id env)))]) 0 [] bob s' = (Inr [received env alice plaintext label], length xs + 2, bob', w')"
    by (rule poll_delivers [OF st(5) _ _ _ _ st(6)]) (use sl(2) iy \<open>?name \<noteq> _\<close> in auto)
  note first = receive_slots_then [OF this, of ys, unfolded append_assoc append.simps]
  have "\<exists>t'. ?slots ys t results bob' w' = (Inl (Net e), t', bob', w')" for t results
    by (rule failing_slots [OF st(7) [folded same(1)]]) (use sl(2) iy in \<open>auto simp: same\<close>)
  then have "receive_messages P S rs_correct works now (\<lambda>_. calm now order e ?fails) bob s' = (Inl (Net e), bob', w')"
    using assms(4) first by (simp add: receive_messages_def sl(1)) (metis (no_types, lifting) old.prod.case)
  moreover have "fst (receive_messages P S rs_correct works now (\<lambda>_. calm now order e (\<lambda>_. False)) bob' w') = Inr []"
    by (rule receive_again [OF st(7) [folded same(1)] st(1)])
      (use st(2,3,8) assms(4,5) same in \<open>simp_all add: client_list_contacts_def trusts_def\<close>)
  ultimately show ?thesis using st(4) by blast
qed

theorem failed_poll_loses_witness:
  "\<exists>s' bob' w'. send_message demo_prims demo_serde ref_encode (memory_dns 5) demo_env (ascii ''bob'') [4, 5, 6] demo_sender mem_new =
      Some (Inr (replicate 16 0), s') \<and>
    receive_messages demo_prims demo_serde ref_correct True 5
      (\<lambda>_. calm 5 (\<lambda>l. l) NoUsableAnswer (\<lambda>n. n = slot_domain demo_prims (cl_user_id demo_client) 9 (ascii ''b.x''))) demo_client s' =
      (Inl (Net NoUsableAnswer), bob', w') \<and>
    fst (receive_messages demo_prims demo_serde ref_correct True 5 (\<lambda>_. calm 5 (\<lambda>l. l) NoUsableAnswer (\<lambda>_. False)) bob' w') = Inr []"
proof -
  have zeros: "nat_of_be (replicate n 0) = 0" for n by (induction n) simp_all
  have "unat (slot_for_msg_id (se_msg_id demo_env)) < 9"
    using zeros by (simp add: slot_for_msg_id_def demo_env_def read32_def SLOT_COUNT_def)
  from failed_poll_loses [OF demo_crates demo_ready refl demo_poll this, where e = NoUsableAnswer]
  show ?thesis by (simp add: demo_env_def SLOT_COUNT_def)
qed

text \<open>C5: Nothing is delivered twice before it expires. Once a record has been delivered, no later poll returns a
  message of the same sender with the same id, whatever records the DNS then offers and in whatever zones, as long as the
  statements on the replay cache work and the clock has not reached the expiry of the manifest; the cache still holds the
  pair afterwards, so this goes on. The rest of the client may change in between.\<close>

theorem delivered_once:
  assumes "wf_replay (cl_replay self)" "cache_works T env" "\<And>t. cache_works T (E t)"
    and "manifest_parse_and_verify P r = Some (m, sig)" "i64_secs T < i64_secs (m_exp m)"
    and "receive_record P S rs_correct env listed now zone r self w = (Inr (Some msg), self1, w1)"
    and "cl_replay later = cl_replay self1"
  shows "case receive_messages P S rs_correct works now' E later w2 of (q, self3, w3) \<Rightarrow> remembers T (pair_of msg) self3 \<and>
    (case q of Inl _ \<Rightarrow> True | Inr msgs \<Rightarrow> pair_of msg \<notin> pair_of ` set msgs)"
proof (cases "client_list_contacts works later")
  case (Inr listed')
  let ?slots = "List.product (zones_to_poll (cl_domain later) listed') [0..<unat SLOT_COUNT]"
  have "remembers T (pair_of msg) later"
    using delivery_remembered(1) [OF assms(2,1,4-6)] assms(7) by (simp add: remembers_def)
  then have "case receive_slots P S rs_correct E listed' now' ?slots 0 [] later w2 of (q, t', self3, w3) \<Rightarrow>
      remembers T (pair_of msg) self3 \<and> (\<forall>msgs. q = Inr msgs \<longrightarrow> set msgs \<subseteq> set [] \<union> {x. pair_of x \<noteq> pair_of msg})"
    by (intro receive_slots_inv) (use step_remembers [OF assms(3)] in auto)
  then show ?thesis using Inr by (simp add: receive_messages_def image_iff subset_iff split: sum.splits prod.splits) metis
next
  case (Inl e)
  then show ?thesis using delivery_remembered(1) [OF assms(2,1,4-6)] assms(7) by (simp add: receive_messages_def remembers_def)
qed

theorem delivered_once_witness:
  "\<exists>rd msg self1 w1 w. receive_record demo_prims demo_serde ref_correct (calm 5 (\<lambda>l. l) NoUsableAnswer (\<lambda>_. False)) [] 5 (ascii ''b.x'') rd demo_client w =
      (Inr (Some msg), self1, w1) \<and>
    (case receive_messages demo_prims demo_serde ref_correct True 5 (\<lambda>_. calm 5 (\<lambda>l. l) NoUsableAnswer (\<lambda>_. False)) self1 w1 of
       (q, self3, w3) \<Rightarrow> remembers 5 (pair_of msg) self3)"
proof -
  let ?env = "calm 5 (\<lambda>l. l) NoUsableAnswer (\<lambda>_. False)"
  obtain rd m sig label self1 s' w1 where st: "manifest_parse_and_verify demo_prims rd = Some (m, sig)" "i64_secs 5 < i64_secs (m_exp m)"
    "receive_record demo_prims demo_serde ref_correct ?env [] 5 (ascii ''b.x'') rd demo_client s' =
      (Inr (Some (received demo_env demo_sender [4, 5, 6] label)), self1, w1)"
    by (rule sent_step [OF demo_crates demo_ready demo_poll(2), where order = "\<lambda>l. l" and fails = "\<lambda>_. False" and e = NoUsableAnswer
      and zone = "ascii ''b.x''"]) (auto simp: demo_sender_def demo_client_def)
  have wf: "wf_replay (cl_replay demo_client)" by (simp add: demo_client_def wf_replay_def replay_new_def replay_with_ttl_def)
  show ?thesis using delivered_once [OF wf calm_cache calm_cache st refl, where works = True] st(3)
    by (fastforce simp: case_prod_beta)
qed

end
