(* ===== verification/Claim.thy ===== *)
theory Claim
  imports Manifest
begin

text \<open>
  First-contact claim records, \<open>claim.rs\<close>. \<open>now\<close> is the caller's time or the system
  clock; the clock is an argument.
\<close>

section \<open>The code\<close>

definition CLAIM_PREFIX :: rstr where
  "CLAIM_PREFIX = ascii ''v=dmp1;t=claim;''"

definition CLAIM_MAGIC :: bytes where
  "CLAIM_MAGIC = ascii ''DMPCL01''"

definition MAX_MAILBOX_DOMAIN_LEN :: nat where
  "MAX_MAILBOX_DOMAIN_LEN = 43"

definition MAX_SLOT :: byte where
  "MAX_SLOT = 9"

definition CLAIM_MAX_WIRE_LEN :: nat where
  "CLAIM_MAX_WIRE_LEN = 255"

lemmas [const_defs] = MAX_MAILBOX_DOMAIN_LEN_def MAX_SLOT_def CLAIM_MAX_WIRE_LEN_def

datatype claim_error =
    MailboxDomainEmpty
  | MailboxDomainTooLong nat nat
  | MailboxDomainInvalidChars
  | SlotOutOfRange byte byte
  | ExpNotAfterTs
  | SenderKeyMismatch
  | WireTooLong nat nat
  | BodyTooShort
  | BadMagic
  | InvalidDomainLen byte
  | BodyTruncated
  | TrailingBytes
  | InvalidUtf8
  | InvalidRecipientId
  | ProviderZoneEmpty

record claim_record =
  c_msg_id :: bytes
  c_sender_spk :: bytes
  c_domain :: rstr
  c_slot :: byte
  c_ts :: u64
  c_exp :: u64

definition validate_mailbox_domain :: "rstr \<Rightarrow> claim_error + bytes" where
  "validate_mailbox_domain domain =
     (if domain = [] then Inl MailboxDomainEmpty
      else if MAX_MAILBOX_DOMAIN_LEN < length domain
      then Inl (MailboxDomainTooLong (length domain) MAX_MAILBOX_DOMAIN_LEN)
      else if list_ex (\<lambda>cp. cp < 0x21 \<or> cp = 0x7F) (chars domain) then Inl MailboxDomainInvalidChars
      else Inr domain)"

definition claim_to_body :: "claim_record \<Rightarrow> claim_error + bytes" where
  "claim_to_body self = andThen (validate_mailbox_domain (c_domain self)) (\<lambda>domain_bytes.
     if MAX_SLOT < c_slot self then Inl (SlotOutOfRange (c_slot self) MAX_SLOT)
     else if c_exp self \<le> c_ts self then Inl ExpNotAfterTs
     else Inr (CLAIM_MAGIC @ c_msg_id self @ c_sender_spk self @ [of_nat (length domain_bytes)] @
               domain_bytes @ [c_slot self] @ be64 (c_ts self) @ be64 (c_exp self)))"

definition claim_from_body :: "bytes \<Rightarrow> claim_error + claim_record" where
  "claim_from_body body =
     (let min_len = 7 + 16 + 32 + 1 + 1 + 1 + 16 in
      if length body < min_len then Inl BodyTooShort
      else if take 7 body \<noteq> CLAIM_MAGIC then Inl BadMagic
      else
        let msg_id = segment 7 23 body;
            sender_spk = segment 23 55 body;
            domain_len_byte = body ! 55;
            domain_len = unat domain_len_byte;
            off = 56
        in
        if domain_len = 0 \<or> MAX_MAILBOX_DOMAIN_LEN < domain_len then Inl (InvalidDomainLen domain_len_byte)
        else if length body < off + domain_len then Inl BodyTruncated
        else
          let sender_mailbox_domain = segment off (off + domain_len) body; off = off + domain_len in
          if \<not> is_utf8 sender_mailbox_domain then Inl InvalidUtf8
          else if length body < off + 1 then Inl BodyTruncated
          else
            let slot = body ! off; off = off + 1 in
            if MAX_SLOT < slot then Inl (SlotOutOfRange slot MAX_SLOT)
            else if length body < off + 16 then Inl BodyTruncated
            else
              let ts = read64 (segment off (off + 8) body);
                  exp' = read64 (segment (off + 8) (off + 16) body);
                  off = off + 16
              in
              if off \<noteq> length body then Inl TrailingBytes
              else if exp' \<le> ts then Inl ExpNotAfterTs
              else
                let rec = \<lparr> c_msg_id = msg_id, c_sender_spk = sender_spk, c_domain = sender_mailbox_domain,
                            c_slot = slot, c_ts = ts, c_exp = exp' \<rparr>
                in andThen (validate_mailbox_domain (c_domain rec)) (\<lambda>_. Inr rec))"

definition claim_sign :: "prims \<Rightarrow> claim_record \<Rightarrow> dmp_crypto \<Rightarrow> claim_error + rstr" where
  "claim_sign P self sender_crypto =
     (if verifying_key sender_crypto \<noteq> c_sender_spk self then Inl SenderKeyMismatch
      else andThen (claim_to_body self) (\<lambda>body.
        let wire = seal P CLAIM_PREFIX (body @ sign_data P sender_crypto body) in
        if CLAIM_MAX_WIRE_LEN < length wire then Inl (WireTooLong (length wire) CLAIM_MAX_WIRE_LEN)
        else Inr wire))"

definition claim_parse_and_verify :: "prims \<Rightarrow> u64 \<Rightarrow> rstr \<Rightarrow> u64 option \<Rightarrow> u64 \<Rightarrow> claim_record option" where
  "claim_parse_and_verify P clock wire now ts_skew_seconds =
     (if \<not> starts_with CLAIM_PREFIX wire then None
      else if CLAIM_MAX_WIRE_LEN < length wire then None
      else (case unseal P CLAIM_PREFIX wire of
         None \<Rightarrow> None
       | Some blob \<Rightarrow>
           if length blob < ED25519_SIG_LEN + 1 then None
           else
             let split = length blob - ED25519_SIG_LEN; body = take split blob; sig = drop split blob in
             (case ok (claim_from_body body) of
                None \<Rightarrow> None
              | Some rec \<Rightarrow>
                  if is_low_order (c_sender_spk rec) then None
                  else if \<not> verify_signature P body sig (c_sender_spk rec) then None
                  else
                    let now = unwrap_or now clock in
                    if now < c_ts rec \<and> ts_skew_seconds < c_ts rec - now then None
                    else if c_exp rec \<le> now then None
                    else Some rec)))"

definition claim_rrset_name :: "prims \<Rightarrow> bytes \<Rightarrow> byte \<Rightarrow> rstr \<Rightarrow> claim_error + rstr" where
  "claim_rrset_name P recipient_id slot provider_zone =
     (if MAX_SLOT < slot then Inl (SlotOutOfRange slot MAX_SLOT)
      else if provider_zone = [] then Inl ProviderZoneEmpty
      else
        let hash_hex = hex_encode P (sha256 P recipient_id);
            zone = trim_end_matches (ch CHR ''.'') provider_zone
        in Inr (ascii ''claim-'' @ [ch CHR ''0'' + slot] @ ascii ''.mb-'' @ take 12 hash_hex @ ascii ''.'' @ zone))"

section \<open>The codec\<close>

definition wf_claim :: "claim_record \<Rightarrow> bool" where
  "wf_claim c \<longleftrightarrow> length (c_msg_id c) = 16 \<and> length (c_sender_spk c) = 32 \<and> is_utf8 (c_domain c)"

definition claim_ok :: "claim_record \<Rightarrow> bool" where
  "claim_ok c \<longleftrightarrow> validate_mailbox_domain (c_domain c) = Inr (c_domain c) \<and> c_slot c \<le> 9 \<and> c_ts c < c_exp c"

lemma validate_mailbox_domain_ok:
  "validate_mailbox_domain d = Inr x \<Longrightarrow> x = d \<and> 0 < length d \<and> length d \<le> 43"
  by (auto simp: validate_mailbox_domain_def const_defs split: if_splits)

lemma claim_to_body_ok:
  "claim_to_body c = Inr b \<longleftrightarrow> claim_ok c \<and> b = CLAIM_MAGIC @ c_msg_id c @ c_sender_spk c @
     [of_nat (length (c_domain c))] @ c_domain c @ [c_slot c] @ be64 (c_ts c) @ be64 (c_exp c)"
  by (auto simp: claim_to_body_def andThen_Inr claim_ok_def not_less not_le const_defs
      dest: validate_mailbox_domain_ok)

lemma length_CLAIM_MAGIC [simp]: "length CLAIM_MAGIC = 7"
  by (simp add: CLAIM_MAGIC_def)

lemma claim_from_body_ok:
  assumes n: "n = unat (b ! 55)"
  defines "r \<equiv> \<lparr> c_msg_id = segment 7 23 b, c_sender_spk = segment 23 55 b,
    c_domain = segment 56 (56 + n) b, c_slot = b ! (56 + n), c_ts = read64 (segment (57 + n) (65 + n) b),
    c_exp = read64 (segment (65 + n) (73 + n) b) \<rparr>"
  shows "claim_from_body b = Inr c \<longleftrightarrow> 0 < n \<and> n \<le> 43 \<and> length b = 73 + n \<and> take 7 b = CLAIM_MAGIC \<and>
    is_utf8 (c_domain r) \<and> claim_ok r \<and> c = r"
proof -
  have off: "56 + n + 1 = 57 + n" "57 + n + 8 = 65 + n" "57 + n + 16 = 73 + n" by simp_all
  have "claim_from_body b = Inr c \<longleftrightarrow> \<not> length b < 74 \<and> take 7 b = CLAIM_MAGIC \<and> \<not> (n = 0 \<or> 43 < n) \<and>
      \<not> length b < 56 + n \<and> is_utf8 (c_domain r) \<and> \<not> length b < 57 + n \<and> \<not> 9 < c_slot r \<and>
      \<not> length b < 73 + n \<and> 73 + n = length b \<and> \<not> c_exp r \<le> c_ts r \<and>
      (\<exists>x. validate_mailbox_domain (c_domain r) = Inr x) \<and> r = c"
    unfolding claim_from_body_def Let_def n [symmetric] const_defs off
    by (simp add: andThen_Inr r_def)
  moreover have "(\<exists>x. validate_mailbox_domain (c_domain r) = Inr x) \<longleftrightarrow>
      validate_mailbox_domain (c_domain r) = Inr (c_domain r)"
    by (auto dest: validate_mailbox_domain_ok)
  ultimately show ?thesis
    unfolding claim_ok_def by (auto simp: not_le not_less)
qed

definition claim_fresh :: "u64 \<times> u64 \<Rightarrow> claim_record \<Rightarrow> bool" where
  "claim_fresh k c \<longleftrightarrow> (case k of (now, skew) \<Rightarrow> \<not> (now < c_ts c \<and> skew < c_ts c - now) \<and> now < c_exp c)"

definition claim_accept :: "prims \<Rightarrow> u64 \<times> u64 \<Rightarrow> rstr \<Rightarrow> claim_record option" where
  "claim_accept P k r = claim_parse_and_verify P 0 r (Some (fst k)) (snd k)"

lemma claim_parse:
  assumes P: "b64_codec P"
  shows "claim_parse_and_verify P clock r now skew = Some c \<longleftrightarrow> length r \<le> 255 \<and>
    claim_fresh (unwrap_or now clock, skew) c \<and> (\<exists>body sig. r = seal P CLAIM_PREFIX (body @ sig) \<and>
      length sig = 64 \<and> claim_from_body body = Inr c \<and> verify_signature P body sig (c_sender_spk c))"
    (is "?l \<longleftrightarrow> ?r")
proof
  assume ?l
  then obtain wire where "r = seal P CLAIM_PREFIX wire" "65 \<le> length wire" "length r \<le> 255"
    "claim_from_body (take (length wire - 64) wire) = Inr c" "claim_fresh (unwrap_or now clock, skew) c"
    "verify_signature P (take (length wire - 64) wire) (drop (length wire - 64) wire) (c_sender_spk c)"
    by (auto simp: claim_parse_and_verify_def Let_def unseal_Some [OF P] const_defs claim_fresh_def)
  then show ?r
    by (intro conjI exI [of _ "take (length wire - 64) wire"] exI [of _ "drop (length wire - 64) wire"]) simp_all
next
  assume ?r
  then obtain body sig where b: "r = seal P CLAIM_PREFIX (body @ sig)" "length sig = 64"
    "claim_from_body body = Inr c" "verify_signature P body sig (c_sender_spk c)" "length r \<le> 255"
    "claim_fresh (unwrap_or now clock, skew) c" by blast
  have "body \<noteq> []" using b(3) by (auto simp: claim_from_body_ok [OF refl])
  moreover have "starts_with CLAIM_PREFIX r" using b(1) by (simp add: seal_def)
  moreover have "unseal P CLAIM_PREFIX r = Some (body @ sig)" using b(1) by (simp add: unseal_Some [OF P])
  moreover have "\<not> is_low_order (c_sender_spk c)" using verify_signature_lengths [OF b(4)] by simp
  ultimately show ?l
    using b by (simp add: claim_parse_and_verify_def const_defs claim_fresh_def Suc_le_eq Let_def not_le)
qed

interpretation claim: canonical_record wf_claim claim_to_body claim_from_body
  CLAIM_PREFIX "\<lambda>r. length r \<le> 255" "\<lambda>_. c_sender_spk" claim_fresh claim_sign claim_accept
proof unfold_locales
  fix b c
  assume f: "claim_from_body b = Inr c"
  let ?n = "unat (b ! 55)"
  note c = f [unfolded claim_from_body_ok [OF refl]]
  show "wf_claim c" using c by (auto simp: wf_claim_def)
  have len: "length b = 73 + ?n" and magic: "CLAIM_MAGIC = segment 0 7 b"
    using c by (simp_all add: take_segment)
  have "b = CLAIM_MAGIC @ segment 7 23 b @ segment 23 55 b @ segment 55 56 b @ segment 56 (56 + ?n) b @
      segment (56 + ?n) (57 + ?n) b @ segment (57 + ?n) (65 + ?n) b @ segment (65 + ?n) (73 + ?n) b"
    unfolding magic by (simp add: len segment_join segment_split segment_full)
  moreover have "[b ! 55] = segment 55 56 b" "[b ! (56 + ?n)] = segment (56 + ?n) (57 + ?n) b"
    using c by (auto intro: segment_one)
  ultimately show "claim_to_body c = Inr b"
    using c by (auto simp: claim_to_body_ok be_read)
next
  fix c b
  assume c: "wf_claim c" "claim_to_body c = Inr b"
  then have "unat (of_nat (length (c_domain c)) :: byte) = length (c_domain c)"
    using validate_mailbox_domain_ok [of "c_domain c" "c_domain c"]
    by (intro unat_of_nat_byte) (auto simp: claim_to_body_ok claim_ok_def)
  then show "claim_from_body b = Inr c"
    using c validate_mailbox_domain_ok [of "c_domain c" "c_domain c"]
    by (auto simp: claim_from_body_ok [OF refl] claim_to_body_ok wf_claim_def claim_ok_def segment_append
        segment_full nth_append segment_Cons)
next
  fix P x me r
  assume "claim_sign P x me = Inr r"
  then show "\<exists>body. claim_to_body x = Inr body \<and>
      r = seal P CLAIM_PREFIX (body @ sign_data P me body) \<and> length r \<le> 255"
    by (auto simp: claim_sign_def Let_def andThen_Inr const_defs)
next
  fix P and k :: "u64 \<times> u64" and r x
  assume P: "b64_codec P"
  show "(claim_accept P k r = Some x) = (length r \<le> 255 \<and> claim_fresh k x \<and>
      (\<exists>body sig. r = seal P CLAIM_PREFIX (body @ sig) \<and> length sig = 64 \<and>
        claim_from_body body = Inr x \<and> verify_signature P body sig (c_sender_spk x)))"
    unfolding claim_accept_def claim_parse [OF P] by (simp add: unwrap_or_def)
qed

section \<open>Properties\<close>

definition demo_claim :: claim_record where
  "demo_claim = \<lparr> c_msg_id = replicate 16 1, c_sender_spk = verifying_key demo_key,
     c_domain = ascii ''mail.example'', c_slot = 3, c_ts = 1000, c_exp = 2000 \<rparr>"

lemma demo_domain: "is_utf8 (ascii ''mail.example'')"
  "validate_mailbox_domain (ascii ''mail.example'') = Inr (ascii ''mail.example'')"
  by code_simp+

lemma demo_claim: "wf_claim demo_claim" "\<exists>b. claim_to_body demo_claim = Inr b"
  by (simp_all add: demo_claim_def wf_claim_def demo_key demo_domain claim_to_body_ok claim_ok_def)

lemma claim_fresh_unat:
  "claim_fresh (now, skew) c \<longleftrightarrow> unat (c_ts c) \<le> unat now + unat skew \<and> unat now < unat (c_exp c)"
proof -
  have "unat (c_ts c - now) = unat (c_ts c) - unat now" if "now < c_ts c"
    using that by (intro unat_sub) simp
  then show ?thesis
    by (auto simp: claim_fresh_def word_less_nat_alt word_le_nat_alt)
qed

text \<open>The claim body codec is exact. A body parses to a claim if and only if the claim is well formed
  and serialises to that body: the parser accepts no trailing bytes, no alternative
  lengths, no domain with white space or control characters, no slot above 9 and no claim that is born
  expired, and it accepts everything else that \<open>to_body_bytes\<close> writes.\<close>

theorem claim_body_exact:
  "(claim_from_body b = Inr c) = (wf_claim c \<and> claim_to_body c = Inr b)"
  by (rule claim.body_iff)

text \<open>C23: A claim is accepted exactly when it is authentic and fresh. \<open>parse_and_verify\<close> returns a claim if
  and only if the record has at most 255 bytes, is the prefix and the base64 of the claim's body and a
  64-byte signature that verifies under the claim's sender key, the claim is dated at
  most \<open>ts_skew_seconds\<close> in the future (as integers, without wrap-around) and expires after now.\<close>

theorem claim_authentic_fresh:
  assumes "b64_codec P"
  shows "claim_parse_and_verify P clock r now skew = Some c \<longleftrightarrow>
    length r \<le> 255 \<and> unat (c_ts c) \<le> unat (unwrap_or now clock) + unat skew \<and>
    unat (unwrap_or now clock) < unat (c_exp c) \<and>
    (\<exists>body sig. wf_claim c \<and> claim_to_body c = Inr body \<and> length sig = 64 \<and>
      r = seal P CLAIM_PREFIX (body @ sig) \<and> verify_signature P body sig (c_sender_spk c))"
  unfolding claim_parse [OF assms] claim_fresh_unat claim.body_iff by blast

lemma claim_wire_length:
  assumes "b64_length P" "claim_to_body c = Inr body" "wf_claim c" "length sig = 64"
  shows "length (seal P CLAIM_PREFIX (body @ sig)) \<le> 255"
proof -
  have "length body \<le> 116"
    using assms(2,3) validate_mailbox_domain_ok [of "c_domain c" "c_domain c"]
    by (auto simp: claim_to_body_ok claim_ok_def wf_claim_def)
  then have "(length (body @ sig) + 2) div 3 \<le> (180 + 2) div 3"
    using assms(4) by (intro div_le_mono) simp
  then show ?thesis
    using assms(1) by (simp add: seal_def b64_length_def CLAIM_PREFIX_def)
qed

lemma claim_sign_complete:
  assumes "b64_length P" "ed25519 P" "digest P" "wf_crypto P me" "wf_claim c"
    and "c_sender_spk c = verifying_key me" "claim_to_body c = Inr body"
  shows "\<exists>w. claim_sign P c me = Inr w \<and> length w \<le> 255"
proof -
  have "length (sign_data P me body) = 64" by (rule sign_verifies(2) [OF assms(2-4)])
  then show ?thesis
    using claim_wire_length [OF assms(1,7,5)] assms(6,7) by (simp add: claim_sign_def Let_def const_defs not_less)
qed

text \<open>Signing a valid claim never fails for its size, and the result is accepted while it is fresh. For
  every well-formed claim with a valid body, signed by the identity of its sender key, \<open>sign\<close> returns a
  record of at most 255 bytes (the error WireTooLong is unreachable: 15 + 240 characters for the
  longest domain), and \<open>parse_and_verify\<close> returns the claim at every time from ts - skew to exp - 1.\<close>

theorem claim_sign_accept:
  assumes "b64_codec P" "b64_length P" "ed25519 P" "digest P" "wf_crypto P me" "wf_claim c"
    and "c_sender_spk c = verifying_key me" "claim_to_body c = Inr body"
  shows "\<exists>w. claim_sign P c me = Inr w \<and> length w \<le> 255 \<and>
    (\<forall>now skew clock. unat (c_ts c) \<le> unat now + unat skew \<and> unat now < unat (c_exp c) \<longrightarrow>
       claim_parse_and_verify P clock w (Some now) skew = Some c)"
proof -
  obtain w where w: "claim_sign P c me = Inr w" "length w \<le> 255"
    using claim_sign_complete [OF assms(2-8)] by blast
  have "claim_parse_and_verify P clock w (Some now) skew = Some c"
    if "unat (c_ts c) \<le> unat now + unat skew \<and> unat now < unat (c_exp c)" for now skew clock
  proof -
    have fresh: "claim_fresh (now, skew) c" using that by (simp add: claim_fresh_unat)
    have "claim_accept P (now, skew) w = Some c"
      by (rule claim.sign_accept [OF assms(3,4,1,5,6) _ fresh w(1)]) (simp add: assms(7))
    then show ?thesis
      by (simp add: claim_accept_def claim_parse [OF assms(1)] unwrap_or_def)
  qed
  with w show ?thesis by blast
qed

theorem claim_sign_accept_witness:
  "\<exists>w. claim_sign demo_prims demo_claim demo_key = Inr w \<and>
     claim_parse_and_verify demo_prims 0 w (Some 900) 300 = Some demo_claim"
proof -
  obtain b where b: "claim_to_body demo_claim = Inr b" using demo_claim(2) by blast
  have "c_sender_spk demo_claim = verifying_key demo_key" by (simp add: demo_claim_def)
  from claim_sign_accept [OF demo_b64 demo_b64_length demo_ed25519 demo_digest demo_key(1) demo_claim(1) this b]
  obtain w where "claim_sign demo_prims demo_claim demo_key = Inr w"
    "\<forall>now skew clock. unat (c_ts demo_claim) \<le> unat now + unat skew \<and> unat now < unat (c_exp demo_claim) \<longrightarrow>
       claim_parse_and_verify demo_prims clock w (Some now) skew = Some demo_claim" by blast
  moreover have "unat (c_ts demo_claim) \<le> unat (900 :: u64) + unat (300 :: u64) \<and> unat (900 :: u64) < unat (c_exp demo_claim)"
    by (simp add: demo_claim_def)
  ultimately show ?thesis by blast
qed

theorem claim_authentic_fresh_witness:
  "\<exists>w. claim_sign demo_prims demo_claim demo_key = Inr w \<and>
     claim_parse_and_verify demo_prims 0 w (Some 1500) 300 = Some demo_claim \<and>
     claim_parse_and_verify demo_prims 0 w (Some 2000) 300 \<noteq> Some demo_claim"
proof -
  obtain b where b: "claim_to_body demo_claim = Inr b" using demo_claim(2) by blast
  have spk: "c_sender_spk demo_claim = verifying_key demo_key" by (simp add: demo_claim_def)
  obtain w where w: "claim_sign demo_prims demo_claim demo_key = Inr w" "length w \<le> 255"
    using claim_sign_complete [OF demo_b64_length demo_ed25519 demo_digest demo_key(1) demo_claim(1) spk b] by blast
  have t: "unat (c_ts demo_claim) = 1000" "unat (c_exp demo_claim) = 2000" by (simp_all add: demo_claim_def)
  have "w = seal demo_prims CLAIM_PREFIX (b @ sign_data demo_prims demo_key b)"
    using w(1) b by (auto simp: claim_sign_def Let_def split: if_splits)
  then have "\<exists>body sig. wf_claim demo_claim \<and> claim_to_body demo_claim = Inr body \<and> length sig = 64 \<and>
      w = seal demo_prims CLAIM_PREFIX (body @ sig) \<and> verify_signature demo_prims body sig (c_sender_spk demo_claim)"
    using sign_verifies(1,2) [OF demo_ed25519 demo_digest demo_key(1), of b] b demo_claim(1) spk by auto
  then show ?thesis
    using w claim_authentic_fresh [OF demo_b64, of 0 w "Some 1500" 300 demo_claim]
      claim_authentic_fresh [OF demo_b64, of 0 w "Some 2000" 300 demo_claim]
    by (simp add: unwrap_or_def t)
qed

end
