(* ===== verification/ClaimRouting.thy ===== *)
theory ClaimRouting
  imports Delivery Claim
begin

text \<open>
  Claim routing, \<open>claim.rs\<close> of the client: pointers that a sender leaves at the zone of a provider, so
  that a recipient who does not poll the sender's zone finds the message. Sending with claims, and the poll of the
  claims at one provider, which shares its loops and the handling of a decrypted message with \<open>Receive\<close>.
\<close>

section \<open>Publishing claims\<close>

definition CLAIM_TS_SKEW_SECONDS :: u64 where
  "CLAIM_TS_SKEW_SECONDS = 60"

text \<open>The reason of a failure: the writer declined (\<open>None\<close>, a fixed text in the code), or the text of an error.\<close>

record claim_failure =
  cf_provider_zone :: rstr
  cf_reason :: "client_error option"

record claim_send =
  cs_msg_id :: bytes
  cs_claim_failures :: "claim_failure list"

definition all_claims_published :: "claim_send \<Rightarrow> bool" where
  "all_claims_published self \<longleftrightarrow> cs_claim_failures self = []"

definition publish_claim :: "prims \<Rightarrow> 'w dns \<Rightarrow> u64 \<Rightarrow> dmp_client \<Rightarrow> bytes \<Rightarrow> byte \<Rightarrow> bytes \<Rightarrow> u64 \<Rightarrow> rstr \<Rightarrow> 'w \<Rightarrow>
    (client_error + bool) \<times> 'w" where
  "publish_claim P D now self recipient_id slot msg_id expiry provider_zone w =
     (if MAX_SLOT < slot then (Inl (InvalidClientConfig ''publish_claim: slot exceeds MAX_SLOT''), w)
      else if expiry \<le> now then (Inl (InvalidClientConfig ''publish_claim: exp is not in the future''), w)
      else
        (case claim_sign P \<lparr> c_msg_id = msg_id, c_sender_spk = verifying_key (cl_crypto self), c_domain = cl_domain self,
                c_slot = slot, c_ts = now, c_exp = expiry \<rparr> (cl_crypto self) of
           Inl e \<Rightarrow> (Inl (InvalidClientConfig ''claim sign''), w)
         | Inr wire \<Rightarrow>
             (case claim_rrset_name P recipient_id slot provider_zone of
                Inl e \<Rightarrow> (Inl (InvalidClientConfig ''claim_rrset_name''), w)
              | Inr name \<Rightarrow>
                  (case d_publish D name wire (u32_or_max (expiry - now)) w of
                     (Inl e, w) \<Rightarrow> (Inl (Net e), w)
                   | (Inr accepted, w) \<Rightarrow> (Inr accepted, w)))))"

text \<open>The loop over the providers; \<open>clock\<close> has the readings, one for each claim.\<close>

fun publish_claims :: "prims \<Rightarrow> 'w dns \<Rightarrow> (nat \<Rightarrow> u64) \<Rightarrow> nat \<Rightarrow> dmp_client \<Rightarrow> bytes \<Rightarrow> byte \<Rightarrow> bytes \<Rightarrow> u64 \<Rightarrow> rstr list \<Rightarrow>
    claim_failure list \<Rightarrow> 'w \<Rightarrow> claim_failure list \<times> 'w" where
  "publish_claims P D clock i self recipient_id slot msg_id expiry [] failures w = (failures, w)"
| "publish_claims P D clock i self recipient_id slot msg_id expiry (zone # zones) failures w =
     (case publish_claim P D (clock i) self recipient_id slot msg_id expiry zone w of
        (Inr True, w) \<Rightarrow> publish_claims P D clock (Suc i) self recipient_id slot msg_id expiry zones failures w
      | (Inr False, w) \<Rightarrow>
          publish_claims P D clock (Suc i) self recipient_id slot msg_id expiry zones
            (failures @ [\<lparr> cf_provider_zone = zone, cf_reason = None \<rparr>]) w
      | (Inl e, w) \<Rightarrow>
          publish_claims P D clock (Suc i) self recipient_id slot msg_id expiry zones
            (failures @ [\<lparr> cf_provider_zone = zone, cf_reason = Some e \<rparr>]) w)"

text \<open>\<open>works\<close> is for the second lookup of the contact; the first reading of \<open>clock\<close> gives the expiry.\<close>

definition send_message_with_claim :: "prims \<Rightarrow> serde \<Rightarrow> (nat \<Rightarrow> bytes \<Rightarrow> bytes) \<Rightarrow> 'w dns \<Rightarrow> send_env \<Rightarrow> bool \<Rightarrow> (nat \<Rightarrow> u64) \<Rightarrow> rstr \<Rightarrow> bytes \<Rightarrow>
    rstr list \<Rightarrow> dmp_client \<Rightarrow> 'w \<Rightarrow> ((client_error + claim_send) \<times> 'w) option" where
  "send_message_with_claim P S rs_encode D env works clock recipient_username plaintext provider_zones self w =
     Option.bind (send_message P S rs_encode D env recipient_username plaintext self w) (\<lambda>(r, w).
       case r of
         Inl e \<Rightarrow> Some (Inl e, w)
       | Inr msg_id \<Rightarrow>
           (case get_contact works recipient_username (cl_contacts self) of
              Inl e \<Rightarrow> Some (Inl (Storage e), w)
            | Inr None \<Rightarrow> Some (Inl (ContactNotFound recipient_username), w)
            | Inr (Some stored) \<Rightarrow>
                let recipient_id = derive_user_id P (sc_x25519_pk stored);
                    slot_u32 = slot_for_msg_id msg_id
                in if 256 \<le> unat slot_u32 then Some (Inl (InvalidClientConfig ''send_message_with_claim: slot does not fit in u8''), w)
                   else
                     let expiry = sat_add (clock 0) DEFAULT_TTL_SECONDS;
                         (claim_failures, w) = publish_claims P D clock 1 self recipient_id (ucast slot_u32) msg_id expiry provider_zones [] w
                     in Some (Inr \<lparr> cs_msg_id = msg_id, cs_claim_failures = claim_failures \<rparr>, w)))"

section \<open>Polling claims\<close>

text \<open>The loop over the records of the mailbox slot: the first verified manifest that fits the claim.\<close>

fun first_manifest :: "prims \<Rightarrow> claim_record \<Rightarrow> bytes \<Rightarrow> rstr list \<Rightarrow> slot_manifest option" where
  "first_manifest P claim user_id [] = None"
| "first_manifest P claim user_id (record # records) =
     (case manifest_parse_and_verify P record of
        None \<Rightarrow> first_manifest P claim user_id records
      | Some (manifest, _) \<Rightarrow>
          if m_msg_id manifest \<noteq> c_msg_id claim then first_manifest P claim user_id records
          else if m_sender_spk manifest \<noteq> c_sender_spk claim then first_manifest P claim user_id records
          else if m_recipient_id manifest \<noteq> user_id then first_manifest P claim user_id records
          else Some manifest)"

definition lookup_manifest_for_claim :: "prims \<Rightarrow> 'w dns \<Rightarrow> claim_record \<Rightarrow> rstr \<Rightarrow> dmp_client \<Rightarrow> 'w \<Rightarrow> client_error + slot_manifest option" where
  "lookup_manifest_for_claim P D claim sender_zone self w =
     (case d_query D w (slot_domain P (cl_user_id self) (ucast (c_slot claim)) sender_zone) of
        Inl e \<Rightarrow> Inl (Net e)
      | Inr None \<Rightarrow> Inr None
      | Inr (Some records) \<Rightarrow> Inr (first_manifest P claim (cl_user_id self) records))"

text \<open>The handling of a record under the claim name of a slot.\<close>

definition claim_step :: "prims \<Rightarrow> serde \<Rightarrow> (nat \<Rightarrow> bytes \<Rightarrow> bytes option) \<Rightarrow> 'w step_env \<Rightarrow> contact list \<Rightarrow> u64 \<Rightarrow> byte \<Rightarrow> rstr \<Rightarrow>
    dmp_client \<Rightarrow> 'w \<Rightarrow> (client_error + inbox_message option) \<times> dmp_client \<times> 'w" where
  "claim_step P S rs_correct env listed now slot record self w =
     (case claim_parse_and_verify P now record (Some now) CLAIM_TS_SKEW_SECONDS of
        None \<Rightarrow> (Inr None, self, w)
      | Some claim \<Rightarrow>
          if c_slot claim \<noteq> slot then (Inr None, self, w)
          else
            (case screen_sender P env listed (c_sender_spk claim) self w of
               Inl e \<Rightarrow> (Inl e, self, w)
             | Inr None \<Rightarrow> (Inr None, self, w)
             | Inr (Some quarantine) \<Rightarrow>
                 (case has_seen (re_works env SeenPurge, re_works env SeenSelect) (re_clock env AtSeen) (c_sender_spk claim) (c_msg_id claim)
                         (cl_replay self) of
                    (Inl e, c) \<Rightarrow> (Inl (Storage e), self\<lparr>cl_replay := c\<rparr>, w)
                  | (Inr True, c) \<Rightarrow> (Inr None, self\<lparr>cl_replay := c\<rparr>, w)
                  | (Inr False, c) \<Rightarrow>
                      let self = self\<lparr>cl_replay := c\<rparr> in
                      (case lookup_manifest_for_claim P (re_dns env) claim (c_domain claim) self w of
                         Inl e \<Rightarrow> (Inl e, self, w)
                       | Inr None \<Rightarrow> (Inr None, self, w)
                       | Inr (Some manifest) \<Rightarrow>
                           if manifest_is_expired now manifest (Some now) then (Inr None, self, w)
                           else
                             (case fetch_and_decrypt P S rs_correct env manifest (c_domain claim) self w of
                                None \<Rightarrow> (Inr None, self, w)
                              | Some decoded \<Rightarrow> deliver P env manifest quarantine decoded self w)))))"

definition claim_name :: "prims \<Rightarrow> rstr \<Rightarrow> byte \<Rightarrow> dmp_client \<Rightarrow> client_error + rstr" where
  "claim_name P provider_zone slot self =
     mapErr (\<lambda>_. InvalidClientConfig ''claim_rrset_name'') (claim_rrset_name P (cl_user_id self) slot provider_zone)"

definition receive_via_claim :: "prims \<Rightarrow> serde \<Rightarrow> (nat \<Rightarrow> bytes \<Rightarrow> bytes option) \<Rightarrow> bool \<Rightarrow> u64 \<Rightarrow> (nat \<Rightarrow> 'w step_env) \<Rightarrow> rstr \<Rightarrow> dmp_client \<Rightarrow> 'w \<Rightarrow>
    (client_error + inbox_message list) \<times> dmp_client \<times> 'w" where
  "receive_via_claim P S rs_correct works now E provider_zone self w =
     (if provider_zone = [] then (Inl (InvalidClientConfig ''receive_via_claim: provider_zone must not be empty''), self, w)
      else
        (case client_list_contacts works self of
           Inl e \<Rightarrow> (Inl e, self, w)
         | Inr listed \<Rightarrow>
             (case each_slot E (claim_name P provider_zone) (\<lambda>slot t. claim_step P S rs_correct (E t) listed now slot)
                     (map of_nat [0..<Suc (unat MAX_SLOT)]) 0 [] self w of
                (r, _, self, w) \<Rightarrow> (r, self, w))))"

section \<open>What the handling of a claim does\<close>

lemma first_manifest_Some:
  "first_manifest P claim uid records = Some m \<Longrightarrow> \<exists>r \<in> set records. \<exists>sig. manifest_parse_and_verify P r = Some (m, sig) \<and>
     m_msg_id m = c_msg_id claim \<and> m_sender_spk m = c_sender_spk claim \<and> m_recipient_id m = uid"
  by (induction records) (auto split: option.splits if_splits)

text \<open>A message that a claim may deliver: the verified claim, the manifest found where it points, and the payload.\<close>

definition claimed_ok :: "prims \<Rightarrow> serde \<Rightarrow> 'w step_env \<Rightarrow> dmp_client \<Rightarrow> contact list \<Rightarrow> u64 \<Rightarrow> byte \<Rightarrow> rstr \<Rightarrow> 'w \<Rightarrow> inbox_message \<Rightarrow> bool" where
  "claimed_ok P S env self listed now slot record w msg \<longleftrightarrow>
     (\<exists>claim m r records sig. claim_parse_and_verify P now record (Some now) CLAIM_TS_SKEW_SECONDS = Some claim \<and> c_slot claim = slot \<and>
        d_query (re_dns env) w (slot_domain P (cl_user_id self) (ucast slot) (c_domain claim)) = Inr (Some records) \<and> r \<in> set records \<and>
        manifest_parse_and_verify P r = Some (m, sig) \<and> m_msg_id m = c_msg_id claim \<and> m_sender_spk m = c_sender_spk claim \<and>
        m_recipient_id m = cl_user_id self \<and> now \<le> m_exp m \<and>
        trusted_sender P env listed (cl_rotation_chain_enabled self) (m_sender_spk m) w \<and> opened_payload P S env self m msg)"

lemma claim_step_frame: "same_client self (fst (snd (claim_step P S rs_correct env listed now slot record self w)))"
proof -
  have "same_client self (fst (snd (deliver P env m q msg (self\<lparr>cl_replay := c\<rparr>) w)))" for m q msg c
    using deliver_frame(1) [where self = "self\<lparr>cl_replay := c\<rparr>"] by simp
  then show ?thesis
    by (auto simp: claim_step_def Let_def same_client_refl split: sum.splits option.splits prod.splits bool.splits)
qed

lemma claim_step_delivers:
  assumes "fst (claim_step P S rs_correct env listed now slot record self w) = Inr (Some msg)"
  shows "claimed_ok P S env self listed now slot record w msg"
proof -
  obtain claim q where claim: "claim_parse_and_verify P now record (Some now) CLAIM_TS_SKEW_SECONDS = Some claim" "c_slot claim = slot"
    and s: "screen_sender P env listed (c_sender_spk claim) self w = Inr (Some q)"
    using assms by (auto simp: claim_step_def split: sum.splits option.splits if_splits)
  obtain c where c: "has_seen (re_works env SeenPurge, re_works env SeenSelect) (re_clock env AtSeen) (c_sender_spk claim) (c_msg_id claim)
      (cl_replay self) = (Inr False, c)"
    using assms claim s by (auto simp: claim_step_def split: sum.splits bool.splits prod.splits)
  let ?self = "self\<lparr>cl_replay := c\<rparr>"
  obtain m where m: "lookup_manifest_for_claim P (re_dns env) claim (c_domain claim) ?self w = Inr (Some m)" "now \<le> m_exp m"
    using assms claim s c
    by (auto simp: claim_step_def Let_def manifest_is_expired_def unwrap_or_def not_less split: sum.splits option.splits if_splits)
  obtain x where x: "fetch_and_decrypt P S rs_correct env m (c_domain claim) ?self w = Some x"
    using assms claim s c m(1) by (auto simp: claim_step_def Let_def split: option.splits if_splits)
  have "fst (deliver P env m q x ?self w) = Inr (Some msg)"
    using assms claim s c m x by (simp add: claim_step_def Let_def manifest_is_expired_def unwrap_or_def split: if_splits)
  then have d: "msg = x \<and> \<not> q" by (rule deliver_frame(3))
  obtain records where r: "d_query (re_dns env) w (slot_domain P (cl_user_id self) (ucast slot) (c_domain claim)) = Inr (Some records)"
    "first_manifest P claim (cl_user_id self) records = Some m"
    using m(1) claim(2) by (auto simp: lookup_manifest_for_claim_def split: sum.splits option.splits)
  have "opened_payload P S env self m x" using opened_payload_mono [OF fetch_opens [OF x]] by (simp add: same_client_refl)
  moreover have "trusted_sender P env listed (cl_rotation_chain_enabled self) (c_sender_spk claim) w"
    using screen_sender_trusts s d by simp
  ultimately show ?thesis using claim r(1) first_manifest_Some [OF r(2)] m(2) d unfolding claimed_ok_def by metis
qed

lemma claimed_ok_mono:
  "claimed_ok P S env b listed now slot r w msg \<Longrightarrow> same_client a b \<Longrightarrow> claimed_ok P S env a listed now slot r w msg"
  unfolding claimed_ok_def using opened_payload_mono [of P S env b _ msg a] by (fastforce simp: same_client_def)

definition claimable :: "prims \<Rightarrow> serde \<Rightarrow> (nat \<Rightarrow> 'w step_env) \<Rightarrow> dmp_client \<Rightarrow> contact list \<Rightarrow> u64 \<Rightarrow> rstr \<Rightarrow> inbox_message set" where
  "claimable P S E self listed now zone = {msg. \<exists>slot name t0 w0 records r t w.
     claim_rrset_name P (cl_user_id self) slot zone = Inr name \<and>
     d_query (re_dns (E t0)) w0 name = Inr (Some records) \<and> r \<in> set records \<and>
     claimed_ok P S (E t) self listed now slot r w msg}"

section \<open>Claims in the memory store\<close>

definition claim_dns_name :: "prims \<Rightarrow> bytes \<Rightarrow> byte \<Rightarrow> rstr \<Rightarrow> rstr" where
  "claim_dns_name P rid slot zone = ascii ''claim-'' @ [ch CHR ''0'' + slot] @ ascii ''.mb-'' @ take 12 (hex_encode P (sha256 P rid)) @ ascii ''.'' @
     trim_end_matches (ch CHR ''.'') zone"

lemma claim_rrset_name_ok: "slot \<le> MAX_SLOT \<Longrightarrow> zone \<noteq> [] \<Longrightarrow> claim_rrset_name P rid slot zone = Inr (claim_dns_name P rid slot zone)"
  by (simp add: claim_rrset_name_def claim_dns_name_def Let_def)

lemma claim_names_differ:
  "claim_dns_name P rid i z \<noteq> slot_domain P r j z'" "claim_dns_name P rid i z \<noteq> chunk_domain key j z'"
  "claim_dns_name P rid i z \<noteq> prekey_rrset_name P u z'" "claim_dns_name P rid i z = claim_dns_name P rid i' z' \<Longrightarrow> i = i'"
  by (simp_all add: claim_dns_name_def chunk_domain_def slot_domain_def prekey_rrset_name_def Let_def ascii_def ch_def)

text \<open>A client whose zone can be written into a claim.\<close>

definition claimable_zone :: "dmp_client \<Rightarrow> bool" where
  "claimable_zone c \<longleftrightarrow> is_utf8 (cl_domain c) \<and> validate_mailbox_domain (cl_domain c) = Inr (cl_domain c)"

lemma publish_claims_memory:
  assumes "\<forall>z \<in> set zones. z \<noteq> []" "slot \<le> MAX_SLOT" "now < expiry"
    and "claim_sign P \<lparr> c_msg_id = msg_id, c_sender_spk = verifying_key (cl_crypto self), c_domain = cl_domain self,
           c_slot = slot, c_ts = now, c_exp = expiry \<rparr> (cl_crypto self) = Inr wire"
  shows "publish_claims P (memory_dns now) (\<lambda>_. now) i self rid slot msg_id expiry zones failures s =
    (failures, publish_all now (u32_or_max (expiry - now)) (map (\<lambda>z. (claim_dns_name P rid slot z, wire)) zones) s)"
  using assms(1)
proof (induction zones arbitrary: i s)
  case (Cons z zones)
  have "publish_claim P (memory_dns now) now self rid slot msg_id expiry z s =
      (Inr True, snd (mem_publish now (claim_dns_name P rid slot z) wire (u32_or_max (expiry - now)) s))"
    using assms(2-4) Cons.prems by (simp add: publish_claim_def claim_rrset_name_ok memory_dns_def mem_publish_def Let_def not_less not_le)
  then show ?case using Cons.IH [of "Suc i"] Cons.prems by (simp add: publish_all_def)
qed (simp add: publish_all_def)

lemma screen_sender_trusted: "trusts self listed spk \<Longrightarrow> screen_sender P env listed spk self w = Inr (Some False)"
  by (auto simp: screen_sender_def Let_def trusts_def)

lemma slot_narrow: "ucast (ucast (slot_for_msg_id x) :: byte) = slot_for_msg_id x" "(ucast (slot_for_msg_id x) :: byte) \<le> MAX_SLOT"
  "unat (slot_for_msg_id x) < 256"
proof -
  have s: "unat (slot_for_msg_id x) < 10" using slot_in_range [of x] by (simp add: word_less_nat_alt SLOT_COUNT_def)
  then show "unat (slot_for_msg_id x) < 256" by simp
  have u: "unat (ucast (slot_for_msg_id x) :: byte) = unat (slot_for_msg_id x)"
    using s by (simp add: unsigned_ucast_eq unsigned_take_bit_eq take_bit_nat_eq_self)
  then show "(ucast (slot_for_msg_id x) :: byte) \<le> MAX_SLOT" using s by (simp add: word_le_nat_alt MAX_SLOT_def)
  show "ucast (ucast (slot_for_msg_id x) :: byte) = slot_for_msg_id x"
    using u s by (intro word_unat_eq_iff [THEN iffD2]) (simp add: unsigned_ucast_eq unsigned_take_bit_eq take_bit_nat_eq_self)
qed

text \<open>The step that finds the claim of a message in the store.\<close>

lemma claim_step_found:
  fixes env :: send_env
  assumes "claim_parse_and_verify P now wire (Some now) CLAIM_TS_SKEW_SECONDS = Some claim" "c_slot claim = ucast (slot_for_msg_id (se_msg_id env))"
    "c_msg_id claim = se_msg_id env" "c_sender_spk claim = verifying_key (cl_crypto alice)" "c_domain claim = cl_domain alice"
    and "trusts bob listed (verifying_key (cl_crypto alice))"
    and new: "wf_replay (cl_replay bob)" "(verifying_key (cl_crypto alice), se_msg_id env) \<notin> live_pairs now (cl_replay bob)"
    and m: "manifest_parse_and_verify P rd = Some (m, sig)" "m_sender_spk m = verifying_key (cl_crypto alice)" "m_msg_id m = se_msg_id env"
    "m_recipient_id m = cl_user_id bob" "now \<le> m_exp m" "i64_secs now < i64_secs (m_exp m)"
    and mail: "has_mail P now env alice (cl_user_id bob) (cl_domain alice) rd txts w"
    and fetch: "\<forall>w c. has_mail P now env alice (cl_user_id bob) (cl_domain alice) rd txts w \<longrightarrow>
       (\<exists>label. fetch_and_decrypt P S rs_correct (calm now order e fails) m (cl_domain alice) (bob\<lparr>cl_replay := c\<rparr>) w =
          Some (received env alice plaintext label))"
    and ok: "\<And>r i z. \<not> fails (slot_domain P r i z)"
  obtains label bob' w' where
    "claim_step P S rs_correct (calm now order e fails) listed now (ucast (slot_for_msg_id (se_msg_id env))) wire bob w =
      (Inr (Some (received env alice plaintext label)), bob', w')"
    "only_slot P now (cl_user_id bob) (slot_domain P (cl_user_id bob) (slot_for_msg_id (se_msg_id env)) (cl_domain alice)) rd w'"
    "w' = w \<or> (\<exists>u z v. w' = snd (mem_delete (prekey_rrset_name P u z) v w))"
    "remembers now (verifying_key (cl_crypto alice), se_msg_id env) bob'" "same_client bob bob'"
proof -
  let ?env = "calm now order e fails" and ?spk = "verifying_key (cl_crypto alice)" and ?id = "se_msg_id env"
  let ?name = "slot_domain P (cl_user_id bob) (slot_for_msg_id ?id) (cl_domain alice)"
  have slot: "only_slot P now (cl_user_id bob) ?name rd w" using mail by (simp add: has_mail_def)
  obtain c where seen: "has_seen (True, True) now ?spk ?id (cl_replay bob) = (Inr False, c)"
    "wf_replay c" "live_pairs now c = live_pairs now (cl_replay bob)"
    using has_seen_ok [OF new(1), of now ?spk ?id] new(2) wf_purge [OF new(1)] purge_live [OF new(1)] by auto
  have look: "lookup_manifest_for_claim P (re_dns ?env) claim (c_domain claim) (bob\<lparr>cl_replay := c\<rparr>) w = Inr (Some m)"
    using only_slot_query [OF slot, of "slot_for_msg_id ?id" "cl_domain alice"] ok m assms(2-5)
    by (simp add: lookup_manifest_for_claim_def calm_def slot_narrow)
  obtain label where f: "fetch_and_decrypt P S rs_correct ?env m (cl_domain alice) (bob\<lparr>cl_replay := c\<rparr>) w = Some (received env alice plaintext label)"
    using fetch mail by blast
  obtain bob' w' where d: "deliver P ?env m False (received env alice plaintext label) (bob\<lparr>cl_replay := c\<rparr>) w =
      (Inr (Some (received env alice plaintext label)), bob', w')" "only_slot P now (cl_user_id bob) ?name rd w'"
    "w' = w \<or> (\<exists>u z v. w' = snd (mem_delete (prekey_rrset_name P u z) v w))"
    using deliver_calm [OF slot] by blast
  have step: "claim_step P S rs_correct ?env listed now (ucast (slot_for_msg_id ?id)) wire bob w =
      (Inr (Some (received env alice plaintext label)), bob', w')"
    using assms(1-5) screen_sender_trusted [OF assms(6), where env = ?env and P = P and w = w] seen(1) look f d(1) m(5)
    by (simp add: claim_step_def Let_def manifest_is_expired_def unwrap_or_def calm_reads)
  have "remembers now (?spk, ?id) bob'"
    using deliver_cache(2,3) [where T = now and env = ?env and self = "bob\<lparr>cl_replay := c\<rparr>" and P = P and m = m and q = False and w = w
        and msg = "received env alice plaintext label", OF calm_cache] seen(2) d(1) m(2,3,6) by (simp add: remembers_def)
  moreover have "same_client bob bob'" using claim_step_frame step by (metis fst_conv snd_conv)
  ultimately show thesis using that [OF step d(2,3)] by blast
qed

lemma claim_slots:
  assumes "j \<le> MAX_SLOT"
  obtains xs ys where "map of_nat [0..<Suc (unat MAX_SLOT)] = xs @ j # ys" "\<forall>i \<in> set xs \<union> set ys. i \<noteq> j \<and> i \<le> MAX_SLOT"
proof -
  let ?l = "map of_nat [0..<Suc (unat MAX_SLOT)] :: byte list"
  have j: "unat j < Suc (unat MAX_SLOT)" "of_nat (unat j) = j" using assms by (simp_all add: word_le_nat_alt)
  then have "j \<in> set ?l" by (metis atLeast0LessThan image_eqI lessThan_iff list.set_map set_upt)
  then obtain xs ys where l: "?l = xs @ j # ys" by (meson split_list)
  have "distinct ?l" by (simp add: MAX_SLOT_def upt_rec)
  then have "j \<notin> set xs \<union> set ys" unfolding l by simp
  moreover have "\<forall>i \<in> set ?l. i \<le> MAX_SLOT" by (simp add: MAX_SLOT_def upt_rec)
  ultimately show thesis using that [OF l] unfolding l by auto
qed

text \<open>Sending with claims, when the message goes out and the claims can be signed.\<close>

lemma claims_sent:
  assumes "crates P S rs_encode rs_correct" "b64_length P" "mail_ready P now env name plaintext alice bob s" "claimable_zone alice"
    and "\<forall>z \<in> set zones. z \<noteq> []"
    and "send_message P S rs_encode (memory_dns now) env name plaintext alice s = Some (Inr (se_msg_id env), s')"
  defines "slot \<equiv> ucast (slot_for_msg_id (se_msg_id env)) :: byte"
  obtains claim wire where "claim_parse_and_verify P now wire (Some now) CLAIM_TS_SKEW_SECONDS = Some claim" "c_slot claim = slot"
    "c_msg_id claim = se_msg_id env" "c_sender_spk claim = verifying_key (cl_crypto alice)" "c_domain claim = cl_domain alice"
    "send_message_with_claim P S rs_encode (memory_dns now) env (se_works env) (\<lambda>_. now) name plaintext zones alice s =
       Some (Inr \<lparr> cs_msg_id = se_msg_id env, cs_claim_failures = [] \<rparr>,
         publish_all now ttl32 (map (\<lambda>z. (claim_dns_name P (cl_user_id bob) slot z, wire)) zones) s')"
proof -
  let ?x = "sat_add now DEFAULT_TTL_SECONDS"
  have P: "b64_codec P" "ed25519 P" "digest P" using assms(1) by (simp_all add: crates_def)
  have ab: "client_ok P alice" "client_ok P bob" "length (se_msg_id env) = 16" "unat now < 2 ^ 63 - 1"
    using assms(3) unfolding mail_ready_def by blast+
  have wf: "wf_crypto P (cl_crypto alice)" using ab(1) by (simp add: client_ok_def)
  have x: "unat ?x = unat now + 300" using ab(4) by (simp add: unat_sat_add DEFAULT_TTL_SECONDS_def)
  then have less: "now < ?x" by (simp add: word_less_nat_alt)
  let ?c = "\<lparr> c_msg_id = se_msg_id env, c_sender_spk = verifying_key (cl_crypto alice), c_domain = cl_domain alice,
      c_slot = slot, c_ts = now, c_exp = ?x \<rparr>"
  have "wf_claim ?c" using assms(4) ab(3) sign_verifies(3) [OF P(2,3) wf] by (simp add: wf_claim_def claimable_zone_def)
  moreover have "slot \<le> 9" using slot_narrow(2) [of "se_msg_id env"] by (simp add: slot_def MAX_SLOT_def)
  then have "\<exists>b. claim_to_body ?c = Inr b" using assms(4) less by (simp add: claim_to_body_ok claim_ok_def claimable_zone_def)
  ultimately obtain wire where w: "claim_sign P ?c (cl_crypto alice) = Inr wire"
    "\<forall>now skew clock. unat (c_ts ?c) \<le> unat now + unat skew \<and> unat now < unat (c_exp ?c) \<longrightarrow>
       claim_parse_and_verify P clock wire (Some now) skew = Some ?c"
    using claim_sign_accept [OF P(1) assms(2) P(2,3) wf, of ?c] by auto
  have parse: "claim_parse_and_verify P now wire (Some now) CLAIM_TS_SKEW_SECONDS = Some ?c" using w(2) x by simp
  obtain stored where stored: "get_contact (se_works env) name (cl_contacts alice) = Inr (Some stored)" "derive_user_id P (sc_x25519_pk stored) = cl_user_id bob"
    using assms(3) ab(2) unfolding mail_ready_def by (auto simp: client_ok_def Let_def split: sum.splits option.splits)
  have "u32_or_max (?x - now) = ttl32"
  proof -
    have "unat (?x - now) = 300" using x less by (simp add: unat_sub word_less_nat_alt word_le_nat_alt)
    then have "?x - now = 300" by (intro word_unat_eq_iff [THEN iffD2]) simp
    then show ?thesis by (simp add: u32_or_max_def ttl32)
  qed
  then have "send_message_with_claim P S rs_encode (memory_dns now) env (se_works env) (\<lambda>_. now) name plaintext zones alice s =
      Some (Inr \<lparr> cs_msg_id = se_msg_id env, cs_claim_failures = [] \<rparr>,
        publish_all now ttl32 (map (\<lambda>z. (claim_dns_name P (cl_user_id bob) slot z, wire)) zones) s')"
    using assms(6) stored slot_narrow(3) [of "se_msg_id env"]
      publish_claims_memory [OF assms(5) _ less w(1), where i = 1 and failures = "[]" and s = s' and rid = "cl_user_id bob"]
      slot_narrow(2) [of "se_msg_id env"]
    by (simp add: send_message_with_claim_def Let_def slot_def not_le)
  with that parse show thesis by simp
qed

lemma claims_stored:
  fixes slot :: byte and wire :: rstr
  assumes "has_mail P now env alice rid zone' rd txts s0" "now < sat_add now (ucast ttl32)" "zone \<in> set zones"
    and "\<And>i. live_at now (mem_abs s0) (claim_dns_name P rid i zone) = {}"
  defines "s' \<equiv> publish_all now ttl32 (map (\<lambda>z. (claim_dns_name P rid slot z, wire)) zones) s0"
  shows "has_mail P now env alice rid zone' rd txts s'"
    "live_at now (mem_abs s') (claim_dns_name P rid i zone) = (if i = slot then {wire} else {})"
proof -
  have inv: "mem_inv s0" using assms(1) by (simp add: has_mail_def only_slot_def)
  have live: "mem_inv s'" "live_at now (mem_abs s') n = live_at now (mem_abs s0) n \<union> {v. (n, v) \<in> set (map (\<lambda>z. (claim_dns_name P rid slot z, wire)) zones)}" for n
    using publish_all_live [OF inv assms(2)] unfolding s'_def by blast+
  have "live_at now (mem_abs s') n = live_at now (mem_abs s0) n" if "\<And>i z. n \<noteq> claim_dns_name P rid i z" for n
    using that live(2) by auto
  then show "has_mail P now env alice rid zone' rd txts s'"
    using assms(1) live(1) claim_names_differ(1,2) [symmetric] by (simp add: has_mail_def only_slot_def)
  show "live_at now (mem_abs s') (claim_dns_name P rid i zone) = (if i = slot then {wire} else {})"
    unfolding live(2) assms(4) using assms(3) claim_names_differ(4) by (auto simp: image_iff)
qed

lemma claim_poll:
  assumes "mem_inv w" "slot \<le> MAX_SLOT" "zone \<noteq> []"
    and "\<And>i. live_at now (mem_abs w) (claim_dns_name P (cl_user_id bob) i zone) = (if i = slot then {wire} else {})"
    and "\<And>t. f slot t wire bob w = (Inr (Some msg), bob', w')" "same_client bob bob'" "mem_inv w'"
    and "w' = w \<or> (\<exists>u z v. w' = snd (mem_delete (prekey_rrset_name P u z) v w))"
  shows "\<exists>t. each_slot (\<lambda>_. calm now order e (\<lambda>_. False)) (claim_name P zone) f (map of_nat [0..<Suc (unat MAX_SLOT)]) 0 [] bob w =
    (Inr [msg], t, bob', w')"
proof -
  let ?E = "\<lambda>_ :: nat. calm now order e (\<lambda>_. False)"
  obtain xs ys where l: "map of_nat [0..<Suc (unat MAX_SLOT)] = xs @ slot # ys" "\<forall>i \<in> set xs \<union> set ys. i \<noteq> slot \<and> i \<le> MAX_SLOT"
    by (rule claim_slots [OF assms(2)])
  have name: "claim_name P zone i c = Inr (claim_dns_name P (cl_user_id c) i zone)" if "i \<le> MAX_SLOT" for i c
    using that assms(3) by (simp add: claim_name_def claim_rrset_name_ok)
  have id: "cl_user_id bob' = cl_user_id bob" using assms(6) by (simp add: same_client_def)
  have "live_at now (mem_abs w') (claim_dns_name P (cl_user_id bob) i zone) = live_at now (mem_abs w) (claim_dns_name P (cl_user_id bob) i zone)" for i
    using assms(8) mem_delete_refines [OF assms(1)] claim_names_differ(3) by (auto simp: live_at_def covers_def)
  then have none: "mem_query now (claim_dns_name P (cl_user_id bob) i zone) w = Inr None"
    "mem_query now (claim_dns_name P (cl_user_id bob) i zone) w' = Inr None" if "i \<noteq> slot" for i
    using query_of_live(1) [OF assms(1)] query_of_live(1) [OF assms(7)] assms(4) that by simp_all
  have found: "mem_query now (claim_dns_name P (cl_user_id bob) slot zone) w = Inr (Some [wire])"
    using query_of_live(2) [OF assms(1)] assms(4) by simp
  have "each_slot ?E (claim_name P zone) f xs 0 [] bob w = (Inr [], length xs, bob, w)"
    using each_slot_none [where slots = xs and self = bob and w = w and E = ?E and name_of = "claim_name P zone" and t = 0 and results = "[]"]
      l(2) name none(1) by (simp add: calm_def)
  moreover have "each_slot ?E (claim_name P zone) f ys t [msg] bob' w' = (Inr [msg], t + length ys, bob', w')" for t
    by (rule each_slot_none) (use l(2) name none(2) id in \<open>simp add: calm_def\<close>)
  ultimately show ?thesis using name [OF assms(2)] found assms(5) unfolding l(1) each_slot_append by (simp add: calm_def)
qed

section \<open>Properties\<close>

text \<open>C7: A claim makes a message discoverable. In the situation of \<open>sent_is_received\<close>, but whether or not the receiver
  polls the sender's zone, let the sender's zone fit into a claim and let nothing live under the receiver's claim names at a
  provider. Then \<open>send_message_with_claim\<close> with any non-empty provider zones, among them this one, succeeds without
  failures, \<open>receive_via_claim\<close> at this provider returns exactly the message, and a later \<open>receive_messages\<close>
  of any zones does not deliver it a second time.\<close>

theorem claim_discovers:
  assumes "crates P S rs_encode rs_correct" "b64_length P" "mail_ready P now env name plaintext alice bob s" "claimable_zone alice"
    and "\<And>l. mset (order l) = mset l" "client_list_contacts works bob = Inr listed" "trusts bob listed (verifying_key (cl_crypto alice))"
    and "\<forall>z \<in> set zones. z \<noteq> []" "zone \<in> set zones" "\<And>i. live_at now (mem_abs s) (claim_dns_name P (cl_user_id bob) i zone) = {}"
  shows "\<exists>s' label bob' w'. send_message_with_claim P S rs_encode (memory_dns now) env (se_works env) (\<lambda>_. now) name plaintext zones alice s =
      Some (Inr \<lparr> cs_msg_id = se_msg_id env, cs_claim_failures = [] \<rparr>, s') \<and>
    receive_via_claim P S rs_correct works now (\<lambda>_. calm now order e (\<lambda>_. False)) zone bob s' = (Inr [received env alice plaintext label], bob', w') \<and>
    fst (receive_messages P S rs_correct works now (\<lambda>_. calm now order e (\<lambda>_. False)) bob' w') = Inr []"
proof -
  let ?spk = "verifying_key (cl_crypto alice)" and ?rid = "cl_user_id bob" and ?renv = "calm now order e (\<lambda>_. False)"
  let ?slot = "ucast (slot_for_msg_id (se_msg_id env)) :: byte"
  obtain rd m sig txts s0 where st: "manifest_parse_and_verify P rd = Some (m, sig)" "m_sender_spk m = ?spk" "m_msg_id m = se_msg_id env"
    "m_recipient_id m = ?rid" "now \<le> m_exp m" "i64_secs now < i64_secs (m_exp m)"
    "send_message P S rs_encode (memory_dns now) env name plaintext alice s = Some (Inr (se_msg_id env), s0)"
    "has_mail P now env alice ?rid (cl_domain alice) rd txts s0"
    "\<forall>w c. has_mail P now env alice ?rid (cl_domain alice) rd txts w \<longrightarrow>
       (\<exists>label. fetch_and_decrypt P S rs_correct ?renv m (cl_domain alice) (bob\<lparr>cl_replay := c\<rparr>) w = Some (received env alice plaintext label))"
    "\<And>n. \<forall>i. n \<noteq> slot_domain P ?rid i (cl_domain alice) \<Longrightarrow> \<forall>key j. n \<noteq> chunk_domain key j (cl_domain alice) \<Longrightarrow>
       live_at now (mem_abs s0) n = live_at now (mem_abs s) n"
    using sent_mail [where fails = "\<lambda>_. False" and order = order and e = e, OF assms(1,3) refl assms(5)] by metis
  obtain claim wire where cl: "claim_parse_and_verify P now wire (Some now) CLAIM_TS_SKEW_SECONDS = Some claim" "c_slot claim = ?slot"
    "c_msg_id claim = se_msg_id env" "c_sender_spk claim = ?spk" "c_domain claim = cl_domain alice"
    "send_message_with_claim P S rs_encode (memory_dns now) env (se_works env) (\<lambda>_. now) name plaintext zones alice s =
       Some (Inr \<lparr> cs_msg_id = se_msg_id env, cs_claim_failures = [] \<rparr>,
         publish_all now ttl32 (map (\<lambda>z. (claim_dns_name P ?rid ?slot z, wire)) zones) s0)"
    by (rule claims_sent [OF assms(1-4,8) st(7)])
  let ?s = "publish_all now ttl32 (map (\<lambda>z. (claim_dns_name P ?rid ?slot z, wire)) zones) s0"
  have clock: "unat now < 2 ^ 63 - 1" and new: "wf_replay (cl_replay bob)" "(?spk, se_msg_id env) \<notin> live_pairs now (cl_replay bob)"
    using assms(3) unfolding mail_ready_def by blast+
  have expiry: "now < sat_add now (ucast ttl32)" using clock unfolding word_less_nat_alt unat_sat_add unat_ucast_u32 by (simp add: ttl32)
  have free: "live_at now (mem_abs s0) (claim_dns_name P ?rid i zone) = {}" for i
    using st(10) [of "claim_dns_name P ?rid i zone"] claim_names_differ(1,2) assms(10) by simp
  note stored = claims_stored [where slot = ?slot and wire = wire, OF st(8) expiry assms(9) free]
  obtain label bob' w' where step: "claim_step P S rs_correct ?renv listed now ?slot wire bob ?s = (Inr (Some (received env alice plaintext label)), bob', w')"
    "only_slot P now ?rid (slot_domain P ?rid (slot_for_msg_id (se_msg_id env)) (cl_domain alice)) rd w'"
    "w' = ?s \<or> (\<exists>u z v. w' = snd (mem_delete (prekey_rrset_name P u z) v ?s))"
    "remembers now (?spk, se_msg_id env) bob'" "same_client bob bob'"
    by (rule claim_step_found [where fails = "\<lambda>_. False", OF cl(1-5) assms(7) new st(1-6) stored(1) st(9)]) simp
  have inv: "mem_inv ?s" "mem_inv w'" using stored(1) step(2) by (simp_all add: has_mail_def only_slot_def)
  have zone: "zone \<noteq> []" using assms(8,9) by blast
  obtain t where "each_slot (\<lambda>_. ?renv) (claim_name P zone) (\<lambda>slot t. claim_step P S rs_correct ?renv listed now slot)
      (map of_nat [0..<Suc (unat MAX_SLOT)]) 0 [] bob ?s = (Inr [received env alice plaintext label], t, bob', w')"
    using claim_poll [where f = "\<lambda>slot t. claim_step P S rs_correct ?renv listed now slot", OF inv(1) slot_narrow(2) zone stored(2) step(1,5) inv(2) step(3)]
    by blast
  then have "receive_via_claim P S rs_correct works now (\<lambda>_. ?renv) zone bob ?s = (Inr [received env alice plaintext label], bob', w')"
    using assms(6) zone by (simp add: receive_via_claim_def)
  moreover have "fst (receive_messages P S rs_correct works now (\<lambda>_. ?renv) bob' w') = Inr []"
  proof (rule receive_again [where spk = ?spk and m = m and sig = sig and rd = rd])
    show "only_slot P now (cl_user_id bob') (slot_domain P ?rid (slot_for_msg_id (se_msg_id env)) (cl_domain alice)) rd w'"
      using step(2,5) by (simp add: same_client_def)
  qed (use st(1-3) step(4,5) assms(6,7) in \<open>simp_all add: same_client_def client_list_contacts_def trusts_def\<close>)
  ultimately show ?thesis using cl(6) by blast
qed

theorem claim_discovers_witness:
  "\<exists>s' label bob' w'. send_message_with_claim demo_prims demo_serde ref_encode (memory_dns 5) demo_env True (\<lambda>_. 5) (ascii ''bob'') [4, 5, 6]
      [ascii ''p.q'', ascii ''r.s''] demo_sender mem_new = Some (Inr \<lparr> cs_msg_id = replicate 16 0, cs_claim_failures = [] \<rparr>, s') \<and>
    receive_via_claim demo_prims demo_serde ref_correct True 5 (\<lambda>_. calm 5 (\<lambda>l. l) NoUsableAnswer (\<lambda>_. False)) (ascii ''r.s'') demo_client s' =
      (Inr [received demo_env demo_sender [4, 5, 6] label], bob', w') \<and>
    fst (receive_messages demo_prims demo_serde ref_correct True 5 (\<lambda>_. calm 5 (\<lambda>l. l) NoUsableAnswer (\<lambda>_. False)) bob' w') = Inr []"
proof -
  have "cl_domain demo_sender = ascii ''b.x''" by (simp add: demo_sender_def demo_client_def)
  moreover have "is_utf8 (ascii ''b.x'')" "validate_mailbox_domain (ascii ''b.x'') = Inr (ascii ''b.x'')" by code_simp+
  ultimately have z: "claimable_zone demo_sender" by (simp add: claimable_zone_def)
  have zones: "\<forall>z \<in> set [ascii ''p.q'', ascii ''r.s'']. z \<noteq> []" "ascii ''r.s'' \<in> set [ascii ''p.q'', ascii ''r.s'']"
    by (simp_all add: ascii_def)
  have "live_at 5 (mem_abs mem_new) n = {}" for n
    by (simp add: mem_new_def live_at_def mem_abs_def entries_at_def unwrap_or_def expiry_of_def)
  from claim_discovers [OF demo_crates demo_b64_length demo_ready z refl demo_poll(1,2) zones this, where e = NoUsableAnswer]
  show ?thesis by (simp add: demo_env_def)
qed

text \<open>C8: What a claim delivers is authentic. Whatever the DNS answers, each message that \<open>receive_via_claim\<close>
  returns comes from a record under one of the client's claim names at the provider that is a verified, fresh
  claim for that slot, and from a manifest found in the sender's mailbox zone that the claim names:
  signed by the same sender, with the same message id, for this client, not expired when the poll began. The sender is trusted by the
  same rule as in \<open>receive_messages\<close>, and the plaintext is what opens under the client's keys.\<close>

theorem claim_delivered_authentic:
  "case receive_via_claim P S rs_correct works now E zone self w of (r, self', w') \<Rightarrow> same_client self self' \<and>
     (case r of Inl _ \<Rightarrow> True
      | Inr msgs \<Rightarrow> (case client_list_contacts works self of Inl _ \<Rightarrow> False
                    | Inr listed \<Rightarrow> set msgs \<subseteq> claimable P S E self listed now zone))"
proof (cases "zone = [] \<or> (\<exists>e. client_list_contacts works self = Inl e)")
  case False
  then obtain listed where l: "client_list_contacts works self = Inr listed" "zone \<noteq> []" by (meson sum.exhaust)
  let ?f = "\<lambda>slot t. claim_step P S rs_correct (E t) listed now slot" and ?I = "same_client self" and ?R = "claimable P S E self listed now zone"
  have "\<forall>x \<in> set (map of_nat [0..<Suc (unat MAX_SLOT)]). \<forall>t s w n records. ?I s \<and> claim_name P zone x s = Inr n \<and>
      d_query (re_dns (E t)) w n = Inr (Some records) \<longrightarrow> (\<forall>r \<in> set records. \<forall>t. step_keeps ?I ?R (?f x t r))"
  proof (intro ballI allI impI, unfold step_keeps_def, intro allI impI conjI)
    fix x t s w n records r t' b w'
    show "?I b \<Longrightarrow> ?I (fst (snd (?f x t' r b w')))" by (rule same_client_trans [OF _ claim_step_frame])
    fix msg
    assume h: "?I s \<and> claim_name P zone x s = Inr n \<and> d_query (re_dns (E t)) w n = Inr (Some records)" "r \<in> set records" "?I b"
      "fst (?f x t' r b w') = Inr (Some msg)"
    have "claimed_ok P S (E t') self listed now x r w' msg" by (rule claimed_ok_mono [OF claim_step_delivers [OF h(4)] h(3)])
    moreover have "claim_rrset_name P (cl_user_id self) x zone = Inr n"
      using h(1) by (auto simp: claim_name_def mapErr_def same_client_def split: sum.splits)
    ultimately show "msg \<in> ?R" using h(1,2) unfolding claimable_def mem_Collect_eq by blast
  qed
  from each_slot_inv [where I = ?I and R = ?R and t = 0 and results = "[]" and w = w, OF this same_client_refl]
  show ?thesis using l by (auto simp: receive_via_claim_def split: sum.splits)
qed (auto simp: receive_via_claim_def same_client_refl split: sum.splits)

end
