(* ===== verification/Rotate.thy ===== *)
theory Rotate
  imports Delivery
begin

text \<open>
  Publishing rotations and revocations of a client's own signing key, \<open>rotate.rs\<close>, and what the contacts of the client see
  of them through \<open>RotationChain\<close>.
\<close>

section \<open>The code\<close>

datatype rotate_reason = Routine | Compromise | LostKey

definition REASON_COMPROMISE :: byte where
  "REASON_COMPROMISE = 1"

definition REASON_LOST_KEY :: byte where
  "REASON_LOST_KEY = 3"

fun revocation_code :: "rotate_reason \<Rightarrow> byte option" where
  "revocation_code Routine = None"
| "revocation_code Compromise = Some REASON_COMPROMISE"
| "revocation_code LostKey = Some REASON_LOST_KEY"

record rotate_outcome =
  ro_rotation_record_published :: bool
  ro_rotation_publish_error :: "string option"
  ro_revocation_published :: "bool option"
  ro_new_identity_published :: bool
  ro_seq :: u64

definition DEFAULT_ROTATION_TTL_SECONDS :: u32 where
  "DEFAULT_ROTATION_TTL_SECONDS = DEFAULT_IDENTITY_TTL_SECONDS"

definition DEFAULT_ROTATION_EXP_SECONDS :: u64 where
  "DEFAULT_ROTATION_EXP_SECONDS = 86400 * 365"

definition own_subject :: "dmp_client \<Rightarrow> rstr" where
  "own_subject self = cl_username self @ ascii ''@'' @ cl_domain self"

text \<open>A publish whose errors count as a refusal, \<open>unwrap_or(false)\<close>.\<close>

definition publish_quietly :: "'w dns \<Rightarrow> rstr \<Rightarrow> rstr \<Rightarrow> u32 \<Rightarrow> 'w \<Rightarrow> bool \<times> 'w" where
  "publish_quietly D name wire ttl w =
     (case d_publish D name wire ttl w of (Inr accepted, w) \<Rightarrow> (accepted, w) | (Inl e, w) \<Rightarrow> (False, w))"

text \<open>The second step: the revocation of the old key, if the reason asks for one.\<close>

definition publish_revocation :: "prims \<Rightarrow> 'w dns \<Rightarrow> u64 \<Rightarrow> rotate_reason \<Rightarrow> u32 \<Rightarrow> rstr \<Rightarrow> dmp_client \<Rightarrow> 'w \<Rightarrow>
    (client_error + bool option) \<times> 'w" where
  "publish_revocation P D now reason ttl_seconds rotate_name self w =
     (case revocation_code reason of
        None \<Rightarrow> (Inr None, w)
      | Some reason_code \<Rightarrow>
          (case revocation_sign P \<lparr> v_subject_type = SUBJECT_TYPE_USER_IDENTITY, v_subject = own_subject self,
                  v_revoked_spk = verifying_key (cl_crypto self), v_reason_code = reason_code, v_ts = now \<rparr> (cl_crypto self) of
             Inl e \<Rightarrow> (Inl (InvalidClientConfig ''RevocationRecord sign''), w)
           | Inr rev_wire \<Rightarrow> (case publish_quietly D rotate_name rev_wire ttl_seconds w of (rev_ok, w) \<Rightarrow> (Inr (Some rev_ok), w))))"

text \<open>The third step: the identity record of the new key.\<close>

definition publish_new_identity :: "prims \<Rightarrow> 'w dns \<Rightarrow> u64 \<Rightarrow> dmp_crypto \<Rightarrow> u32 \<Rightarrow> bool \<Rightarrow> dmp_client \<Rightarrow> 'w \<Rightarrow> (client_error + bool) \<times> 'w" where
  "publish_new_identity P D now new_crypto ttl_seconds advertise_v2 self w =
     (let versions = (if advertise_v2 then [1, 2] else [1]) in
      case andThen (make_record now new_crypto (cl_username self) (Some now) versions) (\<lambda>new_identity. identity_sign P new_identity new_crypto) of
        Inl e \<Rightarrow> (Inl (IdentityFailed e), w)
      | Inr new_id_wire \<Rightarrow>
          (case publish_quietly D (identity_domain P (cl_username self) (cl_domain self)) new_id_wire ttl_seconds w of
             (id_ok, w) \<Rightarrow> (Inr id_ok, w)))"

text \<open>The readings of the clock are \<open>now\<close> in seconds and \<open>now_ms\<close> in milliseconds.\<close>

definition rotate_identity :: "prims \<Rightarrow> 'w dns \<Rightarrow> u64 \<Rightarrow> u64 \<Rightarrow> dmp_crypto \<Rightarrow> rotate_reason \<Rightarrow> u32 \<Rightarrow> u64 \<Rightarrow> bool \<Rightarrow> dmp_client \<Rightarrow> 'w \<Rightarrow>
    (client_error + rotate_outcome) \<times> 'w" where
  "rotate_identity P D now now_ms new_crypto reason ttl_seconds exp_seconds advertise_v2 self w =
     (let old_spk = verifying_key (cl_crypto self); new_spk = verifying_key new_crypto in
      if old_spk = new_spk
      then (Inl (InvalidClientConfig ''rotate_identity: new keypair derives the same signing key as the current one''), w)
      else
        (case rotation_sign P \<lparr> r_subject_type = SUBJECT_TYPE_USER_IDENTITY, r_subject = own_subject self, r_old_spk = old_spk,
                r_new_spk = new_spk, r_seq = now_ms, r_ts = now, r_exp = sat_add now exp_seconds \<rparr> (cl_crypto self) new_crypto of
           Inl e \<Rightarrow> (Inl (InvalidClientConfig ''RotationRecord sign''), w)
         | Inr rotation_wire \<Rightarrow>
             let rotate_name = rotation_rrset_name_user_identity P (cl_username self) (cl_domain self) in
             (case d_publish D rotate_name rotation_wire ttl_seconds w of
                (Inl e, w) \<Rightarrow> (Inl (Net e), w)
              | (Inr accepted, w) \<Rightarrow>
                  if \<not> accepted then (Inl (PublishFailed ''rotation'' rotate_name), w)
                  else
                    (case publish_revocation P D now reason ttl_seconds rotate_name self w of
                       (Inl e, w) \<Rightarrow> (Inl e, w)
                     | (Inr revocation_published, w) \<Rightarrow>
                         (case publish_new_identity P D now new_crypto ttl_seconds advertise_v2 self w of
                            (Inl e, w) \<Rightarrow> (Inl e, w)
                          | (Inr id_ok, w) \<Rightarrow>
                              (Inr \<lparr> ro_rotation_record_published = True, ro_rotation_publish_error = None,
                                 ro_revocation_published = revocation_published, ro_new_identity_published = id_ok, ro_seq = now_ms \<rparr>, w))))))"

definition revoke_identity :: "prims \<Rightarrow> 'w dns \<Rightarrow> u64 \<Rightarrow> rotate_reason \<Rightarrow> u32 \<Rightarrow> dmp_client \<Rightarrow> 'w \<Rightarrow> (client_error + unit) \<times> 'w" where
  "revoke_identity P D now reason ttl_seconds self w =
     (case revocation_code reason of
        None \<Rightarrow> (Inl (InvalidClientConfig ''revoke_identity: RotateReason::Routine is invalid for a standalone revoke''), w)
      | Some reason_code \<Rightarrow>
          (case revocation_sign P \<lparr> v_subject_type = SUBJECT_TYPE_USER_IDENTITY, v_subject = own_subject self,
                  v_revoked_spk = verifying_key (cl_crypto self), v_reason_code = reason_code, v_ts = now \<rparr> (cl_crypto self) of
             Inl e \<Rightarrow> (Inl (InvalidClientConfig ''RevocationRecord sign''), w)
           | Inr wire \<Rightarrow>
               let name = rotation_rrset_name_user_identity P (cl_username self) (cl_domain self) in
               (case d_publish D name wire ttl_seconds w of
                  (Inl e, w) \<Rightarrow> (Inl (Net e), w)
                | (Inr accepted, w) \<Rightarrow> (if accepted then Inr () else Inl (PublishFailed ''revocation'' name), w))))"

section \<open>Records of a subject in the memory store\<close>

lemma answered_memory:
  assumes "mem_inv s"
  shows "answered (\<lambda>n. mem_query now n s) names = (\<Union>n \<in> set names. live_at now (mem_abs s) n)"
proof -
  have "(case mem_query now n s of Inr (Some rs) \<Rightarrow> set rs | _ \<Rightarrow> {}) = live_at now (mem_abs s) n" for n
  proof (cases "live_at now (mem_abs s) n = {}")
    case True
    then show ?thesis using mem_query_answers [OF assms, of now n] by (simp add: answers_def)
  next
    case False
    then obtain l where "mem_query now n s = Inr (Some l)" "set l = live_at now (mem_abs s) n"
      using mem_query_answers [OF assms, of now n] by (auto simp: answers_def)
    then show ?thesis by simp
  qed
  then show ?thesis by (induction names) (simp_all add: answered_Cons, simp add: answered_def)
qed

lemma mem_query_answered: "mem_inv s \<Longrightarrow> \<exists>a. mem_query now n s = Inr a"
  using mem_query_answers [of s now n] by (auto simp: answers_def split: if_splits)

text \<open>A client whose user name and zone form a valid subject, and a second identity for it.\<close>

definition rotatable :: "prims \<Rightarrow> dmp_client \<Rightarrow> dmp_crypto \<Rightarrow> bool" where
  "rotatable P self new_crypto \<longleftrightarrow> ch CHR ''@'' \<notin> set (cl_username self) \<and> trim (cl_username self) = cl_username self \<and> cl_username self \<noteq> [] \<and>
     trim (cl_domain self) = cl_domain self \<and> cl_domain self \<noteq> [] \<and> is_utf8 (own_subject self) \<and>
     validate_subject SUBJECT_TYPE_USER_IDENTITY (own_subject self) = Inr () \<and>
     wf_crypto P (cl_crypto self) \<and> wf_crypto P new_crypto \<and> verifying_key (cl_crypto self) \<noteq> verifying_key new_crypto"

lemma own_names:
  assumes "rotatable P self new_crypto"
  shows "derive_rrset_names P (own_subject self) SUBJECT_TYPE_USER_IDENTITY =
    [rotation_rrset_name_zone_anchored (cl_domain self), rotation_rrset_name_user_identity P (cl_username self) (cl_domain self)]"
proof -
  have "split_once (ch CHR ''@'') (own_subject self) = Some (cl_username self, cl_domain self)"
    using assms by (simp add: split_once_Some own_subject_def rotatable_def ascii_def)
  moreover have "rotation_rrset_name_user_identity P u h \<noteq> rotation_rrset_name_zone_anchored h'" for u h h'
    by (simp add: rotation_rrset_name_user_identity_def rotation_rrset_name_zone_anchored_def Let_def ascii_def ch_def)
  ultimately show ?thesis using assms by (simp add: derive_rrset_names_def Let_def rotatable_def)
qed

text \<open>The record of a rotation, and that of a revocation.\<close>

definition own_rotation :: "dmp_client \<Rightarrow> dmp_crypto \<Rightarrow> u64 \<Rightarrow> u64 \<Rightarrow> u64 \<Rightarrow> rotation_record" where
  "own_rotation self new_crypto now now_ms expiry = \<lparr> r_subject_type = SUBJECT_TYPE_USER_IDENTITY, r_subject = own_subject self,
     r_old_spk = verifying_key (cl_crypto self), r_new_spk = verifying_key new_crypto, r_seq = now_ms, r_ts = now, r_exp = expiry \<rparr>"

definition own_revocation :: "dmp_client \<Rightarrow> u64 \<Rightarrow> byte \<Rightarrow> revocation_record" where
  "own_revocation self now code = \<lparr> v_subject_type = SUBJECT_TYPE_USER_IDENTITY, v_subject = own_subject self,
     v_revoked_spk = verifying_key (cl_crypto self), v_reason_code = code, v_ts = now \<rparr>"

lemma own_rotation_signed:
  assumes "b64_codec P" "b64_length P" "ed25519 P" "digest P" "rotatable P self new_crypto" "now \<le> expiry"
  obtains wire where "rotation_sign P (own_rotation self new_crypto now now_ms expiry) (cl_crypto self) new_crypto = Inr wire"
    "rotation_parse_and_verify P now wire None (Some (own_subject self)) None = Some (own_rotation self new_crypto now now_ms expiry)"
proof -
  let ?r = "own_rotation self new_crypto now now_ms expiry"
  have wf: "wf_crypto P (cl_crypto self)" "wf_crypto P new_crypto" using assms(5) by (simp_all add: rotatable_def)
  have "wf_rotation ?r" using assms(5) sign_verifies(3) [OF assms(3,4)] wf by (simp add: wf_rotation_def own_rotation_def rotatable_def)
  moreover have "\<exists>body. rotation_to_body ?r = Inr body"
    using assms(5) by (simp add: rotation_to_body_ok rotation_validate_ok own_rotation_def rotatable_def)
  ultimately obtain wire where w: "rotation_sign P ?r (cl_crypto self) new_crypto = Inr wire"
    "rotation_parse_and_verify P now wire (Some (verifying_key (cl_crypto self))) (Some (own_subject self)) (Some now) = Some ?r"
    using rotation_sign_accept [OF assms(1-4) wf, of ?r] assms(6) by (auto simp: own_rotation_def word_le_nat_alt)
  then have "rotation_parse_and_verify P now wire None (Some (own_subject self)) None = Some ?r"
    unfolding rotation_parse [OF assms(1)] rotation_pins_def by (auto simp: unwrap_or_def)
  with w(1) that show thesis by blast
qed

lemma own_revocation_signed:
  assumes "b64_codec P" "b64_length P" "ed25519 P" "digest P" "rotatable P self new_crypto" "valid_reason code"
  obtains wire where "revocation_sign P (own_revocation self now code) (cl_crypto self) = Inr wire"
    "revocation_parse_and_verify P now wire None (Some (own_subject self)) None None = Some (own_revocation self now code)"
proof -
  let ?v = "own_revocation self now code"
  have wf: "wf_crypto P (cl_crypto self)" using assms(5) by (simp add: rotatable_def)
  have v: "wf_revocation ?v" using assms(5) sign_verifies(3) [OF assms(3,4) wf] by (simp add: wf_revocation_def own_revocation_def rotatable_def)
  obtain body where "revocation_to_body ?v = Inr body"
    using assms(5,6) by (simp add: revocation_to_body_ok revocation_validate_ok own_revocation_def rotatable_def)
  from revocation_permanent [OF assms(1-4) wf v _ this] obtain wire where w: "revocation_sign P ?v (cl_crypto self) = Inr wire"
    "revocation_parse_and_verify P now wire (Some (verifying_key (cl_crypto self))) (Some (own_subject self)) (Some now) None = Some ?v"
    by (auto simp: own_revocation_def)
  then have "revocation_parse_and_verify P now wire None (Some (own_subject self)) None None = Some ?v"
    unfolding revocation_parse [OF assms(1)] revocation_fresh_def by (auto simp: unwrap_or_def)
  with w(1) that show thesis by blast
qed

section \<open>What the contacts see\<close>

definition rotation_wires :: "rotate_reason \<Rightarrow> rstr \<Rightarrow> rstr \<Rightarrow> rstr list" where
  "rotation_wires reason rot rvk = rot # (if reason = Routine then [] else [rvk])"

lemma verified_wires:
  assumes "rotation_parse_and_verify P now rot None (Some subject) None = Some r" "r_subject_type r = st"
    and "reason \<noteq> Routine \<Longrightarrow> revocation_parse_and_verify P now rvk None (Some subject) None None = Some v \<and> v_subject_type v = st"
  shows "verified_rotations P now (set (rotation_wires reason rot rvk)) subject st = {r}"
    "verified_revocations P now (set (rotation_wires reason rot rvk)) subject st = (if reason = Routine then {} else {v})"
proof -
  have rot: "revocation_parse_and_verify P now rot None (Some subject) None None = None"
    using parse_prefix(1) [OF assms(1)] parse_prefix(2) prefixes_differ by (metis not_None_eq)
  have "rotation_parse_and_verify P now rvk None (Some subject) None = None" if "reason \<noteq> Routine"
    using assms(3) [OF that] parse_prefix prefixes_differ by (metis not_None_eq)
  then show "verified_rotations P now (set (rotation_wires reason rot rvk)) subject st = {r}"
    using assms(1,2) by (auto simp: verified_rotations_def rotation_wires_def)
  show "verified_revocations P now (set (rotation_wires reason rot rvk)) subject st = (if reason = Routine then {} else {v})"
    using rot assms(3) by (auto simp: verified_revocations_def rotation_wires_def)
qed

lemma one_step_path: "(\<exists>path. trusted_path {r} revoked (r_old_spk r) path \<and> end_key (r_old_spk r) path = r_new_spk r) \<longleftrightarrow>
    r_old_spk r \<noteq> r_new_spk r \<and> r_old_spk r \<notin> revoked \<and> r_new_spk r \<notin> revoked" (is "?l \<longleftrightarrow> ?r")
proof
  assume ?l
  then obtain path where t: "trusted_path {r} revoked (r_old_spk r) path" by blast
  show ?r
  proof (cases path)
    case (Cons p ps)
    have p: "p \<in> {r}" "r_new_spk p \<notin> revoked" "r_new_spk p \<notin> {r_old_spk r}" "r_old_spk r \<notin> revoked"
      using t unfolding Cons trusted_path_steps steps_from.simps by blast+
    then have "p = r" by simp
    with p(2-4) show ?r by simp
  qed (use t in \<open>simp add: trusted_path_steps\<close>)
next
  assume ?r
  then have "trusted_path {r} revoked (r_old_spk r) [r]" by (auto simp: trusted_path_steps)
  moreover have "end_key (r_old_spk r) [r] = r_new_spk r" by (simp add: end_key_def)
  ultimately show ?l by blast
qed

lemma accepted_one: "rotation_manifest_accepted P clock reader [c] spk = Inr (ct_username c \<noteq> [] \<and> ct_domain c \<noteq> [] \<and>
    resolve_current_spk P clock reader (ct_ed25519_spk c) (contact_subject c) SUBJECT_TYPE_USER_IDENTITY = Inr (Some spk))"
proof -
  obtain r where "resolve_current_spk P clock reader (ct_ed25519_spk c) (contact_subject c) SUBJECT_TYPE_USER_IDENTITY = Inr r"
    using resolve_never_fails by blast
  then show ?thesis by (cases r) auto
qed

lemma revoked_one:
  assumes "\<forall>n \<in> set (derive_rrset_names P (contact_subject c) SUBJECT_TYPE_USER_IDENTITY). \<exists>a. reader n = Inr a" "ct_username c \<noteq> []" "ct_domain c \<noteq> []"
  shows "rotation_manifest_revoked P clock reader [c] spk = Inr (spk \<in> v_revoked_spk `
    verified_revocations P clock (subject_texts P reader (contact_subject c)) (contact_subject c) SUBJECT_TYPE_USER_IDENTITY)"
proof -
  obtain rs where "fetch_strict_loop reader (derive_rrset_names P (contact_subject c) SUBJECT_TYPE_USER_IDENTITY) [] = Inr rs"
    using fetch_strict_loop_total [OF assms(1)] by blast
  then have "\<exists>b. is_spk_revoked P clock reader spk (contact_subject c) SUBJECT_TYPE_USER_IDENTITY = Inr b"
    by (auto simp: is_spk_revoked_def fetch_records_strict_def Let_def case_prod_beta)
  then obtain b where "is_spk_revoked P clock reader spk (contact_subject c) SUBJECT_TYPE_USER_IDENTITY = Inr b" by blast
  then show ?thesis using is_spk_revoked_False [of P clock reader spk "contact_subject c"] assms by (cases b) auto
qed

definition pins_old :: "dmp_client \<Rightarrow> contact \<Rightarrow> bool" where
  "pins_old self c \<longleftrightarrow> ct_username c = cl_username self \<and> ct_domain c = cl_domain self \<and> ct_ed25519_spk c = verifying_key (cl_crypto self)"

lemma chain_effect:
  fixes s :: mem_store
  assumes "rotatable P self nc" "pins_old self c" "mem_inv s"
    and "rotation_parse_and_verify P now rot None (Some (own_subject self)) None = Some (own_rotation self nc now now_ms expiry)"
    and "reason \<noteq> Routine \<Longrightarrow> revocation_parse_and_verify P now rvk None (Some (own_subject self)) None None = Some (own_revocation self now code)"
    and "live_at now (mem_abs s) (rotation_rrset_name_zone_anchored (cl_domain self)) = {}"
    and "live_at now (mem_abs s) (rotation_rrset_name_user_identity P (cl_username self) (cl_domain self)) = set (rotation_wires reason rot rvk)"
  shows "rotation_manifest_accepted P now (\<lambda>n. mem_query now n s) [c] (verifying_key nc) = Inr (reason = Routine)"
    "rotation_manifest_revoked P now (\<lambda>n. mem_query now n s) [c] (verifying_key (cl_crypto self)) = Inr (reason \<noteq> Routine)"
proof -
  let ?r = "own_rotation self nc now now_ms expiry" and ?v = "own_revocation self now code"
  have subject: "contact_subject c = own_subject self" using assms(2) by (simp add: contact_subject_def own_subject_def pins_old_def)
  have texts: "subject_texts P (\<lambda>n. mem_query now n s) (own_subject self) = set (rotation_wires reason rot rvk)"
    unfolding answered_memory [OF assms(3)] own_names [OF assms(1)] using assms(6,7) by simp
  have keys: "verified_rotations P now (set (rotation_wires reason rot rvk)) (own_subject self) SUBJECT_TYPE_USER_IDENTITY = {?r}"
    "verified_revocations P now (set (rotation_wires reason rot rvk)) (own_subject self) SUBJECT_TYPE_USER_IDENTITY = (if reason = Routine then {} else {?v})"
    using verified_wires [OF assms(4), where reason = reason and rvk = rvk and v = ?v] assms(5)
    by (simp_all add: own_rotation_def own_revocation_def)
  have spk: "r_old_spk ?r = verifying_key (cl_crypto self)" "r_new_spk ?r = verifying_key nc" "v_revoked_spk ?v = verifying_key (cl_crypto self)"
    by (simp_all add: own_rotation_def own_revocation_def)
  have c: "ct_username c \<noteq> []" "ct_domain c \<noteq> []" "ct_ed25519_spk c = verifying_key (cl_crypto self)"
    using assms(1,2) by (simp_all add: rotatable_def pins_old_def)
  have ne: "verifying_key (cl_crypto self) \<noteq> verifying_key nc" using assms(1) by (simp add: rotatable_def)
  have "resolve_current_spk P now (\<lambda>n. mem_query now n s) (verifying_key (cl_crypto self)) (own_subject self) SUBJECT_TYPE_USER_IDENTITY =
      Inr (Some (verifying_key nc)) \<longleftrightarrow> reason = Routine"
    unfolding resolve_current_spk_iff texts keys using one_step_path [of ?r "v_revoked_spk ` (if reason = Routine then {} else {?v})", unfolded spk] ne spk(3)
    by auto
  then show "rotation_manifest_accepted P now (\<lambda>n. mem_query now n s) [c] (verifying_key nc) = Inr (reason = Routine)"
    unfolding accepted_one subject using c by simp
  have "rotation_manifest_revoked P now (\<lambda>n. mem_query now n s) [c] (verifying_key (cl_crypto self)) =
      Inr (verifying_key (cl_crypto self) \<in> v_revoked_spk ` (if reason = Routine then {} else {?v}))"
    using revoked_one [where c = c and P = P and reader = "\<lambda>n. mem_query now n s" and clock = now and spk = "verifying_key (cl_crypto self)"] c mem_query_answered [OF assms(3)]
    unfolding subject texts keys by simp
  then show "rotation_manifest_revoked P now (\<lambda>n. mem_query now n s) [c] (verifying_key (cl_crypto self)) = Inr (reason \<noteq> Routine)"
    using spk(3) by simp
qed

section \<open>The publishes of a rotation\<close>

text \<open>The first two steps in the memory store: the rotation and the revocation stand under the name of the client, and the
  outcome is that of the third step.\<close>

definition rotation_stored :: "prims \<Rightarrow> u64 \<Rightarrow> u64 \<Rightarrow> dmp_crypto \<Rightarrow> rotate_reason \<Rightarrow> u32 \<Rightarrow> u64 \<Rightarrow> bool \<Rightarrow> dmp_client \<Rightarrow> mem_store \<Rightarrow>
    rstr \<Rightarrow> rstr \<Rightarrow> mem_store \<Rightarrow> bool" where
  "rotation_stored P now now_ms nc reason ttl exp_seconds advertise self s rot rvk s1 \<longleftrightarrow>
     s1 = publish_all now ttl (map (Pair (rotation_rrset_name_user_identity P (cl_username self) (cl_domain self))) (rotation_wires reason rot rvk)) s \<and>
     rotation_parse_and_verify P now rot None (Some (own_subject self)) None = Some (own_rotation self nc now now_ms (sat_add now exp_seconds)) \<and>
     (\<exists>code. revocation_parse_and_verify P now rvk None (Some (own_subject self)) None None = Some (own_revocation self now code)) \<and>
     rotate_identity P (memory_dns now) now now_ms nc reason ttl exp_seconds advertise self s =
      (case publish_new_identity P (memory_dns now) now nc ttl advertise self s1 of
         (Inl e, w) \<Rightarrow> (Inl e, w)
       | (Inr id_ok, w) \<Rightarrow> (Inr \<lparr> ro_rotation_record_published = True, ro_rotation_publish_error = None,
            ro_revocation_published = (if reason = Routine then None else Some True), ro_new_identity_published = id_ok, ro_seq = now_ms \<rparr>, w)) \<and>
     mem_inv s1 \<and> live_at now (mem_abs s1) (rotation_rrset_name_zone_anchored (cl_domain self)) = {} \<and>
     live_at now (mem_abs s1) (rotation_rrset_name_user_identity P (cl_username self) (cl_domain self)) = set (rotation_wires reason rot rvk)"

lemma rotate_commits:
  assumes "b64_codec P" "b64_length P" "ed25519 P" "digest P" "rotatable P self nc" "mem_inv s" "now < sat_add now (ucast ttl)"
    and "live_at now (mem_abs s) (rotation_rrset_name_zone_anchored (cl_domain self)) = {}"
    and "live_at now (mem_abs s) (rotation_rrset_name_user_identity P (cl_username self) (cl_domain self)) = {}"
  shows "\<exists>rot rvk s1. rotation_stored P now now_ms nc reason ttl exp_seconds advertise self s rot rvk s1"
proof -
  let ?n = "rotation_rrset_name_user_identity P (cl_username self) (cl_domain self)" and ?z = "rotation_rrset_name_zone_anchored (cl_domain self)"
  have "unat now < 2 ^ LENGTH(64)" by (rule unsigned_less)
  moreover have "(2 :: nat) ^ 64 = 18446744073709551616" by simp
  ultimately have "unat now \<le> 18446744073709551615" unfolding len64 by linarith
  then have "now \<le> sat_add now exp_seconds" by (simp add: word_le_nat_alt unat_sat_add)
  then obtain rot where rot: "rotation_sign P (own_rotation self nc now now_ms (sat_add now exp_seconds)) (cl_crypto self) nc = Inr rot"
    "rotation_parse_and_verify P now rot None (Some (own_subject self)) None = Some (own_rotation self nc now now_ms (sat_add now exp_seconds))"
    using own_rotation_signed [OF assms(1-5)] by metis
  define code where "code = unwrap_or (revocation_code reason) 1"
  have "valid_reason code" by (cases reason) (simp_all add: code_def valid_reason_def unwrap_or_def REASON_COMPROMISE_def REASON_LOST_KEY_def)
  then obtain rvk where rvk: "revocation_sign P (own_revocation self now code) (cl_crypto self) = Inr rvk"
    "revocation_parse_and_verify P now rvk None (Some (own_subject self)) None None = Some (own_revocation self now code)"
    using own_revocation_signed [OF assms(1-5)] by metis
  define s1 where "s1 = publish_all now ttl (map (Pair ?n) (rotation_wires reason rot rvk)) s"
  have live: "mem_inv s1" "live_at now (mem_abs s1) n = live_at now (mem_abs s) n \<union> {v. (n, v) \<in> set (map (Pair ?n) (rotation_wires reason rot rvk))}" for n
    using publish_all_live [OF assms(6,7)] unfolding s1_def by blast+
  have "?z \<noteq> ?n"
    by (simp add: rotation_rrset_name_user_identity_def rotation_rrset_name_zone_anchored_def Let_def ascii_def ch_def)
  then have l: "live_at now (mem_abs s1) ?z = {}" "live_at now (mem_abs s1) ?n = set (rotation_wires reason rot rvk)"
    unfolding live(2) assms(8,9) by auto
  have "publish_revocation P (memory_dns now) now reason ttl ?n self (snd (mem_publish now ?n rot ttl s)) =
      (Inr (if reason = Routine then None else Some True), s1)"
    using rvk(1) by (cases reason)
      (simp_all add: publish_revocation_def publish_quietly_def own_revocation_def code_def unwrap_or_def s1_def publish_all_def rotation_wires_def
        memory_dns_def mem_publish_def Let_def)
  moreover have "verifying_key (cl_crypto self) \<noteq> verifying_key nc" using assms(5) by (simp add: rotatable_def)
  ultimately have "rotate_identity P (memory_dns now) now now_ms nc reason ttl exp_seconds advertise self s =
      (case publish_new_identity P (memory_dns now) now nc ttl advertise self s1 of
         (Inl e, w) \<Rightarrow> (Inl e, w)
       | (Inr id_ok, w) \<Rightarrow> (Inr \<lparr> ro_rotation_record_published = True, ro_rotation_publish_error = None,
            ro_revocation_published = (if reason = Routine then None else Some True), ro_new_identity_published = id_ok, ro_seq = now_ms \<rparr>, w))"
    using rot(1) by (simp add: rotate_identity_def own_rotation_def memory_dns_def mem_publish_def Let_def)
  with s1_def rot(2) rvk(2) live(1) l show ?thesis unfolding rotation_stored_def by blast
qed

lemma new_identity_ok:
  assumes "b64_codec P" "ed25519 P" "digest P" "x25519_aead P" "from_private_bytes P seed = Inr nc"
    and "0 < length (cl_username self)" "length (cl_username self) \<le> 64" "is_utf8 (cl_username self)"
  obtains w where "publish_new_identity P (memory_dns now) now nc ttl advertise self s =
      (Inr True, snd (mem_publish now (identity_domain P (cl_username self) (cl_domain self)) w ttl s))"
    "\<exists>rd sig. identity_parse_and_verify P w = Some (rd, sig) \<and> i_ed25519_spk rd = verifying_key nc"
proof -
  let ?versions = "if advertise then [1, 2] else [1 :: byte]"
  obtain rd where rd: "make_record now nc (cl_username self) (Some now) ?versions = Inr rd"
    using assms(6,7) by (cases advertise) (simp_all add: make_record_def normalize_versions_def const_defs)
  obtain w sig where w: "identity_sign P rd nc = Inr w" "identity_parse_and_verify P w = Some (rd, sig)" "i_ed25519_spk rd = verifying_key nc"
    using identity_published [OF assms rd] by blast
  have "publish_new_identity P (memory_dns now) now nc ttl advertise self s =
      (Inr True, snd (mem_publish now (identity_domain P (cl_username self) (cl_domain self)) w ttl s))"
    using rd w(1) by (simp add: publish_new_identity_def publish_quietly_def memory_dns_def mem_publish_def Let_def)
  with that w(2,3) show thesis by blast
qed

text \<open>The identity record stands under another name than the rotation.\<close>

lemma rotation_stands:
  assumes "mem_inv s" "n = rotation_rrset_name_zone_anchored h \<or> n = rotation_rrset_name_user_identity P u h"
  shows "live_at now (mem_abs (snd (mem_publish now (identity_domain P u' h') w ttl s))) n = live_at now (mem_abs s) n"
proof -
  have "n \<noteq> identity_domain P u' h'" using assms(2)
    by (auto simp: identity_domain_def rotation_rrset_name_user_identity_def rotation_rrset_name_zone_anchored_def Let_def ascii_def ch_def)
  then show ?thesis using mem_publish_refines [OF assms(1)] by (auto simp: live_at_def)
qed

lemma long_name_refused:
  assumes "64 < length (cl_username self)"
  shows "publish_new_identity P (memory_dns now) now nc ttl advertise self s =
    (Inl (IdentityFailed (UsernameTooLong (length (cl_username self)) USERNAME_MAX)), s)"
proof -
  have "cl_username self \<noteq> []" using assms by auto
  then show ?thesis using assms
    by (cases advertise) (simp_all add: publish_new_identity_def make_record_def normalize_versions_def identity_sign_def identity_to_body_def const_defs)
qed

lemma entries_publish: "entries_at (snd (mem_publish now m v ttl s)) n =
    (if m = n then put_entry v (sat_add now (ucast ttl)) (entries_at s n) else entries_at s n)"
  by (simp add: mem_publish_def Let_def entries_update)

lemma entries_publish_all: "\<forall>(m, v) \<in> set kvs. m \<noteq> n \<Longrightarrow> entries_at (publish_all now ttl kvs s) n = entries_at s n"
  by (induction kvs arbitrary: s) (auto simp: publish_all_def entries_publish)

text \<open>The situation of the witnesses: the demonstration client takes a second key.\<close>

definition rotating_client :: dmp_client where
  "rotating_client = demo_client\<lparr>cl_username := ascii ''b'', cl_domain := ascii ''m''\<rparr>"

lemma demo_rotatable: "rotatable demo_prims rotating_client demo_key2"
  using demo_subject demo_key(1) demo_key2(1) demo_keys_differ
  by (simp add: rotatable_def rotating_client_def demo_client_def own_subject_def SUBJECT_TYPE_USER_IDENTITY_def)
    (simp add: ascii_def ch_def trim_id is_ascii_def is_whitespace_def)

lemma demo_seed2: "from_private_bytes demo_prims (replicate 32 8) = Inr demo_key2"
  by (simp add: demo_key2_def from_private_bytes_ok from_private_bytes_def X25519_KEY_LEN_def Let_def)

lemma rotating_name: "length (cl_username rotating_client) \<le> 64" "is_utf8 (cl_username rotating_client)"
proof -
  show "length (cl_username rotating_client) \<le> 64" by (simp add: rotating_client_def ascii_def)
  show "is_utf8 (cl_username rotating_client)" by (rule is_utf8_ascii) (simp add: rotating_client_def ascii_def ch_def)
qed

lemma demo_empty: "mem_inv mem_new" "live_at now (mem_abs mem_new) n = {}"
  by (simp_all add: mem_new_def mem_inv_def live_at_def mem_abs_def entries_at_def unwrap_or_def expiry_of_def)

lemma demo_time: "(5 :: u64) < sat_add 5 (ucast (3600 :: u32))"
  by (simp add: sat_add_def)

section \<open>Properties\<close>

text \<open>C9: What a rotation achieves. In a memory store without live records under the two rotation names of the client,
  \<open>rotate_identity\<close> to another key succeeds and reports each publish. A contact that pinned the old key then
  accepts the new key, and still takes the old one as not revoked, exactly after a routine rotation; after a rotation for a
  compromised or lost key the old key is reported as revoked, and the new key is not accepted: the revocation cuts the
  chain that the rotation record was to build.\<close>

theorem rotation_published:
  assumes "b64_codec P" "b64_length P" "ed25519 P" "digest P" "x25519_aead P" "from_private_bytes P seed = Inr nc"
    and "rotatable P self nc" "length (cl_username self) \<le> 64" "is_utf8 (cl_username self)" "pins_old self c"
    and "mem_inv s" "now < sat_add now (ucast ttl)" "live_at now (mem_abs s) (rotation_rrset_name_zone_anchored (cl_domain self)) = {}"
    and "live_at now (mem_abs s) (rotation_rrset_name_user_identity P (cl_username self) (cl_domain self)) = {}"
  shows "\<exists>s'. rotate_identity P (memory_dns now) now now_ms nc reason ttl exp_seconds advertise self s =
      (Inr \<lparr> ro_rotation_record_published = True, ro_rotation_publish_error = None,
         ro_revocation_published = (if reason = Routine then None else Some True), ro_new_identity_published = True, ro_seq = now_ms \<rparr>, s') \<and>
    rotation_manifest_accepted P now (d_query (memory_dns now) s') [c] (verifying_key nc) = Inr (reason = Routine) \<and>
    rotation_manifest_revoked P now (d_query (memory_dns now) s') [c] (verifying_key (cl_crypto self)) = Inr (reason \<noteq> Routine)"
proof -
  obtain rot rvk s1 where st: "rotation_stored P now now_ms nc reason ttl exp_seconds advertise self s rot rvk s1"
    using rotate_commits [OF assms(1-4,7,11-14)] by blast
  obtain code where rot: "rotation_parse_and_verify P now rot None (Some (own_subject self)) None = Some (own_rotation self nc now now_ms (sat_add now exp_seconds))"
    and rvk: "revocation_parse_and_verify P now rvk None (Some (own_subject self)) None None = Some (own_revocation self now code)"
    and inv1: "mem_inv s1" using st unfolding rotation_stored_def by blast
  have "0 < length (cl_username self)" using assms(7) by (simp add: rotatable_def)
  then obtain w where w: "publish_new_identity P (memory_dns now) now nc ttl advertise self s1 =
      (Inr True, snd (mem_publish now (identity_domain P (cl_username self) (cl_domain self)) w ttl s1))"
    using new_identity_ok [OF assms(1,3-6) _ assms(8,9)] by metis
  let ?s = "snd (mem_publish now (identity_domain P (cl_username self) (cl_domain self)) w ttl s1)"
  have inv: "mem_inv ?s" using mem_publish_refines [OF inv1] by blast
  have "live_at now (mem_abs ?s) (rotation_rrset_name_zone_anchored (cl_domain self)) = {}"
    "live_at now (mem_abs ?s) (rotation_rrset_name_user_identity P (cl_username self) (cl_domain self)) = set (rotation_wires reason rot rvk)"
    using rotation_stands [OF inv1] st unfolding rotation_stored_def by blast+
  note effect = chain_effect [OF assms(7,10) inv rot rvk this]
  have "rotate_identity P (memory_dns now) now now_ms nc reason ttl exp_seconds advertise self s =
      (Inr \<lparr> ro_rotation_record_published = True, ro_rotation_publish_error = None,
         ro_revocation_published = (if reason = Routine then None else Some True), ro_new_identity_published = True, ro_seq = now_ms \<rparr>, ?s)"
    using st w by (simp add: rotation_stored_def)
  moreover have "d_query (memory_dns now) ?s = (\<lambda>n. mem_query now n ?s)" by (simp add: memory_dns_def)
  ultimately show ?thesis using effect by metis
qed

theorem rotation_published_witness:
  "\<exists>s'. rotate_identity demo_prims (memory_dns 5) 5 5000 demo_key2 Routine 3600 86400 False rotating_client mem_new =
      (Inr \<lparr> ro_rotation_record_published = True, ro_rotation_publish_error = None, ro_revocation_published = None,
         ro_new_identity_published = True, ro_seq = 5000 \<rparr>, s') \<and>
    rotation_manifest_accepted demo_prims 5 (d_query (memory_dns 5) s')
      [\<lparr> ct_username = ascii ''b'', ct_x25519_pk = [], ct_ed25519_spk = verifying_key demo_key, ct_domain = ascii ''m'' \<rparr>] (verifying_key demo_key2) = Inr True"
proof -
  let ?c = "\<lparr> ct_username = ascii ''b'', ct_x25519_pk = [], ct_ed25519_spk = verifying_key demo_key, ct_domain = ascii ''m'' \<rparr>"
  have c: "pins_old rotating_client ?c" by (simp add: pins_old_def rotating_client_def demo_client_def)
  from rotation_published [OF demo_b64 demo_b64_length demo_ed25519 demo_digest demo_x25519 demo_seed2 demo_rotatable rotating_name c demo_empty(1) demo_time demo_empty(2,2),
      where reason = Routine]
  show ?thesis by (fastforce simp del: rotation_manifest_accepted.simps rotation_manifest_revoked.simps)
qed

text \<open>C10: After a rotation the old identity is still the one that is found. Let a client publish its identity
  under a name that has no entries, and then rotate, with any reason. The rotation reports the new identity as published; but the old
  record stands first under the name, and whoever looks up the address obtains the old keys, because \<open>fetch_identity\<close> takes the first record that
  verifies.\<close>

theorem rotation_leaves_old_identity:
  assumes "b64_codec P" "b64_length P" "ed25519 P" "digest P" "x25519_aead P" "from_private_bytes P old_seed = Inr (cl_crypto self)" "from_private_bytes P seed = Inr nc"
    and "rotatable P self nc" "length (cl_username self) \<le> 64" "is_utf8 (cl_username self)"
    and "mem_inv s" "now < sat_add now (ucast ttl)" "live_at now (mem_abs s) (rotation_rrset_name_zone_anchored (cl_domain self)) = {}"
    and "live_at now (mem_abs s) (rotation_rrset_name_user_identity P (cl_username self) (cl_domain self)) = {}"
    and "entries_at s (identity_domain P (cl_username self) (cl_domain self)) = []" "unat now < 2 ^ 64 - 1"
    and "parse_address address = Some (cl_username self, host)"
    and "trim_end_matches (ch CHR ''.'') host = trim_end_matches (ch CHR ''.'') (cl_domain self)"
  shows "case publish_identity P (memory_dns now) now advertise self s of (r, s1) \<Rightarrow> r = Inr () \<and>
    (case rotate_identity P (memory_dns now) now now_ms nc reason ttl exp_seconds advertise' self s1 of (q, s2) \<Rightarrow>
       (case q of Inl _ \<Rightarrow> False | Inr out \<Rightarrow> ro_new_identity_published out) \<and>
       fetch_identity P (memory_dns now) address s2 = Inr \<lparr> ct_username = cl_username self, ct_x25519_pk = x25519_pub (cl_crypto self),
         ct_ed25519_spk = verifying_key (cl_crypto self), ct_domain = host \<rparr>)"
proof -
  let ?n = "identity_domain P (cl_username self) (cl_domain self)" and ?versions = "if advertise then [1, 2] else [1 :: byte]"
  have u: "0 < length (cl_username self)" using assms(8) by (simp add: rotatable_def)
  obtain rd where rd: "make_record now (cl_crypto self) (cl_username self) None ?versions = Inr rd"
    using u assms(9) by (cases advertise) (simp_all add: make_record_def normalize_versions_def const_defs)
  obtain w1 sig where w1: "identity_sign P rd (cl_crypto self) = Inr w1" "identity_parse_and_verify P w1 = Some (rd, sig)"
    "i_username rd = cl_username self" "i_x25519_pk rd = x25519_pub (cl_crypto self)" "i_ed25519_spk rd = verifying_key (cl_crypto self)"
    using identity_published [OF assms(1,3-6) u assms(9,10) rd] by blast
  let ?s1 = "snd (mem_publish now ?n w1 DEFAULT_IDENTITY_TTL_SECONDS s)"
  have pub: "publish_identity P (memory_dns now) now advertise self s = (Inr (), ?s1)"
    using rd w1(1) by (simp add: publish_identity_def memory_dns_def mem_publish_def Let_def)
  have inv: "mem_inv ?s1" using mem_publish_refines [OF assms(11)] by blast
  obtain rot rvk s2 where st: "rotation_stored P now now_ms nc reason ttl exp_seconds advertise' self ?s1 rot rvk s2"
    using rotate_commits [OF assms(1-4,8) inv assms(12)] rotation_stands [OF assms(11)] assms(13,14) by metis
  obtain w2 where w2: "publish_new_identity P (memory_dns now) now nc ttl advertise' self s2 = (Inr True, snd (mem_publish now ?n w2 ttl s2))"
    "\<exists>rd sig. identity_parse_and_verify P w2 = Some (rd, sig) \<and> i_ed25519_spk rd = verifying_key nc"
    by (rule new_identity_ok [OF assms(1,3-5,7) u assms(9,10)])
  let ?s3 = "snd (mem_publish now ?n w2 ttl s2)"
  have "w1 \<noteq> w2" using w1(2,5) w2(2) assms(8) by (auto simp: rotatable_def)
  moreover have "rotation_rrset_name_user_identity P (cl_username self) (cl_domain self) \<noteq> ?n"
    by (simp add: identity_domain_def rotation_rrset_name_user_identity_def Let_def ascii_def ch_def)
  then have "entries_at s2 ?n = entries_at ?s1 ?n" using st entries_publish_all unfolding rotation_stored_def by fastforce
  ultimately have "entries_at ?s3 ?n = [\<lparr> e_value = w1, e_expires = sat_add now (ucast DEFAULT_IDENTITY_TTL_SECONDS) \<rparr>,
      \<lparr> e_value = w2, e_expires = sat_add now (ucast ttl) \<rparr>]"
    using assms(15) by (simp add: entries_publish)
  moreover have "now < sat_add now (ucast DEFAULT_IDENTITY_TTL_SECONDS)"
    using assms(16) unfolding word_less_nat_alt unat_sat_add unat_ucast_u32 by (simp add: DEFAULT_IDENTITY_TTL_SECONDS_def)
  ultimately have q: "mem_query now ?n ?s3 = Inr (Some [w1, w2])" using assms(12) by (simp add: mem_query_entries)
  have name: "identity_domain P (cl_username self) host = ?n" using assms(18) by (simp add: identity_domain_def)
  have "fetch_identity P (memory_dns now) address ?s3 = Inr \<lparr> ct_username = cl_username self, ct_x25519_pk = x25519_pub (cl_crypto self),
      ct_ed25519_spk = verifying_key (cl_crypto self), ct_domain = host \<rparr>"
    using assms(17) q w1(2-5) by (simp add: fetch_identity_def memory_dns_def name Let_def)
  moreover have "rotate_identity P (memory_dns now) now now_ms nc reason ttl exp_seconds advertise' self ?s1 =
      (Inr \<lparr> ro_rotation_record_published = True, ro_rotation_publish_error = None,
         ro_revocation_published = (if reason = Routine then None else Some True), ro_new_identity_published = True, ro_seq = now_ms \<rparr>, ?s3)"
    using st w2(1) by (simp add: rotation_stored_def)
  ultimately show ?thesis using pub by simp
qed

theorem rotation_leaves_old_identity_witness:
  "case publish_identity demo_prims (memory_dns 5) 5 True rotating_client mem_new of (r, s1) \<Rightarrow> r = Inr () \<and>
    (case rotate_identity demo_prims (memory_dns 5) 5 5000 demo_key2 LostKey 3600 86400 True rotating_client s1 of (q, s2) \<Rightarrow>
       (case q of Inl _ \<Rightarrow> False | Inr out \<Rightarrow> ro_new_identity_published out) \<and>
       fetch_identity demo_prims (memory_dns 5) (ascii ''b@m'') s2 = Inr \<lparr> ct_username = ascii ''b'', ct_x25519_pk = x25519_pub demo_key,
         ct_ed25519_spk = verifying_key demo_key, ct_domain = ascii ''m'' \<rparr>)"
proof -
  have me: "from_private_bytes demo_prims (replicate 32 7) = Inr (cl_crypto rotating_client)"
    by (simp add: rotating_client_def demo_client_def demo_key_def from_private_bytes_ok from_private_bytes_def X25519_KEY_LEN_def Let_def)
  have none: "entries_at mem_new n = []" for n by (simp add: mem_new_def entries_at_def unwrap_or_def)
  have t: "trim (ascii ''b'') = ascii ''b''" "trim (ascii ''m'') = ascii ''m''"
    by (rule trim_id; simp add: is_ascii_def ascii_def ch_def is_whitespace_def)+
  have "split_once (ch CHR ''@'') (ascii ''b@m'') = Some (ascii ''b'', ascii ''m'')"
    unfolding split_once_Some by (simp add: ascii_def ch_def)
  moreover have m: "trim_end_matches (ch CHR ''.'') (ascii ''m'') = ascii ''m''"
    by (rule trim_end_id) (simp add: ascii_def ch_def)
  ultimately have a: "parse_address (ascii ''b@m'') = Some (cl_username rotating_client, ascii ''m'')"
    using t by (simp add: parse_address_def rotating_client_def ascii_def)
  have names: "cl_username rotating_client = ascii ''b''" "cl_domain rotating_client = ascii ''m''" "cl_crypto rotating_client = demo_key"
    by (simp_all add: rotating_client_def demo_client_def)
  have "unat (5 :: u64) < 2 ^ 64 - 1" by simp
  from rotation_leaves_old_identity [OF demo_b64 demo_b64_length demo_ed25519 demo_digest demo_x25519 me demo_seed2 demo_rotatable rotating_name demo_empty(1) demo_time
      demo_empty(2,2) none this a, where reason = LostKey and advertise = True and advertise' = True]
  show ?thesis by (simp add: names)
qed

text \<open>A rotation can take effect although it reports an error. For a user name of more than 64 bytes (which construction
  and the subject rules allow) \<open>rotate_identity\<close> fails with the length error of the identity record, after the rotation has been
  published: the contacts already see it as in \<open>rotation_published\<close>.\<close>

theorem rotation_error_after_commit:
  assumes "b64_codec P" "b64_length P" "ed25519 P" "digest P" "rotatable P self nc" "64 < length (cl_username self)" "pins_old self c"
    and "mem_inv s" "now < sat_add now (ucast ttl)" "live_at now (mem_abs s) (rotation_rrset_name_zone_anchored (cl_domain self)) = {}"
    and "live_at now (mem_abs s) (rotation_rrset_name_user_identity P (cl_username self) (cl_domain self)) = {}"
  shows "\<exists>s'. rotate_identity P (memory_dns now) now now_ms nc reason ttl exp_seconds advertise self s =
      (Inl (IdentityFailed (UsernameTooLong (length (cl_username self)) USERNAME_MAX)), s') \<and>
    rotation_manifest_accepted P now (d_query (memory_dns now) s') [c] (verifying_key nc) = Inr (reason = Routine) \<and>
    rotation_manifest_revoked P now (d_query (memory_dns now) s') [c] (verifying_key (cl_crypto self)) = Inr (reason \<noteq> Routine)"
proof -
  obtain rot rvk s1 where st: "rotation_stored P now now_ms nc reason ttl exp_seconds advertise self s rot rvk s1"
    using rotate_commits [OF assms(1-5,8-11)] by blast
  then obtain code where rot: "rotation_parse_and_verify P now rot None (Some (own_subject self)) None = Some (own_rotation self nc now now_ms (sat_add now exp_seconds))"
    and rvk: "revocation_parse_and_verify P now rvk None (Some (own_subject self)) None None = Some (own_revocation self now code)"
    and live: "mem_inv s1" "live_at now (mem_abs s1) (rotation_rrset_name_zone_anchored (cl_domain self)) = {}"
      "live_at now (mem_abs s1) (rotation_rrset_name_user_identity P (cl_username self) (cl_domain self)) = set (rotation_wires reason rot rvk)"
    unfolding rotation_stored_def by blast
  have "rotate_identity P (memory_dns now) now now_ms nc reason ttl exp_seconds advertise self s =
      (Inl (IdentityFailed (UsernameTooLong (length (cl_username self)) USERNAME_MAX)), s1)"
    using st long_name_refused [OF assms(6)] by (simp add: rotation_stored_def)
  moreover have "d_query (memory_dns now) s1 = (\<lambda>n. mem_query now n s1)" by (simp add: memory_dns_def)
  ultimately show ?thesis using chain_effect [OF assms(5,7) live(1) rot rvk live(2,3)] by metis
qed

theorem rotation_error_after_commit_witness:
  "\<exists>self s'. rotate_identity demo_prims (memory_dns 5) 5 5000 demo_key2 Routine 3600 86400 False self mem_new =
      (Inl (IdentityFailed (UsernameTooLong 70 USERNAME_MAX)), s') \<and>
    rotation_manifest_accepted demo_prims 5 (d_query (memory_dns 5) s')
      [\<lparr> ct_username = replicate 70 98, ct_x25519_pk = [], ct_ed25519_spk = verifying_key demo_key, ct_domain = ascii ''m'' \<rparr>] (verifying_key demo_key2) = Inr True"
proof -
  let ?u = "replicate 70 98 :: rstr" and ?c = "\<lparr> ct_username = replicate 70 98, ct_x25519_pk = [], ct_ed25519_spk = verifying_key demo_key, ct_domain = ascii ''m'' \<rparr>"
  let ?self = "demo_client\<lparr>cl_username := ?u, cl_domain := ascii ''m''\<rparr>" and ?s = "?u @ ascii ''@'' @ ascii ''m''"
  have t: "trim ?u = ?u" "trim (ascii ''m'') = ascii ''m''"
    by (rule trim_id; simp add: is_ascii_def list_all_iff ascii_def ch_def is_whitespace_def)+
  have "split_once (ch CHR ''@'') ?s = Some (?u, ascii ''m'')" unfolding split_once_Some by (simp add: ascii_def ch_def)
  then have "validate_subject SUBJECT_TYPE_USER_IDENTITY ?s = Inr ()" using t
    by (simp add: validate_subject_def validate_user_subject_def Let_def const_defs)
      (simp add: validate_dns_name_def validate_label_def strip_suffix_char_def unwrap_or_def is_ascii_def is_alnum_def is_alpha_def is_digit_def
        ascii_def ch_def const_defs)
  moreover have "is_utf8 ?s" by (rule is_utf8_ascii) (simp add: ascii_def ch_def list_all_iff)
  ultimately have r: "rotatable demo_prims ?self demo_key2" using t demo_key(1) demo_key2(1) demo_keys_differ
    by (simp add: rotatable_def own_subject_def demo_client_def) (simp add: ascii_def ch_def)
  have c: "pins_old ?self ?c" by (simp add: pins_old_def demo_client_def)
  have "64 < length (cl_username ?self)" by simp
  from rotation_error_after_commit [OF demo_b64 demo_b64_length demo_ed25519 demo_digest r this c demo_empty(1) demo_time demo_empty(2,2), where reason = Routine]
  have "\<exists>s'. rotate_identity demo_prims (memory_dns 5) 5 5000 demo_key2 Routine 3600 86400 False ?self mem_new =
      (Inl (IdentityFailed (UsernameTooLong 70 USERNAME_MAX)), s') \<and>
    rotation_manifest_accepted demo_prims 5 (d_query (memory_dns 5) s') [?c] (verifying_key demo_key2) = Inr True"
    by (fastforce simp del: rotation_manifest_accepted.simps rotation_manifest_revoked.simps)
  then show ?thesis by blast
qed

end
