(* ===== verification/Effects.thy ===== *)
theory Effects
  imports Prelude
begin

text \<open>
  Steps that can fail and change the world: a function of the world that returns a result beside the new world, as the operations
  of the command line and the database files are modelled.
\<close>

type_synonym ('e, 'a, 'w) step = "'w \<Rightarrow> ('e + 'a) \<times> 'w"

definition eff_return :: "'a \<Rightarrow> ('e, 'a, 'w) step" where
  "eff_return a w = (Inr a, w)"

definition eff_lift :: "'e + 'a \<Rightarrow> ('e, 'a, 'w) step" where
  "eff_lift r w = (r, w)"

text \<open>The operator \<open>?\<close> on a step.\<close>

definition eff_bind :: "('e, 'a, 'w) step \<Rightarrow> ('a \<Rightarrow> ('e, 'b, 'w) step) \<Rightarrow> ('e, 'b, 'w) step" where
  "eff_bind f g w = (case f w of (Inl e, w') \<Rightarrow> (Inl e, w') | (Inr a, w') \<Rightarrow> g a w')"

definition eff_err :: "('e \<Rightarrow> 'f) \<Rightarrow> ('e, 'a, 'w) step \<Rightarrow> ('f, 'a, 'w) step" where
  "eff_err h f w = (case f w of (r, w') \<Rightarrow> (mapErr h r, w'))"

lemma eff_simps [simp]: "eff_return a w = (Inr a, w)" "eff_lift r w = (r, w)"
  by (simp_all add: eff_return_def eff_lift_def)

lemma eff_bind_Inr:
  "eff_bind f g w = (Inr b, w') \<longleftrightarrow> (\<exists>a w1. f w = (Inr a, w1) \<and> g a w1 = (Inr b, w'))"
  by (auto simp: eff_bind_def split: sum.splits prod.splits)

lemma eff_bind_Inl:
  "eff_bind f g w = (Inl e, w') \<longleftrightarrow> f w = (Inl e, w') \<or> (\<exists>a w1. f w = (Inr a, w1) \<and> g a w1 = (Inl e, w'))"
  by (auto simp: eff_bind_def split: sum.splits prod.splits)

declare mapErr_Inl [simp]

lemma mapErr_eq_Inl [simp]: "Inl e = mapErr h r \<longleftrightarrow> (\<exists>d. r = Inl d \<and> e = h d)" "Inr x = mapErr h r \<longleftrightarrow> r = Inr x"
  by (cases r; auto)+

lemma eff_err_iff: "eff_err h f w = (r, w') \<longleftrightarrow> (\<exists>x. f w = (x, w') \<and> r = mapErr h x)"
  by (cases "f w") (auto simp: eff_err_def)

lemma eff_err_Inr: "eff_err h f w = (Inr a, w') \<longleftrightarrow> f w = (Inr a, w')"
  by (auto simp: eff_err_def split: prod.splits)

lemma eff_err_Inl: "eff_err h f w = (Inl e, w') \<longleftrightarrow> (\<exists>d. f w = (Inl d, w') \<and> e = h d)"
proof (cases "f w")
  case (Pair r v)
  then show ?thesis by (cases r) (auto simp: eff_err_def)
qed

text \<open>A property of the world that every step keeps.\<close>

definition keeps :: "('w \<Rightarrow> 'w \<Rightarrow> bool) \<Rightarrow> ('e, 'a, 'w) step \<Rightarrow> bool" where
  "keeps R f \<longleftrightarrow> (\<forall>w. R w (snd (f w)))"

lemma keeps_return [intro]: "reflp R \<Longrightarrow> keeps R (eff_return a)" "reflp R \<Longrightarrow> keeps R (eff_lift r)"
  by (simp_all add: keeps_def reflp_def)

lemma keeps_bind [intro]:
  assumes "transp R" "keeps R f" "\<And>a. keeps R (g a)"
  shows "keeps R (eff_bind f g)"
  unfolding keeps_def
proof
  fix w
  obtain r w1 where f: "f w = (r, w1)" by (metis prod.exhaust)
  then have "R w w1" using assms(2) unfolding keeps_def by (metis snd_conv)
  then show "R w (snd (eff_bind f g w))"
    using assms(1,3) f by (cases r) (auto simp: eff_bind_def keeps_def elim: transpE)
qed

lemma keeps_err [intro]: "keeps R f \<Longrightarrow> keeps R (eff_err h f)"
  unfolding keeps_def eff_err_def by (metis (no_types, lifting) case_prod_beta snd_conv)

end
