(* ===== verification/Config.thy ===== *)
theory Config
  imports Strings Json
begin

text \<open>
  The configuration file of the command line, \<open>config.rs\<close>. A path is its components, which is how \<open>std::path\<close> compares
  paths; the environment, the file system and the YAML crate are the fields of \<open>host\<close>. An \<open>anyhow::Error\<close> is its text.
\<close>

section \<open>Paths\<close>

record path =
  absolute :: bool
  parts :: "rstr list"

definition path_from :: "rstr \<Rightarrow> path" where
  "path_from s =
     (let abs = starts_with (ascii ''/'') s; cs = split_on (ch CHR ''/'') s;
          keep = filter (\<lambda>c. c \<noteq> [] \<and> c \<noteq> ascii ''.'') cs
      in \<lparr> absolute = abs, parts = (if \<not> abs \<and> hd cs = ascii ''.'' then ascii ''.'' # keep else keep) \<rparr>)"

definition path_join :: "path \<Rightarrow> path \<Rightarrow> path" where
  "path_join base p = (if absolute p then p else base\<lparr>parts := parts base @ parts p\<rparr>)"

definition path_parent :: "path \<Rightarrow> path option" where
  "path_parent p = (if parts p = [] then None else Some (p\<lparr>parts := butlast (parts p)\<rparr>))"

text \<open>\<open>p.join(name)\<close> for a name without separators.\<close>

definition path_child :: "path \<Rightarrow> string \<Rightarrow> path" where
  "path_child p name = path_join p (path_from (ascii name))"

section \<open>The file\<close>

record publish_config =
  pc_zone :: rstr
  pc_server :: rstr
  pc_tsig_key_name :: rstr
  pc_tsig_algorithm :: rstr
  pc_tsig_secret_path :: rstr

record cloudflare_file_config =
  cf_zone_id :: rstr
  cf_api_token_path :: rstr

record config_file =
  f_username :: rstr
  f_domain :: rstr
  f_db_path :: "rstr option"
  f_resolvers :: "rstr list option"
  f_kdf_salt :: "rstr option"
  f_publish :: "publish_config option"
  f_cloudflare :: "cloudflare_file_config option"

text \<open>After resolution the paths of the two blocks are the resolved ones.\<close>

record resolved_config =
  r_config_home :: path
  r_config_path :: path
  r_username :: rstr
  r_domain :: rstr
  r_db_path :: path
  r_resolvers :: "rstr list option"
  r_publish :: "(publish_config \<times> path) option"
  r_cloudflare :: "(cloudflare_file_config \<times> path) option"
  r_kdf_salt :: "bytes option"

record host =
  h_env :: "rstr \<Rightarrow> rstr option"
  h_exists :: "path \<Rightarrow> bool"
  h_read :: "path \<Rightarrow> string + bytes"
  h_yaml :: "rstr \<Rightarrow> string + config_file"

definition default_config_home :: "host \<Rightarrow> string + path" where
  "default_config_home h =
     (case h_env h (ascii ''DMP_CONFIG_HOME'') of
        Some home \<Rightarrow> Inr (path_from home)
      | None \<Rightarrow>
          (case h_env h (ascii ''HOME'') of
             None \<Rightarrow> Inl ''HOME is not set; set DMP_CONFIG_HOME or HOME''
           | Some home \<Rightarrow> Inr (path_child (path_from home) ''.dmp'')))"

definition default_path :: "host \<Rightarrow> string + path" where
  "default_path h = andThen (default_config_home h) (\<lambda>home. Inr (path_child home ''config.yaml''))"

definition resolve_path :: "host \<Rightarrow> rstr \<Rightarrow> path \<Rightarrow> string + path" where
  "resolve_path h s base =
     (case strip_prefix (ascii ''~/'') s of
        Some rest \<Rightarrow>
          (case h_env h (ascii ''HOME'') of
             None \<Rightarrow> Inl ''cannot expand ~ - HOME is not set''
           | Some home \<Rightarrow> Inr (path_join (path_from home) (path_from rest)))
      | None \<Rightarrow>
          if s = ascii ''~'' then
            (case h_env h (ascii ''HOME'') of
               None \<Rightarrow> Inl ''cannot expand ~ - HOME is not set''
             | Some home \<Rightarrow> Inr (path_from home))
          else if absolute (path_from s) then Inr (path_from s)
          else Inr (path_join base (path_from s)))"

text \<open>\<open>Option::map(\<dots>).transpose()?\<close>.\<close>

definition transpose_option :: "('a \<Rightarrow> 'e + 'b) \<Rightarrow> 'a option \<Rightarrow> 'e + 'b option" where
  "transpose_option f x = (case x of None \<Rightarrow> Inr None | Some a \<Rightarrow> andThen (f a) (\<lambda>b. Inr (Some b)))"

definition config_resolve :: "host \<Rightarrow> serde \<Rightarrow> config_file \<Rightarrow> path \<Rightarrow> string + resolved_config" where
  "config_resolve h S self config_path =
     (let config_home = unwrap_or (path_parent config_path) (path_from (ascii ''.'')) in
      if trim (f_username self) = [] then Inl ''config: username must not be empty''
      else if trim (f_domain self) = [] then Inl ''config: domain must not be empty''
      else
        andThen (case f_db_path self of
            Some p \<Rightarrow> resolve_path h p config_home
          | None \<Rightarrow> Inr (path_child config_home ''dmp-rs.sqlite'')) (\<lambda>db_path.
        andThen (transpose_option (\<lambda>p. andThen (resolve_path h (pc_tsig_secret_path p) config_home) (\<lambda>q. Inr (p, q)))
            (f_publish self)) (\<lambda>publish.
        andThen (transpose_option (\<lambda>c. andThen (resolve_path h (cf_api_token_path c) config_home) (\<lambda>q. Inr (c, q)))
            (f_cloudflare self)) (\<lambda>cloudflare.
        if cloudflare \<noteq> None \<and> publish \<noteq> None then Inl ''config carries BOTH a publish: and a cloudflare: block''
        else
          andThen (transpose_option (\<lambda>s. mapErr (\<lambda>_. ''config.kdf_salt is not valid hex'') (hex_decode S (trim s)))
              (f_kdf_salt self)) (\<lambda>kdf_salt.
            Inr \<lparr> r_config_home = config_home, r_config_path = config_path, r_username = f_username self,
              r_domain = f_domain self, r_db_path = db_path, r_resolvers = f_resolvers self, r_publish = publish,
              r_cloudflare = cloudflare, r_kdf_salt = kdf_salt \<rparr>)))))"

text \<open>\<open>read_to_string\<close> fails on text that is not UTF-8.\<close>

definition read_to_string :: "host \<Rightarrow> path \<Rightarrow> string + rstr" where
  "read_to_string h p = andThen (h_read h p) (\<lambda>b. if is_utf8 b then Inr b else Inl ''stream did not contain valid UTF-8'')"

definition config_load :: "host \<Rightarrow> serde \<Rightarrow> path option \<Rightarrow> string + resolved_config" where
  "config_load h S override_path =
     andThen (case override_path of Some p \<Rightarrow> Inr p | None \<Rightarrow> default_path h) (\<lambda>path.
     andThen (mapErr (\<lambda>_. ''could not read config - run dnsmesh init first'') (read_to_string h path)) (\<lambda>raw.
     andThen (mapErr (\<lambda>_. ''invalid YAML'') (h_yaml h raw)) (\<lambda>parsed.
       config_resolve h S parsed path)))"

definition config_try_load :: "host \<Rightarrow> serde \<Rightarrow> path option \<Rightarrow> string + resolved_config option" where
  "config_try_load h S override_path =
     andThen (case override_path of Some p \<Rightarrow> Inr p | None \<Rightarrow> default_path h) (\<lambda>path.
       if \<not> h_exists h path then Inr None
       else andThen (config_load h S (Some path)) (\<lambda>c. Inr (Some c)))"

section \<open>What a resolved configuration is\<close>

definition under :: "path \<Rightarrow> path \<Rightarrow> bool" where
  "under base p \<longleftrightarrow> absolute p = absolute base \<and> (\<exists>rest. parts p = parts base @ rest)"

text \<open>A path that does not depend on the directory of the process, when the configuration's own path does not.\<close>

definition anchored :: "host \<Rightarrow> path \<Rightarrow> path \<Rightarrow> bool" where
  "anchored h base p \<longleftrightarrow> under base p \<or> absolute p \<or> (\<exists>home. h_env h (ascii ''HOME'') = Some home \<and> under (path_from home) p)"

lemma under_join: "under base (path_join base p) \<or> absolute (path_join base p)"
  by (auto simp: under_def path_join_def)

lemma under_self: "under p p"
  by (simp add: under_def)

lemma resolve_path_anchored: "resolve_path h s base = Inr q \<Longrightarrow> anchored h base q"
  using under_join under_self unfolding anchored_def resolve_path_def
  by (fastforce simp del: append_Cons split: option.splits if_splits)

lemma transpose_option_Inr:
  "transpose_option f x = Inr y \<longleftrightarrow> (case x of None \<Rightarrow> y = None | Some a \<Rightarrow> \<exists>b. f a = Inr b \<and> y = Some b)"
  by (cases x) (auto simp: transpose_option_def andThen_Inr)

text \<open>The fields of a resolved configuration.\<close>

lemma config_resolve_fields:
  assumes "config_resolve h S f p = Inr c"
  shows "r_username c = f_username f \<and> r_domain c = f_domain f \<and> trim (f_username f) \<noteq> [] \<and> trim (f_domain f) \<noteq> [] \<and>
    (r_publish c = None \<or> r_cloudflare c = None) \<and>
    (r_publish c = None \<longleftrightarrow> f_publish f = None) \<and> (r_cloudflare c = None \<longleftrightarrow> f_cloudflare f = None) \<and>
    anchored h (r_config_home c) (r_db_path c) \<and>
    (\<forall>x q. r_publish c = Some (x, q) \<longrightarrow> anchored h (r_config_home c) q) \<and>
    (\<forall>x q. r_cloudflare c = Some (x, q) \<longrightarrow> anchored h (r_config_home c) q)"
proof -
  define home where "home = unwrap_or (path_parent p) (path_from (ascii ''.''))"
  have "trim (f_username f) \<noteq> []" "trim (f_domain f) \<noteq> []" using assms by (auto simp: config_resolve_def Let_def split: if_splits)
  then obtain db pub cf salt where r:
      "(case f_db_path f of Some p \<Rightarrow> resolve_path h p home | None \<Rightarrow> Inr (path_child home ''dmp-rs.sqlite'')) = Inr db"
      "transpose_option (\<lambda>p. andThen (resolve_path h (pc_tsig_secret_path p) home) (\<lambda>q. Inr (p, q))) (f_publish f) = Inr pub"
      "transpose_option (\<lambda>c. andThen (resolve_path h (cf_api_token_path c) home) (\<lambda>q. Inr (c, q))) (f_cloudflare f) = Inr cf"
      "\<not> (cf \<noteq> None \<and> pub \<noteq> None)"
      "c = \<lparr> r_config_home = home, r_config_path = p, r_username = f_username f, r_domain = f_domain f, r_db_path = db,
         r_resolvers = f_resolvers f, r_publish = pub, r_cloudflare = cf, r_kdf_salt = salt \<rparr>"
    using assms unfolding config_resolve_def home_def [symmetric] Let_def
    by (simp only: if_False andThen_Inr if_Inl_Inr) blast
  have "anchored h home db"
    using r(1) resolve_path_anchored under_join unfolding path_child_def anchored_def
    by (fastforce split: option.splits)
  moreover have "(pub = None \<longleftrightarrow> f_publish f = None) \<and> (\<forall>x q. pub = Some (x, q) \<longrightarrow> anchored h home q)"
    using r(2) resolve_path_anchored by (auto simp: transpose_option_Inr andThen_Inr split: option.splits)
  moreover have "(cf = None \<longleftrightarrow> f_cloudflare f = None) \<and> (\<forall>x q. cf = Some (x, q) \<longrightarrow> anchored h home q)"
    using r(3) resolve_path_anchored by (auto simp: transpose_option_Inr andThen_Inr split: option.splits)
  ultimately show ?thesis using r(4,5) \<open>trim (f_username f) \<noteq> []\<close> \<open>trim (f_domain f) \<noteq> []\<close> by auto
qed

end
