(* ===== verification/Database.thy ===== *)
theory Database
  imports Effects Config Tables Client
begin

text \<open>
  Opening the encrypted database file, \<open>connection.rs\<close>, and the construction of a client over it, \<open>client.rs\<close>. The database
  crate is the record \<open>sqlite\<close> of the calls that the code makes; the predicate \<open>sqlcipher\<close> states the documented behaviour of
  SQLCipher: the key is checked when the first page is read, and a new file is encrypted under it.
\<close>

section \<open>Opening\<close>

record ('c, 'w) sqlite =
  sq_create_dir_all :: "path \<Rightarrow> (string, unit, 'w) step"
  sq_open :: "path option \<Rightarrow> (string, 'c, 'w) step"
  sq_pragma :: "'c \<Rightarrow> string \<Rightarrow> rstr \<Rightarrow> (string, 'c, 'w) step"
  sq_count_master :: "'c \<Rightarrow> (string, unit, 'w) step"
  sq_migrate :: "'c \<Rightarrow> (string, 'c, 'w) step"

definition STORAGE_KEY_LEN :: nat where
  "STORAGE_KEY_LEN = 32"

definition key_pragma :: "prims \<Rightarrow> bytes \<Rightarrow> rstr" where
  "key_pragma P key = [ch CHR ''x'', 39] @ hex_encode P key @ [39]"

definition apply_key :: "prims \<Rightarrow> ('c, 'w) sqlite \<Rightarrow> 'c \<Rightarrow> bytes \<Rightarrow> (storage_error, 'c, 'w) step" where
  "apply_key P Q con key =
     (if length key \<noteq> STORAGE_KEY_LEN then eff_lift (Inl (InvalidStorageKeyLength STORAGE_KEY_LEN (length key)))
      else eff_err Sqlite (sq_pragma Q con ''key'' (key_pragma P key)))"

definition probe_readable :: "('c, 'w) sqlite \<Rightarrow> 'c \<Rightarrow> (string, unit, 'w) step" where
  "probe_readable Q con = sq_count_master Q con"

definition display_path :: "path \<Rightarrow> rstr" where
  "display_path p = (if absolute p then ascii ''/'' else []) @ concat (map (\<lambda>c. c @ ascii ''/'') (butlast (parts p))) @
     (if parts p = [] then [] else last (parts p))"

definition classify_open_failure :: "('c, 'w) sqlite \<Rightarrow> path \<Rightarrow> string \<Rightarrow> 'w \<Rightarrow> storage_error \<times> 'w" where
  "classify_open_failure Q path keyed_err w =
     (case sq_open Q (Some path) w of
        (Inl _, w) \<Rightarrow> (Sqlite keyed_err, w)
      | (Inr unkeyed, w) \<Rightarrow>
          (case probe_readable Q unkeyed w of
             (Inr _, w) \<Rightarrow> (LegacyPlaintextDatabase (display_path path), w)
           | (Inl _, w) \<Rightarrow> (Sqlite keyed_err, w)))"

definition tune_pragmas :: "('c, 'w) sqlite \<Rightarrow> 'c \<Rightarrow> (storage_error, 'c, 'w) step" where
  "tune_pragmas Q con =
     eff_bind (eff_err Sqlite (sq_pragma Q con ''journal_mode'' (ascii ''WAL''))) (\<lambda>con.
     eff_bind (eff_err Sqlite (sq_pragma Q con ''synchronous'' (ascii ''NORMAL''))) (\<lambda>con.
     eff_bind (eff_err Sqlite (sq_pragma Q con ''foreign_keys'' (ascii ''ON''))) (\<lambda>con.
     eff_err Sqlite (sq_pragma Q con ''busy_timeout'' (ascii ''5000'')))))"

definition probe_or_classify :: "('c, 'w) sqlite \<Rightarrow> path \<Rightarrow> 'c \<Rightarrow> (storage_error, unit, 'w) step" where
  "probe_or_classify Q path con w =
     (case probe_readable Q con w of
        (Inr _, w) \<Rightarrow> (Inr (), w)
      | (Inl e, w) \<Rightarrow> (case classify_open_failure Q path e w of (err, w) \<Rightarrow> (Inl err, w)))"

record 'c opened_db =
  od_conn :: 'c
  od_path :: "path option"

definition db_open :: "prims \<Rightarrow> ('c, 'w) sqlite \<Rightarrow> path \<Rightarrow> bytes \<Rightarrow> (storage_error, 'c opened_db, 'w) step" where
  "db_open P Q path key =
     eff_bind (case path_parent path of
         Some parent \<Rightarrow> if absolute parent \<or> parts parent \<noteq> [] then eff_err Io (sq_create_dir_all Q parent) else eff_return ()
       | None \<Rightarrow> eff_return ()) (\<lambda>_.
     eff_bind (eff_err Sqlite (sq_open Q (Some path))) (\<lambda>con.
     eff_bind (apply_key P Q con key) (\<lambda>con.
     eff_bind (probe_or_classify Q path con) (\<lambda>_.
     eff_bind (tune_pragmas Q con) (\<lambda>con.
     eff_bind (eff_err Migration (sq_migrate Q con)) (\<lambda>con.
       eff_return \<lparr> od_conn = con, od_path = Some path \<rparr>))))))"

definition db_open_in_memory :: "prims \<Rightarrow> ('c, 'w) sqlite \<Rightarrow> bytes \<Rightarrow> (storage_error, 'c opened_db, 'w) step" where
  "db_open_in_memory P Q key =
     eff_bind (eff_err Sqlite (sq_open Q None)) (\<lambda>con.
     eff_bind (apply_key P Q con key) (\<lambda>con.
     eff_bind (tune_pragmas Q con) (\<lambda>con.
     eff_bind (eff_err Migration (sq_migrate Q con)) (\<lambda>con.
       eff_return \<lparr> od_conn = con, od_path = None \<rparr>))))"

text \<open>One of the four connections of a client.\<close>

definition open_store :: "prims \<Rightarrow> ('c, 'w) sqlite \<Rightarrow> path option \<Rightarrow> bytes \<Rightarrow> (storage_error, 'c opened_db, 'w) step" where
  "open_store P Q db_path key = (case db_path of Some path \<Rightarrow> db_open P Q path key | None \<Rightarrow> db_open_in_memory P Q key)"

text \<open>\<open>DmpClient::new\<close> with the connections; \<open>tables\<close> says what the tables behind the four connections hold.\<close>

definition open_client ::
    "prims \<Rightarrow> ('c, 'w) sqlite \<Rightarrow> ('w \<Rightarrow> 'c \<times> 'c \<times> 'c \<times> 'c \<Rightarrow> prekey_table \<times> contact_table \<times> replay_table \<times> intro_queue) \<Rightarrow>
      path option \<Rightarrow> client_config \<Rightarrow> (client_error, dmp_client, 'w) step" where
  "open_client P Q tables db_path config =
     (if trim (cfg_username config) = [] then eff_lift (Inl (InvalidClientConfig ''username must not be empty''))
      else if trim (cfg_domain config) = [] then eff_lift (Inl (InvalidClientConfig ''domain must not be empty''))
      else
        eff_bind (eff_lift (mapErr CryptoFailed (from_passphrase P (cfg_passphrase config) (cfg_kdf_salt config)))) (\<lambda>crypto.
        let storage_key = derive_storage_key P crypto in
        eff_bind (eff_err Storage (open_store P Q db_path storage_key)) (\<lambda>a.
        eff_bind (eff_err Storage (open_store P Q db_path storage_key)) (\<lambda>b.
        eff_bind (eff_err Storage (open_store P Q db_path storage_key)) (\<lambda>c.
        eff_bind (eff_err Storage (open_store P Q db_path storage_key)) (\<lambda>d w.
          (client_new P (\<lambda>_. Inr (tables w (od_conn a, od_conn b, od_conn c, od_conn d))) config, w)))))))"

section \<open>SQLCipher\<close>

text \<open>What a file is to the database crate: nothing yet, a database without a key, one under a key (in the form of the pragma), or
  something else.\<close>

datatype db_file = NoFile | Unkeyed | Keyed rstr | NotADatabase

fun readable :: "db_file \<Rightarrow> rstr option \<Rightarrow> bool" where
  "readable NoFile k = True"
| "readable Unkeyed k = (k = None)"
| "readable (Keyed k') k = (k = Some k')"
| "readable NotADatabase k = False"

fun first_write :: "db_file \<Rightarrow> rstr option \<Rightarrow> db_file" where
  "first_write NoFile None = Unkeyed"
| "first_write NoFile (Some k) = Keyed k"
| "first_write f k = f"

text \<open>\<open>on c\<close> is the file of a connection and the key it was given. A call other than the probe may fail at any time, and a
  failed call may have written; but nothing is written into a file that the connection cannot read. The probe, which reads the
  first page, is idealised: on a readable file it does not fail (no busy database, no error of the disk).\<close>

definition touched :: "('w \<Rightarrow> path \<Rightarrow> db_file) \<Rightarrow> path option \<times> rstr option \<Rightarrow> 'w \<Rightarrow> 'w \<Rightarrow> bool" where
  "touched files pk w w' \<longleftrightarrow> files w' = files w \<or>
     (\<exists>p. fst pk = Some p \<and> readable (files w p) (snd pk) \<and> files w' = (files w)(p := first_write (files w p) (snd pk)))"

locale sqlcipher =
  fixes Q :: "('c, 'w) sqlite"
    and on :: "'c \<Rightarrow> path option \<times> rstr option"
    and files :: "'w \<Rightarrow> path \<Rightarrow> db_file"
  assumes create_same: "sq_create_dir_all Q p w = (r, w') \<Longrightarrow> files w' = files w"
    and open_same: "sq_open Q op w = (rc, w') \<Longrightarrow> files w' = files w \<and> (\<forall>c. rc = Inr c \<longrightarrow> on c = (op, None))"
    and key_same: "sq_pragma Q c ''key'' v w = (rc, w') \<Longrightarrow>
      files w' = files w \<and> (\<forall>c'. rc = Inr c' \<longrightarrow> on c' = (fst (on c), Some v))"
    and pragma_touched: "name \<noteq> ''key'' \<Longrightarrow> sq_pragma Q c name v w = (rc, w') \<Longrightarrow>
      touched files (on c) w w' \<and> (\<forall>c'. rc = Inr c' \<longrightarrow> on c' = on c)"
    and count_same: "sq_count_master Q c w = (r, w') \<Longrightarrow>
      files w' = files w \<and> (fst (on c) = Some p \<longrightarrow> isOk r = readable (files w p) (snd (on c)))"
    and migrate_touched: "sq_migrate Q c w = (rc, w') \<Longrightarrow>
      touched files (on c) w w' \<and>
      (\<forall>c'. rc = Inr c' \<longrightarrow> fst (on c) = Some p \<longrightarrow> files w' p = first_write (files w p) (snd (on c)))"

lemma readable_first_write: "readable f (Some k) \<Longrightarrow> readable (first_write f (Some k)) (Some k)"
  by (cases f) auto

lemma first_write_twice: "first_write (first_write f k) k = first_write f k"
  by (cases f; cases k) auto

text \<open>While a files cannot be read, or has been written already, a touch changes nothing.\<close>

lemma touched_same:
  "touched files (Some p, k) w w' \<Longrightarrow> \<not> readable (files w p) k \<or> first_write (files w p) k = files w p \<Longrightarrow> files w' = files w"
  by (auto simp: touched_def)

context sqlcipher
begin

text \<open>A failed attempt under a key is classified without touching a file.\<close>

lemma classify_same:
  assumes "classify_open_failure Q path e w = (err, w')"
  shows "files w' = files w \<and> (err = Sqlite e \<or> readable (files w path) None \<and> err = LegacyPlaintextDatabase (display_path path))"
proof -
  obtain r w1 where o: "sq_open Q (Some path) w = (r, w1)" by (metis prod.exhaust)
  show ?thesis
  proof (cases r)
    case (Inr c)
    obtain x w2 where p: "sq_count_master Q c w1 = (x, w2)" by (metis prod.exhaust)
    show ?thesis
      using open_same [OF o] count_same [OF p, of path] o p Inr assms
      by (cases x) (auto simp: classify_open_failure_def probe_readable_def)
  qed (use open_same [OF o] o assms in \<open>auto simp: classify_open_failure_def\<close>)
qed

lemma probe_same:
  assumes "probe_or_classify Q path c w = (r, w')" "on c = (Some path, Some k)"
  shows "files w' = files w \<and> (isOk r \<longleftrightarrow> readable (files w path) (Some k)) \<and>
    (\<forall>p. r = Inl (LegacyPlaintextDatabase p) \<longrightarrow> files w path = Unkeyed)"
proof -
  obtain x w1 where p: "sq_count_master Q c w = (x, w1)" by (metis prod.exhaust)
  note count = count_same [OF p, of path]
  show ?thesis
  proof (cases x)
    case (Inl e)
    obtain err w2 where cl: "classify_open_failure Q path e w1 = (err, w2)" by (metis prod.exhaust)
    have "files w path \<noteq> NoFile" using count Inl assms(2) by auto
    then show ?thesis using classify_same [OF cl] count Inl cl p assms
      by (cases "files w path") (auto simp: probe_or_classify_def probe_readable_def)
  qed (use count p assms in \<open>auto simp: probe_or_classify_def probe_readable_def\<close>)
qed

text \<open>Under a key that reads the file, the pragmas and the migrations write at most the first page.\<close>

lemma tune_touched:
  assumes "tune_pragmas Q c w = (r, w')" "on c = (Some path, Some k)" "readable (files w path) (Some k)"
  shows "(files w' = files w \<or> files w' = (files w)(path := first_write (files w path) (Some k))) \<and> (\<forall>c'. r = Inr c' \<longrightarrow> on c' = on c)"
proof -
  define R where "R v v' \<longleftrightarrow> files v' = files v \<or> files v' = (files v)(path := first_write (files v path) (Some k))" for v v'
  have trans: "R v v''" if "R v v'" "R v' v''" for v v' v'' using that first_write_twice by (auto simp: R_def)
  have step: "R v v' \<and> (\<forall>d'. x = Inr d' \<longrightarrow> on d' = on d)"
    if ok: "eff_err Sqlite (sq_pragma Q d name val) v = (x, v')" "on d = on c" "name \<noteq> ''key''" for d name val v x v'
  proof -
    obtain y where y: "sq_pragma Q d name val v = (y, v')" "x = mapErr Sqlite y" using ok(1) by (auto simp: eff_err_iff)
    then show ?thesis using pragma_touched [OF ok(3) y(1)] ok(2) assms(2) by (auto simp: touched_def R_def)
  qed
  have "R w w' \<and> (\<forall>c'. r = Inr c' \<longrightarrow> on c' = on c)"
    using assms(1) unfolding tune_pragmas_def
    by (cases r) (auto simp: eff_bind_Inr eff_bind_Inl dest!: step intro: trans)
  then show ?thesis by (simp add: R_def)
qed

lemma apply_key_same:
  assumes "apply_key P Q c key w = (r, w')"
  shows "files w' = files w \<and> (\<forall>c'. r = Inr c' \<longrightarrow> length key = STORAGE_KEY_LEN \<and> on c' = (fst (on c), Some (key_pragma P key))) \<and>
    r \<noteq> Inl (LegacyPlaintextDatabase p)"
  using assms by (cases r) (auto simp: apply_key_def eff_err_iff dest!: key_same split: if_splits)

lemma db_open_tail:
  assumes "eff_bind (tune_pragmas Q d) (\<lambda>con. eff_bind (eff_err Migration (sq_migrate Q con)) (\<lambda>con.
      eff_return \<lparr> od_conn = con, od_path = Some path \<rparr>)) w = (r, w')"
    "on d = (Some path, Some k)" "readable (files w path) (Some k)"
  shows "(isOk r \<longrightarrow> files w' = (files w)(path := Keyed k)) \<and> (\<forall>p. r \<noteq> Inl (LegacyPlaintextDatabase p))"
proof -
  obtain x w1 where 1: "tune_pragmas Q d w = (x, w1)" by (metis prod.exhaust)
  note t = tune_touched [OF 1 assms(2,3)]
  have nopath: "x \<noteq> Inl (LegacyPlaintextDatabase p)" for p
    using 1 by (auto simp: tune_pragmas_def eff_bind_Inl eff_err_iff)
  show ?thesis
  proof (cases x)
    case (Inl e)
    then show ?thesis using assms(1) 1 nopath by (auto simp: eff_bind_def)
  next
    case (Inr c)
    obtain y w2 where 2: "sq_migrate Q c w1 = (y, w2)" by (metis prod.exhaust)
    have c: "on c = (Some path, Some k)" using t Inr assms(2) by simp
    note m = migrate_touched [OF 2, of path]
    show ?thesis
    proof (cases y)
      case (Inl e)
      then show ?thesis using assms(1) 1 2 \<open>x = Inr c\<close> by (auto simp: eff_bind_def eff_err_def)
    next
      case (Inr d')
      have "first_write (files w path) (Some k) = Keyed k" using assms(3) by (cases "files w path") auto
      then have "files w2 = (files w)(path := Keyed k)" using m t c Inr by (auto simp: touched_def)
      then show ?thesis using assms(1) 1 2 \<open>x = Inr c\<close> Inr by (auto simp: eff_bind_def eff_err_def)
    qed
  qed
qed

text \<open>Opening under a key: success only if the file can be read under it, and then the file is under it; a file under another key,
  without a key, or not a database is never written.\<close>

lemma db_open_files:
  assumes "db_open P Q path key w = (r, w')"
  shows "(isOk r \<longrightarrow> length key = STORAGE_KEY_LEN \<and> readable (files w path) (Some (key_pragma P key)) \<and>
      files w' = (files w)(path := Keyed (key_pragma P key))) \<and>
    (\<not> readable (files w path) (Some (key_pragma P key)) \<longrightarrow> files w' = files w) \<and>
    (\<forall>p. r = Inl (LegacyPlaintextDatabase p) \<longrightarrow> files w path = Unkeyed)"
proof -
  let ?k = "key_pragma P key"
  define parent :: "(storage_error, unit, 'w) step" where
    "parent = (case path_parent path of
         Some parent \<Rightarrow> if absolute parent \<or> parts parent \<noteq> [] then eff_err Io (sq_create_dir_all Q parent) else eff_return ()
       | None \<Rightarrow> eff_return ())"
  have par: "files v' = files v \<and> x \<noteq> Inl (LegacyPlaintextDatabase p)" if "parent v = (x, v')" for v x v' p
    using that by (cases x) (auto simp: parent_def eff_err_iff dest!: create_same split: option.splits if_splits)
  obtain x1 w1 where 1: "parent w = (x1, w1)" by (metis prod.exhaust)
  show ?thesis
  proof (cases x1)
    case (Inl e)
    then show ?thesis using assms par [OF 1] 1 unfolding db_open_def parent_def [symmetric] by (auto simp: eff_bind_def)
  next
    case (Inr u)
    obtain x2 w2 where 2: "sq_open Q (Some path) w1 = (x2, w2)" by (metis prod.exhaust)
    note o = open_same [OF 2]
    show ?thesis
    proof (cases x2)
      case (Inl e)
      then show ?thesis using assms par [OF 1] 1 \<open>x1 = Inr u\<close> 2 o unfolding db_open_def parent_def [symmetric]
        by (auto simp: eff_bind_def eff_err_def)
    next
      case (Inr c)
      obtain x3 w3 where 3: "apply_key P Q c key w2 = (x3, w3)" by (metis prod.exhaust)
      note key = apply_key_same [OF 3]
      show ?thesis
      proof (cases x3)
        case (Inl e)
        then show ?thesis using assms par [OF 1] 1 \<open>x1 = Inr u\<close> 2 o \<open>x2 = Inr c\<close> 3 key unfolding db_open_def parent_def [symmetric]
          by (auto simp: eff_bind_def eff_err_def)
      next
        case (Inr d)
        then have d: "on d = (Some path, Some ?k)" "length key = STORAGE_KEY_LEN" using key o \<open>x2 = Inr c\<close> by auto
        obtain x4 w4 where 4: "probe_or_classify Q path d w3 = (x4, w4)" by (metis prod.exhaust)
        note probe = probe_same [OF 4 d(1)]
        have same: "files w3 = files w" using par [OF 1] o key by simp
        show ?thesis
        proof (cases x4)
          case (Inl e)
          then show ?thesis using assms 1 \<open>x1 = Inr u\<close> 2 \<open>x2 = Inr c\<close> 3 \<open>x3 = Inr d\<close> 4 probe same unfolding db_open_def parent_def [symmetric]
            by (auto simp: eff_bind_def eff_err_def)
        next
          case (Inr v)
          then have read: "readable (files w path) (Some ?k)" "files w4 = files w" using probe same by auto
          have rest: "eff_bind (tune_pragmas Q d) (\<lambda>con. eff_bind (eff_err Migration (sq_migrate Q con)) (\<lambda>con.
              eff_return \<lparr> od_conn = con, od_path = Some path \<rparr>)) w4 = (r, w')"
            using assms 1 \<open>x1 = Inr u\<close> 2 \<open>x2 = Inr c\<close> 3 \<open>x3 = Inr d\<close> 4 \<open>x4 = Inr v\<close> unfolding db_open_def parent_def [symmetric]
            by (simp add: eff_bind_def eff_err_def)
          have "readable (files w4 path) (Some ?k)" using read by simp
          then show ?thesis using db_open_tail [OF rest d(1)] read d(2) by auto
        qed
      qed
    qed
  qed
qed

end

section \<open>A database to run on\<close>

definition demo_sqlite :: "(path option \<times> rstr option, path \<Rightarrow> db_file) sqlite" where
  "demo_sqlite = \<lparr> sq_create_dir_all = (\<lambda>_ w. (Inr (), w)), sq_open = (\<lambda>p w. (Inr (p, None), w)),
     sq_pragma = (\<lambda>c name v w. (Inr (fst c, if name = ''key'' then Some v else snd c), w)),
     sq_count_master = (\<lambda>c w. (case fst c of None \<Rightarrow> Inr ()
       | Some p \<Rightarrow> if readable (w p) (snd c) then Inr () else Inl ''file is not a database'', w)),
     sq_migrate = (\<lambda>c w. case fst c of None \<Rightarrow> (Inr c, w)
       | Some p \<Rightarrow> if readable (w p) (snd c) then (Inr c, w(p := first_write (w p) (snd c))) else (Inl ''unreadable'', w)) \<rparr>"

interpretation demo_db: sqlcipher demo_sqlite "\<lambda>c. c" "\<lambda>w. w"
  by unfold_locales (auto simp: demo_sqlite_def touched_def split: option.splits if_splits)

section \<open>Whose database it is\<close>

text \<open>C16: The database opens under its key only. When opening succeeds, the key has 32 bytes, the file was new or under this
  key, and it is under this key afterwards; a file under another key, without a key or of another kind is refused and not
  touched; and only a file without a key is reported as left over from an older build.\<close>

theorem database_key_guards:
  assumes "sqlcipher Q on files" "db_open P Q path key w = (r, w')"
  shows "(isOk r \<longrightarrow> length key = STORAGE_KEY_LEN \<and> files w path \<in> {NoFile, Keyed (key_pragma P key)} \<and>
      files w' = (files w)(path := Keyed (key_pragma P key))) \<and>
    (files w path \<notin> {NoFile, Keyed (key_pragma P key)} \<longrightarrow> \<not> isOk r \<and> files w' = files w) \<and>
    (\<forall>p. r = Inl (LegacyPlaintextDatabase p) \<longrightarrow> files w path = Unkeyed)"
  using sqlcipher.db_open_files [OF assms] by (cases "files w path") auto

theorem database_key_guards_witness:
  "(case db_open demo_prims demo_sqlite (path_from (ascii ''/d'')) (replicate 32 1) (\<lambda>_. Unkeyed) of (r, w') \<Rightarrow>
     \<not> isOk r \<and> w' = (\<lambda>_. Unkeyed))"
proof -
  obtain r w' where o: "db_open demo_prims demo_sqlite (path_from (ascii ''/d'')) (replicate 32 1) (\<lambda>_. Unkeyed) = (r, w')"
    by (metis prod.exhaust)
  show ?thesis using database_key_guards [OF demo_db.sqlcipher_axioms o] o by simp
qed

lemma key_pragma_inj: "hex_codec P S \<Longrightarrow> key_pragma P a = key_pragma P b \<Longrightarrow> a = b"
  by (auto simp: key_pragma_def hex_codec_def) (metis sum.inject(2))

text \<open>What the construction of a client says of the file, under the key of its passphrase.\<close>

lemma open_client_files:
  fixes Q :: "('c, 'w) sqlite"
  assumes "sqlcipher Q on files" "open_client P Q tables (Some path) config w = (r, w')"
    "from_passphrase P (cfg_passphrase config) (cfg_kdf_salt config) = Inr crypto"
  shows "(isOk r \<longrightarrow> files w' path = Keyed (key_pragma P (derive_storage_key P crypto))) \<and>
    (\<forall>k. trim (cfg_username config) \<noteq> [] \<longrightarrow> trim (cfg_domain config) \<noteq> [] \<longrightarrow> files w path = Keyed k \<longrightarrow>
       k \<noteq> key_pragma P (derive_storage_key P crypto) \<longrightarrow>
       (\<exists>e. r = Inl (Storage e) \<and> (\<forall>p. e \<noteq> LegacyPlaintextDatabase p)) \<and> files w' = files w)"
proof (cases "trim (cfg_username config) = [] \<or> trim (cfg_domain config) = []")
  case True
  then have "\<not> isOk r" using assms(2) by (auto simp: open_client_def split: if_splits)
  with True show ?thesis by blast
next
  case False
  let ?key = "derive_storage_key P crypto"
  define rest where "rest = (\<lambda>a :: 'c opened_db. eff_bind (eff_err Storage (db_open P Q path ?key)) (\<lambda>b.
      eff_bind (eff_err Storage (db_open P Q path ?key)) (\<lambda>c.
      eff_bind (eff_err Storage (db_open P Q path ?key)) (\<lambda>d w.
        (client_new P (\<lambda>_. Inr (tables w (od_conn a, od_conn b, od_conn c, od_conn d))) config, w)))))"
  have run: "eff_bind (eff_err Storage (db_open P Q path ?key)) rest w = (r, w')"
    using assms(2,3) False by (simp add: open_client_def open_store_def Let_def rest_def eff_bind_def [of "eff_lift _"])
  obtain x w1 where 1: "db_open P Q path ?key w = (x, w1)" by (metis prod.exhaust)
  note first = sqlcipher.db_open_files [OF assms(1) 1]
  have ok: "files w' path = Keyed (key_pragma P ?key)" if "r = Inr self" for self
  proof -
    from run that obtain a v where a: "rest a v = (Inr self, w')" by (auto simp: eff_bind_Inr)
    then obtain d v1 v2 where "db_open P Q path ?key v1 = (Inr d, v2)" "v2 = w'"
      by (auto simp: rest_def eff_bind_Inr eff_err_Inr)
    then show ?thesis using sqlcipher.db_open_files [OF assms(1), of P path ?key v1 "Inr d" v2] by simp
  qed
  have other: "(\<exists>e. r = Inl (Storage e) \<and> (\<forall>p. e \<noteq> LegacyPlaintextDatabase p)) \<and> files w' = files w"
    if "files w path = Keyed k" "k \<noteq> key_pragma P ?key" for k
  proof (cases x)
    case (Inl e)
    then show ?thesis using first that 1 run by (auto simp: eff_bind_def eff_err_def)
  qed (use first that in auto)
  show ?thesis using ok other by (cases r) auto
qed

text \<open>C17: A passphrase that derives another storage key cannot open the database again. After a client has been opened, its file
  is under the key of its passphrase; opening it under the passphrase of another identity fails with an error of the storage
  and leaves the file alone. Nothing moves the file to another key, so after a rotation of the identity the new passphrase,
  which the command line asks for, does not open it.\<close>

theorem rotation_locks_database:
  assumes "sqlcipher Q on files" "hex_codec P S"
    "open_client P Q tables (Some path) config w = (Inr self, w1)"
    "from_passphrase P (cfg_passphrase config) (cfg_kdf_salt config) = Inr old_crypto"
    "from_passphrase P new_passphrase (cfg_kdf_salt config) = Inr new_crypto"
    "derive_storage_key P new_crypto \<noteq> derive_storage_key P old_crypto"
    "files w2 path = files w1 path"
    "open_client P Q tables (Some path) (config\<lparr>cfg_passphrase := new_passphrase\<rparr>) w2 = (r, w3)"
  shows "(\<exists>e. r = Inl (Storage e) \<and> (\<forall>p. e \<noteq> LegacyPlaintextDatabase p)) \<and> files w3 = files w2"
proof -
  have "trim (cfg_username config) \<noteq> []" "trim (cfg_domain config) \<noteq> []"
    using assms(3) by (auto simp: open_client_def split: if_splits)
  moreover have "files w2 path = Keyed (key_pragma P (derive_storage_key P old_crypto))"
    using open_client_files [OF assms(1,3,4)] assms(7) by simp
  moreover have "key_pragma P (derive_storage_key P old_crypto) \<noteq> key_pragma P (derive_storage_key P new_crypto)"
    using key_pragma_inj [OF assms(2)] assms(6) by metis
  ultimately show ?thesis using open_client_files [OF assms(1,8)] assms(5) by simp
qed

lemma demo_db_open:
  assumes "length key = STORAGE_KEY_LEN" "readable (w path) (Some (key_pragma demo_prims key))" "path_parent path = Some parent"
  shows "db_open demo_prims demo_sqlite path key w =
    (Inr \<lparr> od_conn = (Some path, Some (key_pragma demo_prims key)), od_path = Some path \<rparr>, w(path := Keyed (key_pragma demo_prims key)))"
proof -
  have "first_write (w path) (Some (key_pragma demo_prims key)) = Keyed (key_pragma demo_prims key)"
    using assms(2) by (cases "w path") auto
  then show ?thesis using assms
    by (simp add: db_open_def eff_bind_def eff_err_def apply_key_def probe_or_classify_def probe_readable_def tune_pragmas_def demo_sqlite_def)
qed

definition demo_config :: client_config where
  "demo_config = \<lparr> cfg_username = ascii ''bob'', cfg_passphrase = [1], cfg_domain = ascii ''b.x'', cfg_kdf_salt = Some (replicate 8 9),
     cfg_rotation_chain_enabled = False \<rparr>"

definition demo_tables :: "(path \<Rightarrow> db_file) \<Rightarrow> 'c \<Rightarrow> prekey_table \<times> contact_table \<times> replay_table \<times> intro_queue" where
  "demo_tables w c = ([], [], [], \<lparr> iq_rows = [], iq_sequence = 0, iq_denylist = [] \<rparr>)"

theorem rotation_locks_database_witness:
  "(let d = path_from (ascii ''/d'');
        w1 = snd (open_client demo_prims demo_sqlite demo_tables (Some d) demo_config (\<lambda>_. NoFile))
    in isOk (fst (open_client demo_prims demo_sqlite demo_tables (Some d) demo_config (\<lambda>_. NoFile))) \<and>
      \<not> isOk (fst (open_client demo_prims demo_sqlite demo_tables (Some d) (demo_config\<lparr>cfg_passphrase := [2]\<rparr>) w1)))"
proof -
  let ?d = "path_from (ascii ''/d'')"
  let ?open = "open_client demo_prims demo_sqlite demo_tables (Some ?d)"
  let ?crypto = "\<lambda>p. from_passphrase demo_prims [p] (Some (replicate 8 9))"
  have parent: "path_parent ?d = Some \<lparr> absolute = True, parts = [] \<rparr>" by code_simp
  have names: "trim (ascii ''bob'') = ascii ''bob''" "trim (ascii ''b.x'') = ascii ''b.x''"
    by (rule trim_id; simp add: is_ascii_def is_whitespace_def ascii_def ch_def)+
  obtain c1 c2 where c: "?crypto 1 = Inr c1" "?crypto 2 = Inr c2"
    "length (derive_storage_key demo_prims c1) = STORAGE_KEY_LEN" "derive_storage_key demo_prims c2 \<noteq> derive_storage_key demo_prims c1"
    by (simp add: from_passphrase_def from_private_bytes_def demo_prims_def demo_hash_def X25519_KEY_LEN_def derive_storage_key_def
        STORAGE_KEY_LEN_def resize_def Let_def)
  have ok: "\<exists>self w1. ?open demo_config (\<lambda>_. NoFile) = (Inr self, w1)"
    using c parent names
    by (simp add: open_client_def open_store_def demo_config_def eff_bind_def eff_err_def demo_db_open client_new_def Let_def demo_tables_def ascii_def)
  then obtain self w1 where 1: "?open demo_config (\<lambda>_. NoFile) = (Inr self, w1)" by blast
  obtain r w3 where 2: "?open (demo_config\<lparr>cfg_passphrase := [2]\<rparr>) w1 = (r, w3)" by (metis prod.exhaust)
  have "\<exists>e. r = Inl (Storage e)"
    using rotation_locks_database [OF demo_db.sqlcipher_axioms demo_hex_codec 1 _ _ c(4) refl 2] c(1,2) by (simp add: demo_config_def) blast
  then show ?thesis by (auto simp: Let_def 1 2)
qed

end
