(* ===== verification/HttpWriters.thy ===== *)
theory HttpWriters
  imports RecordStore
begin

text \<open>
  The writers over an HTTP API: \<open>cloudflare.rs\<close> and \<open>node_token.rs\<close>. The HTTP client, the check of header values and the
  decoding of JSON bodies are the fields of \<open>http_api\<close>; a request carries the struct that is given to \<open>json()\<close>. What
  Cloudflare's service does is not code of the program: the predicate \<open>cloudflare_zone\<close> states its documented behaviour over
  an abstract zone. The locale \<open>txt_writer\<close> is the contract of a writer that the callers rely on: an accepted value
  stands under its name, and other names are left alone.
\<close>

section \<open>Requests\<close>

datatype http_method = GET | POST | PUT | DELETE

record write_record =
  wr_type :: rstr
  wr_name :: rstr
  wr_content :: rstr
  wr_ttl :: u32
  wr_proxied :: bool

datatype http_body = NoBody | WriteRecord write_record | PublishBody rstr u32 | DeleteBody rstr

type_synonym headers = "(rstr \<times> rstr) list"

record http_request =
  hr_method :: http_method
  hr_url :: rstr
  hr_query :: "(rstr \<times> rstr) list"
  hr_headers :: headers
  hr_body :: http_body

record http_response =
  hs_status :: nat
  hs_text :: bytes

text \<open>The settings of \<open>reqwest::Client::builder\<close>; the timeout is in milliseconds.\<close>

record http_client =
  hc_timeout :: nat
  hc_redirects :: bool
  hc_https_only :: bool

record dns_record =
  dr_id :: rstr

record list_response =
  lr_success :: bool
  lr_result :: "dns_record list"

record write_response =
  ws_success :: bool

record 'w http_api =
  ha_header_value :: "rstr \<Rightarrow> string + rstr"
  ha_build :: "http_client \<Rightarrow> string + unit"
  ha_send :: "http_client \<Rightarrow> http_request \<Rightarrow> 'w \<Rightarrow> (string + http_response) \<times> 'w"
  ha_list_json :: "bytes \<Rightarrow> string + list_response"
  ha_write_json :: "bytes \<Rightarrow> string + write_response"

definition is_success :: "nat \<Rightarrow> bool" where
  "is_success status \<longleftrightarrow> 200 \<le> status \<and> status < 300"

text \<open>The body of \<open>api_base_is_loopback_http\<close> and of \<open>endpoint_is_loopback_http\<close>, which have the same text.\<close>

definition api_base_is_loopback_http :: "rstr \<Rightarrow> bool" where
  "api_base_is_loopback_http base =
     (case strip_prefix (ascii ''http://'') base of
        None \<Rightarrow> False
      | Some rest \<Rightarrow>
          let h = (case split_once (ch CHR ''/'') rest of None \<Rightarrow> rest | Some (h, _) \<Rightarrow> h);
              host = (case split_once (ch CHR '':'') h of None \<Rightarrow> rest | Some (h, _) \<Rightarrow> h)
          in host \<in> {ascii ''127.0.0.1'', ascii ''[::1]'', ascii ''::1'', ascii ''localhost''})"

definition endpoint_is_loopback_http :: "rstr \<Rightarrow> bool" where
  "endpoint_is_loopback_http endpoint =
     (case strip_prefix (ascii ''http://'') endpoint of
        None \<Rightarrow> False
      | Some rest \<Rightarrow>
          let h = (case split_once (ch CHR ''/'') rest of None \<Rightarrow> rest | Some (h, _) \<Rightarrow> h);
              host = (case split_once (ch CHR '':'') h of None \<Rightarrow> rest | Some (h, _) \<Rightarrow> h)
          in host \<in> {ascii ''127.0.0.1'', ascii ''[::1]'', ascii ''::1'', ascii ''localhost''})"

definition bearer_headers :: "'w http_api \<Rightarrow> string \<Rightarrow> rstr \<Rightarrow> net_error + headers" where
  "bearer_headers H what token =
     andThen (mapErr (\<lambda>e. InvalidConfig (what @ '' unencodable as header: '' @ e))
         (ha_header_value H (ascii ''Bearer '' @ token)))
       (\<lambda>auth_value. Inr [(ascii ''authorization'', auth_value), (ascii ''content-type'', ascii ''application/json'')])"

section \<open>Cloudflare\<close>

record cloudflare_config =
  cc_zone_id :: rstr
  cc_api_token :: rstr
  cc_api_base :: "rstr option"
  cc_request_timeout :: nat

definition cloudflare_config_new :: "rstr \<Rightarrow> rstr \<Rightarrow> cloudflare_config" where
  "cloudflare_config_new zone_id api_token =
     \<lparr> cc_zone_id = zone_id, cc_api_token = api_token, cc_api_base = None, cc_request_timeout = 10000 \<rparr>"

record cloudflare_publisher =
  cp_client :: http_client
  cp_base_url :: rstr
  cp_headers :: headers

definition is_ascii_hexdigit :: "nat \<Rightarrow> bool" where
  "is_ascii_hexdigit c \<longleftrightarrow> 48 \<le> c \<and> c \<le> 57 \<or> 65 \<le> c \<and> c \<le> 70 \<or> 97 \<le> c \<and> c \<le> 102"

definition cloudflare_new :: "'w http_api \<Rightarrow> cloudflare_config \<Rightarrow> net_error + cloudflare_publisher" where
  "cloudflare_new H config =
     (let zone_id = trim (cc_zone_id config) in
      if \<not> (length zone_id = 32 \<and> list_all is_ascii_hexdigit (chars zone_id)) then
        Inl (InvalidConfig ''cloudflare zone_id must be 32 hex chars'')
      else
        let api_base = unwrap_or (cc_api_base config) (ascii ''https://api.cloudflare.com'');
            scheme_is_loopback_http = api_base_is_loopback_http api_base in
        if \<not> starts_with (ascii ''https://'') api_base \<and> \<not> scheme_is_loopback_http then
          Inl (InvalidConfig ''cloudflare api_base must be https:// (or http:// to a loopback for tests)'')
        else
          let base_url = api_base @ ascii ''/client/v4/zones/'' @ zone_id @ ascii ''/dns_records'';
              client = \<lparr> hc_timeout = cc_request_timeout config, hc_redirects = False,
                hc_https_only = (\<not> scheme_is_loopback_http) \<rparr> in
          andThen (bearer_headers H ''api_token'' (cc_api_token config)) (\<lambda>headers.
          andThen (mapErr (\<lambda>e. InvalidConfig (''cloudflare http client: '' @ e)) (ha_build H client)) (\<lambda>_.
            Inr \<lparr> cp_client = client, cp_base_url = base_url, cp_headers = headers \<rparr>)))"

text \<open>\<open>find_record\<close>: a GET does change the state of the world, so the new world is returned too.\<close>

definition find_request :: "cloudflare_publisher \<Rightarrow> rstr \<Rightarrow> http_request" where
  "find_request self name = \<lparr> hr_method = GET, hr_url = cp_base_url self,
     hr_query = [(ascii ''name'', name), (ascii ''type'', ascii ''TXT'')], hr_headers = cp_headers self, hr_body = NoBody \<rparr>"

definition find_record :: "'w http_api \<Rightarrow> cloudflare_publisher \<Rightarrow> rstr \<Rightarrow> 'w \<Rightarrow> (net_error + dns_record option) \<times> 'w" where
  "find_record H self name w =
     (case ha_send H (cp_client self) (find_request self name) w of
        (Inl e, w) \<Rightarrow> (Inl (Transport (''cloudflare GET: '' @ e)), w)
      | (Inr resp, w) \<Rightarrow>
          (if \<not> is_success (hs_status resp) then Inl (Transport ''cloudflare GET status'')
           else case ha_list_json H (hs_text resp) of
             Inl e \<Rightarrow> Inl (Transport (''cloudflare GET decode: '' @ e))
           | Inr body \<Rightarrow>
               if \<not> lr_success body then Inl (Transport ''cloudflare GET unsuccessful'')
               else Inr (case lr_result body of [] \<Rightarrow> None | r # _ \<Rightarrow> Some r), w))"

text \<open>The response of a PUT, POST or DELETE: its status is reported and not checked, the flag of its body decides.\<close>

definition written :: "'w http_api \<Rightarrow> string \<Rightarrow> string + http_response \<Rightarrow> net_error + bool" where
  "written H what answer =
     (case answer of
        Inl e \<Rightarrow> Inl (Transport (''cloudflare '' @ what @ '': '' @ e))
      | Inr resp \<Rightarrow>
          (case ha_write_json H (hs_text resp) of
             Inl e \<Rightarrow> Inl (Transport (''cloudflare '' @ what @ '' decode: '' @ e))
           | Inr body \<Rightarrow>
               if \<not> ws_success body then Inl (Transport (''cloudflare '' @ what @ '' unsuccessful'')) else Inr True))"

definition write_request :: "cloudflare_publisher \<Rightarrow> rstr \<Rightarrow> rstr \<Rightarrow> u32 \<Rightarrow> dns_record option \<Rightarrow> http_request" where
  "write_request self name v ttl_seconds existing =
     (let payload = \<lparr> wr_type = ascii ''TXT'', wr_name = name, wr_content = v, wr_ttl = max ttl_seconds 60, wr_proxied = False \<rparr>
      in case existing of
        Some rec \<Rightarrow> \<lparr> hr_method = PUT, hr_url = cp_base_url self @ ascii ''/'' @ dr_id rec, hr_query = [],
          hr_headers = cp_headers self, hr_body = WriteRecord payload \<rparr>
      | None \<Rightarrow> \<lparr> hr_method = POST, hr_url = cp_base_url self, hr_query = [],
          hr_headers = cp_headers self, hr_body = WriteRecord payload \<rparr>)"

definition cloudflare_publish ::
    "'w http_api \<Rightarrow> cloudflare_publisher \<Rightarrow> rstr \<Rightarrow> rstr \<Rightarrow> u32 \<Rightarrow> 'w \<Rightarrow> (net_error + bool) \<times> 'w" where
  "cloudflare_publish H self name v ttl_seconds w =
     (case find_record H self name w of
        (Inl e, w) \<Rightarrow> (Inl e, w)
      | (Inr existing, w) \<Rightarrow>
          (case ha_send H (cp_client self) (write_request self name v ttl_seconds existing) w of
             (answer, w) \<Rightarrow> (written H ''write'' answer, w)))"

definition delete_request :: "cloudflare_publisher \<Rightarrow> dns_record \<Rightarrow> http_request" where
  "delete_request self rec = \<lparr> hr_method = DELETE, hr_url = cp_base_url self @ ascii ''/'' @ dr_id rec, hr_query = [],
     hr_headers = cp_headers self, hr_body = NoBody \<rparr>"

definition cloudflare_delete ::
    "'w http_api \<Rightarrow> cloudflare_publisher \<Rightarrow> rstr \<Rightarrow> rstr option \<Rightarrow> 'w \<Rightarrow> (net_error + bool) \<times> 'w" where
  "cloudflare_delete H self name v w =
     (case find_record H self name w of
        (Inl e, w) \<Rightarrow> (Inl e, w)
      | (Inr None, w) \<Rightarrow> (Inr True, w)
      | (Inr (Some rec), w) \<Rightarrow>
          (case ha_send H (cp_client self) (delete_request self rec) w of
             (answer, w) \<Rightarrow> (written H ''DELETE'' answer, w)))"

section \<open>A node's bearer-token endpoint\<close>

record node_token_config =
  nt_endpoint :: rstr
  nt_token :: rstr
  nt_request_timeout :: nat

definition node_token_config_new :: "rstr \<Rightarrow> rstr \<Rightarrow> node_token_config" where
  "node_token_config_new endpoint token = \<lparr> nt_endpoint = endpoint, nt_token = token, nt_request_timeout = 10000 \<rparr>"

record node_token_publisher =
  np_client :: http_client
  np_base :: rstr
  np_headers :: headers

definition node_token_new :: "'w http_api \<Rightarrow> node_token_config \<Rightarrow> net_error + node_token_publisher" where
  "node_token_new H config =
     (let endpoint = trim_end_matches (ch CHR ''/'') (nt_endpoint config);
          scheme_loopback_http = endpoint_is_loopback_http endpoint in
      if \<not> starts_with (ascii ''https://'') endpoint \<and> \<not> scheme_loopback_http then
        Inl (InvalidConfig ''node endpoint must be https:// (or http:// to a loopback for tests)'')
      else
        let client = \<lparr> hc_timeout = nt_request_timeout config, hc_redirects = False,
              hc_https_only = (\<not> scheme_loopback_http) \<rparr> in
        andThen (bearer_headers H ''token'' (nt_token config)) (\<lambda>headers.
        andThen (mapErr (\<lambda>e. InvalidConfig (''node-token http client: '' @ e)) (ha_build H client)) (\<lambda>_.
          Inr \<lparr> np_client = client, np_base = endpoint, np_headers = headers \<rparr>)))"

definition record_url :: "node_token_publisher \<Rightarrow> rstr \<Rightarrow> rstr" where
  "record_url self name = np_base self @ ascii ''/v1/records/'' @ name"

definition node_publish ::
    "'w http_api \<Rightarrow> node_token_publisher \<Rightarrow> rstr \<Rightarrow> rstr \<Rightarrow> u32 \<Rightarrow> 'w \<Rightarrow> (net_error + bool) \<times> 'w" where
  "node_publish H self name v ttl_seconds w =
     (case ha_send H (np_client self) \<lparr> hr_method = POST, hr_url = record_url self name, hr_query = [],
          hr_headers = np_headers self, hr_body = PublishBody v ttl_seconds \<rparr> w of
        (Inl e, w) \<Rightarrow> (Inl (Transport (''node-token POST: '' @ e)), w)
      | (Inr resp, w) \<Rightarrow> (if hs_status resp = 201 then Inr True else Inl (Transport ''node-token publish failed''), w))"

definition node_delete ::
    "'w http_api \<Rightarrow> node_token_publisher \<Rightarrow> rstr \<Rightarrow> rstr option \<Rightarrow> 'w \<Rightarrow> (net_error + bool) \<times> 'w" where
  "node_delete H self name value w =
     (case ha_send H (np_client self) \<lparr> hr_method = DELETE, hr_url = record_url self name, hr_query = [],
          hr_headers = np_headers self, hr_body = (case value of None \<Rightarrow> NoBody | Some v \<Rightarrow> DeleteBody v) \<rparr> w of
        (Inl e, w) \<Rightarrow> (Inl (Transport (''node-token DELETE: '' @ e)), w)
      | (Inr resp, w) \<Rightarrow>
          (if hs_status resp = 204 \<or> hs_status resp = 404 then Inr True else Inl (Transport ''node-token delete failed''), w))"

section \<open>Which hosts get the token\<close>

definition loopback_form :: "rstr \<Rightarrow> bool" where
  "loopback_form base \<longleftrightarrow> (\<exists>host. host \<in> {ascii ''127.0.0.1'', ascii ''localhost''} \<and>
     (base = ascii ''http://'' @ host \<or> (\<exists>r. base = ascii ''http://'' @ host @ ch CHR '':'' # r)))"

lemma loopback_literals:
  "ch CHR '':'' \<notin> set (ascii ''127.0.0.1'')" "ch CHR ''/'' \<notin> set (ascii ''127.0.0.1'')"
  "ch CHR '':'' \<notin> set (ascii ''localhost'')" "ch CHR ''/'' \<notin> set (ascii ''localhost'')"
  "ch CHR '':'' \<in> set (ascii ''[::1]'')" "ch CHR '':'' \<in> set (ascii ''::1'')" "ch CHR ''/'' \<noteq> ch CHR '':''"
  by (simp_all add: ascii_def ch_def)

lemma split_host:
  assumes "ch CHR '':'' \<notin> set host" "ch CHR ''/'' \<notin> set host"
  shows "split_once (ch CHR '':'') (host @ ch CHR '':'' # r) = Some (host, r)"
    "\<exists>h'. (case split_once (ch CHR ''/'') (host @ ch CHR '':'' # r) of None \<Rightarrow> host @ ch CHR '':'' # r | Some (h, _) \<Rightarrow> h) =
       host @ ch CHR '':'' # h'"
proof -
  show "split_once (ch CHR '':'') (host @ ch CHR '':'' # r) = Some (host, r)" using assms by (simp add: split_once_Some)
  show "\<exists>h'. (case split_once (ch CHR ''/'') (host @ ch CHR '':'' # r) of None \<Rightarrow> host @ ch CHR '':'' # r | Some (h, _) \<Rightarrow> h) =
       host @ ch CHR '':'' # h'"
  proof (cases "split_once (ch CHR ''/'') r")
    case None
    then have "split_once (ch CHR ''/'') (host @ ch CHR '':'' # r) = None"
      using assms(2) loopback_literals(7) by (simp add: split_once_None)
    then show ?thesis by simp
  next
    case (Some a)
    then obtain u v where r: "r = u @ ch CHR ''/'' # v" "ch CHR ''/'' \<notin> set u" by (cases a) (auto simp: split_once_Some)
    have "split_once (ch CHR ''/'') (host @ ch CHR '':'' # r) = Some (host @ ch CHR '':'' # u, v)"
      using assms(2) loopback_literals(7) r by (simp add: split_once_Some)
    then show ?thesis by simp
  qed
qed

lemma loopback_check: "api_base_is_loopback_http base \<longleftrightarrow> loopback_form base"
proof
  assume a: "api_base_is_loopback_http base"
  then obtain rest where base: "base = ascii ''http://'' @ rest"
    by (auto simp: api_base_is_loopback_http_def simp del: append_Cons split: option.splits)
  define h where "h = (case split_once (ch CHR ''/'') rest of None \<Rightarrow> rest | Some (h, _) \<Rightarrow> h)"
  have pre: "\<exists>t. rest = h @ t"
    by (auto simp: h_def split_once_Some split: option.splits)
  define host where "host = (case split_once (ch CHR '':'') h of None \<Rightarrow> rest | Some (h, _) \<Rightarrow> h)"
  have mem: "host \<in> {ascii ''127.0.0.1'', ascii ''[::1]'', ascii ''::1'', ascii ''localhost''}"
    using a unfolding api_base_is_loopback_http_def base h_def host_def Let_def
    by (simp add: strip_prefix_def)
  show "loopback_form base"
  proof (cases "split_once (ch CHR '':'') h")
    case None
    then have "host = rest" "ch CHR '':'' \<notin> set h" using split_once_None [of "ch CHR '':''" h] by (simp_all add: host_def)
    show ?thesis
    proof (cases "split_once (ch CHR ''/'') rest")
      case None
      then have "h = rest" by (simp add: h_def)
      then have "host \<in> {ascii ''127.0.0.1'', ascii ''localhost''}"
        using mem \<open>host = rest\<close> \<open>ch CHR '':'' \<notin> set h\<close> loopback_literals(5,6) by auto
      then show ?thesis using base \<open>host = rest\<close> by (auto simp: loopback_form_def)
    next
      case (Some x)
      then have "ch CHR ''/'' \<in> set rest" by (cases x) (auto simp: split_once_Some)
      moreover have "ch CHR ''/'' \<notin> set (ascii ''[::1]'')" "ch CHR ''/'' \<notin> set (ascii ''::1'')" by (simp_all add: ascii_def ch_def)
      ultimately show ?thesis using mem \<open>host = rest\<close> loopback_literals(2,4) by auto
    qed
  next
    case (Some x)
    then have x: "x = (host, snd x)" by (cases x) (simp add: host_def)
    define r where "r = snd x"
    have h: "h = host @ ch CHR '':'' # r" "ch CHR '':'' \<notin> set host"
      using Some x split_once_Some [of "ch CHR '':''" h host r] by (simp_all add: r_def)
    then have "host \<in> {ascii ''127.0.0.1'', ascii ''localhost''}" using mem loopback_literals(5,6) by auto
    moreover obtain t where "rest = host @ ch CHR '':'' # r @ t" using pre h(1) by auto
    ultimately show ?thesis using base by (auto simp: loopback_form_def)
  qed
next
  assume "loopback_form base"
  then obtain host where host: "host \<in> {ascii ''127.0.0.1'', ascii ''localhost''}"
    and base: "base = ascii ''http://'' @ host \<or> (\<exists>r. base = ascii ''http://'' @ host @ ch CHR '':'' # r)"
    by (auto simp: loopback_form_def)
  have no: "ch CHR '':'' \<notin> set host" "ch CHR ''/'' \<notin> set host" using host loopback_literals by auto
  from base show "api_base_is_loopback_http base"
  proof (elim disjE exE)
    assume b: "base = ascii ''http://'' @ host"
    have "split_once (ch CHR ''/'') host = None" "split_once (ch CHR '':'') host = None" using no by (simp_all add: split_once_None)
    then show ?thesis using host by (auto simp: api_base_is_loopback_http_def b strip_prefix_def)
  next
    fix r assume b: "base = ascii ''http://'' @ host @ ch CHR '':'' # r"
    obtain h' where h': "(case split_once (ch CHR ''/'') (host @ ch CHR '':'' # r) of None \<Rightarrow> host @ ch CHR '':'' # r | Some (h, _) \<Rightarrow> h) =
       host @ ch CHR '':'' # h'"
      using split_host(2) [OF no, of r] by blast
    show ?thesis unfolding api_base_is_loopback_http_def b Let_def
      using host split_host(1) [OF no, of h'] by (auto simp: strip_prefix_def h')
  qed
qed

lemma same_check: "endpoint_is_loopback_http = api_base_is_loopback_http"
  by (simp add: fun_eq_iff endpoint_is_loopback_http_def api_base_is_loopback_http_def)

section \<open>What is sent\<close>

text \<open>Scheme and authority of a URL as the HTTP client reads it: slashes and backslashes after the scheme are skipped, and
  the authority ends at the next of them, a question mark or a number sign. A URL with no authority has no origin.\<close>

definition slash :: "byte \<Rightarrow> bool" where
  "slash b \<longleftrightarrow> b = ch CHR ''/'' \<or> b = 92"

definition authority :: "rstr \<Rightarrow> rstr" where
  "authority rest = takeWhile (\<lambda>b. \<not> slash b \<and> b \<noteq> ch CHR ''?'' \<and> b \<noteq> ch CHR ''#'') (dropWhile slash rest)"

definition url_origin :: "rstr \<Rightarrow> (rstr \<times> rstr) option" where
  "url_origin url =
     (case (strip_prefix (ascii ''https://'') url, strip_prefix (ascii ''http://'') url) of
        (Some rest, _) \<Rightarrow> if authority rest = [] then None else Some (ascii ''https'', authority rest)
      | (None, Some rest) \<Rightarrow> if authority rest = [] then None else Some (ascii ''http'', authority rest)
      | (None, None) \<Rightarrow> None)"

lemma authority_append: "authority rest \<noteq> [] \<Longrightarrow> authority (rest @ ch CHR ''/'' # tl') = authority rest"
proof -
  assume some: "authority rest \<noteq> []"
  then have "dropWhile slash rest \<noteq> []" by (auto simp: authority_def simp del: dropWhile_eq_Nil_conv)
  then have "\<exists>b \<in> set rest. \<not> slash b" by simp
  then have "dropWhile slash (rest @ ch CHR ''/'' # tl') = dropWhile slash rest @ ch CHR ''/'' # tl'"
    by (auto simp: dropWhile_append)
  then show ?thesis unfolding authority_def by (simp add: takeWhile_tail slash_def)
qed

lemma strip_prefix_append: "strip_prefix p s = Some rest \<Longrightarrow> strip_prefix p (s @ t) = Some (rest @ t)"
  by simp

lemma url_origin_append:
  assumes "url_origin base = Some org"
  shows "url_origin (base @ ch CHR ''/'' # tl') = Some org"
proof -
  have not_both: "strip_prefix (ascii ''http://'') s = None" if "strip_prefix (ascii ''https://'') s = Some rest" for s rest
    using that by (auto simp: strip_prefix_def [of "[104, 116, 116, 112, 58, 47, 47]"] ascii_def ch_def)
  consider rest where "strip_prefix (ascii ''https://'') base = Some rest"
    | rest where "strip_prefix (ascii ''https://'') base = None" "strip_prefix (ascii ''http://'') base = Some rest"
    using assms by (auto simp: url_origin_def split: option.splits)
  then show ?thesis
  proof cases
    case 1
    then show ?thesis using assms by (simp add: url_origin_def strip_prefix_append authority_append split: if_splits)
  next
    case 2
    have "strip_prefix (ascii ''https://'') (base @ tl') = None" for tl'
      using not_both [of "base @ tl'"] strip_prefix_append [OF 2(2), of tl'] by (cases "strip_prefix (ascii ''https://'') (base @ tl')") auto
    then show ?thesis using assms 2 by (simp add: url_origin_def strip_prefix_append authority_append split: if_splits)
  qed
qed

text \<open>The same HTTP client with a log of the requests that it is given, each with the settings of its client.\<close>

type_synonym request_log = "(http_client \<times> http_request) list"

definition logged :: "'w http_api \<Rightarrow> ('w \<times> request_log) http_api" where
  "logged H = \<lparr> ha_header_value = ha_header_value H, ha_build = ha_build H,
     ha_send = (\<lambda>client rq (w, sent). case ha_send H client rq w of (answer, w) \<Rightarrow> (answer, w, sent @ [(client, rq)])),
     ha_list_json = ha_list_json H, ha_write_json = ha_write_json H \<rparr>"

definition requests :: "('w \<times> request_log \<Rightarrow> 'r \<times> 'w \<times> request_log) \<Rightarrow> 'w \<Rightarrow> request_log" where
  "requests operation w = snd (snd (operation (w, [])))"

lemma logged_fields [simp]:
  "ha_header_value (logged H) = ha_header_value H" "ha_list_json (logged H) = ha_list_json H" "ha_write_json (logged H) = ha_write_json H"
  "ha_send (logged H) client rq (w, sent) = (case ha_send H client rq w of (answer, w) \<Rightarrow> (answer, w, sent @ [(client, rq)]))"
  by (simp_all add: logged_def)

lemma written_logged [simp]: "written (logged H) = written H"
  by (auto simp: written_def fun_eq_iff split: sum.split)

text \<open>The log changes neither the result of an operation nor the world.\<close>

lemma logged_same:
  "map_prod id fst (cloudflare_publish (logged H) p n v ttl (w, sent)) = cloudflare_publish H p n v ttl w"
  "map_prod id fst (cloudflare_delete (logged H) p n x (w, sent)) = cloudflare_delete H p n x w"
  "map_prod id fst (node_publish (logged H) q n v ttl (w, sent)) = node_publish H q n v ttl w"
  "map_prod id fst (node_delete (logged H) q n x (w, sent)) = node_delete H q n x w"
  by (simp_all add: cloudflare_publish_def cloudflare_delete_def node_publish_def node_delete_def find_record_def
      split: sum.split prod.split option.split)

text \<open>Which requests the four operations send.\<close>

lemma cloudflare_requests:
  assumes "(client, rq) \<in> set (requests (cloudflare_publish (logged H) p n v ttl) w) \<or>
    (client, rq) \<in> set (requests (cloudflare_delete (logged H) p n x) w)"
  shows "client = cp_client p \<and> hr_headers rq = cp_headers p \<and>
    (hr_url rq = cp_base_url p \<or> (\<exists>i. hr_url rq = cp_base_url p @ ch CHR ''/'' # i))"
  using assms
  by (auto simp: requests_def cloudflare_publish_def cloudflare_delete_def find_record_def find_request_def write_request_def
      delete_request_def Let_def ascii_def ch_def split: sum.splits prod.splits option.splits if_splits list.splits)

lemma node_requests:
  assumes "(client, rq) \<in> set (requests (node_publish (logged H) q n v ttl) w) \<or>
    (client, rq) \<in> set (requests (node_delete (logged H) q n x) w)"
  shows "client = np_client q \<and> hr_headers rq = np_headers q \<and> hr_url rq = record_url q n"
  using assms by (auto simp: requests_def node_publish_def node_delete_def split: sum.splits prod.splits if_splits)

lemma requests_some:
  "requests (cloudflare_publish (logged H) p n v ttl) w \<noteq> []" "requests (cloudflare_delete (logged H) p n x) w \<noteq> []"
  "requests (node_publish (logged H) q n v ttl) w \<noteq> []" "requests (node_delete (logged H) q n x) w \<noteq> []"
  by (auto simp: requests_def cloudflare_publish_def cloudflare_delete_def find_record_def node_publish_def node_delete_def
      split: sum.split prod.split option.split)

text \<open>A request carries the token safely: it goes to the origin of the configured base (if that has a host), its client
  follows no redirects and takes https only, unless the base has the form of a loopback, and the authorization header is
  the token itself.\<close>

definition sent_safely :: "'w http_api \<Rightarrow> rstr \<Rightarrow> rstr \<Rightarrow> http_client \<times> http_request \<Rightarrow> bool" where
  "sent_safely H token base = (\<lambda>(client, rq).
     url_origin base \<in> {None, url_origin (hr_url rq)} \<and> \<not> hc_redirects client \<and>
     (hc_https_only client \<longleftrightarrow> \<not> loopback_form base) \<and>
     (if loopback_form base then starts_with (ascii ''http://'') (hr_url rq) else starts_with (ascii ''https://'') (hr_url rq)) \<and>
     (case ha_header_value H (ascii ''Bearer '' @ token) of
        Inl _ \<Rightarrow> False
      | Inr a \<Rightarrow> map_of (hr_headers rq) (ascii ''authorization'') = Some a))"

lemma bearer_headers_token:
  "bearer_headers H what token = Inr hs \<Longrightarrow>
    \<exists>a. ha_header_value H (ascii ''Bearer '' @ token) = Inr a \<and> map_of hs (ascii ''authorization'') = Some a"
  by (auto simp: bearer_headers_def andThen_Inr mapErr_def split: sum.splits)

lemma sent_safelyI:
  assumes "starts_with (ascii ''https://'') base \<or> loopback_form base" "bearer_headers H what token = Inr (hr_headers rq)"
    "client = \<lparr> hc_timeout = t, hc_redirects = False, hc_https_only = (\<not> loopback_form base) \<rparr>"
    "hr_url rq = base @ ch CHR ''/'' # path"
  shows "sent_safely H token base (client, rq)"
proof -
  obtain a where "ha_header_value H (ascii ''Bearer '' @ token) = Inr a" "map_of (hr_headers rq) (ascii ''authorization'') = Some a"
    using bearer_headers_token [OF assms(2)] by blast
  moreover have "url_origin base \<in> {None, url_origin (hr_url rq)}"
    using url_origin_append [of base] assms(4) by (cases "url_origin base") simp_all
  moreover have "loopback_form base \<Longrightarrow> \<exists>r. base = ascii ''http://'' @ r" by (auto simp: loopback_form_def simp del: append_Cons)
  then have "loopback_form base \<Longrightarrow> starts_with (ascii ''http://'') (hr_url rq)"
    unfolding assms(4) by (auto simp: starts_with_iff simp del: append_Cons)
  moreover have "starts_with (ascii ''https://'') base \<Longrightarrow> starts_with (ascii ''https://'') (hr_url rq)"
    unfolding assms(4) by (auto simp: starts_with_iff simp del: append_Cons)
  ultimately show ?thesis using assms(1) by (auto simp: sent_safely_def assms(3))
qed

lemma cloudflare_sends_safely:
  assumes "cloudflare_new H c = Inr p"
  shows "list_all (sent_safely H (cc_api_token c) (unwrap_or (cc_api_base c) (ascii ''https://api.cloudflare.com'')))
    (requests (cloudflare_publish (logged H) p n v ttl) w @ requests (cloudflare_delete (logged H) p n x) w)"
  unfolding list_all_iff
proof (intro ballI)
  let ?b = "unwrap_or (cc_api_base c) (ascii ''https://api.cloudflare.com'')"
  fix sent assume sent: "sent \<in> set (requests (cloudflare_publish (logged H) p n v ttl) w @ requests (cloudflare_delete (logged H) p n x) w)"
  obtain client rq where s: "sent = (client, rq)" by (cases sent)
  have r: "client = cp_client p" "hr_headers rq = cp_headers p" "hr_url rq = cp_base_url p \<or> (\<exists>i. hr_url rq = cp_base_url p @ ch CHR ''/'' # i)"
    using cloudflare_requests [of client rq H p n v ttl w x] sent by (auto simp: s)
  have p: "starts_with (ascii ''https://'') ?b \<or> loopback_form ?b"
    "cp_client p = \<lparr> hc_timeout = cc_request_timeout c, hc_redirects = False, hc_https_only = (\<not> loopback_form ?b) \<rparr>"
    "bearer_headers H ''api_token'' (cc_api_token c) = Inr (cp_headers p)"
    "cp_base_url p = ?b @ ascii ''/client/v4/zones/'' @ trim (cc_zone_id c) @ ascii ''/dns_records''"
    using assms by (auto simp: cloudflare_new_def Let_def andThen_Inr loopback_check split: if_splits)
  have "\<exists>path. ascii ''/client/v4/zones/'' = ch CHR ''/'' # path" by (simp add: ascii_def)
  then have "\<exists>path. hr_url rq = ?b @ ch CHR ''/'' # path" using r(3) p(4) by auto
  then show "sent_safely H (cc_api_token c) ?b sent"
    unfolding s r(1) using sent_safelyI [OF p(1) _ p(2)] p(3) r(2) by metis
qed

lemma node_sends_safely:
  assumes "node_token_new H d = Inr q"
  shows "list_all (sent_safely H (nt_token d) (trim_end_matches (ch CHR ''/'') (nt_endpoint d)))
    (requests (node_publish (logged H) q n v ttl) w @ requests (node_delete (logged H) q n x) w)"
  unfolding list_all_iff
proof (intro ballI)
  let ?e = "trim_end_matches (ch CHR ''/'') (nt_endpoint d)"
  fix sent assume sent: "sent \<in> set (requests (node_publish (logged H) q n v ttl) w @ requests (node_delete (logged H) q n x) w)"
  obtain client rq where s: "sent = (client, rq)" by (cases sent)
  have r: "client = np_client q" "hr_headers rq = np_headers q" "hr_url rq = record_url q n"
    using node_requests [of client rq H q n v ttl w x] sent by (auto simp: s)
  have q: "starts_with (ascii ''https://'') ?e \<or> loopback_form ?e"
    "np_client q = \<lparr> hc_timeout = nt_request_timeout d, hc_redirects = False, hc_https_only = (\<not> loopback_form ?e) \<rparr>"
    "bearer_headers H ''token'' (nt_token d) = Inr (np_headers q)" "np_base q = ?e"
    using assms by (auto simp: node_token_new_def Let_def andThen_Inr loopback_check same_check split: if_splits)
  have "hr_url rq = ?e @ ch CHR ''/'' # ascii ''v1/records/'' @ n" unfolding r(3) record_url_def q(4) by (simp add: ascii_def)
  then show "sent_safely H (nt_token d) ?e sent"
    unfolding s r(1) using sent_safelyI [OF q(1) _ q(2)] q(3) r(2) by metis
qed

text \<open>C13: The bearer token goes to the configured host only. Every request that a publisher sends for a publication or a
  deletion, whatever the answers, carries the configured token in its authorization header and goes to the scheme and
  authority of the configured base (a base with no host, as \<open>https://\<close>, has none); the client never follows redirects,
  and it must use https unless the base passes the check for loopback: that is exactly \<open>http://127.0.0.1\<close> or
  \<open>http://localhost\<close>, alone or followed by a colon and anything at all (so a user name before another host passes, and
  an IPv6 loopback never does). At least one request is sent by each operation.\<close>

theorem bearer_guarded:
  assumes "cloudflare_new H c = Inr p" "node_token_new H d = Inr q"
  shows "list_all (sent_safely H (cc_api_token c) (unwrap_or (cc_api_base c) (ascii ''https://api.cloudflare.com'')))
      (requests (cloudflare_publish (logged H) p name v ttl) w @ requests (cloudflare_delete (logged H) p name x) w) \<and>
    list_all (sent_safely H (nt_token d) (trim_end_matches (ch CHR ''/'') (nt_endpoint d)))
      (requests (node_publish (logged H) q name v ttl) w @ requests (node_delete (logged H) q name x) w) \<and>
    [] \<notin> {requests (cloudflare_publish (logged H) p name v ttl) w, requests (cloudflare_delete (logged H) p name x) w,
      requests (node_publish (logged H) q name v ttl) w, requests (node_delete (logged H) q name x) w}"
  using cloudflare_sends_safely [OF assms(1)] node_sends_safely [OF assms(2)] requests_some by (metis insertE empty_iff)

section \<open>What callers rely on\<close>

text \<open>The values under the names of a zone, and a writer that keeps an accepted value under its name; two spellings of a
  name have the same key. A writer may also leave the other values of the name alone.\<close>

locale txt_writer =
  fixes inv :: "'w \<Rightarrow> bool"
    and key :: "rstr \<Rightarrow> 'k"
    and vals :: "'w \<Rightarrow> 'k \<Rightarrow> rstr list"
    and publish :: "rstr \<Rightarrow> rstr \<Rightarrow> u32 \<Rightarrow> 'w \<Rightarrow> ('e + bool) \<times> 'w"
    and delete :: "rstr \<Rightarrow> rstr option \<Rightarrow> 'w \<Rightarrow> ('e + bool) \<times> 'w"
  assumes publish_puts: "inv w \<Longrightarrow> publish n v ttl w = (Inr True, w') \<Longrightarrow> v \<in> set (vals w' (key n))"
    and publish_keeps: "inv w \<Longrightarrow> publish n v ttl w = (r, w') \<Longrightarrow> inv w' \<and> (m \<noteq> key n \<longrightarrow> vals w' m = vals w m)"
    and delete_keeps: "inv w \<Longrightarrow> delete n x w = (r, w') \<Longrightarrow> inv w' \<and> (m \<noteq> key n \<longrightarrow> vals w' m = vals w m)"

locale multi_writer = txt_writer +
  assumes publish_adds: "inv w \<Longrightarrow> publish n v ttl w = (r, w') \<Longrightarrow> set (vals w m) \<subseteq> set (vals w' m)"

text \<open>Publishing name after name until one is not accepted.\<close>

fun publish_each :: "(rstr \<Rightarrow> rstr \<Rightarrow> u32 \<Rightarrow> 'w \<Rightarrow> ('e + bool) \<times> 'w) \<Rightarrow> (rstr \<times> rstr) list \<Rightarrow> u32 \<Rightarrow> 'w \<Rightarrow> bool \<times> 'w" where
  "publish_each publish [] ttl w = (True, w)"
| "publish_each publish ((n, v) # xs) ttl w =
     (case publish n v ttl w of
        (Inr True, w) \<Rightarrow> publish_each publish xs ttl w
      | (_, w) \<Rightarrow> (False, w))"

lemma publish_each_Cons:
  "publish_each publish ((n, v) # xs) ttl w = (True, w') \<longleftrightarrow>
     (\<exists>w1. publish n v ttl w = (Inr True, w1) \<and> publish_each publish xs ttl w1 = (True, w'))"
  by (auto split: prod.splits sum.splits bool.splits)

context txt_writer
begin

lemma each_keeps:
  "inv w \<Longrightarrow> publish_each publish xs ttl w = (True, w') \<Longrightarrow> inv w' \<and> (m \<notin> (key \<circ> fst) ` set xs \<longrightarrow> vals w' m = vals w m)"
proof (induction xs arbitrary: w)
  case (Cons x xs)
  obtain n v where x: "x = (n, v)" by (cases x)
  with Cons.prems(2) obtain w1 where "publish n v ttl w = (Inr True, w1)" "publish_each publish xs ttl w1 = (True, w')"
    by (auto simp: publish_each_Cons simp del: publish_each.simps)
  with Cons.IH Cons.prems(1) publish_keeps [of w n v ttl "Inr True" w1 m] show ?case by (auto simp: x)
qed simp

lemma distinct_names_stand:
  "inv w \<Longrightarrow> publish_each publish xs ttl w = (True, w') \<Longrightarrow> distinct (map (key \<circ> fst) xs) \<Longrightarrow>
     (n, v) \<in> set xs \<Longrightarrow> v \<in> set (vals w' (key n))"
proof (induction xs arbitrary: w)
  case (Cons x xs)
  obtain m u where x: "x = (m, u)" by (cases x)
  with Cons.prems(2) obtain w1 where p: "publish m u ttl w = (Inr True, w1)" "publish_each publish xs ttl w1 = (True, w')"
    by (auto simp: publish_each_Cons simp del: publish_each.simps)
  have w1: "inv w1" using publish_keeps [OF Cons.prems(1) p(1)] by blast
  show ?case
  proof (cases "(n, v) = (m, u)")
    case True
    have "key n \<notin> (key \<circ> fst) ` set xs" using Cons.prems(3) True by (simp add: x)
    then show ?thesis using publish_puts [OF Cons.prems(1) p(1)] each_keeps [OF w1 p(2), of "key n"] True by simp
  next
    case False
    then show ?thesis using Cons.IH [OF w1 p(2)] Cons.prems(3,4) by (auto simp: x)
  qed
qed simp

end

context multi_writer
begin

lemma all_stand:
  "inv w \<Longrightarrow> publish_each publish xs ttl w = (True, w') \<Longrightarrow>
     inv w' \<and> set (vals w m) \<subseteq> set (vals w' m) \<and> ((n, v) \<in> set xs \<longrightarrow> v \<in> set (vals w' (key n)))"
proof (induction xs arbitrary: w m n v)
  case (Cons x xs)
  obtain m' u where x: "x = (m', u)" by (cases x)
  with Cons.prems(2) obtain w1 where p: "publish m' u ttl w = (Inr True, w1)" "publish_each publish xs ttl w1 = (True, w')"
    by (auto simp: publish_each_Cons simp del: publish_each.simps)
  have w1: "inv w1" using publish_keeps [OF Cons.prems(1) p(1)] by blast
  note ih = Cons.IH [OF w1 p(2)]
  have "v \<in> set (vals w' (key n))" if "(n, v) = (m', u)"
    using ih [of "key n"] publish_puts [OF Cons.prems(1) p(1)] that by auto
  then show ?case using ih [of m n v] publish_adds [OF Cons.prems(1) p(1), of m] by (auto simp: x)
qed simp

end

lemma entries_at_publish:
  "entries_at (snd (mem_publish now n v ttl s)) m =
     (if m = n then put_entry v (sat_add now (ucast ttl)) (entries_at s n) else entries_at s m)"
  by (simp add: mem_publish_def Let_def entries_at_def unwrap_or_def update_conv)

interpretation mem_writer: multi_writer mem_inv "\<lambda>n. n" "\<lambda>s n. map e_value (entries_at s n)" "mem_publish now" mem_delete for now
proof
  show "v \<in> set (map e_value (entries_at w' n))" if "mem_inv w" "mem_publish now n v ttl w = (Inr True, w')" for w n v ttl w'
  proof -
    have "v \<in> e_value ` set (put_entry v x es)" for x es by (induction es) auto
    then show ?thesis using that(2) by (auto simp: mem_publish_def Let_def entries_at_def unwrap_or_def update_conv)
  qed
  show "mem_inv w' \<and> (m \<noteq> n \<longrightarrow> map e_value (entries_at w' m) = map e_value (entries_at w m))"
    if "mem_inv w" "mem_publish now n v ttl w = (r, w')" for w n v ttl r w' m
    using that mem_publish_refines [OF that(1), of now n v ttl]
    by (auto simp: mem_publish_def Let_def entries_at_def update_conv)
  show "mem_inv w' \<and> (m \<noteq> n \<longrightarrow> map e_value (entries_at w' m) = map e_value (entries_at w m))"
    if "mem_inv w" "mem_delete n x w = (r, w')" for w n x r w' m
  proof -
    have "snd (mem_delete n x w) \<in> {w, AList.delete n w} \<union> range (\<lambda>es. AList.update n es w)"
      by (simp add: mem_delete_def Let_def split: option.splits)
    then have "m \<noteq> n \<longrightarrow> entries_at (snd (mem_delete n x w)) m = entries_at w m"
      by (auto simp: entries_at_def update_conv delete_conv)
    then show ?thesis using that mem_delete_refines [OF that(1), of n x] by simp
  qed
  show "set (map e_value (entries_at w m)) \<subseteq> set (map e_value (entries_at w' m))"
    if "mem_inv w" "mem_publish now n v ttl w = (r, w')" for w n v ttl r w' m
  proof -
    have put: "e_value ` set es \<subseteq> e_value ` set (put_entry v x es)" for x es by (induction es) auto
    have "w' = snd (mem_publish now n v ttl w)" using that(2) by simp
    then show ?thesis using put by (simp add: entries_at_publish del: image_subset_iff)
  qed
qed

section \<open>The zone behind the API\<close>

text \<open>The TXT records of a zone, in order of insertion: identifier, name, content.\<close>

type_synonym zone = "(rstr \<times> rstr \<times> rstr) list"

definition ids :: "zone \<Rightarrow> rstr set" where
  "ids z = fst ` set z"

definition named :: "zone \<Rightarrow> rstr \<Rightarrow> zone" where
  "named z n = filter (\<lambda>(_, m, _). m = n) z"

definition contents :: "zone \<Rightarrow> rstr \<Rightarrow> rstr list" where
  "contents z n = map (snd \<circ> snd) (named z n)"

definition zone_put :: "rstr \<Rightarrow> rstr \<Rightarrow> rstr \<Rightarrow> zone \<Rightarrow> zone" where
  "zone_put i n v z = map (\<lambda>(j, m, c). if j = i then (i, n, v) else (j, m, c)) z"

definition zone_remove :: "rstr \<Rightarrow> zone \<Rightarrow> zone" where
  "zone_remove i z = filter (\<lambda>(j, _, _). j \<noteq> i) z"

text \<open>The documented behaviour of the four requests, for the publisher \<open>p\<close>: a successful listing gives the records of the
  name, the oldest first; an accepted write has happened, and one that is not accepted may have happened (its answer
  may have been lost).\<close>

definition cloudflare_zone :: "'w http_api \<Rightarrow> cloudflare_publisher \<Rightarrow> ('w \<Rightarrow> zone) \<Rightarrow> bool" where
  "cloudflare_zone H p zone \<longleftrightarrow>
     (\<forall>n w. case ha_send H (cp_client p) (find_request p n) w of (answer, w') \<Rightarrow> zone w' = zone w \<and>
        (\<forall>resp body. answer = Inr resp \<longrightarrow> ha_list_json H (hs_text resp) = Inr body \<longrightarrow> lr_success body \<longrightarrow>
           take 1 (lr_result body) = take 1 (map (\<lambda>(i, _). \<lparr> dr_id = i \<rparr>) (named (zone w) n)))) \<and>
     (\<forall>n v ttl w. case ha_send H (cp_client p) (write_request p n v ttl None) w of (answer, w') \<Rightarrow>
        (\<exists>i. i \<notin> ids (zone w) \<and> zone w' = zone w @ [(i, n, v)]) \<or>
        zone w' = zone w \<and> written H ''write'' answer \<noteq> Inr True) \<and>
     (\<forall>n v ttl rec w. case ha_send H (cp_client p) (write_request p n v ttl (Some rec)) w of (answer, w') \<Rightarrow>
        dr_id rec \<in> ids (zone w) \<and> zone w' = zone_put (dr_id rec) n v (zone w) \<or>
        zone w' = zone w \<and> written H ''write'' answer \<noteq> Inr True) \<and>
     (\<forall>rec w. case ha_send H (cp_client p) (delete_request p rec) w of (answer, w') \<Rightarrow>
        dr_id rec \<in> ids (zone w) \<and> zone w' = zone_remove (dr_id rec) (zone w) \<or>
        zone w' = zone w \<and> written H ''DELETE'' answer \<noteq> Inr True)"

definition zone_ok :: "zone \<Rightarrow> bool" where
  "zone_ok z \<longleftrightarrow> distinct (map fst z)"

lemma find_record_first:
  assumes "cloudflare_zone H p zone" "find_record H p n w = (r, w')"
  shows "zone w' = zone w \<and> (\<forall>x. r = Inr x \<longrightarrow>
    x = (case named (zone w) n of [] \<Rightarrow> None | (i, _) # _ \<Rightarrow> Some \<lparr> dr_id = i \<rparr>))"
proof -
  obtain answer w1 where send: "ha_send H (cp_client p) (find_request p n) w = (answer, w1)" by (metis prod.exhaust)
  have z: "zone w1 = zone w" and "\<forall>resp body. answer = Inr resp \<longrightarrow> ha_list_json H (hs_text resp) = Inr body \<longrightarrow>
      lr_success body \<longrightarrow> take 1 (lr_result body) = take 1 (map (\<lambda>(i, _). \<lparr> dr_id = i \<rparr>) (named (zone w) n))"
    using assms(1) send unfolding cloudflare_zone_def by (smt (verit) case_prod_conv)+
  then have res: "(case lr_result body of [] \<Rightarrow> None | r # _ \<Rightarrow> Some r) =
      (case named (zone w) n of [] \<Rightarrow> None | (i, _) # _ \<Rightarrow> Some \<lparr> dr_id = i \<rparr>)"
    if "answer = Inr resp" "ha_list_json H (hs_text resp) = Inr body" "lr_success body" for resp body
    using that by (fastforce split: list.splits)
  show ?thesis
  proof (cases answer)
    case (Inr resp)
    show ?thesis
    proof (cases "ha_list_json H (hs_text resp)")
      case (Inr body)
      with \<open>answer = Inr resp\<close> res show ?thesis
        using assms(2) send z by (auto simp: find_record_def split: if_splits)
    qed (use Inr assms(2) send z in \<open>auto simp: find_record_def split: if_splits\<close>)
  qed (use assms(2) send z in \<open>auto simp: find_record_def\<close>)
qed

lemma named_append: "named (z @ z') n = named z n @ named z' n"
  by (simp add: named_def)

lemma contents_insert: "contents (z @ [(i, n, v)]) = (contents z)(n := contents z n @ [v])"
  by (auto simp: contents_def named_def fun_eq_iff)

lemma zone_ok_insert: "zone_ok z \<Longrightarrow> i \<notin> ids z \<Longrightarrow> zone_ok (z @ [(i, n, v)])"
  by (auto simp: zone_ok_def ids_def)

text \<open>The record that is found divides the zone.\<close>

lemma named_split:
  assumes "zone_ok z" "named z n = (i, x) # ys"
  obtains a b c where "z = a @ (i, n, c) # b" "named a n = []" "i \<notin> ids a" "i \<notin> ids b"
proof -
  obtain a b where z: "z = a @ (i, x) # b" "\<forall>y\<in>set a. \<not> (\<lambda>(_, m, _). m = n) y" "(\<lambda>(_, m, _). m = n) (i, x)"
    using assms(2) unfolding named_def by (auto simp: filter_eq_Cons_iff)
  then obtain c where "x = (n, c)" by (cases x) auto
  then show thesis using that [of a c b] z assms(1) by (auto simp: zone_ok_def ids_def named_def filter_empty_conv)
qed

lemma zone_put_other: "i \<notin> ids z \<Longrightarrow> zone_put i n v z = z"
  by (induction z) (auto simp: zone_put_def ids_def)

lemma zone_remove_other: "i \<notin> ids z \<Longrightarrow> zone_remove i z = z"
  by (auto simp: zone_remove_def ids_def filter_id_conv image_iff)

lemma first_put:
  assumes "zone_ok z" "named z n = (i, x) # ys"
  shows "zone_ok (zone_put i n v z) \<and> contents (zone_put i n v z) = (contents z)(n := v # drop 1 (contents z n))"
proof -
  obtain a b c where z: "z = a @ (i, n, c) # b" "named a n = []" "i \<notin> ids a" "i \<notin> ids b"
    using named_split [OF assms] by blast
  have "zone_put i n v z = a @ (i, n, v) # b"
    using zone_put_other [OF z(3), of n v] zone_put_other [OF z(4), of n v] by (simp add: z(1) zone_put_def)
  then show ?thesis using z(1,2) assms(1) by (auto simp: zone_ok_def contents_def named_def fun_eq_iff)
qed

lemma first_remove:
  assumes "zone_ok z" "named z n = (i, x) # ys"
  shows "zone_ok (zone_remove i z) \<and> contents (zone_remove i z) = (contents z)(n := drop 1 (contents z n))"
proof -
  obtain a b c where z: "z = a @ (i, n, c) # b" "named a n = []" "i \<notin> ids a" "i \<notin> ids b"
    using named_split [OF assms] by blast
  have "zone_remove i z = a @ b"
    using zone_remove_other [OF z(3)] zone_remove_other [OF z(4)] by (simp add: z(1) zone_remove_def)
  then show ?thesis using z(1,2) assms(1) by (auto simp: zone_ok_def contents_def named_def fun_eq_iff)
qed

lemma cloudflare_publish_effect:
  assumes "cloudflare_zone H p zone" "zone_ok (zone w)" "cloudflare_publish H p n v ttl w = (r, w')"
  shows "zone_ok (zone w') \<and>
    (contents (zone w') = (contents (zone w))(n := v # drop 1 (contents (zone w) n)) \<or>
     contents (zone w') = contents (zone w) \<and> r \<noteq> Inr True)"
proof -
  obtain x w1 where find: "find_record H p n w = (x, w1)" by (metis prod.exhaust)
  note first = find_record_first [OF assms(1) find]
  show ?thesis
  proof (cases x)
    case (Inl e)
    then show ?thesis using assms(2,3) find first by (auto simp: cloudflare_publish_def)
  next
    case (Inr existing)
    obtain answer w2 where send: "ha_send H (cp_client p) (write_request p n v ttl existing) w1 = (answer, w2)"
      by (metis prod.exhaust)
    have r: "r = written H ''write'' answer" "w' = w2"
      using assms(3) find send by (simp_all add: cloudflare_publish_def Inr)
    show ?thesis
    proof (cases "named (zone w) n")
      case Nil
      then have "existing = None" using first Inr by simp
      then have "(\<exists>i. i \<notin> ids (zone w1) \<and> zone w2 = zone w1 @ [(i, n, v)]) \<or>
          zone w2 = zone w1 \<and> written H ''write'' answer \<noteq> Inr True"
        using assms(1) send unfolding cloudflare_zone_def by (smt (verit) case_prod_conv)
      moreover have "contents (zone w) n = []" using Nil by (simp add: contents_def)
      ultimately show ?thesis using first assms(2) r contents_insert zone_ok_insert by auto
    next
      case (Cons y ys)
      obtain i c where y: "y = (i, c)" by (cases y)
      then have "existing = Some \<lparr> dr_id = i \<rparr>" using first Inr Cons by simp
      then have "dr_id \<lparr> dr_id = i \<rparr> \<in> ids (zone w1) \<and> zone w2 = zone_put (dr_id \<lparr> dr_id = i \<rparr>) n v (zone w1) \<or>
          zone w2 = zone w1 \<and> written H ''write'' answer \<noteq> Inr True"
        using assms(1) send unfolding cloudflare_zone_def by (smt (verit) case_prod_conv)
      then show ?thesis using first assms(2) r first_put [OF assms(2) Cons [unfolded y], of v] by auto
    qed
  qed
qed

lemma cloudflare_delete_effect:
  assumes "cloudflare_zone H p zone" "zone_ok (zone w)" "cloudflare_delete H p n x w = (r, w')"
  shows "zone_ok (zone w') \<and>
    (contents (zone w') = (contents (zone w))(n := drop 1 (contents (zone w) n)) \<or>
     contents (zone w') = contents (zone w) \<and> r \<noteq> Inr True)"
proof -
  obtain f w1 where find: "find_record H p n w = (f, w1)" by (metis prod.exhaust)
  note first = find_record_first [OF assms(1) find]
  consider (Err) e where "f = Inl e" | (None) "f = Inr None" | (Some) rec where "f = Inr (Some rec)"
    by (metis sum.exhaust option.exhaust)
  then show ?thesis
  proof cases
    case Err
    then show ?thesis using assms(2,3) find first by (auto simp: cloudflare_delete_def)
  next
    case None
    then have "named (zone w) n = []" using first by (auto split: list.splits)
    then have "(contents (zone w))(n := drop 1 (contents (zone w) n)) = contents (zone w)"
      by (simp add: contents_def fun_upd_idem)
    then show ?thesis using assms(2,3) find first None by (simp add: cloudflare_delete_def)
  next
    case (Some rec)
    then obtain c ys where named: "named (zone w) n = (dr_id rec, c) # ys" using first by (auto split: list.splits)
    obtain answer w2 where send: "ha_send H (cp_client p) (delete_request p rec) w1 = (answer, w2)" by (metis prod.exhaust)
    then have "dr_id rec \<in> ids (zone w1) \<and> zone w2 = zone_remove (dr_id rec) (zone w1) \<or>
        zone w2 = zone w1 \<and> written H ''DELETE'' answer \<noteq> Inr True"
      using assms(1) unfolding cloudflare_zone_def by (smt (verit) case_prod_conv)
    moreover have "r = written H ''DELETE'' answer" "w' = w2"
      using assms(3) find send Some by (simp_all add: cloudflare_delete_def)
    ultimately show ?thesis using first assms(2) first_remove [OF assms(2) named] by auto
  qed
qed

text \<open>Over the documented API the Cloudflare publisher keeps the contract of a writer.\<close>

lemma cloudflare_txt_writer:
  assumes "cloudflare_zone H p zone"
  shows "txt_writer (\<lambda>w. zone_ok (zone w)) (\<lambda>n. n) (\<lambda>w. contents (zone w)) (cloudflare_publish H p) (cloudflare_delete H p)"
proof
  show "v \<in> set (contents (zone w') n)" if "zone_ok (zone w)" "cloudflare_publish H p n v ttl w = (Inr True, w')" for w n v ttl w'
    using cloudflare_publish_effect [OF assms that] by auto
  show "zone_ok (zone w') \<and> (m \<noteq> n \<longrightarrow> contents (zone w') m = contents (zone w) m)"
    if "zone_ok (zone w)" "cloudflare_publish H p n v ttl w = (r, w')" for w n v ttl r w' m
    using cloudflare_publish_effect [OF assms that] by auto
  show "zone_ok (zone w') \<and> (m \<noteq> n \<longrightarrow> contents (zone w') m = contents (zone w) m)"
    if "zone_ok (zone w)" "cloudflare_delete H p n x w = (r, w')" for w n x r w' m
    using cloudflare_delete_effect [OF assms that] by auto
qed

section \<open>A zone to run on\<close>

definition demo_client_settings :: http_client where
  "demo_client_settings = \<lparr> hc_timeout = 10000, hc_redirects = False, hc_https_only = True \<rparr>"

definition demo_cloudflare :: cloudflare_publisher where
  "demo_cloudflare = \<lparr> cp_client = demo_client_settings, cp_base_url = ascii ''https://c/z/dns_records'',
     cp_headers = [(ascii ''authorization'', ascii ''Bearer t'')] \<rparr>"

definition fresh_id :: "zone \<Rightarrow> rstr" where
  "fresh_id z = replicate (Suc (sum_list (map (length \<circ> fst) z))) 7"

definition id_of_url :: "rstr \<Rightarrow> rstr" where
  "id_of_url url = drop (Suc (length (cp_base_url demo_cloudflare))) url"

text \<open>Bodies: \<open>[1]\<close> is success, \<open>[0]\<close> is not; a listing is \<open>[1]\<close>, and then the first identifier if there is one.\<close>

fun demo_answer :: "http_request \<Rightarrow> zone \<Rightarrow> bytes \<times> zone" where
  "demo_answer req z =
     (case (hr_method req, hr_body req) of
        (GET, _) \<Rightarrow> (case named z (snd (hd (hr_query req))) of [] \<Rightarrow> [1] | (i, _) # _ \<Rightarrow> 1 # 1 # i, z)
      | (POST, WriteRecord b) \<Rightarrow> ([1], z @ [(fresh_id z, wr_name b, wr_content b)])
      | (PUT, WriteRecord b) \<Rightarrow>
          (if id_of_url (hr_url req) \<in> ids z then ([1], zone_put (id_of_url (hr_url req)) (wr_name b) (wr_content b) z) else ([0], z))
      | (DELETE, _) \<Rightarrow> (if id_of_url (hr_url req) \<in> ids z then ([1], zone_remove (id_of_url (hr_url req)) z) else ([0], z))
      | _ \<Rightarrow> ([0], z))"

definition demo_http :: "zone http_api" where
  "demo_http = \<lparr> ha_header_value = Inr, ha_build = (\<lambda>_. Inr ()),
     ha_send = (\<lambda>_ req z. case demo_answer req z of (text, z) \<Rightarrow> (Inr \<lparr> hs_status = 200, hs_text = text \<rparr>, z)),
     ha_list_json = (\<lambda>t. Inr \<lparr> lr_success = (take 1 t = [1]), lr_result = (case drop 1 t of [] \<Rightarrow> [] | _ # i \<Rightarrow> [\<lparr> dr_id = i \<rparr>]) \<rparr>),
     ha_write_json = (\<lambda>t. Inr \<lparr> ws_success = (t = [1]) \<rparr>) \<rparr>"

lemma fresh_id_new: "fresh_id z \<notin> ids z"
proof
  assume "fresh_id z \<in> ids z"
  then obtain x where x: "x \<in> set z" "fst x = fresh_id z" by (auto simp: ids_def)
  then have "length (fst x) \<le> sum_list (map (length \<circ> fst) z)" using member_le_sum_list [of "length (fst x)" "map (length \<circ> fst) z"] by force
  then show False using x(2) by (simp add: fresh_id_def)
qed

lemma id_of_url [simp]: "id_of_url (cp_base_url demo_cloudflare @ b # i) = i"
  by (simp add: id_of_url_def)

lemma demo_cloudflare_zone: "cloudflare_zone demo_http demo_cloudflare id"
  unfolding cloudflare_zone_def
proof (intro conjI allI, goal_cases)
  case (1 n w)
  show ?case by (cases "named w n") (auto simp: demo_http_def find_request_def)
next
  case (2 n v ttl w)
  show ?case using fresh_id_new [of w] by (simp add: demo_http_def write_request_def Let_def)
next
  case (3 n v ttl rec w)
  show ?case by (auto simp: demo_http_def write_request_def Let_def written_def ascii_def)
next
  case (4 rec w)
  show ?case by (auto simp: demo_http_def delete_request_def written_def ascii_def)
qed

interpretation hosted: txt_writer "\<lambda>z. zone_ok (id z)" "\<lambda>n. n" "\<lambda>z. contents (id z)"
    "cloudflare_publish demo_http demo_cloudflare" "cloudflare_delete demo_http demo_cloudflare"
  by (rule cloudflare_txt_writer [OF demo_cloudflare_zone])

section \<open>Many values\<close>

lemma each_last:
  assumes "cloudflare_zone H p zone"
  shows "zone_ok (zone w) \<Longrightarrow> publish_each (cloudflare_publish H p) xs ttl w = (True, w') \<Longrightarrow>
    contents (zone w') n = (case map_of (rev xs) n of None \<Rightarrow> contents (zone w) n
      | Some v \<Rightarrow> v # drop 1 (contents (zone w) n))"
proof (induction xs arbitrary: w)
  case (Cons x xs)
  obtain m v where x: "x = (m, v)" by (cases x)
  with Cons.prems(2) obtain w1 where p: "cloudflare_publish H p m v ttl w = (Inr True, w1)"
      "publish_each (cloudflare_publish H p) xs ttl w1 = (True, w')"
    by (auto simp: publish_each_Cons simp del: publish_each.simps)
  have "zone_ok (zone w1)" "contents (zone w1) = (contents (zone w))(m := v # drop 1 (contents (zone w) m))"
    using cloudflare_publish_effect [OF assms Cons.prems(1) p(1)] by auto
  then show ?case using Cons.IH [OF _ p(2)] by (auto simp: x map_add_def split: option.splits)
qed simp

text \<open>C12: On a Cloudflare zone the last write wins. When a series of publications is accepted, under each name stands the
  last value that was published there in place of the oldest one, and no other; so values under distinct names all stand,
  and of several values under one name all but the last are gone although each of them was reported as accepted.\<close>

theorem cloudflare_last_write_wins:
  assumes "cloudflare_zone H p zone" "zone_ok (zone w)" "publish_each (cloudflare_publish H p) xs ttl w = (True, w')"
  shows "(\<forall>n. contents (zone w') n = (case map_of (rev xs) n of None \<Rightarrow> contents (zone w) n
      | Some v \<Rightarrow> v # drop 1 (contents (zone w) n))) \<and>
    (distinct (map fst xs) \<longrightarrow> (\<forall>(n, v) \<in> set xs. v \<in> set (contents (zone w') n)))"
  using each_last [OF assms] txt_writer.distinct_names_stand [OF cloudflare_txt_writer [OF assms(1)] assms(2,3)]
  by (fastforce simp: comp_def)

theorem cloudflare_last_write_wins_witness:
  "contents (snd (publish_each (cloudflare_publish demo_http demo_cloudflare) [([1], [2]), ([1], [3]), ([4], [5])] 300 [])) [1] = [[3]]"
proof -
  have r: "publish_each (cloudflare_publish demo_http demo_cloudflare) [([1], [2]), ([1], [3]), ([4], [5])] 300 [] =
      (True, [([7], [1], [3]), ([7, 7], [4], [5])])"
    by (simp add: cloudflare_publish_def find_record_def demo_http_def find_request_def write_request_def written_def
        is_success_def named_def fresh_id_def ids_def zone_put_def demo_cloudflare_def id_of_url_def)
  have "\<forall>n. contents (id [([7], [1], [3]), ([7, 7], [4], [5])]) n =
      (case map_of (rev [([1], [2]), ([1], [3]), ([4], [5])]) n of None \<Rightarrow> contents (id []) n | Some v \<Rightarrow> v # drop 1 (contents (id []) n))"
    using cloudflare_last_write_wins [OF demo_cloudflare_zone _ r] by (simp add: zone_ok_def del: rev.simps)
  then have "contents (id [([7], [1], [3]), ([7, 7], [4], [5])]) [1] = [[3]]"
    by (simp add: contents_def named_def)
  then show ?thesis unfolding r by simp
qed

theorem bearer_guarded_witness:
  "(let c = \<lparr> cc_zone_id = replicate 32 (ch CHR ''0''), cc_api_token = [7], cc_api_base = Some (ascii ''http://127.0.0.1:80@evil.com''), cc_request_timeout = 1 \<rparr>;
        d = node_token_config_new (ascii ''https://n/'') [8]
    in case (cloudflare_new demo_http c, node_token_new demo_http d) of
      (Inr p, Inr q) \<Rightarrow>
        list_all (\<lambda>(client, rq). \<not> hc_https_only client \<and> url_origin (hr_url rq) = Some (ascii ''http'', ascii ''127.0.0.1:80@evil.com''))
          (requests (cloudflare_publish (logged demo_http) p [1] [2] 60) []) \<and>
        list_all (\<lambda>(client, rq). hc_https_only client \<and> url_origin (hr_url rq) = Some (ascii ''https'', ascii ''n'') \<and>
            map_of (hr_headers rq) (ascii ''authorization'') = Some (ascii ''Bearer '' @ [8]))
          (requests (node_publish (logged demo_http) q [1] [2] 60) [])
    | _ \<Rightarrow> False)"
proof -
  let ?base = "ascii ''http://127.0.0.1:80@evil.com''"
  let ?c = "\<lparr> cc_zone_id = replicate 32 (ch CHR ''0''), cc_api_token = [7], cc_api_base = Some ?base, cc_request_timeout = 1 \<rparr>"
  let ?d = "node_token_config_new (ascii ''https://n/'') [8]"
  have z: "trim (replicate 32 (ch CHR ''0'')) = replicate 32 (ch CHR ''0'')" "list_all is_ascii_hexdigit (chars (replicate 32 (ch CHR ''0'')))"
    by (rule trim_id) (simp_all add: is_ascii_def is_whitespace_def ch_def chars_ascii is_ascii_hexdigit_def list_all_iff)
  have b: "loopback_form ?base" unfolding loopback_check [symmetric] by code_simp
  have e: "starts_with (ascii ''https://'') (ascii ''https://n'')" "trim_end_matches (ch CHR ''/'') (ascii ''https://n/'') = ascii ''https://n''"
    "\<not> loopback_form (ascii ''https://n'')"
    unfolding loopback_check [symmetric] by code_simp+
  have o: "url_origin ?base = Some (ascii ''http'', ascii ''127.0.0.1:80@evil.com'')"
    "url_origin (ascii ''https://n'') = Some (ascii ''https'', ascii ''n'')"
    by code_simp+
  obtain p where p: "cloudflare_new demo_http ?c = Inr p"
    using z b by (simp add: cloudflare_new_def Let_def loopback_check bearer_headers_def demo_http_def unwrap_or_def)
  obtain q where q: "node_token_new demo_http ?d = Inr q"
    using e by (simp add: node_token_new_def node_token_config_new_def Let_def bearer_headers_def demo_http_def)
  note g = bearer_guarded [OF p q, of "[1]" "[2]" 60 "[]"]
  have "list_all (sent_safely demo_http [7] ?base) (requests (cloudflare_publish (logged demo_http) p [1] [2] 60) [])"
    "list_all (sent_safely demo_http [8] (ascii ''https://n'')) (requests (node_publish (logged demo_http) q [1] [2] 60) [])"
    using g e by (simp_all add: unwrap_or_def node_token_config_new_def)
  moreover have "ha_header_value demo_http = Inr" by (simp add: demo_http_def)
  ultimately show ?thesis unfolding Let_def p q using b e(3) o
    by (auto simp: list_all_iff sent_safely_def)
qed

end
