(* ===== verification/DnsUpdate.thy ===== *)
theory DnsUpdate
  imports HttpWriters
begin

text \<open>
  TSIG keys (\<open>tsig.rs\<close>) and the writer of RFC 2136 updates (\<open>dns_update_writer.rs\<close>). Names, the construction of a signer and
  the two sockets belong to the DNS crate and are the fields of \<open>hickory\<close>; an update message is the call that builds it.
  The predicate \<open>update_server\<close> states what RFC 2136 says of a server that gets such a message.
\<close>

section \<open>TSIG keys\<close>

definition ALGORITHM_HMAC_SHA256 :: rstr where
  "ALGORITHM_HMAC_SHA256 = ascii ''hmac-sha256''"

definition ALGORITHM_HMAC_SHA384 :: rstr where
  "ALGORITHM_HMAC_SHA384 = ascii ''hmac-sha384''"

definition ALGORITHM_HMAC_SHA512 :: rstr where
  "ALGORITHM_HMAC_SHA512 = ascii ''hmac-sha512''"

definition DEFAULT_FUDGE_SECS :: u16 where
  "DEFAULT_FUDGE_SECS = 300"

datatype tsig_algorithm = HmacSha256 | HmacSha384 | HmacSha512

fun algorithm_as_str :: "tsig_algorithm \<Rightarrow> rstr" where
  "algorithm_as_str HmacSha256 = ALGORITHM_HMAC_SHA256"
| "algorithm_as_str HmacSha384 = ALGORITHM_HMAC_SHA384"
| "algorithm_as_str HmacSha512 = ALGORITHM_HMAC_SHA512"

definition algorithm_parse :: "rstr \<Rightarrow> tsig_error + tsig_algorithm" where
  "algorithm_parse s =
     (let normalized = to_ascii_lowercase (trim_end_matches (ch CHR ''.'') (trim s)) in
      if normalized = ALGORITHM_HMAC_SHA256 then Inr HmacSha256
      else if normalized = ALGORITHM_HMAC_SHA384 then Inr HmacSha384
      else if normalized = ALGORITHM_HMAC_SHA512 then Inr HmacSha512
      else Inl (UnsupportedAlgorithm s))"

record tsig_key =
  tk_name :: rstr
  tk_algorithm :: tsig_algorithm
  tk_secret :: bytes

text \<open>The calls of the DNS crate: the messages that \<open>update_message\<close> builds, with the owner, the strings of the TXT data, the
  zone and the flags given to the builder.\<close>

datatype 'n update =
    Append 'n u32 "rstr list" 'n bool bool
  | DeleteRrset 'n 'n bool
  | DeleteByRdata 'n "rstr list" 'n bool

record dns_response =
  dn_truncation :: bool
  dn_response_code :: nat

text \<open>\<open>timeout(response_stream.next())\<close>: a response, an error of the stream, its end, or the time is over.\<close>

datatype next_response = Next dns_response | NextErr string | Ended | TimedOut

record ('n, 's, 'w) hickory =
  hk_from_ascii :: "rstr \<Rightarrow> string + 'n"
  hk_to_lowercase :: "'n \<Rightarrow> 'n"
  hk_set_fqdn :: "'n \<Rightarrow> 'n"
  hk_zone_of :: "'n \<Rightarrow> 'n \<Rightarrow> bool"
  hk_signer :: "bytes \<Rightarrow> tsig_algorithm \<Rightarrow> 'n \<Rightarrow> u16 \<Rightarrow> string + 's"
  hk_udp :: "string \<Rightarrow> nat \<Rightarrow> 's \<Rightarrow> 'n update \<Rightarrow> 'w \<Rightarrow> next_response \<times> 'w"
  hk_connect :: "string \<Rightarrow> nat \<Rightarrow> 'w \<Rightarrow> (string + unit) \<times> 'w"
  hk_tcp :: "string \<Rightarrow> nat \<Rightarrow> 's \<Rightarrow> 'n update \<Rightarrow> 'w \<Rightarrow> next_response \<times> 'w"
  hk_rcode_text :: "nat \<Rightarrow> string"

definition NoError :: nat where
  "NoError = 0"

definition tsig_key_new :: "('n, 's, 'w) hickory \<Rightarrow> rstr \<Rightarrow> tsig_algorithm \<Rightarrow> bytes \<Rightarrow> tsig_error + tsig_key" where
  "tsig_key_new K name algorithm secret =
     (if trim name = [] then Inl EmptyName
      else if secret = [] then Inl EmptySecret
      else andThen (mapErr (InvalidKeyName name) (hk_from_ascii K name)) (\<lambda>_.
        Inr \<lparr> tk_name = name, tk_algorithm = algorithm, tk_secret = secret \<rparr>))"

definition to_signer :: "('n, 's, 'w) hickory \<Rightarrow> tsig_key \<Rightarrow> u16 \<Rightarrow> tsig_error + 's" where
  "to_signer K self fudge_secs =
     andThen (mapErr (InvalidKeyName (tk_name self)) (hk_from_ascii K (tk_name self))) (\<lambda>key_name.
     mapErr SignerInit (hk_signer K (tk_secret self) (tk_algorithm self) key_name fudge_secs))"

section \<open>The writer\<close>

text \<open>A socket address is its text; the timeout is in milliseconds.\<close>

definition DEFAULT_TIMEOUT :: nat where
  "DEFAULT_TIMEOUT = 5000"

record update_config =
  uc_zone :: rstr
  uc_server :: string
  uc_tsig_key :: tsig_key
  uc_timeout :: nat
  uc_fudge_secs :: u16

definition update_config_new :: "rstr \<Rightarrow> string \<Rightarrow> tsig_key \<Rightarrow> update_config" where
  "update_config_new zone server key = \<lparr> uc_zone = zone, uc_server = server, uc_tsig_key = key,
     uc_timeout = DEFAULT_TIMEOUT, uc_fudge_secs = DEFAULT_FUDGE_SECS \<rparr>"

record 'n update_writer =
  uw_zone :: 'n
  uw_server :: string
  uw_tsig_key :: tsig_key
  uw_timeout :: nat
  uw_fudge_secs :: u16

definition update_writer_new :: "('n, 's, 'w) hickory \<Rightarrow> update_config \<Rightarrow> net_error + 'n update_writer" where
  "update_writer_new K config =
     (let zone_text = trim_end_matches (ch CHR ''.'') (trim (uc_zone config)) in
      if zone_text = [] then Inl (InvalidConfig ''zone must be non-empty'')
      else andThen (mapErr (InvalidName (uc_zone config)) (hk_from_ascii K zone_text)) (\<lambda>zone.
        Inr \<lparr> uw_zone = hk_to_lowercase K zone, uw_server = uc_server config, uw_tsig_key = uc_tsig_key config,
          uw_timeout = uc_timeout config, uw_fudge_secs = uc_fudge_secs config \<rparr>))"

definition parse_owner :: "('n, 's, 'w) hickory \<Rightarrow> rstr \<Rightarrow> net_error + 'n" where
  "parse_owner K name =
     (let trimmed = trim_end_matches (ch CHR ''.'') (trim name) in
      if trimmed = [] then Inl (InvalidName name ''owner name must be non-empty'')
      else andThen (mapErr (InvalidName name) (hk_from_ascii K trimmed)) (\<lambda>owner.
        Inr (hk_to_lowercase K (hk_set_fqdn K owner))))"

definition build_publish_message ::
    "('n, 's, 'w) hickory \<Rightarrow> 'n update_writer \<Rightarrow> rstr \<Rightarrow> rstr \<Rightarrow> u32 \<Rightarrow> net_error + 'n update" where
  "build_publish_message K self name v ttl =
     andThen (parse_owner K name) (\<lambda>owner.
       if \<not> hk_zone_of K (uw_zone self) owner then Inl (InvalidName name ''name is not within zone'')
       else Inr (Append owner ttl [v] (uw_zone self) False True))"

definition build_delete_message ::
    "('n, 's, 'w) hickory \<Rightarrow> 'n update_writer \<Rightarrow> rstr \<Rightarrow> rstr option \<Rightarrow> net_error + 'n update" where
  "build_delete_message K self name v =
     andThen (parse_owner K name) (\<lambda>owner.
       if \<not> hk_zone_of K (uw_zone self) owner then Inl (InvalidName name ''name is not within zone'')
       else Inr (case v of
         None \<Rightarrow> DeleteRrset owner (uw_zone self) True
       | Some v \<Rightarrow> DeleteByRdata owner [v] (uw_zone self) True))"

fun run_update :: "next_response \<Rightarrow> string + dns_response" where
  "run_update (Next resp) = Inr resp"
| "run_update (NextErr e) = Inl e"
| "run_update Ended = Inl ''dns client returned no response''"
| "run_update TimedOut = Inl ''dns update timed out''"

datatype udp_outcome = Ok dns_response | Truncated | Failed string

definition send_udp :: "('n, 's, 'w) hickory \<Rightarrow> 'n update_writer \<Rightarrow> 'n update \<Rightarrow> 's \<Rightarrow> 'w \<Rightarrow> udp_outcome \<times> 'w" where
  "send_udp K self message signer w =
     (case hk_udp K (uw_server self) (uw_timeout self) signer message w of (answer, w) \<Rightarrow>
        (case run_update answer of
           Inr resp \<Rightarrow> if dn_truncation resp then Truncated else Ok resp
         | Inl e \<Rightarrow> Failed e, w))"

definition send_tcp :: "('n, 's, 'w) hickory \<Rightarrow> 'n update_writer \<Rightarrow> 'n update \<Rightarrow> 's \<Rightarrow> 'w \<Rightarrow> (string + dns_response) \<times> 'w" where
  "send_tcp K self message signer w =
     (case hk_connect K (uw_server self) (uw_timeout self) w of
        (Inl e, w) \<Rightarrow> (Inl e, w)
      | (Inr _, w) \<Rightarrow>
          (case hk_tcp K (uw_server self) (uw_timeout self) signer message w of (answer, w) \<Rightarrow> (run_update answer, w)))"

definition judge_response :: "('n, 's, 'w) hickory \<Rightarrow> 'n update_writer \<Rightarrow> rstr \<Rightarrow> dns_response \<Rightarrow> net_error + bool" where
  "judge_response K self name response =
     (let rcode = dn_response_code response in
      if rcode = NoError then Inr True else Inl (UpdateRejected name (uw_server self) (hk_rcode_text K rcode)))"

definition send_update :: "('n, 's, 'w) hickory \<Rightarrow> 'n update_writer \<Rightarrow> 'n update \<Rightarrow> rstr \<Rightarrow> 'w \<Rightarrow> (net_error + bool) \<times> 'w" where
  "send_update K self message name w =
     (case to_signer K (uw_tsig_key self) (uw_fudge_secs self) of
        Inl e \<Rightarrow> (Inl (Tsig e), w)
      | Inr signer \<Rightarrow>
          (case send_udp K self message signer w of
             (Ok resp, w) \<Rightarrow> (judge_response K self name resp, w)
           | (Truncated, w) \<Rightarrow>
               (case send_tcp K self message signer w of
                  (Inr resp, w) \<Rightarrow> (judge_response K self name resp, w)
                | (Inl e, w) \<Rightarrow> (Inl (UpdateRejected name (uw_server self) (''TCP retry failed: '' @ e)), w))
           | (Failed e, w) \<Rightarrow> (Inl (UpdateRejected name (uw_server self) e), w)))"

definition update_publish ::
    "('n, 's, 'w) hickory \<Rightarrow> 'n update_writer \<Rightarrow> rstr \<Rightarrow> rstr \<Rightarrow> u32 \<Rightarrow> 'w \<Rightarrow> (net_error + bool) \<times> 'w" where
  "update_publish K self name v ttl_seconds w =
     (case build_publish_message K self name v ttl_seconds of
        Inr message \<Rightarrow> send_update K self message name w
      | Inl _ \<Rightarrow> (Inr False, w))"

definition update_delete ::
    "('n, 's, 'w) hickory \<Rightarrow> 'n update_writer \<Rightarrow> rstr \<Rightarrow> rstr option \<Rightarrow> 'w \<Rightarrow> (net_error + bool) \<times> 'w" where
  "update_delete K self name v w =
     (case build_delete_message K self name v of
        Inr message \<Rightarrow> send_update K self message name w
      | Inl _ \<Rightarrow> (Inr False, w))"

section \<open>Outcomes\<close>

lemma algorithm_parse_exact:
  "algorithm_parse s = Inr a \<longleftrightarrow> to_ascii_lowercase (trim_end_matches (ch CHR ''.'') (trim s)) = algorithm_as_str a"
proof -
  have "ALGORITHM_HMAC_SHA256 \<noteq> ALGORITHM_HMAC_SHA384" "ALGORITHM_HMAC_SHA256 \<noteq> ALGORITHM_HMAC_SHA512"
    "ALGORITHM_HMAC_SHA384 \<noteq> ALGORITHM_HMAC_SHA512"
    by (simp_all add: ALGORITHM_HMAC_SHA256_def ALGORITHM_HMAC_SHA384_def ALGORITHM_HMAC_SHA512_def ascii_def ch_def)
  then show ?thesis by (cases a) (auto simp: algorithm_parse_def Let_def)
qed

lemma algorithm_roundtrip: "algorithm_parse (algorithm_as_str a) = Inr a"
proof -
  have "trim (algorithm_as_str a) = algorithm_as_str a"
    by (rule trim_id; cases a)
       (simp_all add: ALGORITHM_HMAC_SHA256_def ALGORITHM_HMAC_SHA384_def ALGORITHM_HMAC_SHA512_def ascii_def ch_def is_ascii_def is_whitespace_def)
  then show ?thesis unfolding algorithm_parse_exact
    by (cases a) (simp_all add: ALGORITHM_HMAC_SHA256_def ALGORITHM_HMAC_SHA384_def ALGORITHM_HMAC_SHA512_def ascii_def ch_def
      trim_end_matches_def to_ascii_lowercase_def lower_def)
qed

text \<open>The names that the writer may update.\<close>

definition in_zone :: "('n, 's, 'w) hickory \<Rightarrow> 'n update_writer \<Rightarrow> rstr \<Rightarrow> bool" where
  "in_zone K self name \<longleftrightarrow> (case parse_owner K name of Inl _ \<Rightarrow> False | Inr owner \<Rightarrow> hk_zone_of K (uw_zone self) owner)"

lemma build_publish_iff:
  "build_publish_message K self name v ttl = Inr m \<longleftrightarrow>
     (\<exists>owner. parse_owner K name = Inr owner \<and> in_zone K self name \<and> m = Append owner ttl [v] (uw_zone self) False True)"
  by (auto simp: build_publish_message_def in_zone_def andThen_Inr)

lemma build_delete_iff:
  "build_delete_message K self name v = Inr m \<longleftrightarrow>
     (\<exists>owner. parse_owner K name = Inr owner \<and> in_zone K self name \<and>
        m = (case v of None \<Rightarrow> DeleteRrset owner (uw_zone self) True | Some v \<Rightarrow> DeleteByRdata owner [v] (uw_zone self) True))"
  by (auto simp: build_delete_message_def in_zone_def andThen_Inr)

definition failure :: "'n update_writer \<Rightarrow> rstr \<Rightarrow> net_error + bool \<Rightarrow> bool" where
  "failure self name r \<longleftrightarrow> (\<exists>e. r = Inl (Tsig e)) \<or> (\<exists>why. r = Inl (UpdateRejected name (uw_server self) why))"

lemma send_update_outcome:
  "fst (send_update K self m name w) = Inr True \<or> failure self name (fst (send_update K self m name w))"
  by (auto simp: send_update_def judge_response_def failure_def Let_def split: sum.splits prod.splits udp_outcome.splits)

text \<open>What the exchange of one message comes to, told by the calls of the DNS crate alone: there is no signer for it, there
  is an answer, or there is none. A truncated answer over UDP counts for nothing, the message is then sent over TCP.\<close>

datatype exchange = NoSigner tsig_error | Answer dns_response | NoAnswer string

definition signs :: "('n, 's, 'w) hickory \<Rightarrow> 'n update_writer \<Rightarrow> 's \<Rightarrow> bool" where
  "signs K self s \<longleftrightarrow> (\<exists>key_name. hk_from_ascii K (tk_name (uw_tsig_key self)) = Inr key_name \<and>
     hk_signer K (tk_secret (uw_tsig_key self)) (tk_algorithm (uw_tsig_key self)) key_name (uw_fudge_secs self) = Inr s)"

fun silence :: "next_response \<Rightarrow> string option" where
  "silence (Next resp) = None"
| "silence (NextErr e) = Some e"
| "silence Ended = Some ''dns client returned no response''"
| "silence TimedOut = Some ''dns update timed out''"

inductive exchanged :: "('n, 's, 'w) hickory \<Rightarrow> 'n update_writer \<Rightarrow> 'n update \<Rightarrow> 'w \<Rightarrow> exchange \<Rightarrow> 'w \<Rightarrow> bool"
  for K self m w where
  key_name_bad: "hk_from_ascii K (tk_name (uw_tsig_key self)) = Inl e \<Longrightarrow>
    exchanged K self m w (NoSigner (InvalidKeyName (tk_name (uw_tsig_key self)) e)) w"
| key_bad: "hk_from_ascii K (tk_name (uw_tsig_key self)) = Inr key_name \<Longrightarrow>
    hk_signer K (tk_secret (uw_tsig_key self)) (tk_algorithm (uw_tsig_key self)) key_name (uw_fudge_secs self) = Inl e \<Longrightarrow>
    exchanged K self m w (NoSigner (SignerInit e)) w"
| udp_answer: "signs K self s \<Longrightarrow> hk_udp K (uw_server self) (uw_timeout self) s m w = (Next resp, w') \<Longrightarrow>
    \<not> dn_truncation resp \<Longrightarrow> exchanged K self m w (Answer resp) w'"
| udp_silent: "signs K self s \<Longrightarrow> hk_udp K (uw_server self) (uw_timeout self) s m w = (a, w') \<Longrightarrow>
    silence a = Some why \<Longrightarrow> exchanged K self m w (NoAnswer why) w'"
| no_connection: "signs K self s \<Longrightarrow> hk_udp K (uw_server self) (uw_timeout self) s m w = (Next short, w1) \<Longrightarrow> dn_truncation short \<Longrightarrow>
    hk_connect K (uw_server self) (uw_timeout self) w1 = (Inl e, w') \<Longrightarrow>
    exchanged K self m w (NoAnswer (''TCP retry failed: '' @ e)) w'"
| tcp_answer: "signs K self s \<Longrightarrow> hk_udp K (uw_server self) (uw_timeout self) s m w = (Next short, w1) \<Longrightarrow> dn_truncation short \<Longrightarrow>
    hk_connect K (uw_server self) (uw_timeout self) w1 = (Inr (), w2) \<Longrightarrow>
    hk_tcp K (uw_server self) (uw_timeout self) s m w2 = (Next resp, w') \<Longrightarrow> exchanged K self m w (Answer resp) w'"
| tcp_silent: "signs K self s \<Longrightarrow> hk_udp K (uw_server self) (uw_timeout self) s m w = (Next short, w1) \<Longrightarrow> dn_truncation short \<Longrightarrow>
    hk_connect K (uw_server self) (uw_timeout self) w1 = (Inr (), w2) \<Longrightarrow>
    hk_tcp K (uw_server self) (uw_timeout self) s m w2 = (a, w') \<Longrightarrow> silence a = Some why \<Longrightarrow>
    exchanged K self m w (NoAnswer (''TCP retry failed: '' @ why)) w'"

lemma exchanged_unique: "exchanged K self m w x w' \<Longrightarrow> exchanged K self m w y w'' \<Longrightarrow> x = y \<and> w' = w''"
  by (induction rule: exchanged.induct; erule exchanged.cases) (auto simp: signs_def)

text \<open>What the caller is told of an exchange.\<close>

definition told :: "('n, 's, 'w) hickory \<Rightarrow> 'n update_writer \<Rightarrow> rstr \<Rightarrow> 'n update \<Rightarrow> 'w \<Rightarrow> net_error + bool \<Rightarrow> 'w \<Rightarrow> bool" where
  "told K self name m w r w' \<longleftrightarrow>
     (r = Inr True \<longleftrightarrow> (\<exists>resp. exchanged K self m w (Answer resp) w' \<and> dn_response_code resp = 0)) \<and>
     (\<forall>resp. exchanged K self m w (Answer resp) w' \<and> dn_response_code resp \<noteq> 0 \<longrightarrow>
        r = Inl (UpdateRejected name (uw_server self) (hk_rcode_text K (dn_response_code resp)))) \<and>
     (\<forall>why. exchanged K self m w (NoAnswer why) w' \<longrightarrow> r = Inl (UpdateRejected name (uw_server self) why)) \<and>
     (\<forall>e. exchanged K self m w (NoSigner e) w' \<longrightarrow> r = Inl (Tsig e) \<and> w' = w) \<and>
     (\<exists>x. exchanged K self m w x w')"

lemma run_update_silence: "run_update a = Inl why \<longleftrightarrow> silence a = Some why"
  by (cases a) auto

lemma run_update_Inr: "run_update a = Inr resp \<longleftrightarrow> a = Next resp"
  by (cases a) auto

lemma toldI:
  assumes "exchanged K self m w x w1" "w' = w1"
    "r = (case x of NoSigner e \<Rightarrow> Inl (Tsig e) | NoAnswer why \<Rightarrow> Inl (UpdateRejected name (uw_server self) why)
      | Answer resp \<Rightarrow> if dn_response_code resp = 0 then Inr True
          else Inl (UpdateRejected name (uw_server self) (hk_rcode_text K (dn_response_code resp))))"
    "\<forall>e. x = NoSigner e \<longrightarrow> w' = w"
  shows "told K self name m w r w'"
proof -
  have "exchanged K self m w y w' \<longleftrightarrow> y = x" for y using exchanged_unique [OF assms(1)] assms(1,2) by blast
  then show ?thesis using assms(2-4) by (cases x) (auto simp: told_def)
qed

lemma no_signer_told:
  assumes "to_signer K (uw_tsig_key self) (uw_fudge_secs self) = Inl e"
  shows "told K self name m w (Inl (Tsig e)) w"
proof -
  have "exchanged K self m w (NoSigner e) w"
    using assms key_name_bad [of K self _ m w] key_bad [of K self _ _ m w]
    by (auto simp: to_signer_def andThen_def mapErr_def split: sum.splits)
  then show ?thesis by (rule toldI) simp_all
qed

lemma signer_signs: "to_signer K (uw_tsig_key self) (uw_fudge_secs self) = Inr s \<Longrightarrow> signs K self s"
  by (auto simp: to_signer_def signs_def andThen_def mapErr_def split: sum.splits)

lemma send_update_told:
  assumes "send_update K self m name w = (r, w')"
  shows "told K self name m w r w'"
proof (cases "to_signer K (uw_tsig_key self) (uw_fudge_secs self)")
  case (Inl e)
  then show ?thesis using assms no_signer_told [OF Inl] by (auto simp: send_update_def)
next
  case (Inr s)
  note s = signer_signs [OF Inr]
  obtain a w1 where udp: "hk_udp K (uw_server self) (uw_timeout self) s m w = (a, w1)" by (metis prod.exhaust)
  show ?thesis
  proof (cases "run_update a")
    case (Inl why)
    from udp_silent [OF s udp Inl [unfolded run_update_silence]] show ?thesis
      by (rule toldI) (use assms Inr udp Inl in \<open>simp_all add: send_update_def send_udp_def\<close>)
  next
    case response: (Inr resp)
    then have a: "a = Next resp" by (simp add: run_update_Inr)
    show ?thesis
    proof (cases "dn_truncation resp")
      case False
      from udp_answer [OF s udp [unfolded a] False] show ?thesis
        by (rule toldI) (use assms Inr udp a False in \<open>simp_all add: send_update_def send_udp_def judge_response_def Let_def NoError_def\<close>)
    next
      case cut: True
      obtain c w2 where con: "hk_connect K (uw_server self) (uw_timeout self) w1 = (c, w2)" by (metis prod.exhaust)
      show ?thesis
      proof (cases c)
        case (Inl e)
        from no_connection [OF s udp [unfolded a] cut con [unfolded Inl]] show ?thesis
          by (rule toldI) (use assms Inr udp a cut con Inl in \<open>simp_all add: send_update_def send_udp_def send_tcp_def\<close>)
      next
        case up: (Inr u)
        obtain b w3 where tcp: "hk_tcp K (uw_server self) (uw_timeout self) s m w2 = (b, w3)" by (metis prod.exhaust)
        have r: "(r, w') = ((case run_update b of Inr resp \<Rightarrow> judge_response K self name resp
            | Inl e \<Rightarrow> Inl (UpdateRejected name (uw_server self) (''TCP retry failed: '' @ e))), w3)"
          using assms Inr udp a cut con up tcp by (auto simp: send_update_def send_udp_def send_tcp_def split: sum.split)
        show ?thesis
        proof (cases "run_update b")
          case (Inl why)
          from tcp_silent [OF s udp [unfolded a] cut _ tcp Inl [unfolded run_update_silence]] con up
          have "exchanged K self m w (NoAnswer (''TCP retry failed: '' @ why)) w3" by simp
          then show ?thesis by (rule toldI) (use r in \<open>simp_all add: Inl\<close>)
        next
          case (Inr resp')
          then have "exchanged K self m w (Answer resp') w3"
            using tcp_answer [OF s udp [unfolded a] cut _ tcp [unfolded Inr [unfolded run_update_Inr]]] con up by simp
          then show ?thesis by (rule toldI) (use r in \<open>simp_all add: Inr judge_response_def Let_def NoError_def\<close>)
        qed
      qed
    qed
  qed
qed

text \<open>C14: What a caller learns of an update. \<open>Ok(false)\<close> means exactly that the name is not a name of the writer's zone, and
  then nothing has been sent. For a name of the zone \<open>Ok(true)\<close> means exactly that an answer that was not truncated, over
  UDP or in the retry over TCP, has the code NOERROR (0) for the message with the owner, the value and the zone; every other
  code, every failure of the transport and of the retry is a rejection that names the server and the cause, and a key that
  yields no signer is an error of its own, with nothing sent.\<close>

theorem update_outcomes:
  assumes "update_publish K self name v ttl w = (r, w1)" "update_delete K self name x w = (q, w2)"
  shows "(r = Inr False \<longleftrightarrow> \<not> in_zone K self name) \<and> (q = Inr False \<longleftrightarrow> \<not> in_zone K self name) \<and>
    (if in_zone K self name then r \<in> {Inr True} \<union> {r. failure self name r} \<and> q \<in> {Inr True} \<union> {r. failure self name r}
     else w1 = w \<and> w2 = w) \<and>
    (\<forall>owner. in_zone K self name \<and> parse_owner K name = Inr owner \<longrightarrow>
       told K self name (Append owner ttl [v] (uw_zone self) False True) w r w1 \<and>
       told K self name (case x of None \<Rightarrow> DeleteRrset owner (uw_zone self) True
         | Some y \<Rightarrow> DeleteByRdata owner [y] (uw_zone self) True) w q w2)"
proof (cases "in_zone K self name")
  case True
  then obtain owner where o: "parse_owner K name = Inr owner" by (auto simp: in_zone_def split: sum.splits)
  define m where "m = (case x of None \<Rightarrow> DeleteRrset owner (uw_zone self) True | Some y \<Rightarrow> DeleteByRdata owner [y] (uw_zone self) True)"
  have b: "build_publish_message K self name v ttl = Inr (Append owner ttl [v] (uw_zone self) False True)"
    "build_delete_message K self name x = Inr m"
    using True o by (simp_all add: build_publish_iff build_delete_iff m_def)
  then have s: "send_update K self (Append owner ttl [v] (uw_zone self) False True) name w = (r, w1)" "send_update K self m name w = (q, w2)"
    using assms by (simp_all add: update_publish_def update_delete_def)
  have "r = Inr True \<or> failure self name r" "q = Inr True \<or> failure self name q"
    using send_update_outcome [of K self _ name w] s by (metis fst_conv)+
  then show ?thesis using True send_update_told [OF s(1)] send_update_told [OF s(2)] o by (auto simp: failure_def m_def)
next
  case False
  have "\<exists>e. build_publish_message K self name v ttl = Inl e" "\<exists>e. build_delete_message K self name x = Inl e"
    using False by (metis sum.exhaust build_publish_iff) (use False in \<open>metis sum.exhaust build_delete_iff\<close>)
  then show ?thesis using assms False by (auto simp: update_publish_def update_delete_def)
qed

section \<open>The server\<close>

text \<open>What RFC 2136 says of the three updates: an RR is added to the set, the set is deleted, or one RR of it.\<close>

fun apply_update :: "'n update \<Rightarrow> ('n \<Rightarrow> rstr list) \<Rightarrow> 'n \<Rightarrow> rstr list" where
  "apply_update (Append owner ttl ss zone must_exist edns) f = f(owner := List.insert (concat ss) (f owner))"
| "apply_update (DeleteRrset owner zone edns) f = f(owner := [])"
| "apply_update (DeleteByRdata owner ss zone edns) f = f(owner := removeAll (concat ss) (f owner))"

lemma apply_update_twice: "apply_update m (apply_update m f) = apply_update m f"
  by (cases m) auto

text \<open>An update that is answered with NOERROR has happened; another one may have happened, as its answer may be lost or cut.\<close>

definition update_server :: "('n, 's, 'w) hickory \<Rightarrow> ('w \<Rightarrow> 'n \<Rightarrow> rstr list) \<Rightarrow> bool" where
  "update_server K vals \<longleftrightarrow>
     (\<forall>server t signer m w answer w'. hk_udp K server t signer m w = (answer, w') \<longrightarrow>
        vals w' = apply_update m (vals w) \<or>
        vals w' = vals w \<and> (\<forall>resp. answer = Next resp \<longrightarrow> dn_truncation resp \<or> dn_response_code resp \<noteq> NoError)) \<and>
     (\<forall>server t w. vals (snd (hk_connect K server t w)) = vals w) \<and>
     (\<forall>server t signer m w answer w'. hk_tcp K server t signer m w = (answer, w') \<longrightarrow>
        vals w' = apply_update m (vals w) \<or>
        vals w' = vals w \<and> (\<forall>resp. answer = Next resp \<longrightarrow> dn_response_code resp \<noteq> NoError))"

lemma send_udp_effect:
  assumes "update_server K vals" "send_udp K self m signer w = (u, w')"
  shows "vals w' = apply_update m (vals w) \<or> vals w' = vals w \<and> (\<forall>resp. u = Ok resp \<longrightarrow> dn_response_code resp \<noteq> NoError)"
proof -
  obtain a where a: "hk_udp K (uw_server self) (uw_timeout self) signer m w = (a, w')"
    using assms(2) by (auto simp: send_udp_def split: prod.splits)
  then have "vals w' = apply_update m (vals w) \<or>
      vals w' = vals w \<and> (\<forall>resp. a = Next resp \<longrightarrow> dn_truncation resp \<or> dn_response_code resp \<noteq> NoError)"
    using assms(1) unfolding update_server_def by blast
  then show ?thesis using assms(2) a by (cases a) (auto simp: send_udp_def split: if_splits)
qed

lemma send_tcp_effect:
  assumes "update_server K vals" "send_tcp K self m signer w = (r, w')"
  shows "vals w' = apply_update m (vals w) \<or> vals w' = vals w \<and> (\<forall>resp. r = Inr resp \<longrightarrow> dn_response_code resp \<noteq> NoError)"
proof -
  obtain x w1 where c: "hk_connect K (uw_server self) (uw_timeout self) w = (x, w1)" by (metis prod.exhaust)
  then have v: "vals w1 = vals w" using assms(1) unfolding update_server_def by (metis snd_conv)
  obtain a w2 where t: "hk_tcp K (uw_server self) (uw_timeout self) signer m w1 = (a, w2)" by (metis prod.exhaust)
  then have "vals w2 = apply_update m (vals w1) \<or> vals w2 = vals w1 \<and> (\<forall>resp. a = Next resp \<longrightarrow> dn_response_code resp \<noteq> NoError)"
    using assms(1) unfolding update_server_def by blast
  then show ?thesis using assms(2) c t v by (cases x) (auto simp: send_tcp_def run_update_Inr)
qed

lemma send_update_effect:
  assumes "update_server K vals" "send_update K self m name w = (r, w')"
  shows "vals w' = apply_update m (vals w) \<or> vals w' = vals w \<and> r \<noteq> Inr True"
proof (cases "to_signer K (uw_tsig_key self) (uw_fudge_secs self)")
  case (Inl e)
  then show ?thesis using assms(2) by (auto simp: send_update_def)
next
  case (Inr signer)
  obtain u w1 where u: "send_udp K self m signer w = (u, w1)" by (metis prod.exhaust)
  note udp = send_udp_effect [OF assms(1) u]
  show ?thesis
  proof (cases u)
    case (Ok resp)
    then show ?thesis using udp assms(2) u Inr by (auto simp: send_update_def judge_response_def Let_def)
  next
    case Truncated
    obtain x w2 where t: "send_tcp K self m signer w1 = (x, w2)" by (metis prod.exhaust)
    have "vals w2 = apply_update m (vals w) \<or> vals w2 = vals w \<and> (\<forall>resp. x = Inr resp \<longrightarrow> dn_response_code resp \<noteq> NoError)"
      using send_tcp_effect [OF assms(1) t] udp by (auto simp: apply_update_twice)
    then show ?thesis using assms(2) u t Inr Truncated
      by (cases x) (auto simp: send_update_def judge_response_def Let_def)
  next
    case (Failed e)
    then show ?thesis using udp assms(2) u Inr by (auto simp: send_update_def)
  qed
qed

text \<open>Names with the same owner have the same key; a name that has no owner has no values.\<close>

definition owner_key :: "('n, 's, 'w) hickory \<Rightarrow> rstr \<Rightarrow> 'n option" where
  "owner_key K name = ok (parse_owner K name)"

definition owner_values :: "('w \<Rightarrow> 'n \<Rightarrow> rstr list) \<Rightarrow> 'w \<Rightarrow> 'n option \<Rightarrow> rstr list" where
  "owner_values vals w k = (case k of None \<Rightarrow> [] | Some owner \<Rightarrow> vals w owner)"

lemma update_publish_effect:
  assumes "update_server K vals" "update_publish K self n v ttl w = (r, w')"
  shows "r \<noteq> Inr True \<and> vals w' = vals w \<or>
    (\<exists>owner. owner_key K n = Some owner \<and> vals w' = (vals w)(owner := List.insert v (vals w owner)))"
proof (cases "build_publish_message K self n v ttl")
  case (Inl e)
  then show ?thesis using assms(2) by (auto simp: update_publish_def)
next
  case (Inr m)
  then obtain owner where "owner_key K n = Some owner" "m = Append owner ttl [v] (uw_zone self) False True"
    by (auto simp: build_publish_iff owner_key_def)
  then show ?thesis using send_update_effect [OF assms(1), of self m n w r w'] assms(2) Inr by (auto simp: update_publish_def)
qed

lemma update_delete_effect:
  assumes "update_server K vals" "update_delete K self n x w = (r, w')"
  shows "vals w' = vals w \<or> (\<exists>owner l. owner_key K n = Some owner \<and> vals w' = (vals w)(owner := l))"
proof (cases "build_delete_message K self n x")
  case (Inl e)
  then show ?thesis using assms(2) by (auto simp: update_delete_def)
next
  case (Inr m)
  then obtain owner where o: "owner_key K n = Some owner"
      "m = (case x of None \<Rightarrow> DeleteRrset owner (uw_zone self) True | Some v \<Rightarrow> DeleteByRdata owner [v] (uw_zone self) True)"
    by (auto simp: build_delete_iff owner_key_def)
  have "\<exists>l. apply_update m (vals w) = (vals w)(owner := l)" unfolding o(2) by (cases x) (simp; blast)+
  note o(1) this
  then show ?thesis using send_update_effect [OF assms(1), of self m n w r w'] assms(2) Inr by (auto simp: update_delete_def)
qed

lemma update_multi_writer:
  assumes "update_server K vals"
  shows "multi_writer (\<lambda>_. True) (owner_key K) (owner_values vals) (update_publish K self) (update_delete K self)"
proof
  show "v \<in> set (owner_values vals w' (owner_key K n))" if "update_publish K self n v ttl w = (Inr True, w')" for w n v ttl w'
    using update_publish_effect [OF assms that] by (auto simp: owner_values_def)
  show "True \<and> (m \<noteq> owner_key K n \<longrightarrow> owner_values vals w' m = owner_values vals w m)"
    if "update_publish K self n v ttl w = (r, w')" for w n v ttl r w' m
    using update_publish_effect [OF assms that] by (auto simp: owner_values_def split: option.splits)
  show "True \<and> (m \<noteq> owner_key K n \<longrightarrow> owner_values vals w' m = owner_values vals w m)"
    if "update_delete K self n x w = (r, w')" for w n x r w' m
    using update_delete_effect [OF assms that] by (auto simp: owner_values_def split: option.splits)
  show "set (owner_values vals w m) \<subseteq> set (owner_values vals w' m)"
    if "update_publish K self n v ttl w = (r, w')" for w n v ttl r w' m
    using update_publish_effect [OF assms that] by (auto simp: owner_values_def split: option.splits)
qed

text \<open>C15: Over RFC 2136 every accepted value stands. When a series of publications is accepted by the server, all its values
  stand under the owners of their names, several under one name as well, although an update whose answer was truncated is
  sent twice; values from before stay.\<close>

theorem updates_all_stand:
  assumes "update_server K vals" "publish_each (update_publish K self) xs ttl w = (True, w')"
  shows "(\<forall>(n, v) \<in> set xs. \<exists>owner. parse_owner K n = Inr owner \<and> v \<in> set (vals w' owner)) \<and>
    (\<forall>owner. set (vals w owner) \<subseteq> set (vals w' owner))"
proof -
  note stand = multi_writer.all_stand [OF update_multi_writer [OF assms(1)] TrueI assms(2)]
  have "\<exists>owner. parse_owner K n = Inr owner \<and> v \<in> set (vals w' owner)" if "(n, v) \<in> set xs" for n v
    using stand [of None n v] that by (cases "owner_key K n") (auto simp: owner_values_def owner_key_def)
  moreover have "set (vals w owner) \<subseteq> set (vals w' owner)" for owner
    using stand [of "Some owner"] by (simp add: owner_values_def)
  ultimately show ?thesis by blast
qed

section \<open>A server to run on\<close>

text \<open>Names are their text in lower case; the server cuts every answer over UDP of an update with more than two bytes.\<close>

definition demo_hickory :: "(rstr, unit, rstr \<Rightarrow> rstr list) hickory" where
  "demo_hickory = \<lparr> hk_from_ascii = (\<lambda>s. if s = [] then Inl ''empty'' else Inr s), hk_to_lowercase = to_ascii_lowercase,
     hk_set_fqdn = (\<lambda>n. n), hk_zone_of = (\<lambda>z n. drop (length n - length z) n = z),
     hk_signer = (\<lambda>_ _ _ _. Inr ()),
     hk_udp = (\<lambda>_ _ _ m w. (Next \<lparr> dn_truncation = (case m of Append _ _ ss _ _ _ \<Rightarrow> 2 < length (concat ss) | _ \<Rightarrow> False),
       dn_response_code = NoError \<rparr>, apply_update m w)),
     hk_connect = (\<lambda>_ _ w. (Inr (), w)),
     hk_tcp = (\<lambda>_ _ _ m w. (Next \<lparr> dn_truncation = False, dn_response_code = NoError \<rparr>, apply_update m w)),
     hk_rcode_text = (\<lambda>_. ''refused'') \<rparr>"

lemma demo_update_server: "update_server demo_hickory (\<lambda>w. w)"
  by (auto simp: update_server_def demo_hickory_def)

definition demo_update_writer :: "rstr update_writer" where
  "demo_update_writer = \<lparr> uw_zone = [98], uw_server = ''s'', uw_tsig_key = \<lparr> tk_name = [107], tk_algorithm = HmacSha256, tk_secret = [1] \<rparr>,
     uw_timeout = 5, uw_fudge_secs = 300 \<rparr>"

interpretation updates: multi_writer "\<lambda>_. True" "owner_key demo_hickory" "owner_values (\<lambda>w. w)"
    "update_publish demo_hickory demo_update_writer" "update_delete demo_hickory demo_update_writer"
  by (rule update_multi_writer [OF demo_update_server])

lemma demo_owner: "parse_owner demo_hickory [97, 98] = Inr [97, 98]" "parse_owner demo_hickory [97] = Inr [97]"
proof -
  have "trim [97, 98] = [97, 98]" "trim [97] = [97]"
    by (rule trim_id; simp add: is_ascii_def is_whitespace_def)+
  then show "parse_owner demo_hickory [97, 98] = Inr [97, 98]" "parse_owner demo_hickory [97] = Inr [97]"
    by (simp_all add: parse_owner_def trim_end_matches_def ch_def demo_hickory_def to_ascii_lowercase_def lower_def)
qed

lemma demo_hickory_fields:
  "hk_from_ascii demo_hickory [a] = Inr [a]" "hk_zone_of demo_hickory z n \<longleftrightarrow> drop (length n - length z) n = z"
  "hk_signer demo_hickory b alg n f = Inr ()"
  "hk_udp demo_hickory server t () m w = (Next \<lparr> dn_truncation = (case m of Append _ _ ss _ _ _ \<Rightarrow> 2 < length (concat ss) | _ \<Rightarrow> False),
     dn_response_code = NoError \<rparr>, apply_update m w)"
  "hk_connect demo_hickory server t w = (Inr (), w)"
  "hk_tcp demo_hickory server t () m w = (Next \<lparr> dn_truncation = False, dn_response_code = NoError \<rparr>, apply_update m w)"
  by (simp_all add: demo_hickory_def)

lemma demo_update_accepted:
  "fst (update_publish demo_hickory demo_update_writer [97, 98] v ttl w) = Inr True"
  using demo_owner(1)
  by (simp add: update_publish_def build_publish_message_def send_update_def to_signer_def send_udp_def send_tcp_def
      judge_response_def demo_update_writer_def demo_hickory_fields)

theorem updates_all_stand_witness:
  "(let w' = snd (publish_each (update_publish demo_hickory demo_update_writer) [([97, 98], [5]), ([97, 98], [6, 6, 6])] 60 (\<lambda>_. []))
    in {[5], [6, 6, 6]} \<subseteq> set (w' [97, 98]))"
proof -
  let ?xs = "[([97, 98], [5]), ([97, 98], [6, 6, 6])]"
  obtain w1 where 1: "update_publish demo_hickory demo_update_writer [97, 98] [5] 60 (\<lambda>_. []) = (Inr True, w1)"
    by (metis demo_update_accepted prod.collapse)
  obtain w2 where 2: "update_publish demo_hickory demo_update_writer [97, 98] [6, 6, 6] 60 w1 = (Inr True, w2)"
    by (metis demo_update_accepted prod.collapse)
  have r: "publish_each (update_publish demo_hickory demo_update_writer) ?xs 60 (\<lambda>_. []) = (True, w2)" by (simp add: 1 2)
  from updates_all_stand [OF demo_update_server r] have "{[5], [6, 6, 6]} \<subseteq> set (w2 [97, 98])" by (simp add: demo_owner)
  then show ?thesis unfolding r by simp
qed

text \<open>The same server, refusing every update.\<close>

definition refusing_hickory :: "(rstr, unit, rstr \<Rightarrow> rstr list) hickory" where
  "refusing_hickory = demo_hickory\<lparr> hk_udp := (\<lambda>_ _ _ m w. (Next \<lparr> dn_truncation = False, dn_response_code = 5 \<rparr>, w)) \<rparr>"

theorem update_outcomes_witness:
  "fst (update_publish demo_hickory demo_update_writer [97, 98] [5] 60 (\<lambda>_. [])) = Inr True \<and>
   fst (update_delete demo_hickory demo_update_writer [97] None (\<lambda>_. [])) = Inr False \<and>
   fst (update_publish refusing_hickory demo_update_writer [97, 98] [5] 60 (\<lambda>_. [])) = Inl (UpdateRejected [97, 98] ''s'' ''refused'')"
proof -
  obtain r w1 where p: "update_publish demo_hickory demo_update_writer [97] [5] 60 (\<lambda>_. []) = (r, w1)" by (metis prod.exhaust)
  obtain q w2 where d: "update_delete demo_hickory demo_update_writer [97] None (\<lambda>_. []) = (q, w2)" by (metis prod.exhaust)
  have "\<not> in_zone demo_hickory demo_update_writer [97]"
    unfolding in_zone_def demo_owner by (simp add: demo_hickory_def demo_update_writer_def)
  with update_outcomes [OF p d] have out: "q = Inr False" by blast
  obtain r' w3 where p': "update_publish refusing_hickory demo_update_writer [97, 98] [5] 60 (\<lambda>_. []) = (r', w3)" by (metis prod.exhaust)
  obtain q' w4 where d': "update_delete refusing_hickory demo_update_writer [97, 98] None (\<lambda>_. []) = (q', w4)" by (metis prod.exhaust)
  have f: "hk_from_ascii refusing_hickory = hk_from_ascii demo_hickory" "hk_to_lowercase refusing_hickory = hk_to_lowercase demo_hickory"
    "hk_set_fqdn refusing_hickory = hk_set_fqdn demo_hickory"
    by (simp_all add: refusing_hickory_def)
  have o: "parse_owner refusing_hickory [97, 98] = Inr [97, 98]"
    unfolding parse_owner_def f by (rule demo_owner(1) [unfolded parse_owner_def])
  then have z: "in_zone refusing_hickory demo_update_writer [97, 98]"
    unfolding in_zone_def by (simp add: refusing_hickory_def demo_hickory_fields demo_update_writer_def)
  have s: "signs refusing_hickory demo_update_writer ()"
    by (simp add: signs_def refusing_hickory_def demo_update_writer_def demo_hickory_fields)
  let ?m = "Append [97, 98] 60 [[5]] (uw_zone demo_update_writer) False True"
  have e: "exchanged refusing_hickory demo_update_writer ?m (\<lambda>_. []) (Answer \<lparr> dn_truncation = False, dn_response_code = 5 \<rparr>) (\<lambda>_. [])"
    by (rule udp_answer [OF s]) (simp_all add: refusing_hickory_def)
  have t: "told refusing_hickory demo_update_writer [97, 98] ?m (\<lambda>_. []) r' w3"
    using update_outcomes [OF p' d'] z o by blast
  then obtain y where y: "exchanged refusing_hickory demo_update_writer ?m (\<lambda>_. []) y w3" by (auto simp: told_def)
  have "w3 = (\<lambda>_. [])" using exchanged_unique [OF e y] by simp
  with t e have "r' = Inl (UpdateRejected [97, 98] (uw_server demo_update_writer) (hk_rcode_text refusing_hickory 5))"
    unfolding told_def by force
  then show ?thesis using out d p' demo_update_accepted by (simp add: demo_update_writer_def refusing_hickory_def demo_hickory_def)
qed

end
