(* ===== verification/ResolverPool.thy ===== *)
theory ResolverPool
  imports RecordStore Endpoint "HOL-Library.Multiset"
begin

text \<open>
  The resolver pool of \<open>resolver_pool.rs\<close>: a query asks the upstream resolvers one after the
  other, hosts that are cooling down last, and keeps the health of each of them. What one
  resolver answers, the third-party lookup with its classification, is the function \<open>outcome\<close>; the
  monotonic clock is the function \<open>clock\<close>, read once for the order and once per answer.
\<close>

section \<open>The code\<close>

datatype host_spec = Bare ip_addr | WithPort ip_addr u16

fun host_resolve :: "host_spec \<Rightarrow> u16 \<Rightarrow> ip_addr \<times> u16" where
  "host_resolve (Bare ip) default_port = (ip, default_port)"
| "host_resolve (WithPort ip port) default_port = (ip, port)"

record pool_config =
  pool_port :: u16
  pool_timeout :: nat
  pool_cooldown :: nat
  failure_threshold :: u32

definition default_config :: pool_config where
  "default_config = \<lparr> pool_port = 53, pool_timeout = 5 * 10 ^ 9, pool_cooldown = 60 * 10 ^ 9, failure_threshold = 1 \<rparr>"

record host_health =
  consecutive_failures :: u32
  last_failure :: "nat option"

definition fresh_health :: host_health where
  "fresh_health = \<lparr> consecutive_failures = 0, last_failure = None \<rparr>"

definition record_success :: "host_health \<Rightarrow> host_health" where
  "record_success h = h\<lparr>consecutive_failures := 0, last_failure := None\<rparr>"

definition record_failure :: "nat \<Rightarrow> host_health \<Rightarrow> host_health" where
  "record_failure now h = h\<lparr>consecutive_failures :=
       (if consecutive_failures h = 0xFFFFFFFF then 0xFFFFFFFF else consecutive_failures h + 1), last_failure := Some now\<rparr>"

definition is_cooled_down :: "nat \<Rightarrow> u32 \<Rightarrow> nat \<Rightarrow> host_health \<Rightarrow> bool" where
  "is_cooled_down now threshold cooldown h \<longleftrightarrow>
     (if consecutive_failures h < threshold then False
      else (case last_failure h of None \<Rightarrow> False | Some ts \<Rightarrow> now - ts < cooldown))"

text \<open>\<open>Duration::MAX\<close> in nanoseconds.\<close>

definition DURATION_MAX :: nat where
  "DURATION_MAX = (2 ^ 64 - 1) * 10 ^ 9 + 999999999"

definition last_failure_age :: "nat \<Rightarrow> host_health \<Rightarrow> nat" where
  "last_failure_age now h = (case last_failure h of None \<Rightarrow> DURATION_MAX | Some ts \<Rightarrow> now - ts)"

definition pool_new :: "host_spec list \<Rightarrow> pool_config \<Rightarrow> (ip_addr \<times> u16 \<Rightarrow> bool) \<Rightarrow> net_error + ((ip_addr \<times> u16) \<times> host_health) list" where
  "pool_new hosts config build =
     (if failure_threshold config < 1 then Inl (InvalidConfig ''failure_threshold must be >= 1'')
      else
        let addrs = map (\<lambda>s. host_resolve s (pool_port config)) hosts in
        if \<not> list_all build addrs then Inl (InvalidConfig ''resolver setup failed'')
        else if addrs = [] then Inl (InvalidConfig ''ResolverPool requires at least one host'')
        else Inr (map (\<lambda>a. (a, fresh_health)) addrs))"

text \<open>The hosts by their position, in the order in which a query asks them.\<close>

definition ordered_hosts :: "pool_config \<Rightarrow> nat \<Rightarrow> host_health list \<Rightarrow> nat list" where
  "ordered_hosts config now hs =
     (let cooled = (\<lambda>i. is_cooled_down now (failure_threshold config) (pool_cooldown config) (hs ! i));
          preferred = filter (\<lambda>i. \<not> cooled i) [0..<length hs];
          deferred = filter cooled [0..<length hs]
      in preferred @ sort_key (\<lambda>i. - int (last_failure_age now (hs ! i))) deferred)"

datatype host_outcome = Found "rstr list" | NotFound | TransportFault | BadName string

fun ask_hosts :: "(nat \<Rightarrow> nat) \<Rightarrow> rstr \<Rightarrow> (nat \<Rightarrow> host_outcome) \<Rightarrow> nat list \<Rightarrow> nat list \<Rightarrow> host_health list \<Rightarrow>
    (net_error + rstr list option) \<times> host_health list" where
  "ask_hosts clock name outcome [] buffer hs = (Inr None, fold (\<lambda>i hs. hs[i := record_success (hs ! i)]) buffer hs)"
| "ask_hosts clock name outcome (i # is) buffer hs =
     (case outcome i of
        Found values \<Rightarrow>
          (Inr (Some values), fold (\<lambda>j hs. hs[j := record_failure (clock i) (hs ! j)]) buffer (hs[i := record_success (hs ! i)]))
      | NotFound \<Rightarrow> ask_hosts clock name outcome is (buffer @ [i]) hs
      | TransportFault \<Rightarrow> ask_hosts clock name outcome is buffer (hs[i := record_failure (clock i) (hs ! i)])
      | BadName reason \<Rightarrow> (Inl (InvalidName name reason), hs))"

definition pool_query :: "pool_config \<Rightarrow> nat \<Rightarrow> (nat \<Rightarrow> nat) \<Rightarrow> (nat \<Rightarrow> host_outcome) \<Rightarrow> rstr \<Rightarrow> host_health list \<Rightarrow>
    (net_error + rstr list option) \<times> host_health list" where
  "pool_query config now clock outcome name hs =
     (if name = [] then (Inl (InvalidName name ''name must be non-empty''), hs)
      else ask_hosts clock name outcome (ordered_hosts config now hs) [] hs)"

section \<open>The order of the hosts\<close>

lemma ordered_hosts_perm:
  "mset (ordered_hosts config now hs) = mset [0..<length hs] \<and> distinct (ordered_hosts config now hs)"
proof -
  have "mset (filter (\<lambda>i. \<not> P i) xs) + mset (filter P xs) = mset xs" for P and xs :: "nat list"
    by (induction xs) simp_all
  then have m: "mset (ordered_hosts config now hs) = mset [0..<length hs]"
    unfolding ordered_hosts_def Let_def mset_append mset_sort .
  then have "distinct (ordered_hosts config now hs)" by (metis distinct_upt mset_eq_imp_distinct_iff)
  with m show ?thesis by blast
qed

section \<open>One query\<close>

text \<open>The reference: the hosts asked before the first decisive answer, and that answer.\<close>

fun decisive :: "host_outcome \<Rightarrow> bool" where
  "decisive (Found _) = True"
| "decisive (BadName _) = True"
| "decisive _ = False"

definition asked :: "(nat \<Rightarrow> host_outcome) \<Rightarrow> nat list \<Rightarrow> nat list" where
  "asked outcome order = takeWhile (\<lambda>i. \<not> decisive (outcome i)) order"

definition decider :: "(nat \<Rightarrow> host_outcome) \<Rightarrow> nat list \<Rightarrow> nat option" where
  "decider outcome order = find (\<lambda>i. decisive (outcome i)) order"

definition verdict :: "rstr \<Rightarrow> (nat \<Rightarrow> host_outcome) \<Rightarrow> nat option \<Rightarrow> net_error + rstr list option" where
  "verdict name outcome d = (case d of None \<Rightarrow> Inr None
     | Some i \<Rightarrow> (case outcome i of Found vs \<Rightarrow> Inr (Some vs) | BadName r \<Rightarrow> Inl (InvalidName name r) | _ \<Rightarrow> Inr None))"

text \<open>The health of a host after the query: what it did, and whether the query had an answer.\<close>

definition health_after :: "(nat \<Rightarrow> nat) \<Rightarrow> (nat \<Rightarrow> host_outcome) \<Rightarrow> nat list \<Rightarrow> nat option \<Rightarrow> nat \<Rightarrow> host_health \<Rightarrow> host_health" where
  "health_after clock outcome before d i h =
     (if i \<in> set before then
        (case outcome i of
           NotFound \<Rightarrow> (case d of None \<Rightarrow> record_success h
             | Some j \<Rightarrow> (case outcome j of Found _ \<Rightarrow> record_failure (clock j) h | _ \<Rightarrow> h))
         | TransportFault \<Rightarrow> record_failure (clock i) h
         | _ \<Rightarrow> h)
      else if d = Some i then (case outcome i of Found _ \<Rightarrow> record_success h | _ \<Rightarrow> h)
      else h)"

lemma fold_update:
  assumes "distinct is" "set is \<subseteq> {..<length hs}"
  shows "length (fold (\<lambda>i hs. hs[i := f (hs ! i)]) is hs) = length hs \<and>
    (\<forall>j < length hs. fold (\<lambda>i hs. hs[i := f (hs ! i)]) is hs ! j = (if j \<in> set is then f (hs ! j) else hs ! j))"
  using assms by (induction "is" arbitrary: hs) (auto simp: nth_list_update)

lemma ask_hosts_spec:
  assumes "distinct (buffer @ order)" "set (buffer @ order) \<subseteq> {..<length hs}" "\<forall>i \<in> set buffer. outcome i = NotFound"
  shows "fst (ask_hosts clock name outcome order buffer hs) = verdict name outcome (decider outcome order) \<and>
    length (snd (ask_hosts clock name outcome order buffer hs)) = length hs \<and>
    (\<forall>i < length hs. snd (ask_hosts clock name outcome order buffer hs) ! i =
       health_after clock outcome (buffer @ asked outcome order) (decider outcome order) i (hs ! i))"
  using assms
proof (induction order arbitrary: buffer hs)
  case Nil
  then show ?case
    using fold_update [of buffer hs record_success]
    by (auto simp: verdict_def decider_def health_after_def asked_def)
next
  case (Cons i order)
  show ?case
  proof (cases "outcome i")
    case (Found vs)
    then show ?thesis
      using Cons.prems fold_update [of buffer "hs[i := record_success (hs ! i)]" "record_failure (clock i)"]
      by (auto simp: verdict_def decider_def health_after_def asked_def nth_list_update)
  next
    case NotFound
    then show ?thesis using Cons.IH [of "buffer @ [i]" hs] Cons.prems by (auto simp: decider_def asked_def)
  next
    case TransportFault
    let ?hs = "hs[i := record_failure (clock i) (hs ! i)]"
    have i: "i \<notin> set buffer" "i \<notin> set order" "i < length hs" using Cons.prems by auto
    have "i \<notin> set (asked outcome order)" "decider outcome order \<noteq> Some i"
      using i(2) by (auto simp: asked_def decider_def find_Some_iff dest: set_takeWhileD)
    then show ?thesis using Cons.IH [of buffer ?hs] Cons.prems TransportFault i
      by (auto simp: decider_def asked_def health_after_def nth_list_update)
  next
    case (BadName r)
    then show ?thesis using Cons.prems
      by (auto simp: verdict_def decider_def health_after_def asked_def)
  qed
qed

lemma pool_query_spec:
  assumes "name \<noteq> []"
  shows "fst (pool_query config now clock outcome name hs) = verdict name outcome (decider outcome (ordered_hosts config now hs)) \<and>
    snd (pool_query config now clock outcome name hs) = map (\<lambda>i. health_after clock outcome
      (asked outcome (ordered_hosts config now hs)) (decider outcome (ordered_hosts config now hs)) i (hs ! i)) [0..<length hs]"
proof -
  let ?o = "ordered_hosts config now hs"
  note perm = ordered_hosts_perm [of config now hs]
  then have "set ?o = {..<length hs}" by (metis atLeast_upt set_mset_mset)
  then have "distinct ([] @ ?o)" "set ([] @ ?o) \<subseteq> {..<length hs}" using perm by simp_all
  note r = ask_hosts_spec [OF this, of outcome clock name, simplified]
  have q: "pool_query config now clock outcome name hs = ask_hosts clock name outcome ?o [] hs"
    using assms by (simp add: pool_query_def)
  show ?thesis unfolding q using r by (intro conjI nth_equalityI) simp_all
qed

text \<open>The invariant of a health: a host without failures has no time of failure.\<close>

definition wf_health :: "host_health \<Rightarrow> bool" where
  "wf_health h \<longleftrightarrow> (consecutive_failures h = 0 \<longleftrightarrow> last_failure h = None)"

lemma wf_record: "wf_health (record_success h)" "wf_health (record_failure now h)"
proof -
  have "w + 1 \<noteq> 0" if "w \<noteq> 0xFFFFFFFF" for w :: u32
  proof
    assume "w + 1 = 0"
    then have "w = - 1" by (simp add: eq_neg_iff_add_eq_0)
    with that show False by simp
  qed
  then show "wf_health (record_failure now h)" by (simp add: wf_health_def record_failure_def)
qed (simp add: wf_health_def record_success_def)

lemma wf_health_after: "wf_health h \<Longrightarrow> wf_health (health_after clock outcome before d i h)"
  by (simp add: health_after_def wf_record split: host_outcome.split option.split)

section \<open>Properties\<close>

text \<open>Failover never loses an answer. A query with a non-empty name asks every host at most once, those that are
  not cooling down first, and returns the first decisive answer in this order, records or a bad
  name, and no records if there is none; so when some host, even one that is cooling down, has
  records and none calls the name bad, the query returns records.\<close>

theorem pool_failover:
  assumes "name \<noteq> []"
  shows "(let order = ordered_hosts config now hs; result = fst (pool_query config now clock outcome name hs) in
    mset order = mset [0..<length hs] \<and> result = verdict name outcome (decider outcome order) \<and>
    ((\<exists>i < length hs. \<exists>vs. outcome i = Found vs) \<and> (\<forall>i < length hs. \<forall>r. outcome i \<noteq> BadName r) \<longrightarrow>
      (\<exists>i < length hs. \<exists>vs. outcome i = Found vs \<and> result = Inr (Some vs))))"
proof -
  let ?o = "ordered_hosts config now hs"
  have o: "set ?o = {..<length hs}" using ordered_hosts_perm [of config now hs] by (metis atLeast_upt set_mset_mset)
  have "\<exists>i < length hs. \<exists>vs. outcome i = Found vs \<and> verdict name outcome (decider outcome ?o) = Inr (Some vs)"
    if a: "outcome i = Found vs" "i < length hs" and b: "\<forall>i < length hs. \<forall>r. outcome i \<noteq> BadName r" for i vs
  proof -
    obtain j where j: "decider outcome ?o = Some j"
      using a o by (cases "decider outcome ?o") (force simp: decider_def find_None_iff)+
    then have "j < length hs" "decisive (outcome j)" using o by (auto simp: decider_def find_Some_iff dest: nth_mem)
    with b j show ?thesis by (cases "outcome j") (auto simp: verdict_def)
  qed
  then show ?thesis
    using ordered_hosts_perm [of config now hs] pool_query_spec [OF assms] unfolding Let_def by auto
qed

theorem pool_failover_witness:
  "fst (pool_query default_config 10 (\<lambda>_. 20) (\<lambda>i. if i = 0 then Found [[7]] else TransportFault) [1]
     [\<lparr> consecutive_failures = 1, last_failure = Some 5 \<rparr>, fresh_health]) = Inr (Some [[7]])"
  using pool_failover [of "[1]" default_config 10 "[\<lparr> consecutive_failures = 1, last_failure = Some 5 \<rparr>, fresh_health]"
      "\<lambda>_. 20" "\<lambda>i. if i = 0 then Found [[7]] else TransportFault"]
  by (auto simp: Let_def less_Suc_eq split: if_splits)

text \<open>The health bookkeeping of a query. Exactly the hosts that were asked before the decisive answer change:
  a transport fault counts as a failure; an absence counts as a failure if a later host had records, as a
  success if no host did, and not at all if the name was bad; the host with the records is
  healthy again. A host without failures has no time of failure, before and after.\<close>

theorem pool_health_exact:
  assumes "name \<noteq> []" "i < length hs" "list_all wf_health hs"
  shows "(let order = ordered_hosts config now hs; before = takeWhile (\<lambda>i. \<not> decisive (outcome i)) order;
      after = snd (pool_query config now clock outcome name hs) in
    length after = length hs \<and> list_all wf_health after \<and>
    after ! i =
      (case outcome i of
         TransportFault \<Rightarrow> if i \<in> set before then record_failure (clock i) (hs ! i) else hs ! i
       | NotFound \<Rightarrow> if i \<notin> set before then hs ! i
           else (case find (\<lambda>i. decisive (outcome i)) order of
              None \<Rightarrow> record_success (hs ! i)
            | Some j \<Rightarrow> (case outcome j of Found _ \<Rightarrow> record_failure (clock j) (hs ! i) | _ \<Rightarrow> hs ! i))
       | Found _ \<Rightarrow> if find (\<lambda>i. decisive (outcome i)) order = Some i then record_success (hs ! i) else hs ! i
       | BadName _ \<Rightarrow> hs ! i))"
proof -
  let ?o = "ordered_hosts config now hs"
  have s: "snd (pool_query config now clock outcome name hs) =
      map (\<lambda>i. health_after clock outcome (asked outcome ?o) (decider outcome ?o) i (hs ! i)) [0..<length hs]"
    using pool_query_spec [OF assms(1)] by blast
  have "decisive (outcome i) \<Longrightarrow> i \<notin> set (asked outcome ?o)" by (auto simp: asked_def dest: set_takeWhileD)
  moreover have "\<not> decisive (outcome i) \<Longrightarrow> decider outcome ?o \<noteq> Some i" by (auto simp: decider_def find_Some_iff)
  moreover have "list_all wf_health (map (\<lambda>i. health_after clock outcome (asked outcome ?o) (decider outcome ?o) i (hs ! i)) [0..<length hs])"
    using assms(3) by (simp add: list_all_iff wf_health_after)
  moreover have "snd (pool_query config now clock outcome name hs) ! i =
      health_after clock outcome (asked outcome ?o) (decider outcome ?o) i (hs ! i)" using assms(2) by (simp add: s)
  moreover have "length (snd (pool_query config now clock outcome name hs)) = length hs" by (simp add: s)
  ultimately show ?thesis
    unfolding s [symmetric] Let_def asked_def [symmetric] decider_def [symmetric]
    by (cases "outcome i") (simp_all add: health_after_def split: option.split)
qed

theorem pool_health_exact_witness:
  "snd (pool_query default_config 10 (\<lambda>_. 20) (\<lambda>i. if i = 0 then NotFound else Found [[7]]) [1] [fresh_health, fresh_health]) ! 0 =
     record_failure 20 fresh_health"
proof -
  let ?out = "\<lambda>i :: nat. if i = 0 then NotFound else Found [[7]]"
  have o: "ordered_hosts default_config 10 [fresh_health, fresh_health] = [0, 1]"
    by (simp add: ordered_hosts_def is_cooled_down_def fresh_health_def default_config_def upt_rec)
  then show ?thesis
    using pool_health_exact [of "[1]" 0 "[fresh_health, fresh_health]" default_config 10 ?out "\<lambda>_. 20"]
    by (simp add: wf_health_def fresh_health_def Let_def)
qed

end
