(* ===== verification/HostedPrekeys.thy ===== *)
theory HostedPrekeys
  imports Client HttpWriters
begin

text \<open>
  A client whose zone is hosted at Cloudflare: \<open>publish.rs\<close> over the writer of \<open>cloudflare.rs\<close>. The comment of the publisher asks
  its callers for distinct names; the prekeys of a client share one.
\<close>

text \<open>The publisher never answers \<open>Ok(false)\<close>.\<close>

lemma cloudflare_publish_total: "fst (cloudflare_publish H p n v ttl w) \<noteq> Inr False"
  by (auto simp: cloudflare_publish_def written_def split: sum.splits prod.splits)

lemma generate_pool_length:
  assumes "generate_pool P works now ttl rand secrets t = (Inr pool, t')"
  shows "length pool = length secrets \<and> ((\<forall>a. length (x25519_public P a) = 32) \<longrightarrow> (\<forall>g \<in> set pool. wf_prekey (gp_prekey g)))"
proof -
  have "generate_loop P x now rand i secrets t = Inr (pool, t') \<Longrightarrow> length pool = length secrets \<and>
      ((\<forall>a. length (x25519_public P a) = 32) \<longrightarrow> (\<forall>g \<in> set pool. wf_prekey (gp_prekey g)))" for x i
    by (induction secrets arbitrary: i t pool) (fastforce simp: andThen_Inr wf_prekey_def split: prod.splits)+
  then show ?thesis using assms by (auto simp: generate_pool_def Let_def split: if_splits sum.splits prod.splits)
qed

text \<open>One round of the loop.\<close>

lemma publish_prekeys_step:
  assumes "d_publish D = cloudflare_publish H p"
    "publish_prekeys P D name ttl crypto works (entry # pool) published t w = (Inr n, t', w')"
  obtains wire w1 t1 where "cloudflare_publish H p name wire ttl w = (Inr True, w1)"
    "publish_prekeys P D name ttl crypto (drop 1 works) pool (if published = 0xFFFFFFFF then 0xFFFFFFFF else published + 1) t1 w1 =
      (Inr n, t', w')"
proof -
  obtain wire where wire: "prekey_sign P (gp_prekey entry) crypto = Inr wire" using assms(2) by (auto split: sum.splits)
  obtain r w1 where pub: "cloudflare_publish H p name wire ttl w = (r, w1)" by (metis prod.exhaust)
  have "r = Inr True"
    using assms wire pub cloudflare_publish_total [of H p name wire ttl w] by (cases r) auto
  moreover obtain x t1 where rec: "record_wire (take 1 works \<noteq> [False]) (pk_id (gp_prekey entry)) wire t = (x, t1)" by (metis prod.exhaust)
  ultimately show thesis using that [of wire w1 t1] assms wire pub by (cases x) (auto simp: rec)
qed

lemma publish_prekeys_hosted:
  assumes "cloudflare_zone H p zone" "d_publish D = cloudflare_publish H p"
  shows "zone_ok (zone w) \<Longrightarrow> publish_prekeys P D name ttl crypto works pool published t w = (Inr n, t', w') \<Longrightarrow>
    unat published + length pool < 2 ^ 32 \<Longrightarrow>
    unat n = unat published + length pool \<and>
    (\<exists>vs. length vs = min 1 (length pool) \<and> contents (zone w') name = vs @ drop (length vs) (contents (zone w) name))"
proof (induction pool arbitrary: works published t w)
  case (Cons entry pool)
  obtain wire w1 t1 where step: "cloudflare_publish H p name wire ttl w = (Inr True, w1)"
    "publish_prekeys P D name ttl crypto (drop 1 works) pool (if published = 0xFFFFFFFF then 0xFFFFFFFF else published + 1) t1 w1 =
      (Inr n, t', w')"
    by (rule publish_prekeys_step [OF assms(2) Cons.prems(2)])
  have max: "published \<noteq> 0xFFFFFFFF" using Cons.prems(3) by auto
  then have next_count: "unat (published + 1) = Suc (unat published)" using Cons.prems(3) by (simp add: unat_word_ariths)
  have w1: "zone_ok (zone w1)" "contents (zone w1) name = wire # drop 1 (contents (zone w) name)"
    using cloudflare_publish_effect [OF assms(1) Cons.prems(1) step(1)] by auto
  obtain vs where "unat n = unat (published + 1) + length pool" "length vs = min 1 (length pool)"
      "contents (zone w') name = vs @ drop (length vs) (contents (zone w1) name)"
    using Cons.IH [OF w1(1), of "drop 1 works" "published + 1" t1] step(2) max next_count Cons.prems(3) by auto
  then show ?case using w1(2) next_count
    by (intro conjI exI [of _ "if pool = [] then [wire] else vs"]) (cases pool; auto)+
qed auto

text \<open>C11: On a Cloudflare zone a pool of prekeys loses all but one. When \<open>refresh_prekeys\<close> succeeds, it reports the whole
  pool as published, and of the values under the name of the prekeys only the first has been replaced: with at most one
  value there before, at most one prekey of the pool can be found.\<close>

theorem hosted_prekeys_lost:
  assumes "cloudflare_zone H p zone" "zone_ok (zone w)" "d_publish D = cloudflare_publish H p"
    "refresh_prekeys P D works wire_works now rand secrets ttl self w = (Inr n, self', w')" "length secrets < 2 ^ 32"
    "length (contents (zone w) (prekey_rrset_name P (cl_username self) (cl_domain self))) \<le> 1"
  shows "unat n = length secrets \<and> length (contents (zone w') (prekey_rrset_name P (cl_username self) (cl_domain self))) \<le> 1"
proof -
  define ttl' where "ttl' = (if ttl = 0 then DEFAULT_PREKEY_TTL_SECONDS else ttl)"
  obtain pool t where pool: "generate_pool P works now ttl' rand secrets (cl_prekeys self) = (Inr pool, t)"
    using assms(4) by (auto simp: refresh_prekeys_def ttl'_def Let_def split: sum.splits prod.splits)
  obtain t' where pub: "publish_prekeys P D (prekey_rrset_name P (cl_username self) (cl_domain self)) (u32_or_max ttl') (cl_crypto self)
      wire_works pool 0 t w = (Inr n, t', w')"
    using assms(4) pool unfolding refresh_prekeys_def ttl'_def [symmetric] Let_def by (auto split: prod.splits)
  have len: "unat (0 :: u32) + length pool < 2 ^ 32" using generate_pool_length [OF pool] assms(5) by simp
  obtain vs where "unat n = length pool" "length vs = min 1 (length pool)"
      "contents (zone w') (prekey_rrset_name P (cl_username self) (cl_domain self)) =
       vs @ drop (length vs) (contents (zone w) (prekey_rrset_name P (cl_username self) (cl_domain self)))"
    using publish_prekeys_hosted [OF assms(1,3,2) pub len] by auto
  then show ?thesis using generate_pool_length [OF pool] assms(6) by auto
qed

definition hosted_dns :: "zone dns" where
  "hosted_dns = \<lparr> d_query = (\<lambda>z n. Inr (Some (contents z n))), d_publish = cloudflare_publish demo_http demo_cloudflare,
     d_delete = cloudflare_delete demo_http demo_cloudflare \<rparr>"

lemma demo_publish_ok: "\<exists>z'. cloudflare_publish demo_http demo_cloudflare n v ttl z = (Inr True, z')"
proof (cases "named z n")
  case (Cons x xs)
  then have "fst x \<in> ids z" unfolding named_def ids_def by (metis filter_eq_ConsD list.set_intros(1) image_eqI in_set_conv_decomp)
  with Cons show ?thesis
    by (cases x) (simp add: cloudflare_publish_def find_record_def demo_http_def find_request_def write_request_def written_def
        is_success_def ascii_def)
qed (simp add: cloudflare_publish_def find_record_def demo_http_def find_request_def write_request_def written_def is_success_def)

lemma demo_prekeys_ok:
  assumes "\<forall>entry \<in> set pool. wf_prekey (gp_prekey entry)"
  shows "\<exists>n r. publish_prekeys P hosted_dns name ttl crypto [] pool published t z = (Inr n, r)"
  using assms
proof (induction pool arbitrary: published t z)
  case (Cons entry pool)
  obtain body where "prekey_to_body (gp_prekey entry) = Inr body" using Cons.prems prekey_to_body_ok by simp
  then obtain wire where wire: "prekey_sign P (gp_prekey entry) crypto = Inr wire" by (simp add: prekey_sign_def)
  obtain z' where "cloudflare_publish demo_http demo_cloudflare name wire ttl z = (Inr True, z')" using demo_publish_ok by blast
  then show ?case using Cons.IH Cons.prems wire by (simp add: hosted_dns_def record_wire_def)
qed simp

lemma demo_refresh_ok:
  assumes "generate_pool P True now ttl rand secrets (cl_prekeys self) = (Inr pool, t)" "ttl \<noteq> 0"
    "\<forall>entry \<in> set pool. wf_prekey (gp_prekey entry)"
  shows "\<exists>n self' z'. refresh_prekeys P hosted_dns True [] now rand secrets ttl self z = (Inr n, self', z')"
proof -
  obtain n r where "publish_prekeys P hosted_dns (prekey_rrset_name P (cl_username self) (cl_domain self)) (u32_or_max ttl)
      (cl_crypto self) [] pool 0 t z = (Inr n, r)"
    using demo_prekeys_ok [OF assms(3)] by blast
  then show ?thesis using assms(1,2) by (cases r) (simp add: refresh_prekeys_def)
qed

theorem hosted_prekeys_lost_witness:
  "(case refresh_prekeys demo_prims hosted_dns True [] 5 (\<lambda>i. of_nat i + 1) [replicate 32 1, replicate 32 2] 60 demo_client [] of
     (r, self', w') \<Rightarrow> r = Inr 2 \<and> length (contents w' (prekey_rrset_name demo_prims (ascii ''bob'') (ascii ''b.x''))) \<le> 1)"
proof -
  let ?run = "refresh_prekeys demo_prims hosted_dns True [] 5 (\<lambda>i. of_nat i + 1) [replicate 32 1, replicate 32 2] 60 demo_client []"
  have alloc: "allocate_prekey_id MAX_PREKEY_ID_RETRIES rand i t = Inr (rand i, Suc i)" if "map_of t (rand i) = None" for rand i t
    using that allocate_prekey_id.simps(2) [of 15 rand i t] by (simp add: MAX_PREKEY_ID_RETRIES_def)
  obtain pool t where pool: "generate_pool demo_prims True 5 60 (\<lambda>i. of_nat i + 1) [replicate 32 1, replicate 32 2] [] = (Inr pool, t)"
    by (simp add: generate_pool_def alloc insert_prekey_def Let_def)
  have "\<forall>a. length (x25519_public demo_prims a) = 32" by (simp add: demo_prims_def)
  then have "\<forall>g \<in> set pool. wf_prekey (gp_prekey g)" using generate_pool_length [OF pool] by blast
  moreover have "cl_prekeys demo_client = []" by (simp add: demo_client_def)
  ultimately obtain n self' w' where run: "?run = (Inr n, self', w')"
    using demo_refresh_ok [of demo_prims 5 60 "\<lambda>i. of_nat i + 1" "[replicate 32 1, replicate 32 2]" demo_client pool t "[]"] pool by auto
  have "unat n = length [replicate 32 1, replicate 32 2 :: bytes] \<and>
      length (contents (id w') (prekey_rrset_name demo_prims (cl_username demo_client) (cl_domain demo_client))) \<le> 1"
    by (rule hosted_prekeys_lost [OF demo_cloudflare_zone _ _ run])
       (simp_all add: zone_ok_def hosted_dns_def contents_def named_def)
  moreover have "n = 2" if "unat n = 2" using that unsigned_word_eqI [of n 2, where 'a = nat] by simp
  ultimately show ?thesis unfolding run by (simp add: demo_client_def)
qed

end
