(* ===== verification/Factory.thy ===== *)
theory Factory
  imports Database DnsUpdate ResolverPool HostedPrekeys
begin

text \<open>
  The construction of a client from its configuration, \<open>client_factory.rs\<close>: the passphrase, the resolvers, the choice of the
  writer with the tokens saved by \<open>dnsmesh register\<close>, and the snapshots of the store that the tests share. Files,
  directories, the terminal and host names are the fields of \<open>machine\<close>, an extension of the record of the configuration.
\<close>

section \<open>Passphrases\<close>

datatype passphrase_source = Prompt | Env rstr | Literal rstr

record machine = host +
  m_prompt :: "string + rstr"
  m_is_dir :: "path \<Rightarrow> bool"
  m_read_dir :: "path \<Rightarrow> path list option"
  m_len :: "path \<Rightarrow> nat option"
  m_socket_addrs :: "rstr \<Rightarrow> string + string list"

definition from_cli :: "rstr option \<Rightarrow> passphrase_source" where
  "from_cli insecure_env = (case insecure_env of Some name \<Rightarrow> if name \<noteq> [] then Env name else Prompt | None \<Rightarrow> Prompt)"

fun read_passphrase :: "'x machine_scheme \<Rightarrow> passphrase_source \<Rightarrow> string + rstr" where
  "read_passphrase h Prompt = mapErr (\<lambda>_. ''reading passphrase from terminal'') (m_prompt h)"
| "read_passphrase h (Env name) =
     (case h_env h name of
        Some v \<Rightarrow> if v \<noteq> [] then Inr v else Inl ''passphrase env var is empty or unset''
      | None \<Rightarrow> Inl ''passphrase env var is empty or unset'')"
| "read_passphrase h (Literal s) = Inr s"

section \<open>Resolvers\<close>

definition host_spec_from_str :: "rstr \<Rightarrow> net_error + host_spec" where
  "host_spec_from_str s = (case parse_ip s of None \<Rightarrow> Inl (InvalidHost s ''invalid IP address'') | Some ip \<Rightarrow> Inr (Bare ip))"

definition WELL_KNOWN_RESOLVERS :: "rstr list" where
  "WELL_KNOWN_RESOLVERS = map ascii [''8.8.8.8'', ''8.8.4.4'', ''1.1.1.1'', ''1.0.0.1'', ''9.9.9.9'', ''149.112.112.112'',
     ''208.67.222.222'', ''208.67.220.220'']"

text \<open>\<open>collect::<Result<Vec<_>, _>>\<close>: the first error, or all the values.\<close>

fun collect_results :: "('e + 'a) list \<Rightarrow> 'e + 'a list" where
  "collect_results [] = Inr []"
| "collect_results (r # rs) = andThen r (\<lambda>x. andThen (collect_results rs) (\<lambda>xs. Inr (x # xs)))"

type_synonym pool = "((ip_addr \<times> u16) \<times> host_health) list"

definition pool_well_known :: "(ip_addr \<times> u16 \<Rightarrow> bool) \<Rightarrow> net_error + pool" where
  "pool_well_known build =
     andThen (collect_results (map host_spec_from_str WELL_KNOWN_RESOLVERS)) (\<lambda>hosts. pool_new hosts default_config build)"

text \<open>\<open>str::lines\<close>.\<close>

definition str_lines :: "rstr \<Rightarrow> rstr list" where
  "str_lines s =
     (let ls = split_on 10 s; ls = (if last ls = [] then butlast ls else ls)
      in map (\<lambda>l. if l \<noteq> [] \<and> last l = 13 then butlast l else l) ls)"

definition nameserver_line :: "rstr \<Rightarrow> host_spec option" where
  "nameserver_line line =
     (let trimmed = trim line in
      if trimmed = [] \<or> starts_with (ascii ''#'') trimmed \<or> starts_with (ascii '';'') trimmed then None
      else case strip_prefix (ascii ''nameserver'') trimmed of
        None \<Rightarrow> None
      | Some rest \<Rightarrow>
          let addr = trim rest in
          if addr = [] then None else ok (host_spec_from_str addr))"

definition build_reader_from_os :: "'x machine_scheme \<Rightarrow> (ip_addr \<times> u16 \<Rightarrow> bool) \<Rightarrow> pool option" where
  "build_reader_from_os h build =
     Option.bind (ok (read_to_string (host.truncate h) (path_from (ascii ''/etc/resolv.conf'')))) (\<lambda>body.
       let hosts = List.map_filter nameserver_line (str_lines body) in
       if hosts = [] then None else ok (pool_new hosts default_config build))"

text \<open>The well-known list parses, so \<open>expect\<close> fails only if no resolver can be set up; that panic is the outer \<open>None\<close>.\<close>

definition build_reader :: "'x machine_scheme \<Rightarrow> (ip_addr \<times> u16 \<Rightarrow> bool) \<Rightarrow> rstr list option \<Rightarrow> (string + pool) option" where
  "build_reader h build resolvers =
     (case resolvers of
        Some (r # rs) \<Rightarrow>
          Some (andThen (mapErr (\<lambda>_. ''invalid resolver'') (collect_results (map host_spec_from_str (r # rs)))) (\<lambda>hosts.
            mapErr (\<lambda>_. ''building resolver pool'') (pool_new hosts default_config build)))
      | _ \<Rightarrow>
          (case build_reader_from_os h build of
             Some pool \<Rightarrow> Some (Inr pool)
           | None \<Rightarrow> (case pool_well_known build of Inl _ \<Rightarrow> None | Inr pool \<Rightarrow> Some (Inr pool))))"

section \<open>Saved tokens\<close>

record saved_token =
  st_node :: rstr
  st_token :: rstr
  st_subject :: "rstr option"
  st_saved_at :: int

definition MAX_TOKEN_FILE_BYTES :: nat where
  "MAX_TOKEN_FILE_BYTES = 16 * 1024"

text \<open>\<open>char::is_control\<close>.\<close>

definition is_control :: "nat \<Rightarrow> bool" where
  "is_control c \<longleftrightarrow> c < 0x20 \<or> 0x7F \<le> c \<and> c < 0xA0"

definition contains_str :: "rstr \<Rightarrow> rstr \<Rightarrow> bool" where
  "contains_str p s \<longleftrightarrow> find_str p s \<noteq> None"

definition is_safe_node_authority :: "rstr \<Rightarrow> bool" where
  "is_safe_node_authority s =
     (if s = [] then False
      else if contains_str (ascii ''://'') s \<or> ch CHR ''/'' \<in> set s \<or> ch CHR ''@'' \<in> set s \<or> ch CHR ''?'' \<in> set s \<or> ch CHR ''#'' \<in> set s
      then False
      else list_all (\<lambda>c. \<not> is_control c \<and> \<not> is_whitespace c) (chars s))"

definition eq_ignore_ascii_case :: "rstr \<Rightarrow> rstr \<Rightarrow> bool" where
  "eq_ignore_ascii_case a b \<longleftrightarrow> to_ascii_lowercase a = to_ascii_lowercase b"

text \<open>\<open>path.extension() == Some("json")\<close>: the part of the name after its last dot, which is not its first character.\<close>

definition has_extension :: "rstr \<Rightarrow> path \<Rightarrow> bool" where
  "has_extension ext p \<longleftrightarrow> parts p \<noteq> [] \<and>
     (case rfind_char (ch CHR ''.'') (last (parts p)) of Some (stem, e) \<Rightarrow> stem \<noteq> [] \<and> e = ext | None \<Rightarrow> False)"

text \<open>One file of the directory; \<open>token_json\<close> is the deserialisation of \<open>SavedToken\<close>.\<close>

definition load_token :: "'x machine_scheme \<Rightarrow> (rstr \<Rightarrow> string + saved_token) \<Rightarrow> rstr \<Rightarrow> path \<Rightarrow> saved_token option" where
  "load_token h token_json current_subject path =
     (if \<not> has_extension (ascii ''json'') path then None
      else if (case m_len h path of Some n \<Rightarrow> MAX_TOKEN_FILE_BYTES < n | None \<Rightarrow> False) then None
      else (case read_to_string (host.truncate h) path of
        Inl _ \<Rightarrow> None
      | Inr body \<Rightarrow>
          (case token_json body of
             Inl _ \<Rightarrow> None
           | Inr t \<Rightarrow>
               if st_token t \<noteq> [] \<and> is_safe_node_authority (st_node t) then
                 if (case st_subject t of None \<Rightarrow> True | Some s \<Rightarrow> eq_ignore_ascii_case s current_subject) then Some t else None
               else None)))"

definition discover_saved_tokens ::
    "'x machine_scheme \<Rightarrow> (rstr \<Rightarrow> string + saved_token) \<Rightarrow> path \<Rightarrow> rstr \<Rightarrow> saved_token list option" where
  "discover_saved_tokens h token_json config_home current_subject =
     (let dir = path_child config_home ''tokens'' in
      if \<not> m_is_dir h dir then None
      else case m_read_dir h dir of
        None \<Rightarrow> None
      | Some entries \<Rightarrow>
          let out = List.map_filter (load_token h token_json current_subject) entries in
          if out = [] then None else Some out)"

text \<open>\<open>max_by_key\<close>: the last of the elements with the largest key.\<close>

definition max_by_key :: "('a \<Rightarrow> 'b::linorder) \<Rightarrow> 'a list \<Rightarrow> 'a option" where
  "max_by_key f xs = fold (\<lambda>x best. case best of None \<Rightarrow> Some x | Some b \<Rightarrow> if f b \<le> f x then Some x else Some b) xs None"

section \<open>Writers\<close>

text \<open>The warning about the permissions of the file is only logged. \<open>str::from_utf8(&bytes).map_or("", str::trim)\<close> is the text.\<close>

definition read_cloudflare_token :: "'x machine_scheme \<Rightarrow> path \<Rightarrow> string + rstr" where
  "read_cloudflare_token h path =
     andThen (mapErr (\<lambda>_. ''reading Cloudflare API token'') (h_read h path)) (\<lambda>bs.
       if \<not> is_utf8 bs then Inl ''Cloudflare API token must be UTF-8''
       else let token_str = trim bs in
         if token_str = [] then Inl ''Cloudflare API token file is empty'' else Inr token_str)"

definition read_tsig_secret :: "prims \<Rightarrow> serde \<Rightarrow> 'x machine_scheme \<Rightarrow> path \<Rightarrow> string + bytes" where
  "read_tsig_secret P S h path =
     andThen (mapErr (\<lambda>_. ''reading TSIG secret'') (h_read h path)) (\<lambda>bs.
       let text = (if is_utf8 bs then trim bs else []) in
       case strip_prefix (ascii ''base64:'') text of
         Some b64_body \<Rightarrow> (case b64_decode P (trim b64_body) of None \<Rightarrow> Inl ''base64-decoding TSIG secret'' | Some x \<Rightarrow> Inr x)
       | None \<Rightarrow>
           (case strip_prefix (ascii ''hex:'') text of
              Some hex_body \<Rightarrow> mapErr (\<lambda>_. ''hex-decoding TSIG secret'') (hex_decode S (trim hex_body))
            | None \<Rightarrow> Inr bs))"

definition resolve_server_addr :: "'x machine_scheme \<Rightarrow> rstr \<Rightarrow> string + string" where
  "resolve_server_addr h server =
     andThen (mapErr (\<lambda>_. ''resolving DNS UPDATE server'') (m_socket_addrs h server)) (\<lambda>addrs.
       case addrs of [] \<Rightarrow> Inl ''server resolved to zero addresses'' | a # _ \<Rightarrow> Inr a)"

datatype 'n writer =
    CloudflareWriter cloudflare_publisher
  | UpdateWriter "'n update_writer"
  | NodeTokenWriter node_token_publisher
  | StubWriter

definition build_writer ::
    "prims \<Rightarrow> serde \<Rightarrow> 'v http_api \<Rightarrow> ('n, 's, 'w) hickory \<Rightarrow> 'x machine_scheme \<Rightarrow> (publish_config \<times> path) option \<Rightarrow>
      (cloudflare_file_config \<times> path) option \<Rightarrow> saved_token list option \<Rightarrow> string + 'n writer \<times> bool" where
  "build_writer P S H K h publish cloudflare saved_tokens =
     (case cloudflare of
        Some (cf, token_path) \<Rightarrow>
          andThen (read_cloudflare_token h token_path) (\<lambda>token.
          andThen (mapErr (\<lambda>_. ''building CloudflarePublisher'') (cloudflare_new H (cloudflare_config_new (cf_zone_id cf) token))) (\<lambda>w.
            Inr (CloudflareWriter w, True)))
      | None \<Rightarrow>
          (case publish of
             Some (p, secret_path) \<Rightarrow>
               andThen (resolve_server_addr h (pc_server p)) (\<lambda>server.
               andThen (mapErr (\<lambda>_. ''unsupported TSIG algorithm'') (algorithm_parse (pc_tsig_algorithm p))) (\<lambda>algorithm.
               andThen (read_tsig_secret P S h secret_path) (\<lambda>secret.
               andThen (mapErr (\<lambda>_. ''building TSIG key from config'') (tsig_key_new K (pc_tsig_key_name p) algorithm secret)) (\<lambda>key.
               andThen (mapErr (\<lambda>_. ''building DnsUpdateWriter'') (update_writer_new K (update_config_new (pc_zone p) server key))) (\<lambda>w.
                 Inr (UpdateWriter w, True))))))
           | None \<Rightarrow>
               (case Option.bind saved_tokens (max_by_key st_saved_at) of
                  Some tok \<Rightarrow>
                    andThen (mapErr (\<lambda>_. ''building NodeTokenPublisher'')
                        (node_token_new H (node_token_config_new (ascii ''https://'' @ st_node tok) (st_token tok)))) (\<lambda>w.
                      Inr (NodeTokenWriter w, True))
                | None \<Rightarrow> Inr (StubWriter, False))))"

definition writer_for ::
    "prims \<Rightarrow> serde \<Rightarrow> 'v http_api \<Rightarrow> ('n, 's, 'w) hickory \<Rightarrow> 'x machine_scheme \<Rightarrow> (rstr \<Rightarrow> string + saved_token) \<Rightarrow>
      resolved_config \<Rightarrow> string + 'n writer \<times> bool" where
  "writer_for P S H K h token_json cfg =
     (let current_subject = r_username cfg @ ascii ''@'' @ r_domain cfg;
          saved_tokens = discover_saved_tokens h token_json (r_config_home cfg) current_subject
      in build_writer P S H K h (r_publish cfg) (r_cloudflare cfg) saved_tokens)"

definition require_publish :: "bool \<Rightarrow> string + unit" where
  "require_publish publish_configured =
     (if publish_configured then Inr () else Inl ''this command publishes to DNS but no publish destination is configured'')"

section \<open>The store of the tests\<close>

definition TEST_STORE_TTL :: u32 where
  "TEST_STORE_TTL = 86400"

type_synonym snapshot = "(rstr \<times> rstr list) list"

text \<open>Each name and value of the file is published again, in the order of the names.\<close>

definition load_snapshot :: "u64 \<Rightarrow> snapshot \<Rightarrow> mem_store \<Rightarrow> mem_store" where
  "load_snapshot now snapshot store =
     fold (\<lambda>(name, values). fold (\<lambda>v s. snd (mem_publish now name v TEST_STORE_TTL s)) values) snapshot store"

definition load_test_store ::
    "'x machine_scheme \<Rightarrow> (rstr \<Rightarrow> string + snapshot) \<Rightarrow> u64 \<Rightarrow> path \<Rightarrow> mem_store \<Rightarrow> (string + unit) \<times> mem_store" where
  "load_test_store h snapshot_json now path store =
     (if \<not> h_exists h path then (Inr (), store)
      else case read_to_string (host.truncate h) path of
        Inl _ \<Rightarrow> (Inl ''reading test store snapshot'', store)
      | Inr body \<Rightarrow>
          (case snapshot_json body of
             Inl _ \<Rightarrow> (Inl ''parsing test store JSON'', store)
           | Inr snapshot \<Rightarrow> (Inr (), load_snapshot now snapshot store)))"

text \<open>What \<open>flush_test_store\<close> writes: the live values of every live name, in the order of the names.\<close>

definition take_snapshot :: "u64 \<Rightarrow> mem_store \<Rightarrow> snapshot" where
  "take_snapshot now store =
     List.map_filter (\<lambda>name. case mem_query now name store of Inr (Some values) \<Rightarrow> Some (name, values) | _ \<Rightarrow> None)
       (mem_list_names now store)"

definition flush_test_store ::
    "(snapshot \<Rightarrow> string + bytes) \<Rightarrow> (path \<Rightarrow> bytes \<Rightarrow> (string, unit, 'w) step) \<Rightarrow> u64 \<Rightarrow> path \<Rightarrow> mem_store \<Rightarrow> (string, unit, 'w) step" where
  "flush_test_store write_json persist now path store =
     eff_bind (eff_lift (mapErr (\<lambda>_. ''serializing test store snapshot to JSON'') (write_json (take_snapshot now store)))) (\<lambda>body.
       eff_err (\<lambda>_. ''renaming tempfile'') (persist path body))"

section \<open>The client\<close>

text \<open>The variable that names the file of the test store counts in debug builds only.\<close>

definition test_store_path :: "bool \<Rightarrow> 'x machine_scheme \<Rightarrow> path option" where
  "test_store_path debug_assertions h =
     (if debug_assertions then map_option path_from (h_env h (ascii ''DMP_TEST_INMEMORY_STORE_FILE'')) else None)"

text \<open>What the client reads from and writes to.\<close>

datatype 'n backend = TestStore path mem_store | Network pool "'n writer"

record 'n built_client =
  bc_client :: dmp_client
  bc_publish_configured :: bool
  bc_backend :: "'n backend"

definition explain_open_failure :: "(string \<Rightarrow> bool) \<Rightarrow> client_error \<Rightarrow> string" where
  "explain_open_failure not_a_database err =
     (case err of
        Storage (LegacyPlaintextDatabase path) \<Rightarrow> ''the database was created before at-rest encryption and cannot be opened by this build''
      | Storage (Sqlite e) \<Rightarrow>
          if not_a_database e then ''could not open the identity database: wrong passphrase, or the file is damaged''
          else ''constructing DmpClient''
      | _ \<Rightarrow> ''constructing DmpClient'')"

definition client_config_for :: "resolved_config \<Rightarrow> rstr \<Rightarrow> client_config" where
  "client_config_for cfg passphrase = \<lparr> cfg_username = r_username cfg, cfg_passphrase = passphrase, cfg_domain = r_domain cfg,
     cfg_kdf_salt = r_kdf_salt cfg, cfg_rotation_chain_enabled = False \<rparr>"

text \<open>A panic of the reader's construction is the outer \<open>None\<close>; a test store that cannot be read stays as far as it got.\<close>

definition backend_for ::
    "prims \<Rightarrow> serde \<Rightarrow> 'v http_api \<Rightarrow> ('n, 's, 'w) hickory \<Rightarrow> 'x machine_scheme \<Rightarrow> (rstr \<Rightarrow> string + saved_token) \<Rightarrow>
      (rstr \<Rightarrow> string + snapshot) \<Rightarrow> (ip_addr \<times> u16 \<Rightarrow> bool) \<Rightarrow> bool \<Rightarrow> u64 \<Rightarrow> resolved_config \<Rightarrow>
      (string + 'n backend \<times> bool) option" where
  "backend_for P S H K h token_json snapshot_json build debug now cfg =
     (case test_store_path debug h of
        Some p \<Rightarrow> Some (Inr (TestStore p (snd (load_test_store h snapshot_json now p mem_new)), True))
      | None \<Rightarrow>
          (case build_reader h build (r_resolvers cfg) of
             None \<Rightarrow> None
           | Some reader \<Rightarrow> Some (andThen reader (\<lambda>reader.
               andThen (writer_for P S H K h token_json cfg) (\<lambda>(writer, configured). Inr (Network reader writer, configured))))))"

definition build_client ::
    "prims \<Rightarrow> serde \<Rightarrow> 'v http_api \<Rightarrow> ('n, 's, 'z) hickory \<Rightarrow> ('c, 'w) sqlite \<Rightarrow>
      ('w \<Rightarrow> 'c \<times> 'c \<times> 'c \<times> 'c \<Rightarrow> prekey_table \<times> contact_table \<times> replay_table \<times> intro_queue) \<Rightarrow>
      'x machine_scheme \<Rightarrow> (rstr \<Rightarrow> string + saved_token) \<Rightarrow> (rstr \<Rightarrow> string + snapshot) \<Rightarrow> (ip_addr \<times> u16 \<Rightarrow> bool) \<Rightarrow>
      (string \<Rightarrow> bool) \<Rightarrow> bool \<Rightarrow> u64 \<Rightarrow> resolved_config \<Rightarrow> passphrase_source \<Rightarrow> 'w \<Rightarrow> (string + 'n built_client) option \<times> 'w" where
  "build_client P S H K Q tables h token_json snapshot_json build not_a_database debug now cfg source w =
     (case read_passphrase h source of
        Inl e \<Rightarrow> (Some (Inl e), w)
      | Inr passphrase \<Rightarrow>
          (case backend_for P S H K h token_json snapshot_json build debug now cfg of
             None \<Rightarrow> (None, w)
           | Some (Inl e) \<Rightarrow> (Some (Inl e), w)
           | Some (Inr (backend, configured)) \<Rightarrow>
               (case open_client P Q tables (Some (r_db_path cfg)) (client_config_for cfg passphrase) w of
                  (Inl e, w) \<Rightarrow> (Some (Inl (explain_open_failure not_a_database e)), w)
                | (Inr client, w) \<Rightarrow> (Some (Inr \<lparr> bc_client = client, bc_publish_configured = configured, bc_backend = backend \<rparr>), w))))"

section \<open>The snapshot\<close>

lemma max_by_key_max:
  assumes "max_by_key f xs = Some x"
  shows "x \<in> set xs \<and> (\<forall>y \<in> set xs. f y \<le> f x)"
proof -
  have "(fold (\<lambda>x best. case best of None \<Rightarrow> Some x | Some b \<Rightarrow> if f b \<le> f x then Some x else Some b) xs None = None \<longrightarrow> xs = []) \<and>
    (\<forall>x. fold (\<lambda>x best. case best of None \<Rightarrow> Some x | Some b \<Rightarrow> if f b \<le> f x then Some x else Some b) xs None = Some x \<longrightarrow>
      x \<in> set xs \<and> (\<forall>y \<in> set xs. f y \<le> f x))"
    by (induction xs rule: rev_induct) (auto split: option.splits if_splits intro: order_trans)
  then show ?thesis using assms by (simp add: max_by_key_def)
qed

lemma max_by_key_Nil: "max_by_key f xs = None \<longleftrightarrow> xs = []"
proof -
  have "(fold (\<lambda>x best. case best of None \<Rightarrow> Some x | Some b \<Rightarrow> if f b \<le> f x then Some x else Some b) xs None = None) = (xs = [])"
    by (induction xs rule: rev_induct) (auto split: option.splits if_splits)
  then show ?thesis by (simp add: max_by_key_def)
qed

text \<open>Publishing a list of new distinct values under one name.\<close>

lemma put_entry_new: "v \<notin> e_value ` set es \<Longrightarrow> put_entry v x es = es @ [\<lparr> e_value = v, e_expires = x \<rparr>]"
  by (induction es) auto

lemma load_values:
  assumes "distinct vs" "\<forall>v \<in> set vs. v \<notin> e_value ` set (entries_at s n)"
  shows "entries_at (fold (\<lambda>v s. snd (mem_publish t n v ttl s)) vs s) m =
    (if m = n then entries_at s n @ map (\<lambda>v. \<lparr> e_value = v, e_expires = sat_add t (ucast ttl) \<rparr>) vs else entries_at s m)"
  using assms
proof (induction vs arbitrary: s)
  case (Cons v vs)
  have "\<forall>u \<in> set vs. u \<notin> e_value ` set (entries_at (snd (mem_publish t n v ttl s)) n)"
    using Cons.prems by (auto simp: entries_at_publish put_entry_new)
  then show ?case using Cons by (simp add: entries_at_publish put_entry_new)
qed simp

lemma load_snapshot_entries:
  assumes "distinct (map fst snap)" "\<forall>(n, vs) \<in> set snap. distinct vs" "\<forall>n \<in> fst ` set snap. entries_at s n = []"
  shows "entries_at (load_snapshot t snap s) m =
    (case map_of snap m of None \<Rightarrow> entries_at s m
     | Some vs \<Rightarrow> map (\<lambda>v. \<lparr> e_value = v, e_expires = sat_add t (ucast TEST_STORE_TTL) \<rparr>) vs)"
  using assms
proof (induction snap arbitrary: s)
  case (Cons x snap)
  obtain n vs where x: "x = (n, vs)" by (cases x)
  let ?s = "fold (\<lambda>v s. snd (mem_publish t n v TEST_STORE_TTL s)) vs s"
  have e: "entries_at ?s k = (if k = n then map (\<lambda>v. \<lparr> e_value = v, e_expires = sat_add t (ucast TEST_STORE_TTL) \<rparr>) vs else entries_at s k)" for k
    using Cons.prems load_values [of vs s n t TEST_STORE_TTL k] by (simp add: x)
  have "\<forall>k \<in> fst ` set snap. entries_at ?s k = []" using Cons.prems by (auto simp: x e)
  then have ih: "entries_at (load_snapshot t snap ?s) m = (case map_of snap m of None \<Rightarrow> entries_at ?s m
     | Some vs \<Rightarrow> map (\<lambda>v. \<lparr> e_value = v, e_expires = sat_add t (ucast TEST_STORE_TTL) \<rparr>) vs)"
    using Cons.IH [of ?s] Cons.prems by (simp add: x)
  have "load_snapshot t (x # snap) s = load_snapshot t snap ?s" by (simp add: load_snapshot_def x)
  moreover have "map_of snap n = None" using Cons.prems(1) by (simp add: x map_of_eq_None_iff)
  ultimately show ?case using ih e by (cases "m = n") (simp_all add: x split: option.splits)
qed (simp add: load_snapshot_def)

lemma take_snapshot_props:
  assumes "mem_inv s"
  shows "distinct (map fst (take_snapshot now s)) \<and> (\<forall>(n, vs) \<in> set (take_snapshot now s). distinct vs) \<and>
    map_of (take_snapshot now s) n = (case mem_query now n s of Inr (Some vs) \<Rightarrow> Some vs | _ \<Rightarrow> None)"
proof -
  let ?f = "\<lambda>name. case mem_query now name s of Inr (Some values) \<Rightarrow> Some (name, values) | _ \<Rightarrow> None"
  have d: "distinct (mem_list_names now s)"
    using assms unfolding mem_inv_def mem_list_names_def by (simp add: distinct_map_filter)
  have fst: "fst y = x" if "?f x = Some y" for x y using that by (auto split: sum.splits option.splits)
  have "distinct ns \<Longrightarrow> distinct (map fst (List.map_filter ?f ns)) \<and> fst ` set (List.map_filter ?f ns) \<subseteq> set ns" for ns
    by (induction ns) (auto simp: List.map_filter_simps dest!: fst split: option.splits)
  with d have 1: "distinct (map fst (take_snapshot now s))" unfolding take_snapshot_def by blast
  have "distinct (map e_value (entries_at s m))" for m
    using assms by (auto simp: mem_inv_def entries_at_def unwrap_or_def split: option.splits)
  then have "distinct vs" if "mem_query now m s = Inr (Some vs)" for m vs
    using that by (auto simp: mem_query_entries Let_def distinct_map_filter split: if_splits)
  then have 2: "\<forall>(n, vs) \<in> set (take_snapshot now s). distinct vs"
    by (auto simp: take_snapshot_def List.map_filter_def split: sum.splits option.splits)
  have live: "n \<in> set (mem_list_names now s)" if "mem_query now n s = Inr (Some vs)" for vs
    using that by (force simp: mem_query_def mem_list_names_def Let_def list_ex_iff filter_empty_conv dest: map_of_SomeD
        split: option.splits if_splits)
  have 3: "map_of (take_snapshot now s) n = (case mem_query now n s of Inr (Some vs) \<Rightarrow> Some vs | _ \<Rightarrow> None)"
  proof (cases "\<exists>vs. mem_query now n s = Inr (Some vs)")
    case True
    then obtain vs where vs: "mem_query now n s = Inr (Some vs)" by blast
    then have "(n, vs) \<in> set (take_snapshot now s)"
      using live by (force simp: take_snapshot_def List.map_filter_def)
    then show ?thesis using 1 vs by simp
  next
    case False
    then have "n \<notin> fst ` set (take_snapshot now s)"
      by (auto simp: take_snapshot_def List.map_filter_def split: sum.splits option.splits)
    then show ?thesis using False by (auto simp: map_of_eq_None_iff split: sum.splits option.splits)
  qed
  show ?thesis using 1 2 3 by blast
qed

text \<open>The store that two runs share keeps what is live. When one run writes its snapshot at time \<open>now\<close> and another reads it
  at time \<open>t\<close> into an empty store, then until the fixed lifetime is over every name answers with exactly the values, in
  the same order, that it had in the first store; the remaining lifetimes are not kept.\<close>

theorem snapshot_roundtrip:
  assumes "mem_inv s" "later < sat_add t (ucast TEST_STORE_TTL)"
  shows "mem_query later n (load_snapshot t (take_snapshot now s) mem_new) = mem_query now n s"
proof -
  note snap = take_snapshot_props [OF assms(1), of now n]
  have z: "entries_at mem_new k = []" for k by (simp add: entries_at_def mem_new_def unwrap_or_def)
  have d: "distinct (map fst (take_snapshot now s))" "\<forall>(n, vs) \<in> set (take_snapshot now s). distinct vs"
    "\<forall>k \<in> fst ` set (take_snapshot now s). entries_at mem_new k = []"
    using snap z by blast+
  have e: "entries_at (load_snapshot t (take_snapshot now s) mem_new) n =
      (case map_of (take_snapshot now s) n of None \<Rightarrow> []
       | Some vs \<Rightarrow> map (\<lambda>v. \<lparr> e_value = v, e_expires = sat_add t (ucast TEST_STORE_TTL) \<rparr>) vs)"
    unfolding load_snapshot_entries [OF d] z ..
  show ?thesis
  proof (cases "\<exists>vs. mem_query now n s = Inr (Some vs)")
    case True
    then obtain vs where vs: "mem_query now n s = Inr (Some vs)" by blast
    then have "vs \<noteq> []" by (auto simp: mem_query_entries Let_def split: if_splits)
    then show ?thesis using e snap vs assms(2) by (simp add: mem_query_entries [of later] comp_def)
  next
    case False
    then have "mem_query now n s = Inr None" by (auto simp: mem_query_entries Let_def split: if_splits)
    then show ?thesis using e snap by (simp add: mem_query_entries [of later])
  qed
qed

theorem snapshot_roundtrip_witness:
  "mem_query 90 [1] (load_snapshot 80 (take_snapshot 7 (snd (mem_publish 5 [1] [2] 60 mem_new))) mem_new) = Inr (Some [[2]])"
proof -
  let ?s = "snd (mem_publish 5 [1] [2] 60 mem_new)"
  have "mem_inv mem_new" by (simp add: mem_new_def mem_inv_def)
  then have "mem_inv ?s" by (simp add: mem_publish_refines)
  then have "mem_query 90 [1] (load_snapshot 80 (take_snapshot 7 ?s) mem_new) = mem_query 7 [1] ?s"
    by (rule snapshot_roundtrip) (simp add: TEST_STORE_TTL_def sat_add_def)
  also have "\<dots> = Inr (Some [[2]])" by (simp add: mem_publish_def mem_query_def mem_new_def entries_at_def unwrap_or_def sat_add_def Let_def)
  finally show ?thesis .
qed

section \<open>The saved token\<close>

lemma discover_load:
  "discover_saved_tokens h token_json home subject = Some ts \<Longrightarrow> t \<in> set ts \<Longrightarrow> \<exists>p. load_token h token_json subject p = Some t"
  by (auto simp: discover_saved_tokens_def List.map_filter_def Let_def split: if_splits option.splits) blast

lemma load_token_ok:
  "load_token h token_json subject p = Some t \<Longrightarrow> st_token t \<noteq> [] \<and> is_safe_node_authority (st_node t) \<and>
     (\<forall>s. st_subject t = Some s \<longrightarrow> eq_ignore_ascii_case s subject)"
  by (auto simp: load_token_def split: if_splits sum.splits option.splits)

lemma safe_authority_chars:
  "is_safe_node_authority s \<Longrightarrow> s \<noteq> [] \<and> set s \<inter> {ch CHR ''/'', ch CHR ''@'', ch CHR ''?'', ch CHR ''#''} = {}"
  by (auto simp: is_safe_node_authority_def split: if_splits)

lemma build_writer_node:
  "build_writer P S H K h publish cloudflare tokens = Inr (NodeTokenWriter q, b) \<longleftrightarrow>
     publish = None \<and> cloudflare = None \<and> b \<and> (\<exists>ts t. tokens = Some ts \<and> max_by_key st_saved_at ts = Some t \<and>
       node_token_new H (node_token_config_new (ascii ''https://'' @ st_node t) (st_token t)) = Inr q)"
  unfolding build_writer_def
  by (cases cloudflare; cases publish; cases tokens) (auto simp: andThen_Inr split: option.splits)

lemma node_origin:
  assumes "node \<noteq> []" "set node \<inter> {ch CHR ''/'', ch CHR ''@'', ch CHR ''?'', ch CHR ''#''} = {}" "92 \<notin> set node"
  shows "url_origin (ascii ''https://'' @ node) = Some (ascii ''https'', node)"
proof -
  have s: "\<not> slash b \<and> b \<noteq> ch CHR ''?'' \<and> b \<noteq> ch CHR ''#''" if "b \<in> set node" for b
    using assms that by (auto simp: slash_def)
  then have "dropWhile slash node = node" using assms(1) by (cases node) auto
  then have "authority node = node" using s by (simp add: authority_def takeWhile_eq_all_conv)
  moreover have p: "strip_prefix (ascii ''https://'') (ascii ''https://'' @ node) = Some node" by simp
  ultimately show ?thesis using assms(1) unfolding url_origin_def p by simp
qed

text \<open>C20: A saved token goes to its own node. When the writer of a configuration is the one of a saved token, then neither
  block of the configuration asks for another writer; the token is the newest of those saved for this identity (or for
  nobody in particular); and every request that the writer sends for a publication or a deletion carries exactly this
  token, by https and without redirects, to the host of the node that it was saved for: there is no slash, user name, query
  or fragment in the saved node, so the authority of the URL is the node itself, unless the node has a backslash, which is
  not excluded and ends the authority.\<close>

theorem saved_token_bound:
  assumes "writer_for P S H K h token_json cfg = Inr (NodeTokenWriter q, b)"
  shows "r_publish cfg = None \<and> r_cloudflare cfg = None \<and>
    (\<exists>ts t. discover_saved_tokens h token_json (r_config_home cfg) (r_username cfg @ ascii ''@'' @ r_domain cfg) = Some ts \<and>
      t \<in> set ts \<and> (\<forall>u \<in> set ts. st_saved_at u \<le> st_saved_at t) \<and>
      (\<forall>s. st_subject t = Some s \<longrightarrow> eq_ignore_ascii_case s (r_username cfg @ ascii ''@'' @ r_domain cfg)) \<and>
      np_base q = ascii ''https://'' @ st_node t \<and> st_node t \<noteq> [] \<and>
      set (st_node t) \<inter> {ch CHR ''/'', ch CHR ''@'', ch CHR ''?'', ch CHR ''#''} = {} \<and>
      hc_https_only (np_client q) \<and> \<not> hc_redirects (np_client q) \<and>
      list_all (sent_safely H (st_token t) (ascii ''https://'' @ st_node t))
        (requests (node_publish (logged H) q name v ttl) w @ requests (node_delete (logged H) q name x) w) \<and>
      (92 \<notin> set (st_node t) \<longrightarrow>
        list_all (\<lambda>(client, rq). url_origin (hr_url rq) = Some (ascii ''https'', st_node t))
          (requests (node_publish (logged H) q name v ttl) w @ requests (node_delete (logged H) q name x) w)))"
proof -
  let ?subject = "r_username cfg @ ascii ''@'' @ r_domain cfg"
  obtain ts t where t: "discover_saved_tokens h token_json (r_config_home cfg) ?subject = Some ts"
      "max_by_key st_saved_at ts = Some t" "r_publish cfg = None" "r_cloudflare cfg = None"
      "node_token_new H (node_token_config_new (ascii ''https://'' @ st_node t) (st_token t)) = Inr q"
    using assms by (auto simp: writer_for_def Let_def build_writer_node)
  note newest = max_by_key_max [OF t(2)]
  obtain p where load: "load_token h token_json ?subject p = Some t" using discover_load [OF t(1)] newest by blast
  note tok = load_token_ok [OF load]
  have safe: "st_node t \<noteq> []" "set (st_node t) \<inter> {ch CHR ''/'', ch CHR ''@'', ch CHR ''?'', ch CHR ''#''} = {}"
    using safe_authority_chars tok by blast+
  have "last (st_node t) \<in> set (st_node t)" using safe(1) by simp
  then have "last (st_node t) \<noteq> ch CHR ''/''" using safe(2) by (metis IntI empty_iff insertI1)
  then have "last (ascii ''https://'' @ st_node t) \<noteq> ch CHR ''/''" using safe(1) by simp
  then have base: "trim_end_matches (ch CHR ''/'') (ascii ''https://'' @ st_node t) = ascii ''https://'' @ st_node t"
    by (intro trim_end_id) blast
  have "\<not> loopback_form (ascii ''https://'' @ st_node t)" by (simp add: loopback_form_def ascii_def ch_def)
  then have "np_base q = ascii ''https://'' @ st_node t \<and> hc_https_only (np_client q) \<and> \<not> hc_redirects (np_client q)"
    using t(5) by (auto simp: node_token_new_def node_token_config_new_def base same_check loopback_check Let_def andThen_Inr)
  moreover have sent: "list_all (sent_safely H (st_token t) (ascii ''https://'' @ st_node t))
      (requests (node_publish (logged H) q name v ttl) w @ requests (node_delete (logged H) q name x) w)"
    using node_sends_safely [OF t(5), of name v ttl w x] base by (simp add: node_token_config_new_def)
  moreover have "list_all (\<lambda>(client, rq). url_origin (hr_url rq) = Some (ascii ''https'', st_node t))
      (requests (node_publish (logged H) q name v ttl) w @ requests (node_delete (logged H) q name x) w)" if "92 \<notin> set (st_node t)"
    by (rule list.pred_mono_strong [OF sent]) (use node_origin [OF safe that] in \<open>auto simp: sent_safely_def\<close>)
  ultimately show ?thesis using t newest tok safe by blast
qed

definition demo_machine :: machine where
  "demo_machine = \<lparr> h_env = (\<lambda>_. None), h_exists = (\<lambda>_. True), h_read = (\<lambda>_. Inr [65]), h_yaml = (\<lambda>_. Inl ''yaml''),
     m_prompt = Inr [1], m_is_dir = (\<lambda>_. True), m_read_dir = (\<lambda>p. Some [path_child p ''n.json'']),
     m_len = (\<lambda>_. Some 5), m_socket_addrs = (\<lambda>_. Inr [''1.1.1.1:53'']) \<rparr>"

definition demo_token :: saved_token where
  "demo_token = \<lparr> st_node = ascii ''n.x'', st_token = [1], st_subject = Some (ascii ''BOB@b.x''), st_saved_at = 3 \<rparr>"

definition demo_resolved :: resolved_config where
  "demo_resolved = \<lparr> r_config_home = path_from (ascii ''/h''), r_config_path = path_from (ascii ''/h/config.yaml''), r_username = ascii ''bob'',
     r_domain = ascii ''b.x'', r_db_path = path_from (ascii ''/h/dmp-rs.sqlite''), r_resolvers = None, r_publish = None,
     r_cloudflare = None, r_kdf_salt = Some (replicate 8 9) \<rparr>"

lemma demo_discover:
  "discover_saved_tokens demo_machine (\<lambda>_. Inr demo_token) (r_config_home demo_resolved)
     (r_username demo_resolved @ ascii ''@'' @ r_domain demo_resolved) = Some [demo_token]"
proof -
  have "parts (path_from (ascii ''n.json'')) = [ascii ''n.json'']" "\<not> absolute (path_from (ascii ''n.json''))"
    by (simp_all add: path_from_def ascii_def ch_def starts_with_def)
  then have last: "parts (path_child p ''n.json'') = parts p @ [ascii ''n.json'']" for p by (simp add: path_child_def path_join_def)
  have dot: "rfind_char (ch CHR ''.'') (ascii ''n.json'') = Some (ascii ''n'', ascii ''json'')"
    by (simp add: rfind_char_def ascii_def ch_def)
  have load: "load_token demo_machine (\<lambda>_. Inr demo_token) (ascii ''bob@b.x'') (path_child p ''n.json'') = Some demo_token" for p
  proof -
    have "is_utf8 [65]" by (simp add: is_utf8_def)
    moreover have "is_safe_node_authority (ascii ''n.x'')"
      by (simp add: is_safe_node_authority_def contains_str_def ascii_def ch_def chars_ascii is_control_def is_whitespace_def)
    moreover have "eq_ignore_ascii_case (ascii ''BOB@b.x'') (ascii ''bob@b.x'')"
      by (simp add: eq_ignore_ascii_case_def to_ascii_lowercase_def lower_def ascii_def ch_def)
    ultimately show ?thesis
      by (simp add: load_token_def has_extension_def last dot demo_machine_def demo_token_def MAX_TOKEN_FILE_BYTES_def
          read_to_string_def host.defs) (simp add: ascii_def)
  qed
  have "r_username demo_resolved @ ascii ''@'' @ r_domain demo_resolved = ascii ''bob@b.x''" by (simp add: demo_resolved_def ascii_def)
  moreover have "m_is_dir demo_machine p" "m_read_dir demo_machine p = Some [path_child p ''n.json'']" for p
    by (simp_all add: demo_machine_def)
  ultimately show ?thesis by (simp add: discover_saved_tokens_def List.map_filter_simps load)
qed

theorem saved_token_bound_witness:
  "(case writer_for demo_prims demo_serde demo_http demo_hickory demo_machine (\<lambda>_. Inr demo_token) demo_resolved of
      Inr (NodeTokenWriter q, b) \<Rightarrow> np_base q = ascii ''https://n.x'' \<and> b \<and>
        list_all (sent_safely demo_http [1] (ascii ''https://n.x'')) (requests (node_publish (logged demo_http) q [1] [2] 60) [])
    | _ \<Rightarrow> False)"
proof -
  have e: "starts_with (ascii ''https://'') (ascii ''https://n.x'')" "trim_end_matches (ch CHR ''/'') (ascii ''https://n.x'') = ascii ''https://n.x''"
    "ascii ''https://'' @ ascii ''n.x'' = ascii ''https://n.x''"
    by code_simp+
  obtain q where q: "node_token_new demo_http (node_token_config_new (ascii ''https://n.x'') [1]) = Inr q"
    using e by (simp add: node_token_new_def node_token_config_new_def Let_def bearer_headers_def demo_http_def)
  have "r_publish demo_resolved = None" "r_cloudflare demo_resolved = None" by (simp_all add: demo_resolved_def)
  then have w: "writer_for demo_prims demo_serde demo_http demo_hickory demo_machine (\<lambda>_. Inr demo_token) demo_resolved =
      Inr (NodeTokenWriter q, True)"
    unfolding writer_for_def Let_def demo_discover build_writer_node using q e(3) by (simp add: max_by_key_def demo_token_def)
  show ?thesis using saved_token_bound [OF w, of "[1]" "[2]" 60 "[]"] unfolding w demo_discover by (auto simp: demo_token_def e(3))
qed

end
