(* ===== verification/Registration.thy ===== *)
theory Registration
  imports Factory
begin

text \<open>
  Registering at a node, \<open>commands/register.rs\<close>: the challenge of the node is signed with the key of the identity, and the token or
  the TSIG key of the answer is saved for the writers of \<open>client_factory.rs\<close>. The HTTP client, the files that are written and
  the JSON and YAML crates are the fields of \<open>registrar\<close>.
\<close>

section \<open>The code\<close>

definition normalize_node :: "rstr \<Rightarrow> rstr" where
  "normalize_node node =
     (let s = trim node; s = (case find_str (ascii ''://'') s of Some (_, rest) \<Rightarrow> rest | None \<Rightarrow> s)
      in trim_end_matches (ch CHR ''/'') s)"

definition signing_payload :: "bytes \<Rightarrow> rstr \<Rightarrow> rstr \<Rightarrow> bytes" where
  "signing_payload challenge subject node = challenge @ subject @ node @ [1]"

record challenge_response =
  cr_challenge :: rstr
  cr_node :: rstr

record confirm_request =
  cq_subject :: rstr
  cq_ed25519_spk :: rstr
  cq_challenge :: rstr
  cq_signature :: rstr
  cq_x25519_pub :: "rstr option"

record plain_confirm_response =
  pr_token :: rstr
  pr_subject :: "rstr option"
  pr_expires_at :: "int option"

record tsig_confirm_response =
  tr_tsig_key_name :: rstr
  tr_tsig_secret_hex :: rstr
  tr_tsig_algorithm :: rstr
  tr_zone :: rstr

text \<open>The file of a token, as \<open>register\<close> writes it.\<close>

record token_file =
  tf_node :: rstr
  tf_subject :: rstr
  tf_token :: rstr
  tf_expires_at :: "int option"
  tf_registered_spk :: rstr
  tf_saved_at :: int

record 'w registrar =
  rg_get :: "rstr \<Rightarrow> (string, http_response, 'w) step"
  rg_post :: "rstr \<Rightarrow> confirm_request \<Rightarrow> (string, http_response, 'w) step"
  rg_challenge_json :: "bytes \<Rightarrow> string + challenge_response"
  rg_plain_json :: "bytes \<Rightarrow> string + plain_confirm_response"
  rg_tsig_json :: "bytes \<Rightarrow> string + tsig_confirm_response"
  rg_token_json :: "token_file \<Rightarrow> string + bytes"
  rg_create_dir :: "path \<Rightarrow> (string, unit, 'w) step"
  rg_write_secret :: "path \<Rightarrow> bytes \<Rightarrow> (string, unit, 'w) step"
  rg_save_config :: "path \<Rightarrow> config_file \<Rightarrow> (string, unit, 'w) step"
  rg_chmod :: "path \<Rightarrow> (string, unit, 'w) step"
  rg_now :: int

definition fetch_challenge :: "'w registrar \<Rightarrow> rstr \<Rightarrow> (string, challenge_response, 'w) step" where
  "fetch_challenge R base =
     eff_bind (eff_err (\<lambda>_. ''cannot reach the node'') (rg_get R (base @ ascii ''/v1/registration/challenge''))) (\<lambda>resp.
       if hs_status resp = 404 then eff_lift (Inl ''404 - the node does not expose registration'')
       else if hs_status resp = 429 then eff_lift (Inl ''registration rate-limited (429). Try again later.'')
       else if \<not> is_success (hs_status resp) then eff_lift (Inl ''challenge request failed'')
       else eff_lift (mapErr (\<lambda>_. ''decoding challenge response'') (rg_challenge_json R (hs_text resp))))"

definition confirm_error_for :: "nat \<Rightarrow> string" where
  "confirm_error_for status =
     (if status = 401 then ''node rejected the signature (401)''
      else if status = 403 then ''subject is not in the allowlist of the node (403)''
      else if status = 409 then ''subject is already held by a different key (409)''
      else if status = 404 then ''node returned 404 from confirm''
      else ''confirm failed'')"

text \<open>\<open>ConfirmRequestOwned\<close> is the request with the X25519 key; \<open>as_ref(false)\<close> leaves that out.\<close>

definition as_ref :: "bool \<Rightarrow> confirm_request \<Rightarrow> confirm_request" where
  "as_ref include_x25519 owned = (if include_x25519 then owned else owned\<lparr>cq_x25519_pub := None\<rparr>)"

definition run_challenge_confirm ::
    "prims \<Rightarrow> serde \<Rightarrow> 'w registrar \<Rightarrow> rstr \<Rightarrow> rstr \<Rightarrow> dmp_crypto \<Rightarrow> (string, challenge_response \<times> confirm_request, 'w) step" where
  "run_challenge_confirm P S R base subject crypto =
     eff_bind (fetch_challenge R base) (\<lambda>challenge.
     eff_bind (eff_lift (mapErr (\<lambda>_. ''server challenge not hex'') (hex_decode S (cr_challenge challenge)))) (\<lambda>challenge_bytes.
       let payload = signing_payload challenge_bytes subject (cr_node challenge); sig = sign_data P crypto payload in
       eff_return (challenge, \<lparr> cq_subject = subject, cq_ed25519_spk = hex_encode P (verifying_key crypto),
         cq_challenge = cr_challenge challenge, cq_signature = hex_encode P sig,
         cq_x25519_pub = Some (hex_encode P (x25519_pub crypto)) \<rparr>)))"

definition load_raw_config :: "'x machine_scheme \<Rightarrow> path \<Rightarrow> string + config_file" where
  "load_raw_config h path =
     andThen (mapErr (\<lambda>_. ''could not read config'') (read_to_string (host.truncate h) path)) (\<lambda>raw.
     andThen (mapErr (\<lambda>_. ''invalid YAML'') (h_yaml h raw)) (\<lambda>cfg.
       if trim (f_username cfg) = [] then Inl ''config: username must not be empty''
       else if trim (f_domain cfg) = [] then Inl ''config: domain must not be empty''
       else Inr cfg))"

record register_args =
  ra_node :: rstr
  ra_subject :: "rstr option"
  ra_scheme :: rstr

definition resolve_subject :: "config_file \<Rightarrow> register_args \<Rightarrow> rstr" where
  "resolve_subject cfg args = unwrap_or (ra_subject args) (f_username cfg @ ascii ''@'' @ f_domain cfg)"

definition config_home_for :: "path \<Rightarrow> path" where
  "config_home_for path = unwrap_or (path_parent path) (path_from (ascii ''.''))"

definition build_crypto :: "prims \<Rightarrow> serde \<Rightarrow> 'x machine_scheme \<Rightarrow> config_file \<Rightarrow> passphrase_source \<Rightarrow> string + dmp_crypto" where
  "build_crypto P S h cfg source =
     andThen (read_passphrase h source) (\<lambda>passphrase.
     andThen (transpose_option (\<lambda>hex_str. mapErr (\<lambda>_. ''config.kdf_salt is not valid hex'') (hex_decode S (trim hex_str)))
         (f_kdf_salt cfg)) (\<lambda>salt.
       mapErr (\<lambda>_. ''deriving identity from passphrase'') (from_passphrase P passphrase salt)))"

text \<open>The part that both commands begin with: the configuration, the subject, the key and the node.\<close>

definition prepare ::
    "prims \<Rightarrow> serde \<Rightarrow> 'x machine_scheme \<Rightarrow> path option \<Rightarrow> passphrase_source \<Rightarrow> register_args \<Rightarrow> (config_file \<Rightarrow> string + unit) \<Rightarrow>
      string + path \<times> config_file \<times> rstr \<times> dmp_crypto \<times> rstr" where
  "prepare P S h config_override source args check_config =
     andThen (case config_override of Some p \<Rightarrow> Inr p | None \<Rightarrow> default_path (host.truncate h)) (\<lambda>config_path.
     andThen (load_raw_config h config_path) (\<lambda>cfg.
     andThen (check_config cfg) (\<lambda>_.
     andThen (build_crypto P S h cfg source) (\<lambda>crypto.
       let subject = resolve_subject cfg args; node_host = normalize_node (ra_node args) in
       if node_host = [] then Inl ''--node must not be empty after stripping scheme/path''
       else Inr (config_path, cfg, subject, crypto, node_host)))))"

definition base_url :: "register_args \<Rightarrow> rstr \<Rightarrow> rstr" where
  "base_url args node_host = ra_scheme args @ ascii ''://'' @ node_host"

definition confirm ::
    "'w registrar \<Rightarrow> rstr \<Rightarrow> confirm_request \<Rightarrow> (bytes \<Rightarrow> string + 'a) \<Rightarrow> (string, 'a, 'w) step" where
  "confirm R url request decode =
     eff_bind (eff_err (\<lambda>_. ''confirm request failed to reach node'') (rg_post R url request)) (\<lambda>resp.
       if \<not> is_success (hs_status resp) then eff_lift (Inl (confirm_error_for (hs_status resp)))
       else eff_lift (mapErr (\<lambda>_. ''decoding confirm response'') (decode (hs_text resp))))"

definition run_register ::
    "prims \<Rightarrow> serde \<Rightarrow> 'x machine_scheme \<Rightarrow> 'w registrar \<Rightarrow> register_args \<Rightarrow> path option \<Rightarrow> passphrase_source \<Rightarrow> (string, unit, 'w) step" where
  "run_register P S h R args config_override source =
     eff_bind (eff_lift (prepare P S h config_override source args (\<lambda>_. Inr ()))) (\<lambda>(config_path, cfg, subject, crypto, node_host).
     let base = base_url args node_host in
     eff_bind (run_challenge_confirm P S R base subject crypto) (\<lambda>(challenge, owned).
     eff_bind (confirm R (base @ ascii ''/v1/registration/confirm'') (as_ref False owned) (rg_plain_json R)) (\<lambda>body.
     let tokens_dir = path_child (config_home_for config_path) ''tokens'' in
     eff_bind (rg_create_dir R tokens_dir) (\<lambda>_.
     let out_path = path_join tokens_dir (path_from (node_host @ ascii ''.json''));
         saved = \<lparr> tf_node = node_host, tf_subject = unwrap_or (pr_subject body) subject, tf_token = pr_token body,
           tf_expires_at = pr_expires_at body, tf_registered_spk = cq_ed25519_spk owned, tf_saved_at = rg_now R \<rparr> in
     eff_bind (eff_lift (rg_token_json R saved)) (\<lambda>payload.
       rg_write_secret R out_path payload)))))"

definition secret_blob :: "rstr \<Rightarrow> bytes" where
  "secret_blob tsig_secret_hex = ascii ''hex:'' @ tsig_secret_hex @ [10]"

definition decimal_port :: "u16 \<Rightarrow> rstr" where
  "decimal_port port = dec (unat port)"

definition publish_block :: "tsig_confirm_response \<Rightarrow> rstr \<Rightarrow> rstr option \<Rightarrow> u16 \<Rightarrow> path \<Rightarrow> publish_config" where
  "publish_block body node_host dns_server dns_port secret_path =
     (let server = (case dns_server of Some s \<Rightarrow> if trim s \<noteq> [] then trim s else node_host | None \<Rightarrow> node_host)
      in \<lparr> pc_zone = tr_zone body, pc_server = server @ ascii '':'' @ decimal_port dns_port,
           pc_tsig_key_name = tr_tsig_key_name body, pc_tsig_algorithm = tr_tsig_algorithm body,
           pc_tsig_secret_path = display_path secret_path \<rparr>)"

definition run_tsig_register ::
    "prims \<Rightarrow> serde \<Rightarrow> 'x machine_scheme \<Rightarrow> 'w registrar \<Rightarrow> register_args \<Rightarrow> rstr option \<Rightarrow> u16 \<Rightarrow> path option \<Rightarrow> passphrase_source \<Rightarrow>
      (string, unit, 'w) step" where
  "run_tsig_register P S h R args dns_server dns_port config_override source =
     eff_bind (eff_lift (prepare P S h config_override source args (\<lambda>cfg.
         if f_cloudflare cfg \<noteq> None then Inl ''config already has a cloudflare: block'' else Inr ())))
       (\<lambda>(config_path, cfg, subject, crypto, node_host).
     let base = base_url args node_host in
     eff_bind (run_challenge_confirm P S R base subject crypto) (\<lambda>(challenge, owned).
     eff_bind (confirm R (base @ ascii ''/v1/registration/tsig-confirm'') (as_ref True owned) (rg_tsig_json R)) (\<lambda>body.
     let secret_path = path_join (config_home_for config_path) (path_from (ascii ''tsig-'' @ node_host @ ascii ''.key'')) in
     eff_bind (rg_write_secret R secret_path (secret_blob (tr_tsig_secret_hex body))) (\<lambda>_.
     eff_bind (rg_save_config R config_path
         (cfg\<lparr>f_publish := Some (publish_block body node_host dns_server dns_port secret_path)\<rparr>)) (\<lambda>_.
       rg_chmod R config_path)))))"

section \<open>What the node is sent\<close>

text \<open>The same registrar with a log of its POST requests.\<close>

definition beside :: "('e, 'a, 'w) step \<Rightarrow> ('e, 'a, 'w \<times> 'l) step" where
  "beside f = (\<lambda>(w, l). case f w of (r, w) \<Rightarrow> (r, w, l))"

definition watched :: "'w registrar \<Rightarrow> ('w \<times> (rstr \<times> confirm_request) list) registrar" where
  "watched R = \<lparr> rg_get = (\<lambda>url. beside (rg_get R url)),
     rg_post = (\<lambda>url rq (w, l). case rg_post R url rq w of (r, w) \<Rightarrow> (r, w, l @ [(url, rq)])),
     rg_challenge_json = rg_challenge_json R, rg_plain_json = rg_plain_json R, rg_tsig_json = rg_tsig_json R, rg_token_json = rg_token_json R,
     rg_create_dir = (\<lambda>p. beside (rg_create_dir R p)), rg_write_secret = (\<lambda>p x. beside (rg_write_secret R p x)),
     rg_save_config = (\<lambda>p c. beside (rg_save_config R p c)), rg_chmod = (\<lambda>p. beside (rg_chmod R p)), rg_now = rg_now R \<rparr>"

definition posted :: "('e, 'a, 'w \<times> 'l list) step \<Rightarrow> 'w \<Rightarrow> 'l list" where
  "posted f w = snd (snd (f (w, [])))"

lemma eff_bind_lift: "eff_bind (eff_lift (Inr x)) F = F x"
  by (simp add: fun_eq_iff eff_bind_def)

text \<open>A step that posts nothing.\<close>

definition quiet :: "('e, 'a, 'w \<times> 'l) step \<Rightarrow> bool" where
  "quiet = keeps (\<lambda>w w'. snd w' = snd w)"

lemma quiet_intros [intro]:
  fixes g :: "('e, 'a, 'w) step" and f :: "('e, 'b, 'w \<times> 'l) step"
  shows "quiet (eff_lift r)" "quiet (beside g)" "quiet f \<Longrightarrow> quiet (eff_err h f)"
  "quiet f \<Longrightarrow> (\<And>a. quiet (k a)) \<Longrightarrow> quiet (eff_bind f k)"
proof -
  have tr: "reflp (\<lambda>w w' :: 'w \<times> 'l. snd w' = snd w)" "transp (\<lambda>w w' :: 'w \<times> 'l. snd w' = snd w)"
    by (auto simp: reflp_def transp_def)
  show "quiet (eff_lift r)" by (simp add: quiet_def keeps_def)
  show "quiet (beside g)" by (auto simp: quiet_def keeps_def beside_def split: prod.splits)
  show "quiet f \<Longrightarrow> quiet (eff_err h f)" unfolding quiet_def by blast
  show "quiet f \<Longrightarrow> (\<And>a. quiet (k a)) \<Longrightarrow> quiet (eff_bind f k)" unfolding quiet_def using tr(2) by blast
qed

lemma posted_once:
  assumes "f (w, []) = (Inr y, w1, [])" "F y = eff_bind (confirm (watched R) url rq decode) k" "\<And>a. quiet (k a)"
  shows "posted (eff_bind f F) w = [(url, rq)]"
proof -
  obtain r w2 where post: "rg_post R url rq w1 = (r, w2)" by (metis prod.exhaust)
  have keep: "snd (snd (k a (v, l))) = l" for a v l using assms(3) [of a] unfolding quiet_def keeps_def by (metis snd_conv)
  have sent: "rg_post (watched R) url rq (w1, []) = (r, w2, [(url, rq)])" by (simp add: watched_def post)
  then have "\<exists>x. confirm (watched R) url rq decode (w1, []) = (x, w2, [(url, rq)])"
    by (cases r) (auto simp: confirm_def eff_bind_def eff_err_def)
  then obtain x where x: "confirm (watched R) url rq decode (w1, []) = (x, w2, [(url, rq)])" by blast
  show ?thesis using keep by (cases x) (simp_all add: posted_def eff_bind_def assms(1) assms(2) x)
qed

text \<open>What anyone with the key of a request can check of its signature: that it is one for the bytes of a challenge, a subject
  and a node, in this order, and a byte 1.\<close>

definition signed_for :: "prims \<Rightarrow> serde \<Rightarrow> bytes \<Rightarrow> rstr \<Rightarrow> rstr \<Rightarrow> confirm_request \<Rightarrow> bool" where
  "signed_for P S c subject node rq \<longleftrightarrow>
     (case (hex_decode S (cq_ed25519_spk rq), hex_decode S (cq_signature rq)) of
        (Inr spk, Inr sig) \<Rightarrow> verify_signature P (c @ subject @ node @ [1]) sig spk
      | _ \<Rightarrow> False)"

definition relayed :: "prims \<Rightarrow> serde \<Rightarrow> dmp_crypto \<Rightarrow> rstr \<Rightarrow> bytes \<Rightarrow> rstr \<Rightarrow> rstr \<Rightarrow> confirm_request \<Rightarrow> bool" where
  "relayed P S crypto challenge c subject other rq \<longleftrightarrow> cq_subject rq = subject \<and> cq_challenge rq = challenge \<and>
     hex_decode S (cq_ed25519_spk rq) = Inr (verifying_key crypto) \<and>
     hex_decode S (cq_signature rq) = Inr (sign_data P crypto (c @ subject @ other @ [1])) \<and>
     signed_for P S c subject other rq \<and>
     (\<forall>subject' node'. subject' @ node' = subject @ other \<longrightarrow> signed_for P S c subject' node' rq)"

lemma prepared_crypto: "prepare P S h config_override source args check = Inr (config_path, cfg, subject, crypto, node_host) \<Longrightarrow>
    check cfg = Inr () \<and> wf_crypto P crypto"
  by (auto simp: prepare_def andThen_Inr build_crypto_def from_passphrase_def Let_def from_private_bytes_wf split: if_splits option.splits)

lemma prepared_other:
  "prepare P S h config_override source args check = Inr (config_path, cfg, x) \<Longrightarrow> check' cfg = Inr () \<Longrightarrow>
    prepare P S h config_override source args check' = Inr (config_path, cfg, x)"
  by (auto simp: prepare_def andThen_Inr Let_def split: if_splits)

lemma challenge_confirmed:
  assumes "ed25519 P" "digest P" "hex_codec P S" "wf_crypto P crypto"
    "rg_get R (base @ ascii ''/v1/registration/challenge'') w = (Inr answer, w1)" "is_success (hs_status answer)"
    "rg_challenge_json R (hs_text answer) = Inr \<lparr> cr_challenge = challenge, cr_node = other \<rparr>" "hex_decode S challenge = Inr c"
  shows "\<exists>rq. run_challenge_confirm P S (watched R) base subject crypto (w, []) =
      (Inr (\<lparr> cr_challenge = challenge, cr_node = other \<rparr>, rq), w1, []) \<and> relayed P S crypto challenge c subject other (as_ref x rq)"
proof -
  have hex: "hex_decode S (hex_encode P y) = Inr y" for y using assms(3) by (simp add: hex_codec_def)
  define rq where "rq = \<lparr> cq_subject = subject, cq_ed25519_spk = hex_encode P (verifying_key crypto), cq_challenge = challenge,
     cq_signature = hex_encode P (sign_data P crypto (c @ subject @ other @ [1])), cq_x25519_pub = Some (hex_encode P (x25519_pub crypto)) \<rparr>"
  have "hs_status answer \<noteq> 404 \<and> hs_status answer \<noteq> 429" using assms(6) by (auto simp: is_success_def)
  then have "fetch_challenge (watched R) base (w, []) = (Inr \<lparr> cr_challenge = challenge, cr_node = other \<rparr>, w1, [])"
    using assms(5-7) by (simp add: fetch_challenge_def eff_bind_def eff_err_def watched_def beside_def)
  then have "run_challenge_confirm P S (watched R) base subject crypto (w, []) = (Inr (\<lparr> cr_challenge = challenge, cr_node = other \<rparr>, rq), w1, [])"
    using assms(8) by (simp add: run_challenge_confirm_def eff_bind_def Let_def signing_payload_def rq_def)
  moreover have "subject' @ node' = subject @ other \<Longrightarrow> c @ subject' @ node' @ [1] = c @ subject @ other @ [1]" for subject' node' :: rstr
    by (metis append.assoc)
  then have split: "subject' @ node' = subject @ other \<Longrightarrow>
      verify_signature P (c @ subject' @ node' @ [1]) (sign_data P crypto (c @ subject @ other @ [1])) (verifying_key crypto)" for subject' node'
    using sign_verifies(1) [OF assms(1,2,4)] by metis
  then have "relayed P S crypto challenge c subject other (as_ref x rq)"
    by (auto simp: relayed_def signed_for_def as_ref_def rq_def hex simp del: append.simps)
  ultimately show ?thesis by blast
qed

text \<open>C18: Whoever answers the challenge names the node that the signature is for. When the host that a registration was
  pointed at answers with a challenge and the name of any node (nothing compares that name with the host), the command posts
  one request, to this host, and in it the signature of the user's key over the bytes of that challenge, of the subject
  and of the named node: so a host that passes on the challenge of another node gets a request for that node. The same
  signature is one for every other division of the bytes into a subject and a node, because the payload has no separator.
  This holds for \<open>register\<close> and, when the configuration has no cloudflare block, for \<open>tsig register\<close>.\<close>

theorem registration_relayed:
  assumes "ed25519 P" "digest P" "hex_codec P S"
    "prepare P S h config_override source args (\<lambda>_. Inr ()) = Inr (config_path, cfg, subject, crypto, host)"
    "rg_get R (ra_scheme args @ ascii ''://'' @ host @ ascii ''/v1/registration/challenge'') w = (Inr answer, w1)"
    "is_success (hs_status answer)"
    "rg_challenge_json R (hs_text answer) = Inr \<lparr> cr_challenge = challenge, cr_node = other \<rparr>" "hex_decode S challenge = Inr c"
  shows "(\<exists>rq. posted (run_register P S h (watched R) args config_override source) w =
      [(ra_scheme args @ ascii ''://'' @ host @ ascii ''/v1/registration/confirm'', rq)] \<and>
      relayed P S crypto challenge c subject other rq) \<and>
    (f_cloudflare cfg = None \<longrightarrow>
     (\<exists>rq. posted (run_tsig_register P S h (watched R) args dns_server dns_port config_override source) w =
      [(ra_scheme args @ ascii ''://'' @ host @ ascii ''/v1/registration/tsig-confirm'', rq)] \<and>
      relayed P S crypto challenge c subject other rq))"
proof -
  let ?base = "ra_scheme args @ ascii ''://'' @ host"
  have base: "base_url args host = ?base" by (simp add: base_url_def)
  have w: "wf_crypto P crypto" using prepared_crypto [OF assms(4)] by blast
  have quiet_rg: "quiet (rg_create_dir (watched R) p)" "quiet (rg_write_secret (watched R) p y)" "quiet (rg_save_config (watched R) p k)"
    "quiet (rg_chmod (watched R) p)" for p y k
    by (auto simp: watched_def)
  note run = challenge_confirmed [OF assms(1-3) w, of R ?base w answer w1 challenge other c subject, simplified, OF assms(5-8)]
  obtain rq where rq: "run_challenge_confirm P S (watched R) ?base subject crypto (w, []) = (Inr (\<lparr> cr_challenge = challenge, cr_node = other \<rparr>, rq), w1, [])"
    "relayed P S crypto challenge c subject other (as_ref False rq)" using run [of False] by blast
  then have rq': "relayed P S crypto challenge c subject other (as_ref True rq)" using run [of True] by auto
  have "posted (run_register P S h (watched R) args config_override source) w = [(?base @ ascii ''/v1/registration/confirm'', as_ref False rq)]"
    unfolding run_register_def assms(4) eff_bind_lift prod.case Let_def base
    by (rule posted_once, rule rq(1), subst prod.case, rule refl) (intro quiet_intros quiet_rg)
  moreover have "posted (run_tsig_register P S h (watched R) args dns_server dns_port config_override source) w =
      [(?base @ ascii ''/v1/registration/tsig-confirm'', as_ref True rq)]" if "f_cloudflare cfg = None"
  proof -
    have prep: "prepare P S h config_override source args (\<lambda>cfg. if f_cloudflare cfg \<noteq> None
        then Inl ''config already has a cloudflare: block'' else Inr ()) = Inr (config_path, cfg, subject, crypto, host)"
      by (rule prepared_other [OF assms(4)]) (simp add: that)
    show ?thesis unfolding run_tsig_register_def prep eff_bind_lift prod.case Let_def base
      by (rule posted_once, rule rq(1), subst prod.case, rule refl) (intro quiet_intros quiet_rg)
  qed
  ultimately show ?thesis using rq(2) rq' by auto
qed

definition demo_registrar :: "unit registrar" where
  "demo_registrar = \<lparr> rg_get = (\<lambda>_ w. (Inr \<lparr> hs_status = 200, hs_text = [] \<rparr>, w)), rg_post = (\<lambda>_ _ w. (Inl ''down'', w)),
     rg_challenge_json = (\<lambda>_. Inr \<lparr> cr_challenge = demo_hex [5], cr_node = ascii ''other.x'' \<rparr>), rg_plain_json = (\<lambda>_. Inl ''none''),
     rg_tsig_json = (\<lambda>_. Inl ''none''), rg_token_json = (\<lambda>_. Inr []), rg_create_dir = (\<lambda>_ w. (Inr (), w)),
     rg_write_secret = (\<lambda>_ _ w. (Inr (), w)), rg_save_config = (\<lambda>_ _ w. (Inr (), w)), rg_chmod = (\<lambda>_ w. (Inr (), w)), rg_now = 5 \<rparr>"

definition demo_file :: config_file where
  "demo_file = \<lparr> f_username = ascii ''bob'', f_domain = ascii ''b.x'', f_db_path = None, f_resolvers = None, f_kdf_salt = None,
     f_publish = None, f_cloudflare = None \<rparr>"

definition demo_args :: register_args where
  "demo_args = \<lparr> ra_node = ascii ''node.x'', ra_subject = None, ra_scheme = ascii ''https'' \<rparr>"

lemma demo_prepare:
  "\<exists>crypto. prepare demo_prims demo_serde (demo_machine\<lparr>h_yaml := (\<lambda>_. Inr demo_file)\<rparr>) (Some p) (Literal [1]) demo_args (\<lambda>_. Inr ()) =
     Inr (p, demo_file, ascii ''bob@b.x'', crypto, ascii ''node.x'')"
proof -
  have t: "trim (ascii ''bob'') = ascii ''bob''" "trim (ascii ''b.x'') = ascii ''b.x''" "trim (ascii ''node.x'') = ascii ''node.x''"
    by (rule trim_id; simp add: is_ascii_def is_whitespace_def ascii_def ch_def)+
  have n: "find_str (ascii ''://'') (ascii ''node.x'') = None" "trim_end_matches (ch CHR ''/'') (ascii ''node.x'') = ascii ''node.x''"
    by code_simp+
  have j: "ascii ''bob'' @ ascii ''@'' @ ascii ''b.x'' = ascii ''bob@b.x''" by (simp add: ascii_def)
  have loaded: "load_raw_config (demo_machine\<lparr>h_yaml := (\<lambda>_. Inr demo_file)\<rparr>) p = Inr demo_file"
    by (simp add: load_raw_config_def read_to_string_def host.defs demo_machine_def is_utf8_def demo_file_def t) (simp add: ascii_def)
  obtain crypto where "from_passphrase demo_prims [1] None = Inr crypto"
    by (simp add: from_passphrase_def from_private_bytes_def demo_prims_def demo_hash_def X25519_KEY_LEN_def DEFAULT_ARGON2_SALT_def Let_def ascii_def)
  then have "build_crypto demo_prims demo_serde (demo_machine\<lparr>h_yaml := (\<lambda>_. Inr demo_file)\<rparr>) demo_file (Literal [1]) = Inr crypto"
    by (simp add: build_crypto_def transpose_option_def demo_file_def)
  moreover have "resolve_subject demo_file demo_args = ascii ''bob@b.x''" "normalize_node (ra_node demo_args) = ascii ''node.x''"
    "ascii ''node.x'' \<noteq> []"
    by (simp_all add: resolve_subject_def normalize_node_def demo_args_def demo_file_def unwrap_or_def t n j Let_def) (simp add: ascii_def)
  ultimately show ?thesis by (simp add: prepare_def loaded Let_def)
qed

theorem registration_relayed_witness:
  "(case posted (run_register demo_prims demo_serde (demo_machine\<lparr>h_yaml := (\<lambda>_. Inr demo_file)\<rparr>) (watched demo_registrar) demo_args
        (Some (path_from (ascii ''/c''))) (Literal [1])) () of
      [(url, rq)] \<Rightarrow> url = ascii ''https://node.x/v1/registration/confirm'' \<and>
        signed_for demo_prims demo_serde [5] (ascii ''bob@b.x'') (ascii ''other.x'') rq \<and>
        signed_for demo_prims demo_serde [5] (ascii ''bob@b.'') (ascii ''xother.x'') rq
    | _ \<Rightarrow> False)"
proof -
  let ?p = "path_from (ascii ''/c'')"
  have hex: "hex_decode demo_serde (demo_hex [5]) = Inr [5]"
    using demo_hex_codec by (simp add: hex_codec_def demo_prims_def)
  obtain crypto where prep: "prepare demo_prims demo_serde (demo_machine\<lparr>h_yaml := (\<lambda>_. Inr demo_file)\<rparr>) (Some ?p) (Literal [1]) demo_args
      (\<lambda>_. Inr ()) = Inr (?p, demo_file, ascii ''bob@b.x'', crypto, ascii ''node.x'')"
    using demo_prepare by blast
  have get: "rg_get demo_registrar u () = (Inr \<lparr> hs_status = 200, hs_text = [] \<rparr>, ())" for u by (simp add: demo_registrar_def)
  have "ascii ''bob@b.'' @ ascii ''xother.x'' = ascii ''bob@b.x'' @ ascii ''other.x''"
    "ra_scheme demo_args @ ascii ''://'' @ ascii ''node.x'' @ ascii ''/v1/registration/confirm'' = ascii ''https://node.x/v1/registration/confirm''"
    by (simp_all add: ascii_def demo_args_def)
  note names = this
  have json: "is_success (hs_status \<lparr> hs_status = 200, hs_text = [] \<rparr>)"
    "rg_challenge_json demo_registrar (hs_text \<lparr> hs_status = 200, hs_text = [] \<rparr>) = Inr \<lparr> cr_challenge = demo_hex [5], cr_node = ascii ''other.x'' \<rparr>"
    by (simp_all add: is_success_def demo_registrar_def)
  obtain rq where rq: "posted (run_register demo_prims demo_serde (demo_machine\<lparr>h_yaml := (\<lambda>_. Inr demo_file)\<rparr>) (watched demo_registrar)
      demo_args (Some ?p) (Literal [1])) () = [(ascii ''https://node.x/v1/registration/confirm'', rq)]"
    "relayed demo_prims demo_serde crypto (demo_hex [5]) [5] (ascii ''bob@b.x'') (ascii ''other.x'') rq"
    using registration_relayed [OF demo_ed25519 demo_digest demo_hex_codec prep get json hex, of None 53] unfolding names(2) by blast
  show ?thesis using rq(2) names(1) unfolding rq(1) relayed_def by simp
qed

section \<open>The saved TSIG secret\<close>

lemma trim_newline:
  assumes "is_ascii s" "\<forall>b \<in> set s. \<not> is_whitespace (unat b)" "s \<noteq> []"
  shows "trim (s @ [10]) = s"
proof -
  let ?m = "map (\<lambda>b. (unat b, [b])) s"
  have chars: "char_list (s @ [10]) = ?m @ [(10, [10])]"
    using assms(1) by (simp add: split_chars_ascii is_ascii_def)
  have keep: "dropWhile (is_whitespace \<circ> fst) (xs @ ys) = xs @ ys"
    if "xs \<noteq> []" "\<not> is_whitespace (fst (hd xs))" for xs ys :: "(nat \<times> rstr) list"
    using that by (cases xs) simp_all
  have ends: "\<not> is_whitespace (fst (hd ?m))" "\<not> is_whitespace (fst (hd (rev ?m)))"
    using assms(2,3) by (simp_all add: hd_map hd_rev last_map)
  have "dropWhile (is_whitespace \<circ> fst) (?m @ [(10, [10])]) = ?m @ [(10, [10])]" using keep ends(1) assms(3) by simp
  moreover have "dropWhile (is_whitespace \<circ> fst) (rev (?m @ [(10, [10])])) = rev ?m"
    using keep [of "rev ?m" "[]"] ends(2) assms(3) by (simp add: is_whitespace_def)
  moreover have "concat (map snd ?m) = s" by (induction s) simp_all
  ultimately show ?thesis unfolding trim_def chars by simp
qed

text \<open>C19: A TSIG secret is read back as it was issued. The file that \<open>tsig register\<close> writes for the hexadecimal form of a secret
  is read by the construction of the writer as exactly that secret.\<close>

theorem tsig_secret_roundtrip:
  assumes "hex_codec P S" "h_read h path = Inr (secret_blob (hex_encode P secret))"
  shows "read_tsig_secret P S h path = Inr secret"
proof -
  let ?hex = "hex_encode P secret"
  have hex: "list_all (\<lambda>b. is_digit b \<or> ch CHR ''a'' \<le> b \<and> b \<le> ch CHR ''f'') ?hex" "hex_decode S ?hex = Inr secret"
    using assms(1) by (simp_all add: hex_codec_def)
  then have bytes: "b < 0x80 \<and> \<not> is_whitespace (unat b)" if "b \<in> set ?hex" for b
    using that by (auto simp: list_all_iff is_digit_def ch_def is_whitespace_def word_le_nat_alt word_less_nat_alt)
  have "b < 0x80 \<and> \<not> is_whitespace (unat b)" if "b \<in> set (ascii ''hex:'')" for b
    using that by (auto simp: ascii_def ch_def is_whitespace_def)
  then have all: "is_ascii (ascii ''hex:'' @ ?hex)" "\<forall>b \<in> set (ascii ''hex:'' @ ?hex). \<not> is_whitespace (unat b)"
    using bytes by (auto simp: is_ascii_def list_all_iff)
  have read: "trim (secret_blob ?hex) = ascii ''hex:'' @ ?hex"
    using trim_newline [OF all] by (simp add: secret_blob_def ascii_def)
  have "is_utf8 (secret_blob ?hex)" using all(1) by (intro is_utf8_ascii) (simp add: secret_blob_def is_ascii_def)
  moreover have "strip_prefix (ascii ''base64:'') (ascii ''hex:'' @ ?hex) = None" by (simp add: strip_prefix_def ascii_def ch_def)
  moreover have "trim ?hex = ?hex" using bytes by (intro trim_id) (auto simp: is_ascii_def list_all_iff)
  ultimately show ?thesis using assms(2) hex(2) read
    by (simp add: read_tsig_secret_def Let_def strip_prefix_def [of "ascii ''hex:''"])
qed

theorem tsig_secret_roundtrip_witness:
  "read_tsig_secret demo_prims demo_serde (demo_machine\<lparr>h_read := (\<lambda>_. Inr (secret_blob (hex_encode demo_prims [1, 2])))\<rparr>) (path_from []) = Inr [1, 2]"
  by (rule tsig_secret_roundtrip [OF demo_hex_codec]) simp

end
