(* ===== verification/Maildir.thy ===== *)
theory Maildir
  imports Client Effects
begin

text \<open>
  The mail side of the command line: the message that a mail program hands to \<open>send -t\<close>, \<open>mua/rfc5322.rs\<close>, and the file that
  \<open>recv --maildir\<close> writes for a received message, \<open>mua/maildir.rs\<close>. The parsed form of a mail and the directory operations
  belong to third-party crates.
\<close>

section \<open>Reading a mail\<close>

text \<open>What the parser finds: the addresses of the three headers, the subject and the first text part.\<close>

record mail =
  mail_to :: "rstr option list option"
  mail_cc :: "rstr option list option"
  mail_bcc :: "rstr option list option"
  mail_subject :: "rstr option"
  mail_body_text :: "rstr option"

record parsed_message =
  pm_recipient :: rstr
  pm_subject :: "rstr option"
  pm_body :: bytes

definition collect_addresses :: "rstr option list option \<Rightarrow> rstr list \<Rightarrow> rstr list" where
  "collect_addresses field out = (case field of None \<Rightarrow> out | Some addrs \<Rightarrow> out @ List.map_filter (\<lambda>a. a) addrs)"

definition rfc5322_parse :: "(bytes \<Rightarrow> mail option) \<Rightarrow> bytes \<Rightarrow> string + parsed_message" where
  "rfc5322_parse parser raw_bytes =
     (case parser raw_bytes of
        None \<Rightarrow> Inl ''could not parse RFC 5322 message from stdin''
      | Some parsed \<Rightarrow>
          let recipients = collect_addresses (mail_bcc parsed) (collect_addresses (mail_cc parsed) (collect_addresses (mail_to parsed) [])) in
          case recipients of
            [] \<Rightarrow> Inl ''no recipient found''
          | [recipient] \<Rightarrow>
              if ch CHR ''@'' \<notin> set recipient then Inl ''recipient has no @''
              else Inr \<lparr> pm_recipient = recipient, pm_subject = mail_subject parsed,
                pm_body = unwrap_or (mail_body_text parsed) raw_bytes \<rparr>
          | _ \<Rightarrow> Inl ''DMP send is one-recipient-per-message'')"

section \<open>Writing a mail\<close>

definition writeln :: "string \<Rightarrow> rstr \<Rightarrow> bytes" where
  "writeln label value = ascii label @ value @ [10]"

text \<open>\<open>a.split('@').next()\<close>.\<close>

definition before_at :: "rstr \<Rightarrow> rstr" where
  "before_at a = (case split_once (ch CHR ''@'') a of Some (u, _) \<Rightarrow> u | None \<Rightarrow> a)"

text \<open>\<open>chunks(n)\<close>, for \<open>n > 0\<close>.\<close>

fun chunks_of :: "nat \<Rightarrow> bytes \<Rightarrow> bytes list" where
  "chunks_of n [] = []"
| "chunks_of n (b # bs) = (if n = 0 then [] else take n (b # bs) # chunks_of n (drop n (b # bs)))"

definition build_envelope :: "prims \<Rightarrow> inbox_message \<Rightarrow> rstr option \<Rightarrow> bytes" where
  "build_envelope P msg sender_address =
     (let sender_hex = hex_encode P (in_sender_signing_pk msg);
          msg_id_hex = hex_encode P (in_msg_id msg);
          short_id = take 12 msg_id_hex;
          short_sender = take 12 sender_hex;
          synthetic = ascii ''dmp-'' @ short_sender @ ascii ''@dmp.local'';
          from_addr = unwrap_or sender_address synthetic;
          subject_label = (case sender_address of Some a \<Rightarrow> before_at a | None \<Rightarrow> short_sender);
          out = writeln ''From: '' from_addr @
            writeln ''Subject: [DMP] '' (subject_label @ ascii '' '' @ short_id) @
            writeln ''Reply-To: '' from_addr @
            writeln ''X-DMP-Sender-SPK: '' sender_hex @
            writeln ''X-DMP-Sender-Address: '' from_addr @
            writeln ''X-DMP-Msg-Id: '' msg_id_hex @
            writeln ''X-DMP-Timestamp: '' (dec (unat (in_timestamp msg))) @
            writeln ''MIME-Version: 1.0'' []
      in if is_utf8 (in_plaintext msg) then
           out @ writeln ''Content-Type: text/plain; charset=utf-8'' [] @ writeln ''Content-Transfer-Encoding: 8bit'' [] @
             [10] @ in_plaintext msg
         else
           out @ writeln ''Content-Type: application/octet-stream'' [] @ writeln ''Content-Transfer-Encoding: base64'' [] @
             [10] @ concat (map (\<lambda>chunk. chunk @ [10]) (chunks_of 76 (b64_encode P (in_plaintext msg)))))"

text \<open>\<open>deliver\<close> over the directory operations of the maildir crate, which give back the name of the new file.\<close>

definition maildir_deliver ::
    "prims \<Rightarrow> (string, unit, 'w) step \<Rightarrow> (bytes \<Rightarrow> (string, rstr, 'w) step) \<Rightarrow> inbox_message \<Rightarrow> rstr option \<Rightarrow> (string, rstr, 'w) step" where
  "maildir_deliver P create_dirs store_new msg sender_address =
     eff_bind (eff_err (\<lambda>_. ''creating maildir'') create_dirs) (\<lambda>_.
       eff_err (\<lambda>_. ''writing to maildir'') (store_new (build_envelope P msg sender_address)))"

section \<open>What a mail program reads\<close>

text \<open>A reader of the file: the header lines up to the first empty line, and the body after it, decoded as the header says.\<close>

function mail_lines :: "bytes \<Rightarrow> bytes list \<times> bytes" where
  "mail_lines s =
     (case split_once 10 s of
        None \<Rightarrow> ([s], [])
      | Some (l, rest) \<Rightarrow> if l = [] then ([], rest) else (case mail_lines rest of (ls, body) \<Rightarrow> (l # ls, body)))"
  by auto
termination by (relation "measure length") (auto simp: split_once_Some)

definition read_mail :: "prims \<Rightarrow> bytes \<Rightarrow> bytes list \<times> bytes option" where
  "read_mail P s =
     (case mail_lines s of (headers, body) \<Rightarrow>
        (headers, if ascii ''Content-Transfer-Encoding: base64'' \<in> set headers then b64_decode P (filter (\<lambda>b. b \<noteq> 10) body)
                  else Some body))"

declare mail_lines.simps [simp del]

definition mail_headers :: "prims \<Rightarrow> bytes \<Rightarrow> bytes \<Rightarrow> u64 \<Rightarrow> bool \<Rightarrow> rstr option \<Rightarrow> rstr list" where
  "mail_headers P spk msg_id ts plain_text sender_address =
     (let from_addr = unwrap_or sender_address (ascii ''dmp-'' @ take 12 (hex_encode P spk) @ ascii ''@dmp.local'');
          label = (case sender_address of Some a \<Rightarrow> before_at a | None \<Rightarrow> take 12 (hex_encode P spk))
      in [ascii ''From: '' @ from_addr, ascii ''Subject: [DMP] '' @ label @ ascii '' '' @ take 12 (hex_encode P msg_id),
          ascii ''Reply-To: '' @ from_addr, ascii ''X-DMP-Sender-SPK: '' @ hex_encode P spk, ascii ''X-DMP-Sender-Address: '' @ from_addr,
          ascii ''X-DMP-Msg-Id: '' @ hex_encode P msg_id, ascii ''X-DMP-Timestamp: '' @ dec (unat ts), ascii ''MIME-Version: 1.0''] @
         (if plain_text then [ascii ''Content-Type: text/plain; charset=utf-8'', ascii ''Content-Transfer-Encoding: 8bit'']
          else [ascii ''Content-Type: application/octet-stream'', ascii ''Content-Transfer-Encoding: base64'']))"

lemma mail_lines_Cons: "10 \<notin> set l \<Longrightarrow> l \<noteq> [] \<Longrightarrow> mail_lines (l @ 10 # rest) = (l # fst (mail_lines rest), snd (mail_lines rest))"
  by (subst mail_lines.simps) (simp add: split_once_Some [THEN iffD2] split: prod.splits)

lemma mail_lines_blank: "mail_lines (10 # rest) = ([], rest)"
  by (subst mail_lines.simps) (simp add: split_once_Some [where u = "[]", THEN iffD2])

lemma mail_lines_headers:
  "\<forall>l \<in> set ls. 10 \<notin> set l \<and> l \<noteq> [] \<Longrightarrow> mail_lines (concat (map (\<lambda>l. l @ [10]) ls) @ 10 # body) = (ls, body)"
  by (induction ls) (simp_all add: mail_lines_blank mail_lines_Cons)

lemma chunks_of_Cons: "0 < n \<Longrightarrow> s \<noteq> [] \<Longrightarrow> chunks_of n s = take n s # chunks_of n (drop n s)"
  by (cases s) simp_all

declare chunks_of.simps(2) [simp del]

lemma chunks_concat: "0 < n \<Longrightarrow> concat (chunks_of n s) = s"
proof (induction "length s" arbitrary: s rule: less_induct)
  case less
  show ?case
  proof (cases "s = []")
    case False
    then have "concat (chunks_of n (drop n s)) = drop n s" using less by simp
    then show ?thesis by (simp add: chunks_of_Cons [OF less(2) False])
  qed simp
qed

lemma unwrap_lines: "10 \<notin> set (concat cs) \<Longrightarrow> filter (\<lambda>b. b \<noteq> 10) (concat (map (\<lambda>c. c @ [10]) cs)) = (concat cs :: bytes)"
  by (induction cs) (auto intro: filter_True)

lemma envelope_form:
  "build_envelope P msg addr =
     concat (map (\<lambda>l. l @ [10]) (mail_headers P (in_sender_signing_pk msg) (in_msg_id msg) (in_timestamp msg) (is_utf8 (in_plaintext msg)) addr)) @
     10 # (if is_utf8 (in_plaintext msg) then in_plaintext msg
           else concat (map (\<lambda>c. c @ [10]) (chunks_of 76 (b64_encode P (in_plaintext msg)))))"
  by (simp add: build_envelope_def mail_headers_def writeln_def Let_def)

lemma digits_line: "10 \<notin> set (dec n)"
  using dec_digits [of n] by (auto simp: list_all_iff is_digit_def ch_def)

lemma hex_line: assumes "hex_codec P S" shows "10 \<notin> set (hex_encode P x)"
proof
  assume "10 \<in> set (hex_encode P x)"
  then have "is_digit 10 \<or> ch CHR ''a'' \<le> 10 \<and> 10 \<le> ch CHR ''f''" using assms by (auto simp: hex_codec_def list_all_iff)
  then show False by (simp add: is_digit_def ch_def)
qed

lemma before_at_line: "10 \<notin> set a \<Longrightarrow> 10 \<notin> set (before_at a)"
  by (cases "split_once (ch CHR ''@'') a") (auto simp: before_at_def split_once_Some)

lemma ascii_line: "10 \<in> set (ascii s) \<longleftrightarrow> CHR ''\<newline>'' \<in> set s"
proof -
  have "10 = ch (CHR ''\<newline>'')" by (simp add: ch_def)
  then show ?thesis by (auto simp: ascii_def ch_eq)
qed

lemma header_lines:
  assumes "hex_codec P S" "\<forall>a. addr = Some a \<longrightarrow> 10 \<notin> set a" "l \<in> set (mail_headers P spk msg_id ts plain_text addr)"
  shows "10 \<notin> set l \<and> l \<noteq> []"
proof -
  have t: "10 \<notin> set (take n (hex_encode P x))" for n x using hex_line [OF assms(1)] by (meson in_set_takeD)
  have n: "ascii s = [] \<longleftrightarrow> s = []" for s by (simp add: ascii_def)
  show ?thesis
    using assms(3) by (cases addr) (auto simp: mail_headers_def Let_def unwrap_or_def ascii_line t n hex_line [OF assms(1)] digits_line
      before_at_line assms(2) split: if_splits)
qed

lemma encoding_line: "ascii ''Content-Transfer-Encoding: base64'' \<in> set (mail_headers P spk msg_id ts plain_text addr) \<longleftrightarrow> \<not> plain_text"
  by (simp add: mail_headers_def Let_def ascii_def ch_eq)

text \<open>C21: A received message is read from the mail file as it was received, and its text cannot forge a header. When base64 has
  no line breaks and the address that the address book gives for the sender has none, a mail program reads exactly the ten
  headers of \<open>mail_headers\<close>, which depend on the key, the id, the time, the address and on whether the text is UTF-8, but not on
  the text itself or on the label that the sender claims; and the body is the text, byte for byte.\<close>

theorem mail_unforgeable:
  assumes "b64_codec P" "hex_codec P S" "\<forall>x. 10 \<notin> set (b64_encode P x)" "\<forall>a. addr = Some a \<longrightarrow> 10 \<notin> set a"
  shows "read_mail P (build_envelope P msg addr) =
    (mail_headers P (in_sender_signing_pk msg) (in_msg_id msg) (in_timestamp msg) (is_utf8 (in_plaintext msg)) addr, Some (in_plaintext msg))"
proof -
  have "filter (\<lambda>b. b \<noteq> 10) (concat (map (\<lambda>c. c @ [10]) (chunks_of 76 (b64_encode P x)))) = b64_encode P x" for x
    using unwrap_lines [of "chunks_of 76 (b64_encode P x)"] assms(3) by (simp add: chunks_concat)
  then show ?thesis
    using assms(1) mail_lines_headers [OF ballI [OF header_lines [OF assms(2,4)]]]
    by (simp add: read_mail_def envelope_form encoding_line b64_codec_def)
qed

text \<open>A codec without line breaks.\<close>

definition line_prims :: prims where
  "line_prims = demo_prims\<lparr>b64_encode := demo_hex, b64_decode := \<lambda>s. if demo_hex (parse_hex s) = s then Some (parse_hex s) else None\<rparr>"

theorem mail_unforgeable_witness:
  "read_mail line_prims (build_envelope line_prims
     \<lparr> in_sender_signing_pk = [], in_plaintext = [10, 255], in_timestamp = 0, in_msg_id = [], in_sender_label = None \<rparr> None) =
   (mail_headers line_prims [] [] 0 (is_utf8 [10, 255]) None, Some [10, 255])"
proof -
  have hex: "hex_codec line_prims demo_serde" using demo_hex_codec by (simp add: hex_codec_def line_prims_def)
  have "b64_encode line_prims = hex_encode line_prims" by (simp add: line_prims_def demo_prims_def)
  moreover have "parse_hex (demo_hex x) = x" for x
    using demo_hex_codec by (simp add: hex_codec_def demo_prims_def demo_serde_def split: if_splits)
  then have "b64_codec line_prims" by (auto simp: b64_codec_def line_prims_def)
  ultimately show ?thesis
    using mail_unforgeable [OF _ hex, of None
        "\<lparr> in_sender_signing_pk = [], in_plaintext = [10, 255], in_timestamp = 0, in_msg_id = [], in_sender_label = None \<rparr>"] hex_line [OF hex]
    by simp
qed

end
