(* ===== verification/Spec2Isabelle.thy ===== *)
theory Spec2Isabelle
  imports Bootstrap Heartbeat ClaimRouting Rotate Registration Maildir
begin

text \<open>
  A verification library of dnsmesh, a mesh messaging system that stores end-to-end encrypted messages in DNS TXT
  records. A user publishes an identity record and a pool of one-time prekeys under the names of its zone. A sender
  encrypts a message to a contact, cuts it into erasure-coded chunks, publishes the chunks in its own zone and a signed
  manifest in one of ten mailbox slots of the recipient. The recipient polls the slots of its own zone and of its
  contacts' zones, verifies the manifests, fetches and decrypts the messages, and keeps unknown senders in quarantine.

  \<^bold>\<open>Theories and files.\<close> (Paths are under \<open>src/crates\<close>.)

  Foundations: \<open>Prelude\<close> (bytes, results, big-endian integers), \<open>Strings\<close> (UTF-8 text as bytes, trimming, decimal
  numbers), \<open>Wire\<close> (the prefix and base64 form of a record and the locales of signed records), \<open>Reader\<close>, \<open>Float64\<close> (the
  one floating-point computation, of the redundancy), \<open>Tables\<close> (database tables as association lists with a primary
  key), \<open>Json\<close> (serde_json and hex as parameters), \<open>Effects\<close> (fallible steps that change the state of the world).

  \<open>dnsmesh-core\<close>: \<open>GaloisTables\<close>, \<open>GaloisField\<close>, \<open>FieldMatrix\<close>, \<open>Fec\<close>, \<open>FecMatrix\<close>, \<open>FecVandermonde\<close>, \<open>FecRoundtrip\<close> and
  \<open>FecDecode\<close> model \<open>erasure/fec.rs\<close>; \<open>Erasure\<close> models \<open>erasure/mod.rs\<close>; \<open>Chunking\<close> models \<open>chunking.rs\<close>; \<open>Crypto\<close> models
  \<open>crypto.rs\<close> and \<open>ed25519_points.rs\<close>; \<open>Message\<close> and \<open>Envelope\<close> model \<open>message.rs\<close> and \<open>envelope.rs\<close>; \<open>DnsNames\<close> and
  \<open>Endpoint\<close> hold the checks of names and URLs; the other theories with the name of a record (\<open>Manifest\<close>, \<open>Prekeys\<close>,
  \<open>Claim\<close>, \<open>Identity\<close>, \<open>Rotation\<close>, \<open>Revocation\<close>, \<open>Cluster\<close>, \<open>Bootstrap\<close>, \<open>Heartbeat\<close>) model the file of that name.

  \<open>dnsmesh-net\<close>: \<open>RecordStore\<close> models \<open>memory.rs\<close> and the traits of \<open>base.rs\<close>; \<open>Fanout\<close> models \<open>fanout_writer.rs\<close>,
  \<open>composite_reader.rs\<close> and \<open>union_reader.rs\<close>; \<open>ResolverPool\<close> models \<open>resolver_pool.rs\<close>.

  \<open>HttpWriters\<close> models \<open>cloudflare.rs\<close> and \<open>node_token.rs\<close>; \<open>DnsUpdate\<close> models \<open>dns_update_writer.rs\<close> and \<open>tsig.rs\<close>.

  \<open>dnsmesh-storage\<close>: \<open>ReplayCache\<close>, \<open>PrekeyStore\<close>, \<open>IntroQueue\<close> and \<open>ContactStore\<close> model the files of the tables; \<open>Database\<close>
  models \<open>connection.rs\<close>, and \<open>DmpClient::new\<close> with the connections.

  \<open>dnsmesh-client\<close>: \<open>ClientTypes\<close> (\<open>error.rs\<close>), \<open>Addressing\<close> (\<open>addressing.rs\<close>), \<open>RotationChain\<close> (\<open>rotation_chain.rs\<close>),
  \<open>Client\<close> (\<open>client.rs\<close>, \<open>contacts.rs\<close>, \<open>publish.rs\<close>, \<open>unpublish.rs\<close>, \<open>intro.rs\<close>), \<open>Send\<close> (\<open>send.rs\<close>), \<open>Receive\<close>
  (\<open>receive.rs\<close>), \<open>ClaimRouting\<close> (\<open>claim.rs\<close>), \<open>Rotate\<close> (\<open>rotate.rs\<close>). \<open>Delivery\<close> puts sending and receiving
  together, and \<open>HostedPrekeys\<close> publishing and the Cloudflare writer.

  \<open>dnsmesh-cli\<close>: \<open>Config\<close> (\<open>config.rs\<close>), \<open>Factory\<close> (\<open>client_factory.rs\<close>), \<open>Registration\<close> (\<open>commands/register.rs\<close>),
  \<open>Maildir\<close> (\<open>mua/rfc5322.rs\<close>, \<open>mua/maildir.rs\<close>).

  \<^bold>\<open>How the code is modelled.\<close> A struct is a record and an enum a datatype with the names of the source; integers are
  words of their width; text is its UTF-8 bytes. A fallible function returns \<open>error + value\<close> or an option. A method that
  changes state returns the new state beside its result. The clock, random bytes, the answers of the DNS and whether a
  statement on a database works are arguments, so the theorems hold for every run of them; a failed operation keeps
  the state that it had reached. The client's operations take the DNS as the record \<open>dns\<close> of the two traits over a state
  type \<open>'w\<close>, of which the in-memory store is an instance. A poll of \<open>receive_messages\<close> is split into steps, each with an environment
  of its own, so the DNS, the clock and the databases may change at any point of it; the iteration order of a hash
  map is an argument as well.

  \<^bold>\<open>Crates.\<close> The cryptographic crates, base64 and hex are the fields of \<open>prims\<close>, serde_json those of \<open>serde\<close>, and the
  Reed-Solomon crate the functions \<open>rs_encode\<close> and \<open>rs_correct\<close>. The predicates \<open>b64_codec\<close>, \<open>digest\<close>, \<open>ed25519\<close>,
  \<open>x25519_aead\<close>, \<open>aead_seals\<close>, \<open>serde_json\<close>, \<open>hex_codec\<close> and \<open>rs_code\<close> state their documented behaviour, and theorems
  name the ones they need. \<open>demo_prims\<close>, \<open>demo_serde\<close> and the verified erasure code itself satisfy them.
  The HTTP client is the record \<open>http_api\<close>, the DNS crate \<open>hickory\<close>, the database crate \<open>sqlite\<close>, the machine of the command line \<open>host\<close> and
  \<open>machine\<close>, and a node and the files of a registration \<open>registrar\<close>; \<open>cloudflare_zone\<close>, \<open>update_server\<close> and \<open>sqlcipher\<close> state what the
  documentation of a service promises, and \<open>demo_http\<close>, \<open>demo_hickory\<close> and \<open>demo_sqlite\<close> satisfy them.

  \<^bold>\<open>What the lemmas show.\<close> For the erasure code: the tables are the arithmetic of a field, the encoder matrix is
  maximum-distance separable, and any k shares decode. For each signed record: the body codec is exact, and a
  record is accepted exactly when its own canonical form is signed by the right key and fresh. For the stores:
  refinement of a map, a set that forgets (whose \<open>check_and_record\<close> is also given as the critical sections that several callers
  interleave), and a finite map of contacts. For the client: labels, trust and rotation chains rest on
  verified records; every delivered message is authentic and is delivered once; and what is sent is received.
  For the writers: what stands in a zone after a series of accepted writes, to which origin each request with a token goes (told over a
  log of all the requests that an operation sends), and what each outcome of an update says of the answers of the server. For the command line: which file opens under which key, which writer a configuration gives and where its
  token is sent, what a registration posts and signs (over a log of its requests), that secrets and the store of the tests are read back as they were written, and that the mail file of a
  received message holds its text and no header from it.

  \<^bold>\<open>Bounds and fuel.\<close> No definition uses fuel except the reader of the demonstration JSON, whose fuel is the length of the
  text; loops are recursion on their lists or counters. Encoding a message of up to 24,000 bytes cannot fail: with
  the envelope, the frame and the tag it stays below the 25,084 bytes that the default redundancy can carry.

  \<^bold>\<open>Not modelled.\<close> The foreign-function interface (\<open>dnsmesh-ffi\<close>), which converts pointers and strings around the client; argument
  parsing, printing and the commands of \<open>dnsmesh-cli\<close> that only call the client and print; the sockets of \<open>resolver_pool.rs\<close>
  (\<open>query_one\<close>, \<open>classify_error\<close>), which are the outcome of asking a host; log messages, and timing beyond the clock values above.
\<close>

end
